(* ===== verification/Py_Prelude.thy ===== *)
theory Py_Prelude
  imports Main "HOL-Library.AList" "HOL-Library.Multiset"
begin

text \<open>
  Shared vocabulary of the development: Python exceptions as values, the result type every
  fallible operation returns, Python list indexing and slicing, insertion-ordered
  dictionaries as association lists, and the decimal rendering of integers that the code
  uses in keys and file names. The collections \<open>py_eval\<close> (evaluation of the result
  monad and of Python primitives) and \<open>slice_simps\<close> (slices) carry the component proofs.
\<close>

named_theorems py_eval
named_theorems slice_simps

section \<open>Errors and results\<close>

datatype py_error =
    ValueError | KeyError | IndexError | TypeError | RuntimeError | AssertionError
  | AttributeError | NotImplementedError | TimeoutError | FloatingPointError
  | ZeroDivisionError | OSError | StopIteration | ImportError

type_synonym 'a result = "py_error + 'a"

definition bind_result :: "'a result \<Rightarrow> ('a \<Rightarrow> 'b result) \<Rightarrow> 'b result" where
  "bind_result r f = (case r of Inl e \<Rightarrow> Inl e | Inr a \<Rightarrow> f a)"

definition require :: "bool \<Rightarrow> py_error \<Rightarrow> unit result" where
  "require b e = (if b then Inr () else Inl e)"

primrec map_result :: "('a \<Rightarrow> 'b result) \<Rightarrow> 'a list \<Rightarrow> 'b list result" where
  "map_result f [] = Inr []"
| "map_result f (x # xs) =
     bind_result (f x) (\<lambda>y. bind_result (map_result f xs) (\<lambda>ys. Inr (y # ys)))"

definition concat_result :: "('a \<Rightarrow> 'b list result) \<Rightarrow> 'a list \<Rightarrow> 'b list result" where
  \<comment> \<open>a loop that appends the items of every element, until one raises\<close>
  "concat_result f xs = bind_result (map_result f xs) (\<lambda>ys. Inr (concat ys))"

lemma bind_result_simps [simp, py_eval]:
  "bind_result (Inl e) f = Inl e"
  "bind_result (Inr a) f = f a"
  by (simp_all add: bind_result_def)

lemma bind_result_eq_Inr [simp]:
  "bind_result r f = Inr b \<longleftrightarrow> (\<exists>a. r = Inr a \<and> f a = Inr b)"
  by (cases r) auto

lemma bind_result_eq_Inl [simp]:
  "bind_result r f = Inl e \<longleftrightarrow> r = Inl e \<or> (\<exists>a. r = Inr a \<and> f a = Inl e)"
  by (cases r) auto

lemma require_simps [simp, py_eval]:
  "require True e = Inr ()"
  "require False e = Inl e"
  by (simp_all add: require_def)

lemma require_eq_Inr [simp]: "require b e = Inr u \<longleftrightarrow> b"
  by (simp add: require_def)

lemma require_eq_Inl [simp]: "require b e = Inl e' \<longleftrightarrow> \<not> b \<and> e' = e"
  by (auto simp: require_def)

lemma map_result_total:
  "(\<And>x. x \<in> set xs \<Longrightarrow> f x = Inr (g x)) \<Longrightarrow> map_result f xs = Inr (map g xs)"
  by (induction xs) auto

lemma map_result_Inr_iff:
  "map_result f xs = Inr ys \<longleftrightarrow> list_all2 (\<lambda>x y. f x = Inr y) xs ys"
  by (induction xs arbitrary: ys) (auto simp: list_all2_Cons1)

lemma map_result_map: "map_result f (map g xs) = map_result (\<lambda>x. f (g x)) xs"
  by (induction xs) auto

lemma map_result_length: "map_result f xs = Inr ys \<Longrightarrow> length ys = length xs"
  by (simp add: map_result_Inr_iff list_all2_lengthD)

lemma map_result_nth:
  "map_result f xs = Inr ys \<Longrightarrow> i < length xs \<Longrightarrow> f (xs ! i) = Inr (ys ! i)"
  by (auto simp: map_result_Inr_iff dest: list_all2_nthD)

lemma map_result_mem: "map_result f xs = Inr ys \<Longrightarrow> y \<in> set ys \<Longrightarrow> \<exists>x \<in> set xs. f x = Inr y"
  by (induction xs arbitrary: ys) auto

lemma map_result_Inl:
  "map_result f xs = Inl e \<Longrightarrow> \<exists>x \<in> set xs. f x = Inl e"
  by (induction xs) auto

lemma concat_result_simps [simp, py_eval]:
  "concat_result f [] = Inr []"
  "concat_result f (x # xs) =
     bind_result (f x) (\<lambda>ys. bind_result (concat_result f xs) (\<lambda>zs. Inr (ys @ zs)))"
  by (simp_all add: concat_result_def bind_result_def split: sum.split)

lemma concat_result_total:
  "(\<And>x. x \<in> set xs \<Longrightarrow> f x = Inr (g x)) \<Longrightarrow> concat_result f xs = Inr (concat (map g xs))"
  by (simp add: concat_result_def map_result_total)

section \<open>Python lists: indexing and slicing\<close>

definition py_index :: "'a list \<Rightarrow> int \<Rightarrow> 'a result" where
  \<comment> \<open>\<open>xs[i]\<close>: a negative index counts from the end, out of range raises IndexError\<close>
  "py_index xs i =
     (let size = int (length xs); pos = (if i < 0 then size + i else i)
      in if pos < 0 \<or> size \<le> pos then Inl IndexError else Inr (xs ! nat pos))"

definition py_slice :: "nat \<Rightarrow> nat \<Rightarrow> 'a list \<Rightarrow> 'a list" where
  \<comment> \<open>\<open>xs[s:e]\<close> for non-negative bounds: out-of-range bounds are clamped\<close>
  "py_slice s e xs = take (e - s) (drop s xs)"

lemma py_index_nat [simp, py_eval]:
  "i < length xs \<Longrightarrow> py_index xs (int i) = Inr (xs ! i)"
  by (simp add: py_index_def)

lemma py_index_neg:
  "0 < k \<Longrightarrow> k \<le> length xs \<Longrightarrow> py_index xs (- int k) = Inr (xs ! (length xs - k))"
  by (auto simp: py_index_def Let_def nat_diff_distrib)

lemma py_index_out:
  "i < - int (length xs) \<or> int (length xs) \<le> i \<Longrightarrow> py_index xs i = Inl IndexError"
  by (auto simp: py_index_def Let_def)

lemma upt_Suc_map: "[0..<Suc n] = 0 # map Suc [0..<n]"
  by (simp add: upt_conv_Cons map_Suc_upt del: upt_Suc)

lemma butlast_upt_0: "butlast [0..<k] = [0..<k - 1]"
  by (cases k) simp_all

lemma py_slice_Nil [simp]: "py_slice s e [] = []"
  by (simp add: py_slice_def)

lemma py_slice_full [simp]: "length xs \<le> e \<Longrightarrow> py_slice 0 e xs = xs"
  by (simp add: py_slice_def)

lemma py_slice_empty [simp]: "e \<le> s \<Longrightarrow> py_slice s e xs = []"
  by (simp add: py_slice_def)

lemma length_py_slice [slice_simps]:
  "length (py_slice s e xs) = min (e - s) (length xs - s)"
  by (simp add: py_slice_def)

lemma length_py_slice_in [simp]:
  "e \<le> length xs \<Longrightarrow> length (py_slice s e xs) = e - s"
  by (auto simp: py_slice_def)

lemma nth_py_slice [slice_simps]:
  "s + i < e \<Longrightarrow> e \<le> length xs \<Longrightarrow> py_slice s e xs ! i = xs ! (s + i)"
  by (simp add: py_slice_def)

lemma py_slice_nths: "e \<le> length xs \<Longrightarrow> py_slice s e xs = map (\<lambda>i. xs ! i) [s..<e]"
  by (rule nth_equalityI) (auto simp: nth_py_slice)

lemma map_py_slice [slice_simps]: "map f (py_slice s e xs) = py_slice s e (map f xs)"
  by (simp add: py_slice_def take_map drop_map)

lemma set_py_slice: "set (py_slice s e xs) \<subseteq> set xs"
  unfolding py_slice_def by (meson order_trans set_drop_subset set_take_subset)

lemma py_slice_append:
  assumes "a \<le> b" "b \<le> c"
  shows "py_slice a b xs @ py_slice b c xs = py_slice a c xs"
proof -
  have "drop b xs = drop (b - a) (drop a xs)" using assms by simp
  moreover have "c - a = (b - a) + (c - b)" using assms by simp
  ultimately show ?thesis by (simp only: py_slice_def take_add)
qed

text \<open>Consecutive slices along a monotone sequence of cut points tile the list.\<close>

lemma concat_slices:
  assumes "\<And>i. i < k \<Longrightarrow> f i \<le> f (Suc i)"
  shows "concat (map (\<lambda>i. py_slice (f i) (f (Suc i)) xs) [0..<k]) = py_slice (f 0) (f k) xs
         \<and> f 0 \<le> f k"
  using assms
proof (induction k)
  case 0
  show ?case by simp
next
  case (Suc k)
  then have "concat (map (\<lambda>i. py_slice (f i) (f (Suc i)) xs) [0..<k]) = py_slice (f 0) (f k) xs"
    and "f 0 \<le> f k" and "f k \<le> f (Suc k)" by simp_all
  then show ?case by (simp add: py_slice_append)
qed

lemma concat_upts:
  assumes "\<And>i. i < k \<Longrightarrow> f i \<le> f (Suc i)"
  shows "concat (map (\<lambda>i. [f i..<f (Suc i)]) [0..<k]) = [f 0..<f k] \<and> f 0 \<le> f k"
  using assms
proof (induction k)
  case 0
  show ?case by simp
next
  case (Suc k)
  then have "concat (map (\<lambda>i. [f i..<f (Suc i)]) [0..<k]) = [f 0..<f k]"
    and le: "f 0 \<le> f k" "f k \<le> f (Suc k)" by simp_all
  moreover have "[f 0..<f k] @ [f k..<f (Suc k)] = [f 0..<f (Suc k)]"
    using le by (metis le_add_diff_inverse upt_add_eq_append)
  ultimately show ?case by simp
qed

lemma concat_slices_all:
  assumes "\<And>i. i < k \<Longrightarrow> f i \<le> f (Suc i)" "f 0 = 0" "f k = length xs"
  shows "concat (map (\<lambda>i. py_slice (f i) (f (Suc i)) xs) [0..<k]) = xs"
  using concat_slices [where f = f and k = k and xs = xs] assms by simp

section \<open>Dictionaries\<close>

text \<open>
  A Python dictionary keeps its insertion order, which \<open>next(iter(d))\<close> observes; it is an
  association list with distinct keys. \<open>d[k] = v\<close> is \<^term>\<open>AList.update\<close>: in place
  when the key is present, appended otherwise.
\<close>

type_synonym ('k, 'v) dict = "('k \<times> 'v) list"

abbreviation dict_keys :: "('k, 'v) dict \<Rightarrow> 'k list" where
  "dict_keys d \<equiv> map fst d"

abbreviation dict_set :: "'k \<Rightarrow> 'v \<Rightarrow> ('k, 'v) dict \<Rightarrow> ('k, 'v) dict" where
  "dict_set \<equiv> AList.update"

definition dict_map :: "('v \<Rightarrow> 'w) \<Rightarrow> ('k, 'v) dict \<Rightarrow> ('k, 'w) dict" where
  \<comment> \<open>\<open>{k: f(v) for k, v in d.items()}\<close>\<close>
  "dict_map f d = map (\<lambda>(k, v). (k, f v)) d"

definition dict_update :: "('k, 'v) dict \<Rightarrow> ('k, 'v) dict \<Rightarrow> ('k, 'v) dict" where
  \<comment> \<open>\<open>d.update(d2)\<close>\<close>
  "dict_update d d2 = fold (\<lambda>(k, v). dict_set k v) d2 d"

definition dict_get :: "('k, 'v) dict \<Rightarrow> 'k \<Rightarrow> 'v result" where
  \<comment> \<open>\<open>d[k]\<close>: KeyError when absent\<close>
  "dict_get d k = (case map_of d k of None \<Rightarrow> Inl KeyError | Some v \<Rightarrow> Inr v)"

lemma dict_map_simps [simp]:
  "dict_map f [] = []"
  "dict_map f ((k, v) # d) = (k, f v) # dict_map f d"
  by (simp_all add: dict_map_def)

lemma keys_dict_map [simp]: "map fst (dict_map f d) = map fst d"
  by (induction d) auto

lemma set_keys_dict_map [simp]: "fst ` set (dict_map f d) = fst ` set d"
  by (metis keys_dict_map set_map)

lemma map_of_dict_map [simp]: "map_of (dict_map f d) k = map_option f (map_of d k)"
  by (induction d) auto

lemma set_dict_map: "set (dict_map f d) = (\<lambda>(k, v). (k, f v)) ` set d"
  by (simp add: dict_map_def)

lemma dict_map_eq_Nil [simp]: "dict_map f d = [] \<longleftrightarrow> d = []"
  by (simp add: dict_map_def)

lemma dict_map_cong:
  "(\<And>k v. (k, v) \<in> set d \<Longrightarrow> f v = g v) \<Longrightarrow> dict_map f d = dict_map g d"
  by (auto simp: dict_map_def)

lemma dict_map_ident: "(\<And>k v. (k, v) \<in> set d \<Longrightarrow> f v = v) \<Longrightarrow> dict_map f d = d"
  unfolding dict_map_def by (rule map_idI) auto

lemma dict_map_comp: "dict_map f (dict_map g d) = dict_map (\<lambda>v. f (g v)) d"
  by (induction d) auto

lemma map_of_dict_set [simp]: "map_of (dict_set k v d) = (map_of d)(k \<mapsto> v)"
  by (rule AList.update_conv')

lemma distinct_dict_set [simp]: "distinct (map fst d) \<Longrightarrow> distinct (map fst (dict_set k v d))"
  by (rule AList.distinct_update)

lemma set_keys_dict_set [simp]: "fst ` set (dict_set k v d) = insert k (fst ` set d)"
  by (induction d) auto

lemma dict_set_new: "k \<notin> set (map fst d) \<Longrightarrow> dict_set k v d = d @ [(k, v)]"
  by (induction d) auto

lemma set_dict_set_subset: "set (dict_set k v d) \<subseteq> insert (k, v) (set d)"
  by (induction d) auto

lemma set_dict_set:
  assumes "distinct (map fst d)"
  shows "(n, f) \<in> set (dict_set k v d) \<longleftrightarrow> (if n = k then f = v else (n, f) \<in> set d)"
proof -
  have "(n, f) \<in> set (dict_set k v d) \<longleftrightarrow> map_of (dict_set k v d) n = Some f"
    by (rule map_of_eq_Some_iff [symmetric]) (simp add: assms)
  also have "\<dots> \<longleftrightarrow> (if n = k then f = v else map_of d n = Some f)" by auto
  finally show ?thesis by (simp add: map_of_eq_Some_iff [OF assms])
qed

lemma dict_update_simps [simp]:
  "dict_update d [] = d"
  "dict_update d ((k, v) # d2) = dict_update (dict_set k v d) d2"
  by (simp_all add: dict_update_def)

lemma distinct_dict_update: "distinct (map fst d) \<Longrightarrow> distinct (map fst (dict_update d d2))"
  by (induction d2 arbitrary: d) auto

lemma map_of_dict_update:
  "distinct (map fst d2) \<Longrightarrow> map_of (dict_update d d2) = map_of d ++ map_of d2"
proof (induction d2 arbitrary: d)
  case Nil
  show ?case by simp
next
  case (Cons kv d2)
  obtain k v where kv: "kv = (k, v)" by (cases kv)
  from Cons.prems have "map_of d2 k = None"
    by (auto simp: kv map_of_eq_None_iff)
  with Cons show ?case
    by (auto simp: kv fun_eq_iff map_add_def split: option.split)
qed

lemma set_keys_dict_update:
  "fst ` set (dict_update d d2) = fst ` set d \<union> fst ` set d2"
proof (induction d2 arbitrary: d)
  case Nil
  show ?case by simp
next
  case (Cons kv d2)
  show ?case by (cases kv) (simp add: Cons.IH)
qed

lemma set_dict_update_subset: "set (dict_update d d2) \<subseteq> set d \<union> set d2"
proof (induction d2 arbitrary: d)
  case Nil
  show ?case by simp
next
  case (Cons kv d2)
  then show ?case
    using set_dict_set_subset [of "fst kv" "snd kv" d] by (cases kv) fastforce
qed

lemma dict_get_Inr [simp]: "dict_get d k = Inr v \<longleftrightarrow> map_of d k = Some v"
  by (simp add: dict_get_def split: option.split)

lemma dict_get_Inl [simp]: "dict_get d k = Inl e \<longleftrightarrow> map_of d k = None \<and> e = KeyError"
  by (auto simp: dict_get_def split: option.split)

section \<open>Strings\<close>

definition is_space :: "char \<Rightarrow> bool" where
  \<comment> \<open>the ASCII characters \<open>str.strip()\<close> removes\<close>
  "is_space c = (of_char c \<in> {9, 10, 11, 12, 13, 28, 29, 30, 31, 32 :: nat})"

definition py_strip :: "string \<Rightarrow> string" where
  "py_strip s = rev (dropWhile is_space (rev (dropWhile is_space s)))"

fun split_on :: "char \<Rightarrow> string \<Rightarrow> string list" where
  \<comment> \<open>\<open>s.split(c)\<close>\<close>
  "split_on c [] = [[]]"
| "split_on c (x # xs) =
     (if x = c then [] # split_on c xs
      else (case split_on c xs of w # ws \<Rightarrow> (x # w) # ws | [] \<Rightarrow> [[x]]))"

fun split_first :: "char \<Rightarrow> string \<Rightarrow> (string \<times> string) option" where
  \<comment> \<open>\<open>s.split(c, 1)\<close> when \<open>c\<close> occurs in \<open>s\<close>\<close>
  "split_first c [] = None"
| "split_first c (x # xs) =
     (if x = c then Some ([], xs)
      else (case split_first c xs of None \<Rightarrow> None | Some (a, b) \<Rightarrow> Some (x # a, b)))"

definition has_prefix :: "string \<Rightarrow> string \<Rightarrow> bool" where
  \<comment> \<open>\<open>s.startswith(p)\<close>\<close>
  "has_prefix p s = (take (length p) s = p)"

definition lower_char :: "char \<Rightarrow> char" where
  "lower_char c = (let n = of_char c :: nat in if 65 \<le> n \<and> n \<le> 90 then char_of (n + 32) else c)"

definition py_lower :: "string \<Rightarrow> string" where
  \<comment> \<open>\<open>s.lower()\<close> on ASCII text\<close>
  "py_lower s = map lower_char s"

lemma split_first_append: "c \<notin> set pre \<Longrightarrow> split_first c (pre @ c # m) = Some (pre, m)"
  by (induction pre) auto

lemma has_prefix_append [simp]: "has_prefix p (p @ s)"
  by (simp add: has_prefix_def)

lemma has_prefix_split: "has_prefix p s \<Longrightarrow> s = p @ drop (length p) s"
  unfolding has_prefix_def by (metis append_take_drop_id)

definition has_suffix :: "string \<Rightarrow> string \<Rightarrow> bool" where
  \<comment> \<open>\<open>s.endswith(p)\<close>\<close>
  "has_suffix p s = has_prefix (rev p) (rev s)"

definition digit_char :: "nat \<Rightarrow> char" where
  "digit_char n = char_of (48 + n)"

definition is_digit :: "char \<Rightarrow> bool" where
  "is_digit c = (48 \<le> (of_char c :: nat) \<and> (of_char c :: nat) \<le> 57)"

definition digit_val :: "char \<Rightarrow> nat" where
  "digit_val c = of_char c - 48"

fun show_nat :: "nat \<Rightarrow> string" where
  "show_nat n = (if n < 10 then [digit_char n] else show_nat (n div 10) @ [digit_char (n mod 10)])"

declare show_nat.simps [simp del]

definition show_int :: "int \<Rightarrow> string" where
  \<comment> \<open>\<open>str(i)\<close> of a Python integer\<close>
  "show_int i = (if i < 0 then ''-'' @ show_nat (nat (- i)) else show_nat (nat i))"

fun parse_digits :: "bool \<Rightarrow> nat \<Rightarrow> string \<Rightarrow> nat option" where
  \<comment> \<open>decimal digits with single underscores between digits, as \<open>int(s)\<close> accepts\<close>
  "parse_digits prev acc [] = (if prev then Some acc else None)"
| "parse_digits prev acc (c # cs) =
     (if is_digit c then parse_digits True (10 * acc + digit_val c) cs
      else if c = CHR ''_'' \<and> prev then parse_digits False acc cs
      else None)"

definition py_int :: "string \<Rightarrow> int option" where
  \<comment> \<open>\<open>int(s)\<close> on ASCII text; None stands for ValueError\<close>
  "py_int s =
     (case py_strip s of
        [] \<Rightarrow> None
      | c # cs \<Rightarrow>
          if c = CHR ''-'' then map_option (\<lambda>n. - int n) (parse_digits False 0 cs)
          else if c = CHR ''+'' then map_option int (parse_digits False 0 cs)
          else map_option int (parse_digits False 0 (c # cs)))"

lemma digit_char_digit [simp]:
  "n < 10 \<Longrightarrow> is_digit (digit_char n)"
  "n < 10 \<Longrightarrow> digit_val (digit_char n) = n"
  by (simp_all add: is_digit_def digit_char_def digit_val_def)

lemma show_nat_digits: "c \<in> set (show_nat n) \<Longrightarrow> is_digit c"
proof (induction n rule: show_nat.induct)
  case (1 n)
  show ?case
  proof (cases "n < 10")
    case True
    with "1.prems" show ?thesis by (simp add: show_nat.simps [of n])
  next
    case False
    with "1.prems" consider "c \<in> set (show_nat (n div 10))" | "c = digit_char (n mod 10)"
      by (auto simp: show_nat.simps [of n])
    then show ?thesis using "1.IH" False by cases simp_all
  qed
qed

lemma show_nat_nonempty [simp]: "show_nat n \<noteq> []"
  by (simp add: show_nat.simps [of n])

lemma parse_digits_snoc:
  "\<forall>c \<in> set ds. is_digit c \<Longrightarrow> is_digit d \<Longrightarrow>
   parse_digits True acc (ds @ [d]) =
     map_option (\<lambda>m. 10 * m + digit_val d) (parse_digits True acc ds)"
  by (induction ds arbitrary: acc) auto

lemma parse_digits_Cons_prev:
  "ds \<noteq> [] \<Longrightarrow> (\<And>c. c \<in> set ds \<Longrightarrow> is_digit c) \<Longrightarrow> parse_digits p acc ds = parse_digits q acc ds"
  by (cases ds) auto

lemma parse_digits_show_nat: "parse_digits p 0 (show_nat n) = Some n"
proof (induction n arbitrary: p rule: show_nat.induct)
  case (1 n)
  show ?case
  proof (cases "n < 10")
    case True
    then show ?thesis by (simp add: show_nat.simps [of n])
  next
    case False
    have "parse_digits True 0 (show_nat (n div 10) @ [digit_char (n mod 10)]) =
        map_option (\<lambda>m. 10 * m + digit_val (digit_char (n mod 10)))
          (parse_digits True 0 (show_nat (n div 10)))"
      by (rule parse_digits_snoc) (auto dest: show_nat_digits)
    with False "1.IH" have "parse_digits True 0 (show_nat n) = Some n"
      by (simp add: show_nat.simps [of n])
    then show ?thesis
      using parse_digits_Cons_prev [of "show_nat n" p 0 True] show_nat_digits by simp
  qed
qed

lemma is_digit_not_special:
  "is_digit c \<Longrightarrow> \<not> is_space c" "is_digit c \<Longrightarrow> c \<noteq> CHR ''-''" "is_digit c \<Longrightarrow> c \<noteq> CHR ''+''"
  by (auto simp: is_digit_def is_space_def)

lemma py_strip_no_space:
  assumes "\<And>c. c \<in> set s \<Longrightarrow> \<not> is_space c"
  shows "py_strip s = s"
proof -
  have "dropWhile is_space s = s" using assms by (cases s) auto
  moreover have "dropWhile is_space (rev s) = rev s" using assms by (cases s rule: rev_cases) auto
  ultimately show ?thesis by (simp add: py_strip_def)
qed

lemma py_int_show_nat [simp]: "py_int (show_nat n) = Some (int n)"
proof -
  obtain c cs where s: "show_nat n = c # cs" by (cases "show_nat n") simp_all
  have d: "is_digit c" using show_nat_digits [of c n] s by simp
  have "py_strip (show_nat n) = show_nat n"
    by (rule py_strip_no_space) (use show_nat_digits is_digit_not_special in blast)
  then show ?thesis
    using d parse_digits_show_nat [of False n] is_digit_not_special(2,3) [OF d]
    by (simp add: py_int_def s)
qed

lemma py_int_show_int [simp]: "py_int (show_int i) = Some i"
proof (cases "i < 0")
  case True
  have "\<not> is_space c" if "c \<in> set (show_int i)" for c
    using that True show_nat_digits is_digit_not_special
    by (auto simp: show_int_def is_space_def)
  then have "py_strip (show_int i) = show_int i" by (rule py_strip_no_space)
  with True show ?thesis
    by (simp add: py_int_def show_int_def parse_digits_show_nat)
next
  case False
  then show ?thesis by (simp add: show_int_def)
qed

lemma show_nat_inject [simp]: "show_nat m = show_nat n \<longleftrightarrow> m = n"
  by (metis parse_digits_show_nat option.inject)

lemma show_int_inject [simp]: "show_int i = show_int j \<longleftrightarrow> i = j"
  by (metis py_int_show_int option.inject)

end
