(* ===== verification/Tensor.thy ===== *)
theory Tensor
  imports Py_Prelude
begin

text \<open>
  The part of \<open>torch.Tensor\<close> that the batch protocol uses, with the semantics of the torch
  operations it calls: a tensor of at least one dimension is its trailing shape
  \<open>shape[1:]\<close> and its rows along dimension 0, each row being the row-major data of the
  trailing dimensions. Device and element type promotion are not modelled; the elements are
  of any type with a zero (padding value).
\<close>

record 'e tensor =
  t_trail :: "nat list"
  t_rows :: "'e list list"

definition wf_tensor :: "'e tensor \<Rightarrow> bool" where
  "wf_tensor t = list_all (\<lambda>r. length r = prod_list (t_trail t)) (t_rows t)"

definition t_len :: "'e tensor \<Rightarrow> nat" where
  \<comment> \<open>\<open>t.shape[0]\<close>\<close>
  "t_len t = length (t_rows t)"

definition t_ndim :: "'e tensor \<Rightarrow> nat" where
  "t_ndim t = Suc (length (t_trail t))"

definition t_dim1 :: "'e tensor \<Rightarrow> nat result" where
  \<comment> \<open>\<open>t.shape[1]\<close>\<close>
  "t_dim1 t = (case t_trail t of [] \<Rightarrow> Inl IndexError | s # _ \<Rightarrow> Inr s)"

definition t_slice :: "nat \<Rightarrow> nat \<Rightarrow> 'e tensor \<Rightarrow> 'e tensor" where
  \<comment> \<open>\<open>t[start:end]\<close>\<close>
  "t_slice s e t = t\<lparr>t_rows := py_slice s e (t_rows t)\<rparr>"

definition t_gather :: "int list \<Rightarrow> 'e tensor \<Rightarrow> 'e tensor result" where
  \<comment> \<open>\<open>t[index]\<close> for a 1-D integer index: like a list, torch accepts \<open>-n \<le> i < n\<close>\<close>
  "t_gather is t =
     bind_result (map_result (py_index (t_rows t)) is) (\<lambda>rs. Inr (t\<lparr>t_rows := rs\<rparr>))"

definition mask_list :: "bool list \<Rightarrow> 'a list \<Rightarrow> 'a list" where
  "mask_list bs xs = map snd (filter fst (zip bs xs))"

definition t_mask :: "bool list \<Rightarrow> 'e tensor \<Rightarrow> 'e tensor result" where
  \<comment> \<open>\<open>t[mask]\<close> for a 1-D boolean mask\<close>
  "t_mask bs t =
     (if length bs \<noteq> t_len t then Inl IndexError
      else Inr (t\<lparr>t_rows := mask_list bs (t_rows t)\<rparr>))"

definition t_cat :: "'e tensor list \<Rightarrow> 'e tensor result" where
  \<comment> \<open>\<open>torch.cat(ts, dim=0)\<close>: shapes must agree except in dimension 0; 1-D tensors of
      shape (0,) are skipped\<close>
  "t_cat ts =
     (let real = filter (\<lambda>t. \<not> (t_trail t = [] \<and> t_rows t = [])) ts
      in if ts = [] then Inl RuntimeError
         else case real of
           [] \<Rightarrow> Inr \<lparr>t_trail = [], t_rows = []\<rparr>
         | t # _ \<Rightarrow>
             if list_all (\<lambda>u. t_trail u = t_trail t) real
             then Inr \<lparr>t_trail = t_trail t, t_rows = concat (map t_rows real)\<rparr>
             else Inl RuntimeError)"

definition t_pad_dim1 :: "nat \<Rightarrow> 'e::zero tensor \<Rightarrow> 'e tensor" where
  \<comment> \<open>\<open>F.pad(t, [0, 0] * trailing_dims + [0, diff], value=0)\<close>: zeros at the end of dimension 1\<close>
  "t_pad_dim1 diff t =
     (case t_trail t of
        [] \<Rightarrow> t
      | s # rest \<Rightarrow>
          t\<lparr>t_trail := (s + diff) # rest,
            t_rows := map (\<lambda>r. r @ replicate (diff * prod_list rest) 0) (t_rows t)\<rparr>)"

definition t_repeat_interleave :: "nat list \<Rightarrow> 'e tensor \<Rightarrow> 'e tensor result" where
  \<comment> \<open>\<open>t.repeat_interleave(repeats, dim=0)\<close> with one count per row\<close>
  "t_repeat_interleave ks t =
     (if length ks \<noteq> t_len t then Inl RuntimeError
      else Inr (t\<lparr>t_rows := concat (map (\<lambda>(k, r). replicate k r) (zip ks (t_rows t)))\<rparr>))"

definition t_tile :: "nat \<Rightarrow> 'e tensor \<Rightarrow> 'e tensor result" where
  \<comment> \<open>\<open>t.unsqueeze(0).expand(k, *t.shape).reshape(-1, *t.shape[1:])\<close>: the inferred
      dimension is ambiguous when a trailing dimension is 0\<close>
  "t_tile k t =
     (if 0 \<in> set (t_trail t) then Inl RuntimeError
      else Inr (t\<lparr>t_rows := concat (replicate k (t_rows t))\<rparr>))"

section \<open>Slices, masks and gathers\<close>

lemma t_len_slice [simp]: "e \<le> t_len t \<Longrightarrow> t_len (t_slice s e t) = e - s"
  by (simp add: t_len_def t_slice_def)

lemma t_slice_fields [simp]:
  "t_trail (t_slice s e t) = t_trail t"
  "t_rows (t_slice s e t) = py_slice s e (t_rows t)"
  by (simp_all add: t_slice_def)

lemma wf_t_slice [simp]: "wf_tensor t \<Longrightarrow> wf_tensor (t_slice s e t)"
  using set_py_slice [of s e "t_rows t"] by (auto simp: wf_tensor_def list_all_iff)

lemma t_slice_all [simp]: "t_len t \<le> e \<Longrightarrow> t_slice 0 e t = t"
  by (simp add: t_slice_def t_len_def)

lemma mask_list_Nil [simp]: "mask_list [] xs = []" "mask_list bs [] = []"
  by (simp_all add: mask_list_def)

lemma mask_list_Cons [simp]:
  "mask_list (b # bs) (x # xs) = (if b then x # mask_list bs xs else mask_list bs xs)"
  by (simp add: mask_list_def)

lemma mask_list_append:
  "length bs = length xs \<Longrightarrow>
   mask_list (bs @ cs) (xs @ ys) = mask_list bs xs @ mask_list cs ys"
  by (simp add: mask_list_def)

lemma map_mask_list: "map f (mask_list bs xs) = mask_list bs (map f xs)"
  by (induction bs arbitrary: xs) (case_tac xs; simp)+

lemma length_mask_list:
  "length bs = length xs \<Longrightarrow> length (mask_list bs xs) = length (filter id bs)"
  by (induction bs xs rule: list_induct2) auto

lemma set_mask_list: "set (mask_list bs xs) \<subseteq> set xs"
  by (auto simp: mask_list_def dest: set_zip_rightD)

lemma mask_list_nth:
  "length bs = length xs \<Longrightarrow>
   mask_list bs xs = map (\<lambda>i. xs ! i) (filter (\<lambda>i. bs ! i) [0..<length xs])"
proof (induction bs xs rule: list_induct2)
  case Nil
  show ?case by simp
next
  case (Cons b bs x xs)
  with upt_Suc_map [of "length xs"] show ?case by (simp add: filter_map comp_def del: upt_Suc)
qed

lemma mask_list_all_True: "length bs = length xs \<Longrightarrow> (\<And>b. b \<in> set bs \<Longrightarrow> b) \<Longrightarrow> mask_list bs xs = xs"
  by (induction bs xs rule: list_induct2) auto

lemma t_gather_total:
  "(\<And>i. i \<in> set is \<Longrightarrow> i < t_len t) \<Longrightarrow>
   t_gather (map int is) t = Inr (t\<lparr>t_rows := map (\<lambda>i. t_rows t ! i) is\<rparr>)"
  by (simp add: t_gather_def t_len_def map_result_map
      map_result_total [where g = "\<lambda>i. t_rows t ! i"])

lemma t_gather_wf:
  assumes "t_gather is t = Inr u" "wf_tensor t"
  shows "wf_tensor u \<and> t_len u = length is \<and> t_trail u = t_trail t"
proof -
  from assms(1) obtain rs where rs: "map_result (py_index (t_rows t)) is = Inr rs"
    and u: "u = t\<lparr>t_rows := rs\<rparr>" by (auto simp: t_gather_def)
  have "r \<in> set (t_rows t)" if "r \<in> set rs" for r
  proof -
    from that obtain k where k: "k < length rs" "r = rs ! k" by (auto simp: in_set_conv_nth)
    with rs have "py_index (t_rows t) (is ! k) = Inr r"
      using map_result_length [OF rs] map_result_nth [OF rs] by simp
    then show ?thesis by (auto simp: py_index_def Let_def split: if_splits)
  qed
  with assms(2) map_result_length [OF rs] u show ?thesis
    by (auto simp: wf_tensor_def list_all_iff t_len_def)
qed

lemma t_mask_wf:
  "t_mask bs t = Inr u \<Longrightarrow> wf_tensor t \<Longrightarrow>
   wf_tensor u \<and> t_len u = length (filter id bs) \<and> t_trail u = t_trail t"
  using set_mask_list [of bs "t_rows t"]
  by (auto simp: t_mask_def t_len_def wf_tensor_def list_all_iff length_mask_list split: if_splits)

section \<open>Concatenation and padding\<close>

lemma t_cat_same_trail:
  assumes "ts \<noteq> []" "\<And>t. t \<in> set ts \<Longrightarrow> t_trail t = tr"
  shows "t_cat ts = Inr \<lparr>t_trail = tr, t_rows = concat (map t_rows ts)\<rparr>"
proof -
  let ?keep = "\<lambda>t. \<not> (t_trail t = [] \<and> t_rows t = [])"
  have cc: "concat (map t_rows (filter ?keep ts)) = concat (map t_rows ts)"
    by (induction ts) auto
  show ?thesis
  proof (cases "filter ?keep ts")
    case Nil
    have "t_trail (hd ts) = []" using Nil assms(1) by (cases ts) (auto split: if_splits)
    then have "tr = []" using assms by (cases ts) auto
    with Nil cc assms(1) show ?thesis by (simp add: t_cat_def)
  next
    case (Cons u us)
    have sub: "set (u # us) \<subseteq> set ts" using Cons [symmetric] by auto
    then have "list_all (\<lambda>v. t_trail v = t_trail u) (u # us)" "t_trail u = tr"
      using assms(2) by (auto simp: list_all_iff)
    with Cons cc assms(1) show ?thesis by (simp add: t_cat_def)
  qed
qed

lemma t_pad_dim1_fields:
  assumes "t_trail t = s # rest"
  shows "t_trail (t_pad_dim1 d t) = (s + d) # rest"
    and "t_rows (t_pad_dim1 d t) = map (\<lambda>r. r @ replicate (d * prod_list rest) 0) (t_rows t)"
  using assms by (simp_all add: t_pad_dim1_def)

lemma t_len_pad_dim1 [simp]: "t_len (t_pad_dim1 d t) = t_len t"
  by (simp add: t_pad_dim1_def t_len_def split: list.split)

lemma wf_t_pad_dim1: "wf_tensor t \<Longrightarrow> wf_tensor (t_pad_dim1 d t)"
  by (auto simp: t_pad_dim1_def wf_tensor_def list_all_iff algebra_simps split: list.split)

lemma t_pad_dim1_0 [simp]: "t_pad_dim1 0 t = t"
  by (simp add: t_pad_dim1_def split: list.split)

end
