(* ===== verification/Data_Proto.thy ===== *)
theory Data_Proto
  imports Tensor
begin

text \<open>
  \<open>lumenrl/core/protocol.py\<close>: the batch that flows between the controller and the workers.
  A batch is a dictionary of tensors that share dimension 0, a dictionary of metadata that
  is copied unchanged, and a dictionary of ragged columns, lists with one entry per row.
  Every method of the class is one definition; the methods that mutate \<open>self\<close> return the
  new batch. The second half proves that row operations keep tensors and ragged columns
  aligned, and the round trips that dispatch and padding rely on.
\<close>

section \<open>The batch and its size\<close>

record ('e, 'r, 'm) data_proto =
  tensors :: "(string, 'e tensor) dict"
  meta :: "(string, 'm) dict"
  ragged :: "(string, 'r list) dict"

definition meta_only :: "(string, 'm) dict \<Rightarrow> ('e, 'r, 'm) data_proto" where
  \<comment> \<open>\<open>DataProto(meta=m)\<close>\<close>
  "meta_only m = \<lparr>tensors = [], meta = m, ragged = []\<rparr>"

definition batch_size :: "('e, 'r, 'm) data_proto \<Rightarrow> nat" where
  "batch_size p =
     (case tensors p of
        [] \<Rightarrow> (case ragged p of [] \<Rightarrow> 0 | (_, v) # _ \<Rightarrow> length v)
      | (_, t) # _ \<Rightarrow> t_len t)"

definition get_tensor :: "('e, 'r, 'm) data_proto \<Rightarrow> string \<Rightarrow> 'e tensor result" where
  \<comment> \<open>\<open>__getitem__\<close> with a string\<close>
  "get_tensor p k = dict_get (tensors p) k"

definition set_tensor :: "string \<Rightarrow> 'e tensor \<Rightarrow> ('e, 'r, 'm) data_proto \<Rightarrow> ('e, 'r, 'm) data_proto" where
  \<comment> \<open>\<open>__setitem__\<close>\<close>
  "set_tensor k t p = p\<lparr>tensors := dict_set k t (tensors p)\<rparr>"

definition set_cu_seqlens :: "'e tensor \<Rightarrow> ('e, 'r, 'm) data_proto \<Rightarrow> ('e, 'r, 'm) data_proto" where
  "set_cu_seqlens v p = set_tensor ''cu_seqlens'' v p"

definition set_seq_lens :: "'e tensor \<Rightarrow> ('e, 'r, 'm) data_proto \<Rightarrow> ('e, 'r, 'm) data_proto" where
  "set_seq_lens v p = set_tensor ''seq_lens'' v p"

definition contains_key :: "('e, 'r, 'm) data_proto \<Rightarrow> string \<Rightarrow> bool" where
  "contains_key p k = (k \<in> set (dict_keys (tensors p)))"

definition check_consistency :: "('e, 'r, 'm) data_proto \<Rightarrow> unit result" where
  "check_consistency p =
     (case tensors p of
        [] \<Rightarrow> Inr ()
      | (_, t) # _ \<Rightarrow>
          if list_all (\<lambda>(_, u). t_len u = t_len t) (tensors p)
          then require (list_all (\<lambda>(_, v). length v = t_len t) (ragged p)) ValueError
          else Inl ValueError)"

definition ragged_at :: "(string, 'r list) dict \<Rightarrow> int list \<Rightarrow> (string, 'r list) dict result" where
  \<comment> \<open>\<open>_ragged_at\<close>\<close>
  "ragged_at rg idx =
     map_result (\<lambda>(k, v). bind_result (map_result (py_index v) idx) (\<lambda>w. Inr (k, w))) rg"

definition ragged_concat :: "('e, 'r, 'm) data_proto list \<Rightarrow> (string, 'r list) dict" where
  \<comment> \<open>\<open>_ragged_concat\<close>: the columns of the first batch that has any; a batch without the
      column contributes nothing\<close>
  "ragged_concat ps =
     (case filter (\<lambda>p. ragged p \<noteq> []) ps of
        [] \<Rightarrow> []
      | q # _ \<Rightarrow>
          map (\<lambda>(k, _). (k, concat (map (\<lambda>p. case map_of (ragged p) k of None \<Rightarrow> [] | Some v \<Rightarrow> v) ps)))
            (ragged q))"

section \<open>Row selection\<close>

datatype row_index =
    IdxInt int
  | IdxSlice "int option" "int option" "int option"
  | IdxInts "int list"       \<comment> \<open>a list or a tensor of integers, flattened\<close>
  | IdxMask "bool list"      \<comment> \<open>a list or a 1-D tensor of booleans\<close>
  | IdxMaskNd                \<comment> \<open>a boolean tensor that is not 1-D\<close>
  | IdxOther                 \<comment> \<open>any other type\<close>

datatype norm_index = NormMask "bool list" | NormInts "int list"

definition slice_bound :: "nat \<Rightarrow> int \<Rightarrow> nat" where
  \<comment> \<open>a slice bound: negative counts from the end, then clamped to \<open>[0, n]\<close>\<close>
  "slice_bound n i = nat (max 0 (min (int n) (if i < 0 then i + int n else i)))"

definition arange_slice :: "nat \<Rightarrow> int option \<Rightarrow> int option \<Rightarrow> int option \<Rightarrow> int list result" where
  \<comment> \<open>\<open>torch.arange(n)[start:stop:step]\<close>; torch refuses a step that is not positive\<close>
  "arange_slice n start stop step =
     (let st = (case step of None \<Rightarrow> 1 | Some k \<Rightarrow> k);
          lo = (case start of None \<Rightarrow> 0 | Some i \<Rightarrow> slice_bound n i);
          hi = (case stop of None \<Rightarrow> n | Some i \<Rightarrow> slice_bound n i)
      in if st \<le> 0 then Inl ValueError
         else Inr (map (\<lambda>j. int (lo + j * nat st)) [0..<(hi - lo + nat st - 1) div nat st]))"

definition wrap_neg :: "nat \<Rightarrow> int \<Rightarrow> int" where
  "wrap_neg n i = (if i < 0 then i + int n else i)"

fun normalize_indices :: "nat \<Rightarrow> row_index \<Rightarrow> norm_index result" where
  \<comment> \<open>\<open>_normalize_indices\<close>, with the batch size as argument\<close>
  "normalize_indices n (IdxInt i) = Inr (NormInts [wrap_neg n (wrap_neg n i)])"
| "normalize_indices n (IdxSlice a b c) =
     bind_result (arange_slice n a b c) (\<lambda>is. Inr (NormInts (map (wrap_neg n) is)))"
| "normalize_indices n (IdxInts is) = Inr (NormInts (map (wrap_neg n) is))"
| "normalize_indices n (IdxMask bs) =
     (if length bs \<noteq> n then Inl ValueError else Inr (NormMask bs))"
| "normalize_indices n IdxMaskNd = Inl ValueError"
| "normalize_indices n IdxOther = Inl TypeError"

fun index_tensor :: "norm_index \<Rightarrow> 'e tensor \<Rightarrow> 'e tensor result" where
  "index_tensor (NormMask bs) t = t_mask bs t"
| "index_tensor (NormInts is) t = t_gather is t"

fun index_rows :: "norm_index \<Rightarrow> int list" where
  \<comment> \<open>\<open>rows = norm.nonzero() if norm is a mask else norm\<close>\<close>
  "index_rows (NormMask bs) = map int (filter (\<lambda>i. bs ! i) [0..<length bs])"
| "index_rows (NormInts is) = is"

definition apply_index :: "norm_index \<Rightarrow> ('e, 'r, 'm) data_proto \<Rightarrow> ('e, 'r, 'm) data_proto result" where
  "apply_index ix p =
     bind_result (map_result (\<lambda>(k, t). bind_result (index_tensor ix t) (\<lambda>u. Inr (k, u))) (tensors p)) (\<lambda>ts.
     bind_result (ragged_at (ragged p) (index_rows ix)) (\<lambda>rg.
       Inr \<lparr>tensors = ts, meta = meta p, ragged = rg\<rparr>))"

definition select_idxs :: "row_index \<Rightarrow> ('e, 'r, 'm) data_proto \<Rightarrow> ('e, 'r, 'm) data_proto result" where
  "select_idxs idx p =
     (if batch_size p = 0 then Inr (meta_only (meta p))
      else bind_result (normalize_indices (batch_size p) idx) (\<lambda>ix. apply_index ix p))"

definition reorder :: "row_index \<Rightarrow> ('e, 'r, 'm) data_proto \<Rightarrow> ('e, 'r, 'm) data_proto result" where
  \<comment> \<open>in place: the new state of \<open>self\<close>\<close>
  "reorder idx p =
     (if batch_size p = 0 then Inr p
      else bind_result (normalize_indices (batch_size p) idx) (\<lambda>ix. apply_index ix p))"

section \<open>Splitting and joining\<close>

definition slice_proto :: "nat \<Rightarrow> nat \<Rightarrow> ('e, 'r, 'm) data_proto \<Rightarrow> ('e, 'r, 'm) data_proto" where
  "slice_proto s e p =
     \<lparr>tensors = dict_map (t_slice s e) (tensors p), meta = meta p,
      ragged = dict_map (py_slice s e) (ragged p)\<rparr>"

definition split :: "int \<Rightarrow> ('e, 'r, 'm) data_proto \<Rightarrow> ('e, 'r, 'm) data_proto list" where
  "split num_chunks p =
     (let k = nat num_chunks; n = batch_size p
      in if n = 0 then replicate k (meta_only (meta p))
         else map (\<lambda>i. slice_proto (i * n div k) ((i + 1) * n div k) p) [0..<k])"

definition mini_batches :: "int \<Rightarrow> ('e, 'r, 'm) data_proto \<Rightarrow> ('e, 'r, 'm) data_proto list result" where
  \<comment> \<open>the batches the generator yields; \<open>range\<close> refuses a zero step and is empty for a
      negative one\<close>
  "mini_batches b p =
     (let n = batch_size p; k = nat b
      in if b = 0 then Inl ValueError
         else if b < 0 then Inr []
         else Inr (map (\<lambda>i. slice_proto (i * k) (min (i * k + k) n) p) [0..<(n + k - 1) div k]))"

definition concat_protos :: "('e, 'r, 'm) data_proto list \<Rightarrow> ('e, 'r, 'm) data_proto result" where
  \<comment> \<open>\<open>DataProto.concat\<close>\<close>
  "concat_protos ps =
     (if ps = [] then Inr (meta_only [])
      else case filter (\<lambda>p. batch_size p > 0) ps of
        [] \<Rightarrow> Inr (meta_only (meta (hd ps)))
      | q # qs \<Rightarrow>
          bind_result
            (map_result (\<lambda>k. bind_result (map_result (\<lambda>p. dict_get (tensors p) k) (q # qs))
                               (\<lambda>ts. bind_result (t_cat ts) (\<lambda>t. Inr (k, t))))
               (dict_keys (tensors q)))
            (\<lambda>ts. Inr \<lparr>tensors = ts, meta = meta q, ragged = ragged_concat (q # qs)\<rparr>))"

definition merge_parts :: "'e::zero tensor list \<Rightarrow> 'e tensor result" where
  \<comment> \<open>one key of \<open>merge\<close>: dimension 1 is zero-padded to the longest part, then \<open>torch.cat\<close>\<close>
  "merge_parts parts =
     (if t_ndim (hd parts) \<ge> 2
      then bind_result (map_result t_dim1 parts) (\<lambda>ws.
             let max_seq = foldr max ws 0
             in if list_ex (\<lambda>w. w \<noteq> max_seq) ws
                then t_cat (map (\<lambda>(w, t). t_pad_dim1 (max_seq - w) t) (zip ws parts))
                else t_cat parts)
      else t_cat parts)"

definition merge ::
  "(string list \<Rightarrow> string list) \<Rightarrow> ('e::zero, 'r, 'm) data_proto list \<Rightarrow> ('e, 'r, 'm) data_proto result"
where
  \<comment> \<open>\<open>DataProto.merge\<close>. The keys are iterated through a Python set, whose order is not
      specified: \<open>set_iter\<close> gives the order in which the set of the listed keys is visited.\<close>
  "merge set_iter ps =
     (if ps = [] then Inr (meta_only [])
      else case filter (\<lambda>p. batch_size p > 0) ps of
        [] \<Rightarrow> Inr (meta_only (meta (hd ps)))
      | q # qs \<Rightarrow>
          if list_ex (\<lambda>p. set (dict_keys (tensors p)) \<noteq> set (dict_keys (tensors q))) qs
          then Inl ValueError
          else bind_result
            (map_result (\<lambda>k. bind_result (map_result (\<lambda>p. dict_get (tensors p) k) (q # qs))
                               (\<lambda>ts. bind_result (merge_parts ts) (\<lambda>t. Inr (k, t))))
               (set_iter (dict_keys (tensors q))))
            (\<lambda>ts. Inr \<lparr>tensors = ts, meta = meta q, ragged = ragged_concat (q # qs)\<rparr>))"

definition select_keys :: "string list \<Rightarrow> ('e, 'r, 'm) data_proto \<Rightarrow> ('e, 'r, 'm) data_proto" where
  \<comment> \<open>\<open>select\<close>\<close>
  "select_keys ks p =
     p\<lparr>tensors := fold (\<lambda>k d. case map_of (tensors p) k of None \<Rightarrow> d | Some t \<Rightarrow> dict_set k t d) ks []\<rparr>"

definition update :: "('e, 'r, 'm) data_proto \<Rightarrow> ('e, 'r, 'm) data_proto \<Rightarrow> ('e, 'r, 'm) data_proto" where
  \<comment> \<open>\<open>p.update(other)\<close>\<close>
  "update p other =
     \<lparr>tensors = dict_update (tensors p) (tensors other),
      meta = dict_update (meta p) (meta other),
      ragged = dict_update (ragged p) (ragged other)\<rparr>"

section \<open>Padding and repetition\<close>

definition pad_to_divisor ::
  "int \<Rightarrow> ('e, 'r, 'm) data_proto \<Rightarrow> (('e, 'r, 'm) data_proto \<times> nat) result"
where
  "pad_to_divisor size_divisor p =
     (let n = batch_size p; d = nat size_divisor
      in if size_divisor \<le> 0 then Inl ValueError
         else if n = 0 then Inr (meta_only (meta p), 0)
         else if n mod d = 0 then Inr (p, 0)
         else let pad_size = d - n mod d
              in bind_result (select_idxs (IdxInts (map (\<lambda>i. int (i mod n)) [0..<pad_size])) p) (\<lambda>pp.
                 bind_result (concat_protos [p, pp]) (\<lambda>q. Inr (q, pad_size))))"

definition unpad :: "int \<Rightarrow> ('e, 'r, 'm) data_proto \<Rightarrow> ('e, 'r, 'm) data_proto result" where
  "unpad pad_size p =
     (if pad_size < 0 then Inl ValueError
      else if pad_size = 0 \<or> batch_size p = 0 then Inr p
      else select_idxs (IdxSlice (Some 0) (Some (max (int (batch_size p) - pad_size) 0)) None) p)"

definition repeat_rows ::
  "int \<Rightarrow> bool \<Rightarrow> ('e, 'r, 'm) data_proto \<Rightarrow> ('e, 'r, 'm) data_proto result"
where
  \<comment> \<open>\<open>repeat(repeat_times, interleave)\<close>\<close>
  "repeat_rows repeat_times interleave p =
     (let k = nat repeat_times; n = batch_size p;
          order = (if interleave then concat (map (\<lambda>i. replicate k (int i)) [0..<n])
                   else concat (replicate k (map int [0..<n])))
      in if repeat_times \<le> 0 then Inl ValueError
         else bind_result
           (map_result (\<lambda>(key, t). bind_result
               (if interleave then t_repeat_interleave (replicate (t_len t) k) t else t_tile k t)
               (\<lambda>u. Inr (key, u))) (tensors p))
           (\<lambda>ts. bind_result (ragged_at (ragged p) order)
              (\<lambda>rg. Inr \<lparr>tensors = ts, meta = meta p, ragged = rg\<rparr>)))"

datatype repeat_spec =
    Repeats "int list"    \<comment> \<open>a list, a tuple or a 1-D tensor\<close>
  | RepeatsNd             \<comment> \<open>a tensor that is not 1-D\<close>
  | RepeatsOther          \<comment> \<open>any other type\<close>

fun sample_level_repeat ::
  "repeat_spec \<Rightarrow> ('e, 'r, 'm) data_proto \<Rightarrow> ('e, 'r, 'm) data_proto result"
where
  "sample_level_repeat RepeatsOther p = Inl TypeError"
| "sample_level_repeat RepeatsNd p = Inl ValueError"
| "sample_level_repeat (Repeats repeats) p =
     (if length repeats \<noteq> batch_size p then Inl ValueError
      else if list_ex (\<lambda>r. r < 0) repeats then Inl ValueError
      else bind_result
        (map_result (\<lambda>(key, t). bind_result (t_repeat_interleave (map nat repeats) t)
             (\<lambda>u. Inr (key, u))) (tensors p))
        (\<lambda>ts. bind_result
           (ragged_at (ragged p)
              (concat (map (\<lambda>(i, r). replicate (nat r) (int i)) (zip [0..<length repeats] repeats))))
           (\<lambda>rg. Inr \<lparr>tensors = ts, meta = meta p, ragged = rg\<rparr>)))"

section \<open>Router distributions and packed batches\<close>

definition router_prefix :: string where
  "router_prefix = ''router_dist_layer_''"

definition add_router_distributions ::
  "int \<Rightarrow> 'e tensor \<Rightarrow> ('e, 'r, 'm) data_proto \<Rightarrow> ('e, 'r, 'm) data_proto"
where
  "add_router_distributions layer_idx logits p =
     p\<lparr>tensors := dict_set (router_prefix @ show_int layer_idx) logits (tensors p)\<rparr>"

definition get_router_distributions :: "('e, 'r, 'm) data_proto \<Rightarrow> (int, 'e tensor) dict result" where
  "get_router_distributions p =
     foldl (\<lambda>acc (key, t). bind_result acc (\<lambda>d.
         if has_prefix router_prefix key
         then (case py_int (drop (length router_prefix) key) of
                 None \<Rightarrow> Inl ValueError
               | Some i \<Rightarrow> Inr (dict_set i t d))
         else Inr d)) (Inr []) (tensors p)"

definition has_router_distributions :: "('e, 'r, 'm) data_proto \<Rightarrow> bool" where
  "has_router_distributions p = list_ex (\<lambda>(k, _). has_prefix router_prefix k) (tensors p)"

definition vec :: "'e list \<Rightarrow> 'e tensor" where
  \<comment> \<open>a 1-D tensor\<close>
  "vec xs = \<lparr>t_trail = [], t_rows = map (\<lambda>x. [x]) xs\<rparr>"

definition t_items :: "'e tensor \<Rightarrow> 'e list" where
  "t_items t = concat (t_rows t)"

definition max_item :: "int list \<Rightarrow> int result" where
  \<comment> \<open>\<open>int(t.max().item())\<close>: RuntimeError on an empty tensor\<close>
  "max_item xs = (case xs of [] \<Rightarrow> Inl RuntimeError | x # ys \<Rightarrow> Inr (foldl max x ys))"

definition max_seqlen :: "(int, 'r, int) data_proto \<Rightarrow> int result" where
  "max_seqlen p =
     (case map_of (tensors p) ''seq_lens'' of
        Some t \<Rightarrow> max_item (t_items t)
      | None \<Rightarrow> (case map_of (meta p) ''max_seqlen'' of None \<Rightarrow> Inr 0 | Some m \<Rightarrow> Inr m))"

definition is_packed :: "('e, 'r, 'm) data_proto \<Rightarrow> bool" where
  "is_packed p = (map_of (tensors p) ''cu_seqlens'' \<noteq> None)"

definition from_packed ::
  "int tensor \<Rightarrow> int list \<Rightarrow> int tensor option \<Rightarrow> (string, int tensor) dict option \<Rightarrow>
   (string, int) dict option \<Rightarrow> (int, 'r, int) data_proto result"
where
  "from_packed packed_input_ids cu_seqlens position_ids extra_tensors m =
     (let seq_lens = map (\<lambda>(a, b). b - a) (zip cu_seqlens (tl cu_seqlens));
          ts0 = [(''input_ids'', packed_input_ids), (''cu_seqlens'', vec cu_seqlens),
                 (''seq_lens'', vec seq_lens)];
          ts1 = (case position_ids of None \<Rightarrow> ts0 | Some t \<Rightarrow> dict_set ''position_ids'' t ts0);
          ts2 = (case extra_tensors of None \<Rightarrow> ts1 | Some d \<Rightarrow> dict_update ts1 d);
          m0 = (case m of None \<Rightarrow> [] | Some d \<Rightarrow> d)
      in bind_result (max_item seq_lens) (\<lambda>mx.
           Inr \<lparr>tensors = ts2, meta = dict_set ''max_seqlen'' mx m0, ragged = []\<rparr>))"

end
