(* ===== verification/Data_Proto_Laws.thy ===== *)
theory Data_Proto_Laws
  imports Data_Proto
begin

text \<open>
  Laws of the batch protocol. \<open>proto_ok\<close> is the representation invariant that
  \<open>check_consistency\<close> tests at run time (plus distinct keys and rectangular tensors).
  \<open>pick is p\<close> is the abstract specification of a row operation: row \<open>j\<close> of the result is
  row \<open>is ! j\<close> of \<open>p\<close>, in every tensor and every ragged column alike. Each row operation of
  the code is shown to be a \<open>pick\<close>, and joining picks is the pick of the joined indices;
  the round trips are then equations between index lists.
\<close>

section \<open>The representation invariant\<close>

definition proto_ok :: "('e, 'r, 'm) data_proto \<Rightarrow> bool" where
  "proto_ok p =
     (distinct (dict_keys (tensors p)) \<and> distinct (dict_keys (ragged p)) \<and>
      list_all (\<lambda>(_, t). wf_tensor t \<and> t_len t = batch_size p) (tensors p) \<and>
      list_all (\<lambda>(_, v). length v = batch_size p) (ragged p))"

lemma proto_okD:
  assumes "proto_ok p"
  shows "distinct (dict_keys (tensors p))" "distinct (dict_keys (ragged p))"
    and "\<And>k t. (k, t) \<in> set (tensors p) \<Longrightarrow> wf_tensor t"
    and "\<And>k t. (k, t) \<in> set (tensors p) \<Longrightarrow> t_len t = batch_size p"
    and "\<And>k v. (k, v) \<in> set (ragged p) \<Longrightarrow> length v = batch_size p"
  using assms by (auto simp: proto_ok_def list_all_iff)

lemma proto_ok_check: "proto_ok p \<Longrightarrow> check_consistency p = Inr ()"
  by (auto simp: proto_ok_def check_consistency_def list_all_iff split: list.split)

lemma batch_size_pos: "0 < batch_size p \<Longrightarrow> tensors p \<noteq> [] \<or> ragged p \<noteq> []"
  by (auto simp: batch_size_def split: list.splits)

section \<open>Picking rows\<close>

definition pick_t :: "nat list \<Rightarrow> 'e tensor \<Rightarrow> 'e tensor" where
  "pick_t is t = t\<lparr>t_rows := map (\<lambda>i. t_rows t ! i) is\<rparr>"

definition pick :: "nat list \<Rightarrow> ('e, 'r, 'm) data_proto \<Rightarrow> ('e, 'r, 'm) data_proto" where
  "pick is p =
     \<lparr>tensors = dict_map (pick_t is) (tensors p), meta = meta p,
      ragged = dict_map (\<lambda>v. map (\<lambda>i. v ! i) is) (ragged p)\<rparr>"

definition in_rows :: "nat list \<Rightarrow> ('e, 'r, 'm) data_proto \<Rightarrow> bool" where
  "in_rows is p = list_all (\<lambda>i. i < batch_size p) is"

definition row_at :: "('e, 'r, 'm) data_proto \<Rightarrow> nat \<Rightarrow> (string, 'e list) dict \<times> (string, 'r) dict" where
  \<comment> \<open>row \<open>i\<close> of the batch: its slice of every tensor and of every ragged column\<close>
  "row_at p i = (dict_map (\<lambda>t. t_rows t ! i) (tensors p), dict_map (\<lambda>v. v ! i) (ragged p))"

definition proto_rows :: "('e, 'r, 'm) data_proto \<Rightarrow> ((string, 'e list) dict \<times> (string, 'r) dict) list" where
  "proto_rows p = map (row_at p) [0..<batch_size p]"

lemma pick_fields [simp]:
  "tensors (pick is p) = dict_map (pick_t is) (tensors p)"
  "meta (pick is p) = meta p"
  "ragged (pick is p) = dict_map (\<lambda>v. map (\<lambda>i. v ! i) is) (ragged p)"
  by (simp_all add: pick_def)

lemma pick_t_fields [simp]:
  "t_trail (pick_t is t) = t_trail t"
  "t_rows (pick_t is t) = map (\<lambda>i. t_rows t ! i) is"
  "t_len (pick_t is t) = length is"
  by (simp_all add: pick_t_def t_len_def)

lemma batch_size_pick:
  "tensors p \<noteq> [] \<or> ragged p \<noteq> [] \<Longrightarrow> batch_size (pick is p) = length is"
  by (cases "tensors p"; cases "ragged p") (auto simp: batch_size_def)

lemma batch_size_pick_pos [simp]: "0 < batch_size p \<Longrightarrow> batch_size (pick is p) = length is"
  by (rule batch_size_pick) (rule batch_size_pos)

lemma wf_pick_t: "wf_tensor t \<Longrightarrow> (\<And>i. i \<in> set is \<Longrightarrow> i < t_len t) \<Longrightarrow> wf_tensor (pick_t is t)"
  by (auto simp: wf_tensor_def list_all_iff t_len_def)

lemma proto_ok_pick:
  assumes "proto_ok p" "in_rows is p"
  shows "proto_ok (pick is p)"
proof (cases "tensors p = [] \<and> ragged p = []")
  case True
  then show ?thesis by (simp add: proto_ok_def)
next
  case False
  then have "batch_size (pick is p) = length is" by (simp add: batch_size_pick)
  with assms proto_okD [OF assms(1)] show ?thesis
    by (auto simp: proto_ok_def list_all_iff set_dict_map in_rows_def intro!: wf_pick_t)
qed

lemma row_at_pick:
  "j < length is \<Longrightarrow> row_at (pick is p) j = row_at p (is ! j)"
  by (simp add: row_at_def dict_map_comp)

lemma proto_rows_pick:
  assumes "0 < batch_size p" "in_rows is p"
  shows "proto_rows (pick is p) = map (\<lambda>i. proto_rows p ! i) is"
proof (rule nth_equalityI)
  show "length (proto_rows (pick is p)) = length (map (\<lambda>i. proto_rows p ! i) is)"
    using assms(1) by (simp add: proto_rows_def)
next
  fix j assume "j < length (proto_rows (pick is p))"
  then have "j < length is" using assms(1) by (simp add: proto_rows_def)
  then show "proto_rows (pick is p) ! j = map (\<lambda>i. proto_rows p ! i) is ! j"
    using assms by (simp add: proto_rows_def row_at_pick in_rows_def list_all_length)
qed

lemma pick_pick:
  assumes "list_all (\<lambda>j. j < length is) js"
  shows "pick js (pick is p) = pick (map (\<lambda>j. is ! j) js) p"
  using assms
  by (auto simp: pick_def pick_t_def dict_map_comp list_all_iff intro!: dict_map_cong)

lemma pick_all:
  assumes "proto_ok p"
  shows "pick [0..<batch_size p] p = p"
proof -
  note ok = proto_okD [OF assms]
  have "dict_map (pick_t [0..<batch_size p]) (tensors p) = tensors p"
  proof (rule dict_map_ident)
    fix k t assume "(k, t) \<in> set (tensors p)"
    then have "length (t_rows t) = batch_size p" using ok(4) by (simp add: t_len_def)
    then have "map (\<lambda>i. t_rows t ! i) [0..<batch_size p] = t_rows t" by (metis map_nth)
    then show "pick_t [0..<batch_size p] t = t" by (simp add: pick_t_def)
  qed
  moreover have "dict_map (\<lambda>v. map (\<lambda>i. v ! i) [0..<batch_size p]) (ragged p) = ragged p"
    by (rule dict_map_ident) (use ok(5) in \<open>metis map_nth\<close>)
  ultimately show ?thesis by (simp add: pick_def)
qed

section \<open>The row operations are picks\<close>

lemma ragged_at_pick:
  assumes "\<And>k v. (k, v) \<in> set rg \<Longrightarrow> length v = n" "\<And>i. i \<in> set is \<Longrightarrow> i < n"
  shows "ragged_at rg (map int is) = Inr (dict_map (\<lambda>v. map (\<lambda>i. v ! i) is) rg)"
proof -
  have "bind_result (map_result (py_index v) (map int is)) (\<lambda>w. Inr (k, w))
      = Inr (k, map (\<lambda>i. v ! i) is)" if "(k, v) \<in> set rg" for k v
    using assms that
    by (simp add: map_result_map map_result_total [where g = "\<lambda>i. v ! i"])
  then have "map_result (\<lambda>(k, v). bind_result (map_result (py_index v) (map int is))
      (\<lambda>w. Inr (k, w))) rg = Inr (map (\<lambda>(k, v). (k, map (\<lambda>i. v ! i) is)) rg)"
    by (intro map_result_total) auto
  then show ?thesis by (simp add: ragged_at_def dict_map_def)
qed

lemma tensors_op_pick:
  assumes "\<And>k t. (k, t) \<in> set ts \<Longrightarrow> f k t = Inr (pick_t is t)"
  shows "map_result (\<lambda>(k, t). bind_result (f k t) (\<lambda>u. Inr (k, u))) ts = Inr (dict_map (pick_t is) ts)"
proof -
  have "map_result (\<lambda>(k, t). bind_result (f k t) (\<lambda>u. Inr (k, u))) ts
      = Inr (map (\<lambda>(k, t). (k, pick_t is t)) ts)"
    using assms by (intro map_result_total) auto
  then show ?thesis by (simp add: dict_map_def)
qed

lemma t_gather_pick: "(\<And>i. i \<in> set is \<Longrightarrow> i < t_len t) \<Longrightarrow> t_gather (map int is) t = Inr (pick_t is t)"
  by (simp add: t_gather_total pick_t_def)

lemma t_mask_pick:
  "length bs = t_len t \<Longrightarrow> t_mask bs t = Inr (pick_t (filter (\<lambda>i. bs ! i) [0..<length bs]) t)"
  by (simp add: t_mask_def pick_t_def t_len_def mask_list_nth)

definition norm_positions :: "norm_index \<Rightarrow> nat list" where
  "norm_positions ix = map nat (index_rows ix)"

definition norm_in_rows :: "nat \<Rightarrow> norm_index \<Rightarrow> bool" where
  "norm_in_rows n ix =
     (case ix of NormMask bs \<Rightarrow> length bs = n
               | NormInts is \<Rightarrow> list_all (\<lambda>i. 0 \<le> i \<and> i < int n) is)"

lemma norm_positions_bound:
  "norm_in_rows n ix \<Longrightarrow> i \<in> set (norm_positions ix) \<Longrightarrow> i < n"
  by (cases ix) (auto simp: norm_positions_def norm_in_rows_def list_all_iff)

lemma apply_index_pick:
  assumes ok: "proto_ok p" and ix: "norm_in_rows (batch_size p) ix"
  shows "apply_index ix p = Inr (pick (norm_positions ix) p)"
proof -
  let ?is = "norm_positions ix"
  note okD = proto_okD [OF ok]
  have bound: "i \<in> set ?is \<Longrightarrow> i < batch_size p" for i
    using norm_positions_bound [OF ix] by simp
  have ints: "map int ?is = index_rows ix"
    using ix by (cases ix) (auto simp: norm_positions_def norm_in_rows_def list_all_iff intro!: map_idI)
  have "index_tensor ix t = Inr (pick_t ?is t)" if "(k, t) \<in> set (tensors p)" for k t
  proof (cases ix)
    case (NormMask bs)
    then show ?thesis
      using ix okD(4) [OF that] by (simp add: norm_in_rows_def t_mask_pick norm_positions_def comp_def)
  next
    case (NormInts js)
    then show ?thesis
      using ints t_gather_pick [of ?is t] bound okD(4) [OF that] by simp
  qed
  then have "map_result (\<lambda>(k, t). bind_result (index_tensor ix t) (\<lambda>u. Inr (k, u))) (tensors p)
      = Inr (dict_map (pick_t ?is) (tensors p))"
    by (rule tensors_op_pick)
  moreover have "ragged_at (ragged p) (index_rows ix)
      = Inr (dict_map (\<lambda>v. map (\<lambda>i. v ! i) ?is) (ragged p))"
    using ragged_at_pick [of "ragged p" "batch_size p" ?is] okD(5) bound ints by simp
  ultimately show ?thesis by (simp add: apply_index_def pick_def)
qed

lemma select_idxs_pick:
  assumes "proto_ok p" "0 < batch_size p" "normalize_indices (batch_size p) idx = Inr ix"
    and "norm_in_rows (batch_size p) ix"
  shows "select_idxs idx p = Inr (pick (norm_positions ix) p)"
  using assms by (simp add: select_idxs_def apply_index_pick)

lemma slice_proto_pick:
  assumes "proto_ok p" "e \<le> batch_size p"
  shows "slice_proto s e p = pick [s..<e] p"
proof -
  note okD = proto_okD [OF assms(1)]
  have "dict_map (t_slice s e) (tensors p) = dict_map (pick_t [s..<e]) (tensors p)"
    by (rule dict_map_cong) (use okD(4) assms(2) in \<open>simp add: t_slice_def pick_t_def t_len_def py_slice_nths\<close>)
  moreover have "dict_map (py_slice s e) (ragged p) = dict_map (\<lambda>v. map (\<lambda>i. v ! i) [s..<e]) (ragged p)"
    by (rule dict_map_cong) (use okD(5) assms(2) in \<open>simp add: py_slice_nths\<close>)
  ultimately show ?thesis by (simp add: slice_proto_def pick_def)
qed

lemma chunk_bound_le:
  assumes "i < (k :: nat)"
  shows "Suc i * n div k \<le> n"
proof -
  have "Suc i * n \<le> n * k" using assms by (metis Suc_leI mult.commute mult_le_mono1)
  then show ?thesis using assms by (metis div_le_mono div_mult_self_is_m gr_implies_not0 neq0_conv)
qed

lemma split_picks:
  assumes "proto_ok p" "0 < batch_size p"
  shows "split c p =
    map (\<lambda>i. pick [i * batch_size p div nat c..<(i + 1) * batch_size p div nat c] p) [0..<nat c]"
  using assms by (auto simp: split_def Let_def slice_proto_pick chunk_bound_le simp del: mult_Suc)

lemma split_index_lists:
  assumes "0 < k"
  shows "concat (map (\<lambda>i. [i * n div k..<(i + 1) * n div k]) [0..<k]) = [0..<n]"
proof -
  have "concat (map (\<lambda>i. [i * n div k..<Suc i * n div k]) [0..<k]) = [0 * n div k..<k * n div k]"
    by (rule concat_upts [THEN conjunct1]) (simp add: div_le_mono)
  with assms show ?thesis by simp
qed

lemma replicate_zip_nths:
  "length ks = length rs \<Longrightarrow>
   concat (map (\<lambda>(k, r). replicate k r) (zip ks rs))
     = map (\<lambda>i. rs ! i) (concat (map (\<lambda>(i, k). replicate k i) (zip [0..<length ks] ks)))"
proof (induction ks rs rule: list_induct2)
  case Nil
  show ?case by simp
next
  case (Cons k ks r rs)
  have "zip (map Suc [0..<length ks]) ks = map (\<lambda>(i, k). (Suc i, k)) (zip [0..<length ks] ks)"
    by (simp add: zip_map1)
  with upt_Suc_map [of "length ks"] Cons.IH show ?case
    by (simp add: map_concat comp_def case_prod_beta del: upt_Suc)
qed

lemma t_repeat_pick:
  "length ks = t_len t \<Longrightarrow> t_repeat_interleave ks t
    = Inr (pick_t (concat (map (\<lambda>(i, k). replicate k i) (zip [0..<length ks] ks))) t)"
  by (simp add: t_repeat_interleave_def t_len_def pick_t_def replicate_zip_nths)

definition repeat_order :: "nat \<Rightarrow> nat list \<Rightarrow> nat list" where
  "repeat_order n ks = concat (map (\<lambda>(i, k). replicate k i) (zip [0..<n] ks))"

lemma repeat_order_bound: "i \<in> set (repeat_order n ks) \<Longrightarrow> i < n"
  by (auto simp: repeat_order_def dest: set_zip_leftD split: if_splits)

lemma repeat_order_replicate:
  "repeat_order n (replicate n k) = concat (map (\<lambda>i. replicate k i) [0..<n])"
proof -
  have "zip [0..<n] (replicate n k) = map (\<lambda>i. (i, k)) [0..<n]"
    by (simp add: zip_replicate2)
  then show ?thesis by (simp add: repeat_order_def comp_def)
qed

lemma row_op_pick:
  assumes ok: "proto_ok p"
    and f: "\<And>k t. (k, t) \<in> set (tensors p) \<Longrightarrow> f k t = Inr (pick_t is t)"
    and bound: "\<And>i. i \<in> set is \<Longrightarrow> i < batch_size p"
  shows "bind_result (map_result (\<lambda>(k, t). bind_result (f k t) (\<lambda>u. Inr (k, u))) (tensors p))
      (\<lambda>ts. bind_result (ragged_at (ragged p) (map int is))
        (\<lambda>rg. Inr \<lparr>tensors = ts, meta = meta p, ragged = rg\<rparr>)) = Inr (pick is p)"
  using tensors_op_pick [of "tensors p" f "is"] f
    ragged_at_pick [of "ragged p" "batch_size p" "is"] proto_okD(5) [OF ok] bound
  by (simp add: pick_def)

lemma sample_level_repeat_pick:
  assumes "proto_ok p" "length rs = batch_size p" "list_all (\<lambda>r. 0 \<le> r) rs"
  shows "sample_level_repeat (Repeats rs) p = Inr (pick (repeat_order (batch_size p) (map nat rs)) p)"
proof -
  have order: "concat (map (\<lambda>(i, r). replicate (nat r) (int i)) (zip [0..<length rs] rs))
      = map int (repeat_order (batch_size p) (map nat rs))"
    by (simp add: repeat_order_def assms(2) [symmetric] map_concat zip_map2 comp_def case_prod_unfold)
  have neg: "\<not> list_ex (\<lambda>r. r < 0) rs" using assms(3) by (auto simp: list_all_iff list_ex_iff)
  have "t_repeat_interleave (map nat rs) t
      = Inr (pick_t (repeat_order (batch_size p) (map nat rs)) t)" if "(k, t) \<in> set (tensors p)" for k t
    using t_repeat_pick [of "map nat rs" t] proto_okD(4) [OF assms(1) that] assms(2)
    by (simp add: repeat_order_def)
  then have "bind_result (map_result (\<lambda>(key, t). bind_result (t_repeat_interleave (map nat rs) t)
        (\<lambda>u. Inr (key, u))) (tensors p))
      (\<lambda>ts. bind_result (ragged_at (ragged p)
          (map int (repeat_order (batch_size p) (map nat rs))))
        (\<lambda>rg. Inr \<lparr>tensors = ts, meta = meta p, ragged = rg\<rparr>))
      = Inr (pick (repeat_order (batch_size p) (map nat rs)) p)"
    by (intro row_op_pick [OF assms(1)]) (auto dest: repeat_order_bound)
  with neg assms(2) show ?thesis
    by (simp only: sample_level_repeat.simps order [unfolded assms(2)] if_False simp_thms)
qed

lemma repeat_rows_interleave_pick:
  assumes "proto_ok p" "0 < k"
  shows "repeat_rows k True p
    = Inr (pick (repeat_order (batch_size p) (replicate (batch_size p) (nat k))) p)"
proof -
  let ?n = "batch_size p" and ?m = "nat k"
  let ?o = "repeat_order ?n (replicate ?n ?m)"
  have order: "concat (map (\<lambda>i. replicate ?m (int i)) [0..<?n]) = map int ?o"
    by (simp add: repeat_order_replicate map_concat comp_def)
  have "t_repeat_interleave (replicate (t_len t) ?m) t = Inr (pick_t ?o t)"
    if "(j, t) \<in> set (tensors p)" for j t
    using t_repeat_pick [of "replicate (t_len t) ?m" t] proto_okD(4) [OF assms(1) that]
    by (simp add: repeat_order_def)
  with assms show ?thesis
    by (simp add: repeat_rows_def Let_def order row_op_pick repeat_order_bound)
qed

lemma repeat_rows_tile_pick:
  assumes "proto_ok p" "0 < k" "\<And>j t. (j, t) \<in> set (tensors p) \<Longrightarrow> 0 \<notin> set (t_trail t)"
  shows "repeat_rows k False p = Inr (pick (concat (replicate (nat k) [0..<batch_size p])) p)"
proof -
  let ?o = "concat (replicate (nat k) [0..<batch_size p])"
  have order: "concat (replicate (nat k) (map int [0..<batch_size p])) = map int ?o"
    by (simp add: map_concat)
  have bound: "i < batch_size p" if "i \<in> set ?o" for i
    using that by (auto split: if_splits)
  have "t_tile (nat k) t = Inr (pick_t ?o t)" if "(j, t) \<in> set (tensors p)" for j t
  proof -
    have "map (\<lambda>i. t_rows t ! i) [0..<batch_size p] = t_rows t"
      using proto_okD(4) [OF assms(1) that] by (metis map_nth t_len_def)
    with assms(3) [OF that] show ?thesis by (simp add: t_tile_def pick_t_def map_concat)
  qed
  moreover have "\<not> k \<le> 0" using assms(2) by simp
  ultimately show ?thesis
    using row_op_pick [OF assms(1), of "\<lambda>_ t. t_tile (nat k) t" ?o] bound
    by (simp only: repeat_rows_def Let_def order if_False simp_thms)
qed

end
