(* ===== verification/Data_Proto_Joins.thy ===== *)
theory Data_Proto_Joins
  imports Data_Proto_Laws
begin

text \<open>
  Joining batches: \<open>concat\<close> and \<open>merge\<close> of row selections of one batch are the selection of
  the concatenated index lists. With the \<open>pick\<close> characterisations of the row operations
  this gives the round trips of the batch protocol: split and merge, mini-batches and
  concat, padding and unpadding, permuting and permuting back.
\<close>

section \<open>Concatenation of selections\<close>

lemma concat_nonempty: "concat (filter (\<lambda>is. is \<noteq> []) iss) = concat iss"
  by (induction iss) auto

lemma filter_picks:
  assumes "0 < batch_size p"
  shows "filter (\<lambda>q. 0 < batch_size q) (map (\<lambda>is. pick is p) iss)
       = map (\<lambda>is. pick is p) (filter (\<lambda>is. is \<noteq> []) iss)"
  using assms by (simp add: filter_map comp_def)

lemma ragged_concat_picks:
  assumes "distinct (dict_keys (ragged p))" "iss \<noteq> []"
  shows "ragged_concat (map (\<lambda>is. pick is p) iss) = ragged (pick (concat iss) p)"
proof (cases "ragged p = []")
  case True
  then show ?thesis by (simp add: ragged_concat_def filter_map comp_def)
next
  case False
  obtain js jss where iss: "iss = js # jss" using assms(2) by (cases iss) auto
  have "filter (\<lambda>q. ragged q \<noteq> []) (map (\<lambda>is. pick is p) iss) = map (\<lambda>is. pick is p) iss"
    using False by simp
  moreover have "concat (map (\<lambda>q. case map_of (ragged q) k of None \<Rightarrow> [] | Some v \<Rightarrow> v)
        (map (\<lambda>is. pick is p) iss)) = map (\<lambda>i. v ! i) (concat iss)"
    if "(k, v) \<in> set (ragged p)" for k v
    using map_of_is_SomeI [OF assms(1) that] by (simp add: map_concat comp_def)
  ultimately show ?thesis
    by (auto simp: ragged_concat_def iss dict_map_def)
qed

lemma t_cat_picks:
  assumes "iss \<noteq> []"
  shows "t_cat (map (\<lambda>is. pick_t is t) iss) = Inr (pick_t (concat iss) t)"
proof -
  have "t_cat (map (\<lambda>is. pick_t is t) iss)
      = Inr \<lparr>t_trail = t_trail t, t_rows = concat (map t_rows (map (\<lambda>is. pick_t is t) iss))\<rparr>"
    using assms by (intro t_cat_same_trail) auto
  then show ?thesis by (simp add: pick_t_def map_concat comp_def)
qed

lemma get_picks:
  assumes "map_of (tensors p) k = Some t"
  shows "map_result (\<lambda>q. dict_get (tensors q) k) (map (\<lambda>is. pick is p) iss)
       = Inr (map (\<lambda>is. pick_t is t) iss)"
  by (simp add: map_result_map, rule map_result_total) (simp add: assms)

definition key_order :: "string list \<Rightarrow> ('e, 'r, 'm) data_proto \<Rightarrow> ('e, 'r, 'm) data_proto" where
  \<comment> \<open>the same batch with its tensors listed in the order \<open>ks\<close>\<close>
  "key_order ks p = p\<lparr>tensors := map (\<lambda>k. (k, the (map_of (tensors p) k))) ks\<rparr>"

lemma key_order_same: "distinct (dict_keys (tensors p)) \<Longrightarrow> key_order (dict_keys (tensors p)) p = p"
proof -
  assume "distinct (dict_keys (tensors p))"
  then have "map (\<lambda>k. (k, the (map_of (tensors p) k))) (dict_keys (tensors p)) = tensors p"
    by (auto simp: comp_def intro!: map_idI)
  then show ?thesis by (simp add: key_order_def)
qed

definition set_order :: "(string list \<Rightarrow> string list) \<Rightarrow> bool" where
  \<comment> \<open>what Python promises of iterating a set: every element once, in some order\<close>
  "set_order si = (\<forall>ks. distinct ks \<longrightarrow> distinct (si ks) \<and> set (si ks) = set ks)"

lemma join_keys:
  assumes "iss \<noteq> []" "set ks \<subseteq> set (dict_keys (tensors p))"
    and "\<And>t. join (map (\<lambda>is. pick_t is t) iss) = Inr (pick_t (concat iss) t)"
  shows "map_result (\<lambda>k. bind_result (map_result (\<lambda>q. dict_get (tensors q) k) (map (\<lambda>is. pick is p) iss))
            (\<lambda>ts. bind_result (join ts) (\<lambda>t. Inr (k, t)))) ks
       = Inr (tensors (key_order ks (pick (concat iss) p)))"
proof -
  have "bind_result (map_result (\<lambda>q. dict_get (tensors q) k) (map (\<lambda>is. pick is p) iss))
            (\<lambda>ts. bind_result (join ts) (\<lambda>t. Inr (k, t)))
       = Inr (k, the (map_of (tensors (pick (concat iss) p)) k))" if "k \<in> set ks" for k
  proof -
    from that assms(2) obtain t where "map_of (tensors p) k = Some t"
      by (metis map_of_eq_None_iff not_None_eq set_map subsetD)
    then show ?thesis by (simp add: get_picks assms(3) del: map_map)
  qed
  then show ?thesis by (simp add: key_order_def map_result_total)
qed

lemma concat_picks:
  assumes ok: "proto_ok p" and n: "0 < batch_size p" and ne: "concat iss \<noteq> []"
  shows "concat_protos (map (\<lambda>is. pick is p) iss) = Inr (pick (concat iss) p)"
proof -
  define js where "js = filter (\<lambda>is. is \<noteq> []) iss"
  have cc: "concat js = concat iss" by (simp add: js_def concat_nonempty)
  then obtain j jss where js: "js = j # jss" using ne by (cases js) auto
  have flt: "filter (\<lambda>q. 0 < batch_size q) (map (\<lambda>is. pick is p) iss) = map (\<lambda>is. pick is p) js"
    using filter_picks [OF n] by (simp add: js_def)
  have keys: "dict_keys (tensors (pick j p)) = dict_keys (tensors p)" by simp
  have d: "distinct (dict_keys (tensors (pick (concat js) p)))"
    using proto_okD(1) [OF ok] by simp
  have "map_result (\<lambda>k. bind_result (map_result (\<lambda>q. dict_get (tensors q) k) (map (\<lambda>is. pick is p) js))
            (\<lambda>ts. bind_result (t_cat ts) (\<lambda>t. Inr (k, t)))) (dict_keys (tensors p))
       = Inr (tensors (key_order (dict_keys (tensors p)) (pick (concat js) p)))"
    by (rule join_keys [OF _ _ t_cat_picks]) (simp_all add: js)
  moreover have "key_order (dict_keys (tensors p)) (pick (concat js) p) = pick (concat js) p"
    using key_order_same [OF d] by simp
  moreover have "ragged_concat (map (\<lambda>is. pick is p) js) = ragged (pick (concat js) p)"
    by (rule ragged_concat_picks) (use proto_okD(2) [OF ok] js in auto)
  ultimately have main: "bind_result
      (map_result (\<lambda>k. bind_result (map_result (\<lambda>q. dict_get (tensors q) k) (map (\<lambda>is. pick is p) js))
            (\<lambda>ts. bind_result (t_cat ts) (\<lambda>t. Inr (k, t)))) (dict_keys (tensors p)))
      (\<lambda>ts. Inr \<lparr>tensors = ts, meta = meta p, ragged = ragged_concat (map (\<lambda>is. pick is p) js)\<rparr>)
      = Inr (pick (concat iss) p)"
    using cc by (simp add: pick_def)
  have "iss \<noteq> []" using ne by auto
  then show ?thesis
    using main flt unfolding concat_protos_def js by (simp del: map_map)
qed

section \<open>Merge\<close>

lemma foldr_max_const: "ts \<noteq> [] \<Longrightarrow> foldr max (map (\<lambda>_. s) ts) (0 :: nat) = s"
proof (induction ts)
  case Nil
  then show ?case by simp
next
  case (Cons t ts)
  then show ?case by (cases "ts = []") simp_all
qed

lemma merge_parts_same_trail:
  assumes "ts \<noteq> []" "\<And>t. t \<in> set ts \<Longrightarrow> t_trail t = tr"
  shows "merge_parts ts = t_cat ts"
proof (cases tr)
  case Nil
  then have "t_ndim (hd ts) = 1" using assms by (cases ts) (auto simp: t_ndim_def)
  then show ?thesis by (simp add: merge_parts_def)
next
  case (Cons s rest)
  have "map_result t_dim1 ts = Inr (map (\<lambda>_. s) ts)"
    using assms(2) Cons by (intro map_result_total) (auto simp: t_dim1_def)
  moreover have "foldr max (map (\<lambda>_. s) ts) 0 = s"
    using assms(1) by (rule foldr_max_const)
  moreover have "\<not> list_ex (\<lambda>w. w \<noteq> s) (map (\<lambda>_. s) ts)" by (auto simp: list_ex_iff)
  ultimately show ?thesis by (simp add: merge_parts_def Let_def)
qed

lemma merge_picks:
  assumes ok: "proto_ok p" and n: "0 < batch_size p" and ne: "concat iss \<noteq> []" and si: "set_order si"
  shows "merge si (map (\<lambda>is. pick is p) iss)
       = Inr (key_order (si (dict_keys (tensors p))) (pick (concat iss) p))"
proof -
  define js where "js = filter (\<lambda>is. is \<noteq> []) iss"
  have cc: "concat js = concat iss" by (simp add: js_def concat_nonempty)
  then obtain j jss where js: "js = j # jss" using ne by (cases js) auto
  have flt: "filter (\<lambda>q. 0 < batch_size q) (map (\<lambda>is. pick is p) iss) = map (\<lambda>is. pick is p) js"
    using filter_picks [OF n] by (simp add: js_def)
  let ?ks = "si (dict_keys (tensors p))"
  have ks: "set ?ks \<subseteq> set (dict_keys (tensors p))"
    using si proto_okD(1) [OF ok] by (simp add: set_order_def)
  have join: "merge_parts (map (\<lambda>is. pick_t is t) js) = Inr (pick_t (concat js) t)" for t :: "'a tensor"
  proof -
    have "merge_parts (map (\<lambda>is. pick_t is t) js) = t_cat (map (\<lambda>is. pick_t is t) js)"
      by (rule merge_parts_same_trail) (auto simp: js)
    also have "\<dots> = Inr (pick_t (concat js) t)" by (rule t_cat_picks) (simp add: js)
    finally show ?thesis .
  qed
  have "map_result (\<lambda>k. bind_result (map_result (\<lambda>q. dict_get (tensors q) k) (map (\<lambda>is. pick is p) js))
            (\<lambda>ts. bind_result (merge_parts ts) (\<lambda>t. Inr (k, t)))) ?ks
       = Inr (tensors (key_order ?ks (pick (concat js) p)))"
    by (rule join_keys [OF _ ks join]) (simp add: js)
  moreover have "ragged_concat (map (\<lambda>is. pick is p) js) = ragged (pick (concat js) p)"
    by (rule ragged_concat_picks) (use proto_okD(2) [OF ok] js in auto)
  ultimately have main: "bind_result
      (map_result (\<lambda>k. bind_result (map_result (\<lambda>q. dict_get (tensors q) k) (map (\<lambda>is. pick is p) js))
            (\<lambda>ts. bind_result (merge_parts ts) (\<lambda>t. Inr (k, t)))) ?ks)
      (\<lambda>ts. Inr \<lparr>tensors = ts, meta = meta p, ragged = ragged_concat (map (\<lambda>is. pick is p) js)\<rparr>)
      = Inr (key_order ?ks (pick (concat iss) p))"
    using cc by (simp add: key_order_def)
  have "iss \<noteq> []" using ne by auto
  moreover have "\<not> list_ex (\<lambda>q. set (dict_keys (tensors q)) \<noteq> set (dict_keys (tensors (pick j p))))
      (map (\<lambda>is. pick is p) jss)"
    by (simp add: list_ex_iff)
  ultimately show ?thesis
    using main flt unfolding merge_def js by (simp del: map_map)
qed

section \<open>Padding\<close>

lemma pad_to_divisor_pick:
  assumes ok: "proto_ok p" and n: "0 < batch_size p" and d: "0 < d" and r: "batch_size p mod nat d \<noteq> 0"
  defines "k \<equiv> nat d - batch_size p mod nat d"
  shows "pad_to_divisor d p
    = Inr (pick ([0..<batch_size p] @ map (\<lambda>i. i mod batch_size p) [0..<k]) p, k)"
proof -
  let ?n = "batch_size p"
  let ?js = "map (\<lambda>i. i mod ?n) [0..<k]"
  have "norm_positions (NormInts (map (wrap_neg ?n) (map (\<lambda>i. int (i mod ?n)) [0..<k]))) = ?js"
    by (simp add: norm_positions_def wrap_neg_def)
  moreover have "norm_in_rows ?n (NormInts (map (wrap_neg ?n) (map (\<lambda>i. int (i mod ?n)) [0..<k])))"
    using n by (auto simp: norm_in_rows_def list_all_iff wrap_neg_def)
  ultimately have sel: "select_idxs (IdxInts (map (\<lambda>i. int (i mod ?n)) [0..<k])) p = Inr (pick ?js p)"
    using select_idxs_pick [OF ok n] by (metis normalize_indices.simps(3))
  have "concat_protos (map (\<lambda>is. pick is p) [[0..<?n], ?js]) = Inr (pick (concat [[0..<?n], ?js]) p)"
    by (rule concat_picks [OF ok n]) (use n in simp)
  then have cat: "concat_protos [p, pick ?js p] = Inr (pick ([0..<?n] @ ?js) p)"
    by (simp add: pick_all [OF ok])
  show ?thesis
    using n d r sel cat unfolding k_def by (simp add: pad_to_divisor_def Let_def)
qed

lemma unpad_pick:
  assumes "proto_ok p" "0 < batch_size p"
  shows "unpad (int k) p = Inr (pick [0..<batch_size p - k] p)"
proof (cases "k = 0")
  case True
  with assms show ?thesis by (simp add: unpad_def pick_all)
next
  case False
  let ?n = "batch_size p"
  let ?ix = "NormInts (map (wrap_neg ?n) (map int [0..<?n - k]))"
  have "slice_bound ?n 0 = 0" "slice_bound ?n (max (int ?n - int k) 0) = ?n - k"
    by (auto simp: slice_bound_def)
  then have "arange_slice ?n (Some 0) (Some (max (int ?n - int k) 0)) None
      = Inr (map int [0..<?n - k])"
    by (simp add: arange_slice_def Let_def)
  then have norm: "normalize_indices ?n (IdxSlice (Some 0) (Some (max (int ?n - int k) 0)) None) = Inr ?ix"
    by simp
  have "norm_in_rows ?n ?ix" by (auto simp: norm_in_rows_def list_all_iff wrap_neg_def)
  moreover have "norm_positions ?ix = [0..<?n - k]"
    by (simp add: norm_positions_def wrap_neg_def comp_def)
  ultimately show ?thesis
    using select_idxs_pick [OF assms norm] False assms(2) by (simp add: unpad_def)
qed

end
