(* ===== verification/Data_Proto_Props.thy ===== *)
theory Data_Proto_Props
  imports Data_Proto_Joins
begin

text \<open>
  The properties of the batch protocol: the invariant, the meaning of row selection, and
  the round trips that dispatch, padding and reordering rely on. \<open>sample_batch\<close> is the
  concrete batch the witnesses evaluate.
\<close>

definition sample_batch :: "(int, nat, nat) data_proto" where
  "sample_batch =
     \<lparr>tensors = [(''input_ids'', \<lparr>t_trail = [2], t_rows = [[1, 2], [3, 4], [5, 6]]\<rparr>),
                 (''reward'', \<lparr>t_trail = [], t_rows = [[7], [8], [9]]\<rparr>)],
      meta = [(''step'', 4)], ragged = [(''uid'', [10, 11, 12])]\<rparr>"

lemma sample_batch_ok: "proto_ok sample_batch" "batch_size sample_batch = 3"
  by (simp_all add: proto_ok_def sample_batch_def batch_size_def t_len_def wf_tensor_def)

lemma rows_key_order: "distinct ks \<Longrightarrow> set ks = set (dict_keys (tensors p)) \<Longrightarrow>
    map_of (tensors (key_order ks p)) = map_of (tensors p)"
proof
  fix k assume "distinct ks" and eq: "set ks = set (dict_keys (tensors p))"
  show "map_of (tensors (key_order ks p)) k = map_of (tensors p) k"
  proof (cases "k \<in> set ks")
    case True
    with eq have "map_of (tensors p) k \<noteq> None" by (simp add: map_of_eq_None_iff)
    with True show ?thesis by (simp add: key_order_def map_of_map_restrict restrict_map_def)
  next
    case False
    with eq have "map_of (tensors p) k = None" by (simp add: map_of_eq_None_iff)
    with False show ?thesis by (simp add: key_order_def map_of_map_restrict)
  qed
qed

section \<open>Invariant\<close>

lemma ragged_at_lengths:
  assumes "ragged_at rg is = Inr rg'"
  shows "dict_keys rg' = dict_keys rg" "\<And>k v. (k, v) \<in> set rg' \<Longrightarrow> length v = length is"
proof -
  have all: "list_all2 (\<lambda>(k, v) (k', v'). k' = k \<and> length v' = length is) rg rg'"
    using assms unfolding ragged_at_def map_result_Inr_iff
    by (rule list_all2_mono) (auto dest: map_result_length)
  then show "dict_keys rg' = dict_keys rg"
    by (induction rule: list_all2_induct) auto
  show "length v = length is" if "(k, v) \<in> set rg'" for k v
    using all that by (induction rule: list_all2_induct) auto
qed

lemma tensors_op_wf:
  assumes "map_result (\<lambda>(k, t). bind_result (f k t) (\<lambda>u. Inr (k, u))) ts = Inr us"
    and "\<And>k t u. (k, t) \<in> set ts \<Longrightarrow> f k t = Inr u \<Longrightarrow> wf_tensor u \<and> t_len u = n"
  shows "dict_keys us = dict_keys ts \<and> list_all (\<lambda>(_, u). wf_tensor u \<and> t_len u = n) us"
proof -
  have "list_all2 (\<lambda>(k, t) (k', u). k' = k \<and> f k t = Inr u) ts us"
    using assms(1) unfolding map_result_Inr_iff by (rule list_all2_mono) auto
  then show ?thesis using assms(2)
    by (induction rule: list_all2_induct) auto
qed

lemma proto_ok_built:
  assumes "distinct (dict_keys ts)" "distinct (dict_keys rg)"
    and "list_all (\<lambda>(_, u). wf_tensor u \<and> t_len u = n) ts" "\<And>k v. (k, v) \<in> set rg \<Longrightarrow> length v = n"
  shows "proto_ok \<lparr>tensors = ts, meta = m, ragged = rg\<rparr>"
  using assms
  by (cases ts; cases rg) (auto simp: proto_ok_def batch_size_def list_all_iff)

lemma index_tensor_wf:
  assumes "index_tensor ix t = Inr u" "wf_tensor t"
  shows "wf_tensor u \<and> t_len u = length (index_rows ix)"
proof (cases ix)
  case (NormMask bs)
  have "length (filter id bs) = length (filter (\<lambda>i. bs ! i) [0..<length bs])"
    using length_mask_list [of bs bs] mask_list_nth [of bs bs] by simp
  then show ?thesis using assms NormMask t_mask_wf [of bs t u] by simp
next
  case (NormInts js)
  then show ?thesis using assms t_gather_wf [of js t u] by simp
qed

lemma apply_index_ok:
  assumes ok: "proto_ok p" and q: "apply_index ix p = Inr q"
  shows "proto_ok q"
proof -
  obtain ts rg where ts: "map_result (\<lambda>(k, t). bind_result (index_tensor ix t) (\<lambda>u. Inr (k, u))) (tensors p) = Inr ts"
    and rg: "ragged_at (ragged p) (index_rows ix) = Inr rg"
    and q: "q = \<lparr>tensors = ts, meta = meta p, ragged = rg\<rparr>"
    using q by (auto simp: apply_index_def)
  have "wf_tensor u \<and> t_len u = length (index_rows ix)"
    if "(k, t) \<in> set (tensors p)" "index_tensor ix t = Inr u" for k t u
    using that(2) proto_okD(3) [OF ok that(1)] by (rule index_tensor_wf)
  then have "dict_keys ts = dict_keys (tensors p) \<and>
      list_all (\<lambda>(_, u). wf_tensor u \<and> t_len u = length (index_rows ix)) ts"
    by (rule tensors_op_wf [OF ts])
  then show ?thesis
    unfolding q using proto_okD(1,2) [OF ok] ragged_at_lengths [OF rg]
    by (intro proto_ok_built [where n = "length (index_rows ix)"]) simp_all
qed

lemma proto_ok_meta_only [simp]: "proto_ok (meta_only m)"
  by (simp add: proto_ok_def meta_only_def)

lemma select_idxs_ok: "proto_ok p \<Longrightarrow> select_idxs idx p = Inr q \<Longrightarrow> proto_ok q"
  by (auto simp: select_idxs_def split: if_splits dest: apply_index_ok)

lemma reorder_ok: "proto_ok p \<Longrightarrow> reorder idx p = Inr q \<Longrightarrow> proto_ok q"
  by (auto simp: reorder_def split: if_splits dest: apply_index_ok)

lemma split_ok: "proto_ok p \<Longrightarrow> q \<in> set (split c p) \<Longrightarrow> proto_ok q"
proof (cases "batch_size p = 0")
  case True
  then show "proto_ok p \<Longrightarrow> q \<in> set (split c p) \<Longrightarrow> proto_ok q"
    by (auto simp: split_def Let_def split: if_splits)
next
  case False
  assume ok: "proto_ok p" and q: "q \<in> set (split c p)"
  from q False obtain i where i: "i < nat c"
    "q = slice_proto (i * batch_size p div nat c) ((i + 1) * batch_size p div nat c) p"
    by (auto simp: split_def Let_def)
  then have "(i + 1) * batch_size p div nat c \<le> batch_size p"
    using chunk_bound_le by simp
  then show "proto_ok q"
    using ok i by (simp add: slice_proto_pick proto_ok_pick in_rows_def list_all_iff)
qed

lemma mini_batches_ok: "proto_ok p \<Longrightarrow> mini_batches b p = Inr qs \<Longrightarrow> q \<in> set qs \<Longrightarrow> proto_ok q"
  by (auto simp: mini_batches_def Let_def slice_proto_pick in_rows_def list_all_iff
      split: if_splits intro!: proto_ok_pick)

lemma pad_to_divisor_ok:
  assumes ok: "proto_ok p" and q: "pad_to_divisor d p = Inr (q, k)"
  shows "proto_ok q"
proof -
  consider "batch_size p = 0 \<or> batch_size p mod nat d = 0" | "0 < batch_size p" "batch_size p mod nat d \<noteq> 0"
    by auto
  then show ?thesis
  proof cases
    case 1
    with q ok show ?thesis by (auto simp: pad_to_divisor_def Let_def split: if_splits)
  next
    case 2
    from q have "0 < d" by (simp add: pad_to_divisor_def Let_def split: if_splits)
    with 2 q ok pad_to_divisor_pick [OF ok 2(1) _ 2(2)] show ?thesis
      by (auto simp: in_rows_def list_all_iff intro!: proto_ok_pick)
  qed
qed

lemma unpad_ok: "proto_ok p \<Longrightarrow> unpad k p = Inr q \<Longrightarrow> proto_ok q"
  by (auto simp: unpad_def split: if_splits dest: select_idxs_ok)

lemma sample_level_repeat_ok:
  assumes ok: "proto_ok p" and q: "sample_level_repeat spec p = Inr q"
  shows "proto_ok q"
proof (cases spec)
  case (Repeats rs)
  with q have rs: "length rs = batch_size p" "list_all (\<lambda>r. 0 \<le> r) rs"
    by (auto simp: list_all_iff list_ex_iff not_less split: if_splits)
  have "q = pick (repeat_order (batch_size p) (map nat rs)) p"
    using q sample_level_repeat_pick [OF ok rs] Repeats by simp
  with ok show ?thesis
    by (auto simp: in_rows_def list_all_iff dest: repeat_order_bound intro!: proto_ok_pick)
qed (use q in simp_all)

lemma t_tile_all:
  assumes "map_result (\<lambda>(k, t). bind_result (t_tile n t) (\<lambda>u. Inr (k, u))) ts = Inr us" "(j, t) \<in> set ts"
  shows "0 \<notin> set (t_trail t)"
proof -
  from assms(2) obtain i where "i < length ts" "ts ! i = (j, t)" by (auto simp: in_set_conv_nth)
  then show ?thesis using map_result_nth [OF assms(1)] by (force simp: t_tile_def split: if_splits)
qed

lemma repeat_rows_ok:
  assumes ok: "proto_ok p" and q: "repeat_rows k il p = Inr q"
  shows "proto_ok q"
proof -
  have k: "0 < k" using q by (simp add: repeat_rows_def Let_def split: if_splits)
  show ?thesis
  proof (cases il)
    case True
    with q repeat_rows_interleave_pick [OF ok k] ok show ?thesis
      by (auto simp: in_rows_def list_all_iff dest: repeat_order_bound intro!: proto_ok_pick)
  next
    case False
    obtain us where us: "map_result (\<lambda>(j, t). bind_result (t_tile (nat k) t) (\<lambda>u. Inr (j, u))) (tensors p) = Inr us"
      using q k False by (auto simp: repeat_rows_def Let_def)
    have "q = pick (concat (replicate (nat k) [0..<batch_size p])) p"
      using repeat_rows_tile_pick [OF ok k t_tile_all [OF us]] q False by simp
    with ok show ?thesis
      by (auto simp: in_rows_def list_all_iff split: if_splits intro!: proto_ok_pick)
  qed
qed

text \<open>C2: every row operation of a batch that satisfies the representation invariant and
  succeeds returns a batch that satisfies it: tensors and ragged columns keep one common
  number of rows, whatever the index, count or divisor.\<close>

theorem row_operations_preserve_invariant:
  assumes "proto_ok p"
  shows "(\<forall>idx q. select_idxs idx p = Inr q \<longrightarrow> proto_ok q)
       \<and> (\<forall>idx q. reorder idx p = Inr q \<longrightarrow> proto_ok q)
       \<and> (\<forall>c. list_all proto_ok (split c p))
       \<and> (\<forall>b qs. mini_batches b p = Inr qs \<longrightarrow> list_all proto_ok qs)
       \<and> (\<forall>d q n. pad_to_divisor d p = Inr (q, n) \<longrightarrow> proto_ok q)
       \<and> (\<forall>k q. unpad k p = Inr q \<longrightarrow> proto_ok q)
       \<and> (\<forall>k il q. repeat_rows k il p = Inr q \<longrightarrow> proto_ok q)
       \<and> (\<forall>spec q. sample_level_repeat spec p = Inr q \<longrightarrow> proto_ok q)"
  using assms
  by (blast intro: select_idxs_ok reorder_ok split_ok mini_batches_ok
      pad_to_divisor_ok unpad_ok repeat_rows_ok sample_level_repeat_ok list_all_iff [THEN iffD2])

theorem row_operations_preserve_invariant_witness:
  "select_idxs (IdxInts [2, -3]) sample_batch = Inr (pick [2, 0] sample_batch)
   \<and> proto_ok (pick [2, 0] sample_batch) \<and> list_all proto_ok (split 2 sample_batch)"
proof -
  have "select_idxs (IdxInts [2, -3]) sample_batch = Inr (pick [2, 0] sample_batch)" by code_simp
  then show ?thesis using row_operations_preserve_invariant [OF sample_batch_ok(1)] by blast
qed

section \<open>Splitting\<close>

lemma batch_size_slice_pick:
  "0 < batch_size p \<Longrightarrow> batch_size (pick [s..<e] p) = e - s"
  by simp

lemma chunk_size:
  fixes n k :: nat
  assumes "0 < k"
  shows "(i + 1) * n div k - i * n div k = n div k \<or> (i + 1) * n div k - i * n div k = n div k + 1"
proof -
  have "(i + 1) * n div k = i * n div k + n div k + (i * n mod k + n mod k) div k"
    using div_add1_eq [of "i * n" n k] by (simp add: add.commute)
  moreover have "i * n mod k < k" "n mod k < k" using assms by simp_all
  then have "i * n mod k + n mod k < 2 * k" by linarith
  then have "(i * n mod k + n mod k) div k < 2" by (simp add: less_mult_imp_div_less)
  ultimately show ?thesis by linarith
qed

lemma proto_rows_picks:
  assumes "0 < batch_size p" "\<And>is. is \<in> set iss \<Longrightarrow> in_rows is p" "concat iss = [0..<batch_size p]"
  shows "concat (map (\<lambda>is. proto_rows (pick is p)) iss) = proto_rows p"
proof -
  have "map (\<lambda>is. proto_rows (pick is p)) iss = map (map (\<lambda>i. proto_rows p ! i)) iss"
    using assms by (intro map_cong refl) (rule proto_rows_pick)
  then have "concat (map (\<lambda>is. proto_rows (pick is p)) iss) = map (\<lambda>i. proto_rows p ! i) (concat iss)"
    by (simp only: map_concat)
  also have "\<dots> = proto_rows p"
    unfolding assms(3) by (metis length_map length_upt diff_zero map_nth proto_rows_def)
  finally show ?thesis .
qed

lemma split_balanced_rows:
  assumes "proto_ok p" "0 < batch_size p" "0 < c"
  shows "concat (map proto_rows (split c p)) = proto_rows p"
proof -
  let ?iss = "map (\<lambda>i. [i * batch_size p div nat c..<(i + 1) * batch_size p div nat c]) [0..<nat c]"
  have sp: "split c p = map (\<lambda>is. pick is p) ?iss" using split_picks [OF assms(1,2)] by (simp add: comp_def)
  have "concat (map (\<lambda>is. proto_rows (pick is p)) ?iss) = proto_rows p"
  proof (rule proto_rows_picks [OF assms(2)])
    show "in_rows is p" if "is \<in> set ?iss" for "is"
      using that chunk_bound_le by (fastforce simp: in_rows_def list_all_iff intro: less_le_trans)
    show "concat ?iss = [0..<batch_size p]" using assms(3) by (intro split_index_lists) simp
  qed
  then show ?thesis by (simp add: sp comp_def)
qed

text \<open>C3: splitting a batch into \<open>c\<close> chunks and merging them gives the batch back (the order
  of the tensor keys aside, which a Python set decides), even when there are more chunks than
  rows.\<close>

theorem merge_split_roundtrip:
  assumes "proto_ok p" "0 < batch_size p" "0 < c" "set_order set_iter"
  shows "\<exists>q. merge set_iter (split c p) = Inr q \<and> map_of (tensors q) = map_of (tensors p)
           \<and> meta q = meta p \<and> ragged q = ragged p"
proof -
  let ?iss = "map (\<lambda>i. [i * batch_size p div nat c..<(i + 1) * batch_size p div nat c]) [0..<nat c]"
  have cc: "concat ?iss = [0..<batch_size p]" using assms(3) by (intro split_index_lists) simp
  have "split c p = map (\<lambda>is. pick is p) ?iss" using split_picks [OF assms(1,2)] by (simp add: comp_def)
  moreover have "merge set_iter (map (\<lambda>is. pick is p) ?iss)
      = Inr (key_order (set_iter (dict_keys (tensors p))) (pick (concat ?iss) p))"
    by (rule merge_picks [OF assms(1,2) _ assms(4)]) (use cc assms(2) in simp)
  ultimately have "merge set_iter (split c p) = Inr (key_order (set_iter (dict_keys (tensors p))) p)"
    by (simp only: cc pick_all [OF assms(1)])
  moreover have "map_of (tensors (key_order (set_iter (dict_keys (tensors p))) p)) = map_of (tensors p)"
    using assms(4) proto_okD(1) [OF assms(1)] by (intro rows_key_order) (auto simp only: set_order_def)
  ultimately show ?thesis by (simp add: key_order_def)
qed

theorem merge_split_roundtrip_witness:
  "\<exists>q. merge rev (split 2 sample_batch) = Inr q \<and> map_of (tensors q) = map_of (tensors sample_batch)
     \<and> meta q = meta sample_batch \<and> ragged q = ragged sample_batch"
  by (rule merge_split_roundtrip) (simp_all add: sample_batch_ok set_order_def)

text \<open>a split into \<open>c\<close> chunks is balanced and complete: exactly \<open>c\<close> chunks, whose sizes
  differ by at most one, holding the rows of the batch in order.\<close>

theorem split_balanced:
  assumes "proto_ok p" "0 < batch_size p" "0 < c"
  shows "length (split c p) = nat c
       \<and> concat (map proto_rows (split c p)) = proto_rows p
       \<and> list_all (\<lambda>q. batch_size q = batch_size p div nat c
                     \<or> batch_size q = batch_size p div nat c + 1) (split c p)"
proof -
  have "list_all (\<lambda>q. batch_size q = batch_size p div nat c
      \<or> batch_size q = batch_size p div nat c + 1) (split c p)"
    using chunk_size [of "nat c" _ "batch_size p"] assms(2,3)
    by (auto simp: split_picks [OF assms(1,2)] list_all_iff simp del: mult_Suc)
  then show ?thesis using split_balanced_rows [OF assms] by (simp add: split_picks [OF assms(1,2)])
qed

theorem split_balanced_witness:
  "length (split 2 sample_batch) = 2
   \<and> concat (map proto_rows (split 2 sample_batch)) = proto_rows sample_batch
   \<and> list_all (\<lambda>q. batch_size q = 1 \<or> batch_size q = 2) (split 2 sample_batch)"
  using split_balanced [of sample_batch 2] by (simp add: sample_batch_ok flip: numeral_2_eq_2)

section \<open>Selecting rows\<close>

lemma py_index_mod:
  assumes "0 < length xs" "- int (length xs) \<le> j" "j < int (length xs)"
  shows "py_index xs j = Inr (xs ! nat (j mod int (length xs)))"
proof (cases "j < 0")
  case True
  with assms have "j mod int (length xs) = int (length xs) + j"
    by (metis add.commute mod_add_self2 mod_pos_pos_trivial
        le_add_same_cancel2 minus_add_cancel add_less_same_cancel1)
  with True assms show ?thesis by (simp add: py_index_def Let_def)
next
  case False
  with assms show ?thesis by (simp add: py_index_def Let_def)
qed

lemma wrap_neg_mod: "0 < n \<Longrightarrow> wrap_neg n i mod int n = i mod int n"
  by (simp add: wrap_neg_def)

lemma gather_ok_iff:
  assumes "length xs = n"
  shows "map_result (py_index xs) js =
    (if list_all (\<lambda>j. - int n \<le> j \<and> j < int n) js \<and> (0 < n \<or> js = [])
     then Inr (map (\<lambda>j. xs ! nat (j mod int n)) js) else Inl IndexError)"
proof (induction js)
  case Nil
  show ?case by simp
next
  case (Cons j js)
  have out: "py_index xs j = Inl IndexError" if "\<not> (- int n \<le> j \<and> j < int n)"
    by (rule py_index_out) (use that assms in auto)
  have "n = 0 \<Longrightarrow> py_index xs j = Inl IndexError"
    by (rule py_index_out) (use assms in auto)
  with Cons out py_index_mod [of xs j] assms show ?case by auto
qed

lemma apply_ints:
  assumes ok: "proto_ok p" and n: "0 < batch_size p"
  defines "n \<equiv> int (batch_size p)"
  shows "apply_index (NormInts js) p =
    (if list_all (\<lambda>j. - n \<le> j \<and> j < n) js then Inr (pick (map (\<lambda>j. nat (j mod n)) js) p)
     else Inl IndexError)"
proof (cases "list_all (\<lambda>j. - n \<le> j \<and> j < n) js")
  case True
  let ?is = "map (\<lambda>j. nat (j mod n)) js"
  have "t_gather js t = Inr (pick_t ?is t)" if "(k, t) \<in> set (tensors p)" for k t
    using proto_okD(4) [OF ok that] True n
    by (simp add: t_gather_def t_len_def gather_ok_iff n_def pick_t_def comp_def)
  moreover have "bind_result (map_result (py_index v) js) (\<lambda>w. Inr (k, w))
      = Inr (k, map (\<lambda>i. v ! i) ?is)" if "(k, v) \<in> set (ragged p)" for k v
    using proto_okD(5) [OF ok that] True n by (simp add: gather_ok_iff n_def comp_def)
  then have "ragged_at (ragged p) js = Inr (map (\<lambda>(k, v). (k, map (\<lambda>i. v ! i) ?is)) (ragged p))"
    unfolding ragged_at_def by (intro map_result_total) auto
  ultimately show ?thesis
    using True tensors_op_pick [of "tensors p" "\<lambda>_. t_gather js" ?is]
    by (simp add: apply_index_def pick_def dict_map_def)
next
  case False
  have t: "t_gather js t = Inl IndexError" if "(k, t) \<in> set (tensors p)" for k t
    using proto_okD(4) [OF ok that] False n by (simp add: t_gather_def t_len_def gather_ok_iff n_def)
  have r: "map_result (py_index v) js = Inl IndexError" if "(k, v) \<in> set (ragged p)" for k v
    using proto_okD(5) [OF ok that] False n by (simp add: gather_ok_iff n_def)
  show ?thesis
  proof (cases "tensors p")
    case (Cons kt ts)
    with t [of "fst kt" "snd kt"] show ?thesis using False by (cases kt) (simp add: apply_index_def)
  next
    case Nil
    with n obtain kv rg where "ragged p = kv # rg"
      using batch_size_pos [OF n] by (cases "ragged p") auto
    with Nil r [of "fst kv" "snd kv"] show ?thesis using False
      by (cases kv) (simp add: apply_index_def ragged_at_def)
  qed
qed

lemma in_rows_mod: "0 < batch_size p \<Longrightarrow> in_rows (map (\<lambda>j. nat (f j mod int (batch_size p))) js) p"
  by (simp add: in_rows_def list_all_iff nat_less_iff)

text \<open>selecting rows by a list of integers. An index is accepted when it lies in
  \<open>[-2n, n)\<close> for a batch of \<open>n\<close> rows and then denotes row \<open>i mod n\<close>, in all tensors and ragged
  columns together; any other index raises IndexError. (Python and torch accept \<open>[-n, n)\<close>: the
  code adds \<open>n\<close> to a negative index once itself and the tensor does it again.)\<close>

theorem select_idxs_ints:
  assumes "proto_ok p" "0 < batch_size p"
  defines "n \<equiv> int (batch_size p)"
  shows "if list_all (\<lambda>i. - 2 * n \<le> i \<and> i < n) is
         then \<exists>q. select_idxs (IdxInts is) p = Inr q \<and> meta q = meta p
                \<and> proto_rows q = map (\<lambda>i. proto_rows p ! nat (i mod n)) is
         else select_idxs (IdxInts is) p = Inl IndexError"
proof -
  have wrap: "- n \<le> wrap_neg (batch_size p) i \<and> wrap_neg (batch_size p) i < n
      \<longleftrightarrow> - 2 * n \<le> i \<and> i < n" for i
    by (auto simp: wrap_neg_def n_def)
  then have "list_all (\<lambda>j. - n \<le> j \<and> j < n) (map (wrap_neg (batch_size p)) is)
      = list_all (\<lambda>i. - 2 * n \<le> i \<and> i < n) is"
    by (simp add: list.pred_map comp_def)
  moreover have "(\<lambda>j. nat (j mod n)) \<circ> wrap_neg (batch_size p) = (\<lambda>i. nat (i mod n))"
    using assms(2) by (simp add: wrap_neg_mod n_def fun_eq_iff)
  ultimately have "select_idxs (IdxInts is) p =
      (if list_all (\<lambda>i. - 2 * n \<le> i \<and> i < n) is then Inr (pick (map (\<lambda>i. nat (i mod n)) is) p)
       else Inl IndexError)"
    using assms(2) apply_ints [OF assms(1,2)] by (simp add: select_idxs_def n_def del: map_map add: map_map [of "\<lambda>j. nat (j mod int (batch_size p))"])
  then show ?thesis
    using proto_rows_pick [OF assms(2) in_rows_mod [OF assms(2), of "\<lambda>i. i"]]
    by (simp add: n_def comp_def)
qed

theorem select_idxs_ints_witness:
  "(\<exists>q. select_idxs (IdxInts [-1, 0, -6]) sample_batch = Inr q \<and> meta q = meta sample_batch
      \<and> proto_rows q = map (\<lambda>i. proto_rows sample_batch ! nat (i mod 3)) [-1, 0, -6])
   \<and> select_idxs (IdxInts [3]) sample_batch = Inl IndexError"
  using select_idxs_ints [of sample_batch "[-1, 0, -6]"] select_idxs_ints [of sample_batch "[3]"]
  by (simp add: sample_batch_ok)

lemma reorder_pick:
  assumes "proto_ok q" "0 < batch_size q" "list_all (\<lambda>i. i < batch_size q) ks"
  shows "reorder (IdxInts (map int ks)) q = Inr (pick ks q)"
proof -
  let ?ix = "NormInts (map (wrap_neg (batch_size q)) (map int ks))"
  have "norm_positions ?ix = ks" by (simp add: norm_positions_def wrap_neg_def comp_def)
  moreover have "norm_in_rows (batch_size q) ?ix"
    using assms(3) by (auto simp: norm_in_rows_def wrap_neg_def list_all_iff)
  ultimately show ?thesis using assms(2) apply_index_pick [OF assms(1), of ?ix] by (simp add: reorder_def)
qed

text \<open>reordering a batch by a permutation and then by its inverse restores it.\<close>

theorem reorder_inverse:
  assumes "proto_ok p" "0 < batch_size p"
    and "length is = batch_size p" "list_all (\<lambda>i. i < batch_size p) is"
    and "list_all (\<lambda>j. j < batch_size p) js" "map (\<lambda>j. is ! j) js = [0..<batch_size p]"
  shows "bind_result (reorder (IdxInts (map int is)) p) (reorder (IdxInts (map int js))) = Inr p"
proof -
  have "proto_ok (pick is p)" "batch_size (pick is p) = batch_size p"
    using assms by (simp_all add: proto_ok_pick in_rows_def)
  then have "bind_result (reorder (IdxInts (map int is)) p) (reorder (IdxInts (map int js)))
      = Inr (pick js (pick is p))"
    using assms by (simp add: reorder_pick del: map_map)
  also have "pick js (pick is p) = pick (map (\<lambda>j. is ! j) js) p"
    using assms by (intro pick_pick) simp
  finally show ?thesis using assms(6) by (simp add: pick_all [OF assms(1)])
qed

theorem reorder_inverse_witness:
  "bind_result (reorder (IdxInts (map int [2, 0, 1])) sample_batch) (reorder (IdxInts (map int [1, 2, 0])))
   = Inr sample_batch"
  by (rule reorder_inverse) (simp_all add: sample_batch_ok upt_rec)

section \<open>Padding\<close>

text \<open>padding to a divisor reaches the next multiple with fewer than \<open>d\<close> extra rows, and
  unpadding by the returned count restores the batch.\<close>

theorem pad_unpad_roundtrip:
  assumes "proto_ok p" "0 < batch_size p" "0 < d"
  shows "\<exists>q k. pad_to_divisor d p = Inr (q, k) \<and> k < nat d \<and> nat d dvd batch_size q
           \<and> batch_size q = batch_size p + k \<and> unpad (int k) q = Inr p"
proof (cases "batch_size p mod nat d = 0")
  case True
  with assms show ?thesis by (auto simp: pad_to_divisor_def Let_def unpad_def)
next
  case False
  let ?n = "batch_size p" and ?d = "nat d"
  let ?k = "?d - ?n mod ?d"
  let ?is = "[0..<?n] @ map (\<lambda>i. i mod ?n) [0..<?k]"
  have "in_rows ?is p" using assms(2) by (auto simp: in_rows_def list_all_iff)
  then have okq: "proto_ok (pick ?is p)" using assms(1) by (rule proto_ok_pick [rotated])
  have bs: "batch_size (pick ?is p) = ?n + ?k"
    using assms(2) by (simp only: batch_size_pick_pos length_append length_map length_upt diff_zero)
  have "?n mod ?d < ?d" using assms(3) by simp
  then have "?n + ?k = (?n div ?d + 1) * ?d"
    using div_mult_mod_eq [of ?n ?d] by (simp only: distrib_right) linarith
  then have "?d dvd ?n + ?k" by simp
  moreover have "unpad (int ?k) (pick ?is p) = Inr p"
  proof -
    have "unpad (int ?k) (pick ?is p) = Inr (pick [0..<?n] (pick ?is p))"
      using unpad_pick [OF okq, of ?k] bs assms(2) by simp
    also have "pick [0..<?n] (pick ?is p) = pick (map (\<lambda>j. ?is ! j) [0..<?n]) p"
      by (rule pick_pick) (auto simp: list_all_iff)
    also have "map (\<lambda>j. ?is ! j) [0..<?n] = [0..<?n]" by (rule nth_equalityI) (simp_all add: nth_append)
    finally show ?thesis by (simp add: pick_all [OF assms(1)])
  qed
  moreover have "?k < ?d" using False assms(3) by simp
  ultimately show ?thesis using pad_to_divisor_pick [OF assms(1,2,3) False] bs by metis
qed

theorem pad_unpad_roundtrip_witness:
  "\<exists>q k. pad_to_divisor 4 sample_batch = Inr (q, k) \<and> k < 4 \<and> 4 dvd batch_size q
     \<and> batch_size q = 3 + k \<and> unpad (int k) q = Inr sample_batch"
  using pad_unpad_roundtrip [of sample_batch 4] by (simp add: sample_batch_ok)

section \<open>Mini-batches and repetition\<close>

lemma range_tiles:
  fixes n b :: nat
  assumes "0 < b"
  shows "concat (map (\<lambda>i. [i * b..<min (i * b + b) n]) [0..<(n + b - 1) div b]) = [0..<n]"
proof -
  let ?k = "(n + b - 1) div b"
  have step: "[i * b..<min (i * b + b) n] = [min (i * b) n..<min (Suc i * b) n]" for i
    by (cases "i * b \<le> n") (auto simp: min_def add.commute)
  have "n \<le> ?k * b"
  proof -
    have "(n + b - 1) mod b < b" using assms by simp
    then show ?thesis using div_mult_mod_eq [of "n + b - 1" b] assms by linarith
  qed
  then have "min (?k * b) n = n" by simp
  moreover have "concat (map (\<lambda>i. [min (i * b) n..<min (Suc i * b) n]) [0..<?k])
      = [min (0 * b) n..<min (?k * b) n]"
    by (rule concat_upts [THEN conjunct1]) (simp add: min_def)
  ultimately show ?thesis by (simp add: step)
qed

text \<open>iterating mini-batches of positive size \<open>b\<close> visits every row once and in order, in
  batches that are never empty, never larger than \<open>b\<close>, and all full but the last.\<close>

theorem mini_batches_cover:
  assumes "proto_ok p" "0 < batch_size p" "0 < b"
  shows "\<exists>qs. mini_batches b p = Inr qs \<and> concat (map proto_rows qs) = proto_rows p
     \<and> list_all (\<lambda>q. 0 < batch_size q \<and> batch_size q \<le> nat b) qs
     \<and> list_all (\<lambda>q. batch_size q = nat b) (butlast qs)"
proof -
  let ?n = "batch_size p" and ?b = "nat b"
  let ?k = "(?n + ?b - 1) div ?b"
  let ?is = "\<lambda>i. [i * ?b..<min (i * ?b + ?b) ?n]"
  let ?qs = "map (\<lambda>i. pick (?is i) p) [0..<?k]"
  have b: "0 < ?b" using assms(3) by simp
  have qs: "mini_batches b p = Inr ?qs"
    using assms by (simp add: mini_batches_def Let_def slice_proto_pick)
  have "concat (map (\<lambda>is. proto_rows (pick is p)) (map ?is [0..<?k])) = proto_rows p"
    by (rule proto_rows_picks [OF assms(2) _ range_tiles [OF b]])
      (auto simp: in_rows_def list_all_iff)
  then have rows: "concat (map proto_rows ?qs) = proto_rows p" by (simp add: comp_def)
  have start: "i * ?b < ?n" if "i < ?k" for i
  proof -
    have "Suc i \<le> (?n + ?b - 1) div ?b" using that by simp
    then have "Suc i * ?b \<le> ?n + ?b - 1" using b by (metis less_eq_div_iff_mult_less_eq)
    then show ?thesis using b by simp
  qed
  then have sizes: "list_all (\<lambda>q. 0 < batch_size q \<and> batch_size q \<le> ?b) ?qs"
    using assms(2) b by (auto simp: list_all_iff)
  have "butlast ?qs = map (\<lambda>i. pick (?is i) p) [0..<?k - 1]"
    by (simp only: map_butlast [symmetric] butlast_upt_0)
  moreover have "batch_size (pick (?is i) p) = ?b" if "i < ?k - 1" for i
  proof -
    have "Suc i < ?k" using that by linarith
    then have "Suc i * ?b < ?n" by (rule start)
    then show ?thesis using assms(2) by simp
  qed
  ultimately have "list_all (\<lambda>q. batch_size q = ?b) (butlast ?qs)"
    by (simp add: list_all_iff)
  with qs rows sizes show ?thesis by blast
qed

theorem mini_batches_cover_witness:
  "\<exists>qs. mini_batches 2 sample_batch = Inr qs \<and> concat (map proto_rows qs) = proto_rows sample_batch
     \<and> list_all (\<lambda>q. 0 < batch_size q \<and> batch_size q \<le> 2) qs
     \<and> list_all (\<lambda>q. batch_size q = 2) (butlast qs)"
  using mini_batches_cover [of sample_batch 2] by (simp add: sample_batch_ok)

text \<open>the interleaved \<open>repeat\<close> is the sample-level repeat with one constant count, and it
  lists every row \<open>k\<close> times in place; the tiled \<open>repeat\<close> lists the whole batch \<open>k\<close> times.\<close>

theorem repeat_rows_spec:
  assumes "proto_ok p" "0 < batch_size p" "0 < k"
  shows "repeat_rows k True p = sample_level_repeat (Repeats (replicate (batch_size p) k)) p
     \<and> (\<exists>q. repeat_rows k True p = Inr q
           \<and> proto_rows q = concat (map (\<lambda>r. replicate (nat k) r) (proto_rows p)))
     \<and> (list_all (\<lambda>(_, t). 0 \<notin> set (t_trail t)) (tensors p) \<longrightarrow>
         (\<exists>q. repeat_rows k False p = Inr q \<and> proto_rows q = concat (replicate (nat k) (proto_rows p))))"
proof -
  let ?n = "batch_size p"
  have rows: "map (\<lambda>i. proto_rows p ! i) [0..<?n] = proto_rows p"
    by (metis length_map length_upt diff_zero map_nth proto_rows_def)
  let ?o = "repeat_order ?n (replicate ?n (nat k))"
  have inter: "repeat_rows k True p = Inr (pick ?o p)"
    by (rule repeat_rows_interleave_pick [OF assms(1,3)])
  have "sample_level_repeat (Repeats (replicate ?n k)) p = Inr (pick ?o p)"
    using sample_level_repeat_pick [OF assms(1), of "replicate ?n k"] assms(3)
    by (simp add: list_all_iff)
  moreover have "proto_rows (pick ?o p) = concat (map (\<lambda>r. replicate (nat k) r) (proto_rows p))"
  proof -
    have "in_rows ?o p" by (auto simp: in_rows_def list_all_iff dest: repeat_order_bound)
    then have "proto_rows (pick ?o p) = map (\<lambda>i. proto_rows p ! i) ?o"
      by (rule proto_rows_pick [OF assms(2)])
    also have "\<dots> = concat (map (\<lambda>r. replicate (nat k) r) (map (\<lambda>i. proto_rows p ! i) [0..<?n]))"
      by (simp add: repeat_order_replicate map_concat comp_def)
    finally show ?thesis by (simp only: rows)
  qed
  moreover have "\<exists>q. repeat_rows k False p = Inr q \<and> proto_rows q = concat (replicate (nat k) (proto_rows p))"
    if "list_all (\<lambda>(_, t). 0 \<notin> set (t_trail t)) (tensors p)"
  proof -
    let ?t = "concat (replicate (nat k) [0..<?n])"
    have "repeat_rows k False p = Inr (pick ?t p)"
      using that by (intro repeat_rows_tile_pick [OF assms(1,3)]) (auto simp: list_all_iff)
    moreover have "in_rows ?t p" by (auto simp: in_rows_def list_all_iff split: if_splits)
    then have "proto_rows (pick ?t p) = map (\<lambda>i. proto_rows p ! i) ?t"
      by (rule proto_rows_pick [OF assms(2)])
    moreover have "\<dots> = concat (replicate (nat k) (proto_rows p))"
      by (simp add: map_concat rows)
    ultimately show ?thesis by simp
  qed
  ultimately show ?thesis using inter by simp
qed

theorem repeat_rows_spec_witness:
  "repeat_rows 2 True sample_batch = sample_level_repeat (Repeats (replicate 3 2)) sample_batch
   \<and> (\<exists>q. repeat_rows 2 False sample_batch = Inr q
        \<and> proto_rows q = concat (replicate 2 (proto_rows sample_batch)))"
  using repeat_rows_spec [of sample_batch 2] sample_batch_ok
  by (simp add: sample_batch_def)

section \<open>Joining batches of different widths\<close>

definition widest :: "nat list \<Rightarrow> nat" where
  "widest ws = foldr max ws 0"

lemma widest_upper: "w \<in> set ws \<Longrightarrow> w \<le> widest ws"
  unfolding widest_def by (induction ws) auto

lemma merge_parts_pad:
  assumes "ts \<noteq> []" "list_all (\<lambda>t. wf_tensor t \<and> length (t_trail t) = 1) ts"
  defines "w \<equiv> widest (map (\<lambda>t. hd (t_trail t)) ts)"
  shows "merge_parts ts = Inr \<lparr>t_trail = [w],
    t_rows = map (\<lambda>r. r @ replicate (w - length r) 0) (concat (map t_rows ts))\<rparr>"
proof -
  let ?ws = "map (\<lambda>t. hd (t_trail t)) ts"
  let ?pad = "\<lambda>t. t_pad_dim1 (w - hd (t_trail t)) t"
  have tr: "t_trail t = [hd (t_trail t)]" if "t \<in> set ts" for t
    using that assms(2) by (cases "t_trail t") (auto simp: list_all_iff)
  have ndim: "2 \<le> t_ndim (hd ts)" using assms(1,2) by (cases ts) (auto simp: t_ndim_def)
  have "t_dim1 t = Inr (hd (t_trail t))" if "t \<in> set ts" for t
    unfolding t_dim1_def by (subst tr [OF that]) simp
  then have dims: "map_result t_dim1 ts = Inr ?ws" by (rule map_result_total)
  have fields: "t_trail (?pad t) = [w]"
    "t_rows (?pad t) = map (\<lambda>r. r @ replicate (w - length r) 0) (t_rows t)" if t: "t \<in> set ts" for t
  proof -
    have "hd (t_trail t) \<le> w" using t by (auto simp: w_def intro: widest_upper)
    then show "t_trail (?pad t) = [w]" using t_pad_dim1_fields(1) [OF tr [OF t]] by simp
    have "length r = hd (t_trail t)" if "r \<in> set (t_rows t)" for r
    proof -
      have "length r = prod_list (t_trail t)"
        using t that assms(2) by (simp add: list_all_iff wf_tensor_def)
      also have "\<dots> = hd (t_trail t)" by (subst tr [OF t]) simp
      finally show ?thesis .
    qed
    then show "t_rows (?pad t) = map (\<lambda>r. r @ replicate (w - length r) 0) (t_rows t)"
      using t_pad_dim1_fields(2) [OF tr [OF t]] by simp
  qed
  have cat: "t_cat (map ?pad ts) = Inr \<lparr>t_trail = [w], t_rows = concat (map t_rows (map ?pad ts))\<rparr>"
    by (rule t_cat_same_trail) (use assms(1) fields(1) in auto)
  have rows: "concat (map t_rows (map ?pad ts))
      = map (\<lambda>r. r @ replicate (w - length r) 0) (concat (map t_rows ts))"
    using fields(2) by (simp add: map_concat comp_def cong: map_cong)
  have "zip ?ws ts = map (\<lambda>t. (hd (t_trail t), t)) ts" by (induction ts) auto
  then have padded: "map (\<lambda>(v, t). t_pad_dim1 (w - v) t) (zip ?ws ts) = map ?pad ts" by simp
  have "map ?pad ts = ts" if "\<not> list_ex (\<lambda>v. v \<noteq> w) ?ws"
    using that by (intro map_idI) (auto simp: list_ex_iff)
  then show ?thesis
    using ndim dims cat rows padded by (auto simp: merge_parts_def Let_def widest_def [symmetric] w_def [symmetric])
qed

text \<open>merging batches whose 2-D tensors have different widths pads every row with zeros
  to the widest part and keeps the rows in order, for every tensor key.\<close>

theorem merge_pads_to_widest:
  assumes "ps \<noteq> []" "set_order set_iter" "set ks = set (dict_keys (tensors (hd ps)))"
    and "list_all (\<lambda>p. proto_ok p \<and> 0 < batch_size p \<and> set (dict_keys (tensors p)) = set ks
          \<and> list_all (\<lambda>(_, t). length (t_trail t) = 1) (tensors p)) ps"
  shows "\<exists>q. merge set_iter ps = Inr q \<and> set (dict_keys (tensors q)) = set ks
     \<and> list_all (\<lambda>k. let ts = map (\<lambda>p. the (map_of (tensors p) k)) ps;
                            w = widest (map (\<lambda>t. hd (t_trail t)) ts)
                        in map_of (tensors q) k = Some \<lparr>t_trail = [w],
                             t_rows = map (\<lambda>r. r @ replicate (w - length r) 0) (concat (map t_rows ts))\<rparr>) ks"
proof -
  define col where "col k = map (\<lambda>p. the (map_of (tensors p) k)) ps" for k
  define out where "out k = (let w = widest (map (\<lambda>t. hd (t_trail t)) (col k)) in
      \<lparr>t_trail = [w], t_rows = map (\<lambda>r. r @ replicate (w - length r) 0) (concat (map t_rows (col k)))\<rparr>)" for k
  obtain q qs where ps: "ps = q # qs" using assms(1) by (cases ps) auto
  let ?ks = "set_iter (dict_keys (tensors q))"
  have dq: "distinct (dict_keys (tensors q))" using assms(4) ps by (auto dest: proto_okD(1))
  then have ks: "distinct ?ks" "set ?ks = set ks"
    using assms(2,3) ps by (simp_all only: set_order_def list.sel)
  have flt: "filter (\<lambda>p. 0 < batch_size p) ps = ps"
    using assms(4) by (auto simp: filter_id_conv list_all_iff)
  have same: "\<not> list_ex (\<lambda>p. set (dict_keys (tensors p)) \<noteq> set (dict_keys (tensors q))) qs"
    using assms(3,4) ps by (auto simp: list_ex_iff list_all_iff)
  have key: "bind_result (map_result (\<lambda>p. dict_get (tensors p) k) ps)
      (\<lambda>ts. bind_result (merge_parts ts) (\<lambda>t. Inr (k, t))) = Inr (k, out k)" if k: "k \<in> set ?ks" for k
  proof -
    have get: "map_of (tensors p) k = Some (the (map_of (tensors p) k))
        \<and> (k, the (map_of (tensors p) k)) \<in> set (tensors p)" if "p \<in> set ps" for p
    proof -
      have "k \<in> fst ` set (tensors p)" using that k ks(2) assms(4) by (auto simp: list_all_iff)
      then obtain t where "map_of (tensors p) k = Some t" by (metis map_of_eq_None_iff not_None_eq)
      then show ?thesis by (auto dest: map_of_SomeD)
    qed
    then have "map_result (\<lambda>p. dict_get (tensors p) k) ps = Inr (col k)"
      unfolding col_def by (intro map_result_total) simp
    moreover have "merge_parts (col k) = Inr (out k)"
      unfolding out_def Let_def
    proof (rule merge_parts_pad)
      show "col k \<noteq> []" using assms(1) by (simp add: col_def)
      have "wf_tensor t \<and> length (t_trail t) = 1" if "p \<in> set ps" "t = the (map_of (tensors p) k)" for p t
        using assms(4) get [OF that(1)] that by (auto simp: list_all_iff dest: proto_okD(3))
      then show "list_all (\<lambda>t. wf_tensor t \<and> length (t_trail t) = 1) (col k)"
        by (auto simp: col_def list_all_iff)
    qed
    ultimately show ?thesis by simp
  qed
  let ?ts = "map (\<lambda>k. (k, out k)) ?ks"
  have "merge set_iter ps = Inr \<lparr>tensors = ?ts, meta = meta q, ragged = ragged_concat ps\<rparr>"
    using flt same map_result_total [OF key] unfolding merge_def ps by simp
  moreover have "map_of ?ts k = Some (out k)" if "k \<in> set ks" for k
    using that ks by (simp add: map_of_map_restrict)
  moreover have "map fst ?ts = ?ks" by (simp add: comp_def)
  ultimately have "merge set_iter ps = Inr \<lparr>tensors = ?ts, meta = meta q, ragged = ragged_concat ps\<rparr>
      \<and> set (map fst ?ts) = set ks \<and> list_all (\<lambda>k. map_of ?ts k = Some (out k)) ks"
    using ks(2) by (simp only: list_all_iff) simp
  then show ?thesis
    by (intro exI [of _ "\<lparr>tensors = ?ts, meta = meta q, ragged = ragged_concat ps\<rparr>"])
      (simp only: out_def col_def Let_def data_proto.select_convs)
qed

definition narrow_batch :: "(int, nat, nat) data_proto" where
  "narrow_batch = \<lparr>tensors = [(''ids'', \<lparr>t_trail = [1], t_rows = [[4]]\<rparr>)], meta = [], ragged = []\<rparr>"

definition wide_batch :: "(int, nat, nat) data_proto" where
  "wide_batch = \<lparr>tensors = [(''ids'', \<lparr>t_trail = [3], t_rows = [[1, 2, 3]]\<rparr>)], meta = [], ragged = []\<rparr>"

lemma width_batches_ok:
  "proto_ok narrow_batch" "proto_ok wide_batch"
  "batch_size narrow_batch = 1" "batch_size wide_batch = 1"
  "tensors narrow_batch = [(''ids'', \<lparr>t_trail = [1], t_rows = [[4]]\<rparr>)]"
  "tensors wide_batch = [(''ids'', \<lparr>t_trail = [3], t_rows = [[1, 2, 3]]\<rparr>)]"
  by (simp_all add: proto_ok_def narrow_batch_def wide_batch_def batch_size_def t_len_def wf_tensor_def)

theorem merge_pads_to_widest_witness:
  "\<exists>q. merge (\<lambda>ks. ks) [narrow_batch, wide_batch] = Inr q \<and> set (dict_keys (tensors q)) = {''ids''}
     \<and> map_of (tensors q) ''ids'' = Some \<lparr>t_trail = [3], t_rows = [[4, 0, 0], [1, 2, 3]]\<rparr>"
  using merge_pads_to_widest [of "[narrow_batch, wide_batch]" "\<lambda>ks. ks" "[''ids'']"]
  by (simp add: set_order_def width_batches_ok widest_def numeral_2_eq_2 numeral_3_eq_3 Let_def)

text \<open>Joining a batch that has a ragged column with one that has not leaves the column
  shorter than the tensors: the result fails its own consistency check.\<close>

lemma concat_misaligns_ragged:
  "\<exists>q. concat_protos [narrow_batch\<lparr>ragged := [(''uid'', [5])]\<rparr>, narrow_batch] = Inr q
     \<and> check_consistency q = Inl ValueError"
  by (simp add: narrow_batch_def concat_protos_def batch_size_def t_len_def t_cat_def Let_def
      ragged_concat_def check_consistency_def)

section \<open>Router distributions\<close>

definition router_canonical :: "('e, 'r, 'm) data_proto \<Rightarrow> bool" where
  \<comment> \<open>every key with the router prefix was written by \<open>add_router_distributions\<close>\<close>
  "router_canonical p = list_all (\<lambda>k. has_prefix router_prefix k \<longrightarrow>
     (case py_int (drop (length router_prefix) k) of
        None \<Rightarrow> False | Some i \<Rightarrow> k = router_prefix @ show_int i)) (dict_keys (tensors p))"

definition router_step where
  "router_step acc = (\<lambda>(key, t). bind_result acc (\<lambda>d.
     if has_prefix router_prefix key
     then (case py_int (drop (length router_prefix) key) of None \<Rightarrow> Inl ValueError | Some i \<Rightarrow> Inr (dict_set i t d))
     else Inr d))"

lemma router_step_Inr: "router_step (Inr d) (k, t) =
    (if has_prefix router_prefix k
     then (case py_int (drop (length router_prefix) k) of None \<Rightarrow> Inl ValueError | Some i \<Rightarrow> Inr (dict_set i t d))
     else Inr d)"
  by (simp add: router_step_def)

lemma router_fold:
  assumes "distinct (dict_keys ts)"
    and "list_all (\<lambda>k. has_prefix router_prefix k \<longrightarrow> (case py_int (drop (length router_prefix) k) of
        None \<Rightarrow> False | Some i \<Rightarrow> k = router_prefix @ show_int i)) (dict_keys ts)"
  shows "\<exists>d. foldl router_step (Inr []) ts = Inr d
    \<and> (\<forall>i. map_of d i = map_of ts (router_prefix @ show_int i))"
  using assms
proof (induction ts rule: rev_induct)
  case Nil
  show ?case by simp
next
  case (snoc kt ts)
  obtain k t where kt: "kt = (k, t)" by (cases kt)
  from snoc obtain d where d: "foldl router_step (Inr []) ts = Inr d"
    "\<And>i. map_of d i = map_of ts (router_prefix @ show_int i)" by auto
  have fresh: "map_of ts k = None" using snoc.prems by (simp add: kt map_of_eq_None_iff)
  show ?case
  proof (cases "has_prefix router_prefix k")
    case True
    then obtain i where i: "py_int (drop (length router_prefix) k) = Some i" "k = router_prefix @ show_int i"
      using snoc.prems by (auto simp: kt split: option.splits)
    with d True have "foldl router_step (Inr []) (ts @ [kt]) = Inr (dict_set i t d)"
      by (simp add: kt router_step_Inr)
    moreover have "map_of (dict_set i t d) j = map_of (ts @ [kt]) (router_prefix @ show_int j)" for j
      using d(2) fresh i(2) by (auto simp: kt map_add_def split: option.split)
    ultimately show ?thesis by blast
  next
    case False
    then have "k \<noteq> router_prefix @ show_int i" for i by auto
    then have "map_of d j = map_of (ts @ [kt]) (router_prefix @ show_int j)" for j
      using d(2) by (auto simp: kt map_add_def split: option.split)
    moreover have "foldl router_step (Inr []) (ts @ [kt]) = Inr d"
      using d(1) False by (simp add: kt router_step_Inr)
    ultimately show ?thesis by blast
  qed
qed

lemma get_router_fold: "get_router_distributions p = foldl router_step (Inr []) (tensors p)"
  by (simp add: get_router_distributions_def router_step_def [abs_def] case_prod_beta)

lemma get_router_map:
  assumes "distinct (dict_keys (tensors p))" "router_canonical p"
  shows "\<exists>d. get_router_distributions p = Inr d
    \<and> (\<forall>i. map_of d i = map_of (tensors p) (router_prefix @ show_int i))"
  using router_fold [OF assms(1)] assms(2) by (simp add: router_canonical_def get_router_fold)

lemma add_router_distributions_inv:
  assumes "distinct (dict_keys (tensors p))" "router_canonical p"
  shows "distinct (dict_keys (tensors (add_router_distributions i t p)))"
    and "router_canonical (add_router_distributions i t p)"
    and "map_of (tensors (add_router_distributions i t p)) = (map_of (tensors p))(router_prefix @ show_int i \<mapsto> t)"
proof -
  have ts: "tensors (add_router_distributions i t p) = dict_set (router_prefix @ show_int i) t (tensors p)"
    by (simp add: add_router_distributions_def)
  have keys: "set (dict_keys (tensors (add_router_distributions i t p)))
      = insert (router_prefix @ show_int i) (set (dict_keys (tensors p)))"
    by (simp add: ts)
  show "distinct (dict_keys (tensors (add_router_distributions i t p)))" using assms(1) by (simp add: ts)
  show "router_canonical (add_router_distributions i t p)"
    using assms(2) unfolding router_canonical_def list_all_iff keys by auto
  show "map_of (tensors (add_router_distributions i t p)) = (map_of (tensors p))(router_prefix @ show_int i \<mapsto> t)"
    by (simp add: ts fun_eq_iff)
qed

text \<open>the router distribution stored for a layer is the one read back, other layers keep
  theirs, and the reader never fails on keys the writer made (decimal layer numbers, negative
  ones included).\<close>

theorem router_distributions_get_after_add:
  assumes "distinct (dict_keys (tensors p))" "router_canonical p"
  shows "\<exists>d d'. get_router_distributions p = Inr d
     \<and> get_router_distributions (add_router_distributions i t p) = Inr d'
     \<and> map_of d' = (map_of d)(i \<mapsto> t)
     \<and> has_router_distributions (add_router_distributions i t p)"
proof -
  let ?q = "add_router_distributions i t p"
  note inv = add_router_distributions_inv [OF assms, of i t]
  obtain d d' where d: "get_router_distributions p = Inr d" "get_router_distributions ?q = Inr d'"
    and maps: "\<And>j. map_of d j = map_of (tensors p) (router_prefix @ show_int j)"
      "\<And>j. map_of d' j = map_of (tensors ?q) (router_prefix @ show_int j)"
    using get_router_map [OF assms] get_router_map [OF inv(1,2)] by blast
  have "map_of d' = (map_of d)(i \<mapsto> t)" by (rule ext) (simp add: maps inv(3))
  moreover have "(router_prefix @ show_int i, t) \<in> set (tensors ?q)" by (rule map_of_SomeD) (simp add: inv(3))
  then have "has_router_distributions ?q" by (force simp: has_router_distributions_def list_ex_iff)
  ultimately show ?thesis using d by blast
qed

theorem router_distributions_get_after_add_witness:
  "\<exists>d d'. get_router_distributions (add_router_distributions 3 (vec [1]) sample_batch) = Inr d
     \<and> get_router_distributions (add_router_distributions 12 (vec [2])
           (add_router_distributions 3 (vec [1]) sample_batch)) = Inr d'
     \<and> map_of d' = (map_of d)(12 \<mapsto> vec [2])
     \<and> has_router_distributions (add_router_distributions 12 (vec [2])
           (add_router_distributions 3 (vec [1]) sample_batch))"
  by (rule router_distributions_get_after_add) (code_simp, code_simp)

end
