(* ===== verification/Row_Store.thy ===== *)
theory Row_Store
  imports Tensor
begin

text \<open>
  The interface between the batch protocol and the code that distributes batches. A client
  splits a batch, sends the chunks to workers in some arrangement and joins what they return;
  all it needs of the batch is that splitting keeps the rows in order and that joining
  batches of one schema concatenates their rows. \<open>join\<close> takes the iteration order of the set
  it goes through, and promises its law for every order Python may choose.
\<close>

locale row_store =
  fixes rows :: "'p \<Rightarrow> 'row list"
    and schema :: "'p \<Rightarrow> 's"
    and ok :: "'p \<Rightarrow> bool"
    and split_into :: "int \<Rightarrow> 'p \<Rightarrow> 'p list"
    and order_ok :: "'o \<Rightarrow> bool"
    and join :: "'o \<Rightarrow> 'p list \<Rightarrow> 'p result"
  assumes split_length: "0 < c \<Longrightarrow> length (split_into c p) = nat c"
    and split_rows: "ok p \<Longrightarrow> 0 < c \<Longrightarrow> concat (map rows (split_into c p)) = rows p"
    and split_chunks: "ok p \<Longrightarrow> q \<in> set (split_into c p) \<Longrightarrow> ok q \<and> (rows q = [] \<or> schema q = schema p)"
    and join_rows: "order_ok si \<Longrightarrow> (\<And>p. p \<in> set ps \<Longrightarrow> ok p \<and> (rows p = [] \<or> schema p = s)) \<Longrightarrow>
      \<exists>q. join si ps = Inr q \<and> ok q \<and> rows q = concat (map rows ps) \<and> (rows q = [] \<or> schema q = s)"
begin

lemma map_join:
  assumes "ok p" "0 < c" "order_ok si" 
    and worker: "\<And>q. ok q \<Longrightarrow> rows q = [] \<or> schema q = schema p \<Longrightarrow>
      ok (f q) \<and> rows (f q) = map g (rows q) \<and> (rows (f q) = [] \<or> schema (f q) = s)"
  shows "\<exists>q. join si (map f (split_into c p)) = Inr q \<and> ok q \<and> rows q = map g (rows p)"
proof -
  have chunk: "ok (f q) \<and> rows (f q) = map g (rows q) \<and> (rows (f q) = [] \<or> schema (f q) = s)"
    if "q \<in> set (split_into c p)" for q
    using split_chunks [OF assms(1) that] worker by blast
  then have "ok r \<and> (rows r = [] \<or> schema r = s)" if "r \<in> set (map f (split_into c p))" for r
  proof -
    from that obtain q where "q \<in> set (split_into c p)" "r = f q" by auto
    then show ?thesis using chunk by blast
  qed
  then obtain q where "join si (map f (split_into c p)) = Inr q" "ok q"
    "rows q = concat (map rows (map f (split_into c p)))"
    using join_rows [OF assms(3), of "map f (split_into c p)" s] by blast
  moreover have "concat (map rows (map f (split_into c p))) = map g (rows p)"
  proof -
    have eq: "map rows (map f (split_into c p)) = map (map g) (map rows (split_into c p))"
      using chunk by (simp cong: map_cong)
    show ?thesis by (simp only: eq map_concat [symmetric] split_rows [OF assms(1,2)])
  qed
  ultimately show ?thesis by (intro exI [of _ q]) simp
qed

lemma split_join:
  assumes "ok p" "0 < c" "order_ok si"
  shows "\<exists>q. join si (split_into c p) = Inr q \<and> ok q \<and> rows q = rows p"
  using map_join [OF assms, where s = "schema p" and f = "\<lambda>q. q" and g = "\<lambda>r. r"] by simp

lemma masked_route:
  assumes "ok p" "0 < c" "order_ok si" 
    and worker: "\<And>q. ok q \<Longrightarrow> rows q = [] \<or> schema q = schema p \<Longrightarrow>
      ok (f q) \<and> rows (f q) = map g (rows q) \<and> (rows (f q) = [] \<or> schema (f q) = s)"
    and "length keep = length ranks" and ranks: "mask_list keep ranks = [0..<nat c]"
  shows "\<exists>q. join si (mask_list keep (map (\<lambda>r. f (split_into c p ! r)) ranks)) = Inr q
    \<and> ok q \<and> rows q = map g (rows p)"
proof -
  have "mask_list keep (map (\<lambda>r. f (split_into c p ! r)) ranks)
      = map (\<lambda>r. f (split_into c p ! r)) [0..<nat c]"
    by (metis ranks map_mask_list)
  also have "\<dots> = map f (map ((!) (split_into c p)) [0..<length (split_into c p)])"
    using split_length [OF assms(2), of p] by simp
  finally have "mask_list keep (map (\<lambda>r. f (split_into c p ! r)) ranks) = map f (split_into c p)"
    by (simp only: map_nth)
  then show ?thesis using map_join [OF assms(1-3) worker] by simp
qed

end

end
