(* ===== verification/Data_Proto_Rows.thy ===== *)
theory Data_Proto_Rows
  imports Data_Proto_Props Row_Store
begin

text \<open>
  The batch protocol provides the row store interface: a row is the partial map from tensor
  keys and ragged keys to the cell of that row, \<open>split\<close> keeps the rows in order and \<open>merge\<close>
  of batches with the same keys and trailing shapes concatenates them.
\<close>

type_synonym ('e, 'r) batch_row = "(string + string) \<Rightarrow> ('e list + 'r) option"

definition row_map :: "(string, 'e list) dict \<times> (string, 'r) dict \<Rightarrow> ('e, 'r) batch_row" where
  "row_map r k = (case k of
     Inl s \<Rightarrow> map_option Inl (map_of (fst r) s)
   | Inr s \<Rightarrow> map_option Inr (map_of (snd r) s))"

definition row_maps :: "('e, 'r, 'm) data_proto \<Rightarrow> ('e, 'r) batch_row list" where
  "row_maps p = map row_map (proto_rows p)"

definition proto_schema :: "('e, 'r, 'm) data_proto \<Rightarrow> (string \<Rightarrow> nat list option) \<times> string set" where
  "proto_schema p = ((\<lambda>k. map_option t_trail (map_of (tensors p) k)), set (dict_keys (ragged p)))"

lemma length_row_maps [simp]: "length (row_maps p) = batch_size p"
  by (simp add: row_maps_def proto_rows_def)

lemma row_maps_Nil [simp]: "row_maps p = [] \<longleftrightarrow> batch_size p = 0"
  by (metis length_0_conv length_row_maps)

section \<open>Columns\<close>

definition column :: "('e, 'r, 'm) data_proto \<Rightarrow> (string + string) \<Rightarrow> ('e list + 'r) list option" where
  "column p k = (case k of
     Inl s \<Rightarrow> map_option (\<lambda>t. map Inl (t_rows t)) (map_of (tensors p) s)
   | Inr s \<Rightarrow> map_option (map Inr) (map_of (ragged p) s))"

definition col_rows :: "nat \<Rightarrow> ('k \<Rightarrow> 'x list option) \<Rightarrow> ('k \<Rightarrow> 'x option) list" where
  "col_rows n C = map (\<lambda>i k. map_option (\<lambda>v. v ! i) (C k)) [0..<n]"

definition columns_ok :: "nat \<Rightarrow> 'k set \<Rightarrow> ('k \<Rightarrow> 'x list option) \<Rightarrow> bool" where
  "columns_ok n K C = (dom C = K \<and> (\<forall>k v. C k = Some v \<longrightarrow> length v = n))"

lemma columns_okD: "columns_ok n K C \<Longrightarrow> C k = Some v \<Longrightarrow> length v = n"
  by (simp add: columns_ok_def)

lemma col_rows_append:
  assumes "columns_ok n K C" "columns_ok m K D"
  shows "col_rows (n + m) (\<lambda>k. if k \<in> K then Some (the (C k) @ the (D k)) else None)
       = col_rows n C @ col_rows m D"
proof (rule nth_equalityI)
  fix i assume i: "i < length (col_rows (n + m) (\<lambda>k. if k \<in> K then Some (the (C k) @ the (D k)) else None))"
  have C: "\<And>k. k \<in> K \<Longrightarrow> length (the (C k)) = n \<and> map_option (\<lambda>v. v ! j) (C k) = Some (the (C k) ! j)"
    "\<And>k. k \<notin> K \<Longrightarrow> C k = None" for j
    using assms(1) by (auto simp: columns_ok_def)
  have D: "\<And>k. k \<in> K \<Longrightarrow> map_option (\<lambda>v. v ! j) (D k) = Some (the (D k) ! j)"
    "\<And>k. k \<notin> K \<Longrightarrow> D k = None" for j
    using assms(2) by (auto simp: columns_ok_def)
  show "col_rows (n + m) (\<lambda>k. if k \<in> K then Some (the (C k) @ the (D k)) else None) ! i
      = (col_rows n C @ col_rows m D) ! i"
    using i by (auto simp: col_rows_def nth_append fun_eq_iff C D)
qed (simp add: col_rows_def)

lemma col_rows_concat:
  assumes "\<And>p. p \<in> set ps \<Longrightarrow> columns_ok (n p) K (C p)"
  shows "col_rows (sum_list (map n ps)) (\<lambda>k. if k \<in> K then Some (concat (map (\<lambda>p. the (C p k)) ps)) else None)
       = concat (map (\<lambda>p. col_rows (n p) (C p)) ps)"
  using assms
proof (induction ps)
  case Nil
  show ?case by (simp add: col_rows_def)
next
  case (Cons p ps)
  let ?D = "\<lambda>k. if k \<in> K then Some (concat (map (\<lambda>p. the (C p k)) ps)) else None"
  have len: "length (concat (map (\<lambda>p. the (C p k)) ps)) = sum_list (map n ps)" if "k \<in> K" for k
  proof -
    have "length (the (C q k)) = n q" if "q \<in> set ps" for q
      using Cons.prems [of q] that \<open>k \<in> K\<close> by (auto simp: columns_ok_def dom_def)
    then show ?thesis by (simp add: length_concat comp_def cong: map_cong)
  qed
  have "columns_ok (sum_list (map n ps)) K ?D"
    using len by (auto simp: columns_ok_def dom_def)
  then have "col_rows (n p + sum_list (map n ps)) (\<lambda>k. if k \<in> K then Some (the (C p k) @ the (?D k)) else None)
      = col_rows (n p) (C p) @ col_rows (sum_list (map n ps)) ?D"
    using Cons.prems [of p] by (intro col_rows_append) simp_all
  moreover have "(\<lambda>k. if k \<in> K then Some (the (C p k) @ the (?D k)) else None)
      = (\<lambda>k. if k \<in> K then Some (concat (map (\<lambda>p. the (C p k)) (p # ps))) else None)"
    by (auto simp: fun_eq_iff)
  ultimately show ?case using Cons by simp
qed

lemma row_maps_columns: "proto_ok p \<Longrightarrow> row_maps p = col_rows (batch_size p) (column p)"
proof -
  assume ok: "proto_ok p"
  have "row_map (row_at p i) k = map_option (\<lambda>v. v ! i) (column p k)" if "i < batch_size p" for i k
  proof (cases k)
    case (Inl s)
    then show ?thesis
      using that proto_okD(4) [OF ok]
      by (cases "map_of (tensors p) s")
        (auto simp: row_map_def row_at_def column_def t_len_def dest!: map_of_SomeD)
  next
    case (Inr s)
    then show ?thesis
      using that proto_okD(5) [OF ok]
      by (cases "map_of (ragged p) s") (auto simp: row_map_def row_at_def column_def dest!: map_of_SomeD)
  qed
  then show ?thesis by (simp add: row_maps_def proto_rows_def col_rows_def fun_eq_iff)
qed

lemma column_ok:
  assumes ok: "proto_ok p"
  shows "columns_ok (batch_size p) (dom (column p)) (column p)"
  using proto_okD(4,5) [OF ok]
  by (auto simp: columns_ok_def column_def t_len_def split: sum.splits dest!: map_of_SomeD)

lemma dom_column: "proto_schema p = proto_schema q \<Longrightarrow> dom (column p) = dom (column q)"
proof (rule set_eqI)
  fix k assume eq: "proto_schema p = proto_schema q"
  show "k \<in> dom (column p) \<longleftrightarrow> k \<in> dom (column q)"
  proof (cases k)
    case (Inl s)
    have "map_option t_trail (map_of (tensors p) s) = map_option t_trail (map_of (tensors q) s)"
      using eq by (simp add: proto_schema_def fun_eq_iff)
    with Inl show ?thesis
      by (cases "map_of (tensors p) s"; cases "map_of (tensors q) s") (auto simp: column_def dom_def)
  next
    case (Inr s)
    have "s \<in> fst ` set (ragged p) \<longleftrightarrow> s \<in> fst ` set (ragged q)"
      using eq by (simp add: proto_schema_def)
    with Inr show ?thesis by (simp add: column_def dom_def flip: not_None_eq) (simp add: map_of_eq_None_iff)
  qed
qed

section \<open>Merging batches of one schema\<close>

lemma schema_trail:
  assumes "proto_schema p = proto_schema q" "map_of (tensors p) k = Some t"
  obtains u where "map_of (tensors q) k = Some u" "t_trail u = t_trail t"
proof -
  have "map_option t_trail (map_of (tensors p) k) = map_option t_trail (map_of (tensors q) k)"
    using assms(1) by (simp add: proto_schema_def fun_eq_iff)
  with assms(2) show ?thesis using that by (cases "map_of (tensors q) k") auto
qed

lemma schema_keys: "proto_schema p = proto_schema q \<Longrightarrow> set (dict_keys (tensors p)) = set (dict_keys (tensors q))"
proof (rule set_eqI)
  fix k assume "proto_schema p = proto_schema q"
  then have "map_option t_trail (map_of (tensors p) k) = map_option t_trail (map_of (tensors q) k)"
    by (simp add: proto_schema_def fun_eq_iff)
  then have "map_of (tensors p) k = None \<longleftrightarrow> map_of (tensors q) k = None"
    by (cases "map_of (tensors p) k"; cases "map_of (tensors q) k") auto
  then show "k \<in> set (dict_keys (tensors p)) \<longleftrightarrow> k \<in> set (dict_keys (tensors q))"
    by (simp add: map_of_eq_None_iff)
qed

lemma schema_ragged: "proto_schema p = proto_schema q \<Longrightarrow> set (dict_keys (ragged p)) = set (dict_keys (ragged q))"
  by (simp add: proto_schema_def)

definition joined_tensor :: "('e, 'r, 'm) data_proto list \<Rightarrow> string \<Rightarrow> 'e tensor" where
  "joined_tensor ps k =
     \<lparr>t_trail = t_trail (the (map_of (tensors (hd ps)) k)),
      t_rows = concat (map (\<lambda>p. t_rows (the (map_of (tensors p) k))) ps)\<rparr>"

definition joined_ragged :: "('e, 'r, 'm) data_proto list \<Rightarrow> string \<Rightarrow> 'r list" where
  "joined_ragged ps k = concat (map (\<lambda>p. the (map_of (ragged p) k)) ps)"

lemma merge_key:
  assumes "ps = q # qs" "\<And>p. p \<in> set ps \<Longrightarrow> proto_schema p = proto_schema q"
    and "k \<in> set (dict_keys (tensors q))"
  shows "bind_result (map_result (\<lambda>p. dict_get (tensors p) k) ps)
      (\<lambda>ts. bind_result (merge_parts ts) (\<lambda>t. Inr (k, t))) = Inr (k, joined_tensor ps k)"
proof -
  let ?col = "map (\<lambda>p. the (map_of (tensors p) k)) ps"
  obtain t where t: "map_of (tensors q) k = Some t"
    using assms(3) by (metis map_of_eq_None_iff not_None_eq set_map)
  have get: "map_of (tensors p) k = Some (the (map_of (tensors p) k))
      \<and> t_trail (the (map_of (tensors p) k)) = t_trail t" if "p \<in> set ps" for p
    using schema_trail [OF assms(2) [OF that, symmetric] t] by (metis option.sel)
  then have "map_result (\<lambda>p. dict_get (tensors p) k) ps = Inr ?col"
    by (intro map_result_total) simp
  moreover have tr: "t_trail u = t_trail t" if u: "u \<in> set ?col" for u
  proof -
    from u obtain p where "p \<in> set ps" "u = the (map_of (tensors p) k)" by auto
    then show ?thesis using get by blast
  qed
  have "merge_parts ?col = t_cat ?col"
    by (rule merge_parts_same_trail [OF _ tr]) (simp add: assms(1))
  moreover have "t_cat ?col = Inr \<lparr>t_trail = t_trail t, t_rows = concat (map t_rows ?col)\<rparr>"
    by (rule t_cat_same_trail [OF _ tr]) (simp add: assms(1))
  ultimately show ?thesis by (simp add: joined_tensor_def assms(1) t comp_def)
qed

lemma ragged_concat_same:
  assumes "ps = q # qs" "\<And>p. p \<in> set ps \<Longrightarrow> proto_ok p \<and> proto_schema p = proto_schema q"
  shows "ragged_concat ps = map (\<lambda>k. (k, joined_ragged ps k)) (dict_keys (ragged q))"
proof (cases "ragged q = []")
  case True
  have "ragged p = []" if "p \<in> set ps" for p
    using schema_ragged [of p q] assms(2) [OF that] True by simp
  then have "filter (\<lambda>p. ragged p \<noteq> []) ps = []" by (simp add: filter_empty_conv)
  with True show ?thesis by (simp add: ragged_concat_def)
next
  case False
  then have hd: "filter (\<lambda>p. ragged p \<noteq> []) ps = q # filter (\<lambda>p. ragged p \<noteq> []) qs"
    by (simp add: assms(1))
  have "(case map_of (ragged p) k of None \<Rightarrow> [] | Some v \<Rightarrow> v) = the (map_of (ragged p) k)"
    if "p \<in> set ps" "k \<in> set (dict_keys (ragged q))" for p k
  proof -
    have "k \<in> fst ` set (ragged p)" using schema_ragged [of p q] assms(2) [OF that(1)] that(2) by simp
    then obtain v where "map_of (ragged p) k = Some v" by (metis map_of_eq_None_iff not_None_eq)
    then show ?thesis by simp
  qed
  then have "concat (map (\<lambda>p. case map_of (ragged p) k of None \<Rightarrow> [] | Some v \<Rightarrow> v) ps) = joined_ragged ps k"
    if "k \<in> set (dict_keys (ragged q))" for k
    unfolding joined_ragged_def using that by (intro arg_cong [where f = concat] map_cong refl)
  then have "map (\<lambda>(k, _). (k, concat (map (\<lambda>p. case map_of (ragged p) k of None \<Rightarrow> [] | Some v \<Rightarrow> v) ps))) (ragged q)
      = map (\<lambda>kv. (fst kv, joined_ragged ps (fst kv))) (ragged q)"
    by (intro map_cong refl) (auto simp: case_prod_beta)
  then show ?thesis unfolding ragged_concat_def hd by (simp add: comp_def)
qed

lemma merge_same_schema:
  assumes "ps = q # qs" "set_order si"
    and all: "\<And>p. p \<in> set ps \<Longrightarrow> proto_ok p \<and> 0 < batch_size p \<and> proto_schema p = proto_schema q"
  shows "merge si ps = Inr
    \<lparr>tensors = map (\<lambda>k. (k, joined_tensor ps k)) (si (dict_keys (tensors q))), meta = meta q,
     ragged = map (\<lambda>k. (k, joined_ragged ps k)) (dict_keys (ragged q))\<rparr>"
proof -
  have flt: "filter (\<lambda>p. 0 < batch_size p) ps = ps" using all by (simp add: filter_id_conv)
  have keys: "\<not> list_ex (\<lambda>p. set (dict_keys (tensors p)) \<noteq> set (dict_keys (tensors q))) qs"
    using all schema_keys assms(1) by (simp add: list_ex_iff) blast
  have "distinct (dict_keys (tensors q))" using all [of q] assms(1) proto_okD(1) by auto
  then have si: "set (si (dict_keys (tensors q))) = set (dict_keys (tensors q))"
    using assms(2) by (simp add: set_order_def)
  have "map_result (\<lambda>k. bind_result (map_result (\<lambda>p. dict_get (tensors p) k) ps)
      (\<lambda>ts. bind_result (merge_parts ts) (\<lambda>t. Inr (k, t)))) (si (dict_keys (tensors q)))
    = Inr (map (\<lambda>k. (k, joined_tensor ps k)) (si (dict_keys (tensors q))))"
    by (rule map_result_total, rule merge_key [OF assms(1)]) (use all si in auto)
  moreover have "ragged_concat ps = map (\<lambda>k. (k, joined_ragged ps k)) (dict_keys (ragged q))"
    by (rule ragged_concat_same [OF assms(1)]) (use all in auto)
  ultimately show ?thesis
    using flt keys unfolding merge_def assms(1) by simp
qed

lemma map_of_keyed: "map_of (map (\<lambda>k. (k, f k)) ks) k = (if k \<in> set ks then Some (f k) else None)"
  by (simp add: map_of_map_restrict restrict_map_def)

lemma concat_the_map:
  assumes "\<And>p. p \<in> set ps \<Longrightarrow> g p \<noteq> None"
  shows "concat (map (\<lambda>p. the (map_option (map h) (g p))) ps) = map h (concat (map (\<lambda>p. the (g p)) ps))"
proof -
  have "map (\<lambda>p. the (map_option (map h) (g p))) ps = map (map h) (map (\<lambda>p. the (g p)) ps)"
    using assms by (simp add: option.map_sel)
  then show ?thesis by (simp only: map_concat)
qed

definition one_schema :: "('e, 'r, 'm) data_proto list \<Rightarrow> bool" where
  "one_schema ps = (ps \<noteq> [] \<and>
     (\<forall>p \<in> set ps. proto_ok p \<and> 0 < batch_size p \<and> proto_schema p = proto_schema (hd ps)))"

definition joined :: "('e, 'r, 'm) data_proto list \<Rightarrow> string list \<Rightarrow> ('e, 'r, 'm) data_proto" where
  "joined ps ks = \<lparr>tensors = map (\<lambda>k. (k, joined_tensor ps k)) ks, meta = meta (hd ps),
     ragged = map (\<lambda>k. (k, joined_ragged ps k)) (dict_keys (ragged (hd ps)))\<rparr>"

lemma one_schemaD:
  assumes "one_schema ps"
  shows "hd ps \<in> set ps"
    and "p \<in> set ps \<Longrightarrow> proto_ok p" and "p \<in> set ps \<Longrightarrow> 0 < batch_size p"
    and "p \<in> set ps \<Longrightarrow> proto_schema p = proto_schema (hd ps)"
    and "p \<in> set ps \<Longrightarrow> columns_ok (batch_size p) (dom (column (hd ps))) (column p)"
    and "p \<in> set ps \<Longrightarrow> map_of (tensors p) k \<noteq> None \<longleftrightarrow> k \<in> set (dict_keys (tensors (hd ps)))"
    and "p \<in> set ps \<Longrightarrow> map_of (ragged p) k \<noteq> None \<longleftrightarrow> k \<in> set (dict_keys (ragged (hd ps)))"
proof -
  show "hd ps \<in> set ps" using assms by (simp add: one_schema_def)
  assume p: "p \<in> set ps"
  show ok: "proto_ok p" and "0 < batch_size p" and sc: "proto_schema p = proto_schema (hd ps)"
    using assms p unfolding one_schema_def by blast+
  show "columns_ok (batch_size p) (dom (column (hd ps))) (column p)"
    using column_ok [OF ok] dom_column [OF sc] by simp
  show "map_of (tensors p) k \<noteq> None \<longleftrightarrow> k \<in> set (dict_keys (tensors (hd ps)))"
    using schema_keys [OF sc] by (simp add: map_of_eq_None_iff)
  show "map_of (ragged p) k \<noteq> None \<longleftrightarrow> k \<in> set (dict_keys (ragged (hd ps)))"
    using schema_ragged [OF sc] by (simp add: map_of_eq_None_iff)
qed

lemma joined_column_tensor:
  assumes "one_schema ps" "set ks = set (dict_keys (tensors (hd ps)))"
  shows "column (joined ps ks) (Inl s) =
    (if Inl s \<in> dom (column (hd ps)) then Some (concat (map (\<lambda>p. the (column p (Inl s))) ps)) else None)"
proof -
  note ten = one_schemaD(6) [OF assms(1)]
  have mem: "Inl s \<in> dom (column (hd ps)) \<longleftrightarrow> s \<in> set ks"
    using ten [OF one_schemaD(1) [OF assms(1)], of s] assms(2) by (auto simp: column_def dom_def)
  show ?thesis
  proof (cases "s \<in> set ks")
    case True
    have "concat (map (\<lambda>p. the (column p (Inl s))) ps)
        = concat (map (\<lambda>p. the (map_option (map Inl) (map_option t_rows (map_of (tensors p) s)))) ps)"
      by (simp add: column_def option.map_comp comp_def)
    also have "\<dots> = map Inl (concat (map (\<lambda>p. the (map_option t_rows (map_of (tensors p) s))) ps))"
      by (rule concat_the_map) (use ten True assms(2) in auto)
    also have "map (\<lambda>p. the (map_option t_rows (map_of (tensors p) s))) ps
        = map (\<lambda>p. t_rows (the (map_of (tensors p) s))) ps"
      by (rule map_cong [OF refl]) (use ten True assms(2) in \<open>simp add: option.map_sel\<close>)
    finally show ?thesis
      using True mem by (simp add: column_def joined_def map_of_keyed joined_tensor_def)
  next
    case False
    then show ?thesis using mem by (simp add: column_def joined_def map_of_keyed)
  qed
qed

lemma joined_column_ragged:
  assumes "one_schema ps"
  shows "column (joined ps ks) (Inr s) =
    (if Inr s \<in> dom (column (hd ps)) then Some (concat (map (\<lambda>p. the (column p (Inr s))) ps)) else None)"
proof -
  note rag = one_schemaD(7) [OF assms(1)]
  have mem: "Inr s \<in> dom (column (hd ps)) \<longleftrightarrow> s \<in> set (dict_keys (ragged (hd ps)))"
    using rag [OF one_schemaD(1) [OF assms], of s] by (auto simp: column_def dom_def)
  show ?thesis
  proof (cases "s \<in> set (dict_keys (ragged (hd ps)))")
    case True
    have "concat (map (\<lambda>p. the (column p (Inr s))) ps)
        = map Inr (concat (map (\<lambda>p. the (map_of (ragged p) s)) ps))"
      unfolding column_def sum.case by (rule concat_the_map) (use rag True in blast)
    then show ?thesis
      using True mem by (simp add: column_def joined_def map_of_keyed joined_ragged_def del: map_map)
  next
    case False
    then show ?thesis using mem by (simp add: column_def joined_def map_of_keyed del: map_map)
  qed
qed

lemma joined_column:
  assumes "one_schema ps" "set ks = set (dict_keys (tensors (hd ps)))"
  shows "column (joined ps ks) = (\<lambda>k. if k \<in> dom (column (hd ps))
    then Some (concat (map (\<lambda>p. the (column p k)) ps)) else None)"
proof
  show "column (joined ps ks) k = (if k \<in> dom (column (hd ps))
    then Some (concat (map (\<lambda>p. the (column p k)) ps)) else None)" for k
    using joined_column_tensor [OF assms] joined_column_ragged [OF assms(1)] by (cases k) simp_all
qed

lemma joined_column_length:
  assumes "one_schema ps" "set ks = set (dict_keys (tensors (hd ps)))" "column (joined ps ks) k = Some v"
  shows "length v = sum_list (map batch_size ps)"
proof -
  have k: "k \<in> dom (column (hd ps))" and v: "v = concat (map (\<lambda>p. the (column p k)) ps)"
    using assms(3) by (auto simp: joined_column [OF assms(1,2)] split: if_splits)
  have "length (the (column p k)) = batch_size p" if p: "p \<in> set ps" for p
  proof -
    have cols: "columns_ok (batch_size p) (dom (column (hd ps))) (column p)"
      by (rule one_schemaD(5) [OF assms(1) p])
    then have "k \<in> dom (column p)" using k by (simp add: columns_ok_def)
    then obtain w where "column p k = Some w" by blast
    then show ?thesis using columns_okD [OF cols] by simp
  qed
  then show ?thesis by (simp add: v length_concat comp_def cong: map_cong)
qed

lemma joined_tensor_wf:
  assumes "one_schema ps" "k \<in> set (dict_keys (tensors (hd ps)))"
  shows "wf_tensor (joined_tensor ps k)"
proof -
  obtain t where t: "map_of (tensors (hd ps)) k = Some t"
    using one_schemaD(6) [OF assms(1) one_schemaD(1) [OF assms(1)]] assms(2) by blast
  have "length row = prod_list (t_trail t)"
    if p: "p \<in> set ps" and row: "row \<in> set (t_rows (the (map_of (tensors p) k)))" for p row
  proof -
    obtain u where u: "map_of (tensors p) k = Some u" "t_trail u = t_trail t"
      using schema_trail [OF one_schemaD(4) [OF assms(1) p, symmetric] t] .
    then have "wf_tensor u" using one_schemaD(2) [OF assms(1) p] by (meson map_of_SomeD proto_okD(3))
    then show ?thesis using row u by (auto simp: wf_tensor_def list_all_iff)
  qed
  then show ?thesis by (auto simp: joined_tensor_def wf_tensor_def list_all_iff t)
qed

lemma joined_ok:
  assumes "one_schema ps" "distinct ks" "set ks = set (dict_keys (tensors (hd ps)))"
  shows "proto_ok (joined ps ks)" and "batch_size (joined ps ks) = sum_list (map batch_size ps)"
proof -
  let ?r = "joined ps ks" and ?n = "sum_list (map batch_size ps)"
  have dk: "distinct (dict_keys (tensors ?r))" "distinct (dict_keys (ragged ?r))"
    using assms(2) proto_okD(2) [OF one_schemaD(2) [OF assms(1) one_schemaD(1) [OF assms(1)]]]
    by (simp_all add: joined_def comp_def)
  have tlen: "t_len t = ?n" if "(k, t) \<in> set (tensors ?r)" for k t
    using joined_column_length [OF assms(1,3), of "Inl k" "map Inl (t_rows t)"] map_of_is_SomeI [OF dk(1) that]
    by (simp add: column_def t_len_def)
  have rlen: "length v = ?n" if "(k, v) \<in> set (ragged ?r)" for k v
    using joined_column_length [OF assms(1,3), of "Inr k" "map Inr v"] map_of_is_SomeI [OF dk(2) that]
    by (simp add: column_def)
  have "wf_tensor t" if "(k, t) \<in> set (tensors ?r)" for k t
    using that joined_tensor_wf [OF assms(1)] assms(3) by (auto simp: joined_def)
  then have "proto_ok \<lparr>tensors = tensors ?r, meta = meta ?r, ragged = ragged ?r\<rparr>"
    using dk tlen rlen by (intro proto_ok_built [where n = ?n]) (auto simp: list_all_iff)
  then show "proto_ok ?r" by (simp add: joined_def)
  have "0 < batch_size (hd ps)" using one_schemaD(1,3) [OF assms(1)] by simp
  then have "set (dict_keys (tensors (hd ps))) \<noteq> {} \<or> ragged (hd ps) \<noteq> []"
    by (auto dest: batch_size_pos)
  then have "tensors ?r \<noteq> [] \<or> ragged ?r \<noteq> []" using assms(3) by (auto simp: joined_def)
  then show "batch_size ?r = ?n"
    using tlen rlen by (cases "tensors ?r"; cases "ragged ?r") (auto simp: batch_size_def)
qed

lemma joined_schema:
  assumes "one_schema ps" "set ks = set (dict_keys (tensors (hd ps)))"
  shows "proto_schema (joined ps ks) = proto_schema (hd ps)"
proof -
  have "map_option t_trail (map_of (tensors (joined ps ks)) k)
      = map_option t_trail (map_of (tensors (hd ps)) k)" for k
    using one_schemaD(6) [OF assms(1) one_schemaD(1) [OF assms(1)], of k] assms(2)
    by (auto simp: joined_def map_of_keyed joined_tensor_def)
  then show ?thesis by (simp add: proto_schema_def joined_def image_image)
qed

lemma joined_rows:
  assumes "one_schema ps" "distinct ks" "set ks = set (dict_keys (tensors (hd ps)))"
  shows "row_maps (joined ps ks) = concat (map row_maps ps)"
proof -
  have "row_maps (joined ps ks) = col_rows (sum_list (map batch_size ps)) (\<lambda>k. if k \<in> dom (column (hd ps))
      then Some (concat (map (\<lambda>p. the (column p k)) ps)) else None)"
    using row_maps_columns joined_ok [OF assms] joined_column [OF assms(1,3)] by metis
  also have "\<dots> = concat (map (\<lambda>p. col_rows (batch_size p) (column p)) ps)"
    by (rule col_rows_concat) (rule one_schemaD(5) [OF assms(1)])
  also have "\<dots> = concat (map row_maps ps)"
    by (intro arg_cong [where f = concat] map_cong refl)
      (simp add: row_maps_columns one_schemaD(2) [OF assms(1)])
  finally show ?thesis .
qed

lemma merge_one_schema:
  assumes "one_schema ps" "set_order si"
  shows "merge si ps = Inr (joined ps (si (dict_keys (tensors (hd ps)))))"
proof -
  obtain q qs where ps: "ps = q # qs" using assms(1) by (cases ps) (auto simp: one_schema_def)
  then have "proto_ok p \<and> 0 < batch_size p \<and> proto_schema p = proto_schema q" if "p \<in> set ps" for p
    using one_schemaD(2-4) [OF assms(1) that] by simp
  from merge_same_schema [OF ps assms(2) this] show ?thesis by (simp add: joined_def ps)
qed

section \<open>The batch protocol is a row store\<close>

lemma merge_filter:
  assumes "filter (\<lambda>p. 0 < batch_size p) ps = q # qs"
  shows "merge si ps = merge si (q # qs)"
proof -
  have "filter (\<lambda>p. 0 < batch_size p) (q # qs) = q # qs"
    unfolding assms [symmetric] by simp
  with assms show ?thesis unfolding merge_def by (cases ps) auto
qed

lemma batch_size_meta_only [simp]: "batch_size (meta_only m) = 0"
  by (simp add: meta_only_def batch_size_def)

lemma row_maps_meta_only [simp]: "row_maps (meta_only m) = []"
  by simp

lemma merge_rows:
  assumes "set_order si" and all: "\<And>p. p \<in> set ps \<Longrightarrow> proto_ok p \<and> (row_maps p = [] \<or> proto_schema p = s)"
  shows "\<exists>q. merge si ps = Inr q \<and> proto_ok q \<and> row_maps q = concat (map row_maps ps)
    \<and> (row_maps q = [] \<or> proto_schema q = s)"
proof (cases "filter (\<lambda>p. 0 < batch_size p) ps")
  case Nil
  then have "concat (map row_maps ps) = []" by (auto simp: filter_empty_conv)
  moreover have "merge si ps = Inr (meta_only (if ps = [] then [] else meta (hd ps)))"
    using Nil by (simp add: merge_def)
  ultimately show ?thesis by simp
next
  case (Cons q qs)
  let ?ns = "q # qs"
  have sub: "p \<in> set ps \<and> 0 < batch_size p" if "p \<in> set ?ns" for p
    using that unfolding Cons [symmetric] by simp
  have "proto_ok p \<and> proto_schema p = s" if "p \<in> set ?ns" for p
    using sub [OF that] all [of p] by (metis less_irrefl row_maps_Nil)
  then have os: "one_schema ?ns" using sub by (simp add: one_schema_def)
  let ?ks = "si (dict_keys (tensors q))"
  have ks: "distinct ?ks" "set ?ks = set (dict_keys (tensors (hd ?ns)))"
    using assms(1) proto_okD(1) [OF one_schemaD(2) [OF os, of q]] by (simp_all add: set_order_def)
  have "concat (map row_maps ?ns) = concat (map row_maps ps)"
    unfolding Cons [symmetric] by (induction ps) auto
  then have "row_maps (joined ?ns ?ks) = concat (map row_maps ps)"
    using joined_rows [OF os ks] by simp
  moreover have "proto_schema (joined ?ns ?ks) = s"
    using joined_schema [OF os ks(2)] all [of q] sub [of q] by simp
  ultimately show ?thesis
    using merge_filter [OF Cons] merge_one_schema [OF os assms(1)] joined_ok(1) [OF os ks] by simp
qed

lemma split_row_maps:
  assumes "proto_ok p" "0 < c"
  shows "concat (map row_maps (split c p)) = row_maps p"
proof (cases "batch_size p = 0")
  case True
  then have "concat (map row_maps (split c p)) = []"
    by (auto simp: split_def Let_def meta_only_def batch_size_def)
  with True show ?thesis by (metis row_maps_Nil)
next
  case False
  then have "concat (map proto_rows (split c p)) = proto_rows p"
    using split_balanced_rows assms by blast
  moreover have "map row_maps (split c p) = map (map row_map) (map proto_rows (split c p))"
    by (simp add: row_maps_def)
  ultimately show ?thesis by (simp only: map_concat [symmetric] row_maps_def)
qed

lemma split_schema:
  assumes "proto_ok p" "q \<in> set (split c p)"
  shows "proto_ok q \<and> (row_maps q = [] \<or> proto_schema q = proto_schema p)"
proof (cases "batch_size p = 0")
  case True
  then have "q = meta_only (meta p)" using assms(2) by (auto simp: split_def Let_def)
  then show ?thesis by simp
next
  case False
  then obtain "is" where "q = pick is p" using split_picks [OF assms(1), of c] assms(2) by auto
  then have "proto_schema q = proto_schema p"
    by (simp add: proto_schema_def option.map_comp comp_def)
  then show ?thesis using split_ok [OF assms] by simp
qed

interpretation batches: row_store row_maps proto_schema proto_ok split set_order merge
  by unfold_locales
    (simp add: split_def Let_def, (fact split_row_maps split_schema merge_rows)+)

definition row_wise ::
  "('e, 'r, 'm) data_proto \<Rightarrow> (string \<Rightarrow> nat list option) \<times> string set \<Rightarrow>
   (('e, 'r) batch_row \<Rightarrow> ('e, 'r) batch_row) \<Rightarrow> (('e, 'r, 'm) data_proto \<Rightarrow> ('e, 'r, 'm) data_proto) \<Rightarrow> bool" where
  \<comment> \<open>on chunks of \<open>p\<close>, the worker \<open>f\<close> acts row by row as \<open>g\<close> and returns batches of schema \<open>s\<close>\<close>
  "row_wise p s g f =
     (\<forall>q. proto_ok q \<and> (row_maps q = [] \<or> proto_schema q = proto_schema p) \<longrightarrow>
        proto_ok (f q) \<and> row_maps (f q) = map g (row_maps q) \<and> (row_maps (f q) = [] \<or> proto_schema (f q) = s))"

lemma row_wise_id: "row_wise p (proto_schema p) (\<lambda>r. r) (\<lambda>q. q)"
  by (simp add: row_wise_def)

lemma split_map_merge:
  assumes "proto_ok p" "0 < c" "set_order si" "row_wise p s g f"
  shows "\<exists>q. merge si (map f (split c p)) = Inr q \<and> proto_ok q \<and> row_maps q = map g (row_maps p)"
  by (rule batches.map_join [OF assms(1-3), where s = s]) (use assms(4) in \<open>unfold row_wise_def, blast\<close>)

lemma ranks_map_merge:
  assumes "proto_ok p" "0 < c" "set_order si" "row_wise p s g f"
    and "length keep = length ranks" "mask_list keep ranks = [0..<nat c]"
  shows "\<exists>q. merge si (mask_list keep (map (\<lambda>r. f (split c p ! r)) ranks)) = Inr q
    \<and> proto_ok q \<and> row_maps q = map g (row_maps p)"
  by (rule batches.masked_route [OF assms(1-3), where s = s])
    (use assms(4-6) in \<open>unfold row_wise_def, blast+\<close>)

end
