(* ===== verification/Dispatch.thy ===== *)
theory Dispatch
  imports Data_Proto_Rows
begin

text \<open>
  \<open>lumenrl/controller/dispatch.py\<close>: how a batch is cut into per-worker inputs and how the
  worker results are put together again, per dispatch mode. The caller's cache of mesh
  mappings (\<open>lazy_state\<close>) is threaded through explicitly: a dispatch returns its chunks or
  error together with the new cache. Results that a collector may deduplicate carry an
  object identity.
\<close>

section \<open>Modes\<close>

datatype dispatch_mode =
    RANK_ZERO | DP_COMPUTE_PROTO | DP_COMPUTE | DP_COMPUTE_PROTO_WITH_FUNC | DP_COMPUTE_METRIC
  | ONE_TO_ALL | ALL_TO_ALL | DIRECT_ROLLOUT_METHOD

fun mode_value :: "dispatch_mode \<Rightarrow> string" where
  "mode_value RANK_ZERO = ''rank_zero''"
| "mode_value DP_COMPUTE_PROTO = ''dp_compute_proto''"
| "mode_value DP_COMPUTE = ''dp_compute''"
| "mode_value DP_COMPUTE_PROTO_WITH_FUNC = ''dp_compute_proto_with_func''"
| "mode_value DP_COMPUTE_METRIC = ''dp_compute_metric''"
| "mode_value ONE_TO_ALL = ''one_to_all''"
| "mode_value ALL_TO_ALL = ''all_to_all''"
| "mode_value DIRECT_ROLLOUT_METHOD = ''direct_rollout_method''"

definition all_modes :: "dispatch_mode list" where
  "all_modes = [RANK_ZERO, DP_COMPUTE_PROTO, DP_COMPUTE, DP_COMPUTE_PROTO_WITH_FUNC,
     DP_COMPUTE_METRIC, ONE_TO_ALL, ALL_TO_ALL, DIRECT_ROLLOUT_METHOD]"

definition mode_of_name :: "string \<Rightarrow> dispatch_mode result" where
  \<comment> \<open>\<open>DispatchMode(s)\<close>: the member with that value, ValueError when there is none\<close>
  "mode_of_name s = (case find (\<lambda>m. mode_value m = s) all_modes of
     None \<Rightarrow> Inl ValueError | Some m \<Rightarrow> Inr m)"

datatype mode_arg = NoMode | Mode dispatch_mode | ModeName string

fun normalize_mode :: "mode_arg \<Rightarrow> dispatch_mode result" where
  "normalize_mode NoMode = Inr DP_COMPUTE_PROTO"
| "normalize_mode (Mode m) = Inr m"
| "normalize_mode (ModeName s) = (if s = ''broadcast'' then Inr ONE_TO_ALL else mode_of_name s)"

section \<open>Dispatch functions\<close>

datatype lazy_value = LazyList "int list" | LazyOther

type_synonym lazy_state = "(string, lazy_value) dict"

definition round_robin_chunks ::
  "('e, 'r, 'm) data_proto list \<Rightarrow> int \<Rightarrow> ('e, 'r, 'm) data_proto list" where
  "round_robin_chunks chunks num_workers =
     (if int (length chunks) = num_workers then chunks
      else if chunks = [] then replicate (nat num_workers) (meta_only [])
      else map (\<lambda>i. chunks ! (i mod length chunks)) [0..<nat num_workers])"

definition build_nd_dispatch ::
  "('e, 'r, 'm) data_proto \<Rightarrow> int \<Rightarrow> int list option \<Rightarrow> ('e, 'r, 'm) data_proto list result" where
  "build_nd_dispatch data num_workers mesh_mapping =
     (case mesh_mapping of
        None \<Rightarrow> Inr (split num_workers data)
      | Some ms \<Rightarrow>
          if int (length ms) \<noteq> num_workers then Inl ValueError
          else (case ms of
             [] \<Rightarrow> Inr []
           | m # ms' \<Rightarrow>
               let grouped = split (foldl max m ms' + 1) data
               in map_result (py_index grouped) ms))"

type_synonym ('e, 'r, 'm) dispatch_fn =
  "('e, 'r, 'm) data_proto \<Rightarrow> int \<Rightarrow> int list option \<Rightarrow> lazy_state option \<Rightarrow> string option \<Rightarrow>
   ('e, 'r, 'm) data_proto list result \<times> lazy_state option"

definition dispatch_rank_zero :: "('e, 'r, 'm) dispatch_fn" where
  "dispatch_rank_zero data num_workers mesh_mapping lazy key =
     (Inr (if num_workers \<le> 0 then [] else [data]), lazy)"

definition dispatch_one_to_all :: "('e, 'r, 'm) dispatch_fn" where
  "dispatch_one_to_all data num_workers mesh_mapping lazy key =
     (Inr (replicate (nat num_workers) data), lazy)"

definition dispatch_all_to_all :: "('e, 'r, 'm) dispatch_fn" where
  "dispatch_all_to_all data num_workers mesh_mapping lazy key =
     (Inr (round_robin_chunks (split num_workers data) num_workers), lazy)"

definition lazy_mapping ::
  "int list option \<Rightarrow> lazy_state option \<Rightarrow> string option \<Rightarrow> int list option \<times> lazy_state option" where
  \<comment> \<open>the mapping a DP dispatch uses, and the cache afterwards: a cached list wins over the
      argument, otherwise an argument is stored\<close>
  "lazy_mapping mesh_mapping lazy key =
     (case (lazy, key) of
        (Some st, Some k) \<Rightarrow>
          (case map_of st k of
             Some (LazyList ms) \<Rightarrow> (Some ms, lazy)
           | _ \<Rightarrow> (case mesh_mapping of
                      None \<Rightarrow> (mesh_mapping, lazy)
                    | Some ms \<Rightarrow> (mesh_mapping, Some (dict_set k (LazyList ms) st))))
      | _ \<Rightarrow> (mesh_mapping, lazy))"

definition dispatch_dp_compute_data_proto :: "('e, 'r, 'm) dispatch_fn" where
  "dispatch_dp_compute_data_proto data num_workers mesh_mapping lazy key =
     (let (mapping, lazy') = lazy_mapping mesh_mapping lazy key
      in (build_nd_dispatch data num_workers mapping, lazy'))"

definition dispatch_dp_compute :: "('e, 'r, 'm) dispatch_fn" where
  "dispatch_dp_compute = dispatch_dp_compute_data_proto"

definition dispatch_dp_compute_data_proto_with_func :: "('e, 'r, 'm) dispatch_fn" where
  "dispatch_dp_compute_data_proto_with_func = dispatch_dp_compute_data_proto"

definition dispatch_dp_compute_metric :: "('e, 'r, 'm) dispatch_fn" where
  "dispatch_dp_compute_metric = dispatch_dp_compute_data_proto"

definition dispatch_direct_rollout_forbidden :: "('e, 'r, 'm) dispatch_fn" where
  "dispatch_direct_rollout_forbidden data num_workers mesh_mapping lazy key = (Inl RuntimeError, lazy)"

section \<open>Collect functions\<close>

type_synonym 'p obj = "nat \<times> 'p"   \<comment> \<open>an object: its identity and its value\<close>

fun unique_objects :: "nat set \<Rightarrow> 'p obj list \<Rightarrow> 'p list" where
  \<comment> \<open>the loop over \<open>id(result)\<close> with its \<open>seen\<close> set\<close>
  "unique_objects seen [] = []"
| "unique_objects seen ((i, p) # rs) =
     (if i \<in> seen then unique_objects seen rs else p # unique_objects (insert i seen) rs)"

type_synonym ('e, 'r, 'm) collect_fn =
  "(string list \<Rightarrow> string list) \<Rightarrow> ('e, 'r, 'm) data_proto obj list \<Rightarrow> bool \<Rightarrow> ('e, 'r, 'm) data_proto result"

definition collect_direct_rollout_forbidden :: "('e::zero, 'r, 'm) collect_fn" where
  "collect_direct_rollout_forbidden set_iter results dedup = Inl RuntimeError"

definition collect_all_to_all :: "('e::zero, 'r, 'm) collect_fn" where
  "collect_all_to_all set_iter results dedup =
     (if dedup then merge set_iter (unique_objects {} results) else merge set_iter (map snd results))"

definition collect_dp_compute_data_proto :: "('e::zero, 'r, 'm) collect_fn" where
  "collect_dp_compute_data_proto set_iter results dedup = merge set_iter (map snd results)"

definition collect_dp_compute :: "('e::zero, 'r, 'm) collect_fn" where
  "collect_dp_compute set_iter results dedup = merge set_iter (map snd results)"

definition collect_rank_zero :: "('e::zero, 'r, 'm) collect_fn" where
  "collect_rank_zero set_iter results dedup =
     (case results of [] \<Rightarrow> Inr (meta_only []) | (_, p) # _ \<Rightarrow> Inr p)"

section \<open>The mode table and the entry points\<close>

fun mode_dispatch_fn :: "dispatch_mode \<Rightarrow> ('e, 'r, 'm) dispatch_fn" where
  "mode_dispatch_fn RANK_ZERO = dispatch_rank_zero"
| "mode_dispatch_fn ONE_TO_ALL = dispatch_one_to_all"
| "mode_dispatch_fn ALL_TO_ALL = dispatch_all_to_all"
| "mode_dispatch_fn DP_COMPUTE = dispatch_dp_compute"
| "mode_dispatch_fn DP_COMPUTE_PROTO = dispatch_dp_compute_data_proto"
| "mode_dispatch_fn DP_COMPUTE_PROTO_WITH_FUNC = dispatch_dp_compute_data_proto_with_func"
| "mode_dispatch_fn DP_COMPUTE_METRIC = dispatch_dp_compute_metric"
| "mode_dispatch_fn DIRECT_ROLLOUT_METHOD = dispatch_direct_rollout_forbidden"

fun mode_collect_fn :: "dispatch_mode \<Rightarrow> ('e::zero, 'r, 'm) collect_fn" where
  "mode_collect_fn RANK_ZERO = collect_rank_zero"
| "mode_collect_fn ONE_TO_ALL = collect_all_to_all"
| "mode_collect_fn ALL_TO_ALL = collect_all_to_all"
| "mode_collect_fn DP_COMPUTE = collect_dp_compute"
| "mode_collect_fn DP_COMPUTE_PROTO = collect_dp_compute_data_proto"
| "mode_collect_fn DP_COMPUTE_PROTO_WITH_FUNC = collect_dp_compute_data_proto"
| "mode_collect_fn DP_COMPUTE_METRIC = collect_dp_compute"
| "mode_collect_fn DIRECT_ROLLOUT_METHOD = collect_direct_rollout_forbidden"

definition dispatch_with_dp_ranks ::
  "('e, 'r, 'm) data_proto \<Rightarrow> int \<Rightarrow> int list \<Rightarrow> ('e, 'r, 'm) data_proto list result" where
  "dispatch_with_dp_ranks data num_workers dp_rank_mapping =
     (if int (length dp_rank_mapping) \<noteq> num_workers then Inl ValueError
      else let chunks = split (int (card (set dp_rank_mapping))) data
           in map_result (\<lambda>i. py_index chunks (dp_rank_mapping ! i)) [0..<nat num_workers])"

definition collect_with_mask ::
  "(string list \<Rightarrow> string list) \<Rightarrow> ('e::zero, 'r, 'm) data_proto list \<Rightarrow> bool list \<Rightarrow>
   ('e, 'r, 'm) data_proto result" where
  "collect_with_mask set_iter results collect_mask =
     (if length collect_mask \<noteq> length results then Inl ValueError
      else merge set_iter (map fst (filter snd (zip results collect_mask))))"

definition dispatch_proto ::
  "('e, 'r, 'm) data_proto \<Rightarrow> int \<Rightarrow> mode_arg \<Rightarrow> int list option \<Rightarrow> lazy_state option \<Rightarrow> string option \<Rightarrow>
   ('e, 'r, 'm) data_proto list result \<times> lazy_state option" where
  "dispatch_proto data num_workers mode mesh_mapping lazy key =
     (case normalize_mode mode of
        Inl e \<Rightarrow> (Inl e, lazy)
      | Inr m \<Rightarrow>
          if num_workers \<le> 0 then (Inr [], lazy)
          else mode_dispatch_fn m data num_workers mesh_mapping lazy key)"

definition collect_proto ::
  "(string list \<Rightarrow> string list) \<Rightarrow> ('e::zero, 'r, 'm) data_proto obj list \<Rightarrow> mode_arg \<Rightarrow> bool \<Rightarrow>
   ('e, 'r, 'm) data_proto result" where
  "collect_proto set_iter results mode dedup =
     bind_result (normalize_mode mode) (\<lambda>m.
       if results = [] then Inr (meta_only [])
       else mode_collect_fn m set_iter results dedup)"

section \<open>Which chunk goes where\<close>

lemmas dp_dispatch_defs =
  dispatch_dp_compute_def dispatch_dp_compute_data_proto_with_func_def dispatch_dp_compute_metric_def

lemma length_split [simp]: "0 \<le> c \<Longrightarrow> length (split c p) = nat c"
  by (simp add: split_def Let_def)

lemma round_robin_split: "0 < n \<Longrightarrow> round_robin_chunks (split n p) n = split n p"
  by (simp add: round_robin_chunks_def)

lemma py_index_chunk:
  assumes "0 \<le> r" "r < c"
  shows "py_index (split c p) r = Inr (split c p ! nat r)"
  using assms py_index_nat [of "nat r" "split c p"] by simp

lemma mask_filter_zip: "map fst (filter snd (zip xs bs)) = mask_list bs xs"
proof (induction xs arbitrary: bs)
  case (Cons x xs)
  then show ?case by (cases bs) auto
qed simp

fun dp_mode :: "dispatch_mode \<Rightarrow> bool" where
  "dp_mode m = (m \<in> {DP_COMPUTE, DP_COMPUTE_PROTO, DP_COMPUTE_PROTO_WITH_FUNC, DP_COMPUTE_METRIC})"

lemma dp_mode_dispatch: "dp_mode m \<Longrightarrow> mode_dispatch_fn m = dispatch_dp_compute_data_proto"
  by (auto simp: dp_dispatch_defs)

lemma dp_mode_collect: "dp_mode m \<Longrightarrow> mode_collect_fn m si rs dedup = merge si (map snd rs)"
  by (auto simp: collect_dp_compute_def collect_dp_compute_data_proto_def)

lemma build_nd_length:
  "build_nd_dispatch p n mp = Inr cs \<Longrightarrow> 0 < n \<Longrightarrow> length cs = nat n"
  by (auto simp: build_nd_dispatch_def Let_def dest: map_result_length split: option.splits if_splits list.splits)

section \<open>Properties\<close>

text \<open>C1: distributing a batch over \<open>n\<close> workers in a data-parallel mode or all-to-all,
  applying a row-wise worker to every chunk and collecting the results applies the worker to
  every row of the batch, in order; each of the \<open>n\<close> workers gets a chunk.\<close>

theorem dispatch_collect_row_wise:
  assumes "proto_ok p" "0 < n" "set_order set_iter" "row_wise p s g f"
    and "dp_mode m \<or> m = ALL_TO_ALL" "length ids = nat n"
  shows "\<exists>cs q. dispatch_proto p n (Mode m) None lazy None = (Inr cs, lazy) \<and> length cs = nat n
     \<and> collect_proto set_iter (zip ids (map f cs)) (Mode m) False = Inr q
     \<and> proto_ok q \<and> row_maps q = map g (row_maps p)"
proof -
  have d: "dispatch_proto p n (Mode m) None lazy None = (Inr (split n p), lazy)"
    using assms(2,5)
    by (auto simp: dispatch_proto_def dp_mode_dispatch dispatch_dp_compute_data_proto_def lazy_mapping_def
        build_nd_dispatch_def dispatch_all_to_all_def round_robin_split simp del: dp_mode.simps
        split: option.split)
  have ne: "zip ids (map f (split n p)) \<noteq> []"
  proof
    assume "zip ids (map f (split n p)) = []"
    then have "length (zip ids (map f (split n p))) = 0" by (simp only: list.size)
    with assms(2,6) show False by simp
  qed
  have "map snd (zip ids (map f (split n p))) = map f (split n p)"
    using assms(2,6) by simp
  then have c: "collect_proto set_iter (zip ids (map f (split n p))) (Mode m) False
      = merge set_iter (map f (split n p))"
    using assms(5) ne
    by (auto simp: collect_proto_def dp_mode_collect collect_all_to_all_def simp del: dp_mode.simps)
  show ?thesis
    using split_map_merge [OF assms(1-4)] d c assms(2) by (simp del: split_paired_Ex)
qed

theorem dispatch_collect_row_wise_witness:
  "\<exists>cs q. dispatch_proto sample_batch 2 (Mode DP_COMPUTE) None None None = (Inr cs, None) \<and> length cs = nat 2
     \<and> collect_proto rev (zip [0, 1] (map (\<lambda>q. q) cs)) (Mode DP_COMPUTE) False = Inr q
     \<and> proto_ok q \<and> row_maps q = map (\<lambda>r. r) (row_maps sample_batch)"
  by (rule dispatch_collect_row_wise [OF _ _ _ row_wise_id])
    (simp_all add: sample_batch_ok set_order_def)

text \<open>routing by data-parallel rank. Workers of one rank receive the same chunk, and
  collecting only from one worker of each rank, in rank order, gives the row-wise image of the
  batch exactly once although tensor-parallel peers return duplicates.\<close>

theorem dp_rank_routing:
  assumes "proto_ok p" "set_order set_iter" "row_wise p s g f"
    and "ranks \<noteq> []" "set ranks = {0..<d}" "length keep = length ranks"
    and "mask_list keep ranks = [0..<d]"
  shows "\<exists>cs q. dispatch_with_dp_ranks p (int (length ranks)) (map int ranks) = Inr cs
     \<and> cs = map (\<lambda>r. split (int d) p ! r) ranks
     \<and> collect_with_mask set_iter (map f cs) keep = Inr q
     \<and> proto_ok q \<and> row_maps q = map g (row_maps p)"
proof -
  have "0 < card (set ranks)" using assms(4) by (simp add: card_gt_0_iff)
  then have d: "0 < d" by (simp add: assms(5))
  have "card (set (map int ranks)) = card (int ` {0..<d})" using assms(5) by simp
  then have card: "card (set (map int ranks)) = d" by (simp add: card_image)
  have idx: "py_index (split (int d) p) (map int ranks ! i) = Inr (split (int d) p ! (ranks ! i))"
    if "i < length ranks" for i
  proof -
    have "ranks ! i < d" using that assms(5) nth_mem by fastforce
    then show ?thesis using that py_index_chunk [of "int (ranks ! i)" "int d" p] by simp
  qed
  have "map_result (\<lambda>i. py_index (split (int d) p) (map int ranks ! i)) [0..<length ranks]
      = Inr (map (\<lambda>i. split (int d) p ! (ranks ! i)) [0..<length ranks])"
    by (rule map_result_total) (use idx in simp)
  also have "map (\<lambda>i. split (int d) p ! (ranks ! i)) [0..<length ranks]
      = map (\<lambda>r. split (int d) p ! r) (map (\<lambda>i. ranks ! i) [0..<length ranks])"
    by simp
  finally have disp: "dispatch_with_dp_ranks p (int (length ranks)) (map int ranks)
      = Inr (map (\<lambda>r. split (int d) p ! r) ranks)"
    by (simp add: dispatch_with_dp_ranks_def Let_def card [simplified] map_nth)
  have "\<exists>q. merge set_iter (mask_list keep (map (\<lambda>r. f (split (int d) p ! r)) ranks)) = Inr q
    \<and> proto_ok q \<and> row_maps q = map g (row_maps p)"
    using d assms by (intro ranks_map_merge) simp_all
  then show ?thesis
    using disp assms(6) by (simp add: collect_with_mask_def mask_filter_zip comp_def)
qed

theorem dp_rank_routing_witness:
  "\<exists>cs q. dispatch_with_dp_ranks sample_batch (int (length [0, 0, 1, 1 :: nat])) (map int [0, 0, 1, 1]) = Inr cs
     \<and> cs = map (\<lambda>r. split (int 2) sample_batch ! r) [0, 0, 1, 1]
     \<and> collect_with_mask rev (map (\<lambda>q. q) cs) [True, False, True, False] = Inr q
     \<and> proto_ok q \<and> row_maps q = map (\<lambda>r. r) (row_maps sample_batch)"
  by (rule dp_rank_routing [OF _ _ row_wise_id, of _ _ "[0, 0, 1, 1]" 2])
    (auto simp: sample_batch_ok set_order_def upt_rec mask_list_def)

text \<open>the mapping cache. Once a list is cached under a key, every data-parallel dispatch
  with that key uses it, whatever mapping the caller passes, and leaves the cache alone; the
  first mapping passed is the one that is cached.\<close>

theorem lazy_mapping_is_sticky:
  fixes p :: "('e, 'r, 'm) data_proto"
  assumes "dp_mode m" "0 < n" "dispatch_proto p n (Mode m) (Some ms) (Some st) (Some k) = (r, st')"
  shows "\<exists>ms'. (case map_of st k of Some (LazyList cached) \<Rightarrow> ms' = cached | _ \<Rightarrow> ms' = ms)
    \<and> r = build_nd_dispatch p n (Some ms')
    \<and> (\<forall>(q :: ('e, 'r, 'm) data_proto) mm. dispatch_proto q n (Mode m) mm st' (Some k) = (build_nd_dispatch q n (Some ms'), st'))"
proof -
  let ?ms = "case map_of st k of Some (LazyList cached) \<Rightarrow> cached | _ \<Rightarrow> ms"
  have disp: "dispatch_proto q n (Mode m) mm (Some l) (Some k)
      = (let (mapping, l') = lazy_mapping mm (Some l) (Some k) in (build_nd_dispatch q n mapping, l'))"
    for q :: "('e, 'r, 'm) data_proto" and mm l
    using assms(1,2)
    by (simp add: dispatch_proto_def dp_mode_dispatch dispatch_dp_compute_data_proto_def del: dp_mode.simps)
  obtain l where l: "lazy_mapping (Some ms) (Some st) (Some k) = (Some ?ms, Some l)" "map_of l k = Some (LazyList ?ms)"
  proof (cases "map_of st k")
    case (Some v)
    then show ?thesis using that by (cases v) (simp_all add: lazy_mapping_def)
  qed (simp add: lazy_mapping_def)
  then have "r = build_nd_dispatch p n (Some ?ms)" "st' = Some l"
    using assms(3) by (simp_all add: disp)
  moreover have "lazy_mapping mm (Some l) (Some k) = (Some ?ms, Some l)" for mm
    using l(2) by (simp add: lazy_mapping_def)
  ultimately show ?thesis
    by (intro exI [of _ ?ms]) (simp add: disp split: option.split lazy_value.split)
qed

theorem lazy_mapping_is_sticky_witness:
  "\<exists>r st'. dispatch_proto sample_batch 2 (Mode DP_COMPUTE) (Some [1, 0]) (Some []) (Some ''actor'') = (r, st')
    \<and> dispatch_proto sample_batch 2 (Mode DP_COMPUTE) (Some [0, 1]) st' (Some ''actor'')
      = (build_nd_dispatch sample_batch 2 (Some [1, 0]), st')"
proof -
  obtain r st' where r: "dispatch_proto sample_batch 2 (Mode DP_COMPUTE) (Some [1, 0]) (Some []) (Some ''actor'')
      = (r, st')"
    by (cases "dispatch_proto sample_batch 2 (Mode DP_COMPUTE) (Some [1, 0]) (Some []) (Some ''actor'')")
  from lazy_mapping_is_sticky [OF _ _ r] show ?thesis using r by simp
qed

text \<open>a dispatch to \<open>n > 0\<close> workers that succeeds yields one chunk in rank-zero mode and
  exactly \<open>n\<close> otherwise, the two shapes the worker group accepts; direct rollout never succeeds.\<close>

theorem dispatch_chunk_count:
  assumes "0 < n" "dispatch_proto p n (Mode m) mm lazy key = (Inr cs, lazy')"
  shows "m \<noteq> DIRECT_ROLLOUT_METHOD \<and> length cs = (if m = RANK_ZERO then 1 else nat n)"
  using assms
  by (cases m) (auto simp: dispatch_proto_def dispatch_rank_zero_def dispatch_one_to_all_def
      dispatch_all_to_all_def round_robin_split dispatch_direct_rollout_forbidden_def dp_dispatch_defs
      dispatch_dp_compute_data_proto_def case_prod_beta dest: build_nd_length)

theorem dispatch_chunk_count_witness:
  "\<exists>cs. dispatch_proto sample_batch 4 (Mode DP_COMPUTE) (Some [0, 0, 1, 1]) None None = (Inr cs, None)
     \<and> length cs = nat 4"
proof -
  have "\<exists>cs. dispatch_proto sample_batch 4 (Mode DP_COMPUTE) (Some [0, 0, 1, 1]) None None = (Inr cs, None)"
    by (simp add: dispatch_proto_def dispatch_dp_compute_def dispatch_dp_compute_data_proto_def
        lazy_mapping_def build_nd_dispatch_def py_index_def split_def sample_batch_ok)
  then show ?thesis using dispatch_chunk_count [of 4 sample_batch DP_COMPUTE] by fastforce
qed

lemma unique_replicate: "unique_objects {} (replicate (Suc n) (i, p)) = [p]"
proof -
  have "unique_objects {i} (replicate n (i, p)) = []" by (induction n) auto
  then show ?thesis by simp
qed

text \<open>after a broadcast, deduplication by identity collects a shared result once, while
  plain collection repeats its rows once per worker.\<close>

theorem broadcast_collect:
  assumes "proto_ok p" "0 < n" "set_order set_iter"
  shows "\<exists>q1 q2. collect_proto set_iter (replicate n (i, p)) (ModeName ''broadcast'') True = Inr q1
     \<and> row_maps q1 = row_maps p
     \<and> collect_proto set_iter (replicate n (i, p)) (ModeName ''broadcast'') False = Inr q2
     \<and> row_maps q2 = concat (replicate n (row_maps p))"
proof -
  obtain k where n: "n = Suc k" using assms(2) by (cases n) auto
  obtain q1 where "merge set_iter [p] = Inr q1" "row_maps q1 = concat (map row_maps [p])"
    using merge_rows [OF assms(3), of "[p]" "proto_schema p"] assms(1) by auto
  moreover obtain q2 where "merge set_iter (replicate n p) = Inr q2"
    "row_maps q2 = concat (map row_maps (replicate n p))"
    using merge_rows [OF assms(3), of "replicate n p" "proto_schema p"] assms(1) by auto
  ultimately show ?thesis
    using unique_replicate [of k i p] by (simp add: collect_proto_def collect_all_to_all_def n)
qed

theorem broadcast_collect_witness:
  "\<exists>q1 q2. collect_proto rev (replicate 3 (7, sample_batch)) (ModeName ''broadcast'') True = Inr q1
     \<and> row_maps q1 = row_maps sample_batch
     \<and> collect_proto rev (replicate 3 (7, sample_batch)) (ModeName ''broadcast'') False = Inr q2
     \<and> row_maps q2 = concat (replicate 3 (row_maps sample_batch))"
  by (rule broadcast_collect) (simp_all add: sample_batch_ok set_order_def)

end
