(* ===== verification/Keyed_Store.thy ===== *)
theory Keyed_Store
  imports Py_Prelude
begin

text \<open>
  The interface of the keyed collections of the code (component registries, resource pools,
  tensors of a batch): a write under a key is read back, leaves the other keys alone, and
  reading an absent key raises KeyError. The lemmas say what a client reads after any
  sequence of writes, with and without the guard that keeps an existing entry.
\<close>

locale keyed_store =
  fixes put :: "'k \<Rightarrow> 'v \<Rightarrow> 's \<Rightarrow> 's"
    and get :: "'s \<Rightarrow> 'k \<Rightarrow> 'v result"
    and has :: "'s \<Rightarrow> 'k \<Rightarrow> bool"
  assumes get_put: "get (put k v s) k = Inr v"
    and get_put_other: "j \<noteq> k \<Longrightarrow> get (put k v s) j = get s j"
    and get_has: "get s k = Inl e \<longleftrightarrow> \<not> has s k \<and> e = KeyError"
begin

lemma has_get: "has s k \<longleftrightarrow> (\<exists>v. get s k = Inr v)"
  using get_has [of s k] by (cases "get s k") auto

lemma has_put: "has (put k v s) j \<longleftrightarrow> j = k \<or> has s j"
  by (cases "j = k") (auto simp: has_get get_put get_put_other)

lemma put_all:
  "get (fold (\<lambda>(k, v). put k v) kvs s) j
     = (case map_of (rev kvs) j of None \<Rightarrow> get s j | Some v \<Rightarrow> Inr v)"
proof (induction kvs arbitrary: s j)
  case Nil
  show ?case by simp
next
  case (Cons kv kvs)
  obtain k v where kv: "kv = (k, v)" by (cases kv)
  show ?case
    by (cases "map_of (rev kvs) j"; cases "j = k")
      (auto simp: kv Cons.IH get_put get_put_other map_add_def)
qed

text \<open>Writing only absent keys: the first binding of each key wins, what was there stays.\<close>

lemma ensure_all:
  "get (fold (\<lambda>(k, v) s. if has s k then s else put k v s) kvs s) j
     = (if has s j then get s j else (case map_of kvs j of None \<Rightarrow> Inl KeyError | Some v \<Rightarrow> Inr v))"
proof (induction kvs arbitrary: s j)
  case Nil
  show ?case using get_has [of s j] by (cases "get s j") auto
next
  case (Cons kv kvs)
  obtain k v where kv: "kv = (k, v)" by (cases kv)
  show ?case
    by (auto simp: kv Cons.IH has_put get_put get_put_other)
qed

lemma get_all:
  "(\<And>k. k \<in> set ks \<Longrightarrow> has s k) \<Longrightarrow> \<exists>vs. map_result (get s) ks = Inr vs \<and> length vs = length ks"
proof (induction ks)
  case Nil
  show ?case by simp
next
  case (Cons k ks)
  then obtain vs where "map_result (get s) ks = Inr vs" "length vs = length ks" by auto
  moreover obtain v where "get s k = Inr v" using Cons.prems [of k] has_get by auto
  ultimately show ?case by simp
qed

lemma get_missing: "\<not> has s k \<Longrightarrow> k \<in> set ks \<Longrightarrow> map_result (get s) ks = Inl KeyError"
proof (induction ks)
  case Nil
  then show ?case by simp
next
  case (Cons j ks)
  show ?case
  proof (cases "get s j")
    case (Inl e)
    then show ?thesis using get_has [of s j e] by simp
  next
    case (Inr v)
    then have "j \<noteq> k" using Cons.prems(1) has_get by auto
    then show ?thesis using Cons Inr by simp
  qed
qed

end

interpretation dict_store: keyed_store dict_set dict_get "\<lambda>d k. k \<in> set (dict_keys d)"
proof unfold_locales
  show "dict_get d k = Inl e \<longleftrightarrow> \<not> k \<in> set (dict_keys d) \<and> e = KeyError"
    for d :: "('c \<times> 'd) list" and k e
    by (simp add: map_of_eq_None_iff)
qed (simp_all add: dict_get_def)

end
