(* ===== verification/Registry_Assembly.thy ===== *)
theory Registry_Assembly
  imports Keyed_Store
begin

text \<open>
  \<open>lumenrl/core/registry.py\<close>, \<open>lumenrl/architecture/\<close> and
  \<open>lumenrl/controller/colocation.py\<close>: named registries of components, the built-in bindings,
  the backend policy, the assembly of the runtime graph from a configuration, and the worker
  that fuses several roles and routes prefixed method names to them.
\<close>

section \<open>Registries\<close>

record 'v registry =
  reg_name :: string
  reg_entries :: "(string, 'v) dict"

definition new_registry :: "string \<Rightarrow> 'v registry" where
  "new_registry n = \<lparr>reg_name = n, reg_entries = []\<rparr>"

definition register :: "string \<Rightarrow> 'v \<Rightarrow> 'v registry \<Rightarrow> 'v registry" where
  \<comment> \<open>an existing entry is overwritten (with a warning in the log)\<close>
  "register key v r = r\<lparr>reg_entries := dict_set key v (reg_entries r)\<rparr>"

definition registry_get :: "'v registry \<Rightarrow> string \<Rightarrow> 'v result" where
  "registry_get r key =
     (case map_of (reg_entries r) key of None \<Rightarrow> Inl KeyError | Some v \<Rightarrow> Inr v)"

definition registry_contains :: "'v registry \<Rightarrow> string \<Rightarrow> bool" where
  "registry_contains r key = (key \<in> set (dict_keys (reg_entries r)))"

definition registry_keys :: "'v registry \<Rightarrow> string list" where
  "registry_keys r = dict_keys (reg_entries r)"

definition registry_decorator :: "string \<Rightarrow> 'v \<Rightarrow> 'v registry \<Rightarrow> 'v \<times> 'v registry" where
  \<comment> \<open>applying \<open>registry.decorator(key)\<close> to a class: the class itself and the registry after\<close>
  "registry_decorator key v r = (v, register key v r)"

interpretation registries: keyed_store register registry_get registry_contains
proof unfold_locales
  show "registry_get r k = Inl e \<longleftrightarrow> \<not> registry_contains r k \<and> e = KeyError" for r :: "'v registry" and k e
    using map_of_eq_None_iff [of "reg_entries r" k]
    by (auto simp: registry_get_def registry_contains_def split: option.split)
qed (simp_all add: register_def registry_get_def)

section \<open>Built-in bindings\<close>

datatype component =
    LumenActorWorker | CriticWorker | RefPolicyWorker | RewardWorker | AtomRolloutWorker | TeacherWorker
  | FSDP2Backend | AtomEngine
  | RLTrainer | AsyncRLTrainer | OPDTrainer | SpecDistillTrainer
  | UserComponent string   \<comment> \<open>anything a user registers\<close>

record registries =
  worker_role_registry :: "component registry"
  training_backend_registry :: "component registry"
  inference_backend_registry :: "component registry"
  trainer_registry :: "component registry"

definition initial_registries :: registries where
  "initial_registries =
     \<lparr>worker_role_registry = new_registry ''worker_role'',
      training_backend_registry = new_registry ''training_backend'',
      inference_backend_registry = new_registry ''inference_backend'',
      trainer_registry = new_registry ''trainer''\<rparr>"

definition ensure_binding :: "string \<times> 'v \<Rightarrow> 'v registry \<Rightarrow> 'v registry" where
  \<comment> \<open>\<open>_ensure\<close>\<close>
  "ensure_binding = (\<lambda>(key, v) r. if registry_contains r key then r else register key v r)"

definition register_default_bindings :: "registries \<Rightarrow> registries" where
  "register_default_bindings rs =
     \<lparr>worker_role_registry = fold ensure_binding
        [(''actor.default'', LumenActorWorker), (''critic.default'', CriticWorker),
         (''ref.default'', RefPolicyWorker), (''reward.default'', RewardWorker),
         (''rollout.atom'', AtomRolloutWorker), (''teacher.default'', TeacherWorker)]
        (worker_role_registry rs),
      training_backend_registry = fold ensure_binding
        [(''fsdp'', FSDP2Backend), (''fsdp2'', FSDP2Backend)] (training_backend_registry rs),
      inference_backend_registry = fold ensure_binding
        [(''atom'', AtomEngine)] (inference_backend_registry rs),
      trainer_registry = fold ensure_binding
        [(''trainer.rl'', RLTrainer), (''trainer.async'', AsyncRLTrainer),
         (''trainer.opd'', OPDTrainer), (''trainer.spec_distill'', SpecDistillTrainer)]
        (trainer_registry rs)\<rparr>"

definition resolve_worker_class :: "string \<Rightarrow> registries \<Rightarrow> component result \<times> registries" where
  "resolve_worker_class role_key rs =
     (let rs' = register_default_bindings rs
      in (registry_get (worker_role_registry rs') role_key, rs'))"

section \<open>Assembly\<close>

record assembly_config =
  training_backend :: string
  inference_backend :: string
  topology :: string
  strict_policy :: bool
  use_new_assembler :: bool
  role_impl_keys :: "(string, string) dict"

definition default_assembly :: assembly_config where
  "default_assembly =
     \<lparr>training_backend = ''fsdp2'', inference_backend = ''atom'', topology = ''decoupled'',
      strict_policy = True, use_new_assembler = True, role_impl_keys = []\<rparr>"

record run_config =   \<comment> \<open>the fields of the configuration the assembler reads\<close>
  algorithm_name :: string
  async_enabled :: bool
  assembly :: assembly_config

definition allowed_training :: "string list" where
  "allowed_training = [''fsdp'', ''fsdp2'']"

definition allowed_inference :: "string list" where
  "allowed_inference = [''atom'']"

definition validate_backend_policy :: "assembly_config \<Rightarrow> unit result" where
  "validate_backend_policy cfg =
     bind_result (require (training_backend cfg \<in> set allowed_training) ValueError) (\<lambda>_.
       require (inference_backend cfg \<in> set allowed_inference) ValueError)"

definition resolve_trainer_key :: "run_config \<Rightarrow> string" where
  "resolve_trainer_key cfg =
     (let algo = py_lower (algorithm_name cfg)
      in if algo = ''opd'' then ''trainer.opd''
         else if algo = ''spec_distill'' then ''trainer.spec_distill''
         else if async_enabled cfg then ''trainer.async''
         else ''trainer.rl'')"

record runtime_graph =
  actor_worker_cls :: component
  rollout_worker_cls :: component
  trainer_cls :: component
  training_backend_cls :: component
  inference_backend_cls :: component

definition dict_get_default :: "('k, 'v) dict \<Rightarrow> 'k \<Rightarrow> 'v \<Rightarrow> 'v" where
  "dict_get_default d k v = (case map_of d k of None \<Rightarrow> v | Some w \<Rightarrow> w)"

definition build_graph :: "run_config \<Rightarrow> registries \<Rightarrow> runtime_graph result" where
  "build_graph cfg rs =
     bind_result (if strict_policy (assembly cfg) then validate_backend_policy (assembly cfg) else Inr ()) (\<lambda>_.
     bind_result (registry_get (worker_role_registry rs)
        (dict_get_default (role_impl_keys (assembly cfg)) ''actor'' ''actor.default'')) (\<lambda>a.
     bind_result (registry_get (worker_role_registry rs)
        (dict_get_default (role_impl_keys (assembly cfg)) ''rollout'' ''rollout.atom'')) (\<lambda>r.
     bind_result (registry_get (trainer_registry rs) (resolve_trainer_key cfg)) (\<lambda>t.
     bind_result (registry_get (training_backend_registry rs) (training_backend (assembly cfg))) (\<lambda>tb.
     bind_result (registry_get (inference_backend_registry rs) (inference_backend (assembly cfg))) (\<lambda>ib.
       Inr \<lparr>actor_worker_cls = a, rollout_worker_cls = r, trainer_cls = t,
            training_backend_cls = tb, inference_backend_cls = ib\<rparr>))))))"

definition assemble :: "run_config \<Rightarrow> registries \<Rightarrow> runtime_graph result \<times> registries" where
  \<comment> \<open>\<open>RuntimeAssembler(cfg).build_graph()\<close>\<close>
  "assemble cfg rs = (let rs' = register_default_bindings rs in (build_graph cfg rs', rs'))"

section \<open>Fused workers\<close>

definition prefixed_method :: "string \<Rightarrow> string \<Rightarrow> string" where
  "prefixed_method pre m = (if pre = [] then m else pre @ ''_'' @ m)"

datatype 'm fused_attr = FusedHealthCheck | FusedWorkers | FusedMethod 'm

definition fused_getattr :: "(string, string \<Rightarrow> 'm option) dict \<Rightarrow> string \<Rightarrow> 'm fused_attr result" where
  \<comment> \<open>attribute lookup on a fused worker: its own attributes first, then \<open>__getattr__\<close>\<close>
  "fused_getattr workers attr =
     (if attr = ''health_check'' then Inr FusedHealthCheck
      else if attr = ''_workers'' then Inr FusedWorkers
      else case split_first (CHR ''_'') attr of
        None \<Rightarrow> Inl AttributeError
      | Some (pre, m) \<Rightarrow>
          (case map_of workers pre of
             None \<Rightarrow> Inl AttributeError
           | Some w \<Rightarrow> (case w m of None \<Rightarrow> Inl AttributeError | Some t \<Rightarrow> Inr (FusedMethod t))))"

definition create_fused_worker ::
  "(string, 'k) dict \<Rightarrow> ('k \<Rightarrow> string \<Rightarrow> 'm option) \<Rightarrow> (string, string \<Rightarrow> 'm option) dict result" where
  \<comment> \<open>an instance of the fused class: one worker object per prefix; \<open>construct\<close> is the
      constructor of the worker classes, giving the object's methods\<close>
  "create_fused_worker worker_map construct =
     (if worker_map = [] then Inl ValueError else Inr (dict_map construct worker_map))"

definition fused_health_check :: "(string, string \<Rightarrow> 'm option) dict \<Rightarrow> (string, bool) dict" where
  "fused_health_check workers = dict_map (\<lambda>_. True) workers"

definition create_colocated_worker ::
  "'k \<Rightarrow> 'k \<Rightarrow> ('k \<Rightarrow> string \<Rightarrow> 'm option) \<Rightarrow> (string, string \<Rightarrow> 'm option) dict result" where
  "create_colocated_worker a b construct = create_fused_worker [(''a'', a), (''b'', b)] construct"

section \<open>Properties\<close>

lemma get_ensured:
  "registry_get (fold ensure_binding kvs r) k
     = (if registry_contains r k then registry_get r k
        else (case map_of kvs k of None \<Rightarrow> Inl KeyError | Some v \<Rightarrow> Inr v))"
  unfolding ensure_binding_def by (rule registries.ensure_all)

definition user_or_builtin :: "component registry \<Rightarrow> (string, component) dict \<Rightarrow> string \<Rightarrow> component result" where
  \<comment> \<open>what the user registered under a key, else what is built in under it\<close>
  "user_or_builtin r builtins k =
     (case registry_get r k of
        Inr c \<Rightarrow> Inr c
      | Inl e \<Rightarrow> (case map_of builtins k of None \<Rightarrow> Inl KeyError | Some c \<Rightarrow> Inr c))"

definition worker_builtins :: "(string, component) dict" where
  "worker_builtins =
     [(''actor.default'', LumenActorWorker), (''critic.default'', CriticWorker), (''ref.default'', RefPolicyWorker),
      (''reward.default'', RewardWorker), (''rollout.atom'', AtomRolloutWorker), (''teacher.default'', TeacherWorker)]"

definition trainer_builtins :: "(string, component) dict" where
  "trainer_builtins =
     [(''trainer.rl'', RLTrainer), (''trainer.async'', AsyncRLTrainer), (''trainer.opd'', OPDTrainer),
      (''trainer.spec_distill'', SpecDistillTrainer)]"

definition training_builtins :: "(string, component) dict" where
  "training_builtins = [(''fsdp'', FSDP2Backend), (''fsdp2'', FSDP2Backend)]"

definition inference_builtins :: "(string, component) dict" where
  "inference_builtins = [(''atom'', AtomEngine)]"

lemmas builtin_defs = worker_builtins_def trainer_builtins_def training_builtins_def inference_builtins_def

lemma get_ensured_user: "registry_get (fold ensure_binding kvs r) k = user_or_builtin r kvs k"
  using registries.has_get [of r k] by (auto simp: get_ensured user_or_builtin_def split: sum.split)

lemma default_bindings_get:
  "registry_get (worker_role_registry (register_default_bindings rs)) k
     = user_or_builtin (worker_role_registry rs) worker_builtins k"
  "registry_get (trainer_registry (register_default_bindings rs)) k
     = user_or_builtin (trainer_registry rs) trainer_builtins k"
  "registry_get (training_backend_registry (register_default_bindings rs)) k
     = user_or_builtin (training_backend_registry rs) training_builtins k"
  "registry_get (inference_backend_registry (register_default_bindings rs)) k
     = user_or_builtin (inference_backend_registry rs) inference_builtins k"
  unfolding register_default_bindings_def registries.simps get_ensured_user builtin_defs by (rule refl)+

lemma user_or_builtin_total: "map_of builtins k = Some c \<Longrightarrow> \<exists>v. user_or_builtin r builtins k = Inr v"
  by (simp add: user_or_builtin_def split: sum.split)

lemma validate_backend_policy_eq:
  "validate_backend_policy cfg =
     (if training_backend cfg \<in> {''fsdp'', ''fsdp2''} \<and> inference_backend cfg = ''atom'' then Inr () else Inl ValueError)"
  by (auto simp: validate_backend_policy_def allowed_training_def allowed_inference_def require_def)

lemma resolve_trainer_key_builtin: "\<exists>c. map_of trainer_builtins (resolve_trainer_key cfg) = Some c"
  by (simp add: resolve_trainer_key_def trainer_builtins_def Let_def)

text \<open>C40: assembly under the strict backend policy, whatever the registries hold and whatever
  implementation keys the configuration names for the roles. A backend outside the policy raises
  ValueError. Otherwise the graph has, each under its own key and from its own registry, the actor
  and rollout workers, the trainer of the algorithm and the two backends: what the user registered
  under the key, else what is built in under it. It fails, with KeyError, exactly when a role
  names an implementation that is neither. Assembly leaves every registration of the user, of all
  four registries, in place and adds the built-in ones under the other keys.\<close>

theorem strict_assembly:
  assumes "strict_policy (assembly cfg)"
  shows "(if training_backend (assembly cfg) \<in> {''fsdp'', ''fsdp2''} \<and> inference_backend (assembly cfg) = ''atom''
      then \<exists>t tb ib. user_or_builtin (trainer_registry rs) trainer_builtins
            (if py_lower (algorithm_name cfg) = ''opd'' then ''trainer.opd''
             else if py_lower (algorithm_name cfg) = ''spec_distill'' then ''trainer.spec_distill''
             else if async_enabled cfg then ''trainer.async'' else ''trainer.rl'') = Inr t
        \<and> user_or_builtin (training_backend_registry rs) training_builtins (training_backend (assembly cfg)) = Inr tb
        \<and> user_or_builtin (inference_backend_registry rs) inference_builtins ''atom'' = Inr ib
        \<and> fst (assemble cfg rs) =
            (case (user_or_builtin (worker_role_registry rs) worker_builtins
                     (case map_of (role_impl_keys (assembly cfg)) ''actor'' of None \<Rightarrow> ''actor.default'' | Some k \<Rightarrow> k),
                   user_or_builtin (worker_role_registry rs) worker_builtins
                     (case map_of (role_impl_keys (assembly cfg)) ''rollout'' of None \<Rightarrow> ''rollout.atom'' | Some k \<Rightarrow> k)) of
               (Inr a, Inr r) \<Rightarrow> Inr \<lparr>actor_worker_cls = a, rollout_worker_cls = r, trainer_cls = t,
                 training_backend_cls = tb, inference_backend_cls = ib\<rparr>
             | _ \<Rightarrow> Inl KeyError)
      else fst (assemble cfg rs) = Inl ValueError)
    \<and> (\<forall>k. registry_get (worker_role_registry (snd (assemble cfg rs))) k = user_or_builtin (worker_role_registry rs) worker_builtins k
        \<and> registry_get (trainer_registry (snd (assemble cfg rs))) k = user_or_builtin (trainer_registry rs) trainer_builtins k
        \<and> registry_get (training_backend_registry (snd (assemble cfg rs))) k
            = user_or_builtin (training_backend_registry rs) training_builtins k
        \<and> registry_get (inference_backend_registry (snd (assemble cfg rs))) k
            = user_or_builtin (inference_backend_registry rs) inference_builtins k)"
proof -
  have regs: "snd (assemble cfg rs) = register_default_bindings rs" by (simp add: assemble_def Let_def)
  have key_error: "e = KeyError" if "user_or_builtin r b k = Inl e" for r b k e
    using that by (simp add: user_or_builtin_def split: sum.splits option.splits)
  show ?thesis
  proof (cases "training_backend (assembly cfg) \<in> {''fsdp'', ''fsdp2''} \<and> inference_backend (assembly cfg) = ''atom''")
    case False
    then show ?thesis using assms
      by (auto simp: assemble_def Let_def build_graph_def validate_backend_policy_eq default_bindings_get)
  next
    case True
    let ?key = "resolve_trainer_key cfg"
    obtain t where t: "user_or_builtin (trainer_registry rs) trainer_builtins ?key = Inr t"
      using resolve_trainer_key_builtin user_or_builtin_total by metis
    obtain tb where tb: "user_or_builtin (training_backend_registry rs) training_builtins (training_backend (assembly cfg)) = Inr tb"
    proof -
      have "map_of training_builtins (training_backend (assembly cfg)) = Some FSDP2Backend"
        using True by (auto simp: training_builtins_def)
      then show ?thesis using user_or_builtin_total that by blast
    qed
    obtain ib where ib: "user_or_builtin (inference_backend_registry rs) inference_builtins ''atom'' = Inr ib"
      using user_or_builtin_total [of inference_builtins "''atom''" AtomEngine] that
      by (simp add: inference_builtins_def) blast
    have "fst (assemble cfg rs) =
      (case (user_or_builtin (worker_role_registry rs) worker_builtins
               (dict_get_default (role_impl_keys (assembly cfg)) ''actor'' ''actor.default''),
             user_or_builtin (worker_role_registry rs) worker_builtins
               (dict_get_default (role_impl_keys (assembly cfg)) ''rollout'' ''rollout.atom'')) of
         (Inr a, Inr r) \<Rightarrow> Inr \<lparr>actor_worker_cls = a, rollout_worker_cls = r, trainer_cls = t,
           training_backend_cls = tb, inference_backend_cls = ib\<rparr>
       | _ \<Rightarrow> Inl KeyError)"
      using True assms t tb ib key_error
      by (auto simp: assemble_def Let_def build_graph_def validate_backend_policy_eq default_bindings_get split: sum.split)
    then show ?thesis using True t tb ib
      by (simp add: regs default_bindings_get dict_get_default_def resolve_trainer_key_def Let_def)
  qed
qed

lemma lower_opd: "py_lower ''OPD'' = ''opd''"
  by code_simp

theorem strict_assembly_witness:
  \<comment> \<open>the user replaced the default actor and the OPD trainer\<close>
  "fst (assemble \<lparr>algorithm_name = ''OPD'', async_enabled = True, assembly = default_assembly\<rparr>
      (initial_registries\<lparr>worker_role_registry := register ''actor.default'' (UserComponent ''A'') (new_registry ''worker_role''),
        trainer_registry := register ''trainer.opd'' (UserComponent ''T'') (new_registry ''trainer'')\<rparr>))
     = Inr \<lparr>actor_worker_cls = UserComponent ''A'', rollout_worker_cls = AtomRolloutWorker, trainer_cls = UserComponent ''T'',
         training_backend_cls = FSDP2Backend, inference_backend_cls = AtomEngine\<rparr>"
  using strict_assembly [of "\<lparr>algorithm_name = ''OPD'', async_enabled = True, assembly = default_assembly\<rparr>"
      "initial_registries\<lparr>worker_role_registry := register ''actor.default'' (UserComponent ''A'') (new_registry ''worker_role''),
        trainer_registry := register ''trainer.opd'' (UserComponent ''T'') (new_registry ''trainer'')\<rparr>"]
  by (simp add: default_assembly_def initial_registries_def new_registry_def register_def registry_get_def
      user_or_builtin_def builtin_defs lower_opd)

text \<open>a group view with prefix \<open>pre\<close> calls \<open>pre_method\<close>, and the fused worker routes that
  name back to the method of the worker registered under \<open>pre\<close>, provided the prefix has no
  underscore (the name is split at its first one).\<close>

theorem fused_routing:
  assumes "pre \<noteq> []" "CHR ''_'' \<notin> set pre" "prefixed_method pre m \<noteq> ''health_check''"
    and "create_fused_worker worker_map construct = Inr ws" "map_of worker_map pre = Some k"
  shows "fused_getattr ws (prefixed_method pre m)
    = (case construct k m of None \<Rightarrow> Inl AttributeError | Some t \<Rightarrow> Inr (FusedMethod t))"
proof -
  have "prefixed_method pre m = pre @ CHR ''_'' # m" using assms(1) by (simp add: prefixed_method_def)
  moreover have "pre @ CHR ''_'' # m \<noteq> ''_workers''" using assms(1,2) by (cases pre) auto
  moreover have "map_of ws pre = Some (construct k)"
    using assms(4,5) by (auto simp: create_fused_worker_def split: if_splits)
  ultimately show ?thesis
    using assms(2,3) by (simp add: fused_getattr_def split_first_append)
qed

theorem fused_routing_witness:
  "fused_getattr [(''actor'', \<lambda>m. if m = ''train_step'' then Some (1 :: nat) else None)]
     (prefixed_method ''actor'' ''train_step'') = Inr (FusedMethod 1)"
  using fused_routing [of "''actor''" "''train_step''" "[(''actor'', ())]"
      "\<lambda>_ m. if m = ''train_step'' then Some (1 :: nat) else None"]
  by (simp add: prefixed_method_def create_fused_worker_def)

text \<open>With an underscore in the prefix the call goes astray: the worker registered under
  \<open>ref_policy\<close> cannot be reached.\<close>

lemma fused_underscore_prefix_unreachable:
  "fused_getattr [(''ref_policy'', \<lambda>_. Some m)] (prefixed_method ''ref_policy'' ''compute'') = Inl AttributeError"
  by (simp add: prefixed_method_def fused_getattr_def)

end
