(* ===== verification/Ray_Cluster.thy ===== *)
theory Ray_Cluster
  imports Keyed_Store
begin

text \<open>
  \<open>lumenrl/controller/ray_cluster.py\<close>: GPU resource pools with their process layout over the
  nodes, splitting and merging pools, and the cluster object that connects to Ray once and
  hands out pools by name. Calls to Ray itself appear as values in the result.
\<close>

section \<open>Resource pools\<close>

record pool =
  pool_name :: string
  num_gpus :: int
  num_cpus :: int
  node_indices :: "int list"
  colocate_with :: "string option"
  process_on_nodes :: "int list"
  max_colocate_count :: int
  pool_detached :: bool
  topology_tags :: "(string, string) dict"
  use_placement_groups :: bool

definition post_init :: "pool \<Rightarrow> pool" where
  \<comment> \<open>\<open>__post_init__\<close>: a missing layout is one node with all the workers\<close>
  "post_init p =
     (if process_on_nodes p = [] then p\<lparr>process_on_nodes := [max 0 (num_gpus p)]\<rparr> else p)"

definition world_size :: "pool \<Rightarrow> int" where
  "world_size p = sum_list (process_on_nodes p)"

datatype split_size = SplitInt int | SplitList "int list"

definition split_list_of :: "split_size \<Rightarrow> pool \<Rightarrow> int list result" where
  \<comment> \<open>the sub-pool sizes the two forms of the argument stand for\<close>
  "split_list_of sz p = (case sz of
     SplitInt k \<Rightarrow>
       if k \<le> 0 \<or> world_size p mod k \<noteq> 0 then Inl ValueError
       else Inr (replicate (nat (world_size p div k)) k)
   | SplitList ks \<Rightarrow>
       if list_ex (\<lambda>v. v \<le> 0) ks \<or> sum_list ks \<noteq> world_size p then Inl ValueError
       else Inr ks)"

definition sub_pool_name :: "pool \<Rightarrow> string option \<Rightarrow> nat \<Rightarrow> string" where
  "sub_pool_name p suffix i =
     pool_name p @ ''_'' @ (case suffix of None \<Rightarrow> ''split'' | Some s \<Rightarrow> s) @ ''_'' @ show_nat i"

definition sub_pool :: "pool \<Rightarrow> string option \<Rightarrow> nat \<Rightarrow> int \<Rightarrow> pool" where
  "sub_pool p suffix i sz = post_init
     \<lparr>pool_name = sub_pool_name p suffix i, num_gpus = sz, num_cpus = sz,
      node_indices = node_indices p, colocate_with = colocate_with p, process_on_nodes = [sz],
      max_colocate_count = max_colocate_count p, pool_detached = pool_detached p,
      topology_tags = topology_tags p, use_placement_groups = False\<rparr>"

definition split_pool :: "split_size \<Rightarrow> string option \<Rightarrow> pool \<Rightarrow> pool list result" where
  "split_pool sz suffix p =
     bind_result (split_list_of sz p) (\<lambda>ks.
       Inr (map (\<lambda>(i, k). sub_pool p suffix i k) (zip [0..<length ks] ks)))"

definition or_str :: "string option \<Rightarrow> string option \<Rightarrow> string option" where
  \<comment> \<open>\<open>a or b\<close> on optional strings: None and the empty string are false\<close>
  "or_str a b = (case a of Some (c # cs) \<Rightarrow> a | _ \<Rightarrow> b)"

definition merge_with :: "pool \<Rightarrow> pool \<Rightarrow> string option \<Rightarrow> pool result" where
  "merge_with p q name =
     (if max_colocate_count p \<noteq> max_colocate_count q then Inl ValueError
      else Inr (post_init
        \<lparr>pool_name = the (or_str name (Some (pool_name p @ ''_'' @ pool_name q))),
         num_gpus = num_gpus p + num_gpus q, num_cpus = num_cpus p + num_cpus q,
         node_indices = node_indices p @ node_indices q,
         colocate_with = or_str (colocate_with p) (colocate_with q),
         process_on_nodes = process_on_nodes p @ process_on_nodes q,
         max_colocate_count = max_colocate_count p,
         pool_detached = (pool_detached p \<and> pool_detached q),
         topology_tags = dict_update (topology_tags p) (topology_tags q),
         use_placement_groups = False\<rparr>))"

section \<open>The cluster\<close>

record cluster_config =
  ray_address :: "string option"
  num_nodes :: int
  gpus_per_node :: int

record cluster =
  cl_config :: cluster_config
  cl_pools :: "(string, pool) dict"
  cl_initialized :: bool

datatype ray_call = RayInitAddress string | RayInitGpus int | RayShutdown

definition new_cluster :: "cluster_config \<Rightarrow> cluster" where
  "new_cluster cfg = \<lparr>cl_config = cfg, cl_pools = [], cl_initialized = False\<rparr>"

definition cluster_init :: "cluster \<Rightarrow> ray_call list \<times> cluster" where
  \<comment> \<open>the calls made to Ray and the state after\<close>
  "cluster_init c =
     (if cl_initialized c then ([], c)
      else ([case ray_address (cl_config c) of
               Some (a # as) \<Rightarrow> RayInitAddress (a # as)
             | _ \<Rightarrow> RayInitGpus (num_nodes (cl_config c) * gpus_per_node (cl_config c))],
            c\<lparr>cl_initialized := True\<rparr>))"

definition cluster_shutdown :: "cluster \<Rightarrow> ray_call list \<times> cluster" where
  "cluster_shutdown c =
     (if cl_initialized c then ([RayShutdown], c\<lparr>cl_initialized := False\<rparr>) else ([], c))"

definition create_pool ::
  "string \<Rightarrow> int \<Rightarrow> string option \<Rightarrow> int list option \<Rightarrow> int \<Rightarrow> bool \<Rightarrow> (string, string) dict option \<Rightarrow>
   cluster \<Rightarrow> pool \<times> cluster" where
  "create_pool name gpus colocate layout max_colo det tags c =
     (let p = post_init
        \<lparr>pool_name = name, num_gpus = gpus, num_cpus = gpus, node_indices = [],
         colocate_with = colocate,
         process_on_nodes = (case layout of None \<Rightarrow> [gpus] | Some l \<Rightarrow> l),
         max_colocate_count = max_colo, pool_detached = det,
         topology_tags = (case tags of None \<Rightarrow> [] | Some t \<Rightarrow> t),
         use_placement_groups = (layout \<noteq> None)\<rparr>
      in (p, c\<lparr>cl_pools := dict_set name p (cl_pools c)\<rparr>))"

definition get_pool :: "cluster \<Rightarrow> string \<Rightarrow> pool result" where
  "get_pool c name = (case map_of (cl_pools c) name of None \<Rightarrow> Inl KeyError | Some p \<Rightarrow> Inr p)"

definition total_gpus :: "cluster \<Rightarrow> int" where
  "total_gpus c = num_nodes (cl_config c) * gpus_per_node (cl_config c)"

definition map_topology :: "(string, string) dict \<Rightarrow> cluster \<Rightarrow> (string, pool) dict result" where
  "map_topology mapping c =
     map_result (\<lambda>(role, name). bind_result (get_pool c name) (\<lambda>p. Inr (role, p))) mapping"

definition put_pool :: "string \<Rightarrow> pool \<Rightarrow> cluster \<Rightarrow> cluster" where
  \<comment> \<open>the effect of \<open>create_pool\<close> on the table\<close>
  "put_pool name p c = c\<lparr>cl_pools := dict_set name p (cl_pools c)\<rparr>"

interpretation pools: keyed_store put_pool get_pool "\<lambda>c name. name \<in> set (dict_keys (cl_pools c))"
proof unfold_locales
  show "get_pool c k = Inl e \<longleftrightarrow> \<not> k \<in> set (dict_keys (cl_pools c)) \<and> e = KeyError" for c k e
    using map_of_eq_None_iff [of "cl_pools c" k] by (auto simp: get_pool_def split: option.split)
qed (simp_all add: put_pool_def get_pool_def)

lemma create_pool_put: "create_pool n g co l m d t c = (p, c') \<Longrightarrow> c' = put_pool n p c"
  by (auto simp: create_pool_def put_pool_def Let_def)

section \<open>Properties\<close>

lemma world_size_sub_pool [simp]: "world_size (sub_pool p s i k) = k"
  by (simp add: sub_pool_def post_init_def world_size_def)

lemma split_list_sum:
  "0 \<le> world_size p \<Longrightarrow> split_list_of sz p = Inr ks \<Longrightarrow> sum_list ks = world_size p \<and> (\<forall>k \<in> set ks. 0 < k)"
  by (auto simp: split_list_of_def sum_list_replicate list_ex_iff pos_imp_zdiv_nonneg_iff not_less
      split: split_size.splits if_splits)

lemma sub_pools_world_sizes:
  "map world_size (map (\<lambda>(i, k). sub_pool p s i k) (zip [0..<length ks] ks)) = ks"
  by (rule nth_equalityI) (simp_all add: case_prod_beta)

text \<open>splitting a pool conserves its workers: the sub-pools are non-empty, their world sizes
  add up to the pool's, their names are distinct, and a split by a number gives equal parts.\<close>

theorem split_pool_conserves:
  assumes "0 \<le> world_size p" "split_pool sz suffix p = Inr qs"
  shows "sum_list (map world_size qs) = world_size p
     \<and> list_all (\<lambda>q. 0 < world_size q \<and> num_gpus q = world_size q) qs
     \<and> distinct (map pool_name qs)
     \<and> (case sz of SplitInt k \<Rightarrow> list_all (\<lambda>q. world_size q = k) qs | SplitList ks \<Rightarrow> map world_size qs = ks)"
proof -
  from assms(2) obtain ks where ks: "split_list_of sz p = Inr ks"
    and qs: "qs = map (\<lambda>(i, k). sub_pool p suffix i k) (zip [0..<length ks] ks)"
    by (auto simp: split_pool_def)
  have sizes: "map world_size qs = ks" unfolding qs by (rule sub_pools_world_sizes)
  have gpus: "num_gpus q = world_size q" if "q \<in> set qs" for q
    using that by (auto simp: qs sub_pool_def post_init_def world_size_def)
  have "map pool_name qs = map (sub_pool_name p suffix) [0..<length ks]"
    by (rule nth_equalityI) (simp_all add: qs case_prod_beta sub_pool_def post_init_def)
  then have "distinct (map pool_name qs)"
    by (simp add: distinct_map inj_on_def sub_pool_name_def)
  moreover have "list_all (\<lambda>q. 0 < world_size q \<and> num_gpus q = world_size q) qs"
    using split_list_sum [OF assms(1) ks] gpus sizes by (auto simp: list_all_iff)
  moreover have "case sz of SplitInt k \<Rightarrow> list_all (\<lambda>q. world_size q = k) qs | SplitList ks \<Rightarrow> map world_size qs = ks"
  proof (cases sz)
    case (SplitInt k)
    then have "\<forall>k' \<in> set (map world_size qs). k' = k"
      using ks unfolding sizes by (auto simp: split_list_of_def split: if_splits)
    with SplitInt show ?thesis by (simp add: list_all_iff)
  next
    case (SplitList js)
    then show ?thesis using ks sizes by (auto simp: split_list_of_def split: if_splits)
  qed
  ultimately show ?thesis using split_list_sum [OF assms(1) ks] sizes by simp
qed

definition sample_pool :: pool where
  "sample_pool =
     \<lparr>pool_name = ''actor'', num_gpus = 8, num_cpus = 8, node_indices = [], colocate_with = None,
      process_on_nodes = [4, 4], max_colocate_count = 1, pool_detached = False, topology_tags = [],
      use_placement_groups = True\<rparr>"

theorem split_pool_conserves_witness:
  "\<exists>qs. split_pool (SplitInt 2) None sample_pool = Inr qs
     \<and> sum_list (map world_size qs) = 8 \<and> distinct (map pool_name qs)"
proof -
  have "\<exists>qs. split_pool (SplitInt 2) None sample_pool = Inr qs"
    by (simp add: split_pool_def split_list_of_def world_size_def sample_pool_def)
  moreover have "world_size sample_pool = 8" by (simp add: world_size_def sample_pool_def)
  ultimately show ?thesis using split_pool_conserves [of sample_pool "SplitInt 2" None] by fastforce
qed

text \<open>topology resolution after creating pools. Every role whose pool was created resolves to
  the last pool created under that name; one unknown name fails the whole mapping with KeyError.\<close>

theorem map_topology_after_creation:
  assumes "set (map snd mapping) \<subseteq> fst ` set kps"
  shows "map_topology mapping (fold (\<lambda>(n, p). put_pool n p) kps c)
      = Inr (map (\<lambda>(role, n). (role, the (map_of (rev kps) n))) mapping)
    \<and> (n \<notin> fst ` set kps \<union> set (dict_keys (cl_pools c)) \<longrightarrow>
        map_topology ((r, n) # mapping) (fold (\<lambda>(n, p). put_pool n p) kps c) = Inl KeyError)"
proof -
  let ?c = "fold (\<lambda>(n, p). put_pool n p) kps c"
  have get: "get_pool ?c n = (case map_of (rev kps) n of None \<Rightarrow> get_pool c n | Some p \<Rightarrow> Inr p)" for n
    by (rule pools.put_all)
  have "bind_result (get_pool ?c n) (\<lambda>p. Inr (role, p)) = Inr (role, the (map_of (rev kps) n))"
    if "(role, n) \<in> set mapping" for role n
  proof -
    have "n \<in> fst ` set (rev kps)" using that assms by force
    then obtain p where "map_of (rev kps) n = Some p" by (metis map_of_eq_None_iff not_None_eq)
    then show ?thesis by (simp add: get)
  qed
  then have "map_topology mapping ?c = Inr (map (\<lambda>(role, n). (role, the (map_of (rev kps) n))) mapping)"
    unfolding map_topology_def by (intro map_result_total) auto
  moreover have "get_pool ?c n = Inl KeyError" if "n \<notin> fst ` set kps \<union> set (dict_keys (cl_pools c))"
  proof -
    have "map_of (rev kps) n = None" "map_of (cl_pools c) n = None"
      using that by (simp_all add: map_of_eq_None_iff)
    then show ?thesis unfolding get by (simp add: get_pool_def)
  qed
  ultimately show ?thesis by (simp add: map_topology_def)
qed

theorem map_topology_after_creation_witness:
  "map_topology [(''actor'', ''train''), (''ref'', ''train'')]
      (fold (\<lambda>(n, p). put_pool n p) [(''train'', sample_pool)] (new_cluster \<lparr>ray_address = None, num_nodes = 1, gpus_per_node = 8\<rparr>))
    = Inr [(''actor'', sample_pool), (''ref'', sample_pool)]"
  using map_topology_after_creation [of "[(''actor'', ''train''), (''ref'', ''train'')]" "[(''train'', sample_pool)]"
      "new_cluster \<lparr>ray_address = None, num_nodes = 1, gpus_per_node = 8\<rparr>" "''other''" "''critic''"]
  by simp

end
