(* ===== verification/Worker_Group.thy ===== *)
theory Worker_Group
  imports Complex_Main Dispatch Ray_Cluster Registry_Assembly
begin

text \<open>
  \<open>lumenrl/controller/ray_worker_group.py\<close>: the group of Ray actors of one role. Groups and
  the lists of actor handles are Python objects that several groups share (a spawned view
  aliases the list of its parent), so they live in an explicit heap: a group refers to its
  actor list by address. Ray is a parameter where its answer matters: the actor found under a
  name, the result of a remote call, the readiness of an actor. GPU fractions are rationals.
\<close>

section \<open>State\<close>

record actor =
  actor_name :: "string option"         \<comment> \<open>the Ray name of a detached actor\<close>
  actor_rank :: nat
  actor_world :: int
  actor_slot :: "(nat \<times> nat) option"    \<comment> \<open>placement group and bundle index\<close>
  actor_gpus :: rat

record group =
  g_class :: component
  g_pool :: pool
  g_num_workers :: int
  g_mode :: dispatch_mode
  g_detached :: bool
  g_prefix :: string
  g_actors :: nat                       \<comment> \<open>address of the actor list\<close>
  g_names :: "string list"
  g_lazy :: lazy_state
  g_spawned :: "(string, nat) dict"     \<comment> \<open>prefix to address of the view\<close>
  g_dp_ranks :: "int list option"
  g_mask :: "bool list option"

record pgroup =
  pg_name :: string
  pg_pin :: "string option"             \<comment> \<open>the node resource each bundle asks for\<close>
  pg_bundles :: nat

record heap =
  h_lists :: "actor list list"
  h_groups :: "group list"
  h_pgs :: "pgroup list"                \<comment> \<open>placement groups created, newest last\<close>
  h_killed :: "actor list"

definition empty_heap :: heap where
  "empty_heap = \<lparr>h_lists = [], h_groups = [], h_pgs = [], h_killed = []\<rparr>"

definition group_at :: "heap \<Rightarrow> nat \<Rightarrow> group" where
  "group_at h g = h_groups h ! g"

definition actors_of :: "heap \<Rightarrow> nat \<Rightarrow> actor list" where
  \<comment> \<open>the \<open>actors\<close> property: the list \<open>self._actors\<close> refers to\<close>
  "actors_of h g = h_lists h ! g_actors (group_at h g)"

definition put_group :: "nat \<Rightarrow> group \<Rightarrow> heap \<Rightarrow> heap" where
  "put_group g gr h = h\<lparr>h_groups := (h_groups h)[g := gr]\<rparr>"

definition put_list :: "nat \<Rightarrow> actor list \<Rightarrow> heap \<Rightarrow> heap" where
  "put_list a xs h = h\<lparr>h_lists := (h_lists h)[a := xs]\<rparr>"

fun component_name :: "component \<Rightarrow> string" where
  "component_name LumenActorWorker = ''LumenActorWorker''"
| "component_name CriticWorker = ''CriticWorker''"
| "component_name RefPolicyWorker = ''RefPolicyWorker''"
| "component_name RewardWorker = ''RewardWorker''"
| "component_name AtomRolloutWorker = ''AtomRolloutWorker''"
| "component_name TeacherWorker = ''TeacherWorker''"
| "component_name FSDP2Backend = ''FSDP2Backend''"
| "component_name AtomEngine = ''AtomEngine''"
| "component_name RLTrainer = ''RLTrainer''"
| "component_name AsyncRLTrainer = ''AsyncRLTrainer''"
| "component_name OPDTrainer = ''OPDTrainer''"
| "component_name SpecDistillTrainer = ''SpecDistillTrainer''"
| "component_name (UserComponent s) = s"

fun enum_mode :: "mode_arg \<Rightarrow> dispatch_mode result" where
  \<comment> \<open>\<open>DispatchMode(x)\<close>: no default for None and no alias\<close>
  "enum_mode NoMode = Inl ValueError"
| "enum_mode (Mode m) = Inr m"
| "enum_mode (ModeName s) = mode_of_name s"

section \<open>Construction\<close>

definition new_group ::
  "component \<Rightarrow> pool \<Rightarrow> int \<Rightarrow> mode_arg \<Rightarrow> bool option \<Rightarrow> string list option \<Rightarrow> string \<Rightarrow> heap \<Rightarrow>
   (nat \<times> heap) result" where
  \<comment> \<open>\<open>__init__\<close> with the class already resolved: a fresh group with a fresh, empty actor list\<close>
  "new_group cls p num_workers mode det names pre h =
     bind_result (enum_mode mode) (\<lambda>m. Inr (length (h_groups h),
       h\<lparr>h_lists := h_lists h @ [[]],
         h_groups := h_groups h @
           [\<lparr>g_class = cls, g_pool = p,
             g_num_workers = (if num_workers > 0 then num_workers else world_size p),
             g_mode = m, g_detached = (case det of None \<Rightarrow> pool_detached p | Some d \<Rightarrow> d),
             g_prefix = pre, g_actors = length (h_lists h),
             g_names = (case names of None \<Rightarrow> [] | Some ns \<Rightarrow> ns),
             g_lazy = [], g_spawned = [], g_dp_ranks = None, g_mask = None\<rparr>]\<rparr>))"

definition new_group_for_role ::
  "string \<Rightarrow> pool \<Rightarrow> int \<Rightarrow> mode_arg \<Rightarrow> bool option \<Rightarrow> string list option \<Rightarrow> string \<Rightarrow> registries \<Rightarrow> heap \<Rightarrow>
   (nat \<times> heap) result \<times> registries" where
  \<comment> \<open>\<open>__init__\<close> with a role key: the class comes from the registry\<close>
  "new_group_for_role role p num_workers mode det names pre rs h =
     (let (cls, rs') = resolve_worker_class role rs
      in (bind_result cls (\<lambda>c. new_group c p num_workers mode det names pre h), rs'))"

section \<open>Starting and stopping\<close>

definition gpus_per_worker :: "pool \<Rightarrow> int \<Rightarrow> rat" where
  "gpus_per_worker p n =
     (if num_gpus p \<le> 0 then 0
      else let base = of_int (num_gpus p) / of_int (max 1 n)
           in min 1 (max base (1 / of_int (max 1 (max_colocate_count p)))))"

definition worker_name :: "group \<Rightarrow> nat \<Rightarrow> string" where
  "worker_name gr r = pool_name (g_pool gr) @ '':'' @ component_name (g_class gr) @ '':'' @ show_nat r"

definition make_actor :: "group \<Rightarrow> rat \<Rightarrow> nat \<times> (nat \<times> nat) option \<Rightarrow> actor" where
  "make_actor gr gpus = (\<lambda>(r, slot).
     \<lparr>actor_name = (if g_detached gr then Some (worker_name gr r) else None), actor_rank = r,
      actor_world = g_num_workers gr, actor_slot = slot, actor_gpus = gpus\<rparr>)"

definition append_actors :: "nat \<Rightarrow> actor list \<Rightarrow> heap \<Rightarrow> heap" where
  \<comment> \<open>append to the shared list, and the names of detached actors to \<open>self._worker_names\<close>\<close>
  "append_actors g as h =
     (let gr = group_at h g
      in put_group g
           (if g_detached gr then gr\<lparr>g_names := g_names gr @ map (\<lambda>a. the (actor_name a)) as\<rparr> else gr)
           (put_list (g_actors gr) (actors_of h g @ as) h))"

definition start_simple :: "rat \<Rightarrow> nat \<Rightarrow> heap \<Rightarrow> heap" where
  "start_simple gpus g h =
     (let gr = group_at h g
      in append_actors g (map (\<lambda>r. make_actor gr gpus (r, None)) [0..<nat (g_num_workers gr)]) h)"

definition placement_node_ips :: "(string, string) dict \<Rightarrow> nat \<Rightarrow> string list result" where
  "placement_node_ips tags group_count =
     (let node_ip = py_strip (dict_get_default tags ''node_ip'' []);
          raw = py_strip (dict_get_default tags ''node_ips'' [])
      in if node_ip \<noteq> [] \<and> raw \<noteq> [] then Inl ValueError
         else if raw \<noteq> [] then
           (let ips = filter (\<lambda>v. v \<noteq> []) (map py_strip (split_on (CHR '','') raw))
            in if length ips \<noteq> group_count then Inl ValueError else Inr ips)
         else Inr (replicate group_count node_ip))"

fun make_pgs :: "string \<Rightarrow> string list \<Rightarrow> nat \<Rightarrow> int list \<Rightarrow> pgroup list result" where
  \<comment> \<open>the loop over \<open>enumerate(process_on_nodes)\<close> with its \<open>placement_idx\<close>\<close>
  "make_pgs nm pins node_idx [] = Inr []"
| "make_pgs nm pins node_idx (c # cs) =
     (if c \<le> 0 then make_pgs nm pins (Suc node_idx) cs
      else (case pins of
         [] \<Rightarrow> Inl IndexError
       | ip # pins' \<Rightarrow>
           bind_result (make_pgs nm pins' (Suc node_idx) cs) (\<lambda>pgs.
             Inr (\<lparr>pg_name = nm @ ''_pg_'' @ show_nat node_idx,
                   pg_pin = (if ip = [] then None else Some (''node:'' @ ip)),
                   pg_bundles = nat c\<rparr> # pgs))))"

definition pg_slots :: "nat list \<Rightarrow> (nat \<times> nat) list" where
  \<comment> \<open>placement group and local rank, in the order the two nested loops visit them\<close>
  "pg_slots counts = concat (map (\<lambda>(j, c). map (\<lambda>l. (j, l)) [0..<c]) (zip [0..<length counts] counts))"

definition start_with_placement_groups :: "rat \<Rightarrow> nat \<Rightarrow> heap \<Rightarrow> heap result" where
  "start_with_placement_groups gpus g h =
     (let gr = group_at h g; p = g_pool gr
      in bind_result (placement_node_ips (topology_tags p) (length (filter (\<lambda>c. c > 0) (process_on_nodes p)))) (\<lambda>pins.
         bind_result (make_pgs (pool_name p) pins 0 (process_on_nodes p)) (\<lambda>pgs.
           let slots = pg_slots (map pg_bundles pgs)
           in Inr (append_actors g
                (map (\<lambda>(r, s). make_actor gr gpus (r, Some s)) (zip [0..<length slots] slots))
                (h\<lparr>h_pgs := h_pgs h @ pgs\<rparr>)))))"

definition start :: "(string \<Rightarrow> actor result) \<Rightarrow> nat \<Rightarrow> heap \<Rightarrow> heap result" where
  \<comment> \<open>\<open>get_actor\<close> stands for \<open>ray.get_actor\<close>; reattaching binds a new list, so views that alias
      the old one do not see it\<close>
  "start get_actor g h =
     (let gr = group_at h g
      in if actors_of h g \<noteq> [] then Inr h
         else if g_detached gr \<and> g_names gr \<noteq> [] then
           bind_result (map_result get_actor (g_names gr)) (\<lambda>as.
             Inr (put_group g (gr\<lparr>g_actors := length (h_lists h)\<rparr>) (h\<lparr>h_lists := h_lists h @ [as]\<rparr>)))
         else let gpus = gpus_per_worker (g_pool gr) (g_num_workers gr)
              in if use_placement_groups (g_pool gr) then start_with_placement_groups gpus g h
                 else Inr (start_simple gpus g h))"

definition stop :: "nat \<Rightarrow> heap \<Rightarrow> heap" where
  "stop g h =
     (let gr = group_at h g;
          h' = (if g_detached gr then h else h\<lparr>h_killed := h_killed h @ actors_of h g\<rparr>)
      in put_list (g_actors gr) [] h')"

definition is_alive :: "(actor \<Rightarrow> bool) \<Rightarrow> nat \<Rightarrow> heap \<Rightarrow> bool" where
  \<comment> \<open>\<open>ready a\<close>: actor \<open>a\<close> answers within the two seconds of \<open>ray.wait\<close>\<close>
  "is_alive ready g h = (actors_of h g \<noteq> [] \<and> list_all ready (actors_of h g))"

section \<open>Remote calls\<close>

definition execute_all_sync :: "(actor \<Rightarrow> string \<Rightarrow> 'v result) \<Rightarrow> nat \<Rightarrow> string \<Rightarrow> heap \<Rightarrow> 'v list result" where
  \<comment> \<open>\<open>call a m\<close>: the result of method \<open>m\<close> of actor \<open>a\<close>; \<open>ray.get\<close> raises the first failure\<close>
  "execute_all_sync call g method h =
     (let target = prefixed_method (g_prefix (group_at h g)) method
      in map_result (\<lambda>a. call a target) (actors_of h g))"

definition call_single :: "(actor \<Rightarrow> string \<Rightarrow> 'v result) \<Rightarrow> nat \<Rightarrow> int \<Rightarrow> string \<Rightarrow> heap \<Rightarrow> 'v result" where
  "call_single call g idx method h =
     bind_result (py_index (actors_of h g) idx) (\<lambda>a.
       call a (prefixed_method (g_prefix (group_at h g)) method))"

definition execute_rank_zero_sync :: "(actor \<Rightarrow> string \<Rightarrow> 'v result) \<Rightarrow> nat \<Rightarrow> string \<Rightarrow> heap \<Rightarrow> 'v result" where
  "execute_rank_zero_sync call g method h = call_single call g 0 method h"

definition call_with_timeout ::
  "(actor \<Rightarrow> string \<Rightarrow> 'v result) \<Rightarrow> (actor \<Rightarrow> string \<Rightarrow> bool) \<Rightarrow> nat \<Rightarrow> int \<Rightarrow> string \<Rightarrow> heap \<Rightarrow> 'v result" where
  \<comment> \<open>\<open>in_time a m\<close>: the call of \<open>m\<close> on \<open>a\<close> is ready before the timeout\<close>
  "call_with_timeout call in_time g idx method h =
     bind_result (py_index (actors_of h g) idx) (\<lambda>a.
       let target = prefixed_method (g_prefix (group_at h g)) method
       in if in_time a target then call a target else Inl TimeoutError)"

definition setup_dispatch_collect_info ::
  "(actor \<Rightarrow> string \<Rightarrow> int result) \<Rightarrow> (actor \<Rightarrow> string \<Rightarrow> bool result) \<Rightarrow> nat \<Rightarrow> heap \<Rightarrow> heap result" where
  "setup_dispatch_collect_info rank_call mask_call g h =
     bind_result (execute_all_sync rank_call g ''get_dp_rank'' h) (\<lambda>rs.
     bind_result (execute_all_sync mask_call g ''get_is_collect'' h) (\<lambda>ms.
       Inr (put_group g ((group_at h g)\<lparr>g_dp_ranks := Some rs, g_mask := Some ms\<rparr>) h)))"

definition call_workers ::
  "(actor \<Rightarrow> string \<Rightarrow> 'p \<Rightarrow> 'v result) \<Rightarrow> actor list \<Rightarrow> string \<Rightarrow> nat \<Rightarrow> 'p list \<Rightarrow> 'v list result" where
  \<comment> \<open>\<open>ray.get([actors[i].m.remote(chunks[i]) for i in range(n)])\<close>\<close>
  "call_workers remote as m n chunks =
     bind_result (map_result (\<lambda>i. bind_result (py_index as (int i)) (\<lambda>a.
        bind_result (py_index chunks (int i)) (\<lambda>c. Inr (a, c)))) [0..<n]) (\<lambda>calls.
     map_result (\<lambda>(a, c). remote a m c) calls)"

definition plain_dispatch_and_call ::
  "(string list \<Rightarrow> string list) \<Rightarrow>
   (actor \<Rightarrow> string \<Rightarrow> ('e, 'r, 'm) data_proto \<Rightarrow> ('e, 'r, 'm) data_proto obj result) \<Rightarrow>
   nat \<Rightarrow> string \<Rightarrow> ('e::zero, 'r, 'm) data_proto \<Rightarrow> dispatch_mode \<Rightarrow> int list option \<Rightarrow> string option \<Rightarrow>
   heap \<Rightarrow> ('e, 'r, 'm) data_proto result \<times> heap" where
  \<comment> \<open>the second half of \<open>dispatch_and_call\<close>, after the automatic routing; \<open>target\<close> is the
      prefixed method name. The group keeps the mapping cache the dispatch returns.\<close>
  "plain_dispatch_and_call set_iter remote g target data m mesh_mapping lazy_key h =
     (let gr = group_at h g; as = actors_of h g; n = g_num_workers gr;
          (res, lazy') = dispatch_proto data n (Mode m) mesh_mapping (Some (g_lazy gr)) lazy_key;
          h' = put_group g (gr\<lparr>g_lazy := (case lazy' of None \<Rightarrow> [] | Some l \<Rightarrow> l)\<rparr>) h
      in (bind_result res (\<lambda>chunks.
            if chunks = [] then Inr (meta_only [])
            else bind_result
              (if length chunks = 1 then call_workers remote as target 1 chunks
               else if int (length chunks) = n then call_workers remote as target (nat n) chunks
               else Inl ValueError)
              (\<lambda>results. collect_proto set_iter results (Mode m) False)), h'))"

definition dispatch_and_call ::
  "(string list \<Rightarrow> string list) \<Rightarrow>
   (actor \<Rightarrow> string \<Rightarrow> ('e, 'r, 'm) data_proto \<Rightarrow> ('e, 'r, 'm) data_proto obj result) \<Rightarrow>
   nat \<Rightarrow> string \<Rightarrow> ('e::zero, 'r, 'm) data_proto \<Rightarrow> mode_arg \<Rightarrow> int list option \<Rightarrow> string option \<Rightarrow> heap \<Rightarrow>
   ('e, 'r, 'm) data_proto result \<times> heap" where
  "dispatch_and_call set_iter remote g method data mode mesh_mapping lazy_key h =
     (let gr = group_at h g; as = actors_of h g; n = g_num_workers gr;
          target = prefixed_method (g_prefix gr) method
      in case (if mode = NoMode then Inr (g_mode gr) else enum_mode mode) of
        Inl e \<Rightarrow> (Inl e, h)
      | Inr m \<Rightarrow>
          (case (mesh_mapping, g_dp_ranks gr) of
            (None, Some ranks) \<Rightarrow>
              if m = DP_COMPUTE_PROTO \<or> m = DP_COMPUTE then
                (let unique_chunks = split (int (card (set ranks))) data
                 in (bind_result (map_result (\<lambda>i. bind_result (py_index ranks (int i)) (py_index unique_chunks))
                        [0..<nat n]) (\<lambda>chunks.
                     bind_result (call_workers remote as target (nat n) chunks) (\<lambda>results.
                       case g_mask gr of
                         Some keep \<Rightarrow> collect_with_mask set_iter (map snd results) keep
                       | None \<Rightarrow> merge set_iter (map snd results))), h))
              else plain_dispatch_and_call set_iter remote g target data m mesh_mapping lazy_key h
          | _ \<Rightarrow> plain_dispatch_and_call set_iter remote g target data m mesh_mapping lazy_key h))"

section \<open>Views and reattachment\<close>

definition spawn_one :: "nat \<Rightarrow> string \<Rightarrow> heap \<Rightarrow> (nat \<times> heap) result" where
  \<comment> \<open>the body of the loop of \<open>spawn\<close>: the existing view of the prefix, or a new one that
      shares the parent's actor list\<close>
  "spawn_one g pre h =
     (let gr = group_at h g
      in case map_of (g_spawned gr) pre of
           Some c \<Rightarrow> Inr (c, h)
         | None \<Rightarrow>
             bind_result (new_group (g_class gr) (g_pool gr) (g_num_workers gr) (Mode (g_mode gr))
                (Some (g_detached gr)) (Some (g_names gr)) pre h) (\<lambda>(c, h1).
               let h2 = put_group c ((group_at h1 c)\<lparr>g_actors := g_actors gr\<rparr>) h1
               in Inr (c, put_group g ((group_at h2 g)\<lparr>g_spawned := dict_set pre c (g_spawned gr)\<rparr>) h2)))"

fun spawn_loop :: "nat \<Rightarrow> string list \<Rightarrow> (string, nat) dict \<Rightarrow> heap \<Rightarrow> ((string, nat) dict \<times> heap) result" where
  "spawn_loop g [] acc h = Inr (acc, h)"
| "spawn_loop g (pre # pres) acc h =
     bind_result (spawn_one g pre h) (\<lambda>(c, h'). spawn_loop g pres (dict_set pre c acc) h')"

definition spawn :: "nat \<Rightarrow> string list \<Rightarrow> heap \<Rightarrow> ((string, nat) dict \<times> heap) result" where
  "spawn g prefixes h = spawn_loop g prefixes [] h"

definition fuse :: "nat \<Rightarrow> string \<Rightarrow> heap \<Rightarrow> (nat \<times> heap) result" where
  "fuse g pre h =
     bind_result (spawn g [pre] h) (\<lambda>(d, h'). bind_result (dict_get d pre) (\<lambda>c. Inr (c, h')))"

definition from_detached ::
  "(string \<Rightarrow> actor result) \<Rightarrow> component \<Rightarrow> pool \<Rightarrow> string list \<Rightarrow> mode_arg \<Rightarrow> heap \<Rightarrow> (nat \<times> heap) result" where
  "from_detached get_actor cls p names mode h =
     bind_result (new_group cls p (int (length names)) mode (Some True) (Some names) [] h) (\<lambda>(g, h').
       bind_result (start get_actor g h') (\<lambda>h''. Inr (g, h'')))"

end
