(* ===== verification/Worker_Group_Props.thy ===== *)
theory Worker_Group_Props
  imports Worker_Group
begin

text \<open>
  Properties of the Ray worker group: rank placement on nodes, the automatic data-parallel
  routing of \<open>dispatch_and_call\<close>, and the sharing of actor handles between a group and its
  spawned views as an invariant of the reachable heaps.
\<close>

section \<open>Placement\<close>

lemma length_pg_slots: "length (pg_slots counts) = sum_list counts"
proof -
  have "map (\<lambda>(j, c). length (map (\<lambda>l. (j, l)) [0..<c])) (zip [0..<length counts] counts) = counts"
    by (rule nth_equalityI) simp_all
  then show ?thesis by (simp add: pg_slots_def length_concat comp_def case_prod_beta)
qed

lemma pg_slots_snoc: "pg_slots (counts @ [c]) = pg_slots counts @ map (\<lambda>l. (length counts, l)) [0..<c]"
  by (simp add: pg_slots_def)

lemma pg_slots_same_node:
  assumes "\<And>c. c \<in> set counts \<Longrightarrow> tp dvd c" "k < tp" "i * tp + k < sum_list counts"
  shows "fst (pg_slots counts ! (i * tp + k)) = fst (pg_slots counts ! (i * tp))"
  using assms
proof (induction counts rule: rev_induct)
  case Nil
  then show ?case by simp
next
  case (snoc c counts)
  let ?n = "sum_list counts"
  have len: "length (pg_slots counts) = ?n" by (rule length_pg_slots)
  have "tp dvd ?n" using snoc.prems(1) by (induction counts) auto
  then obtain m where m: "?n = m * tp" by (metis dvdE mult.commute)
  show ?case
  proof (cases "i < m")
    case True
    then have "Suc i * tp \<le> m * tp" by (metis Suc_leI mult_le_mono1)
    then have "i * tp + k < ?n" using snoc.prems(2) m by simp
    then show ?thesis using snoc len by (simp add: pg_slots_snoc nth_append)
  next
    case False
    then have "?n \<le> i * tp" using m by simp
    then show ?thesis using snoc.prems(3) len by (auto simp: pg_slots_snoc nth_append)
  qed
qed

lemma make_pgs_counts:
  "make_pgs nm pins i cs = Inr pgs \<Longrightarrow> map pg_bundles pgs = map nat (filter (\<lambda>c. 0 < c) cs)"
  by (induction nm pins i cs arbitrary: pgs rule: make_pgs.induct) (auto split: if_splits list.splits)

lemma make_pgs_total:
  "length (filter (\<lambda>c. 0 < c) cs) \<le> length pins \<Longrightarrow> \<exists>pgs. make_pgs nm pins i cs = Inr pgs"
proof (induction nm pins i cs rule: make_pgs.induct)
  case (1 nm pins i)
  show ?case by simp
next
  case (2 nm pins i c cs)
  show ?case
  proof (cases "c \<le> 0")
    case True
    then show ?thesis using 2 by simp
  next
    case False
    then obtain ip pins' where "pins = ip # pins'" using "2.prems" by (cases pins) auto
    then show ?thesis using 2 False by auto
  qed
qed

lemma placement_node_ips_length: "placement_node_ips tags n = Inr ips \<Longrightarrow> length ips = n"
  by (auto simp: placement_node_ips_def Let_def split: if_splits)

definition valid_group :: "heap \<Rightarrow> nat \<Rightarrow> bool" where
  "valid_group h g = (g < length (h_groups h) \<and> g_actors (group_at h g) < length (h_lists h))"

lemma put_simps [simp]:
  "h_lists (put_group g gr h) = h_lists h"
  "h_groups (put_list a xs h) = h_groups h"
  "length (h_groups (put_group g gr h)) = length (h_groups h)"
  "length (h_lists (put_list a xs h)) = length (h_lists h)"
  "group_at (put_list a xs h) c = group_at h c"
  "g < length (h_groups h) \<Longrightarrow> group_at (put_group g gr h) c = (if c = g then gr else group_at h c)"
  "a < length (h_lists h) \<Longrightarrow> h_lists (put_list a xs h) ! b = (if b = a then xs else h_lists h ! b)"
  by (simp_all add: put_group_def put_list_def group_at_def)

lemma actors_of_append:
  assumes "valid_group h g"
  shows "actors_of (append_actors g as h) g = actors_of h g @ as"
  using assms by (simp add: append_actors_def Let_def actors_of_def valid_group_def)

text \<open>starting on placement groups places the ranks deterministically, and a layout whose
  node counts are multiples of \<open>tp\<close> puts every block of ranks \<open>i*tp .. i*tp+tp-1\<close> on one node, as
  the replica manager requires; it can only fail on contradictory node pins.\<close>

theorem placement_keeps_replicas_together:
  assumes "valid_group h g" "actors_of h g = []" "0 < tp"
    and "list_all (\<lambda>c. 0 < c \<longrightarrow> tp dvd nat c) (process_on_nodes (g_pool (group_at h g)))"
    and "placement_node_ips (topology_tags (g_pool (group_at h g)))
      (length (filter (\<lambda>c. c > 0) (process_on_nodes (g_pool (group_at h g))))) = Inr pins"
  shows "\<exists>h'. start_with_placement_groups gpus g h = Inr h'
    \<and> map actor_rank (actors_of h' g)
        = [0..<sum_list (map nat (filter (\<lambda>c. 0 < c) (process_on_nodes (g_pool (group_at h g)))))]
    \<and> (\<forall>i k. k < tp \<and> i * tp + k < length (actors_of h' g) \<longrightarrow>
         map_option fst (actor_slot (actors_of h' g ! (i * tp + k)))
           = map_option fst (actor_slot (actors_of h' g ! (i * tp))))"
proof -
  let ?gr = "group_at h g"
  let ?cs = "process_on_nodes (g_pool ?gr)"
  let ?counts = "map nat (filter (\<lambda>c. 0 < c) ?cs)"
  let ?slots = "pg_slots ?counts"
  let ?as = "map (\<lambda>(r, s). make_actor ?gr gpus (r, Some s)) (zip [0..<length ?slots] ?slots)"
  obtain pgs where pgs: "make_pgs (pool_name (g_pool ?gr)) pins 0 ?cs = Inr pgs"
    using make_pgs_total placement_node_ips_length [OF assms(5)] by (metis order_refl)
  let ?h = "h\<lparr>h_pgs := h_pgs h @ pgs\<rparr>"
  have st: "start_with_placement_groups gpus g h = Inr (append_actors g ?as ?h)"
    using assms(5) pgs make_pgs_counts [OF pgs] by (simp add: start_with_placement_groups_def Let_def)
  have "valid_group ?h g" "actors_of ?h g = []"
    using assms(1,2) by (simp_all add: valid_group_def actors_of_def group_at_def)
  then have as: "actors_of (append_actors g ?as ?h) g = ?as" by (simp add: actors_of_append)
  have ranks: "map actor_rank ?as = [0..<sum_list ?counts]"
    by (rule nth_equalityI) (simp_all add: length_pg_slots make_actor_def)
  have dvd: "\<And>c. c \<in> set ?counts \<Longrightarrow> tp dvd c" using assms(4) by (auto simp: list_all_iff)
  have "map_option fst (actor_slot (?as ! (i * tp + k))) = map_option fst (actor_slot (?as ! (i * tp)))"
    if "k < tp" "i * tp + k < length ?as" for i k
  proof -
    have "fst (?slots ! (i * tp + k)) = fst (?slots ! (i * tp))"
      by (rule pg_slots_same_node) (use dvd that in \<open>simp_all add: length_pg_slots\<close>)
    then show ?thesis using that by (simp add: make_actor_def length_pg_slots)
  qed
  then have same: "\<forall>i k. k < tp \<and> i * tp + k < length ?as \<longrightarrow>
      map_option fst (actor_slot (?as ! (i * tp + k))) = map_option fst (actor_slot (?as ! (i * tp)))"
    by (intro allI impI) (elim conjE)
  show ?thesis
    by (intro exI [of _ "append_actors g ?as ?h"] conjI st)
      (unfold as, rule ranks, rule same)
qed

definition one_group :: "bool \<Rightarrow> heap" where
  "one_group det = empty_heap\<lparr>h_lists := [[]], h_groups :=
     [\<lparr>g_class = LumenActorWorker, g_pool = sample_pool, g_num_workers = 8, g_mode = DP_COMPUTE_PROTO,
       g_detached = det, g_prefix = [], g_actors = 0, g_names = [], g_lazy = [], g_spawned = [],
       g_dp_ranks = None, g_mask = None\<rparr>]\<rparr>"

lemma one_group_simps [simp]:
  "group_at (one_group det) 0 = \<lparr>g_class = LumenActorWorker, g_pool = sample_pool, g_num_workers = 8,
     g_mode = DP_COMPUTE_PROTO, g_detached = det, g_prefix = [], g_actors = 0, g_names = [], g_lazy = [],
     g_spawned = [], g_dp_ranks = None, g_mask = None\<rparr>"
  "actors_of (one_group det) 0 = []" "valid_group (one_group det) 0"
  by (simp_all add: one_group_def group_at_def actors_of_def valid_group_def)

theorem placement_keeps_replicas_together_witness:
  "\<exists>h'. start_with_placement_groups 1 0 (one_group False) = Inr h'
     \<and> map actor_rank (actors_of h' 0) = [0..<8]
     \<and> map_option fst (actor_slot (actors_of h' 0 ! 3)) = map_option fst (actor_slot (actors_of h' 0 ! 2))"
proof -
  have "placement_node_ips (topology_tags sample_pool) (length (filter (\<lambda>c. c > 0) (process_on_nodes sample_pool)))
      = Inr [[], []]"
    by (simp add: sample_pool_def placement_node_ips_def dict_get_default_def py_strip_def numeral_2_eq_2)
  moreover have "list_all (\<lambda>c. 0 < c \<longrightarrow> 2 dvd nat c) (process_on_nodes sample_pool)"
    by (simp add: sample_pool_def)
  moreover have "sum_list (map nat (filter (\<lambda>c. 0 < c) (process_on_nodes sample_pool))) = 8"
    by (simp add: sample_pool_def)
  ultimately obtain h' where h': "start_with_placement_groups 1 0 (one_group False) = Inr h'"
    "map actor_rank (actors_of h' 0) = [0..<8]"
    "\<forall>i k. k < 2 \<and> i * 2 + k < length (actors_of h' 0) \<longrightarrow>
         map_option fst (actor_slot (actors_of h' 0 ! (i * 2 + k)))
           = map_option fst (actor_slot (actors_of h' 0 ! (i * 2)))"
    using placement_keeps_replicas_together [of "one_group False" 0 2 "[[], []]" 1] by auto
  have "length (actors_of h' 0) = 8" using h'(2) by (metis length_map length_upt diff_zero)
  then show ?thesis using h'(1,2) h'(3) [rule_format, of 1 1] by auto
qed

section \<open>Automatic routing\<close>

definition tp_pair :: heap where
  \<comment> \<open>a group of two tensor-parallel peers that know they are one data-parallel rank\<close>
  "tp_pair = (let a = make_actor (group_at (one_group False) 0) 1
     in empty_heap\<lparr>h_lists := [[a (0, None), a (1, None)]], h_groups :=
          [(group_at (one_group False) 0)\<lparr>g_num_workers := 2, g_dp_ranks := Some [0, 0],
             g_mask := Some [True, False]\<rparr>]\<rparr>)"

lemma one_group_group [simp]: "h_groups (one_group det) ! 0 = group_at (one_group det) 0"
  by (simp add: group_at_def)

lemma tp_pair_simps:
  "g_dp_ranks (group_at tp_pair 0) = Some [0, 0]" "g_mask (group_at tp_pair 0) = Some [True, False]"
  "g_num_workers (group_at tp_pair 0) = 2" "g_prefix (group_at tp_pair 0) = []"
  "length (actors_of tp_pair 0) = 2"
  by (simp_all add: tp_pair_def Let_def group_at_def actors_of_def one_group_def)

lemma call_workers_map:
  assumes "length as = n" "length chunks = n"
    and "\<And>a c. a \<in> set as \<Longrightarrow> c \<in> set chunks \<Longrightarrow> remote a m c = Inr (r a c)"
  shows "call_workers remote as m n chunks = Inr (map (\<lambda>(a, c). r a c) (zip as chunks))"
proof -
  have "map_result (\<lambda>i. bind_result (py_index as (int i)) (\<lambda>a.
        bind_result (py_index chunks (int i)) (\<lambda>c. Inr (a, c)))) [0..<n]
      = Inr (map (\<lambda>i. (as ! i, chunks ! i)) [0..<n])"
    by (rule map_result_total) (simp add: assms(1,2))
  also have "map (\<lambda>i. (as ! i, chunks ! i)) [0..<n] = zip as chunks"
    by (rule nth_equalityI) (simp_all add: assms(1,2))
  moreover have "map_result (\<lambda>(a, c). remote a m c) (zip as chunks) = Inr (map (\<lambda>(a, c). r a c) (zip as chunks))"
  proof (rule map_result_total)
    fix ac assume mem: "ac \<in> set (zip as chunks)"
    obtain a c where "ac = (a, c)" by (cases ac)
    with mem show "(case ac of (a, c) \<Rightarrow> remote a m c) = Inr (case ac of (a, c) \<Rightarrow> r a c)"
      using assms(3) by (auto dest: set_zip_leftD set_zip_rightD)
  qed
  ultimately show ?thesis by (simp add: call_workers_def)
qed

text \<open>C4: with the rank mapping and the collect mask known, \<open>dispatch_and_call\<close> sends every
  worker the chunk of its data-parallel rank and returns the worker function applied to each row
  of the batch exactly once, although all the tensor-parallel peers answer. The heap is
  unchanged.\<close>

theorem auto_dispatch_and_call:
  assumes "proto_ok p" "set_order set_iter" "row_wise p s f fb"
    and "g_dp_ranks (group_at h g) = Some (map int ranks)" "g_mask (group_at h g) = Some keep"
    and "ranks \<noteq> []" "set ranks = {0..<d}" "length keep = length ranks" "mask_list keep ranks = [0..<d]"
    and "g_num_workers (group_at h g) = int (length ranks)" "length (actors_of h g) = length ranks"
    and "list_all (\<lambda>a. \<forall>c. remote a (prefixed_method (g_prefix (group_at h g)) method) c = Inr (oid a, fb c))
      (actors_of h g)"
  shows "\<exists>q. dispatch_and_call set_iter remote g method p (Mode DP_COMPUTE) None key h = (Inr q, h)
     \<and> proto_ok q \<and> row_maps q = map f (row_maps p)"
proof -
  let ?as = "actors_of h g" and ?m = "prefixed_method (g_prefix (group_at h g)) method"
  let ?chunks = "map (\<lambda>r. split (int d) p ! r) ranks"
  have d: "0 < d" using assms(6,7) by (metis atLeastLessThan_empty gr0I set_empty2 order_refl)
  have "card (set (map int ranks)) = card (int ` {0..<d})" using assms(7) by simp
  then have card: "card (set (map int ranks)) = d" by (simp add: card_image)
  have "bind_result (py_index (map int ranks) (int i)) (py_index (split (int d) p))
      = Inr (split (int d) p ! (ranks ! i))" if "i < length ranks" for i
  proof -
    have "ranks ! i < d" using that assms(7) nth_mem by fastforce
    then show ?thesis using that py_index_chunk [of "int (ranks ! i)" "int d" p] by simp
  qed
  then have "map_result (\<lambda>i. bind_result (py_index (map int ranks) (int i)) (py_index (split (int d) p)))
      [0..<length ranks] = Inr (map (\<lambda>i. split (int d) p ! (ranks ! i)) [0..<length ranks])"
    by (intro map_result_total) simp
  also have "map (\<lambda>i. split (int d) p ! (ranks ! i)) [0..<length ranks] = ?chunks"
    by (rule nth_equalityI) simp_all
  finally have chunks: "map_result (\<lambda>i. bind_result (py_index (map int ranks) (int i)) (py_index (split (int d) p)))
      [0..<length ranks] = Inr ?chunks" .
  have results: "call_workers remote ?as ?m (length ranks) ?chunks
      = Inr (map (\<lambda>(a, c). (oid a, fb c)) (zip ?as ?chunks))"
    by (rule call_workers_map) (use assms(11,12) in \<open>auto simp: list_all_iff\<close>)
  have snds: "map snd (map (\<lambda>(a, c). (oid a, fb c)) (zip ?as ?chunks)) = map (\<lambda>r. fb (split (int d) p ! r)) ranks"
    by (rule nth_equalityI) (simp_all add: assms(11))
  have "\<exists>q. merge set_iter (mask_list keep (map (\<lambda>r. fb (split (int d) p ! r)) ranks)) = Inr q
    \<and> proto_ok q \<and> row_maps q = map f (row_maps p)"
    using d assms(1-3,8,9) by (intro ranks_map_merge) simp_all
  moreover have "dispatch_and_call set_iter remote g method p (Mode DP_COMPUTE) None key h
      = (collect_with_mask set_iter (map (\<lambda>r. fb (split (int d) p ! r)) ranks) keep, h)"
    using chunks results snds assms(4,5,10) card
    by (simp add: dispatch_and_call_def Let_def del: map_map)
  ultimately show ?thesis
    using assms(8) by (simp add: collect_with_mask_def mask_filter_zip)
qed

theorem auto_dispatch_and_call_witness:
  "\<exists>q. dispatch_and_call rev (\<lambda>a m c. Inr (actor_rank a, c)) 0 ''train_step'' sample_batch
      (Mode DP_COMPUTE) None None tp_pair = (Inr q, tp_pair)
     \<and> proto_ok q \<and> row_maps q = map (\<lambda>r. r) (row_maps sample_batch)"
  by (rule auto_dispatch_and_call [OF _ _ row_wise_id, where ranks = "[0, 0]" and d = 1 and keep = "[True, False]"
        and oid = actor_rank])
    (auto simp: sample_batch_ok set_order_def tp_pair_simps mask_list_def list_all_iff)

section \<open>Groups and their views\<close>

definition reattaches :: "nat \<Rightarrow> heap \<Rightarrow> bool" where
  \<comment> \<open>the branch of \<open>start\<close> that binds the actors found by name\<close>
  "reattaches g h = (actors_of h g = [] \<and> g_detached (group_at h g) \<and> g_names (group_at h g) \<noteq> [])"

definition cut_links :: "nat \<Rightarrow> heap \<Rightarrow> (nat \<times> nat) set \<Rightarrow> (nat \<times> nat) set" where
  \<comment> \<open>history of the links (group, view) of which one side has been re-attached: starting \<open>g\<close>
      again by name adds every link between \<open>g\<close> and the groups that exist\<close>
  "cut_links g h B =
     (if reattaches g h then B \<union> {(x, y). x < length (h_groups h) \<and> y < length (h_groups h) \<and> (x = g \<or> y = g)}
      else B)"

definition views_ok :: "(nat \<times> nat) set \<Rightarrow> heap \<Rightarrow> nat \<Rightarrow> bool" where
  \<comment> \<open>the views of group \<open>g\<close> exist, carry their prefix and share its actor list exactly as long as
      the link has not been cut\<close>
  "views_ok B h g = (\<forall>(pre, c) \<in> set (g_spawned (group_at h g)).
     c < length (h_groups h) \<and> c \<noteq> g \<and> g_prefix (group_at h c) = pre
     \<and> (g_actors (group_at h c) = g_actors (group_at h g)) = ((g, c) \<notin> B))"

definition heap_ok :: "(nat \<times> nat) set \<Rightarrow> heap \<Rightarrow> bool" where
  "heap_ok B h = (B \<subseteq> {..<length (h_groups h)} \<times> {..<length (h_groups h)}
     \<and> (\<forall>g < length (h_groups h). g_actors (group_at h g) < length (h_lists h) \<and> views_ok B h g))"

inductive wg_reachable :: "heap \<Rightarrow> (nat \<times> nat) set \<Rightarrow> bool" where
  Empty: "wg_reachable empty_heap {}"
| New: "wg_reachable h B \<Longrightarrow> new_group cls p n mode det names pre h = Inr (g, h') \<Longrightarrow> wg_reachable h' B"
| Attach: "wg_reachable h B \<Longrightarrow> from_detached get_actor cls p names mode h = Inr (g, h') \<Longrightarrow> wg_reachable h' B"
| Start: "wg_reachable h B \<Longrightarrow> g < length (h_groups h) \<Longrightarrow> start get_actor g h = Inr h' \<Longrightarrow>
    wg_reachable h' (cut_links g h B)"
| Stop: "wg_reachable h B \<Longrightarrow> g < length (h_groups h) \<Longrightarrow> wg_reachable (stop g h) B"
| Setup: "wg_reachable h B \<Longrightarrow> g < length (h_groups h) \<Longrightarrow>
    setup_dispatch_collect_info rank_call mask_call g h = Inr h' \<Longrightarrow> wg_reachable h' B"
| Call: "wg_reachable h B \<Longrightarrow> g < length (h_groups h) \<Longrightarrow>
    dispatch_and_call si remote g m (p :: (int, nat, nat) data_proto) mode mm key h = (r, h') \<Longrightarrow> wg_reachable h' B"
| Spawn: "wg_reachable h B \<Longrightarrow> g < length (h_groups h) \<Longrightarrow> spawn g prefixes h = Inr (d, h') \<Longrightarrow> wg_reachable h' B"
| Fuse: "wg_reachable h B \<Longrightarrow> g < length (h_groups h) \<Longrightarrow> fuse g pre h = Inr (c, h') \<Longrightarrow> wg_reachable h' B"

lemma views_okD:
  assumes "views_ok B h g" "(pre, c) \<in> set (g_spawned (group_at h g))"
  shows "c < length (h_groups h)" "c \<noteq> g" "g_prefix (group_at h c) = pre"
    "(g_actors (group_at h c) = g_actors (group_at h g)) = ((g, c) \<notin> B)"
  using assms by (auto simp: views_ok_def)

lemma views_okI:
  assumes "\<And>pre c. (pre, c) \<in> set (g_spawned (group_at h g)) \<Longrightarrow>
    c < length (h_groups h) \<and> c \<noteq> g \<and> g_prefix (group_at h c) = pre
    \<and> (g_actors (group_at h c) = g_actors (group_at h g)) = ((g, c) \<notin> B)"
  shows "views_ok B h g"
  using assms by (auto simp: views_ok_def)

lemma heap_okD:
  assumes "heap_ok B h"
  shows "g < length (h_groups h) \<Longrightarrow> g_actors (group_at h g) < length (h_lists h)"
    and "g < length (h_groups h) \<Longrightarrow> views_ok B h g"
    and "(x, y) \<in> B \<Longrightarrow> x < length (h_groups h) \<and> y < length (h_groups h)"
  using assms by (auto simp: heap_ok_def)

lemma heap_okI:
  assumes "\<And>x y. (x, y) \<in> B \<Longrightarrow> x < length (h_groups h) \<and> y < length (h_groups h)"
    and "\<And>g. g < length (h_groups h) \<Longrightarrow> g_actors (group_at h g) < length (h_lists h)"
    and "\<And>g pre c. g < length (h_groups h) \<Longrightarrow> (pre, c) \<in> set (g_spawned (group_at h g)) \<Longrightarrow>
      c < length (h_groups h) \<and> c \<noteq> g \<and> g_prefix (group_at h c) = pre
      \<and> (g_actors (group_at h c) = g_actors (group_at h g)) = ((g, c) \<notin> B)"
  shows "heap_ok B h"
  unfolding heap_ok_def
proof (intro conjI allI impI views_okI)
  show "B \<subseteq> {..<length (h_groups h)} \<times> {..<length (h_groups h)}" using assms(1) by auto
qed (use assms(2,3) in blast)+

lemma heap_ok_link:
  assumes "heap_ok B h" "g < length (h_groups h)" "(pre, c) \<in> set (g_spawned (group_at h g))"
  shows "c < length (h_groups h)" "c \<noteq> g" "g_prefix (group_at h c) = pre"
    "(g_actors (group_at h c) = g_actors (group_at h g)) = ((g, c) \<notin> B)"
  using views_okD [OF heap_okD(2) [OF assms(1,2)] assms(3)] by simp_all

lemma heap_ok_transfer:
  assumes ok: "heap_ok B h" and len: "length (h_groups h') = length (h_groups h)" "length (h_lists h) \<le> length (h_lists h')"
    and same: "\<And>x. x < length (h_groups h) \<Longrightarrow> g_actors (group_at h' x) = g_actors (group_at h x)
      \<and> g_spawned (group_at h' x) = g_spawned (group_at h x) \<and> g_prefix (group_at h' x) = g_prefix (group_at h x)"
  shows "heap_ok B h'"
proof (rule heap_okI)
  show "x < length (h_groups h') \<and> y < length (h_groups h')" if "(x, y) \<in> B" for x y
    using heap_okD(3) [OF ok that] by (simp add: len)
  fix g assume "g < length (h_groups h')"
  then have g: "g < length (h_groups h)" by (simp add: len)
  show "g_actors (group_at h' g) < length (h_lists h')"
    using heap_okD(1) [OF ok g] same [OF g] len(2) by simp
  fix pre c assume "(pre, c) \<in> set (g_spawned (group_at h' g))"
  then have "(pre, c) \<in> set (g_spawned (group_at h g))" using same [OF g] by simp
  from heap_ok_link [OF ok g this]
  show "c < length (h_groups h') \<and> c \<noteq> g \<and> g_prefix (group_at h' c) = pre
      \<and> (g_actors (group_at h' c) = g_actors (group_at h' g)) = ((g, c) \<notin> B)"
    using same [of c] same [OF g] len(1) by simp
qed

lemma heap_ok_put_group:
  assumes "heap_ok B h" "g < length (h_groups h)"
    and "g_actors gr = g_actors (group_at h g)" "g_spawned gr = g_spawned (group_at h g)"
    and "g_prefix gr = g_prefix (group_at h g)"
  shows "heap_ok B (put_group g gr h)"
  by (rule heap_ok_transfer [OF assms(1)]) (simp_all add: assms)

lemma heap_ok_put_list: "heap_ok B h \<Longrightarrow> heap_ok B (put_list a xs h)"
  by (erule heap_ok_transfer) simp_all

lemma heap_ok_fields:
  assumes "h_groups h' = h_groups h" "h_lists h' = h_lists h" "heap_ok B h"
  shows "heap_ok B h'"
  by (rule heap_ok_transfer [OF assms(3)]) (simp_all add: assms group_at_def)

lemma heap_ok_append_actors: "heap_ok B h \<Longrightarrow> g < length (h_groups h) \<Longrightarrow> heap_ok B (append_actors g as h)"
  unfolding append_actors_def Let_def
  by (rule heap_ok_put_group) (simp_all add: heap_ok_put_list)

lemma new_group_at:
  assumes "new_group cls p n mode det names pre h = Inr (c, h')"
  shows "c = length (h_groups h)" "length (h_groups h') = Suc c" "length (h_lists h') = Suc (length (h_lists h))"
    and "g < c \<Longrightarrow> group_at h' g = group_at h g"
    and "g_actors (group_at h' c) = length (h_lists h)" "g_spawned (group_at h' c) = []"
    and "g_prefix (group_at h' c) = pre"
  using assms by (auto simp: new_group_def group_at_def nth_append)

lemma heap_ok_new:
  assumes ok: "heap_ok B h" and new: "new_group cls p n mode det names pre h = Inr (c, h')"
  shows "heap_ok B h'"
proof (rule heap_okI)
  note at = new_group_at [OF new]
  show "x < length (h_groups h') \<and> y < length (h_groups h')" if "(x, y) \<in> B" for x y
    using heap_okD(3) [OF ok that] at(1,2) by simp
  fix g assume "g < length (h_groups h')"
  then consider "g = c" | "g < c" "g < length (h_groups h)" using at(1,2) by linarith
  note cases_g = this
  from cases_g show "g_actors (group_at h' g) < length (h_lists h')"
    by cases (use at heap_okD(1) [OF ok] in \<open>auto intro: less_SucI\<close>)
  fix q d assume mem: "(q, d) \<in> set (g_spawned (group_at h' g))"
  from cases_g show "d < length (h_groups h') \<and> d \<noteq> g \<and> g_prefix (group_at h' d) = q
      \<and> (g_actors (group_at h' d) = g_actors (group_at h' g)) = ((g, d) \<notin> B)"
  proof cases
    case 1
    then show ?thesis using mem at(6) by simp
  next
    case 2
    then have "(q, d) \<in> set (g_spawned (group_at h g))" using mem at(4) by simp
    from heap_ok_link [OF ok 2(2) this] show ?thesis
      using at(1,2) at(4) [of d] at(4) [OF 2(1)] by simp
  qed
qed

definition link_view :: "nat \<Rightarrow> string \<Rightarrow> nat \<Rightarrow> heap \<Rightarrow> heap" where
  \<comment> \<open>the two assignments after the construction of a view\<close>
  "link_view g pre c h =
     (let h' = put_group c ((group_at h c)\<lparr>g_actors := g_actors (group_at h g)\<rparr>) h
      in put_group g ((group_at h' g)\<lparr>g_spawned := dict_set pre c (g_spawned (group_at h g))\<rparr>) h')"

lemma heap_ok_link_view:
  assumes ok: "heap_ok B h" and g: "g < length (h_groups h)" and c: "c < length (h_groups h)" "c \<noteq> g"
    and fresh: "g_spawned (group_at h c) = []" "g_prefix (group_at h c) = pre" "(g, c) \<notin> B"
      "\<And>x q. x < length (h_groups h) \<Longrightarrow> (q, c) \<notin> set (g_spawned (group_at h x))"
  shows "heap_ok B (link_view g pre c h)"
proof (rule heap_okI)
  let ?h = "link_view g pre c h"
  have len: "length (h_groups ?h) = length (h_groups h)" "length (h_lists ?h) = length (h_lists h)"
    by (simp_all add: link_view_def Let_def)
  have acts: "g_actors (group_at ?h x) = (if x = c then g_actors (group_at h g) else g_actors (group_at h x))"
    and pres: "g_prefix (group_at ?h x) = g_prefix (group_at h x)"
    and sp: "g_spawned (group_at ?h x) = (if x = g then dict_set pre c (g_spawned (group_at h g)) else g_spawned (group_at h x))"
    for x using g c by (simp_all add: link_view_def Let_def)
  show "x < length (h_groups ?h) \<and> y < length (h_groups ?h)" if "(x, y) \<in> B" for x y
    using heap_okD(3) [OF ok that] by (simp add: len)
  fix x assume "x < length (h_groups ?h)"
  then have x: "x < length (h_groups h)" by (simp add: len)
  show "g_actors (group_at ?h x) < length (h_lists ?h)"
    using heap_okD(1) [OF ok x] heap_okD(1) [OF ok g] by (simp add: acts len)
  fix q d assume mem: "(q, d) \<in> set (g_spawned (group_at ?h x))"
  show "d < length (h_groups ?h) \<and> d \<noteq> x \<and> g_prefix (group_at ?h d) = q
      \<and> (g_actors (group_at ?h d) = g_actors (group_at ?h x)) = ((x, d) \<notin> B)"
  proof (cases "x = g \<and> q = pre \<and> d = c")
    case True
    then show ?thesis using c fresh by (simp add: len acts pres)
  next
    case False
    then have old: "(q, d) \<in> set (g_spawned (group_at h x))"
      using mem set_dict_set_subset [of pre c "g_spawned (group_at h g)"] by (auto simp: sp split: if_splits)
    then have "d \<noteq> c" "x \<noteq> c" using fresh(1) fresh(4) [OF x] by auto
    then show ?thesis using heap_ok_link [OF ok x old] by (simp add: len acts pres)
  qed
qed

lemma heap_ok_spawn_one:
  assumes ok: "heap_ok B h" and g: "g < length (h_groups h)" and sp: "spawn_one g pre h = Inr (c, h')"
  shows "heap_ok B h' \<and> g < length (h_groups h')"
proof (cases "map_of (g_spawned (group_at h g)) pre")
  case (Some c')
  then show ?thesis using sp ok g by (simp add: spawn_one_def Let_def)
next
  case None
  let ?gr = "group_at h g"
  obtain h1 where new: "new_group (g_class ?gr) (g_pool ?gr) (g_num_workers ?gr) (Mode (g_mode ?gr))
      (Some (g_detached ?gr)) (Some (g_names ?gr)) pre h = Inr (c, h1)"
    and h': "h' = put_group g ((group_at (put_group c ((group_at h1 c)\<lparr>g_actors := g_actors ?gr\<rparr>) h1) g)
        \<lparr>g_spawned := dict_set pre c (g_spawned ?gr)\<rparr>) (put_group c ((group_at h1 c)\<lparr>g_actors := g_actors ?gr\<rparr>) h1)"
    using sp None by (auto simp: spawn_one_def Let_def)
  note at = new_group_at [OF new]
  have g1: "group_at h1 g = ?gr" using at(1,4) g by simp
  have "h' = link_view g pre c h1" by (simp add: h' link_view_def Let_def g1)
  moreover have "heap_ok B (link_view g pre c h1)"
  proof (rule heap_ok_link_view [OF heap_ok_new [OF ok new]])
    show "g < length (h_groups h1)" "c < length (h_groups h1)" "c \<noteq> g" using at(1,2) g by simp_all
    show "g_spawned (group_at h1 c) = []" "g_prefix (group_at h1 c) = pre" by (fact at(6,7))+
    show "(g, c) \<notin> B" using heap_okD(3) [OF ok] at(1) by blast
    show "(q, c) \<notin> set (g_spawned (group_at h1 x))" if "x < length (h_groups h1)" for x q
    proof (cases "x = c")
      case True
      then show ?thesis by (simp add: at(6))
    next
      case False
      then have "x < length (h_groups h)" "group_at h1 x = group_at h x" using that at(1,2,4) by simp_all
      then show ?thesis using heap_ok_link(1) [OF ok] at(1) by fastforce
    qed
  qed
  ultimately show ?thesis using at(1,2) g by (simp add: link_view_def Let_def)
qed

lemma heap_ok_spawn_loop:
  "heap_ok B h \<Longrightarrow> g < length (h_groups h) \<Longrightarrow> spawn_loop g pres acc h = Inr (d, h') \<Longrightarrow> heap_ok B h'"
proof (induction pres arbitrary: acc h)
  case Nil
  then show ?case by simp
next
  case (Cons pre pres)
  from Cons.prems(3) obtain c h1 where "spawn_one g pre h = Inr (c, h1)"
    and rest: "spawn_loop g pres (dict_set pre c acc) h1 = Inr (d, h')"
    by auto
  with heap_ok_spawn_one [OF Cons.prems(1,2)] have "heap_ok B h1" "g < length (h_groups h1)" by blast+
  with Cons.IH rest show ?case by blast
qed

lemma heap_ok_rebind:
  \<comment> \<open>binding a fresh list to \<open>g\<close> cuts every link of \<open>g\<close> and no other\<close>
  assumes ok: "heap_ok B h" and g: "g < length (h_groups h)" and re: "reattaches g h"
  shows "heap_ok (cut_links g h B)
    (put_group g ((group_at h g)\<lparr>g_actors := length (h_lists h)\<rparr>) (h\<lparr>h_lists := h_lists h @ [as]\<rparr>))"
    (is "heap_ok ?B ?h")
proof (rule heap_okI)
  have len: "length (h_groups ?h) = length (h_groups h)" "length (h_lists ?h) = Suc (length (h_lists h))"
    by (simp_all add: put_group_def)
  have acts: "g_actors (group_at ?h x) = (if x = g then length (h_lists h) else g_actors (group_at h x))"
    and same: "g_prefix (group_at ?h x) = g_prefix (group_at h x)" "g_spawned (group_at ?h x) = g_spawned (group_at h x)"
    for x using g by (simp_all add: put_group_def group_at_def nth_list_update)
  have B: "(x, y) \<in> ?B \<longleftrightarrow> (x, y) \<in> B \<or> x < length (h_groups h) \<and> y < length (h_groups h) \<and> (x = g \<or> y = g)" for x y
    using re by (simp add: cut_links_def)
  show "x < length (h_groups ?h) \<and> y < length (h_groups ?h)" if "(x, y) \<in> ?B" for x y
    using that heap_okD(3) [OF ok] by (auto simp: B len)
  fix x assume "x < length (h_groups ?h)"
  then have x: "x < length (h_groups h)" by (simp add: len)
  show "g_actors (group_at ?h x) < length (h_lists ?h)"
    using heap_okD(1) [OF ok x] by (simp add: acts len)
  fix q d assume "(q, d) \<in> set (g_spawned (group_at ?h x))"
  then have "(q, d) \<in> set (g_spawned (group_at h x))" by (simp add: same)
  note d = heap_ok_link [OF ok x this]
  show "d < length (h_groups ?h) \<and> d \<noteq> x \<and> g_prefix (group_at ?h d) = q
      \<and> (g_actors (group_at ?h d) = g_actors (group_at ?h x)) = ((x, d) \<notin> ?B)"
    using d x heap_okD(1) [OF ok x] heap_okD(1) [OF ok d(1)] by (auto simp: len acts same B)
qed

lemma heap_ok_start:
  assumes "heap_ok B h" "g < length (h_groups h)" "start get_actor g h = Inr h'"
  shows "heap_ok (cut_links g h B) h'"
proof (cases "reattaches g h")
  case True
  then obtain as where "h' = put_group g ((group_at h g)\<lparr>g_actors := length (h_lists h)\<rparr>) (h\<lparr>h_lists := h_lists h @ [as]\<rparr>)"
    using assms(3) by (auto simp: start_def Let_def reattaches_def)
  then show ?thesis using heap_ok_rebind [OF assms(1,2) True] by simp
next
  case False
  have pgs: "heap_ok B (h\<lparr>h_pgs := xs\<rparr>)" for xs by (rule heap_ok_fields [OF _ _ assms(1)]) simp_all
  have "heap_ok B h'"
    using assms pgs False
    by (auto simp: start_def Let_def start_simple_def start_with_placement_groups_def reattaches_def
        split: if_splits intro!: heap_ok_append_actors)
  then show ?thesis using False by (simp add: cut_links_def)
qed

lemma start_keeps_links:
  assumes "start get_actor g h = Inr h'" "g < length (h_groups h)"
  shows "length (h_groups h') = length (h_groups h)" "g_spawned (group_at h' x) = g_spawned (group_at h x)"
  using assms
  by (auto simp: start_def Let_def start_simple_def start_with_placement_groups_def append_actors_def
      put_group_def put_list_def group_at_def nth_list_update split: if_splits)

lemma heap_ok_from_detached:
  assumes ok: "heap_ok B h" and att: "from_detached get_actor cls p names mode h = Inr (g, h')"
  shows "heap_ok B h'"
proof -
  obtain h1 where new: "new_group cls p (int (length names)) mode (Some True) (Some names) [] h = Inr (g, h1)"
    and run: "start get_actor g h1 = Inr h'"
    using att by (auto simp: from_detached_def)
  note at = new_group_at [OF new]
  have ok1: "heap_ok B h1" by (rule heap_ok_new [OF ok new])
  have g: "g < length (h_groups h1)" using at(2) by simp
  have ok': "heap_ok (cut_links g h1 B) h'" by (rule heap_ok_start [OF ok1 g run])
  note keep = start_keeps_links [OF run g]
  show ?thesis
  proof (rule heap_okI)
    show "x < length (h_groups h') \<and> y < length (h_groups h')" if "(x, y) \<in> B" for x y
      using heap_okD(3) [OF ok1 that] by (simp add: keep)
    fix x assume x: "x < length (h_groups h')"
    show "g_actors (group_at h' x) < length (h_lists h')" by (rule heap_okD(1) [OF ok' x])
    fix q d assume mem: "(q, d) \<in> set (g_spawned (group_at h' x))"
    then have mem1: "(q, d) \<in> set (g_spawned (group_at h1 x))" by (simp add: keep)
    then have "x \<noteq> g" using at(6) by auto
    then have "x < g" using x at(2) keep(1) by simp
    then have "d < length (h_groups h)" using mem1 heap_ok_link(1) [OF ok, of x q d] at(1,4) by simp
    then have "(x, d) \<in> cut_links g h1 B \<longleftrightarrow> (x, d) \<in> B" using \<open>x \<noteq> g\<close> at(1) by (auto simp: cut_links_def)
    then show "d < length (h_groups h') \<and> d \<noteq> x \<and> g_prefix (group_at h' d) = q
        \<and> (g_actors (group_at h' d) = g_actors (group_at h' x)) = ((x, d) \<notin> B)"
      using heap_ok_link [OF ok' x mem] by simp
  qed
qed

lemma heap_ok_stop: "heap_ok B h \<Longrightarrow> heap_ok B (stop g h)"
  unfolding stop_def Let_def
  by (rule heap_ok_put_list) (auto intro: heap_ok_fields [of _ h])

lemma heap_ok_call:
  assumes "heap_ok B h" "g < length (h_groups h)" "dispatch_and_call si remote g m p mode mm key h = (r, h')"
  shows "heap_ok B h'"
  using assms
  by (auto simp: dispatch_and_call_def plain_dispatch_and_call_def Let_def case_prod_beta
      split: sum.splits option.splits if_splits intro!: heap_ok_put_group)

lemma reachable_heap_ok: "wg_reachable h B \<Longrightarrow> heap_ok B h"
proof (induction rule: wg_reachable.induct)
  case Empty
  show ?case by (simp add: heap_ok_def empty_heap_def)
next
  case (Setup h B g rank_call mask_call h')
  then show ?case
    by (auto simp: setup_dispatch_collect_info_def intro!: heap_ok_put_group)
qed (auto intro: heap_ok_new heap_ok_from_detached heap_ok_start heap_ok_stop heap_ok_call heap_ok_spawn_loop
    dest: heap_ok_spawn_one simp: spawn_def fuse_def)

lemma actors_after_stop:
  assumes "heap_ok B h" "x < length (h_groups h)" "y < length (h_groups h)"
  shows "actors_of (stop x h) y =
    (if g_actors (group_at h y) = g_actors (group_at h x) then [] else actors_of h y)"
  using heap_okD(1) [OF assms(1,2)]
  by (auto simp: stop_def Let_def actors_of_def group_at_def put_list_def nth_list_update)

text \<open>C5: through any sequence of creations, attachments to detached workers, starts (re-attachments
  by name included), stops, calls, spawns and fusions, a view spawned from a group answers under its
  own prefix, and it shares the group's actor list exactly as long as neither of the two has been
  re-attached by name since the view was spawned (the history \<open>B\<close> collects the links for which
  that has happened). While the list is shared both see the same actors and stopping either of them
  empties both; after a re-attachment stopping one no longer changes the actors the other sees.\<close>

theorem views_share_actors:
  assumes "wg_reachable h B" "g < length (h_groups h)" "(pre, c) \<in> set (g_spawned (group_at h g))"
  shows "c < length (h_groups h) \<and> c \<noteq> g \<and> g_prefix (group_at h c) = pre
    \<and> (g_actors (group_at h c) = g_actors (group_at h g)) = ((g, c) \<notin> B)
    \<and> (if (g, c) \<notin> B
       then actors_of h c = actors_of h g \<and> actors_of (stop c h) g = [] \<and> actors_of (stop g h) c = []
       else actors_of (stop c h) g = actors_of h g \<and> actors_of (stop g h) c = actors_of h c)
    \<and> actors_of (stop c h) c = [] \<and> actors_of (stop g h) g = []"
proof -
  have ok: "heap_ok B h" by (rule reachable_heap_ok [OF assms(1)])
  note c = heap_ok_link [OF ok assms(2,3)]
  note stopped = actors_after_stop [OF ok c(1) assms(2)] actors_after_stop [OF ok assms(2) c(1)]
    actors_after_stop [OF ok c(1) c(1)] actors_after_stop [OF ok assms(2) assms(2)]
  show ?thesis using c stopped by (auto simp: actors_of_def)
qed

definition cpu_pool :: pool where
  "cpu_pool = sample_pool\<lparr>num_gpus := 0, process_on_nodes := [2], use_placement_groups := False\<rparr>"

definition attached :: "string \<Rightarrow> actor result" where
  "attached n = Inr \<lparr>actor_name = Some n, actor_rank = 0, actor_world = 2, actor_slot = None, actor_gpus = 0\<rparr>"

definition start_and_view :: "bool \<Rightarrow> heap result" where
  \<comment> \<open>create a group of two workers, start it, spawn the view \<open>actor\<close>\<close>
  "start_and_view det =
     bind_result (new_group LumenActorWorker cpu_pool 2 (Mode DP_COMPUTE_PROTO) (Some det) None [] empty_heap) (\<lambda>(_, h1).
     bind_result (start attached 0 h1) (\<lambda>h2.
     bind_result (spawn 0 [''actor''] h2) (\<lambda>(_, h3). Inr h3)))"

lemmas run_groups = new_group_def empty_heap_def start_def stop_def Let_def actors_of_def group_at_def
  start_simple_def append_actors_def put_group_def put_list_def spawn_def spawn_one_def cpu_pool_def
  attached_def make_actor_def from_detached_def

lemma attach_and_view_runs:
  \<comment> \<open>attach to two detached workers, spawn a view, stop the view and start the view again\<close>
  "\<exists>h1 h2 h3 d. from_detached attached LumenActorWorker cpu_pool [''a'', ''b''] (Mode DP_COMPUTE_PROTO) empty_heap = Inr (0, h1)
     \<and> spawn 0 [''actor''] h1 = Inr (d, h2) \<and> start attached 1 (stop 1 h2) = Inr h3
     \<and> length (h_groups h1) = 1 \<and> length (h_groups h2) = 2 \<and> length (h_groups (stop 1 h2)) = 2
     \<and> length (h_groups h3) = 2 \<and> reattaches 1 (stop 1 h2)
     \<and> (''actor'', 1) \<in> set (g_spawned (group_at h2 0)) \<and> (''actor'', 1) \<in> set (g_spawned (group_at h3 0))
     \<and> length (actors_of h2 0) = 2 \<and> length (actors_of h3 1) = 2 \<and> actors_of h3 0 = []"
  by (simp add: run_groups reattaches_def numeral_2_eq_2)

theorem views_share_actors_witness:
  "\<exists>h B h'. wg_reachable h {} \<and> length (actors_of h 0) = 2 \<and> actors_of h 1 = actors_of h 0
     \<and> g_prefix (group_at h 1) = ''actor'' \<and> actors_of (stop 1 h) 0 = []
     \<and> wg_reachable h' B \<and> (0, 1) \<in> B \<and> length (actors_of h' 1) = 2 \<and> actors_of (stop 0 h') 1 = actors_of h' 1"
proof -
  obtain h1 h2 h3 d where run:
     "from_detached attached LumenActorWorker cpu_pool [''a'', ''b''] (Mode DP_COMPUTE_PROTO) empty_heap = Inr (0, h1)"
     "spawn 0 [''actor''] h1 = Inr (d, h2)" "start attached 1 (stop 1 h2) = Inr h3"
     "length (h_groups h1) = 1" "length (h_groups h2) = 2" "length (h_groups (stop 1 h2)) = 2" "length (h_groups h3) = 2"
     "reattaches 1 (stop 1 h2)" "(''actor'', 1) \<in> set (g_spawned (group_at h2 0))"
     "(''actor'', 1) \<in> set (g_spawned (group_at h3 0))" "length (actors_of h2 0) = 2" "length (actors_of h3 1) = 2"
    using attach_and_view_runs by blast
  have "wg_reachable h1 {}" by (rule wg_reachable.Attach [OF wg_reachable.Empty run(1)])
  then have r2: "wg_reachable h2 {}" by (rule wg_reachable.Spawn [OF _ _ run(2)]) (simp add: run)
  then have "wg_reachable (stop 1 h2) {}" by (rule wg_reachable.Stop) (simp add: run)
  then have r3: "wg_reachable h3 (cut_links 1 (stop 1 h2) {})" by (rule wg_reachable.Start [OF _ _ run(3)]) (use run(6) in simp)
  have cut: "(0, 1) \<in> cut_links 1 (stop 1 h2) {}" using run(6,8) by (simp add: cut_links_def)
  show ?thesis
    using r2 r3 cut run views_share_actors [OF r2, of 0 "''actor''" 1] views_share_actors [OF r3, of 0 "''actor''" 1]
    by (intro exI [of _ h2] exI [of _ "cut_links 1 (stop 1 h2) {}"] exI [of _ h3]) auto
qed

text \<open>The cut in the other direction: a detached group is started, a view is spawned, the group is stopped and
  started again. The group has its actors back, the view sees none.\<close>

lemma reattached_view_is_stale:
  "\<exists>h h'. start_and_view True = Inr h \<and> length (actors_of h 1) = 2
     \<and> start attached 0 (stop 0 h) = Inr h' \<and> length (actors_of h' 0) = 2 \<and> actors_of h' 1 = []"
  by (simp add: start_and_view_def new_group_def empty_heap_def start_def stop_def Let_def actors_of_def group_at_def
      start_simple_def append_actors_def put_group_def put_list_def spawn_def spawn_one_def cpu_pool_def
      attached_def make_actor_def numeral_2_eq_2)

text \<open>The legacy name \<open>broadcast\<close> is known to \<open>dispatch_proto\<close> but not to the worker group.\<close>

lemma broadcast_name_not_accepted_by_groups:
  "normalize_mode (ModeName ''broadcast'') = Inr ONE_TO_ALL"
  "new_group cls p n (ModeName ''broadcast'') det names pre h = Inl ValueError"
  "dispatch_and_call si remote g m d (ModeName ''broadcast'') mm key h = (Inl ValueError, h)"
  by (simp_all add: new_group_def dispatch_and_call_def mode_of_name_def all_modes_def)

end
