(* ===== verification/Fifo.thy ===== *)
theory Fifo
  imports Py_Prelude
begin

text \<open>
  The interface of the first-in first-out channels of the code (the sample queue of
  \<open>queue.Queue\<close>, the slots of a weight transfer): what is taken out, followed by what is left,
  is what was there followed by what was put in, through any interleaving of the two sides.
\<close>

datatype 'a channel_op = Push 'a | Pop

fun pushed :: "'a channel_op list \<Rightarrow> 'a list" where
  "pushed [] = []"
| "pushed (Push x # ops) = x # pushed ops"
| "pushed (Pop # ops) = pushed ops"

locale fifo =
  fixes push :: "'a \<Rightarrow> 'q \<Rightarrow> 'q"
    and pop :: "'q \<Rightarrow> ('a \<times> 'q) option"
    and items :: "'q \<Rightarrow> 'a list"
  assumes items_push: "items (push x q) = items q @ [x]"
    and pop_some: "pop q = Some (x, q') \<Longrightarrow> items q = x # items q'"
    and pop_none: "pop q = None \<longleftrightarrow> items q = []"
begin

fun run :: "'a channel_op list \<Rightarrow> 'q \<Rightarrow> 'a list \<times> 'q" where
  "run [] q = ([], q)"
| "run (Push x # ops) q = run ops (push x q)"
| "run (Pop # ops) q = (case pop q of
     None \<Rightarrow> run ops q
   | Some (x, q') \<Rightarrow> (let (out, q'') = run ops q' in (x # out, q'')))"

lemma run_order: "run ops q = (out, q') \<Longrightarrow> out @ items q' = items q @ pushed ops"
proof (induction ops arbitrary: q out)
  case Nil
  then show ?case by simp
next
  case (Cons op ops)
  show ?case
  proof (cases op)
    case (Push x)
    then show ?thesis using Cons.IH [of "push x q" out] Cons.prems by (simp add: items_push)
  next
    case Pop
    then show ?thesis
      using Cons.prems Cons.IH pop_some
      by (fastforce split: option.splits prod.splits)
  qed
qed

lemma pop_items: "items q = x # xs \<Longrightarrow> \<exists>q'. pop q = Some (x, q') \<and> items q' = xs"
  using pop_none [of q] pop_some [of q] by (cases "pop q") auto

end

end
