(* ===== verification/Message_Queue.thy ===== *)
theory Message_Queue
  imports Complex_Main Fifo "HOL-Library.Sublist"
begin

text \<open>
  \<open>lumenrl/trainer/message_queue.py\<close>: the bounded sample queue between the rollouter threads and
  the trainer. The queue object is a record; \<open>get_batch\<close> appears twice, as the function it
  computes on a queue nobody else touches, and as the steps of a consumer thread interleaved
  with producers and version updates. The deadline is a choice: a consumer waiting for a
  sample may time out at any loop head. The threshold is a rational.
\<close>

section \<open>The queue object\<close>

record 'd sample =
  sample_data :: 'd
  param_version :: int

record 'd mq =
  mq_items :: "'d sample list"       \<comment> \<open>the buffered samples, oldest first\<close>
  mq_maxsize :: int
  mq_threshold :: rat
  mq_current :: int
  mq_produced :: nat
  mq_consumed :: nat
  mq_stale :: nat

definition new_mq :: "int \<Rightarrow> rat \<Rightarrow> 'd mq" where
  "new_mq maxsize threshold =
     \<lparr>mq_items = [], mq_maxsize = maxsize, mq_threshold = threshold, mq_current = 0,
      mq_produced = 0, mq_consumed = 0, mq_stale = 0\<rparr>"

definition set_current :: "int \<Rightarrow> 'd mq \<Rightarrow> 'd mq" where
  "set_current v q = q\<lparr>mq_current := v\<rparr>"

definition q_full :: "'d mq \<Rightarrow> bool" where
  \<comment> \<open>\<open>queue.Queue\<close>: a maxsize that is not positive means no bound\<close>
  "q_full q = (0 < mq_maxsize q \<and> mq_maxsize q \<le> int (length (mq_items q)))"

definition q_push :: "'d sample \<Rightarrow> 'd mq \<Rightarrow> 'd mq" where
  "q_push x q = q\<lparr>mq_items := mq_items q @ [x]\<rparr>"

definition q_pop :: "'d mq \<Rightarrow> ('d sample \<times> 'd mq) option" where
  "q_pop q = (case mq_items q of [] \<Rightarrow> None | x # xs \<Rightarrow> Some (x, q\<lparr>mq_items := xs\<rparr>))"

definition mq_put :: "'d sample \<Rightarrow> 'd mq \<Rightarrow> 'd mq option" where
  \<comment> \<open>\<open>put\<close> when it does not block; None: the queue is full\<close>
  "mq_put x q =
     (if q_full q then None
      else Some ((q_push x q)\<lparr>mq_produced := mq_produced q + 1\<rparr>))"

definition py_trunc :: "rat \<Rightarrow> int" where
  \<comment> \<open>\<open>int(x)\<close>: towards zero\<close>
  "py_trunc x = (if x < 0 then \<lceil>x\<rceil> else \<lfloor>x\<rfloor>)"

definition max_stale :: "int \<Rightarrow> 'd mq \<Rightarrow> int" where
  "max_stale batch_size q = py_trunc (of_int batch_size * mq_threshold q)"

definition is_stale :: "int \<Rightarrow> 'd sample \<Rightarrow> bool" where
  "is_stale current x = (param_version x < current)"

definition note_consumed :: "bool \<Rightarrow> 'd mq \<Rightarrow> 'd mq" where
  "note_consumed stale q =
     q\<lparr>mq_consumed := mq_consumed q + 1, mq_stale := mq_stale q + (if stale then 1 else 0)\<rparr>"

function get_batch_loop ::
  "int \<Rightarrow> int \<Rightarrow> 'd sample list \<Rightarrow> int \<Rightarrow> 'd mq \<Rightarrow> 'd sample list result \<times> 'd mq" where
  \<comment> \<open>the loop on a queue nobody refills: once it is empty the deadline passes\<close>
  "get_batch_loop batch_size limit collected stale q =
     (if batch_size \<le> int (length collected) then (Inr collected, q)
      else case q_pop q of
        None \<Rightarrow> (Inl TimeoutError, q)
      | Some (x, q') \<Rightarrow>
          (let st = is_stale (mq_current q') x
           in if st \<and> limit \<le> stale then get_batch_loop batch_size limit collected stale q'
              else get_batch_loop batch_size limit (collected @ [x]) (stale + (if st then 1 else 0))
                     (note_consumed st q')))"
  by pat_completeness auto
termination
  by (relation "measure (\<lambda>(_, _, _, _, q). length (mq_items q))")
    (auto simp: q_pop_def note_consumed_def split: list.splits)

definition get_batch :: "int \<Rightarrow> 'd mq \<Rightarrow> 'd sample list result \<times> 'd mq" where
  "get_batch batch_size q = get_batch_loop batch_size (max_stale batch_size q) [] 0 q"

definition mq_qsize :: "'d mq \<Rightarrow> nat" where
  "mq_qsize q = length (mq_items q)"

definition mq_metrics :: "'d mq \<Rightarrow> (string, rat) dict" where
  "mq_metrics q =
     [(''queue/size'', of_nat (mq_qsize q)), (''queue/total_produced'', of_nat (mq_produced q)),
      (''queue/total_consumed'', of_nat (mq_consumed q)), (''queue/stale_consumed'', of_nat (mq_stale q)),
      (''queue/stale_ratio'', of_nat (mq_stale q) / of_nat (max 1 (mq_consumed q)))]"

declare get_batch_loop.simps [simp del]

interpretation sample_queue: fifo q_push q_pop mq_items
  by unfold_locales (auto simp: q_push_def q_pop_def split: list.splits)

section \<open>The producer and consumer threads\<close>

text \<open>
  One consumer thread runs \<open>get_batch\<close>; any number of producers run \<open>put\<close>, whose enqueue and
  whose count under the lock are separate steps (\<open>uncounted\<close> puts in between). The trainer
  only raises the version (\<open>async_trainer.py\<close>, \<open>_trigger_param_sync\<close>). The fields from
  \<open>enqueued\<close> on record what happened and are read by no step.
\<close>

datatype 'd consumer =
    Idle
  | Looping int int "'d sample list" int               \<comment> \<open>batch size, stale limit, collected, stale count\<close>
  | Holding int int "'d sample list" int "'d sample"   \<comment> \<open>a sample taken, not yet judged\<close>
  | Counting int int "'d sample list" int bool         \<comment> \<open>collected, the counters not yet updated\<close>

datatype 'd ended =
    Returned "'d sample list"
  | TimedOut "'d sample list"          \<comment> \<open>what the call had collected is discarded with it\<close>

fun batch_of :: "'d ended \<Rightarrow> 'd sample list" where
  "batch_of (Returned c) = c"
| "batch_of (TimedOut c) = c"

record 'd system =
  sys_q :: "'d mq"
  consumer :: "'d consumer"
  uncounted :: nat
  enqueued :: "'d sample list"
  taken :: "'d sample list"
  kept :: "('d sample \<times> bool) list"      \<comment> \<open>collected, with the verdict: stale or not\<close>
  dropped :: "'d sample list"
  ended :: "'d ended list"              \<comment> \<open>the finished calls, oldest first\<close>
  called_at :: int                      \<comment> \<open>the version when the running \<open>get_batch\<close> began\<close>

definition start_system :: "int \<Rightarrow> rat \<Rightarrow> 'd system" where
  "start_system maxsize threshold =
     \<lparr>sys_q = new_mq maxsize threshold, consumer = Idle, uncounted = 0, enqueued = [], taken = [],
      kept = [], dropped = [], ended = [], called_at = 0\<rparr>"

inductive mq_step :: "'d system \<Rightarrow> 'd system \<Rightarrow> bool" where
  Enqueue: "\<not> q_full (sys_q s) \<Longrightarrow>
    mq_step s (s\<lparr>sys_q := q_push x (sys_q s), uncounted := Suc (uncounted s), enqueued := enqueued s @ [x]\<rparr>)"
| CountPut: "uncounted s = Suc n \<Longrightarrow>
    mq_step s (s\<lparr>sys_q := (sys_q s)\<lparr>mq_produced := Suc (mq_produced (sys_q s))\<rparr>, uncounted := n\<rparr>)"
| SetVersion: "mq_current (sys_q s) \<le> v \<Longrightarrow> mq_step s (s\<lparr>sys_q := set_current v (sys_q s)\<rparr>)"
| Call: "consumer s = Idle \<Longrightarrow> 
    mq_step s (s\<lparr>consumer := Looping b (max_stale b (sys_q s)) [] 0, called_at := mq_current (sys_q s)\<rparr>)"
| Return: "consumer s = Looping b l c k \<Longrightarrow> b \<le> int (length c) \<Longrightarrow>
    mq_step s (s\<lparr>consumer := Idle, ended := ended s @ [Returned c]\<rparr>)"
| Deadline: "consumer s = Looping b l c k \<Longrightarrow> int (length c) < b \<Longrightarrow>
    mq_step s (s\<lparr>consumer := Idle, ended := ended s @ [TimedOut c]\<rparr>)"
| Take: "consumer s = Looping b l c k \<Longrightarrow> int (length c) < b \<Longrightarrow> q_pop (sys_q s) = Some (x, q') \<Longrightarrow>
    mq_step s (s\<lparr>sys_q := q', consumer := Holding b l c k x, taken := taken s @ [x]\<rparr>)"
| Drop: "consumer s = Holding b l c k x \<Longrightarrow> is_stale (mq_current (sys_q s)) x \<Longrightarrow> l \<le> k \<Longrightarrow>
    mq_step s (s\<lparr>consumer := Looping b l c k, dropped := dropped s @ [x]\<rparr>)"
| Keep: "consumer s = Holding b l c k x \<Longrightarrow> st = is_stale (mq_current (sys_q s)) x \<Longrightarrow> \<not> (st \<and> l \<le> k) \<Longrightarrow>
    mq_step s (s\<lparr>consumer := Counting b l (c @ [x]) (k + (if st then 1 else 0)) st, kept := kept s @ [(x, st)]\<rparr>)"
| CountTaken: "consumer s = Counting b l c k st \<Longrightarrow>
    mq_step s (s\<lparr>sys_q := note_consumed st (sys_q s), consumer := Looping b l c k\<rparr>)"

inductive_cases mq_stepE: "mq_step s t"

definition mq_reachable :: "int \<Rightarrow> rat \<Rightarrow> 'd system \<Rightarrow> bool" where
  "mq_reachable maxsize threshold s = mq_step\<^sup>*\<^sup>* (start_system maxsize threshold) s"

fun collected_now :: "'d consumer \<Rightarrow> 'd sample list" where
  "collected_now Idle = []"
| "collected_now (Looping b l c k) = c"
| "collected_now (Holding b l c k x) = c"
| "collected_now (Counting b l c k st) = c"

fun held :: "'d consumer \<Rightarrow> 'd sample list" where
  "held (Holding b l c k x) = [x]"
| "held _ = []"

fun not_yet_counted :: "'d consumer \<Rightarrow> nat" where
  "not_yet_counted (Counting b l c k st) = 1"
| "not_yet_counted _ = 0"

fun stale_not_yet_counted :: "'d consumer \<Rightarrow> nat" where
  "stale_not_yet_counted (Counting b l c k st) = (if st then 1 else 0)"
| "stale_not_yet_counted _ = 0"


section \<open>Invariants of the reachable systems\<close>

definition stale_at :: "int \<Rightarrow> 'd sample list \<Rightarrow> nat" where
  "stale_at v xs = length (filter (is_stale v) xs)"

lemma stale_at_simps [simp]:
  "stale_at v [] = 0"
  "stale_at v (xs @ [x]) = stale_at v xs + (if is_stale v x then 1 else 0)"
  by (simp_all add: stale_at_def)

fun consumer_ok :: "'d mq \<Rightarrow> int \<Rightarrow> 'd consumer \<Rightarrow> bool" where
  "consumer_ok q v Idle = True"
| "consumer_ok q v (Looping b l c k) =
     (l = max_stale b q \<and> int (length c) \<le> max 0 b \<and> 0 \<le> k \<and> k \<le> max 0 l \<and> int (stale_at v c) \<le> k)"
| "consumer_ok q v (Holding b l c k x) =
     (l = max_stale b q \<and> int (length c) < b \<and> 0 \<le> k \<and> k \<le> max 0 l \<and> int (stale_at v c) \<le> k)"
| "consumer_ok q v (Counting b l c k st) =
     (l = max_stale b q \<and> int (length c) \<le> b \<and> 0 \<le> k \<and> k \<le> max 0 l \<and> int (stale_at v c) \<le> k)"

definition fifo_inv :: "'d system \<Rightarrow> bool" where
  "fifo_inv s = (taken s @ mq_items (sys_q s) = enqueued s)"

definition account_inv :: "'d system \<Rightarrow> bool" where
  "account_inv s =
     ((\<exists>judged. taken s = judged @ held (consumer s) \<and> judged \<in> shuffles (map fst (kept s)) (dropped s))
     \<and> map fst (kept s) = concat (map batch_of (ended s)) @ collected_now (consumer s)
     \<and> list_all (is_stale (mq_current (sys_q s))) (dropped s))"

definition counter_inv :: "'d system \<Rightarrow> bool" where
  "counter_inv s = (mq_produced (sys_q s) + uncounted s = length (enqueued s)
     \<and> mq_consumed (sys_q s) + not_yet_counted (consumer s) = length (kept s)
     \<and> mq_stale (sys_q s) + stale_not_yet_counted (consumer s) = length (filter snd (kept s)))"

definition bound_inv :: "int \<Rightarrow> rat \<Rightarrow> 'd system \<Rightarrow> bool" where
  "bound_inv maxsize threshold s = (mq_maxsize (sys_q s) = maxsize \<and> mq_threshold (sys_q s) = threshold
     \<and> (0 < maxsize \<longrightarrow> int (length (mq_items (sys_q s))) \<le> maxsize)
     \<and> called_at s \<le> mq_current (sys_q s) \<and> consumer_ok (sys_q s) (called_at s) (consumer s))"

lemma q_pop_cases: "q_pop q = Some (x, q') \<Longrightarrow> mq_items q = x # mq_items q' \<and> q' = q\<lparr>mq_items := mq_items q'\<rparr>"
  by (auto simp: q_pop_def split: list.splits)

lemmas mq_field_defs = q_push_def set_current_def note_consumed_def

lemma fifo_inv_step: "mq_step s t \<Longrightarrow> fifo_inv s \<Longrightarrow> fifo_inv t"
  by (induction rule: mq_step.induct) (auto simp: fifo_inv_def mq_field_defs dest: q_pop_cases)

lemma shuffles_snoc:
  "zs \<in> shuffles xs ys \<Longrightarrow> zs @ [z] \<in> shuffles (xs @ [z]) ys"
  "zs \<in> shuffles xs ys \<Longrightarrow> zs @ [z] \<in> shuffles xs (ys @ [z])"
proof -
  show left: "zs \<in> shuffles xs ys \<Longrightarrow> zs @ [z] \<in> shuffles (xs @ [z]) ys" for zs xs ys :: "'a list" and z
  proof (induction zs arbitrary: xs ys)
    case (Cons u zs)
    then consider "xs \<noteq> []" "hd xs = u" "zs \<in> shuffles (tl xs) ys" | "ys \<noteq> []" "hd ys = u" "zs \<in> shuffles xs (tl ys)"
      by (auto simp: Cons_in_shuffles_iff)
    then show ?case
    proof cases
      case 1
      then show ?thesis using Cons.IH [OF 1(3)] by (auto simp: Cons_in_shuffles_iff)
    next
      case 2
      then show ?thesis using Cons.IH [OF 2(3)] by (auto simp: Cons_in_shuffles_iff)
    qed
  qed simp
  show "zs \<in> shuffles xs ys \<Longrightarrow> zs @ [z] \<in> shuffles xs (ys @ [z])"
    using left [of zs ys xs z] by (simp add: shuffles_commutes)
qed

lemma is_stale_mono: "is_stale v x \<Longrightarrow> v \<le> w \<Longrightarrow> is_stale w x"
  by (simp add: is_stale_def)

lemma account_inv_step:
  assumes "mq_step s t" "account_inv s"
  shows "account_inv t"
  using assms
proof (induction rule: mq_step.induct)
  case (SetVersion s v)
  then show ?case
    using is_stale_mono [of "mq_current (sys_q s)" _ v] by (auto simp: account_inv_def mq_field_defs list_all_iff)
next
  case (Take s b l c k x q')
  then show ?case by (auto simp: account_inv_def q_pop_def split: list.splits)
next
  case (Drop s b l c k x)
  then show ?case by (auto simp: account_inv_def intro: shuffles_snoc)
next
  case (Keep s b l c k x st)
  then obtain judged where "taken s = judged @ [x]" "judged \<in> shuffles (map fst (kept s)) (dropped s)"
    by (auto simp: account_inv_def)
  with Keep show ?case by (simp add: account_inv_def shuffles_snoc(1) del: append_assoc)
qed (auto simp: account_inv_def mq_field_defs)

lemma counter_inv_step: "mq_step s t \<Longrightarrow> counter_inv s \<Longrightarrow> counter_inv t"
  by (induction rule: mq_step.induct)
    (auto simp: counter_inv_def mq_field_defs q_pop_def split: list.splits)

lemma max_stale_cong: "mq_threshold q' = mq_threshold q \<Longrightarrow> max_stale b q' = max_stale b q"
  by (simp add: max_stale_def)

lemma consumer_ok_cong: "mq_threshold q' = mq_threshold q \<Longrightarrow> consumer_ok q' v c = consumer_ok q v c"
  by (cases c) (simp_all add: max_stale_cong [of q' q])

lemma bound_inv_step: "mq_step s t \<Longrightarrow> bound_inv m th s \<Longrightarrow> bound_inv m th t"
proof (induction rule: mq_step.induct)
  case (Enqueue s x)
  then show ?case
    using consumer_ok_cong [of "q_push x (sys_q s)" "sys_q s"]
    by (auto simp: bound_inv_def mq_field_defs q_full_def)
next
  case (CountPut s n)
  then show ?case
    using consumer_ok_cong [of "(sys_q s)\<lparr>mq_produced := Suc (mq_produced (sys_q s))\<rparr>" "sys_q s"]
    by (auto simp: bound_inv_def)
next
  case (SetVersion s v)
  then show ?case
    using consumer_ok_cong [of "set_current v (sys_q s)" "sys_q s"]
    by (auto simp: bound_inv_def mq_field_defs)
next
  case (Take s b l c k x q')
  then show ?case
    by (auto simp: bound_inv_def q_pop_def max_stale_def split: list.splits)
next
  case (Keep s b l c k x st)
  then show ?case
    using is_stale_mono [of "called_at s" x "mq_current (sys_q s)"] by (auto simp: bound_inv_def)
next
  case (CountTaken s b l c k st)
  then show ?case
    using max_stale_cong [of "note_consumed st (sys_q s)" "sys_q s" b]
    by (auto simp: bound_inv_def mq_field_defs)
qed (auto simp: bound_inv_def)

lemma mq_invariants:
  assumes "mq_reachable m th s"
  shows "fifo_inv s" "account_inv s" "counter_inv s" "bound_inv m th s"
proof -
  have "fifo_inv s \<and> account_inv s \<and> counter_inv s \<and> bound_inv m th s"
    using assms unfolding mq_reachable_def
  proof (induction rule: rtranclp_induct)
    case base
    show ?case
      by (simp add: fifo_inv_def account_inv_def counter_inv_def bound_inv_def start_system_def new_mq_def)
  next
    case (step s t)
    then show ?case using fifo_inv_step account_inv_step counter_inv_step bound_inv_step by blast
  qed
  then show "fifo_inv s" "account_inv s" "counter_inv s" "bound_inv m th s" by simp_all
qed

section \<open>Properties\<close>

text \<open>The operations of the queue object are schedules of this machine: a \<open>put\<close> that does not block is
  an enqueue and a count, and \<open>get_batch\<close> on a queue nobody else touches runs through the loop to the
  return of its batch or the deadline.\<close>

lemma mq_put_steps:
  assumes "mq_put x (sys_q s) = Some q'" "uncounted s = 0"
  shows "mq_step\<^sup>*\<^sup>* s (s\<lparr>sys_q := q', enqueued := enqueued s @ [x]\<rparr>)"
proof -
  let ?t = "s\<lparr>sys_q := q_push x (sys_q s), uncounted := Suc (uncounted s), enqueued := enqueued s @ [x]\<rparr>"
  have room: "\<not> q_full (sys_q s)" and q': "q' = (q_push x (sys_q s))\<lparr>mq_produced := mq_produced (sys_q s) + 1\<rparr>"
    using assms(1) by (auto simp: mq_put_def split: if_splits)
  have "mq_step ?t (?t\<lparr>sys_q := (sys_q ?t)\<lparr>mq_produced := Suc (mq_produced (sys_q ?t))\<rparr>, uncounted := 0\<rparr>)"
    by (rule mq_step.CountPut) (simp add: assms(2))
  moreover have "?t\<lparr>sys_q := (sys_q ?t)\<lparr>mq_produced := Suc (mq_produced (sys_q ?t))\<rparr>, uncounted := 0\<rparr>
      = s\<lparr>sys_q := q', enqueued := enqueued s @ [x]\<rparr>"
    using assms(2) by (cases s) (simp add: q' q_push_def)
  ultimately show ?thesis using mq_step.Enqueue [OF room, of x] by (metis converse_rtranclp_into_rtranclp r_into_rtranclp)
qed


definition call_ended :: "'d sample list result \<Rightarrow> 'd ended \<Rightarrow> bool" where
  "call_ended r e = (case r of Inr c \<Rightarrow> e = Returned c | Inl _ \<Rightarrow> \<exists>c. e = TimedOut c)"

lemma get_batch_loop_steps:
  "get_batch_loop b l c k q = (r, q') \<Longrightarrow> sys_q s = q \<Longrightarrow> consumer s = Looping b l c k \<Longrightarrow>
   \<exists>t e. mq_step\<^sup>*\<^sup>* s t \<and> sys_q t = q' \<and> consumer t = Idle \<and> ended t = ended s @ [e] \<and> call_ended r e"
proof (induction b l c k q arbitrary: s rule: get_batch_loop.induct)
  case (1 b l c k q)
  note run = "1.prems"(1) and q = "1.prems"(2) and con = "1.prems"(3)
  show ?case
  proof (cases "b \<le> int (length c)")
    case True
    then have "r = Inr c" "q' = q" using run by (simp_all add: get_batch_loop.simps [of b l c k q])
    then show ?thesis using mq_step.Return [OF con True] q
      by (intro exI [of _ "s\<lparr>consumer := Idle, ended := ended s @ [Returned c]\<rparr>"] exI [of _ "Returned c"])
        (simp add: call_ended_def)
  next
    case more: False
    then have len: "int (length c) < b" by simp
    show ?thesis
    proof (cases "q_pop q")
      case None
      then have "r = Inl TimeoutError" "q' = q" using run more by (simp_all add: get_batch_loop.simps [of b l c k q])
      then show ?thesis using mq_step.Deadline [OF con len] q
        by (intro exI [of _ "s\<lparr>consumer := Idle, ended := ended s @ [TimedOut c]\<rparr>"] exI [of _ "TimedOut c"])
          (simp add: call_ended_def)
    next
      case (Some xq)
      obtain x q1 where xq: "(x, q1) = xq" by (cases xq) auto
      let ?st = "is_stale (mq_current q1) x" and ?s1 = "s\<lparr>sys_q := q1, consumer := Holding b l c k x, taken := taken s @ [x]\<rparr>"
      have take: "mq_step s ?s1" by (rule mq_step.Take [OF con len]) (simp add: q Some xq)
      note IH = "1.IH" [OF more Some xq refl]
      show ?thesis
      proof (cases "?st \<and> l \<le> k")
        case True
        let ?s2 = "?s1\<lparr>consumer := Looping b l c k, dropped := dropped s @ [x]\<rparr>"
        have "mq_step ?s1 ?s2" using mq_step.Drop [of ?s1 b l c k x] True by simp
        with take have to: "mq_step\<^sup>*\<^sup>* s ?s2" by (meson converse_rtranclp_into_rtranclp r_into_rtranclp)
        have "get_batch_loop b l c k q1 = (r, q')"
          using run more Some xq [symmetric] True by (simp add: get_batch_loop.simps [of b l c k q])
        from IH(1) [OF True this, of ?s2] show ?thesis using rtranclp_trans [OF to] by auto
      next
        case False
        let ?k = "k + (if ?st then 1 else 0)"
        let ?s2 = "?s1\<lparr>consumer := Counting b l (c @ [x]) ?k ?st, kept := kept s @ [(x, ?st)]\<rparr>"
        let ?s3 = "?s2\<lparr>sys_q := note_consumed ?st q1, consumer := Looping b l (c @ [x]) ?k\<rparr>"
        have "mq_step ?s1 ?s2" using mq_step.Keep [of ?s1 b l c k x ?st] False by simp
        moreover have "mq_step ?s2 ?s3" using mq_step.CountTaken [of ?s2 b l "c @ [x]" ?k ?st] by simp
        ultimately have to: "mq_step\<^sup>*\<^sup>* s ?s3" using take by (meson converse_rtranclp_into_rtranclp r_into_rtranclp)
        have "get_batch_loop b l (c @ [x]) ?k (note_consumed ?st q1) = (r, q')"
          using run more Some xq [symmetric] False by (auto simp: get_batch_loop.simps [of b l c k q] Let_def)
        from IH(2) [OF False this, of ?s3] show ?thesis using rtranclp_trans [OF to] by auto
      qed
    qed
  qed
qed

lemma get_batch_steps:
  assumes "get_batch b (sys_q s) = (r, q')" "consumer s = Idle"
  shows "\<exists>t e. mq_step\<^sup>*\<^sup>* s t \<and> sys_q t = q' \<and> consumer t = Idle \<and> ended t = ended s @ [e] \<and> call_ended r e"
proof -
  let ?s = "s\<lparr>consumer := Looping b (max_stale b (sys_q s)) [] 0, called_at := mq_current (sys_q s)\<rparr>"
  from get_batch_loop_steps [OF assms(1) [unfolded get_batch_def], of ?s]
  obtain t e where "mq_step\<^sup>*\<^sup>* ?s t" "sys_q t = q'" "consumer t = Idle" "ended t = ended s @ [e]" "call_ended r e" by auto
  from mq_step.Call [OF assms(2)] this(1) have "mq_step\<^sup>*\<^sup>* s t" by (rule converse_rtranclp_into_rtranclp)
  with \<open>sys_q t = q'\<close> \<open>consumer t = Idle\<close> \<open>ended t = ended s @ [e]\<close> \<open>call_ended r e\<close> show ?thesis by blast
qed

text \<open>C20: through every interleaving of producers, version updates and the consumer the samples are
  taken in the order they were put, and the fate of each is known: what was put is what was taken
  followed by what is buffered; what was taken and judged is an interleaving, in order, of the samples
  collected and the samples dropped, and only stale ones are dropped; the samples collected are, in
  order and once each, those of the finished calls (a call that timed out discards its own) and those
  of the running call. The buffer never exceeds its bound. The three counters count the samples put,
  collected, and collected as stale, up to the updates still to be made under the lock.\<close>

theorem message_queue_conservation:
  assumes "mq_reachable maxsize threshold s"
  shows "taken s @ mq_items (sys_q s) = enqueued s
    \<and> (\<exists>judged. taken s = judged @ held (consumer s) \<and> judged \<in> shuffles (map fst (kept s)) (dropped s))
    \<and> list_all (is_stale (mq_current (sys_q s))) (dropped s)
    \<and> map fst (kept s) = concat (map batch_of (ended s)) @ collected_now (consumer s)
    \<and> (0 < maxsize \<longrightarrow> int (mq_qsize (sys_q s)) \<le> maxsize)
    \<and> mq_produced (sys_q s) + uncounted s = length (enqueued s)
    \<and> mq_consumed (sys_q s) + not_yet_counted (consumer s) = length (kept s)
    \<and> mq_stale (sys_q s) + stale_not_yet_counted (consumer s) = length (filter snd (kept s))"
  using mq_invariants [OF assms]
  unfolding fifo_inv_def account_inv_def counter_inv_def bound_inv_def mq_qsize_def by blast

text \<open>C21: a batch that \<open>get_batch\<close> is about to return has exactly the requested size, and at most
  \<open>int(batch_size * threshold)\<close> of its samples are older than the version that was current when
  the call began, whatever happens meanwhile.\<close>

theorem batch_staleness_bound:
  assumes "mq_reachable maxsize threshold s" "consumer s = Looping b l c k" "b \<le> int (length c)" "0 \<le> b"
  shows "length c = nat b \<and> int (length (filter (is_stale (called_at s)) c)) \<le> max 0 (py_trunc (of_int b * threshold))
    \<and> called_at s \<le> mq_current (sys_q s)"
  using mq_invariants(4) [OF assms(1)] assms(2-4)
  by (auto simp: bound_inv_def max_stale_def stale_at_def)

lemma mq_reachable_step: "mq_reachable m th s \<Longrightarrow> mq_step s t \<Longrightarrow> mq_reachable m th t"
  unfolding mq_reachable_def by (rule rtranclp.rtrancl_into_rtrancl)

lemma sample_run:
  "\<exists>s. mq_reachable 2 0 s \<and> consumer s = Looping 1 0 [\<lparr>sample_data = (7 :: nat), param_version = 0\<rparr>] 0
     \<and> taken s = [\<lparr>sample_data = 7, param_version = 0\<rparr>]"
proof -
  let ?x = "\<lparr>sample_data = (7 :: nat), param_version = 0\<rparr>"
  let ?s0 = "start_system 2 0 :: nat system"
  have "mq_reachable 2 0 ?s0" by (simp add: mq_reachable_def)
  then have 1: "mq_reachable 2 0 (?s0\<lparr>sys_q := q_push ?x (sys_q ?s0), uncounted := Suc (uncounted ?s0),
      enqueued := enqueued ?s0 @ [?x]\<rparr>)" (is "mq_reachable 2 0 ?s1")
    by (rule mq_reachable_step, intro mq_step.Enqueue) (simp add: start_system_def new_mq_def q_full_def)
  from 1 have 2: "mq_reachable 2 0 (?s1\<lparr>consumer := Looping 1 (max_stale 1 (sys_q ?s1)) [] 0,
      called_at := mq_current (sys_q ?s1)\<rparr>)" (is "mq_reachable 2 0 ?s2")
    by (rule mq_reachable_step, intro mq_step.Call) (simp add: start_system_def)
  from 2 have 3: "mq_reachable 2 0 (?s2\<lparr>sys_q := (sys_q ?s2)\<lparr>mq_items := []\<rparr>,
      consumer := Holding 1 (max_stale 1 (sys_q ?s1)) [] 0 ?x, taken := taken ?s2 @ [?x]\<rparr>)" (is "mq_reachable 2 0 ?s3")
    by (rule mq_reachable_step, intro mq_step.Take)
      (simp_all add: start_system_def new_mq_def q_pop_def q_push_def)
  from 3 have 4: "mq_reachable 2 0 (?s3\<lparr>consumer := Counting 1 (max_stale 1 (sys_q ?s1)) ([] @ [?x])
      (0 + (if is_stale (mq_current (sys_q ?s3)) ?x then 1 else 0)) (is_stale (mq_current (sys_q ?s3)) ?x),
      kept := kept ?s3 @ [(?x, is_stale (mq_current (sys_q ?s3)) ?x)]\<rparr>)"
    (is "mq_reachable 2 0 ?s4")
    by (rule mq_reachable_step, intro mq_step.Keep)
      (simp_all add: start_system_def new_mq_def is_stale_def q_push_def)
  from 4 have "mq_reachable 2 0 (?s4\<lparr>sys_q := note_consumed False (sys_q ?s4),
      consumer := Looping 1 (max_stale 1 (sys_q ?s1)) [?x] 0\<rparr>)" (is "mq_reachable 2 0 ?s5")
    by (rule mq_reachable_step, intro mq_step.CountTaken)
      (simp_all add: start_system_def new_mq_def is_stale_def q_push_def)
  moreover have "consumer ?s5 = Looping 1 0 [?x] 0"
    by (simp add: max_stale_def start_system_def new_mq_def q_push_def py_trunc_def)
  moreover have "taken ?s5 = [?x]" by (simp add: start_system_def)
  ultimately show ?thesis by blast
qed

theorem message_queue_conservation_witness:
  "\<exists>s :: nat system. mq_reachable 2 0 s \<and> length (taken s) = 1 \<and> taken s @ mq_items (sys_q s) = enqueued s
     \<and> map fst (kept s) = concat (map batch_of (ended s)) @ [\<lparr>sample_data = 7, param_version = 0\<rparr>]
     \<and> mq_consumed (sys_q s) = length (kept s) \<and> mq_produced (sys_q s) + uncounted s = length (enqueued s)
     \<and> int (mq_qsize (sys_q s)) \<le> 2"
proof -
  obtain s :: "nat system" where s: "mq_reachable 2 0 s" "taken s = [\<lparr>sample_data = 7, param_version = 0\<rparr>]"
    "consumer s = Looping 1 0 [\<lparr>sample_data = 7, param_version = 0\<rparr>] 0"
    using sample_run by blast
  show ?thesis using message_queue_conservation [OF s(1)] s by (intro exI [of _ s]) auto
qed

theorem batch_staleness_bound_witness:
  "\<exists>(s :: nat system) b l c k. mq_reachable 2 0 s \<and> consumer s = Looping b l c k \<and> length c = nat b
     \<and> int (length (filter (is_stale (called_at s)) c)) \<le> max 0 (py_trunc (of_int b * 0))"
proof -
  obtain s :: "nat system" where s: "mq_reachable 2 0 s"
    "consumer s = Looping 1 0 [\<lparr>sample_data = 7, param_version = 0\<rparr>] 0"
    using sample_run by blast
  show ?thesis using batch_staleness_bound [OF s] s by (intro exI conjI) auto
qed

section \<open>The batch a quiet queue yields\<close>

abbreviation fresh_of :: "int \<Rightarrow> 'd sample list \<Rightarrow> 'd sample list" where
  "fresh_of v \<equiv> filter (\<lambda>x. \<not> is_stale v x)"

abbreviation stale_of :: "int \<Rightarrow> 'd sample list \<Rightarrow> 'd sample list" where
  "stale_of v \<equiv> filter (is_stale v)"

definition batch_selects :: "int \<Rightarrow> nat \<Rightarrow> 'd sample list \<Rightarrow> 'd sample list \<Rightarrow> bool" where
  \<comment> \<open>\<open>c\<close> takes from \<open>xs\<close>, in order, all fresh samples and the first \<open>n\<close> stale ones\<close>
  "batch_selects v n xs c =
     (subseq c xs \<and> fresh_of v c = fresh_of v xs \<and> stale_of v c = take n (stale_of v xs))"

lemma batch_selects_Cons:
  "batch_selects v n [] []"
  "batch_selects v 0 xs c \<Longrightarrow> is_stale v x \<Longrightarrow> batch_selects v 0 (x # xs) c"
  "batch_selects v n xs c \<Longrightarrow> is_stale v x \<Longrightarrow> batch_selects v (Suc n) (x # xs) (x # c)"
  "batch_selects v n xs c \<Longrightarrow> \<not> is_stale v x \<Longrightarrow> batch_selects v n (x # xs) (x # c)"
  by (auto simp: batch_selects_def)

definition batch_outcome ::
  "int \<Rightarrow> int \<Rightarrow> nat \<Rightarrow> 'd sample list \<Rightarrow> 'd sample list \<Rightarrow> 'd sample list result \<Rightarrow> 'd sample list \<Rightarrow> bool" where
  \<comment> \<open>from \<open>c\<close> collected, \<open>n\<close> stale samples still allowed and \<open>xs\<close> buffered to result \<open>r\<close>, \<open>ys\<close> buffered\<close>
  "batch_outcome v b n c xs r ys = (\<exists>tk. xs = tk @ ys \<and>
     (case r of
        Inr c' \<Rightarrow> \<exists>d. c' = c @ d \<and> batch_selects v n tk d \<and> b \<le> int (length c') \<and> (d = [] \<or> int (length c') = b)
      | Inl e \<Rightarrow> e = TimeoutError \<and> ys = []
          \<and> int (length c + length (fresh_of v tk) + min n (length (stale_of v tk))) < b))"

lemma batch_outcome_done: "b \<le> int (length c) \<Longrightarrow> batch_outcome v b n c xs (Inr c) xs"
  by (auto simp: batch_outcome_def batch_selects_Cons)

lemma batch_outcome_empty: "int (length c) < b \<Longrightarrow> batch_outcome v b n c [] (Inl TimeoutError) []"
  by (auto simp: batch_outcome_def)

lemma batch_outcome_drop:
  assumes "batch_outcome v b 0 c xs r ys" "is_stale v x"
  shows "batch_outcome v b 0 c (x # xs) r ys"
proof -
  from assms(1) obtain tk where "xs = tk @ ys" and
    "case r of
        Inr c' \<Rightarrow> \<exists>d. c' = c @ d \<and> batch_selects v 0 tk d \<and> b \<le> int (length c') \<and> (d = [] \<or> int (length c') = b)
      | Inl e \<Rightarrow> e = TimeoutError \<and> ys = [] \<and> int (length c + length (fresh_of v tk) + min 0 (length (stale_of v tk))) < b"
    unfolding batch_outcome_def by blast
  then show ?thesis unfolding batch_outcome_def using assms(2)
    by (intro exI [of _ "x # tk"]) (cases r; auto intro: batch_selects_Cons(2))
qed

lemma batch_outcome_keep:
  assumes "batch_outcome v b n (c @ [x]) xs r ys" "int (length c) < b"
  shows "batch_outcome v b (if is_stale v x then Suc n else n) c (x # xs) r ys"
proof -
  let ?n = "if is_stale v x then Suc n else n"
  from assms(1) obtain tk where tk: "xs = tk @ ys" and
    rest: "case r of
        Inr c' \<Rightarrow> \<exists>d. c' = (c @ [x]) @ d \<and> batch_selects v n tk d \<and> b \<le> int (length c') \<and> (d = [] \<or> int (length c') = b)
      | Inl e \<Rightarrow> e = TimeoutError \<and> ys = []
          \<and> int (length (c @ [x]) + length (fresh_of v tk) + min n (length (stale_of v tk))) < b"
    unfolding batch_outcome_def by blast
  show ?thesis
  proof (cases r)
    case (Inl e)
    then show ?thesis unfolding batch_outcome_def using tk rest by (intro exI [of _ "x # tk"]) auto
  next
    case (Inr c')
    then obtain d where d: "c' = c @ x # d" "batch_selects v n tk d" "b \<le> int (length c')"
      "d = [] \<or> int (length c') = b"
      using rest by auto
    have "int (length c') = b" using d assms(2) by auto
    moreover have "batch_selects v ?n (x # tk) (x # d)" using d(2) by (auto intro: batch_selects_Cons)
    ultimately show ?thesis unfolding batch_outcome_def using tk Inr d by (intro exI [of _ "x # tk"]) auto
  qed
qed

lemma get_batch_loop_spec:
  "get_batch_loop b l c k q = (r, q') \<Longrightarrow> 0 \<le> k \<Longrightarrow>
   batch_outcome (mq_current q) b (nat (l - k)) c (mq_items q) r (mq_items q')"
proof (induction b l c k q arbitrary: r q' rule: get_batch_loop.induct)
  case (1 b l c k q)
  show ?case
  proof (cases "b \<le> int (length c)")
    case True
    then show ?thesis using "1.prems"(1) by (auto simp: get_batch_loop.simps [of b l c k q] batch_outcome_done)
  next
    case more: False
    show ?thesis
    proof (cases "q_pop q")
      case None
      then show ?thesis using "1.prems"(1) more sample_queue.pop_none [of q]
        by (auto simp: get_batch_loop.simps [of b l c k q] batch_outcome_empty)
    next
      case (Some xq)
      obtain x q1 where xq: "(x, q1) = xq" by (cases xq) auto
      have items: "mq_items q = x # mq_items q1" and cur: "mq_current q1 = mq_current q"
        using Some xq by (auto simp: q_pop_def split: list.splits)
      note IH = "1.IH" [OF more Some xq refl, unfolded cur]
      let ?st = "is_stale (mq_current q) x"
      show ?thesis
      proof (cases "?st \<and> l \<le> k")
        case True
        then have "get_batch_loop b l c k q1 = (r, q')"
          using "1.prems"(1) more Some xq [symmetric] cur by (simp add: get_batch_loop.simps [of b l c k q])
        from IH(1) [OF True this "1.prems"(2)] True show ?thesis by (simp add: items batch_outcome_drop)
      next
        case False
        then have "get_batch_loop b l (c @ [x]) (k + (if ?st then 1 else 0)) (note_consumed ?st q1) = (r, q')"
          using "1.prems"(1) more Some xq [symmetric] cur
          by (cases ?st) (auto simp: get_batch_loop.simps [of b l c k q] Let_def)
        from IH(2) [OF False this] "1.prems"(2)
        have "batch_outcome (mq_current q) b (nat (l - (k + (if ?st then 1 else 0)))) (c @ [x]) (mq_items q1) r (mq_items q')"
          by (simp add: note_consumed_def cur)
        then have "batch_outcome (mq_current q) b
            (if ?st then Suc (nat (l - (k + (if ?st then 1 else 0)))) else nat (l - (k + (if ?st then 1 else 0)))) c
            (x # mq_items q1) r (mq_items q')"
          by (rule batch_outcome_keep) (use more in simp)
        moreover have "?st \<Longrightarrow> Suc (nat (l - (k + 1))) = nat (l - k)" using False by auto
        ultimately show ?thesis by (cases ?st) (simp_all add: items)
      qed
    qed
  qed
qed

text \<open>C22: what \<open>get_batch\<close> computes on a queue nobody else touches. It takes a prefix of the
  buffer, returns in order all its fresh samples and the first \<open>int(batch_size * threshold)\<close> stale
  ones, exactly \<open>batch_size\<close> of them; it times out, with the buffer empty, exactly when the buffer
  does not hold that many admissible samples.\<close>

theorem get_batch_selects:
  assumes "0 < b" "get_batch b q = (r, q')"
  shows "\<exists>tk. mq_items q = tk @ mq_items q'
    \<and> (case r of
         Inr c \<Rightarrow> length c = nat b \<and> batch_selects (mq_current q) (nat (max_stale b q)) tk c
       | Inl e \<Rightarrow> e = TimeoutError \<and> mq_items q' = []
           \<and> length (fresh_of (mq_current q) tk)
              + min (nat (max_stale b q)) (length (stale_of (mq_current q) tk)) < nat b)"
proof -
  have "batch_outcome (mq_current q) b (nat (max_stale b q)) [] (mq_items q) r (mq_items q')"
    using get_batch_loop_spec [OF assms(2) [unfolded get_batch_def]] by simp
  then show ?thesis
    unfolding batch_outcome_def by (rule ex_forward) (use assms(1) in \<open>cases r; auto\<close>)
qed

definition sample_mq :: "nat mq" where
  "sample_mq = \<lparr>mq_items = map (\<lambda>(d, v). \<lparr>sample_data = d, param_version = v\<rparr>) [(0, 4), (1, 5), (2, 4), (3, 4), (4, 5)],
     mq_maxsize = 8, mq_threshold = 1 / 2, mq_current = 5, mq_produced = 5, mq_consumed = 0, mq_stale = 0\<rparr>"

lemma sample_mq_run: "\<exists>q'. get_batch 3 sample_mq = (Inr (map (\<lambda>(d, v). \<lparr>sample_data = d, param_version = v\<rparr>)
    [(0, 4), (1, 5), (4, 5)]), q')"
proof -
  have "\<lfloor>3 / 2 :: rat\<rfloor> = 1" by (simp add: floor_eq_iff)
  then show ?thesis
    by (simp add: sample_mq_def get_batch_def max_stale_def py_trunc_def get_batch_loop.simps q_pop_def is_stale_def
        note_consumed_def)
qed

theorem get_batch_selects_witness:
  "\<exists>q' c. get_batch 3 sample_mq = (Inr c, q') \<and> length c = 3
     \<and> (\<exists>tk. mq_items sample_mq = tk @ mq_items q' \<and> batch_selects 5 (nat (max_stale 3 sample_mq)) tk c)"
proof -
  obtain q' where q': "get_batch 3 sample_mq = (Inr (map (\<lambda>(d, v). \<lparr>sample_data = d, param_version = v\<rparr>)
    [(0, 4), (1, 5), (4, 5)]), q')"
    using sample_mq_run by blast
  have "mq_current sample_mq = 5" by (simp add: sample_mq_def)
  then show ?thesis using get_batch_selects [OF _ q'] q' by auto
qed

text \<open>The module says that samples older than \<open>current_version - 1\<close> are stale; the code already
  counts those of version \<open>current_version - 1\<close>.\<close>

lemma previous_version_is_stale: "is_stale v \<lparr>sample_data = d, param_version = v - 1\<rparr>"
  by (simp add: is_stale_def)

end
