(* ===== verification/Pruned_Store.thy ===== *)
theory Pruned_Store
  imports Py_Prelude "HOL-Library.Product_Lexorder" "HOL-Library.List_Lexorder" "HOL-Library.Char_ord"
begin

text \<open>
  The interface of the directories that keep only the newest numbered entries (weight
  snapshots, checkpoint files, checkpoint directories), and a small model of a directory: its
  entries in the order \<open>iterdir\<close> lists them, each a file or a directory with its content.
\<close>

section \<open>Directories\<close>

datatype 'c fs_node = FsFile 'c | FsDir 'c

type_synonym 'c directory = "(string, 'c fs_node) dict"

fun is_dir :: "'c fs_node \<Rightarrow> bool" where
  "is_dir (FsDir _) = True"
| "is_dir (FsFile _) = False"

definition remove_entries :: "string list \<Rightarrow> 'c directory \<Rightarrow> 'c directory" where
  "remove_entries ns d = filter (\<lambda>(n, _). n \<notin> set ns) d"

definition oldest :: "nat \<Rightarrow> ('n::linorder \<times> string) list \<Rightarrow> string list" where
  \<comment> \<open>the names popped from the front of the sorted list until \<open>keep\<close> are left\<close>
  "oldest keep sorted_entries = map snd (take (length sorted_entries - keep) sorted_entries)"

definition numbered_names :: "(string \<Rightarrow> 'c fs_node \<Rightarrow> int option) \<Rightarrow> 'c directory \<Rightarrow> (int \<times> string) list" where
  \<comment> \<open>the entries that carry a number, in directory order\<close>
  "numbered_names num d = List.map_filter (\<lambda>(n, f). map_option (\<lambda>i. (i, n)) (num n f)) d"

lemma set_numbered_names: "(i, n) \<in> set (numbered_names num d) \<longleftrightarrow> (\<exists>f. (n, f) \<in> set d \<and> num n f = Some i)"
  by (force simp: numbered_names_def List.map_filter_def)

lemma map_snd_numbered:
  "map snd (numbered_names num d) = map fst (filter (\<lambda>(n, f). num n f \<noteq> None) d)"
  by (induction d) (auto simp: numbered_names_def List.map_filter_def)

lemma distinct_numbered: "distinct (dict_keys d) \<Longrightarrow> distinct (map snd (numbered_names num d))"
  unfolding map_snd_numbered by (induction d) auto

lemma numbered_remove:
  "numbered_names num (remove_entries ns d) = filter (\<lambda>(i, n). n \<notin> set ns) (numbered_names num d)"
  by (induction d) (auto simp: numbered_names_def remove_entries_def List.map_filter_def)

lemma distinct_remove: "distinct (dict_keys d) \<Longrightarrow> distinct (dict_keys (remove_entries ns d))"
  unfolding remove_entries_def by (induction d) auto

lemma map_of_remove: "map_of (remove_entries ns d) n = (if n \<in> set ns then None else map_of d n)"
  unfolding remove_entries_def by (induction d) auto

text \<open>Popping the oldest of a list sorted by number leaves its tail.\<close>

lemma remaining_after_oldest:
  assumes "distinct (map snd xs)" "mset ys = mset xs"
  shows "set (filter (\<lambda>(i, n). n \<notin> set (oldest k ys)) xs) = set (drop (length ys - k) ys)"
proof -
  let ?m = "length ys - k"
  have "mset (map snd ys) = mset (map snd xs)" using assms(2) by (metis mset_map)
  then have d: "distinct (map snd ys)" using assms(1) by (metis mset_eq_imp_distinct_iff)
  have "map snd (take ?m ys) @ map snd (drop ?m ys) = map snd ys"
    by (simp only: map_append [symmetric] append_take_drop_id)
  then have "distinct (map snd (take ?m ys) @ map snd (drop ?m ys))" using d by (simp only:)
  then have disj: "set (map snd (take ?m ys)) \<inter> set (map snd (drop ?m ys)) = {}" by simp
  have "set xs = set ys" using mset_eq_setD [OF assms(2)] by simp
  also have "set ys = set (take ?m ys @ drop ?m ys)" by (simp only: append_take_drop_id)
  finally have "set xs = set (take ?m ys) \<union> set (drop ?m ys)" by (simp only: set_append)
  then have "set (filter (\<lambda>(i, n). n \<notin> set (oldest k ys)) xs)
      = {p \<in> set (take ?m ys) \<union> set (drop ?m ys). snd p \<notin> snd ` set (take ?m ys)}"
    by (auto simp: oldest_def image_iff)
  also have "\<dots> = set (drop ?m ys)" using disj by auto
  finally show ?thesis .
qed

section \<open>The interface\<close>

locale pruned_store =
  fixes names :: "'s \<Rightarrow> string set"
    and num :: "string \<Rightarrow> int"
    and ok :: "'s \<Rightarrow> bool"
    and prune :: "nat \<Rightarrow> 's \<Rightarrow> 's"
    and save :: "string \<Rightarrow> 'c \<Rightarrow> 's \<Rightarrow> 's"
    and saveable :: "string \<Rightarrow> bool"
  assumes finite_names: "finite (names s)"
    and prune_ok: "ok s \<Longrightarrow> ok (prune k s)"
    and prune_subset: "ok s \<Longrightarrow> names (prune k s) \<subseteq> names s"
    and prune_card: "ok s \<Longrightarrow> card (names (prune k s)) = min k (card (names s))"
    and prune_newest: "ok s \<Longrightarrow> a \<in> names s \<Longrightarrow> a \<notin> names (prune k s) \<Longrightarrow> b \<in> names (prune k s) \<Longrightarrow> num a \<le> num b"
    and save_ok: "ok s \<Longrightarrow> saveable n \<Longrightarrow> ok (save n c s)"
    and save_names: "ok s \<Longrightarrow> saveable n \<Longrightarrow> names (save n c s) = insert n (names s)"
begin

lemma newest_survives:
  assumes "ok s" "n \<in> names s" "0 < k" "\<And>m. m \<in> names s \<Longrightarrow> m \<noteq> n \<Longrightarrow> num m < num n"
  shows "n \<in> names (prune k s)"
proof (rule ccontr)
  assume out: "n \<notin> names (prune k s)"
  have "0 < card (names s)" using assms(2) finite_names card_gt_0_iff by blast
  then have "names (prune k s) \<noteq> {}" using prune_card [OF assms(1), of k] assms(3) by force
  then obtain m where m: "m \<in> names (prune k s)" by blast
  then have "m \<in> names s" "m \<noteq> n" using prune_subset [OF assms(1)] out by blast+
  then show False using assms(4) prune_newest [OF assms(1,2) out m] by fastforce
qed

lemma prune_all_kept: "ok s \<Longrightarrow> card (names s) \<le> k \<Longrightarrow> names (prune k s) = names s"
  by (rule card_subset_eq) (simp_all add: finite_names prune_subset prune_card)

text \<open>Save then prune: the bound holds and the new entry stays when it is the newest.\<close>

lemma save_prune:
  assumes "ok s" "saveable n" "0 < k" "\<And>m. m \<in> names s \<Longrightarrow> m \<noteq> n \<Longrightarrow> num m < num n"
  shows "n \<in> names (prune k (save n c s)) \<and> card (names (prune k (save n c s))) \<le> k
    \<and> ok (prune k (save n c s))"
  using newest_survives [of "save n c s" n k] assms
  by (simp add: save_ok save_names prune_ok prune_card)

text \<open>Prune to one less, then save: the bound holds at every moment.\<close>

lemma prune_save:
  assumes "ok s" "saveable n" "0 < k"
  shows "n \<in> names (save n c (prune (k - 1) s)) \<and> card (names (save n c (prune (k - 1) s))) \<le> k
    \<and> card (names (prune (k - 1) s)) < k \<and> ok (save n c (prune (k - 1) s))"
proof -
  have c: "card (names (prune (k - 1) s)) \<le> k - 1" using prune_card [OF assms(1), of "k - 1"] by simp
  then have "card (insert n (names (prune (k - 1) s))) \<le> Suc (k - 1)"
    by (simp add: card_insert_if finite_names)
  then show ?thesis using c assms by (simp add: save_ok save_names prune_ok)
qed

end

section \<open>Pruning by number implements the interface\<close>

definition prune_numbered :: "(string \<Rightarrow> 'c fs_node \<Rightarrow> int option) \<Rightarrow> ((int \<times> string) list \<Rightarrow> (int \<times> string) list)
    \<Rightarrow> nat \<Rightarrow> 'c directory \<Rightarrow> 'c directory" where
  "prune_numbered num order k d = remove_entries (oldest k (order (numbered_names num d))) d"

lemma prune_numbered_set:
  assumes "distinct (dict_keys d)" "\<And>xs. mset (order xs) = mset xs"
  shows "set (numbered_names num (prune_numbered num order k d))
    = set (drop (length (order (numbered_names num d)) - k) (order (numbered_names num d)))"
  unfolding prune_numbered_def numbered_remove
  by (rule remaining_after_oldest) (simp_all add: distinct_numbered assms)

lemma prune_numbered_names:
  assumes "distinct (dict_keys d)" "\<And>xs. mset (order xs) = mset xs"
  shows "snd ` set (numbered_names num (prune_numbered num order k d)) \<subseteq> snd ` set (numbered_names num d)"
    and "card (snd ` set (numbered_names num (prune_numbered num order k d)))
          = min k (card (snd ` set (numbered_names num d)))"
proof -
  let ?ys = "order (numbered_names num d)"
  note s = prune_numbered_set [OF assms, where num = num and k = k]
  have sub: "set (drop (length ?ys - k) ?ys) \<subseteq> set (numbered_names num d)"
    using mset_eq_setD [OF assms(2) [of "numbered_names num d"]] by (metis set_drop_subset)
  then show "snd ` set (numbered_names num (prune_numbered num order k d)) \<subseteq> snd ` set (numbered_names num d)"
    using s by blast
  have "mset (map snd ?ys) = mset (map snd (numbered_names num d))" by (simp add: assms(2))
  then have d: "distinct (map snd ?ys)"
    using distinct_numbered [OF assms(1)] by (metis mset_eq_imp_distinct_iff)
  have "distinct (map snd (drop (length ?ys - k) ?ys))"
    unfolding drop_map [symmetric] using d by (rule distinct_drop)
  from distinct_card [OF this]
  have "card (snd ` set (drop (length ?ys - k) ?ys)) = length (drop (length ?ys - k) ?ys)"
    by (simp only: set_map length_map)
  moreover have "card (snd ` set (numbered_names num d)) = length ?ys"
    using distinct_card [OF distinct_numbered [OF assms(1)]] mset_eq_length [OF assms(2)] by simp
  ultimately show "card (snd ` set (numbered_names num (prune_numbered num order k d)))
      = min k (card (snd ` set (numbered_names num d)))"
    using s by simp
qed

lemma prune_numbered_newest:
  assumes "distinct (dict_keys d)" "\<And>xs. mset (order xs) = mset xs" "\<And>xs. sorted (map fst (order xs))"
    and "(i, a) \<in> set (numbered_names num d)" "a \<notin> snd ` set (numbered_names num (prune_numbered num order k d))"
    and "(j, b) \<in> set (numbered_names num (prune_numbered num order k d))"
  shows "i \<le> j"
proof -
  let ?ys = "order (numbered_names num d)"
  let ?m = "length ?ys - k"
  note s = prune_numbered_set [OF assms(1,2), where num = num and k = k]
  have "(i, a) \<in> set ?ys" using assms(4) mset_eq_setD [OF assms(2) [of "numbered_names num d"]] by simp
  then have "(i, a) \<in> set (take ?m ?ys) \<union> set (drop ?m ?ys)"
    by (simp only: set_append [symmetric] append_take_drop_id)
  moreover have "(i, a) \<notin> set (drop ?m ?ys)" using assms(5) unfolding s by force
  ultimately have "(i, a) \<in> set (take ?m ?ys)" by blast
  moreover have "(j, b) \<in> set (drop ?m ?ys)" using assms(6) s by simp
  moreover have "sorted (map fst (take ?m ?ys) @ map fst (drop ?m ?ys))"
    using assms(3) by (simp only: map_append [symmetric] append_take_drop_id)
  ultimately show ?thesis by (force simp: sorted_append)
qed

definition numbered_set :: "(string \<Rightarrow> 'c fs_node \<Rightarrow> int option) \<Rightarrow> 'c directory \<Rightarrow> string set" where
  "numbered_set num d = snd ` set (numbered_names num d)"

lemma numbered_set_iff: "n \<in> numbered_set num d \<longleftrightarrow> (\<exists>f i. (n, f) \<in> set d \<and> num n f = Some i)"
  by (simp add: numbered_set_def image_iff Bex_def set_numbered_names) blast

lemma numbered_set_save:
  assumes "distinct (dict_keys d)" "num k v \<noteq> None"
  shows "numbered_set num (dict_set k v d) = insert k (numbered_set num d)"
proof (rule set_eqI)
  fix n
  show "n \<in> numbered_set num (dict_set k v d) \<longleftrightarrow> n \<in> insert k (numbered_set num d)"
    using assms(2) by (cases "n = k") (simp_all add: numbered_set_iff set_dict_set [OF assms(1)])
qed

lemma pruned_storeI:
  fixes num :: "string \<Rightarrow> 'c fs_node \<Rightarrow> int option" and mk :: "'v \<Rightarrow> 'c fs_node"
  assumes num: "\<And>n f i. num n f = Some i \<Longrightarrow> number n = i"
    and order: "\<And>xs. mset (order xs) = mset xs" "\<And>xs. sorted (map fst (order xs))"
    and save: "\<And>n c. saveable n \<Longrightarrow> num n (mk c) \<noteq> None"
  shows "pruned_store (numbered_set num) number (\<lambda>d. distinct (dict_keys d)) (prune_numbered num order)
    (\<lambda>n c d. dict_set n (mk c) d) saveable"
proof
  fix d k a b
  show "finite (numbered_set num d)" by (simp add: numbered_set_def)
  assume d: "distinct (dict_keys d)"
  show "distinct (dict_keys (prune_numbered num order k d))"
    unfolding prune_numbered_def by (rule distinct_remove [OF d])
  show "numbered_set num (prune_numbered num order k d) \<subseteq> numbered_set num d"
    unfolding numbered_set_def by (rule prune_numbered_names [OF d order(1)])
  show "card (numbered_set num (prune_numbered num order k d)) = min k (card (numbered_set num d))"
    unfolding numbered_set_def by (rule prune_numbered_names [OF d order(1)])
  assume a: "a \<in> numbered_set num d" "a \<notin> numbered_set num (prune_numbered num order k d)"
    and b: "b \<in> numbered_set num (prune_numbered num order k d)"
  from a(1) obtain i where i: "(i, a) \<in> set (numbered_names num d)" by (auto simp: numbered_set_def)
  from b obtain j where j: "(j, b) \<in> set (numbered_names num (prune_numbered num order k d))"
    by (auto simp: numbered_set_def)
  have "i \<le> j" by (rule prune_numbered_newest [OF d order i _ j]) (use a(2) in \<open>simp add: numbered_set_def\<close>)
  moreover have "number a = i" "number b = j" using i j num by (auto simp: set_numbered_names)
  ultimately show "number a \<le> number b" by simp
next
  fix d :: "'c directory" and n :: string and c :: 'v
  assume "distinct (dict_keys d)" "saveable n"
  then show "distinct (dict_keys (dict_set n (mk c) d))"
    and "numbered_set num (dict_set n (mk c) d) = insert n (numbered_set num d)"
    using save by (simp_all add: numbered_set_save)
qed

end
