(* ===== verification/Weight_Sync.thy ===== *)
theory Weight_Sync
  imports Pruned_Store
begin

text \<open>
  \<open>lumenrl/trainer/weight_sync.py\<close>: weight snapshots on a shared filesystem. The sync
  directory is the model of \<open>Pruned_Store\<close>; a snapshot is a directory \<open>v<version>\<close> with the
  weights written into it. \<open>push\<close> returns its result together with the new state, since a
  cleanup that raises leaves the snapshot written.
\<close>

record 'w weight_sync =
  ws_dir :: "'w directory"
  ws_keep :: int
  ws_version :: int

definition new_weight_sync :: "'w directory \<Rightarrow> int \<Rightarrow> 'w weight_sync" where
  \<comment> \<open>opening a sync directory that may already hold snapshots\<close>
  "new_weight_sync d keep = \<lparr>ws_dir = d, ws_keep = keep, ws_version = 0\<rparr>"

definition version_dir :: "int \<Rightarrow> string" where
  "version_dir v = ''v'' @ show_int v"

definition version_of :: "string \<Rightarrow> 'w fs_node \<Rightarrow> int option" where
  "version_of n f = (if is_dir f \<and> has_prefix ''v'' n then py_int (drop 1 n) else None)"

definition cleanup_old_versions :: "'w weight_sync \<Rightarrow> unit result \<times> 'w weight_sync" where
  \<comment> \<open>a directory \<open>v...\<close> whose tail is not a number raises ValueError; a negative bound removes
      everything and then pops from the empty list\<close>
  "cleanup_old_versions w =
     (if list_ex (\<lambda>(n, f). is_dir f \<and> has_prefix ''v'' n \<and> py_int (drop 1 n) = None) (ws_dir w)
      then (Inl ValueError, w)
      else (if ws_keep w < 0 then Inl IndexError else Inr (),
            w\<lparr>ws_dir := prune_numbered version_of sort (nat (ws_keep w)) (ws_dir w)\<rparr>))"

definition push :: "'w \<Rightarrow> int option \<Rightarrow> 'w weight_sync \<Rightarrow> string result \<times> 'w weight_sync" where
  "push weights version w =
     (let v = (case version of None \<Rightarrow> ws_version w + 1 | Some v \<Rightarrow> v);
          w1 = w\<lparr>ws_version := v\<rparr>; n = version_dir v
      in case map_of (ws_dir w1) n of
           Some (FsFile _) \<Rightarrow> (Inl OSError, w1)
         | _ \<Rightarrow>
             (let w2 = w1\<lparr>ws_dir := dict_set n (FsDir weights) (ws_dir w1)\<rparr>;
                  (r, w3) = cleanup_old_versions w2
              in (bind_result r (\<lambda>_. Inr n), w3)))"

definition latest_path :: "'w weight_sync \<Rightarrow> string option" where
  "latest_path w = (if version_dir (ws_version w) \<in> set (dict_keys (ws_dir w))
     then Some (version_dir (ws_version w)) else None)"

definition latest_version :: "'w weight_sync \<Rightarrow> int" where
  "latest_version w = foldl max 0 (map fst (numbered_names version_of (ws_dir w)))"

section \<open>The sync directory is a pruned store\<close>

definition snapshot_number :: "string \<Rightarrow> int" where
  "snapshot_number n = the (py_int (drop 1 n))"

lemma version_of_dir [simp]: "version_of (version_dir v) (FsDir c) = Some v"
  by (simp add: version_of_def version_dir_def has_prefix_def)

lemma version_dir_inject [simp]: "version_dir v = version_dir w \<longleftrightarrow> v = w"
  by (simp add: version_dir_def)

lemma snapshot_number_dir [simp]: "snapshot_number (version_dir v) = v"
  by (simp add: snapshot_number_def version_dir_def)

lemma version_of_number: "version_of n f = Some i \<Longrightarrow> snapshot_number n = i"
  by (auto simp: version_of_def snapshot_number_def split: if_splits)

lemma sorted_fst_sort: "sorted (map fst (sort (xs :: (int \<times> string) list)))"
proof -
  have "sorted (sort xs)" by simp
  then show ?thesis
    by (simp add: sorted_map sorted_wrt_mono_rel [of _ "(\<le>)"] less_eq_prod_def)
      (rule sorted_wrt_mono_rel [of _ "(\<le>)"], auto simp: less_eq_prod_def)
qed

interpretation snapshots: pruned_store "numbered_set version_of" snapshot_number "\<lambda>d. distinct (dict_keys d)"
  "prune_numbered version_of sort" "\<lambda>n c d. dict_set n (FsDir c) d" "\<lambda>n. \<exists>v. n = version_dir v"
  by (rule pruned_storeI) (auto simp: version_of_number sorted_fst_sort)

lemma foldl_max: "foldl max m xs = Max (insert (m :: int) (set xs))"
proof -
  have "foldl max m xs = fold max xs m" by (simp add: foldl_conv_fold max.commute)
  then show ?thesis using Max.set_eq_fold [of m xs] by simp
qed

section \<open>Properties\<close>

lemma latest_version_Max:
  "latest_version w = Max (insert 0 (snapshot_number ` numbered_set version_of (ws_dir w)))"
proof -
  have "fst ` set (numbered_names version_of (ws_dir w)) = snapshot_number ` numbered_set version_of (ws_dir w)"
    by (force simp: numbered_set_def set_numbered_names image_iff dest: version_of_number)
  then show ?thesis by (simp add: latest_version_def foldl_max)
qed

definition numeric_dir :: "'w directory \<Rightarrow> bool" where
  \<comment> \<open>distinct names, and every directory \<open>v...\<close> carries a number\<close>
  "numeric_dir d = (distinct (dict_keys d) \<and>
     list_all (\<lambda>(n, f). is_dir f \<and> has_prefix ''v'' n \<longrightarrow> py_int (drop 1 n) \<noteq> None) d)"

text \<open>C31: pushing a version newer than every snapshot on disk writes it, keeps it through the
  cleanup, makes it the latest on disk and in memory, and leaves at most \<open>keep_versions\<close>
  snapshots, the removed ones being the oldest.\<close>

theorem push_newest:
  assumes "numeric_dir (ws_dir w)" "0 < ws_keep w" "0 < v"
    and "\<forall>n \<in> numbered_set version_of (ws_dir w). snapshot_number n < v"
    and "map_of (ws_dir w) (version_dir v) = None"
  shows "\<exists>w'. push weights (Some v) w = (Inr (version_dir v), w')
    \<and> latest_path w' = Some (version_dir v) \<and> latest_version w' = v
    \<and> map_of (ws_dir w') (version_dir v) = Some (FsDir weights)
    \<and> card (numbered_set version_of (ws_dir w')) \<le> nat (ws_keep w)
    \<and> (\<forall>a \<in> numbered_set version_of (ws_dir w). \<forall>b \<in> numbered_set version_of (ws_dir w').
         a \<notin> numbered_set version_of (ws_dir w') \<longrightarrow> snapshot_number a \<le> snapshot_number b)"
proof -
  let ?n = "version_dir v" and ?k = "nat (ws_keep w)"
  let ?d = "dict_set ?n (FsDir weights) (ws_dir w)"
  let ?w' = "w\<lparr>ws_version := v, ws_dir := prune_numbered version_of sort ?k ?d\<rparr>"
  have d: "distinct (dict_keys (ws_dir w))" using assms(1) by (simp add: numeric_dir_def)
  have "\<not> list_ex (\<lambda>(n, f). is_dir f \<and> has_prefix ''v'' n \<and> py_int (drop 1 n) = None) ?d"
    using assms(1) set_dict_set_subset [of ?n "FsDir weights" "ws_dir w"]
    by (fastforce simp: numeric_dir_def list_all_iff list_ex_iff version_dir_def)
  then have push: "push weights (Some v) w = (Inr ?n, ?w')"
    using assms(2,5) by (simp add: push_def cleanup_old_versions_def Let_def)
  have names: "numbered_set version_of ?d = insert ?n (numbered_set version_of (ws_dir w))"
    by (rule numbered_set_save [OF d]) simp
  have newer: "\<And>m. m \<in> numbered_set version_of (ws_dir w) \<Longrightarrow> m \<noteq> ?n \<Longrightarrow> snapshot_number m < snapshot_number ?n"
    using assms(4) by simp
  have kept: "?n \<in> numbered_set version_of (ws_dir ?w')"
    and bound: "card (numbered_set version_of (ws_dir ?w')) \<le> ?k"
    using snapshots.save_prune [OF d _ _ newer, of ?k weights] assms(2) by auto
  have sub: "numbered_set version_of (ws_dir ?w') \<subseteq> numbered_set version_of ?d"
    using snapshots.prune_subset [of ?d ?k] d by simp
  have in_dir: "map_of (ws_dir ?w') ?n = Some (FsDir weights)"
  proof -
    have "?n \<in> fst ` set (ws_dir ?w')" using kept by (force simp: numbered_set_iff)
    then have "map_of (ws_dir ?w') ?n \<noteq> None" by (simp add: map_of_eq_None_iff)
    then show ?thesis by (simp add: prune_numbered_def map_of_remove split: if_splits)
  qed
  then have "?n \<in> set (dict_keys (ws_dir ?w'))" by (metis map_of_eq_None_iff option.distinct(1) set_map)
  then have path: "latest_path ?w' = Some ?n" by (simp add: latest_path_def)
  have "Max (insert 0 (snapshot_number ` numbered_set version_of (ws_dir ?w'))) = v"
  proof (rule Max_eqI)
    show "finite (insert 0 (snapshot_number ` numbered_set version_of (ws_dir ?w')))" by (simp add: numbered_set_def)
    show "v \<in> insert 0 (snapshot_number ` numbered_set version_of (ws_dir ?w'))"
      using kept by (force simp: image_iff)
    show "y \<le> v" if "y \<in> insert 0 (snapshot_number ` numbered_set version_of (ws_dir ?w'))" for y
      using that sub names assms(3,4) by (fastforce dest: less_imp_le)
  qed
  then have version: "latest_version ?w' = v" by (simp add: latest_version_Max)
  have oldest: "snapshot_number a \<le> snapshot_number b" if "a \<in> numbered_set version_of (ws_dir w)"
    "b \<in> numbered_set version_of (ws_dir ?w')" "a \<notin> numbered_set version_of (ws_dir ?w')" for a b
    using snapshots.prune_newest [of ?d a ?k b] that names d by simp
  show ?thesis using push path version in_dir bound oldest by blast
qed

definition sync_two :: "nat weight_sync" where
  "sync_two = new_weight_sync [(''v5'', FsDir 50), (''v6'', FsDir 60)] 2"

lemma sync_two_simps:
  "numeric_dir (ws_dir sync_two)" "ws_keep sync_two = 2"
  "numbered_set version_of (ws_dir sync_two) = {''v5'', ''v6''}"
  "snapshot_number ''v5'' = 5" "snapshot_number ''v6'' = 6" "version_dir 7 = ''v7''" "version_dir 1 = ''v1''"
  "map_of (ws_dir sync_two) ''v7'' = None"
  by code_simp+

theorem push_newest_witness:
  "\<exists>w'. push 70 (Some 7) sync_two = (Inr ''v7'', w') \<and> latest_path w' = Some ''v7'' \<and> latest_version w' = 7
     \<and> card (numbered_set version_of (ws_dir w')) \<le> 2"
  using push_newest [of sync_two 7 70] by (auto simp: sync_two_simps)

text \<open>A trainer that starts counting again while newer snapshots are on disk: its push succeeds,
  and the cleanup deletes the snapshot it has just written.\<close>

lemma push_older_is_deleted:
  "\<exists>w'. push 10 (Some 1) sync_two = (Inr ''v1'', w') \<and> latest_path w' = None \<and> latest_version w' = 6"
proof -
  have "push 10 (Some 1) sync_two = (Inr ''v1'', snd (push 10 (Some 1) sync_two))
      \<and> latest_path (snd (push 10 (Some 1) sync_two)) = None \<and> latest_version (snd (push 10 (Some 1) sync_two)) = 6"
    by code_simp
  then show ?thesis by blast
qed

text \<open>A directory beside the snapshots whose name starts with \<open>v\<close> makes every push raise, after the
  weights are written; \<open>latest_version\<close> skips it.\<close>

lemma push_fails_on_other_directory:
  "fst (push (1 :: nat) None (new_weight_sync [(''vllm'', FsDir 0)] 2)) = Inl ValueError"
  "latest_version (snd (push (1 :: nat) None (new_weight_sync [(''vllm'', FsDir 0)] 2))) = 1"
  by code_simp+

end
