(* ===== verification/Checkpointing.thy ===== *)
theory Checkpointing
  imports Pruned_Store
begin

text \<open>
  Checkpoint files and directories: \<open>lumenrl/utils/checkpoint.py\<close>, the checkpoint callback of
  \<open>lumenrl/trainer/callbacks.py\<close> and the node-local pruning of
  \<open>lumenrl/workers/actor_worker.py\<close>. What a checkpoint contains is an opaque payload; writing it
  and removing a tree are assumed to succeed, except that \<open>unlink\<close> refuses a directory, which
  the code ignores.
\<close>

section \<open>Numbered names\<close>

definition match_number :: "string \<Rightarrow> string \<Rightarrow> string \<Rightarrow> int option" where
  \<comment> \<open>\<open>re.match(pre + "(\\d+)" + suf + "$", s)\<close> and the number of its group: the \<open>$\<close> also matches
      before a final newline. \<open>suf\<close> does not begin with a digit.\<close>
  "match_number pre suf s =
     (if \<not> has_prefix pre s then None
      else let r = drop (length pre) s; ds = takeWhile is_digit r; t = dropWhile is_digit r
           in if t = suf \<or> t = suf @ ''\<newline>'' then map_option int (parse_digits False 0 ds) else None)"

definition checkpoint_file :: "int \<Rightarrow> string" where
  "checkpoint_file step = ''checkpoint_'' @ show_int step @ ''.pt''"

definition step_dir :: "int \<Rightarrow> string" where
  "step_dir step = ''global_step_'' @ show_int step"

definition file_number :: "string \<Rightarrow> 'c fs_node \<Rightarrow> int option" where
  "file_number n f = match_number ''checkpoint_'' ''.pt'' n"

definition dir_number :: "string \<Rightarrow> 'c fs_node \<Rightarrow> int option" where
  "dir_number n f = (if is_dir f then match_number ''global_step_'' [] n else None)"

section \<open>Saving, loading, pruning\<close>

definition manager_save :: "string \<Rightarrow> 'c \<Rightarrow> 'c directory \<Rightarrow> 'c directory" where
  \<comment> \<open>\<open>CheckpointManager.save\<close> of the payload under a name of the directory\<close>
  "manager_save n c d = dict_set n (FsFile c) d"

definition get_latest :: "'c directory \<Rightarrow> string option" where
  \<comment> \<open>the first entry with the highest step, in directory order\<close>
  "get_latest d = map_option snd
     (foldl (\<lambda>best (step, p). case best of
         None \<Rightarrow> Some (step, p)
       | Some (b, q) \<Rightarrow> if step > b then Some (step, p) else Some (b, q))
       None (numbered_names file_number d))"

definition keep_count :: "int \<Rightarrow> int option \<Rightarrow> nat" where
  "keep_count save_total_limit keep = (case keep of None \<Rightarrow> nat save_total_limit | Some k \<Rightarrow> nat (max 0 k))"

definition prune_old_checkpoints :: "int \<Rightarrow> int option \<Rightarrow> 'c directory \<Rightarrow> 'c directory" where
  \<comment> \<open>\<open>unlink\<close> removes files; on a directory it raises OSError, which is swallowed\<close>
  "prune_old_checkpoints limit keep d =
     (let ns = oldest (keep_count limit keep) (sort_key fst (numbered_names file_number d))
      in filter (\<lambda>(n, f). \<not> (n \<in> set ns \<and> \<not> is_dir f)) d)"

definition prune_old_ray_checkpoints :: "int \<Rightarrow> int option \<Rightarrow> 'c directory \<Rightarrow> 'c directory" where
  "prune_old_ray_checkpoints limit keep d =
     prune_numbered dir_number (sort_key fst) (keep_count limit keep) d"

definition worker_prune_checkpoints :: "int \<Rightarrow> int \<Rightarrow> 'c directory option \<Rightarrow> string list \<times> 'c directory option" where
  \<comment> \<open>\<open>LumenActorWorker.prune_checkpoints\<close>: the removed names and the node's checkpoint root
      after; None: the root is not a directory\<close>
  "worker_prune_checkpoints rank max_to_keep root =
     (if rank \<noteq> 0 then ([], root)
      else case root of
        None \<Rightarrow> ([], None)
      | Some d \<Rightarrow>
          (let ns = oldest (nat (max 0 max_to_keep)) (sort_key fst (numbered_names dir_number d))
           in (ns, Some (remove_entries ns d))))"

record checkpoint_callback =
  save_interval :: int
  save_total_limit :: int

definition new_checkpoint_callback :: "int \<Rightarrow> int \<Rightarrow> checkpoint_callback" where
  "new_checkpoint_callback interval limit = \<lparr>save_interval = max 1 interval, save_total_limit = max 1 limit\<rparr>"

definition save_due :: "checkpoint_callback \<Rightarrow> int \<Rightarrow> bool" where
  \<comment> \<open>whether \<open>on_step_end\<close> saves after the 0-based \<open>step\<close>\<close>
  "save_due cb step = (0 < step + 1 \<and> (step + 1) mod save_interval cb = 0)"

definition local_step_end :: "checkpoint_callback \<Rightarrow> int \<Rightarrow> int \<Rightarrow> 'c \<Rightarrow> 'c directory \<Rightarrow> 'c directory" where
  \<comment> \<open>\<open>on_step_end\<close> without a Ray controller\<close>
  "local_step_end cb rank step payload d =
     (if \<not> save_due cb step \<or> rank \<noteq> 0 then d
      else manager_save (checkpoint_file (step + 1)) payload
        (prune_old_checkpoints (save_total_limit cb) (Some (save_total_limit cb - 1)) d))"

definition save_ray_controller_checkpoint ::
  "checkpoint_callback \<Rightarrow> int \<Rightarrow> 'c \<Rightarrow> 'c \<Rightarrow> 'c directory \<Rightarrow> 'c directory option \<Rightarrow>
   ('c directory \<times> 'c directory option) result" where
  \<comment> \<open>the controller's checkpoint root and the one on the actor node; \<open>meta\<close> goes into the
      controller's step directory, \<open>shards\<close> into the actor's\<close>
  "save_ray_controller_checkpoint cb global_step meta shards ctrl node =
     (let limit = save_total_limit cb; n = step_dir global_step;
          ctrl1 = prune_old_ray_checkpoints limit (Some (limit - 1)) ctrl;
          (_, node1) = worker_prune_checkpoints 0 (max 0 (limit - 1)) node;
          node2 = dict_set n (FsDir shards) (case node1 of None \<Rightarrow> [] | Some d \<Rightarrow> d)
      in case map_of ctrl1 n of
           Some (FsFile _) \<Rightarrow> Inl OSError
         | _ \<Rightarrow>
             (let ctrl2 = dict_set ''latest_checkpointed_iteration.txt'' (FsFile meta) (dict_set n (FsDir meta) ctrl1);
                  ctrl3 = prune_old_ray_checkpoints limit None ctrl2;
                  (_, node3) = worker_prune_checkpoints 0 limit (Some node2)
              in Inr (ctrl3, node3)))"

section \<open>Ranks writing in phases\<close>

definition ranks_by_host :: "string list \<Rightarrow> (string, nat list) dict" where
  \<comment> \<open>\<open>setdefault(host, []).append(rank)\<close> over the gathered host names\<close>
  "ranks_by_host hosts =
     foldl (\<lambda>d (r, h). dict_set h ((case map_of d h of None \<Rightarrow> [] | Some rs \<Rightarrow> rs) @ [r]) d)
       [] (zip [0..<length hosts] hosts)"

definition checkpoint_rank_phases :: "string list \<Rightarrow> nat list list result" where
  \<comment> \<open>with torch.distributed initialised; \<open>max\<close> of nothing raises ValueError\<close>
  "checkpoint_rank_phases hosts =
     (let groups = map snd (ranks_by_host hosts)
      in if groups = [] then Inl ValueError
         else Inr (map (\<lambda>phase. List.map_filter (\<lambda>rs. if phase < length rs then Some (rs ! phase) else None) groups)
                [0..<foldr max (map length groups) 0]))"

definition run_checkpoint_phase :: "bool \<Rightarrow> py_error option list \<Rightarrow> nat \<Rightarrow> unit result" where
  \<comment> \<open>the outcome on one rank, from the local error of every rank (\<open>local ! rank\<close> its own)\<close>
  "run_checkpoint_phase initialized local rank =
     (if \<not> initialized then (case local ! rank of None \<Rightarrow> Inr () | Some e \<Rightarrow> Inl e)
      else if list_all (\<lambda>e. e = None) local then Inr () else Inl RuntimeError)"

section \<open>Checkpoint directories are pruned stores\<close>

lemma takeWhile_digits: "(\<And>c. c \<in> set ds \<Longrightarrow> is_digit c) \<Longrightarrow> (t = [] \<or> \<not> is_digit (hd t)) \<Longrightarrow>
    takeWhile is_digit (ds @ t) = ds \<and> dropWhile is_digit (ds @ t) = t"
  by (induction ds) (cases t; auto)+

lemma match_number_show:
  assumes "0 \<le> i" "suf = [] \<or> \<not> is_digit (hd suf)"
  shows "match_number pre suf (pre @ show_int i @ suf) = Some i"
proof -
  have digits: "takeWhile is_digit (show_nat (nat i) @ suf) = show_nat (nat i)"
    "dropWhile is_digit (show_nat (nat i) @ suf) = suf"
    using takeWhile_digits [of "show_nat (nat i)" suf] show_nat_digits assms(2) by blast+
  then show ?thesis
    using assms(1) by (simp add: match_number_def show_int_def Let_def parse_digits_show_nat)
qed

definition files_only :: "'c directory \<Rightarrow> bool" where
  \<comment> \<open>distinct names, and whatever is named like a checkpoint is a file\<close>
  "files_only d = (distinct (dict_keys d) \<and>
     list_all (\<lambda>(n, f). file_number n f \<noteq> None \<longrightarrow> \<not> is_dir f) d)"

definition file_step :: "string \<Rightarrow> int" where
  "file_step n = the (match_number ''checkpoint_'' ''.pt'' n)"

definition dir_step :: "string \<Rightarrow> int" where
  "dir_step n = the (match_number ''global_step_'' [] n)"

lemma file_number_checkpoint [simp]:
  "0 \<le> i \<Longrightarrow> file_number (checkpoint_file i) f = Some i" "0 \<le> i \<Longrightarrow> file_step (checkpoint_file i) = i"
  using match_number_show [of i "''.pt''" "''checkpoint_''"]
  by (simp_all add: file_number_def file_step_def checkpoint_file_def is_digit_def)

lemma dir_number_step [simp]:
  "0 \<le> i \<Longrightarrow> dir_number (step_dir i) (FsDir c) = Some i" "0 \<le> i \<Longrightarrow> dir_step (step_dir i) = i"
  using match_number_show [of i "[]" "''global_step_''"]
  by (simp_all add: dir_number_def dir_step_def step_dir_def)

lemma sorted_sort_key_fst: "sorted (map fst (sort_key fst (xs :: (int \<times> string) list)))"
  by simp

lemma mset_sort_key_fst: "mset (sort_key fst (xs :: (int \<times> string) list)) = mset xs"
  by simp

lemma all_files_store: "pruned_store (numbered_set file_number) file_step (\<lambda>d. distinct (dict_keys d))
    (prune_numbered file_number (sort_key fst)) (\<lambda>n c d. dict_set n (FsFile c) d) (\<lambda>n. \<exists>i \<ge> 0. n = checkpoint_file i)"
proof (rule pruned_storeI)
  show "file_number n f = Some i \<Longrightarrow> file_step n = i" for n and f :: "'a fs_node" and i
    by (simp add: file_number_def file_step_def)
qed auto

lemma prune_files_eq:
  assumes "files_only d"
  shows "prune_old_checkpoints limit keep d = prune_numbered file_number (sort_key fst) (keep_count limit keep) d"
proof -
  let ?ns = "oldest (keep_count limit keep) (sort_key fst (numbered_names file_number d))"
  have "\<not> is_dir f" if "(n, f) \<in> set d" "n \<in> set ?ns" for n f
  proof -
    from that(2) obtain i where "(i, n) \<in> set (numbered_names file_number d)"
      by (auto simp: oldest_def dest: in_set_takeD)
    then obtain g where "(n, g) \<in> set d" "file_number n g = Some i" by (auto simp: set_numbered_names)
    moreover have "g = f"
      using assms that(1) \<open>(n, g) \<in> set d\<close> by (auto simp: files_only_def intro: eq_key_imp_eq_value)
    ultimately show ?thesis using assms by (auto simp: files_only_def list_all_iff)
  qed
  then show ?thesis
    unfolding prune_old_checkpoints_def prune_numbered_def remove_entries_def Let_def
    by (intro filter_cong) auto
qed

interpretation numbered_files: pruned_store "numbered_set file_number" file_step "\<lambda>d. distinct (dict_keys d)"
  "prune_numbered file_number (sort_key fst)" "\<lambda>n c d. dict_set n (FsFile c) d" "\<lambda>n. \<exists>i \<ge> 0. n = checkpoint_file i"
  by (rule all_files_store)

abbreviation prune_to :: "nat \<Rightarrow> 'c directory \<Rightarrow> 'c directory" where
  "prune_to k \<equiv> prune_old_checkpoints 0 (Some (int k))"

lemma prune_to_eq: "files_only d \<Longrightarrow> prune_to k d = prune_numbered file_number (sort_key fst) k d"
  by (simp add: prune_files_eq keep_count_def)

lemma files_onlyD: "files_only d \<Longrightarrow> (n, f) \<in> set d \<Longrightarrow> file_number n f = Some i \<Longrightarrow> \<not> is_dir f"
  by (auto simp: files_only_def list_all_iff)

lemma files_only_remove: "files_only d \<Longrightarrow> files_only (remove_entries ns d)"
  by (auto simp: files_only_def remove_entries_def list_all_iff intro: distinct_remove [unfolded remove_entries_def])

interpretation checkpoint_files: pruned_store "numbered_set file_number" file_step files_only
  prune_to manager_save "\<lambda>n. \<exists>i \<ge> 0. n = checkpoint_file i"
proof unfold_locales
  fix d :: "'c directory" and k a b
  show "finite (numbered_set file_number d)" by (simp add: numbered_set_def)
  assume ok: "files_only d"
  then have d: "distinct (dict_keys d)" by (simp add: files_only_def)
  show "files_only (prune_to k d)"
    unfolding prune_to_eq [OF ok] prune_numbered_def by (rule files_only_remove [OF ok])
  show "numbered_set file_number (prune_to k d) \<subseteq> numbered_set file_number d"
    "card (numbered_set file_number (prune_to k d)) = min k (card (numbered_set file_number d))"
    "a \<in> numbered_set file_number d \<Longrightarrow> a \<notin> numbered_set file_number (prune_to k d) \<Longrightarrow>
     b \<in> numbered_set file_number (prune_to k d) \<Longrightarrow> file_step a \<le> file_step b"
    unfolding prune_to_eq [OF ok]
    by (rule numbered_files.prune_subset [OF d] numbered_files.prune_card [OF d] numbered_files.prune_newest [OF d];
        assumption)+
next
  fix d :: "'c directory" and n :: string and c :: 'c
  assume ok: "files_only d" and n: "\<exists>i \<ge> 0. n = checkpoint_file i"
  then have d: "distinct (dict_keys d)" by (simp add: files_only_def)
  show "files_only (manager_save n c d)"
    using d files_onlyD [OF ok]
    by (auto simp: files_only_def manager_save_def list_all_iff set_dict_set [OF d] split: if_splits)
  show "numbered_set file_number (manager_save n c d) = insert n (numbered_set file_number d)"
    unfolding manager_save_def by (rule numbered_files.save_names [OF d n])
qed

interpretation step_dirs: pruned_store "numbered_set dir_number" dir_step "\<lambda>d. distinct (dict_keys d)"
  "\<lambda>k (d :: 'c directory). prune_old_ray_checkpoints 0 (Some (int k)) d" "\<lambda>n (c :: 'c) d. dict_set n (FsDir c) d"
  "\<lambda>n. \<exists>i \<ge> 0. n = step_dir i"
proof -
  have "prune_numbered dir_number (sort_key fst) = (\<lambda>k d. prune_old_ray_checkpoints 0 (Some (int k)) (d :: 'c directory))"
    by (simp add: fun_eq_iff prune_old_ray_checkpoints_def keep_count_def)
  moreover have "pruned_store (numbered_set dir_number) dir_step (\<lambda>d :: 'c directory. distinct (dict_keys d))
    (prune_numbered dir_number (sort_key fst)) (\<lambda>n (c :: 'c) d. dict_set n (FsDir c) d) (\<lambda>n. \<exists>i \<ge> 0. n = step_dir i)"
  proof (rule pruned_storeI)
    show "dir_number n f = Some i \<Longrightarrow> dir_step n = i" for n and f :: "'c fs_node" and i
      by (simp add: dir_number_def dir_step_def split: if_splits)
  qed auto
  ultimately show "pruned_store (numbered_set dir_number) dir_step (\<lambda>d :: 'c directory. distinct (dict_keys d))
    (\<lambda>k d. prune_old_ray_checkpoints 0 (Some (int k)) d) (\<lambda>n (c :: 'c) d. dict_set n (FsDir c) d) (\<lambda>n. \<exists>i \<ge> 0. n = step_dir i)"
    by simp
qed

section \<open>Properties\<close>

lemma prune_limit_eq:
  "0 < limit \<Longrightarrow> prune_old_checkpoints limit (Some (limit - 1)) d = prune_to (nat limit - 1) d"
  by (simp add: prune_old_checkpoints_def keep_count_def nat_diff_distrib)

definition latest_of :: "(int \<times> string) list \<Rightarrow> (int \<times> string) option" where
  "latest_of = foldl (\<lambda>best (step, p). case best of
      None \<Rightarrow> Some (step, p)
    | Some (b, q) \<Rightarrow> if step > b then Some (step, p) else Some (b, q)) None"

lemma latest_of_highest:
  "latest_of xs = Some (i, n) \<Longrightarrow> (i, n) \<in> set xs \<and> (\<forall>(j, m) \<in> set xs. j \<le> i)"
proof (induction xs arbitrary: i n rule: rev_induct)
  case Nil
  then show ?case by (simp add: latest_of_def)
next
  case (snoc x xs)
  obtain j m where x: "x = (j, m)" by (cases x)
  have step: "latest_of (xs @ [x]) = (case latest_of xs of None \<Rightarrow> Some (j, m)
      | Some (b, q) \<Rightarrow> if j > b then Some (j, m) else Some (b, q))"
    by (simp add: latest_of_def x)
  show ?case
  proof (cases "latest_of xs")
    case None
    have "xs = []"
    proof (rule ccontr)
      assume "xs \<noteq> []"
      then obtain ys y where "xs = ys @ [y]" by (cases xs rule: rev_cases) auto
      then show False using None by (auto simp: latest_of_def split: option.splits prod.splits if_splits)
    qed
    then show ?thesis using None step snoc.prems by (simp add: x)
  next
    case (Some bq)
    obtain b q where bq: "bq = (b, q)" by (cases bq)
    show ?thesis
      using snoc.IH [of b q] Some bq step snoc.prems by (auto simp: x split: if_splits)
  qed
qed

lemma latest_of_None: "latest_of xs = None \<longleftrightarrow> xs = []"
  by (cases xs rule: rev_cases) (auto simp: latest_of_def split: option.splits prod.splits)

lemma get_latest_newest:
  assumes "n \<in> numbered_set file_number d" "\<And>m. m \<in> numbered_set file_number d \<Longrightarrow> m \<noteq> n \<Longrightarrow> file_step m < file_step n"
  shows "get_latest d = Some n"
proof -
  let ?xs = "numbered_names file_number d"
  have num: "(i, m) \<in> set ?xs \<Longrightarrow> i = file_step m" for i m
    by (auto simp: set_numbered_names file_number_def file_step_def)
  obtain i where i: "(i, n) \<in> set ?xs" using assms(1) by (auto simp: numbered_set_def)
  then obtain j m where jm: "latest_of ?xs = Some (j, m)" using latest_of_None [of ?xs] by (cases "latest_of ?xs") auto
  from latest_of_highest [OF this] i have "(j, m) \<in> set ?xs" "i \<le> j" by auto
  then have "m \<in> numbered_set file_number d" "file_step n \<le> file_step m"
    using num i by (force simp: numbered_set_def)+
  then have "m = n" using assms(2) [of m] by force
  then show ?thesis using jm by (simp add: get_latest_def latest_of_def [symmetric])
qed

text \<open>C32: a due save of the local checkpoint callback keeps at most \<open>save_total_limit\<close> checkpoint
  files, and strictly fewer while it writes; the new file holds the payload; and when its step is
  the highest, it is what \<open>get_latest\<close> finds on restart.\<close>

theorem checkpoint_retention:
  fixes d :: "'c directory" and payload :: 'c
  assumes "files_only d" "save_due cb step" "0 < save_total_limit cb"
  defines "pruned \<equiv> prune_old_checkpoints (save_total_limit cb) (Some (save_total_limit cb - 1)) d"
  defines "d' \<equiv> local_step_end cb 0 step payload d"
  shows "int (card (numbered_set file_number d')) \<le> save_total_limit cb
    \<and> int (card (numbered_set file_number pruned)) < save_total_limit cb
    \<and> files_only d' \<and> map_of d' (checkpoint_file (step + 1)) = Some (FsFile payload)
    \<and> ((\<forall>n \<in> numbered_set file_number d. file_step n < step + 1) \<longrightarrow>
         get_latest d' = Some (checkpoint_file (step + 1)))"
proof -
  let ?n = "checkpoint_file (step + 1)" and ?k = "nat (save_total_limit cb)"
  have step: "0 \<le> step + 1" using assms(2) by (simp add: save_due_def)
  then have sv: "\<exists>i \<ge> 0. ?n = checkpoint_file i" by blast
  have pr: "pruned = prune_to (?k - 1) d" unfolding pruned_def by (rule prune_limit_eq [OF assms(3)])
  have d': "d' = manager_save ?n payload pruned"
    using assms(2) by (simp add: d'_def local_step_end_def pruned_def)
  have k: "0 < ?k" using assms(3) by simp
  note ret = checkpoint_files.prune_save [OF assms(1) sv k, of payload, folded pr, folded d']
  have names: "numbered_set file_number d' = insert ?n (numbered_set file_number pruned)"
    unfolding d' by (rule checkpoint_files.save_names [OF _ sv])
      (simp add: pr checkpoint_files.prune_ok [OF assms(1)])
  have "get_latest d' = Some ?n" if "\<forall>n \<in> numbered_set file_number d. file_step n < step + 1"
  proof (rule get_latest_newest)
    show "?n \<in> numbered_set file_number d'" by (simp add: names)
    fix m assume "m \<in> numbered_set file_number d'" "m \<noteq> ?n"
    then have "m \<in> numbered_set file_number d"
      using names checkpoint_files.prune_subset [OF assms(1), of "?k - 1"] by (auto simp: pr)
    then show "file_step m < file_step ?n" using that step by simp
  qed
  then show ?thesis using ret assms(3) by (auto simp: d' manager_save_def)
qed

definition sample_ckpts :: "nat directory" where
  "sample_ckpts = [(''checkpoint_2.pt'', FsFile 2), (''checkpoint_10.pt'', FsFile 10), (''notes.txt'', FsFile 0),
     (''checkpoint_4.pt'', FsFile 4)]"

theorem checkpoint_retention_witness:
  "int (card (numbered_set file_number (local_step_end (new_checkpoint_callback 2 3) 0 11 12 sample_ckpts))) \<le> 3
    \<and> get_latest (local_step_end (new_checkpoint_callback 2 3) 0 11 12 sample_ckpts) = Some ''checkpoint_12.pt''"
proof -
  have "files_only sample_ckpts" "save_due (new_checkpoint_callback 2 3) 11"
    "save_total_limit (new_checkpoint_callback 2 3) = 3" "checkpoint_file 12 = ''checkpoint_12.pt''"
    "\<forall>n \<in> numbered_set file_number sample_ckpts. file_step n < 12"
    by code_simp+
  then show ?thesis
    using checkpoint_retention [of sample_ckpts "new_checkpoint_callback 2 3" 11 12] by simp
qed

section \<open>Phases\<close>

lemma ranks_by_host_snoc:
  "ranks_by_host (hosts @ [h]) = dict_set h
     ((case map_of (ranks_by_host hosts) h of None \<Rightarrow> [] | Some rs \<Rightarrow> rs) @ [length hosts]) (ranks_by_host hosts)"
  by (simp add: ranks_by_host_def)

lemma ranks_by_host_spec:
  "distinct (dict_keys (ranks_by_host hosts)) \<and>
   map_of (ranks_by_host hosts) h =
     (if h \<in> set hosts then Some (filter (\<lambda>r. hosts ! r = h) [0..<length hosts]) else None)"
proof (induction hosts arbitrary: h rule: rev_induct)
  case Nil
  show ?case by (simp add: ranks_by_host_def)
next
  case (snoc x hosts)
  have old: "filter (\<lambda>r. (hosts @ [x]) ! r = h) [0..<length hosts] = filter (\<lambda>r. hosts ! r = h) [0..<length hosts]" for h
    by (rule filter_cong) (simp_all add: nth_append)
  have none: "filter (\<lambda>r. hosts ! r = x) [0..<length hosts] = []" if "x \<notin> set hosts"
    using that by (auto simp: filter_empty_conv)
  show ?case
    using snoc [of x] snoc [of h] none by (auto simp: ranks_by_host_snoc old)
qed

lemma ranks_by_host_mem:
  assumes "(h, rs) \<in> set (ranks_by_host hosts)"
  shows "rs = filter (\<lambda>r. hosts ! r = h) [0..<length hosts]"
proof -
  have "map_of (ranks_by_host hosts) h = Some rs"
    using assms ranks_by_host_spec by (meson map_of_is_SomeI)
  then show ?thesis using ranks_by_host_spec [of hosts h] by (simp split: if_splits)
qed

lemma mset_ranks_by_host: "mset (concat (map snd (ranks_by_host hosts))) = mset [0..<length hosts]"
proof (induction hosts rule: rev_induct)
  case Nil
  show ?case by (simp add: ranks_by_host_def)
next
  case (snoc x hosts)
  have upd: "mset (concat (map snd (dict_set k (the_default @ [n]) d)))
      = mset (concat (map snd d)) + {#n#}"
    if "distinct (dict_keys d)" "the_default = (case map_of d k of None \<Rightarrow> [] | Some rs \<Rightarrow> rs)"
    for k n the_default and d :: "(string, nat list) dict"
    using that
  proof (induction d)
    case (Cons kv d)
    then show ?case by (cases kv) (auto simp: ac_simps)
  qed simp
  show ?case
    unfolding ranks_by_host_snoc using ranks_by_host_spec snoc by (subst upd) simp_all
qed

definition phase_of :: "nat list list \<Rightarrow> nat \<Rightarrow> nat list" where
  "phase_of groups p = List.map_filter (\<lambda>rs. if p < length rs then Some (rs ! p) else None) groups"

lemma phase_of_simps [simp]:
  "phase_of [] p = []"
  "phase_of (rs # groups) p = (if p < length rs then [rs ! p] else []) @ phase_of groups p"
  by (simp_all add: phase_of_def List.map_filter_def)

lemma mset_concat_append:
  "mset (concat (map (\<lambda>p. f p @ g p) ps)) = mset (concat (map f ps)) + mset (concat (map g ps))"
  by (induction ps) (simp_all add: ac_simps)

lemma concat_nths: "length rs \<le> n \<Longrightarrow> concat (map (\<lambda>p. if p < length rs then [rs ! p] else []) [0..<n]) = rs"
proof (induction n arbitrary: rs)
  case 0
  then show ?case by simp
next
  case (Suc n)
  show ?case
  proof (cases "length rs = Suc n")
    case True
    then obtain xs x where rs: "rs = xs @ [x]" "length xs = n" by (cases rs rule: rev_cases) auto
    have "concat (map (\<lambda>p. if p < length rs then [rs ! p] else []) [0..<n])
        = concat (map (\<lambda>p. if p < length xs then [xs ! p] else []) [0..<n])"
      by (rule arg_cong [where f = concat], rule map_cong) (simp_all add: rs nth_append)
    then show ?thesis using Suc.IH [of xs] rs by (simp add: nth_append)
  next
    case False
    then show ?thesis using Suc by simp
  qed
qed

lemma mset_phases: "(\<And>rs. rs \<in> set groups \<Longrightarrow> length rs \<le> n) \<Longrightarrow>
    mset (concat (map (phase_of groups) [0..<n])) = mset (concat groups)"
proof (induction groups)
  case Nil
  show ?case by (induction n) simp_all
next
  case (Cons rs groups)
  have "map (phase_of (rs # groups)) [0..<n]
      = map (\<lambda>p. (if p < length rs then [rs ! p] else []) @ phase_of groups p) [0..<n]"
    by simp
  then have "mset (concat (map (phase_of (rs # groups)) [0..<n]))
      = mset (concat (map (\<lambda>p. if p < length rs then [rs ! p] else []) [0..<n])) + mset (concat (map (phase_of groups) [0..<n]))"
    by (simp only: mset_concat_append)
  also have "\<dots> = mset rs + mset (concat groups)"
    using Cons concat_nths [of rs n] by simp
  finally show ?case by (simp del: phase_of_simps)
qed

lemma widest_group: "rs \<in> set groups \<Longrightarrow> length rs \<le> foldr max (map length groups) (0 :: nat)"
  by (induction groups) auto

lemma phase_hosts:
  assumes "\<And>h rs. (h, rs) \<in> set d \<Longrightarrow> \<forall>r \<in> set rs. host r = h"
  shows "map host (phase_of (map snd d) p) = map fst (filter (\<lambda>(h, rs). p < length rs) d)"
  using assms
proof (induction d)
  case (Cons kv d)
  obtain h rs where kv: "kv = (h, rs)" by (cases kv)
  have head: "host (rs ! p) = h" if "p < length rs" using Cons.prems [of h rs] that by (simp add: kv)
  have "map host (phase_of (map snd d) p) = map fst (filter (\<lambda>(h, rs). p < length rs) d)"
    by (rule Cons.IH) (use Cons.prems in auto)
  then show ?case using head by (simp add: kv)
qed simp

text \<open>checkpoint writing in phases. Every rank writes in exactly one phase, no phase has two
  ranks of one host, and there are no more phases than the busiest host has ranks.\<close>

theorem checkpoint_phases_partition:
  assumes "hosts \<noteq> []"
  shows "\<exists>phases. checkpoint_rank_phases hosts = Inr phases
    \<and> mset (concat phases) = mset [0..<length hosts]
    \<and> list_all (\<lambda>ph. distinct (map (\<lambda>r. hosts ! r) ph)) phases
    \<and> (\<exists>h \<in> set hosts. length phases = length (filter (\<lambda>r. hosts ! r = h) [0..<length hosts]))"
proof -
  let ?d = "ranks_by_host hosts"
  let ?groups = "map snd ?d"
  let ?n = "foldr max (map length ?groups) 0"
  have d: "distinct (dict_keys ?d)" using ranks_by_host_spec by blast
  have ne: "?d \<noteq> []"
  proof
    assume "?d = []"
    then have "length [0..<length hosts] = 0"
      using mset_ranks_by_host [of hosts, THEN mset_eq_length] by simp
    then show False using assms by simp
  qed
  have phases: "checkpoint_rank_phases hosts = Inr (map (phase_of ?groups) [0..<?n])"
    using ne by (simp add: checkpoint_rank_phases_def phase_of_def [abs_def] Let_def)
  have perm: "mset (concat (map (phase_of ?groups) [0..<?n])) = mset [0..<length hosts]"
    using mset_phases [OF widest_group] mset_ranks_by_host by metis
  have "distinct (map (\<lambda>r. hosts ! r) (phase_of ?groups p))" for p
  proof -
    have "map (\<lambda>r. hosts ! r) (phase_of ?groups p) = map fst (filter (\<lambda>(h, rs). p < length rs) ?d)"
      by (rule phase_hosts) (auto dest: ranks_by_host_mem)
    then show ?thesis using d by (simp add: distinct_map_filter)
  qed
  then have dist: "list_all (\<lambda>ph. distinct (map (\<lambda>r. hosts ! r) ph)) (map (phase_of ?groups) [0..<?n])"
    by (simp add: list_all_iff)
  have "?n \<in> length ` set ?groups"
  proof -
    have widest: "foldr max ws 0 \<in> set ws" if "ws \<noteq> []" for ws :: "nat list"
      using that
    proof (induction ws)
      case (Cons w ws)
      then show ?case by (cases "ws = []") (auto simp: max_def)
    qed simp
    have "?n \<in> set (map length ?groups)" by (rule widest) (simp add: ne)
    then show ?thesis by (simp only: set_map)
  qed
  then obtain h rs where "(h, rs) \<in> set ?d" "?n = length rs"
    unfolding set_map image_image by (elim imageE) (metis prod.collapse)
  moreover from this have "h \<in> set hosts" using ranks_by_host_spec [of hosts h] d
    by (metis map_of_is_SomeI option.distinct(1))
  ultimately have "\<exists>h \<in> set hosts. ?n = length (filter (\<lambda>r. hosts ! r = h) [0..<length hosts])"
    using ranks_by_host_mem by blast
  then show ?thesis
    using phases perm dist by (intro exI [of _ "map (phase_of ?groups) [0..<?n]"]) simp
qed

theorem checkpoint_phases_partition_witness:
  "\<exists>phases. checkpoint_rank_phases [''n0'', ''n0'', ''n1'', ''n0'', ''n1''] = Inr phases
    \<and> mset (concat phases) = mset [0..<length [''n0'', ''n0'', ''n1'', ''n0'', ''n1'']]"
  using checkpoint_phases_partition [of "[''n0'', ''n0'', ''n1'', ''n0'', ''n1'']"] by auto

end
