(* ===== verification/Priority_Queue.thy ===== *)
theory Priority_Queue
  imports Py_Prelude
begin

text \<open>
  Python's \<open>heapq\<close>: a binary heap in a list, with the sift operations of the standard library,
  for an arbitrary \<open>__lt__\<close>. The locale \<open>priority_queue\<close> states what a client that repeatedly
  combines two popped entries relies on: no entry is lost or invented.
\<close>

section \<open>The interface\<close>

locale priority_queue =
  fixes push :: "'h \<Rightarrow> 'a \<Rightarrow> 'h"
    and pop :: "'h \<Rightarrow> ('a \<times> 'h) option"
    and bag :: "'h \<Rightarrow> 'a multiset"
    and empty :: 'h
  assumes bag_empty: "bag empty = {#}"
    and bag_push: "bag (push h x) = add_mset x (bag h)"
    and pop_some: "bag h \<noteq> {#} \<Longrightarrow> \<exists>x h'. pop h = Some (x, h')"
    and bag_pop: "pop h = Some (x, h') \<Longrightarrow> bag h = add_mset x (bag h')"
begin

lemma bag_pushes: "bag (foldl push h xs) = bag h + mset xs"
  by (induction xs arbitrary: h) (simp_all add: bag_push)

lemma pop_two:
  assumes "1 < size (bag h)"
  shows "\<exists>a b h1 h2. pop h = Some (a, h1) \<and> pop h1 = Some (b, h2)
    \<and> bag h = add_mset a (add_mset b (bag h2))"
proof -
  from assms obtain a h1 where a: "pop h = Some (a, h1)" using pop_some [of h] by fastforce
  with assms have "bag h1 \<noteq> {#}" using bag_pop [OF a] by auto
  then obtain b h2 where "pop h1 = Some (b, h2)" using pop_some by blast
  with a show ?thesis using bag_pop by metis
qed

text \<open>Combining the two popped entries into one preserves every quantity the combination adds
  up, and every property it keeps.\<close>

lemma combine_two:
  fixes measure :: "'a \<Rightarrow> 'm :: comm_monoid_add"
  assumes "pop h = Some (a, h1)" "pop h1 = Some (b, h2)"
    and "\<And>x. x \<in># bag h \<Longrightarrow> P x"
    and "\<And>x y. P x \<Longrightarrow> P y \<Longrightarrow> P (join x y) \<and> measure (join x y) = measure x + measure y"
  shows "size (bag (push h2 (join a b))) + 1 = size (bag h)
    \<and> (\<forall>x \<in># bag (push h2 (join a b)). P x)
    \<and> sum_mset (image_mset measure (bag (push h2 (join a b)))) = sum_mset (image_mset measure (bag h))"
proof -
  have h: "bag h = add_mset a (add_mset b (bag h2))" using bag_pop assms(1,2) by metis
  then have "P a" "P b" using assms(3) by auto
  then show ?thesis using assms(3,4) h by (auto simp: bag_push add.assoc)
qed

end

section \<open>Sifting\<close>

function siftdown :: "('a \<Rightarrow> 'a \<Rightarrow> bool) \<Rightarrow> 'a \<Rightarrow> nat \<Rightarrow> nat \<Rightarrow> 'a list \<Rightarrow> 'a list" where
  \<comment> \<open>\<open>heapq._siftdown(heap, startpos, pos)\<close> with \<open>newitem = heap[pos]\<close>\<close>
  "siftdown lt newitem startpos pos heap =
     (if startpos < pos \<and> lt newitem (heap ! ((pos - 1) div 2))
      then siftdown lt newitem startpos ((pos - 1) div 2) (heap[pos := heap ! ((pos - 1) div 2)])
      else heap[pos := newitem])"
  by auto
termination by (relation "measure (\<lambda>(_, _, _, pos, _). pos)") auto

definition smaller_child :: "('a \<Rightarrow> 'a \<Rightarrow> bool) \<Rightarrow> nat \<Rightarrow> 'a list \<Rightarrow> nat" where
  "smaller_child lt pos heap =
     (let child = 2 * pos + 1; right = child + 1
      in if right < length heap \<and> \<not> lt (heap ! child) (heap ! right) then right else child)"

function siftup :: "('a \<Rightarrow> 'a \<Rightarrow> bool) \<Rightarrow> 'a \<Rightarrow> nat \<Rightarrow> nat \<Rightarrow> 'a list \<Rightarrow> 'a list" where
  \<comment> \<open>\<open>heapq._siftup(heap, pos)\<close>: the smaller child moves up until a leaf is reached, then
      \<open>_siftdown\<close>\<close>
  "siftup lt newitem startpos pos heap =
     (if 2 * pos + 1 < length heap
      then siftup lt newitem startpos (smaller_child lt pos heap)
             (heap[pos := heap ! smaller_child lt pos heap])
      else siftdown lt newitem startpos pos (heap[pos := newitem]))"
  by auto
termination
  by (relation "measure (\<lambda>(_, _, _, pos, heap). length heap - pos)") (auto simp: smaller_child_def Let_def)

definition heappush :: "('a \<Rightarrow> 'a \<Rightarrow> bool) \<Rightarrow> 'a list \<Rightarrow> 'a \<Rightarrow> 'a list" where
  "heappush lt heap item = siftdown lt item 0 (length heap) (heap @ [item])"

definition heappop :: "('a \<Rightarrow> 'a \<Rightarrow> bool) \<Rightarrow> 'a list \<Rightarrow> ('a \<times> 'a list) option" where
  \<comment> \<open>None stands for the IndexError of an empty heap\<close>
  "heappop lt heap =
     (case heap of
        [] \<Rightarrow> None
      | _ \<Rightarrow>
          let lastelt = last heap; rest = butlast heap
          in (case rest of
                [] \<Rightarrow> Some (lastelt, [])
              | returnitem # _ \<Rightarrow> Some (returnitem, siftup lt lastelt 0 0 (rest[0 := lastelt]))))"

declare siftdown.simps [simp del] siftup.simps [simp del]

lemma mset_hole:
  assumes "i < length xs" "j < length xs" "i \<noteq> j"
  shows "mset (xs[i := xs ! j, j := x]) = mset (xs[i := x])"
proof -
  have "mset (xs[i := x, j := x, i := xs ! j]) = mset (xs[i := x])"
    using mset_swap [of i "xs[i := x]" j] assms by simp
  moreover have "xs[i := x, j := x, i := xs ! j] = xs[i := xs ! j, j := x]"
    using assms by (intro nth_equalityI) (simp_all add: nth_list_update)
  ultimately show ?thesis by simp
qed

lemma mset_siftdown:
  "pos < length heap \<Longrightarrow> mset (siftdown lt x start pos heap) = mset (heap[pos := x])"
proof (induction lt x start pos heap rule: siftdown.induct)
  case (1 lt x start pos heap)
  show ?case
  proof (cases "start < pos \<and> lt x (heap ! ((pos - 1) div 2))")
    case True
    let ?up = "(pos - 1) div 2"
    have "mset (siftdown lt x start ?up (heap[pos := heap ! ?up])) = mset (heap[pos := heap ! ?up, ?up := x])"
      by (rule "1.IH" [OF True]) (use "1.prems" in auto)
    also have "\<dots> = mset (heap[pos := x])" by (rule mset_hole) (use "1.prems" True in auto)
    finally show ?thesis using True by (subst siftdown.simps) simp
  next
    case False
    then show ?thesis by (subst siftdown.simps) (simp only: if_False)
  qed
qed

lemma mset_siftup:
  "pos < length heap \<Longrightarrow> mset (siftup lt x start pos heap) = mset (heap[pos := x])"
proof (induction lt x start pos heap rule: siftup.induct)
  case (1 lt x start pos heap)
  show ?case
  proof (cases "2 * pos + 1 < length heap")
    case True
    let ?c = "smaller_child lt pos heap"
    have c: "?c < length heap" "?c \<noteq> pos" using True by (auto simp: smaller_child_def Let_def)
    have "mset (siftup lt x start ?c (heap[pos := heap ! ?c])) = mset (heap[pos := heap ! ?c, ?c := x])"
      by (rule "1.IH" [OF True]) (use c in auto)
    also have "\<dots> = mset (heap[pos := x])" by (rule mset_hole) (use "1.prems" c in auto)
    finally show ?thesis using True by (subst siftup.simps) simp
  next
    case False
    then show ?thesis using "1.prems" by (subst siftup.simps) (simp add: mset_siftdown)
  qed
qed

lemma mset_heappush: "mset (heappush lt heap x) = add_mset x (mset heap)"
  by (simp add: heappush_def mset_siftdown)

lemma heappop_Some: "heap \<noteq> [] \<Longrightarrow> \<exists>x rest. heappop lt heap = Some (x, rest)"
  by (auto simp: heappop_def Let_def split: list.split)

lemma mset_heappop:
  assumes "heappop lt heap = Some (x, rest)"
  shows "mset heap = add_mset x (mset rest)"
proof (cases heap rule: rev_cases)
  case Nil
  then show ?thesis using assms by (simp add: heappop_def)
next
  case (snoc ys y)
  show ?thesis
  proof (cases ys)
    case Nil
    then show ?thesis using assms snoc by (simp add: heappop_def)
  next
    case (Cons z zs)
    then show ?thesis using assms snoc by (auto simp: heappop_def Let_def mset_siftup)
  qed
qed

interpretation heapq: priority_queue "heappush lt" "heappop lt" mset "[]"
  by unfold_locales (simp_all add: mset_heappush heappop_Some mset_heappop)

lemma length_heappop: "heappop lt heap = Some (x, rest) \<Longrightarrow> length heap = Suc (length rest)"
  by (metis mset_heappop size_add_mset size_mset)

lemma length_heappush [simp]: "length (heappush lt heap x) = Suc (length heap)"
  by (metis mset_heappush size_add_mset size_mset)

end
