(* ===== verification/Seqlen_Balancing.thy ===== *)
theory Seqlen_Balancing
  imports Priority_Queue Complex_Main "HOL-Library.Product_Lexorder" "HOL-Library.List_Lexorder"
begin

text \<open>
  \<open>lumenrl/utils/seqlen_balancing.py\<close> and its caller \<open>_balance_batch\<close> of
  \<open>trainer/rl_trainer.py\<close>: the Karmarkar-Karp largest differencing method that splits the rows
  of a batch into \<open>k\<close> groups of similar total length, on the heap of \<open>Priority_Queue\<close>.
\<close>

section \<open>Sets and states\<close>

datatype kk_set = KK_Set (set_sum: int) (set_items: "(nat \<times> int) list")

definition kk_key :: "kk_set \<Rightarrow> int \<times> nat \<times> (nat \<times> int) list" where
  "kk_key s = (set_sum s, length (set_items s), set_items s)"

lemma kk_key_inject: "kk_key s = kk_key t \<longleftrightarrow> s = t"
  by (cases s; cases t) (auto simp: kk_key_def)

definition kk_set_lt :: "kk_set \<Rightarrow> kk_set \<Rightarrow> bool" where
  \<comment> \<open>\<open>_Set.__lt__\<close>: by sum, then number of items, then the items\<close>
  "kk_set_lt s t =
     (if set_sum s \<noteq> set_sum t then set_sum s < set_sum t
      else if length (set_items s) \<noteq> length (set_items t) then length (set_items s) < length (set_items t)
      else set_items s < set_items t)"

instantiation kk_set :: linorder
begin

definition less_kk_set :: "kk_set \<Rightarrow> kk_set \<Rightarrow> bool" where
  "less_kk_set = kk_set_lt"

definition less_eq_kk_set :: "kk_set \<Rightarrow> kk_set \<Rightarrow> bool" where
  "less_eq_kk_set s t = (s < t \<or> s = t)"

lemma less_kk_key: "s < t \<longleftrightarrow> kk_key s < kk_key t"
  by (auto simp: less_kk_set_def kk_set_lt_def kk_key_def)

lemma le_kk_key: "s \<le> t \<longleftrightarrow> kk_key s \<le> kk_key t"
  by (auto simp: less_eq_kk_set_def less_kk_key order.order_iff_strict kk_key_inject)

instance
  by standard (auto simp: less_kk_key le_kk_key kk_key_inject [symmetric])

end

definition set_add :: "nat \<Rightarrow> int \<Rightarrow> kk_set \<Rightarrow> kk_set" where
  "set_add idx v s = KK_Set (set_sum s + v) (set_items s @ [(idx, v)])"

definition set_merge :: "kk_set \<Rightarrow> kk_set \<Rightarrow> kk_set" where
  "set_merge s t = KK_Set (set_sum s + set_sum t) (set_items s @ set_items t)"

definition sort_desc :: "'a::linorder list \<Rightarrow> 'a list" where
  \<comment> \<open>\<open>xs.sort(reverse=True)\<close> of a total order\<close>
  "sort_desc xs = rev (sort xs)"

record kk_state =
  st_k :: int
  st_sets :: "kk_set list"

definition mk_state :: "(nat \<times> int) list \<Rightarrow> int \<Rightarrow> kk_state result" where
  \<comment> \<open>\<open>_State.__init__\<close>: \<open>self.sets[i]\<close> raises IndexError beyond \<open>k\<close> items\<close>
  "mk_state items k =
     (if length items > nat k then Inl IndexError
      else Inr \<lparr>st_k = k, st_sets = sort_desc
        (map (\<lambda>(idx, v). set_add idx v (KK_Set 0 [])) items @ replicate (nat k - length items) (KK_Set 0 []))\<rparr>)"

definition spread :: "kk_state \<Rightarrow> int" where
  \<comment> \<open>only taken of states with at least one set: \<open>k \<ge> 1\<close> whenever two states are compared\<close>
  "spread st = set_sum (hd (st_sets st)) - set_sum (last (st_sets st))"

definition state_merge :: "kk_state \<Rightarrow> kk_state \<Rightarrow> kk_state" where
  \<comment> \<open>\<open>s0.merge(s1)\<close>, the new value of \<open>s0\<close>\<close>
  "state_merge s0 s1 = s0\<lparr>st_sets := sort_desc
     (map (\<lambda>i. set_merge (st_sets s0 ! i) (st_sets s1 ! (nat (st_k s0) - 1 - i))) [0..<nat (st_k s0)])\<rparr>"

definition state_lt :: "kk_state \<Rightarrow> kk_state \<Rightarrow> bool" where
  "state_lt s t =
     (if spread s \<noteq> spread t then spread s > spread t else hd (st_sets s) > hd (st_sets t))"

definition state_partitions :: "kk_state \<Rightarrow> nat list list" where
  "state_partitions st = map (\<lambda>s. map fst (set_items s)) (st_sets st)"

section \<open>The differencing loop\<close>

function kk_loop :: "kk_state list \<Rightarrow> kk_state list" where
  \<comment> \<open>\<open>while len(pq) > 1\<close>\<close>
  "kk_loop pq =
     (if length pq \<le> 1 then pq
      else case heappop state_lt pq of
        None \<Rightarrow> pq
      | Some (s0, pq1) \<Rightarrow>
          (case heappop state_lt pq1 of
             None \<Rightarrow> pq1
           | Some (s1, pq2) \<Rightarrow> kk_loop (heappush state_lt pq2 (state_merge s0 s1))))"
  by auto
termination
  by (relation "measure length") (auto dest!: length_heappop)

declare kk_loop.simps [simp del]

definition karmarkar_karp :: "int list \<Rightarrow> int \<Rightarrow> bool \<Rightarrow> nat list list result" where
  "karmarkar_karp seqlen_list k equal_size =
     (let n = length seqlen_list; sl = sort (zip seqlen_list [0..<n]);
          states =
            (if equal_size
             then if k = 0 then Inl ZeroDivisionError
                  else if int n mod k \<noteq> 0 then Inl AssertionError
                  else map_result (\<lambda>m. mk_state
                         (map (\<lambda>j. (snd (sl ! (m * nat k + j)), fst (sl ! (m * nat k + j)))) [0..<nat k]) k)
                         [0..<n div nat k]
             else map_result (\<lambda>(v, idx). mk_state [(idx, v)] k) sl)
      in bind_result states (\<lambda>sts.
           case kk_loop (foldl (heappush state_lt) [] sts) of
             [] \<Rightarrow> Inl IndexError
           | st # _ \<Rightarrow> Inr (state_partitions st)))"

definition get_seqlen_balanced_partitions :: "int list \<Rightarrow> int \<Rightarrow> bool \<Rightarrow> nat list list result" where
  "get_seqlen_balanced_partitions seqlen_list k equal_size =
     (if int (length seqlen_list) < k then Inl AssertionError
      else bind_result (karmarkar_karp seqlen_list k equal_size) (\<lambda>parts.
        if list_ex (\<lambda>p. p = []) parts then Inl AssertionError
        else if set (concat parts) \<noteq> set [0..<length seqlen_list] then Inl AssertionError
        else Inr (map sort parts)))"

section \<open>What every state keeps\<close>

definition state_items :: "kk_state \<Rightarrow> (nat \<times> int) list" where
  "state_items st = concat (map set_items (st_sets st))"

definition nonempty_sets :: "kk_state \<Rightarrow> nat" where
  "nonempty_sets st = length (filter (\<lambda>s. set_items s \<noteq> []) (st_sets st))"

definition state_ok :: "int \<Rightarrow> int \<Rightarrow> kk_state \<Rightarrow> bool" where
  \<comment> \<open>\<open>k\<close> sets in descending order, each with the sum of its items, any two sums at most
      \<open>bound\<close> apart\<close>
  "state_ok k bound st \<longleftrightarrow> st_k st = k \<and> length (st_sets st) = nat k \<and> sorted (rev (st_sets st))
     \<and> (\<forall>s \<in> set (st_sets st). set_sum s = sum_list (map snd (set_items s)))
     \<and> (\<forall>s \<in> set (st_sets st). \<forall>t \<in> set (st_sets st). set_sum s - set_sum t \<le> bound)"

lemma sort_desc_facts [simp]:
  "mset (sort_desc xs) = mset xs" "set (sort_desc xs) = set xs" "length (sort_desc xs) = length xs"
  "sorted (rev (sort_desc xs))"
  by (simp_all add: sort_desc_def)

lemma mset_concat_map_cong: "mset xs = mset ys \<Longrightarrow> mset (concat (map f xs)) = mset (concat (map f ys))"
  by (simp only: mset_concat sum_mset_sum_list [symmetric] mset_map)

lemma length_filter_mset_cong: "mset xs = mset ys \<Longrightarrow> length (filter P xs) = length (filter P ys)"
  by (simp only: size_mset [symmetric] mset_filter)

lemma set_merge_simps [simp]:
  "set_sum (set_merge s t) = set_sum s + set_sum t"
  "set_items (set_merge s t) = set_items s @ set_items t"
  by (simp_all add: set_merge_def)

lemma state_merge_fields [simp]:
  "st_k (state_merge s t) = st_k s"
  "length (st_sets (state_merge s t)) = nat (st_k s)"
  by (simp_all add: state_merge_def)

lemma rev_nth_upt: "length ys = n \<Longrightarrow> map (\<lambda>i. ys ! (n - 1 - i)) [0..<n] = rev ys"
  by (rule nth_equalityI) (simp_all add: rev_nth)

lemma mset_merge_items:
  assumes "length xs = n" "length ys = n"
  shows "mset (concat (map (\<lambda>i. set_items (set_merge (xs ! i) (ys ! (n - 1 - i)))) [0..<n]))
    = mset (concat (map set_items xs)) + mset (concat (map set_items ys))"
proof -
  have add: "mset (concat (map (\<lambda>i. f i @ g i) is)) = mset (concat (map f is)) + mset (concat (map g is))"
    for f g :: "nat \<Rightarrow> (nat \<times> int) list" and "is"
    by (induction "is") (simp_all add: ac_simps)
  have "map (\<lambda>i. set_items (xs ! i)) [0..<n] = map set_items xs"
    using assms(1) by (intro nth_equalityI) simp_all
  moreover have "map (\<lambda>i. set_items (ys ! (n - 1 - i))) [0..<n] = map set_items (rev ys)"
    using assms(2) by (intro nth_equalityI) (simp_all add: rev_nth)
  moreover have "mset (concat (map set_items (rev ys))) = mset (concat (map set_items ys))"
    by (rule mset_concat_map_cong) simp
  ultimately show ?thesis by (simp only: set_merge_simps add)
qed

lemma state_items_merge:
  assumes "state_ok k b s" "state_ok k b t"
  shows "mset (state_items (state_merge s t)) = mset (state_items s) + mset (state_items t)"
proof -
  let ?merged = "map (\<lambda>i. set_merge (st_sets s ! i) (st_sets t ! (nat k - 1 - i))) [0..<nat k]"
  have "mset (state_items (state_merge s t)) = mset (concat (map set_items ?merged))"
    unfolding state_items_def by (rule mset_concat_map_cong) (use assms in \<open>simp add: state_merge_def state_ok_def\<close>)
  also have "map set_items ?merged = map (\<lambda>i. set_items (set_merge (st_sets s ! i) (st_sets t ! (nat k - 1 - i)))) [0..<nat k]"
    by simp
  finally show ?thesis
    using mset_merge_items [of "st_sets s" "nat k" "st_sets t"] assms
    by (simp only: state_items_def state_ok_def)
qed

lemma kk_le_sum: "s \<le> t \<Longrightarrow> set_sum s \<le> set_sum t"
  by (auto simp: le_kk_key kk_key_def)

lemma desc_sum: "sorted (rev xs) \<Longrightarrow> i \<le> j \<Longrightarrow> j < length xs \<Longrightarrow> set_sum (xs ! j) \<le> set_sum (xs ! i)"
  by (rule kk_le_sum) (rule sorted_rev_nth_mono)

lemma crossed_sums:
  assumes "sorted (rev xs)" "sorted (rev ys)" "length xs = n" "length ys = n" "i < n" "j < n"
    and "\<forall>s \<in> set xs. \<forall>t \<in> set xs. set_sum s - set_sum t \<le> (b :: int)"
    and "\<forall>s \<in> set ys. \<forall>t \<in> set ys. set_sum s - set_sum t \<le> b"
  shows "(set_sum (xs ! i) + set_sum (ys ! (n - 1 - i))) - (set_sum (xs ! j) + set_sum (ys ! (n - 1 - j))) \<le> b"
proof (cases "i \<le> j")
  case True
  then have "set_sum (ys ! (n - 1 - i)) \<le> set_sum (ys ! (n - 1 - j))"
    by (intro desc_sum [OF assms(2)]) (use assms in auto)
  moreover have "set_sum (xs ! i) - set_sum (xs ! j) \<le> b" using assms by simp
  ultimately show ?thesis by simp
next
  case False
  then have "set_sum (xs ! i) \<le> set_sum (xs ! j)"
    by (intro desc_sum [OF assms(1)]) (use assms in auto)
  moreover have "set_sum (ys ! (n - 1 - i)) - set_sum (ys ! (n - 1 - j)) \<le> b" using assms by simp
  ultimately show ?thesis by simp
qed

lemma state_ok_merge:
  assumes "state_ok k b s" "state_ok k b t"
  shows "state_ok k b (state_merge s t)"
proof -
  let ?xs = "st_sets s" and ?ys = "st_sets t" and ?n = "nat k"
  let ?merged = "map (\<lambda>i. set_merge (?xs ! i) (?ys ! (?n - 1 - i))) [0..<?n]"
  have len: "length ?xs = ?n" "length ?ys = ?n" "st_k s = k"
    and desc: "sorted (rev ?xs)" "sorted (rev ?ys)"
    and sums: "\<forall>s \<in> set ?xs. set_sum s = sum_list (map snd (set_items s))"
      "\<forall>s \<in> set ?ys. set_sum s = sum_list (map snd (set_items s))"
    and close: "\<forall>s \<in> set ?xs. \<forall>t \<in> set ?xs. set_sum s - set_sum t \<le> b"
      "\<forall>s \<in> set ?ys. \<forall>t \<in> set ?ys. set_sum s - set_sum t \<le> b"
    using assms unfolding state_ok_def by blast+
  have "set_sum u = sum_list (map snd (set_items u))" if "u \<in> set ?merged" for u
    using that sums len by auto
  moreover have "set_sum u - set_sum v \<le> b" if "u \<in> set ?merged" "v \<in> set ?merged" for u v
  proof -
    from that obtain i j where "i < ?n" "u = set_merge (?xs ! i) (?ys ! (?n - 1 - i))"
      "j < ?n" "v = set_merge (?xs ! j) (?ys ! (?n - 1 - j))" by auto
    then show ?thesis using crossed_sums [OF desc len(1,2) _ _ close] by simp
  qed
  moreover have "st_sets (state_merge s t) = sort_desc ?merged"
    by (simp add: state_merge_def len)
  ultimately show ?thesis unfolding state_ok_def by (simp add: len(3))
qed

section \<open>No empty set\<close>

definition nonneg_items :: "kk_state \<Rightarrow> bool" where
  "nonneg_items st = (\<forall>s \<in> set (st_sets st). \<forall>(i, v) \<in> set (set_items s). 0 \<le> v)"

lemma prefix_filter:
  assumes "\<And>i j. i \<le> j \<Longrightarrow> j < length xs \<Longrightarrow> P (xs ! j) \<Longrightarrow> P (xs ! i)" "i < length xs"
  shows "P (xs ! i) \<longleftrightarrow> i < length (filter P xs)"
  using assms
proof (induction xs arbitrary: i)
  case (Cons x xs)
  show ?case
  proof (cases "P x")
    case True
    have "P (xs ! i) \<longleftrightarrow> i < length (filter P xs)" if "i < length xs" for i
      by (rule Cons.IH) (use Cons.prems(1) [of "Suc _" "Suc _"] that in auto)
    then show ?thesis using True Cons.prems(2) by (cases i) auto
  next
    case False
    have none: "\<not> P ((x # xs) ! j)" if "j < length (x # xs)" for j
      using Cons.prems(1) [of 0 j] that False by auto
    then have "filter P (x # xs) = []" by (metis filter_empty_conv in_set_conv_nth)
    then show ?thesis using none [OF Cons.prems(2)] by (metis list.size(3) not_less0)
  qed
qed simp

lemma nonempty_prefix:
  assumes "state_ok k b st" "nonneg_items st" "i < nat k"
  shows "set_items (st_sets st ! i) \<noteq> [] \<longleftrightarrow> i < nonempty_sets st"
  unfolding nonempty_sets_def
proof (rule prefix_filter [where P = "\<lambda>s. set_items s \<noteq> []"])
  fix i j assume ij: "i \<le> j" "j < length (st_sets st)" "set_items (st_sets st ! j) \<noteq> []"
  show "set_items (st_sets st ! i) \<noteq> []"
  proof
    assume e: "set_items (st_sets st ! i) = []"
    have "st_sets st ! j \<le> st_sets st ! i"
      by (rule sorted_rev_nth_mono) (use ij assms(1) in \<open>auto simp: state_ok_def\<close>)
    moreover have "set_sum (st_sets st ! i) = 0" using e ij assms(1) by (simp add: state_ok_def)
    moreover have "0 \<le> set_sum (st_sets st ! j)"
      using ij assms(1,2) by (fastforce simp: state_ok_def nonneg_items_def intro!: sum_list_nonneg)
    ultimately show False using e ij(3) by (auto simp: le_kk_key kk_key_def)
  qed
qed (use assms in \<open>simp add: state_ok_def\<close>)

lemma count_ends:
  assumes "a \<le> n" "b \<le> n"
  shows "length (filter (\<lambda>i. i < a \<or> n - 1 - i < b) [0..<n]) = min n (a + b)"
proof (cases "n \<le> a + b")
  case True
  then have "filter (\<lambda>i. i < a \<or> n - 1 - i < b) [0..<n] = [0..<n]" by (auto simp: filter_id_conv)
  then show ?thesis using True by simp
next
  case False
  have "[0..<n] = [0..<a] @ [a..<n - b] @ [n - b..<n]"
    using False assms upt_add_eq_append [of 0 a "n - a"] upt_add_eq_append [of a "n - b" b] by simp
  moreover have "filter (\<lambda>i. i < a \<or> n - 1 - i < b) [0..<a] = [0..<a]" by (auto simp: filter_id_conv)
  moreover have "filter (\<lambda>i. i < a \<or> n - 1 - i < b) [a..<n - b] = []" by (auto simp: filter_empty_conv)
  moreover have "filter (\<lambda>i. i < a \<or> n - 1 - i < b) [n - b..<n] = [n - b..<n]" by (auto simp: filter_id_conv)
  ultimately show ?thesis using False assms by simp
qed

lemma nonempty_sets_merge:
  assumes "state_ok k b s" "state_ok k b t" "nonneg_items s" "nonneg_items t"
  shows "nonempty_sets (state_merge s t) = min (nat k) (nonempty_sets s + nonempty_sets t)"
proof -
  let ?n = "nat k"
  let ?f = "\<lambda>i. set_merge (st_sets s ! i) (st_sets t ! (?n - 1 - i))"
  have k: "st_k s = k" "length (st_sets s) = ?n" "length (st_sets t) = ?n"
    using assms by (simp_all add: state_ok_def)
  then have le: "nonempty_sets s \<le> ?n" "nonempty_sets t \<le> ?n"
    unfolding nonempty_sets_def by (metis length_filter_le)+
  have "nonempty_sets (state_merge s t) = length (filter (\<lambda>s. set_items s \<noteq> []) (map ?f [0..<?n]))"
    unfolding nonempty_sets_def by (rule length_filter_mset_cong) (simp add: state_merge_def k)
  also have "\<dots> = length (filter (\<lambda>i. set_items (?f i) \<noteq> []) [0..<?n])"
    by (simp add: filter_map comp_def del: set_merge_simps)
  also have "filter (\<lambda>i. set_items (?f i) \<noteq> []) [0..<?n]
      = filter (\<lambda>i. i < nonempty_sets s \<or> ?n - 1 - i < nonempty_sets t) [0..<?n]"
  proof (rule filter_cong)
    fix i assume "i \<in> set [0..<?n]"
    then have "i < ?n" by simp
    then show "set_items (?f i) \<noteq> [] \<longleftrightarrow> i < nonempty_sets s \<or> ?n - 1 - i < nonempty_sets t"
      using nonempty_prefix [OF assms(1,3), of i] nonempty_prefix [OF assms(2,4), of "?n - 1 - i"] by auto
  qed simp
  finally show ?thesis using count_ends [OF le] by simp
qed

lemma nonneg_items_iff: "nonneg_items st \<longleftrightarrow> (\<forall>(i, v) \<in># mset (state_items st). 0 \<le> v)"
  by (auto simp: nonneg_items_def state_items_def)

definition level_sets :: "kk_state \<Rightarrow> bool" where
  \<comment> \<open>all sets of a state have the same number of items\<close>
  "level_sets st = (\<forall>s \<in> set (st_sets st). \<forall>t \<in> set (st_sets st). length (set_items s) = length (set_items t))"

lemma level_sets_merge:
  assumes "state_ok k b s" "state_ok k b t" "level_sets s" "level_sets t"
  shows "level_sets (state_merge s t)"
proof -
  let ?f = "\<lambda>i. set_merge (st_sets s ! i) (st_sets t ! (nat k - 1 - i))"
  have len: "length (st_sets s) = nat k" "length (st_sets t) = nat k" "st_k s = k"
    using assms by (simp_all add: state_ok_def)
  have level: "length (set_items (?f i)) = length (set_items (?f j))" if "i < nat k" "j < nat k" for i j
  proof -
    have "length (set_items (st_sets s ! i)) = length (set_items (st_sets s ! j))"
      "length (set_items (st_sets t ! (nat k - 1 - i))) = length (set_items (st_sets t ! (nat k - 1 - j)))"
      using assms(3,4) that len by (simp_all add: level_sets_def)
    then show ?thesis by simp
  qed
  have sets: "set (st_sets (state_merge s t)) = ?f ` {0..<nat k}" by (simp add: state_merge_def len)
  show ?thesis
    unfolding level_sets_def
  proof (intro ballI)
    fix u v assume uv: "u \<in> set (st_sets (state_merge s t))" "v \<in> set (st_sets (state_merge s t))"
    obtain i where i: "u = ?f i" "i < nat k" using uv(1) unfolding sets by (elim imageE) simp
    obtain j where j: "v = ?f j" "j < nat k" using uv(2) unfolding sets by (elim imageE) simp
    show "length (set_items u) = length (set_items v)"
      unfolding i(1) j(1) by (rule level [OF i(2) j(2)])
  qed
qed

lemma min_add_min: "min n (min n a + min n b) = min n (a + b :: nat)"
  by auto

section \<open>The loop\<close>

definition kk_inv :: "int \<Rightarrow> int \<Rightarrow> bool \<Rightarrow> kk_state \<Rightarrow> bool" where
  \<comment> \<open>what the loop keeps of every state on the heap; in the variable-size mode as many sets are
      used as there are items for\<close>
  "kk_inv k b equal_size st \<longleftrightarrow> state_ok k b st \<and> nonneg_items st
     \<and> (if equal_size then level_sets st
        else nonempty_sets st = min (nat k) (length (state_items st)))"

lemma kk_inv_merge:
  assumes "kk_inv k b e s" "kk_inv k b e t"
  shows "kk_inv k b e (state_merge s t)
    \<and> mset (state_items (state_merge s t)) = mset (state_items s) + mset (state_items t)"
proof -
  have ok: "state_ok k b s" "state_ok k b t" "nonneg_items s" "nonneg_items t"
    using assms by (simp_all add: kk_inv_def)
  have items: "mset (state_items (state_merge s t)) = mset (state_items s) + mset (state_items t)"
    by (rule state_items_merge [OF ok(1,2)])
  then have len: "length (state_items (state_merge s t)) = length (state_items s) + length (state_items t)"
    by (metis size_mset size_union)
  have "nonneg_items (state_merge s t)" using ok(3,4) by (auto simp: nonneg_items_iff items)
  then show ?thesis
    using assms items state_ok_merge [OF ok(1,2)] level_sets_merge [OF ok(1,2)]
      nonempty_sets_merge [OF ok] len by (auto simp: kk_inv_def min_add_min)
qed

lemma kk_loop_result:
  assumes "pq \<noteq> []" "\<And>st. st \<in># mset pq \<Longrightarrow> kk_inv k b e st"
  shows "\<exists>st. kk_loop pq = [st] \<and> kk_inv k b e st
    \<and> mset (state_items st) = sum_mset (image_mset (\<lambda>st. mset (state_items st)) (mset pq))"
  using assms
proof (induction pq rule: kk_loop.induct)
  case (1 pq)
  show ?case
  proof (cases "length pq \<le> 1")
    case True
    then obtain st where "pq = [st]" using "1.prems"(1) by (cases pq) auto
    then show ?thesis using "1.prems"(2) by (subst kk_loop.simps) auto
  next
    case False
    then obtain s0 s1 pq1 pq2 where pops: "heappop state_lt pq = Some (s0, pq1)"
      "heappop state_lt pq1 = Some (s1, pq2)"
      using heapq.pop_two [of pq state_lt] by auto
    let ?next = "heappush state_lt pq2 (state_merge s0 s1)"
    have kept: "(\<forall>st \<in># mset ?next. kk_inv k b e st) \<and>
      sum_mset (image_mset (\<lambda>st. mset (state_items st)) (mset ?next))
        = sum_mset (image_mset (\<lambda>st. mset (state_items st)) (mset pq))"
      using heapq.combine_two [OF pops, where P = "kk_inv k b e" and join = state_merge
          and measure = "\<lambda>st. mset (state_items st)", OF "1.prems"(2) kk_inv_merge] by blast
    have "?next \<noteq> []" by (metis length_heappush list.size(3) nat.distinct(1))
    then have "\<exists>st. kk_loop ?next = [st] \<and> kk_inv k b e st
      \<and> mset (state_items st) = sum_mset (image_mset (\<lambda>st. mset (state_items st)) (mset ?next))"
      by (intro "1.IH" [OF False pops(1) refl pops(2) refl]) (use kept in auto)
    then show ?thesis using False pops kept by (subst kk_loop.simps) simp
  qed
qed

section \<open>The initial states\<close>

definition fresh_sets :: "(nat \<times> int) list \<Rightarrow> int \<Rightarrow> kk_set list" where
  "fresh_sets items k = map (\<lambda>(idx, v). KK_Set v [(idx, v)]) items @ replicate (nat k - length items) (KK_Set 0 [])"

lemma mk_state_inv:
  assumes "length items \<le> nat k" "\<And>i v. (i, v) \<in> set items \<Longrightarrow> 0 \<le> v"
    and "\<And>s t. s \<in> set (fresh_sets items k) \<Longrightarrow> t \<in> set (fresh_sets items k) \<Longrightarrow> set_sum s - set_sum t \<le> b"
  shows "\<exists>st. mk_state items k = Inr st \<and> state_ok k b st \<and> nonneg_items st
    \<and> mset (state_items st) = mset items \<and> nonempty_sets st = length items
    \<and> (length items = nat k \<longrightarrow> level_sets st)"
proof -
  let ?st = "\<lparr>st_k = k, st_sets = sort_desc (fresh_sets items k)\<rparr>"
  have "mk_state items k = Inr ?st"
    using assms(1) by (simp add: mk_state_def fresh_sets_def set_add_def)
  moreover have sums: "set_sum s = sum_list (map snd (set_items s))" if "s \<in> set (fresh_sets items k)" for s
    using that by (auto simp: fresh_sets_def)
  have ok: "state_ok k b ?st"
    unfolding state_ok_def using assms(1,3) sums by (simp add: fresh_sets_def)
  moreover have items: "mset (state_items ?st) = mset items"
  proof -
    have "mset (state_items ?st) = mset (concat (map set_items (fresh_sets items k)))"
      unfolding state_items_def by (rule mset_concat_map_cong) simp
    also have "concat (map set_items (fresh_sets items k)) = items"
    proof -
      have "concat (map (\<lambda>x. set_items (case x of (idx, v) \<Rightarrow> KK_Set v [(idx, v)])) items) = items"
        by (induction items) auto
      then show ?thesis by (simp add: fresh_sets_def comp_def)
    qed
    finally show ?thesis .
  qed
  moreover have "nonneg_items ?st" unfolding nonneg_items_iff items using assms(2) by auto
  moreover have "nonempty_sets ?st = length items"
  proof -
    have "nonempty_sets ?st = length (filter (\<lambda>s. set_items s \<noteq> []) (fresh_sets items k))"
      unfolding nonempty_sets_def by (rule length_filter_mset_cong) simp
    also have "\<dots> = length items"
    proof -
      have "filter (\<lambda>s. set_items s \<noteq> []) (map (\<lambda>(idx, v). KK_Set v [(idx, v)]) items)
          = map (\<lambda>(idx, v). KK_Set v [(idx, v)]) items"
        by (auto simp: filter_id_conv)
      then show ?thesis by (simp add: fresh_sets_def)
    qed
    finally show ?thesis .
  qed
  moreover have "length items = nat k \<longrightarrow> level_sets ?st"
    by (auto simp: level_sets_def fresh_sets_def)
  ultimately show ?thesis by blast
qed

lemma fold_heap_states:
  assumes "map_result f xs = Inr sts" "xs \<noteq> []"
    and "\<And>x st. x \<in> set xs \<Longrightarrow> f x = Inr st \<Longrightarrow> kk_inv k b e st \<and> mset (state_items st) = mset (g x)"
  shows "\<exists>st. kk_loop (foldl (heappush state_lt) [] sts) = [st] \<and> kk_inv k b e st
    \<and> mset (state_items st) = mset (concat (map g xs))"
proof -
  let ?heap = "foldl (heappush state_lt) [] sts"
  have heap: "mset ?heap = mset sts" using heapq.bag_pushes [of state_lt "[]" sts] by simp
  have each: "list_all2 (\<lambda>x st. kk_inv k b e st \<and> mset (state_items st) = mset (g x)) xs sts"
    using assms(3) [OF nth_mem map_result_nth [OF assms(1)]] map_result_length [OF assms(1)]
    by (intro list_all2_all_nthI) simp_all
  then have "sum_mset (image_mset (\<lambda>st. mset (state_items st)) (mset sts)) = mset (concat (map g xs))"
    by (induction rule: list_all2_induct) auto
  moreover have "kk_inv k b e st" if "st \<in># mset ?heap" for st
    using that each by (auto simp: heap list_all2_conv_all_nth in_set_conv_nth)
  moreover have "?heap \<noteq> []" using heap assms(1,2) map_result_length by (metis length_0_conv mset_zero_iff)
  ultimately show ?thesis using kk_loop_result [of ?heap k b e] by (simp add: heap)
qed

section \<open>The partitions\<close>

definition balance_bound :: "int list \<Rightarrow> bool \<Rightarrow> int" where
  \<comment> \<open>the largest item, or in equal-size mode the largest difference of two items\<close>
  "balance_bound l equal_size = Max (set l) - (if equal_size then Min (set l) else 0)"

lemma concat_chunks:
  assumes "k * q = n"
  shows "concat (map (\<lambda>m. map (\<lambda>j. h (m * k + j)) [0..<k]) [0..<q]) = map h [0..<n]"
proof -
  have "map (\<lambda>j. h (m * k + j)) [0..<k] = map h [m * k..<Suc m * k]" for m
    by (rule nth_equalityI) simp_all
  then have "concat (map (\<lambda>m. map (\<lambda>j. h (m * k + j)) [0..<k]) [0..<q])
      = map h (concat (map (\<lambda>m. [m * k..<Suc m * k]) [0..<q]))"
    by (simp add: map_concat comp_def)
  also have "concat (map (\<lambda>m. [m * k..<Suc m * k]) [0..<q]) = [0..<n]"
    using concat_upts [of q "\<lambda>m. m * k"] assms by (simp add: mult.commute)
  finally show ?thesis .
qed

lemma sorted_zip_facts:
  "mset (sort (zip l [0..<length l])) = mset (zip l [0..<length l])"
  "(v, i) \<in> set (sort (zip l [0..<length l])) \<longleftrightarrow> i < length l \<and> v = l ! i"
  by (auto simp: in_set_zip)

lemma karmarkar_karp_result:
  assumes k: "0 < k" and l: "l \<noteq> []" and nonneg: "\<And>x. x \<in> set l \<Longrightarrow> 0 \<le> x"
    and eq: "equal_size \<Longrightarrow> int (length l) mod k = 0"
  shows "\<exists>st. karmarkar_karp l k equal_size = Inr (state_partitions st)
    \<and> kk_inv k (balance_bound l equal_size) equal_size st
    \<and> mset (state_items st) = mset (map (\<lambda>(v, i). (i, v)) (zip l [0..<length l]))"
proof -
  let ?sl = "sort (zip l [0..<length l])" and ?b = "balance_bound l equal_size"
  have items: "mset (map (\<lambda>(v, i). (i, v)) ?sl) = mset (map (\<lambda>(v, i). (i, v)) (zip l [0..<length l]))"
    by simp
  have val: "0 \<le> v \<and> v \<le> Max (set l) \<and> Min (set l) \<le> v" if "(v, i) \<in> set ?sl" for v i
  proof -
    have "v \<in> set l" using that unfolding sorted_zip_facts(2) by auto
    then show ?thesis using nonneg by simp
  qed
  have ne: "?sl \<noteq> []" using l by (metis length_sort length_zip length_upt diff_zero min.idem length_0_conv)
  show ?thesis
  proof (cases equal_size)
    case False
    have "\<exists>st. mk_state [(i, v)] k = Inr st \<and> kk_inv k ?b equal_size st \<and> mset (state_items st) = mset [(i, v)]"
      if "(v, i) \<in> set ?sl" for v i
    proof -
      have "\<exists>st. mk_state [(i, v)] k = Inr st \<and> state_ok k ?b st \<and> nonneg_items st
        \<and> mset (state_items st) = mset [(i, v)] \<and> nonempty_sets st = length [(i, v)]
        \<and> (length [(i, v)] = nat k \<longrightarrow> level_sets st)"
        by (rule mk_state_inv) (use k False val [OF that] in \<open>auto simp: fresh_sets_def balance_bound_def\<close>)
      then obtain st where st: "mk_state [(i, v)] k = Inr st" "state_ok k ?b st" "nonneg_items st"
        "mset (state_items st) = mset [(i, v)]" "nonempty_sets st = 1" by auto
      then have "length (state_items st) = 1" by (metis size_mset length_Cons list.size(3) One_nat_def)
      then show ?thesis using st k False by (auto simp: kk_inv_def)
    qed
    then have one: "\<exists>st. (case x of (v, idx) \<Rightarrow> mk_state [(idx, v)] k) = Inr st \<and> kk_inv k ?b equal_size st
        \<and> mset (state_items st) = mset (case x of (v, i) \<Rightarrow> [(i, v)])" if "x \<in> set ?sl" for x
      using that by (cases x) simp
    then obtain sts where sts: "map_result (\<lambda>(v, idx). mk_state [(idx, v)] k) ?sl = Inr sts"
      by (metis (no_types, lifting) map_result_Inl sumE Inl_Inr_False)
    have "\<exists>st. kk_loop (foldl (heappush state_lt) [] sts) = [st] \<and> kk_inv k ?b equal_size st
      \<and> mset (state_items st) = mset (concat (map (\<lambda>(v, i). [(i, v)]) ?sl))"
      by (rule fold_heap_states [OF sts ne]) (use one in fastforce)
    moreover have "concat (map (\<lambda>(v, i). [(i, v)]) xs) = map (\<lambda>(v, i). (i, v)) xs" for xs :: "(int \<times> nat) list"
      by (induction xs) auto
    ultimately show ?thesis using False sts items by (auto simp: karmarkar_karp_def Let_def)
  next
    case True
    let ?q = "length l div nat k" and ?n = "length l"
    have kq: "nat k * ?q = ?n"
    proof -
      have "k dvd int ?n" using eq [OF True] by (simp add: dvd_eq_mod_eq_0)
      then have "nat k dvd ?n" using k by (metis int_dvd_int_iff int_nat_eq less_imp_le)
      then show ?thesis by simp
    qed
    let ?chunk = "\<lambda>m. map (\<lambda>j. (snd (?sl ! (m * nat k + j)), fst (?sl ! (m * nat k + j)))) [0..<nat k]"
    have len: "length ?sl = ?n" by simp
    have one: "\<exists>st. mk_state (?chunk m) k = Inr st \<and> kk_inv k ?b equal_size st
        \<and> mset (state_items st) = mset (?chunk m)" if "m \<in> set [0..<?q]" for m
    proof -
      have inside: "m * nat k + j < ?n" if "j < nat k" for j
      proof -
        have "m * nat k + j < Suc m * nat k" using that by simp
        also have "\<dots> \<le> ?q * nat k" using \<open>m \<in> set [0..<?q]\<close> by (intro mult_le_mono1) simp
        finally show ?thesis using kq by (simp add: mult.commute)
      qed
      have mem: "(v, i) \<in> set ?sl" if "(i, v) \<in> set (?chunk m)" for i v
      proof -
        from that obtain j where j: "j < nat k" "i = snd (?sl ! (m * nat k + j))" "v = fst (?sl ! (m * nat k + j))"
          by auto
        have "?sl ! (m * nat k + j) \<in> set ?sl" by (rule nth_mem) (simp add: inside [OF j(1)])
        then show ?thesis by (simp only: j prod.collapse)
      qed
      have "\<exists>st. mk_state (?chunk m) k = Inr st \<and> state_ok k ?b st \<and> nonneg_items st
        \<and> mset (state_items st) = mset (?chunk m) \<and> nonempty_sets st = length (?chunk m)
        \<and> (length (?chunk m) = nat k \<longrightarrow> level_sets st)"
      proof (rule mk_state_inv)
        show "0 \<le> v" if "(i, v) \<in> set (?chunk m)" for i v using val [OF mem [OF that]] by simp
        fix s t assume st: "s \<in> set (fresh_sets (?chunk m) k)" "t \<in> set (fresh_sets (?chunk m) k)"
        have "Min (set l) \<le> set_sum u \<and> set_sum u \<le> Max (set l)" if "u \<in> set (fresh_sets (?chunk m) k)" for u
        proof -
          from that obtain i v where "(i, v) \<in> set (?chunk m)" "u = KK_Set v [(i, v)]"
            by (fastforce simp: fresh_sets_def)
          then show ?thesis using val [OF mem] by simp
        qed
        from this [OF st(1)] this [OF st(2)] show "set_sum s - set_sum t \<le> ?b"
          using True by (simp add: balance_bound_def)
      qed simp
      then show ?thesis using True by (auto simp: kk_inv_def)
    qed
    then obtain sts where sts: "map_result (\<lambda>m. mk_state (?chunk m) k) [0..<?q] = Inr sts"
      by (metis (no_types, lifting) map_result_Inl sumE Inl_Inr_False)
    have "[0..<q] \<noteq> []" if "nat k * q = ?n" for q using that l by (cases q) auto
    from this [OF kq] have q: "[0..<?q] \<noteq> []" .
    have "\<exists>st. kk_loop (foldl (heappush state_lt) [] sts) = [st] \<and> kk_inv k ?b equal_size st
      \<and> mset (state_items st) = mset (concat (map ?chunk [0..<?q]))"
      by (rule fold_heap_states [OF sts q]) (use one in fastforce)
    moreover have "concat (map ?chunk [0..<?q]) = map (\<lambda>i. (snd (?sl ! i), fst (?sl ! i))) [0..<?n]"
      by (rule concat_chunks [OF kq])
    moreover have "\<dots> = map (\<lambda>(v, i). (i, v)) ?sl"
      by (rule nth_equalityI) (simp_all del: set_sort length_sort add: len case_prod_beta)
    ultimately show ?thesis using True sts items k eq [OF True]
      by (auto simp: karmarkar_karp_def Let_def)
  qed
qed

lemma item_values:
  assumes "mset (state_items st) = mset (map (\<lambda>(v, i). (i, v)) (zip l [0..<length l]))" "s \<in> set (st_sets st)"
  shows "map snd (set_items s) = map (\<lambda>i. l ! i) (map fst (set_items s))"
proof -
  have "v = l ! i" if "(i, v) \<in> set (set_items s)" for i v
  proof -
    have "(i, v) \<in># mset (state_items st)" using that assms(2) by (auto simp: state_items_def)
    then show ?thesis unfolding assms(1) by (auto simp: in_set_zip)
  qed
  then show ?thesis by auto
qed

lemma mset_partitions: "mset (concat (state_partitions st)) = image_mset fst (mset (state_items st))"
proof -
  have "concat (state_partitions st) = map fst (state_items st)"
    by (simp add: state_partitions_def state_items_def map_concat comp_def)
  then show ?thesis by simp
qed

lemma balanced_partitions_exist:
  assumes "0 < k" "k \<le> int (length l)" "\<And>x. x \<in> set l \<Longrightarrow> 0 \<le> x"
    and "equal_size \<Longrightarrow> int (length l) mod k = 0"
  shows "\<exists>parts. get_seqlen_balanced_partitions l k equal_size = Inr parts
    \<and> length parts = nat k
    \<and> mset (concat parts) = mset [0..<length l]
    \<and> list_all (\<lambda>p. sorted p \<and> p \<noteq> []) parts
    \<and> (\<forall>p \<in> set parts. \<forall>q \<in> set parts.
         (\<Sum>i\<leftarrow>p. l ! i) - (\<Sum>i\<leftarrow>q. l ! i) \<le> Max (set l) - (if equal_size then Min (set l) else 0)
         \<and> (equal_size \<longrightarrow> length p = length q))"
proof -
  have "l \<noteq> []" using assms by auto
  then obtain st where run: "karmarkar_karp l k equal_size = Inr (state_partitions st)"
    and inv: "kk_inv k (balance_bound l equal_size) equal_size st"
    and items: "mset (state_items st) = mset (map (\<lambda>(v, i). (i, v)) (zip l [0..<length l]))"
    using karmarkar_karp_result assms by metis
  let ?parts = "state_partitions st"
  have len: "length (st_sets st) = nat k" using inv by (simp add: kk_inv_def state_ok_def)
  have cover: "mset (concat ?parts) = mset [0..<length l]"
    unfolding mset_partitions items by (simp add: multiset.map_comp comp_def case_prod_beta flip: mset_map)
  have count: "length (state_items st) = length l" using arg_cong [OF items, of size] by simp
  have full: "set_items s \<noteq> []" if "s \<in> set (st_sets st)" for s
  proof (cases equal_size)
    case False
    then have "nonempty_sets st = nat k" using inv count assms(2) by (simp add: kk_inv_def)
    then show ?thesis
      using length_filter_less [of s "st_sets st" "\<lambda>s. set_items s \<noteq> []"] that len
      by (auto simp: nonempty_sets_def)
  next
    case True
    then have "set_items t = []" if "set_items s = []" "t \<in> set (st_sets st)" for t
      using inv that \<open>s \<in> set (st_sets st)\<close> by (fastforce simp: kk_inv_def level_sets_def)
    then have "state_items st = []" if "set_items s = []" using that by (simp add: state_items_def)
    then show ?thesis using count \<open>l \<noteq> []\<close> by auto
  qed
  have sums: "(\<Sum>i\<leftarrow>sort (map fst (set_items s)). l ! i) = set_sum s" if "s \<in> set (st_sets st)" for s
  proof -
    have "(\<Sum>i\<leftarrow>sort (map fst (set_items s)). l ! i) = (\<Sum>i\<leftarrow>map fst (set_items s). l ! i)"
      by (metis mset_map mset_sort sum_mset_sum_list)
    also have "\<dots> = sum_list (map snd (set_items s))" by (simp only: item_values [OF items that])
    finally show ?thesis using inv that by (simp add: kk_inv_def state_ok_def)
  qed
  have bound: "set_sum s - set_sum t \<le> Max (set l) - (if equal_size then Min (set l) else 0)"
    if "s \<in> set (st_sets st)" "t \<in> set (st_sets st)" for s t
  proof -
    have "set_sum s - set_sum t \<le> balance_bound l equal_size"
      using inv that unfolding kk_inv_def state_ok_def by blast
    then show ?thesis by (simp only: balance_bound_def)
  qed
  have level: "length (set_items s) = length (set_items t)"
    if "equal_size" "s \<in> set (st_sets st)" "t \<in> set (st_sets st)" for s t
  proof -
    have "level_sets st" using inv that(1) unfolding kk_inv_def by presburger
    then show ?thesis using that(2,3) unfolding level_sets_def by blast
  qed
  have "get_seqlen_balanced_partitions l k equal_size = Inr (map sort ?parts)"
  proof -
    have "\<not> list_ex (\<lambda>p. p = []) ?parts" using full by (auto simp: state_partitions_def list_ex_iff)
    moreover have "set (concat ?parts) = set [0..<length l]" using cover by (rule mset_eq_setD)
    ultimately show ?thesis using assms(2) run by (simp add: get_seqlen_balanced_partitions_def)
  qed
  moreover have "mset (concat (map sort ?parts)) = mset [0..<length l]"
  proof -
    have "mset (concat (map sort xss)) = mset (concat xss)" for xss :: "nat list list"
      by (induction xss) simp_all
    then show ?thesis using cover by simp
  qed
  moreover have "list_all (\<lambda>p. sorted p \<and> p \<noteq> []) (map sort ?parts)"
  proof -
    have "sort xs = [] \<longleftrightarrow> xs = []" for xs :: "nat list" by (metis length_0_conv length_sort)
    then show ?thesis unfolding list_all_iff state_partitions_def using full by simp
  qed
  moreover have "(\<Sum>i\<leftarrow>p. l ! i) - (\<Sum>i\<leftarrow>q. l ! i) \<le> Max (set l) - (if equal_size then Min (set l) else 0)
      \<and> (equal_size \<longrightarrow> length p = length q)"
    if "p \<in> set (map sort ?parts)" "q \<in> set (map sort ?parts)" for p q
  proof -
    from that obtain s t where s: "s \<in> set (st_sets st)" "p = sort (map fst (set_items s))"
      and t: "t \<in> set (st_sets st)" "q = sort (map fst (set_items t))"
      by (auto simp: state_partitions_def)
    have "length p = length q" if equal_size using level [OF that s(1) t(1)] by (simp add: s(2) t(2))
    moreover have "(\<Sum>i\<leftarrow>p. l ! i) - (\<Sum>i\<leftarrow>q. l ! i) \<le> Max (set l) - (if equal_size then Min (set l) else 0)"
      using bound [OF s(1) t(1)] by (simp only: s(2) t(2) sums [OF s(1)] sums [OF t(1)])
    ultimately show ?thesis by blast
  qed
  moreover have "length (map sort ?parts) = nat k" using len by (simp add: state_partitions_def)
  ultimately show ?thesis by (intro exI [of _ "map sort ?parts"]) blast
qed

text \<open>C33: sequence-length balancing. For at least as many non-negative lengths as ranks (and a
  multiple of them in equal-size mode) the partition always exists: one sorted, non-empty
  partition per rank, every row in exactly one, and the total lengths of any two partitions differ
  by at most the longest row (in equal-size mode by at most the largest difference of two rows,
  and all partitions have the same number of rows).\<close>

theorem balanced_partitions:
  assumes "0 < k" "k \<le> int (length l)" "\<And>x. x \<in> set l \<Longrightarrow> 0 \<le> x"
    and "equal_size \<Longrightarrow> int (length l) mod k = 0"
  shows "\<exists>parts. get_seqlen_balanced_partitions l k equal_size = Inr parts
    \<and> length parts = nat k
    \<and> mset (concat parts) = mset [0..<length l]
    \<and> list_all (\<lambda>p. sorted p \<and> p \<noteq> []) parts
    \<and> (\<forall>p \<in> set parts. \<forall>q \<in> set parts.
         (\<Sum>i\<leftarrow>p. l ! i) - (\<Sum>i\<leftarrow>q. l ! i) \<le> Max (set l) - (if equal_size then Min (set l) else 0)
         \<and> (equal_size \<longrightarrow> length p = length q))"
  by (rule balanced_partitions_exist [OF assms])

theorem balanced_partitions_witness:
  "\<exists>parts. get_seqlen_balanced_partitions [7, 1, 4, 4, 9] 2 False = Inr parts \<and> length parts = 2
    \<and> mset (concat parts) = mset [0..<length [7, 1, 4, 4, 9 :: int]]"
proof -
  have "0 \<le> x" if "x \<in> set [7, 1, 4, 4, 9]" for x :: int using that by auto
  then show ?thesis using balanced_partitions [of 2 "[7, 1, 4, 4, 9]" False] by fastforce
qed

section \<open>Imbalance metrics\<close>

record balance_stats =
  bs_min :: int
  bs_max :: int
  bs_diff :: int
  bs_balanced_min :: int
  bs_balanced_max :: int
  bs_mean :: rat

definition chunk_stats :: "int list \<Rightarrow> nat \<Rightarrow> int \<times> int \<times> int" where
  \<comment> \<open>the loop over \<open>range(0, len(seqlen_list), bs)\<close>: minimum, maximum and total of the chunk sums\<close>
  "chunk_stats l bs = foldl (\<lambda>(mn, mx, total) off.
       let cur = sum_list (py_slice off (off + bs) l)
       in if off = 0 then (cur, cur, total + cur) else (min mn cur, max mx cur, total + cur))
     (0, 0, 0) (map (\<lambda>m. m * bs) [0..<(length l + bs - 1) div bs])"

definition log_seqlen_unbalance :: "int list \<Rightarrow> nat list list \<Rightarrow> balance_stats result" where
  \<comment> \<open>the division of the mean is exact here, a float in the code\<close>
  "log_seqlen_unbalance l parts =
     (let k = length parts; bs = length l div k; (mn, mx, total) = chunk_stats l bs
      in if k = 0 then Inl ZeroDivisionError
         else if bs = 0 then Inl ValueError
         else bind_result
           (map_result (\<lambda>p. bind_result (map_result (\<lambda>i. py_index l (int i)) p) (\<lambda>vs. Inr (sum_list vs))) parts)
           (\<lambda>bal. Inr \<lparr>bs_min = mn, bs_max = mx, bs_diff = mx - mn, bs_balanced_min = Min (set bal),
              bs_balanced_max = Max (set bal), bs_mean = of_int total / of_nat k\<rparr>))"

lemma chunk_total_step:
  "snd (snd (foldl (\<lambda>(mn, mx, total) off.
       let cur = f off in if off = (0 :: nat) then (cur, cur, total + cur) else (min mn cur, max mx cur, total + cur))
     (a, b, c) offs)) = c + (\<Sum>off\<leftarrow>offs. f off :: int)"
  by (induction offs arbitrary: a b c) (auto simp: Let_def)

lemma sum_list_concat_map: "sum_list (concat (map f xs)) = (\<Sum>x\<leftarrow>xs. sum_list (f x :: int list))"
  by (induction xs) simp_all

lemma chunk_total:
  assumes "0 < bs"
  shows "snd (snd (chunk_stats l bs)) = sum_list l"
proof -
  let ?q = "(length l + bs - 1) div bs"
  have "length l \<le> ?q * bs"
    using assms div_mult_mod_eq [of "length l + bs - 1" bs] mod_less_divisor [OF assms, of "length l + bs - 1"] by linarith
  moreover have "concat (map (\<lambda>m. py_slice (m * bs) (Suc m * bs) l) [0..<?q]) = py_slice 0 (?q * bs) l"
    using concat_slices [of ?q "\<lambda>m. m * bs" l] by simp
  ultimately have "concat (map (\<lambda>m. py_slice (m * bs) (m * bs + bs) l) [0..<?q]) = l"
    by (simp add: add.commute)
  then have "sum_list l = sum_list (concat (map (\<lambda>m. py_slice (m * bs) (m * bs + bs) l) [0..<?q]))"
    by simp
  also have "\<dots> = (\<Sum>m\<leftarrow>[0..<?q]. sum_list (py_slice (m * bs) (m * bs + bs) l))"
    by (rule sum_list_concat_map)
  finally show ?thesis by (simp add: chunk_stats_def chunk_total_step comp_def)
qed

lemma balanced_metrics_exist:
  assumes "get_seqlen_balanced_partitions l k False = Inr parts" "0 < k" "\<And>x. x \<in> set l \<Longrightarrow> 0 \<le> x"
  shows "\<exists>s. log_seqlen_unbalance l parts = Inr s
    \<and> bs_mean s = of_int (sum_list l) / of_int k
    \<and> of_int (bs_balanced_min s) \<le> bs_mean s \<and> bs_mean s \<le> of_int (bs_balanced_max s)
    \<and> bs_balanced_max s - bs_balanced_min s \<le> Max (set l)"
proof -
  have kn: "k \<le> int (length l)"
    using assms(1) by (simp add: get_seqlen_balanced_partitions_def split: if_splits)
  from balanced_partitions_exist [OF assms(2) kn assms(3), of False] assms(1)
  have len: "length parts = nat k" and cover: "mset (concat parts) = mset [0..<length l]"
    and close: "\<And>p q. p \<in> set parts \<Longrightarrow> q \<in> set parts \<Longrightarrow> (\<Sum>i\<leftarrow>p. l ! i) - (\<Sum>i\<leftarrow>q. l ! i) \<le> Max (set l)"
    by auto
  let ?bal = "map (\<lambda>p. \<Sum>i\<leftarrow>p. l ! i) parts"
  have idx: "i < length l" if "p \<in> set parts" "i \<in> set p" for p i
    using that mset_eq_setD [OF cover] by auto
  have bal: "map_result (\<lambda>p. bind_result (map_result (\<lambda>i. py_index l (int i)) p) (\<lambda>vs. Inr (sum_list vs))) parts = Inr ?bal"
  proof (rule map_result_total)
    fix p assume "p \<in> set parts"
    then have "map_result (\<lambda>i. py_index l (int i)) p = Inr (map (\<lambda>i. l ! i) p)"
      by (intro map_result_total) (simp add: idx)
    then show "bind_result (map_result (\<lambda>i. py_index l (int i)) p) (\<lambda>vs. Inr (sum_list vs)) = Inr (\<Sum>i\<leftarrow>p. l ! i)"
      by simp
  qed
  have total: "sum_list ?bal = sum_list l"
  proof -
    have "sum_list ?bal = (\<Sum>i\<leftarrow>concat parts. l ! i)" by (induction parts) simp_all
    also have "\<dots> = (\<Sum>i\<leftarrow>[0..<length l]. l ! i)" by (metis cover mset_map sum_mset_sum_list)
    finally show ?thesis by (simp add: map_nth)
  qed
  have ne: "?bal \<noteq> []" "length ?bal = nat k" using len assms(2) by auto
  have low: "int (length xs) * Min (set ys) \<le> sum_list xs" if "set xs \<subseteq> set ys" for xs ys :: "int list"
    using that by (induction xs) (auto simp: algebra_simps intro: add_mono)
  have high: "sum_list xs \<le> int (length xs) * Max (set ys)" if "set xs \<subseteq> set ys" for xs ys :: "int list"
    using that by (induction xs) (auto simp: algebra_simps intro: add_mono)
  have bounds: "k * Min (set ?bal) \<le> sum_list l" "sum_list l \<le> k * Max (set ?bal)"
    using low [OF order_refl, of ?bal] high [OF order_refl, of ?bal] total ne(2) assms(2) by simp_all
  have "Max (set ?bal) \<in> set ?bal" "Min (set ?bal) \<in> set ?bal" using ne(1) by (simp_all del: set_map)
  then have gap: "Max (set ?bal) - Min (set ?bal) \<le> Max (set l)" using close by (auto simp del: Max_in Min_in)
  obtain mn mx where cs: "chunk_stats l (length l div nat k) = (mn, mx, sum_list l)"
    using chunk_total [of "length l div nat k" l] kn assms(2)
    by (metis div_greater_zero_iff nat_le_iff prod.collapse zero_less_nat_eq)
  have bs: "length l div nat k \<noteq> 0" using kn assms(2) by (simp add: div_eq_0_iff nat_less_iff)
  let ?s = "\<lparr>bs_min = mn, bs_max = mx, bs_diff = mx - mn, bs_balanced_min = Min (set ?bal),
    bs_balanced_max = Max (set ?bal), bs_mean = of_int (sum_list l) / of_nat (nat k)\<rparr>"
  have "log_seqlen_unbalance l parts = Inr ?s"
    using cs bs bal len assms(2) by (simp add: log_seqlen_unbalance_def)
  moreover have "(of_int (k * Min (set ?bal)) :: rat) \<le> of_int (sum_list l)"
    "(of_int (sum_list l) :: rat) \<le> of_int (k * Max (set ?bal))"
    using bounds by (simp_all only: of_int_le_iff)
  ultimately show ?thesis
    using gap assms(2) by (intro exI [of _ ?s]) (simp add: field_simps)
qed

text \<open>the logged metrics of a balanced partition. They are always available, the mean is the
  total divided by the number of ranks, it lies between the balanced minimum and maximum, and these
  are at most the longest row apart.\<close>

theorem balanced_metrics:
  assumes "get_seqlen_balanced_partitions l k False = Inr parts" "0 < k" "\<And>x. x \<in> set l \<Longrightarrow> 0 \<le> x"
  shows "\<exists>s. log_seqlen_unbalance l parts = Inr s
    \<and> bs_mean s = of_int (sum_list l) / of_int k
    \<and> of_int (bs_balanced_min s) \<le> bs_mean s \<and> bs_mean s \<le> of_int (bs_balanced_max s)
    \<and> bs_balanced_max s - bs_balanced_min s \<le> Max (set l)"
  by (rule balanced_metrics_exist [OF assms])

theorem balanced_metrics_witness:
  "\<exists>parts s. get_seqlen_balanced_partitions [3, 5, 4] 2 False = Inr parts
    \<and> log_seqlen_unbalance [3, 5, 4] parts = Inr s \<and> bs_mean s = 6"
proof -
  have nn: "0 \<le> x" if "x \<in> set [3, 5, 4]" for x :: int using that by auto
  obtain parts where "get_seqlen_balanced_partitions [3, 5, 4] 2 False = Inr parts"
    using balanced_partitions_exist [of 2 "[3, 5, 4]" False] nn by fastforce
  with balanced_metrics [OF this _ nn] show ?thesis by fastforce
qed

end
