(* ===== verification/Batch_Balancing.thy ===== *)
theory Batch_Balancing
  imports Seqlen_Balancing Data_Proto_Props
begin

text \<open>
  How \<open>trainer/rl_trainer.py\<close> divides a rollout batch: the shard of a rank, \<open>_balance_batch\<close>
  (sequence-length balancing across ranks) and \<open>_dynamic_mini_batches\<close> (greedy packing of rows
  sorted by length under a token budget), and the padding of the mini-batch list to the count
  of the busiest rank.
\<close>

section \<open>The shard of a rank\<close>

definition rank_slice :: "nat \<Rightarrow> nat \<Rightarrow> nat \<Rightarrow> nat \<times> nat" where
  \<comment> \<open>\<open>_s\<close> and \<open>_e\<close> for a number of rows, a world size and a rank\<close>
  "rank_slice num_rows world rank =
     (let chunk = max 1 (num_rows div world); s = rank * chunk
      in (s, if rank < world - 1 then s + chunk else num_rows))"

definition rank_shard :: "nat \<Rightarrow> nat \<Rightarrow> 'a list \<Rightarrow> 'a list" where
  "rank_shard world rank xs = (case rank_slice (length xs) world rank of (s, e) \<Rightarrow> py_slice s e xs)"

lemma rank_shards_tile:
  assumes "0 < world"
  shows "concat (map (\<lambda>r. rank_shard world r xs) [0..<world]) = xs"
proof -
  let ?chunk = "max 1 (length xs div world)"
  have "concat (map (\<lambda>r. rank_shard world r xs) [0..<world - 1])
      = concat (map (\<lambda>r. py_slice (r * ?chunk) (Suc r * ?chunk) xs) [0..<world - 1])"
    by (rule arg_cong [where f = concat], rule map_cong)
      (simp_all add: rank_shard_def rank_slice_def Let_def add.commute)
  also have "\<dots> = py_slice 0 ((world - 1) * ?chunk) xs"
    using concat_slices [of "world - 1" "\<lambda>r. r * ?chunk" xs] by simp
  finally have init: "concat (map (\<lambda>r. rank_shard world r xs) [0..<world - 1]) = take ((world - 1) * ?chunk) xs"
    by (simp add: py_slice_def)
  have last: "rank_shard world (world - 1) xs = drop ((world - 1) * ?chunk) xs"
    by (simp add: rank_shard_def rank_slice_def Let_def py_slice_def)
  have "[0..<world] = [0..<world - 1] @ [world - 1]"
    using assms by (cases world) simp_all
  then show ?thesis
    by (simp only: map_append concat_append init list.map concat.simps append_Nil2 last append_take_drop_id)
qed

section \<open>Balancing across ranks\<close>

definition calculate_workload :: "int list \<Rightarrow> int list" where
  "calculate_workload = map (\<lambda>s. 24576 * s + s ^ 2)"

definition row_sums :: "int tensor \<Rightarrow> int list result" where
  \<comment> \<open>\<open>mask.sum(dim=1)\<close> of a two-dimensional mask; the code uses the sums as one number per
      row, which raises for any other shape\<close>
  "row_sums t =
     (case t_trail t of [] \<Rightarrow> Inl IndexError | [_] \<Rightarrow> Inr (map sum_list (t_rows t)) | _ \<Rightarrow> Inl RuntimeError)"

definition balance_batch ::
  "nat \<Rightarrow> nat \<Rightarrow> (int, 'r, 'm) data_proto \<Rightarrow> ((int, 'r, 'm) data_proto \<times> balance_stats option) result"
where
  \<comment> \<open>\<open>self._rank\<close> and \<open>self._world_size\<close>; the new batch and the metrics, None for \<open>{}\<close>\<close>
  "balance_batch rank dp_size p =
     (case (case map_of (tensors p) ''response_mask'' of
              Some m \<Rightarrow> Some m | None \<Rightarrow> map_of (tensors p) ''attention_mask'') of
        None \<Rightarrow> Inr (p, None)
      | Some m \<Rightarrow>
          bind_result (row_sums m) (\<lambda>seq_lens.
          let workloads = calculate_workload seq_lens
          in if batch_size p < dp_size then Inr (p, None)
             else bind_result (get_seqlen_balanced_partitions workloads (int dp_size) False) (\<lambda>parts.
                  bind_result (log_seqlen_unbalance workloads parts) (\<lambda>stats.
                  bind_result (py_index parts (int rank)) (\<lambda>my_indices.
                  bind_result (reorder (IdxInts (map int my_indices)) p) (\<lambda>q.
                    Inr (q, Some stats)))))))"

section \<open>Mini-batches under a token budget\<close>

function fill_chunk :: "int \<Rightarrow> int list \<Rightarrow> nat \<Rightarrow> nat \<Rightarrow> int \<Rightarrow> nat" where
  \<comment> \<open>the inner loop: the end of the chunk that begins at \<open>start\<close>\<close>
  "fill_chunk cap lens start e tok_count =
     (if e < length lens
      then if tok_count + lens ! e > cap \<and> e > start then e
           else fill_chunk cap lens start (Suc e) (tok_count + lens ! e)
      else e)"
  by auto
termination by (relation "measure (\<lambda>(_, lens, _, e, _). length lens - e)") auto

declare fill_chunk.simps [simp del]

lemma fill_chunk_ge: "e \<le> fill_chunk cap lens start e tok"
proof (induction cap lens start e tok rule: fill_chunk.induct)
  case (1 cap lens start e tok)
  then show ?case by (subst fill_chunk.simps) (auto intro: order_trans [of _ "Suc e"])
qed

lemma fill_chunk_advances: "start < length lens \<Longrightarrow> start < fill_chunk cap lens start start tok"
  using fill_chunk_ge [of "Suc start" cap lens start "tok + lens ! start"]
  by (subst fill_chunk.simps) simp

function token_chunks :: "int \<Rightarrow> int list \<Rightarrow> nat \<Rightarrow> (nat \<times> nat) list" where
  \<comment> \<open>the outer loop: the \<open>(start, end)\<close> pairs\<close>
  "token_chunks cap lens start =
     (if start < length lens
      then let e = fill_chunk cap lens start start 0 in (start, e) # token_chunks cap lens e
      else [])"
  by auto
termination
  by (relation "measure (\<lambda>(_, lens, start). length lens - start)") (auto simp: fill_chunk_advances diff_less_mono2)

declare token_chunks.simps [simp del]

definition dynamic_mini_batches ::
  "(int list \<Rightarrow> nat list) \<Rightarrow> int \<Rightarrow> int \<Rightarrow> (int, 'r, 'm) data_proto \<Rightarrow> (int, 'r, 'm) data_proto list result"
where
  \<comment> \<open>\<open>argsort\<close> is \<open>torch.argsort\<close>, whose order of equal elements is not specified; the chunks
      are built without the ragged columns\<close>
  "dynamic_mini_batches argsort max_token_len fallback_bs p =
     (if max_token_len \<le> 0 then mini_batches fallback_bs p
      else bind_result (dict_get (tensors p) ''attention_mask'') (\<lambda>m.
           bind_result (row_sums m) (\<lambda>seq_lens.
           let sorted_idx = argsort seq_lens; sorted_lens = map (\<lambda>i. seq_lens ! i) sorted_idx
           in bind_result (map_result (\<lambda>(k, t). bind_result (t_gather (map int sorted_idx) t)
                  (\<lambda>u. Inr (k, u))) (tensors p)) (\<lambda>sorted_tensors.
              if length sorted_lens < batch_size p then Inl IndexError
              else Inr (map (\<lambda>(s, e). \<lparr>tensors = dict_map (t_slice s e) sorted_tensors,
                                        meta = meta p, ragged = []\<rparr>)
                     (token_chunks max_token_len (take (batch_size p) sorted_lens) 0))))))"

definition pad_mini_batches :: "nat \<Rightarrow> (int, 'r, 'm) data_proto list \<Rightarrow> (int, 'r, 'm) data_proto list result" where
  \<comment> \<open>every rank runs \<open>global_max\<close> passes: the missing ones repeat the last mini-batch with a
      zero response mask\<close>
  "pad_mini_batches global_max qs =
     (if length qs < global_max
      then bind_result (py_index qs (-1)) (\<lambda>q.
           bind_result (dict_get (tensors q) ''response_mask'') (\<lambda>m.
           Inr (qs @ replicate (global_max - length qs)
             \<lparr>tensors = dict_set ''response_mask'' (m\<lparr>t_rows := map (map (\<lambda>_. 0)) (t_rows m)\<rparr>) (tensors q),
              meta = meta q, ragged = []\<rparr>)))
      else Inr qs)"

section \<open>Token chunks\<close>

lemma py_slice_Suc:
  assumes "s \<le> e" "e < length xs"
  shows "py_slice s (Suc e) xs = py_slice s e xs @ [xs ! e]"
proof -
  have "py_slice e (Suc e) xs = [xs ! e]" using assms by (simp add: py_slice_nths)
  then show ?thesis using py_slice_append [of s e "Suc e" xs] assms(1) by simp
qed

lemma fill_chunk_spec:
  assumes "tok = sum_list (py_slice start e lens)" "start \<le> e" "e \<le> length lens"
    and "e \<le> Suc start \<or> tok \<le> cap"
  shows "(let r = fill_chunk cap lens start e tok in
      r \<le> length lens \<and> (r \<le> Suc start \<or> sum_list (py_slice start r lens) \<le> cap)
      \<and> (r < length lens \<longrightarrow> start < r \<and> cap < sum_list (py_slice start (Suc r) lens)))"
  using assms
proof (induction cap lens start e tok rule: fill_chunk.induct)
  case (1 cap lens start e tok)
  show ?case
  proof (cases "e < length lens \<and> \<not> (tok + lens ! e > cap \<and> e > start)")
    case True
    then have step: "fill_chunk cap lens start e tok = fill_chunk cap lens start (Suc e) (tok + lens ! e)"
      by (subst fill_chunk.simps) auto
    show ?thesis unfolding step
      by (rule "1.IH") (use True "1.prems" in \<open>auto simp: py_slice_Suc\<close>)
  next
    case False
    then have stop: "fill_chunk cap lens start e tok = e" by (subst fill_chunk.simps) auto
    show ?thesis unfolding stop Let_def using False "1.prems" by (auto simp: py_slice_Suc)
  qed
qed

definition chunk_fits :: "int \<Rightarrow> int list \<Rightarrow> nat \<times> nat \<Rightarrow> bool" where
  \<comment> \<open>a non-empty chunk, within the budget unless it is a single row, and full: the next row
      would not fit\<close>
  "chunk_fits cap lens c = (case c of (s, e) \<Rightarrow> s < e \<and> e \<le> length lens
     \<and> (e = Suc s \<or> sum_list (py_slice s e lens) \<le> cap)
     \<and> (e < length lens \<longrightarrow> cap < sum_list (py_slice s (Suc e) lens)))"

lemma token_chunks_spec:
  assumes "start \<le> length lens"
  shows "list_all (chunk_fits cap lens) (token_chunks cap lens start)
    \<and> concat (map (\<lambda>(s, e). [s..<e]) (token_chunks cap lens start)) = [start..<length lens]"
  using assms
proof (induction cap lens start rule: token_chunks.induct)
  case (1 cap lens start)
  show ?case
  proof (cases "start < length lens")
    case True
    let ?e = "fill_chunk cap lens start start 0"
    have e: "start < ?e" using fill_chunk_advances [OF True] by simp
    have spec: "?e \<le> length lens" "?e \<le> Suc start \<or> sum_list (py_slice start ?e lens) \<le> cap"
      "?e < length lens \<longrightarrow> cap < sum_list (py_slice start (Suc ?e) lens)"
      using fill_chunk_spec [of 0 start start lens cap] True by (simp_all add: Let_def)
    have unfold: "token_chunks cap lens start = (start, ?e) # token_chunks cap lens ?e"
      using True by (subst token_chunks.simps) (simp add: Let_def)
    have "[start..<?e] @ [?e..<length lens] = [start..<length lens]"
      using e spec(1) upt_add_eq_append [of start ?e "length lens - ?e"] by simp
    moreover have "chunk_fits cap lens (start, ?e)" using e spec by (auto simp: chunk_fits_def)
    ultimately show ?thesis using "1.IH" [OF True refl spec(1)] by (simp add: unfold)
  next
    case False
    then show ?thesis using "1.prems" by (subst (1 2) token_chunks.simps) simp
  qed
qed

lemma token_chunks_hd: "token_chunks cap lens start \<noteq> [] \<Longrightarrow> fst (token_chunks cap lens start ! 0) = start"
  by (subst (asm) token_chunks.simps, subst token_chunks.simps) (simp add: Let_def split: if_splits)

lemma token_chunks_adjacent:
  "Suc j < length (token_chunks cap lens start) \<Longrightarrow>
   fst (token_chunks cap lens start ! Suc j) = snd (token_chunks cap lens start ! j)"
proof (induction cap lens start arbitrary: j rule: token_chunks.induct)
  case (1 cap lens start)
  show ?case
  proof (cases "start < length lens")
    case True
    let ?e = "fill_chunk cap lens start start 0"
    have unfold: "token_chunks cap lens start = (start, ?e) # token_chunks cap lens ?e"
      using True by (subst token_chunks.simps) (simp add: Let_def)
    show ?thesis
    proof (cases j)
      case 0
      then show ?thesis using "1.prems" token_chunks_hd [of cap lens ?e] by (simp add: unfold)
    next
      case (Suc i)
      then show ?thesis using "1.prems" "1.IH" [OF True refl, of i] by (simp add: unfold)
    qed
  next
    case False
    then show ?thesis using "1.prems" by (subst (asm) token_chunks.simps) simp
  qed
qed

definition argsort_ok :: "(int list \<Rightarrow> nat list) \<Rightarrow> bool" where
  \<comment> \<open>what torch documents of \<open>argsort\<close>: the positions that sort the values\<close>
  "argsort_ok argsort = (\<forall>xs. mset (argsort xs) = mset [0..<length xs] \<and> sorted (map (\<lambda>i. xs ! i) (argsort xs)))"

lemma slice_pick_t:
  assumes "e \<le> length is"
  shows "t_slice s e (pick_t is t) = pick_t (py_slice s e is) t"
  using assms by (simp add: t_slice_def pick_t_def map_py_slice)

lemma token_parts:
  fixes len :: "nat \<Rightarrow> int"
  assumes chunks_def: "chunks = token_chunks cap (map len idx) 0" and parts_def: "parts = map (\<lambda>(s, e). py_slice s e idx) chunks"
  shows "(s, e) \<in> set chunks \<Longrightarrow> s < e \<and> e \<le> length idx"
    and "concat parts = idx"
    and "list_all (\<lambda>is. is \<noteq> [] \<and> (length is = 1 \<or> (\<Sum>i\<leftarrow>is. len i) \<le> cap)) parts"
    and "Suc j < length parts \<Longrightarrow> cap < (\<Sum>i\<leftarrow>parts ! j. len i) + len (hd (parts ! Suc j))"
proof -
  have spec: "list_all (chunk_fits cap (map len idx)) chunks" "concat (map (\<lambda>(s, e). [s..<e]) chunks) = [0..<length idx]"
    using token_chunks_spec [of 0 "map len idx" cap] by (auto simp: chunks_def)
  have fits: "s < e" "e \<le> length idx" "e = Suc s \<or> (\<Sum>i\<leftarrow>py_slice s e idx. len i) \<le> cap"
    "e < length idx \<longrightarrow> cap < (\<Sum>i\<leftarrow>py_slice s (Suc e) idx. len i)" if "(s, e) \<in> set chunks" for s e
    using spec(1) that by (auto simp: list_all_iff chunk_fits_def map_py_slice)
  show "s < e \<and> e \<le> length idx" if "(s, e) \<in> set chunks" using fits(1,2) [OF that] by simp
  have "concat parts = concat (map (map (\<lambda>i. idx ! i)) (map (\<lambda>(s, e). [s..<e]) chunks))"
    using fits(2) by (auto simp: parts_def py_slice_nths intro!: arg_cong [where f = concat])
  also have "\<dots> = map (\<lambda>i. idx ! i) [0..<length idx]" by (simp only: map_concat [symmetric] spec(2))
  finally show "concat parts = idx" by (simp add: map_nth)
  have "py_slice s e idx \<noteq> [] \<and> (length (py_slice s e idx) = 1 \<or> (\<Sum>i\<leftarrow>py_slice s e idx. len i) \<le> cap)"
    if "(s, e) \<in> set chunks" for s e
  proof -
    have size: "length (py_slice s e idx) = e - s" using fits(2) [OF that] by simp
    then have "py_slice s e idx \<noteq> []" using fits(1) [OF that] by auto
    then show ?thesis using fits(3) [OF that] size by auto
  qed
  then show "list_all (\<lambda>is. is \<noteq> [] \<and> (length is = 1 \<or> (\<Sum>i\<leftarrow>is. len i) \<le> cap)) parts"
    unfolding list_all_iff parts_def by auto
  show "cap < (\<Sum>i\<leftarrow>parts ! j. len i) + len (hd (parts ! Suc j))" if "Suc j < length parts"
  proof -
    have j: "Suc j < length chunks" using that by (simp add: parts_def)
    obtain s e where c: "chunks ! j = (s, e)" by (cases "chunks ! j")
    obtain e' where c': "chunks ! Suc j = (e, e')"
      using token_chunks_adjacent [OF j [unfolded chunks_def]] c by (cases "chunks ! Suc j") (simp add: chunks_def)
    have se: "(s, e) \<in> set chunks" "(e, e') \<in> set chunks"
      using j c c' nth_mem [of j chunks] nth_mem [of "Suc j" chunks] by simp_all
    have e: "s < e" "e < e'" "e' \<le> length idx" using fits(1,2) [OF se(1)] fits(1,2) [OF se(2)] by auto
    then have "cap < (\<Sum>i\<leftarrow>py_slice s (Suc e) idx. len i)" using fits(4) [OF se(1)] by auto
    also have "py_slice s (Suc e) idx = py_slice s e idx @ [idx ! e]"
      using e by (intro py_slice_Suc) auto
    also have "hd (py_slice e e' idx) = idx ! e"
      using e by (simp add: hd_conv_nth nth_py_slice flip: length_greater_0_conv)
    then have "idx ! e = hd (py_slice e e' idx)" by simp
    finally show ?thesis using j c c' by (simp add: parts_def)
  qed
qed

text \<open>C34: mini-batches under a token budget. Every row of the batch is in exactly one mini-batch,
  rows come in ascending length, a mini-batch exceeds the budget only when it is a single row, and
  none could have taken the next row as well. The mini-batches hold all tensors of their rows and
  none of the ragged columns.\<close>

theorem dynamic_mini_batches_cover:
  assumes "proto_ok p" "map_of (tensors p) ''attention_mask'' = Some m" "t_trail m = [w]"
    and "0 < cap" "argsort_ok argsort"
  defines "len \<equiv> (\<lambda>i. sum_list (t_rows m ! i))"
  shows "\<exists>parts. dynamic_mini_batches argsort cap fallback p = Inr (map (\<lambda>is. (pick is p)\<lparr>ragged := []\<rparr>) parts)
    \<and> mset (concat parts) = mset [0..<batch_size p]
    \<and> sorted (map len (concat parts))
    \<and> list_all (\<lambda>is. is \<noteq> [] \<and> (length is = 1 \<or> (\<Sum>i\<leftarrow>is. len i) \<le> cap)) parts
    \<and> (\<forall>j. Suc j < length parts \<longrightarrow> cap < (\<Sum>i\<leftarrow>parts ! j. len i) + len (hd (parts ! Suc j)))"
proof -
  let ?lens = "map sum_list (t_rows m)" and ?n = "batch_size p"
  let ?idx = "argsort ?lens"
  obtain chunks parts where chunks: "chunks = token_chunks cap (map len ?idx) 0"
    and parts: "parts = map (\<lambda>(s, e). py_slice s e ?idx) chunks" by blast
  note tp = token_parts [OF chunks parts]
  have mem: "(''attention_mask'', m) \<in> set (tensors p)" using assms(2) by (rule map_of_SomeD)
  have n: "length ?lens = ?n" using proto_okD(4) [OF assms(1) mem] by (simp add: t_len_def)
  have idx: "mset ?idx = mset [0..<?n]" "sorted (map (\<lambda>i. ?lens ! i) ?idx)"
    using assms(5) n unfolding argsort_ok_def by (metis, blast)
  then have len_idx: "length ?idx = ?n" by (metis diff_zero length_upt size_mset)
  have bound: "i < ?n" if "i \<in> set ?idx" for i using that mset_eq_setD [OF idx(1)] by auto
  have lens: "map (\<lambda>i. ?lens ! i) ?idx = map len ?idx" using bound n by (simp add: len_def)
  have gather: "map_result (\<lambda>(k, t). bind_result (t_gather (map int ?idx) t) (\<lambda>u. Inr (k, u))) (tensors p)
      = Inr (dict_map (pick_t ?idx) (tensors p))"
    by (rule tensors_op_pick, rule t_gather_pick) (use bound proto_okD(4) [OF assms(1)] in auto)
  have run: "dynamic_mini_batches argsort cap fallback p = Inr (map (\<lambda>is. (pick is p)\<lparr>ragged := []\<rparr>) parts)"
  proof -
    have "dict_map (t_slice s e) (dict_map (pick_t ?idx) (tensors p)) = dict_map (pick_t (py_slice s e ?idx)) (tensors p)"
      if "(s, e) \<in> set chunks" for s e
      using tp(1) [OF that] len_idx by (simp add: dict_map_comp slice_pick_t)
    then have "map (\<lambda>(s, e). \<lparr>tensors = dict_map (t_slice s e) (dict_map (pick_t ?idx) (tensors p)), meta = meta p, ragged = []\<rparr>) chunks
        = map (\<lambda>is. (pick is p)\<lparr>ragged := []\<rparr>) parts"
      by (auto simp: pick_def parts)
    moreover have "token_chunks cap (map (\<lambda>i. ?lens ! i) ?idx) 0 = chunks" unfolding lens chunks ..
    ultimately show ?thesis
      using assms(2-4) gather len_idx by (simp add: dynamic_mini_batches_def row_sums_def Let_def)
  qed
  show ?thesis
    using run tp(2-4) idx unfolding lens by (intro exI [of _ parts]) simp
qed

definition balance_sample :: "(int, nat, nat) data_proto" where
  \<comment> \<open>four rows with 3, 1, 2 and 2 tokens, and a ragged column\<close>
  "balance_sample = \<lparr>
     tensors = [(''attention_mask'', \<lparr>t_trail = [3], t_rows = [[1, 1, 1], [0, 0, 1], [0, 1, 1], [0, 1, 1]]\<rparr>)],
     meta = [(''step'', 7)], ragged = [(''rollout_routing'', [10, 11, 12, 13])]\<rparr>"

lemma balance_sample_facts:
  "proto_ok balance_sample" "batch_size balance_sample = 4"
  "map_of (tensors balance_sample) ''attention_mask'' =
     Some \<lparr>t_trail = [3], t_rows = [[1, 1, 1], [0, 0, 1], [0, 1, 1], [0, 1, 1]]\<rparr>"
  "map_of (tensors balance_sample) ''response_mask'' = None"
  by (simp_all add: balance_sample_def proto_ok_def batch_size_def wf_tensor_def t_len_def)

definition stable_argsort :: "int list \<Rightarrow> nat list" where
  "stable_argsort xs = map snd (sort (zip xs [0..<length xs]))"

lemma stable_argsort_ok: "argsort_ok stable_argsort"
  unfolding argsort_ok_def stable_argsort_def
proof (intro allI conjI)
  fix xs :: "int list"
  show "mset (map snd (sort (zip xs [0..<length xs]))) = mset [0..<length xs]"
    by (metis map_snd_zip length_upt diff_zero mset_map mset_sort)
  have by_key: "map (\<lambda>i. xs ! i) (map snd (sort (zip xs [0..<length xs]))) = map fst (sort (zip xs [0..<length xs]))"
    by (auto simp: in_set_zip)
  have keys: "sorted (map fst ys)" if "sorted ys" for ys :: "(int \<times> nat) list"
    using that by (induction ys) (auto simp: less_eq_prod_def)
  show "sorted (map (\<lambda>i. xs ! i) (map snd (sort (zip xs [0..<length xs]))))"
    unfolding by_key by (rule keys) simp
qed

theorem dynamic_mini_batches_cover_witness:
  "\<exists>parts. dynamic_mini_batches stable_argsort 4 1 balance_sample
      = Inr (map (\<lambda>is. (pick is balance_sample)\<lparr>ragged := []\<rparr>) parts)
    \<and> mset (concat parts) = mset [0..<4]"
  using dynamic_mini_batches_cover [of balance_sample _ 3 4 stable_argsort 1]
  by (force simp: balance_sample_facts stable_argsort_ok)


section \<open>What balancing does to a batch\<close>

definition balance_mask :: "(int, 'r, 'm) data_proto \<Rightarrow> int tensor option" where
  "balance_mask p = (case map_of (tensors p) ''response_mask'' of
     Some m \<Rightarrow> Some m | None \<Rightarrow> map_of (tensors p) ''attention_mask'')"

definition row_workload :: "int tensor \<Rightarrow> nat \<Rightarrow> int" where
  "row_workload m i = 24576 * sum_list (t_rows m ! i) + (sum_list (t_rows m ! i)) ^ 2"

lemma balance_mask_mem: "balance_mask p = Some m \<Longrightarrow> \<exists>k. (k, m) \<in> set (tensors p)"
  by (auto simp: balance_mask_def split: option.splits dest: map_of_SomeD)

lemma balance_batch_run:
  assumes ok: "proto_ok p" and m: "balance_mask p = Some m" "t_trail m = [w]"
    and nonneg: "list_all (list_all (\<lambda>x. 0 \<le> x)) (t_rows m)"
    and dp: "0 < dp" "dp \<le> batch_size p"
  shows "\<exists>parts. length parts = dp \<and> mset (concat parts) = mset [0..<batch_size p]
    \<and> list_all (\<lambda>is. is \<noteq> []) parts
    \<and> (\<forall>is \<in> set parts. \<forall>js \<in> set parts. (\<Sum>i\<leftarrow>is. row_workload m i) - (\<Sum>j\<leftarrow>js. row_workload m j)
         \<le> Max (row_workload m ` {0..<batch_size p}))
    \<and> (\<forall>r < dp. \<exists>s. balance_batch r dp p = Inr (pick (parts ! r) p, Some s))"
proof -
  let ?n = "batch_size p"
  let ?load = "calculate_workload (map sum_list (t_rows m))"
  obtain k where "(k, m) \<in> set (tensors p)" using balance_mask_mem [OF m(1)] by blast
  then have n: "length (t_rows m) = ?n" using proto_okD(4) [OF ok] by (simp add: t_len_def)
  then have load: "length ?load = ?n" "\<And>i. i < ?n \<Longrightarrow> ?load ! i = row_workload m i"
    by (simp_all add: calculate_workload_def row_workload_def)
  have pos: "0 \<le> x" if "x \<in> set ?load" for x
    using that nonneg by (fastforce simp: calculate_workload_def list_all_iff intro!: add_nonneg_nonneg mult_nonneg_nonneg sum_list_nonneg)
  have set_load: "set ?load = row_workload m ` {0..<?n}"
  proof -
    have "?load = map (row_workload m) [0..<?n]" by (rule nth_equalityI) (simp_all add: load)
    then show ?thesis by simp
  qed
  obtain parts where parts: "get_seqlen_balanced_partitions ?load (int dp) False = Inr parts"
    "length parts = dp" "mset (concat parts) = mset [0..<?n]" "list_all (\<lambda>p. sorted p \<and> p \<noteq> []) parts"
    "\<And>is js. is \<in> set parts \<Longrightarrow> js \<in> set parts \<Longrightarrow> (\<Sum>i\<leftarrow>is. ?load ! i) - (\<Sum>i\<leftarrow>js. ?load ! i) \<le> Max (set ?load)"
    using balanced_partitions_exist [of "int dp" ?load False] pos dp load(1) by auto
  obtain stats where stats: "log_seqlen_unbalance ?load parts = Inr stats"
    using balanced_metrics_exist [OF parts(1) _ pos] dp(1) by auto
  have idx: "i < ?n" if "is \<in> set parts" "i \<in> set is" for "is" i
    using that mset_eq_setD [OF parts(3)] by auto
  have sums: "(\<Sum>i\<leftarrow>is. ?load ! i) = (\<Sum>i\<leftarrow>is. row_workload m i)" if "is \<in> set parts" for "is"
    using idx [OF that] load(2) by (auto intro!: arg_cong [where f = sum_list])
  have run: "balance_batch r dp p = Inr (pick (parts ! r) p, Some stats)" if "r < dp" for r
  proof -
    have "parts ! r \<in> set parts" using that parts(2) by simp
    then have "reorder (IdxInts (map int (parts ! r))) p = Inr (pick (parts ! r) p)"
      using idx dp ok by (intro reorder_pick) (auto simp: list_all_iff)
    moreover have "py_index parts (int r) = Inr (parts ! r)" using that parts(2) by simp
    ultimately show ?thesis
      using m dp parts(1) stats
      by (simp add: balance_batch_def balance_mask_def [symmetric] row_sums_def Let_def del: map_map)
  qed
  show ?thesis
    using parts(2,3,4) parts(5) sums run
    by (intro exI [of _ parts]) (auto simp: list_all_iff set_load)
qed

text \<open>C35: balancing across ranks. If all ranks hold the same batch, they end up with disjoint
  shards that cover it, none empty, whose workloads differ by at most that of the longest row.\<close>

theorem balance_batch_shards:
  assumes "proto_ok p" "balance_mask p = Some m" "t_trail m = [w]"
    and "list_all (list_all (\<lambda>x. 0 \<le> x)) (t_rows m)"
    and "0 < dp" "dp \<le> batch_size p"
  shows "\<exists>parts. length parts = dp \<and> mset (concat parts) = mset [0..<batch_size p]
    \<and> list_all (\<lambda>is. is \<noteq> []) parts
    \<and> (\<forall>is \<in> set parts. \<forall>js \<in> set parts. (\<Sum>i\<leftarrow>is. row_workload m i) - (\<Sum>j\<leftarrow>js. row_workload m j)
         \<le> Max (row_workload m ` {0..<batch_size p}))
    \<and> (\<forall>r < dp. \<exists>s. balance_batch r dp p = Inr (pick (parts ! r) p, Some s))"
  by (rule balance_batch_run [OF assms])

theorem balance_batch_shards_witness:
  "\<exists>parts. length parts = 2 \<and> mset (concat parts) = mset [0..<4]
    \<and> (\<forall>r < 2. \<exists>s. balance_batch r 2 balance_sample = Inr (pick (parts ! r) balance_sample, Some s))"
proof -
  let ?m = "\<lparr>t_trail = [3], t_rows = [[1, 1, 1], [0, 0, 1], [0, 1, 1], [0, 1, 1]]\<rparr> :: int tensor"
  have "balance_mask balance_sample = Some ?m" by (simp add: balance_mask_def balance_sample_facts)
  then show ?thesis
    using balance_batch_shards [of balance_sample ?m 3 2] balance_sample_facts(1,2) by auto
qed

text \<open>The trainer calls \<open>_balance_batch\<close> after it has cut the batch into the shards of the ranks:
  each rank then keeps only one partition of its own shard and loses the other rows.\<close>

lemma balance_batch_drops_rows:
  assumes "proto_ok p" "balance_mask p = Some m" "t_trail m = [w]"
    and "list_all (list_all (\<lambda>x. 0 \<le> x)) (t_rows m)"
    and "1 < dp" "dp \<le> batch_size p" "rank < dp"
  shows "\<exists>q s. balance_batch rank dp p = Inr (q, s) \<and> batch_size q < batch_size p"
proof -
  obtain parts where parts: "length parts = dp" "mset (concat parts) = mset [0..<batch_size p]"
    "list_all (\<lambda>is. is \<noteq> []) parts" "\<forall>r < dp. \<exists>s. balance_batch r dp p = Inr (pick (parts ! r) p, Some s)"
    using balance_batch_run [OF assms(1-4), of dp] assms(5,6) by auto
  obtain other where other: "other < dp" "other \<noteq> rank" using assms(5,7) by (metis One_nat_def gr_implies_not0 less_one nat_neq_iff zero_less_iff_neq_zero)
  have "batch_size p = (\<Sum>i<dp. length (parts ! i))"
    using arg_cong [OF parts(2), of size] parts(1)
    by (simp add: length_concat sum_list_sum_nth atLeast0LessThan)
  also have "\<dots> \<ge> length (parts ! rank) + length (parts ! other)"
    using sum_mono2 [of "{..<dp}" "{rank, other}" "\<lambda>i. length (parts ! i)"] other assms(7) by simp
  moreover have "0 < length (parts ! other)" using parts(1,3) other(1) by (simp add: list_all_length)
  ultimately have "length (parts ! rank) < batch_size p" by linarith
  then show ?thesis using parts(4) assms(5-7) by (metis batch_size_pick_pos gr_zeroI less_zeroE)
qed

end
