(* ===== verification/Packing.thy ===== *)
theory Packing
  imports Data_Proto
begin

text \<open>
  \<open>lumenrl/engine/training/packing.py\<close>: sequence packing. A padded batch of token ids with a
  0/1 attention mask of the same shape is a list of rows of (token, real) pairs; packing
  concatenates the real tokens of the rows, and the per-token results of the model on the flat
  sequence are scattered back to the padded positions. The neural parts (the log-probability
  of a target under a row of logits at the sampling temperature, the entropy of a row) are
  functions the definitions take as arguments.
\<close>

section \<open>Slice assignment\<close>

definition assign_slice :: "int \<Rightarrow> int \<Rightarrow> 'a list \<Rightarrow> 'a list \<Rightarrow> 'a list result" where
  \<comment> \<open>\<open>buf[a:b] = src\<close> on a 1-D tensor: bounds are normalised and clamped, a single element is
      broadcast, any other length mismatch raises\<close>
  "assign_slice a b src buf =
     (let n = length buf; lo = slice_bound n a; hi = max lo (slice_bound n b)
      in if length src = hi - lo then Inr (take lo buf @ src @ drop hi buf)
         else if length src = 1 then Inr (take lo buf @ replicate (hi - lo) (hd src) @ drop hi buf)
         else Inl RuntimeError)"

definition clear_at :: "int list \<Rightarrow> bool list \<Rightarrow> bool list result" where
  \<comment> \<open>\<open>mask[idx] = False\<close>\<close>
  "clear_at idx bits =
     foldl (\<lambda>acc i. bind_result acc (\<lambda>bs.
        let pos = (if i < 0 then i + int (length bs) else i)
        in if pos < 0 \<or> int (length bs) \<le> pos then Inl IndexError else Inr (bs[nat pos := False])))
       (Inr bits) idx"

section \<open>Packing\<close>

record 'e packed_batch =
  pk_input_ids :: "'e list"
  pk_position_ids :: "nat list"
  pk_cu_seqlens :: "nat list"
  pk_seq_lens :: "nat list"
  pk_max_seqlen :: nat

definition row_len :: "('e \<times> bool) list \<Rightarrow> nat" where
  \<comment> \<open>\<open>attention_mask.sum(dim=1)\<close>\<close>
  "row_len r = length (filter snd r)"

definition cumulative :: "nat list \<Rightarrow> nat list" where
  \<comment> \<open>a zero followed by \<open>torch.cumsum\<close>\<close>
  "cumulative ls = map (\<lambda>i. sum_list (take i ls)) [0..<Suc (length ls)]"

definition pack_row ::
  "nat \<Rightarrow> ('e list \<times> nat list \<times> nat) result \<Rightarrow> ('e \<times> bool) list \<Rightarrow> ('e list \<times> nat list \<times> nat) result"
where
  \<comment> \<open>one iteration of the loop; the state is both buffers and the offset\<close>
  "pack_row s acc r =
     bind_result acc (\<lambda>(ids, pos, offset).
       let sl = row_len r
       in bind_result (assign_slice (int offset) (int (offset + sl)) (py_slice (s - sl) s (map fst r)) ids) (\<lambda>ids'.
          bind_result (assign_slice (int offset) (int (offset + sl)) [0..<sl] pos) (\<lambda>pos'.
            Inr (ids', pos', offset + sl))))"

definition pack_sequences :: "nat \<Rightarrow> ('e::zero \<times> bool) list list \<Rightarrow> nat \<Rightarrow> 'e packed_batch result" where
  \<comment> \<open>\<open>s\<close> is the padded length, \<open>tp_align\<close> the multiple the flat length is padded to; the
      maximum over no rows raises\<close>
  "pack_sequences s rows tp_align =
     (let lens = map row_len rows; total_tokens = sum_list lens
      in if rows = [] then Inl RuntimeError
         else if tp_align = 0 then Inl ZeroDivisionError
         else let pad_len = (tp_align - total_tokens mod tp_align) mod tp_align
              in bind_result (foldl (pack_row s)
                     (Inr (replicate (total_tokens + pad_len) 0, replicate (total_tokens + pad_len) 0, 0)) rows)
                   (\<lambda>(ids, pos, _).
                      Inr \<lparr>pk_input_ids = ids, pk_position_ids = pos, pk_cu_seqlens = cumulative lens,
                           pk_seq_lens = lens, pk_max_seqlen = foldr max lens 0\<rparr>))"

definition pack_from_nested :: "nat list \<Rightarrow> 'e list \<Rightarrow> nat list \<Rightarrow> nat list \<Rightarrow> 'e packed_batch result" where
  \<comment> \<open>from tokens that are already flat; \<open>fill\<close> is the content \<open>torch.empty\<close> leaves at positions
      no sequence covers\<close>
  "pack_from_nested fill input_ids cu_seqlens seq_lens =
     (if seq_lens = [] then Inl RuntimeError
      else bind_result
        (foldl (\<lambda>acc i. bind_result acc (\<lambda>pos.
            bind_result (py_index cu_seqlens (int i)) (\<lambda>start.
              assign_slice (int start) (int (start + seq_lens ! i)) [0..<seq_lens ! i] pos)))
          (Inr fill) [0..<length seq_lens])
        (\<lambda>pos. Inr \<lparr>pk_input_ids = input_ids, pk_position_ids = pos, pk_cu_seqlens = cu_seqlens,
                    pk_seq_lens = seq_lens, pk_max_seqlen = foldr max seq_lens 0\<rparr>))"

section \<open>Log-probabilities and entropies of the flat sequence\<close>

definition boundary_mask :: "int list \<Rightarrow> nat \<Rightarrow> bool list result" where
  \<comment> \<open>all ones but at the given positions\<close>
  "boundary_mask idx total_tokens = clear_at idx (replicate total_tokens True)"

definition last_positions :: "nat list \<Rightarrow> int list" where
  \<comment> \<open>\<open>cu_seqlens[1:] - 1\<close>\<close>
  "last_positions cu = map (\<lambda>c. int c - 1) (tl cu)"

definition first_positions :: "nat list \<Rightarrow> int list" where
  \<comment> \<open>\<open>cu_seqlens[:-1]\<close>\<close>
  "first_positions cu = map int (butlast cu)"

definition in_chunks :: "nat \<Rightarrow> ('a list \<Rightarrow> 'b list) \<Rightarrow> 'a list \<Rightarrow> 'b list list" where
  \<comment> \<open>the parts of a loop over \<open>range(0, len(xs), chunk_size)\<close>\<close>
  "in_chunks chunk_size f xs =
     map (\<lambda>m. f (py_slice (m * chunk_size) (min (m * chunk_size + chunk_size) (length xs)) xs))
       [0..<(length xs + chunk_size - 1) div chunk_size]"

definition packed_token_log_probs ::
  "bool \<Rightarrow> ('l \<Rightarrow> 'e \<Rightarrow> 'v::uminus) \<Rightarrow> ('l \<Rightarrow> 'e::zero \<Rightarrow> 'v) \<Rightarrow> 'l list \<Rightarrow> 'e list \<Rightarrow> nat list \<Rightarrow> 'v list result"
where
  \<comment> \<open>\<open>fused\<close> selects the fused cross-entropy kernel, whose per-row loss is \<open>loss\<close>; \<open>logp\<close> is
      \<open>log_softmax\<close> and \<open>gather\<close> of one row in the fallback. \<open>torch.cat\<close> of no parts raises.\<close>
  "packed_token_log_probs fused loss logp logits packed_ids cu =
     bind_result (py_index cu (-1)) (\<lambda>total_real.
     let lg = take total_real logits; ids = take total_real packed_ids
     in bind_result (boundary_mask (last_positions cu) total_real) (\<lambda>not_last.
        if fused
        then if ids = [] \<or> length lg \<noteq> total_real then Inl IndexError
             else Inr (mask_list not_last (map (\<lambda>(l, t). - loss l t) (zip lg (tl ids @ [0]))))
        else bind_result (boundary_mask (first_positions cu) total_real) (\<lambda>not_first.
             if length lg \<noteq> total_real \<or> length ids \<noteq> total_real then Inl IndexError
             else let pairs = zip (mask_list not_last lg) (mask_list not_first ids);
                      parts = in_chunks 4096 (map (\<lambda>(l, t). logp l t)) pairs
                  in if parts = [] then Inl RuntimeError else Inr (concat parts))))"

definition packed_token_entropy ::
  "nat \<Rightarrow> ('l \<Rightarrow> 'v) \<Rightarrow> 'l list \<Rightarrow> nat list \<Rightarrow> 'v list result"
where
  "packed_token_entropy chunk_size ent logits cu =
     bind_result (py_index cu (-1)) (\<lambda>total_real.
     bind_result (boundary_mask (last_positions cu) total_real) (\<lambda>not_last.
       if chunk_size = 0 then Inl ValueError
       else let parts = in_chunks chunk_size (map ent) (take total_real logits)
            in if parts = [] then Inr []
               else if length (concat parts) \<noteq> total_real then Inl IndexError
               else Inr (mask_list not_last (concat parts))))"

section \<open>Unpacking\<close>

definition shifted_cu :: "nat list \<Rightarrow> nat \<Rightarrow> int" where
  \<comment> \<open>entry \<open>i\<close> of the cumulative sums of \<open>seq_lens - 1\<close>\<close>
  "shifted_cu lens i = sum_list (map (\<lambda>l. int l - 1) (take i lens))"

definition unpack_row :: "'v::zero list \<Rightarrow> nat list \<Rightarrow> nat \<Rightarrow> nat \<Rightarrow> 'v list result" where
  "unpack_row flat_lp lens s_m1 i =
     (let sl = lens ! i; n = length flat_lp; dst_start = int s_m1 - (int sl - 1)
      in if sl \<le> 1 then Inr (replicate s_m1 0)
         else assign_slice dst_start (dst_start + (int sl - 1))
                (py_slice (slice_bound n (shifted_cu lens i)) (slice_bound n (shifted_cu lens (Suc i))) flat_lp)
                (replicate s_m1 0))"

definition unpack_log_probs :: "'v::zero list \<Rightarrow> nat list \<Rightarrow> nat \<Rightarrow> 'v list list result" where
  "unpack_log_probs flat_lp lens padded_seq_len =
     (if padded_seq_len = 0 then Inl RuntimeError
      else map_result (unpack_row flat_lp lens (padded_seq_len - 1)) [0..<length lens])"

section \<open>The packing context\<close>

type_synonym packing_context = "(nat list \<times> nat) option"   \<comment> \<open>the module globals\<close>

definition set_packing_context :: "nat list \<Rightarrow> nat \<Rightarrow> packing_context \<Rightarrow> packing_context" where
  "set_packing_context cu m ctx = Some (cu, m)"

definition get_packing_context :: "packing_context \<Rightarrow> (nat list \<times> nat) option" where
  "get_packing_context ctx = ctx"

definition clear_packing_context :: "packing_context \<Rightarrow> packing_context" where
  "clear_packing_context ctx = None"

definition with_packing_context ::
  "nat list \<Rightarrow> nat \<Rightarrow> (packing_context \<Rightarrow> 'a result \<times> packing_context) \<Rightarrow> packing_context \<Rightarrow> 'a result \<times> packing_context"
where
  \<comment> \<open>\<open>with PackingContext(cu, m): body\<close>; \<open>__exit__\<close> runs whether the body raises or not\<close>
  "with_packing_context cu m body ctx =
     (case body (set_packing_context cu m ctx) of (r, ctx') \<Rightarrow> (r, clear_packing_context ctx'))"

datatype 'f attention_fn = VarlenAttention | OtherAttention 'f

type_synonym 'f attention_state = "(string, 'f attention_fn) dict \<times> 'f attention_fn option"
  \<comment> \<open>the function registry of transformers and \<open>_original_attn_fn\<close>\<close>

definition patch_attention_for_packing :: "bool \<Rightarrow> 'f attention_state \<Rightarrow> bool \<times> 'f attention_state" where
  \<comment> \<open>\<open>importable\<close>: whether transformers has the registry\<close>
  "patch_attention_for_packing importable st =
     (let reg = fst st
      in if \<not> importable then (False, st)
         else (case map_of reg ''sdpa'' of
                 None \<Rightarrow> (False, (reg, None))
               | Some fn \<Rightarrow> (True, (dict_set ''sdpa'' VarlenAttention reg, Some fn))))"

datatype 'f attention_call = CallVarlen "nat list" nat | CallOriginal 'f | Diverges | NotCallable

definition call_sdpa :: "packing_context \<Rightarrow> 'f attention_state \<Rightarrow> 'f attention_call" where
  \<comment> \<open>which kernel a call of the registered function reaches: \<open>_varlen_attention_forward\<close> uses
      the varlen kernel inside a packing context and calls the saved function otherwise, which
      never returns when the saved function is itself\<close>
  "call_sdpa ctx st =
     (case map_of (fst st) ''sdpa'' of
        None \<Rightarrow> NotCallable
      | Some (OtherAttention f) \<Rightarrow> CallOriginal f
      | Some VarlenAttention \<Rightarrow>
          (case (get_packing_context ctx, snd st) of
             (Some (cu, m), _) \<Rightarrow> CallVarlen cu m
           | (None, None) \<Rightarrow> NotCallable
           | (None, Some (OtherAttention f)) \<Rightarrow> CallOriginal f
           | (None, Some VarlenAttention) \<Rightarrow> Diverges))"


section \<open>Packing left-padded rows\<close>

lemma slice_bound_nat: "a \<le> n \<Longrightarrow> slice_bound n (int a) = a"
  by (simp add: slice_bound_def)

lemma assign_slice_in:
  assumes "a \<le> b" "b \<le> length buf" "length src = b - a"
  shows "assign_slice (int a) (int b) src buf = Inr (take a buf @ src @ drop b buf)"
  using assms by (simp add: assign_slice_def Let_def slice_bound_nat max_def)

definition left_padded :: "nat \<Rightarrow> ('e \<times> bool) list \<Rightarrow> bool" where
  \<comment> \<open>a row of width \<open>s\<close> whose real tokens are all at the end\<close>
  "left_padded s r = (length r = s \<and> list_all snd (dropWhile (\<lambda>c. \<not> snd c) r))"

definition real_tokens :: "('e \<times> bool) list \<Rightarrow> 'e list" where
  "real_tokens r = map fst (filter snd r)"

lemma length_real_tokens [simp]: "length (real_tokens r) = row_len r"
  by (simp add: real_tokens_def row_len_def)

lemma filter_dropWhile_real:
  "list_all snd (dropWhile (\<lambda>c. \<not> snd c) r) \<Longrightarrow> filter snd r = dropWhile (\<lambda>c. \<not> snd c) r"
proof (induction r)
  case (Cons c r)
  show ?case
  proof (cases "snd c")
    case True
    then have "\<forall>x \<in> set r. snd x" using Cons.prems by (simp add: list_all_iff)
    then show ?thesis using True by (simp only: filter.simps dropWhile.simps filter_True if_True not_True_eq_False if_False)
  next
    case False
    then show ?thesis using Cons by simp
  qed
qed simp

lemma left_padded_tail:
  assumes "left_padded s r"
  shows "row_len r \<le> s" and "py_slice (s - row_len r) s (map fst r) = real_tokens r"
proof -
  have "filter snd r = dropWhile (\<lambda>c. \<not> snd c) r"
    by (rule filter_dropWhile_real) (use assms in \<open>simp add: left_padded_def\<close>)
  moreover have "dropWhile (\<lambda>c. \<not> snd c) r = drop (length (takeWhile (\<lambda>c. \<not> snd c) r)) r"
    by (rule dropWhile_eq_drop)
  ultimately have f: "filter snd r = drop (length (takeWhile (\<lambda>c. \<not> snd c) r)) r" by simp
  have len: "length r = s" using assms by (simp add: left_padded_def)
  show "row_len r \<le> s" using len by (metis length_filter_le row_len_def)
  have "s - row_len r = length (takeWhile (\<lambda>c. \<not> snd c) r)"
    using arg_cong [OF f, of length] len length_takeWhile_le [of "\<lambda>c. \<not> snd c" r]
    by (simp add: row_len_def)
  then show "py_slice (s - row_len r) s (map fst r) = real_tokens r"
    using f len by (simp add: py_slice_def real_tokens_def drop_map)
qed

lemma cumulative_nth: "i \<le> length ls \<Longrightarrow> cumulative ls ! i = sum_list (take i ls)"
  unfolding cumulative_def by (simp del: upt_Suc)

lemma slice_concat:
  "i < length xss \<Longrightarrow> py_slice (sum_list (map length (take i xss))) (sum_list (map length (take (Suc i) xss)))
     (concat xss @ zs) = xss ! i"
proof (induction xss arbitrary: i)
  case (Cons xs xss)
  show ?case
  proof (cases i)
    case 0
    then show ?thesis by (simp add: py_slice_def)
  next
    case (Suc j)
    then show ?thesis using Cons.IH [of j] Cons.prems by (simp add: py_slice_def)
  qed
qed simp

lemma pack_loop:
  assumes "list_all (left_padded s) rows" "length A = length P" "sum_list (map row_len rows) \<le> k"
  shows "foldl (pack_row s) (Inr (A @ replicate k 0, P @ replicate k 0, length A)) rows
    = Inr (A @ concat (map real_tokens rows) @ replicate (k - sum_list (map row_len rows)) 0,
           P @ concat (map (\<lambda>r. [0..<row_len r]) rows) @ replicate (k - sum_list (map row_len rows)) 0,
           length A + sum_list (map row_len rows))"
  using assms
proof (induction rows arbitrary: A P k)
  case (Cons r rows)
  let ?l = "row_len r"
  have pad: "left_padded s r" and l: "?l \<le> k" using Cons.prems by simp_all
  have "assign_slice (int (length A)) (int (length A + ?l)) (real_tokens r) (A @ replicate k 0)
      = Inr (A @ real_tokens r @ replicate (k - ?l) 0)"
    using l by (subst assign_slice_in) simp_all
  moreover have "assign_slice (int (length A)) (int (length A + ?l)) [0..<?l] (P @ replicate k 0)
      = Inr (P @ [0..<?l] @ replicate (k - ?l) 0)"
    using l Cons.prems(2) by (subst assign_slice_in) simp_all
  ultimately have step: "pack_row s (Inr (A @ replicate k 0, P @ replicate k 0, length A)) r
      = Inr ((A @ real_tokens r) @ replicate (k - ?l) 0, (P @ [0..<?l]) @ replicate (k - ?l) 0, length (A @ real_tokens r))"
    using left_padded_tail(2) [OF pad] by (simp add: pack_row_def Let_def)
  have "foldl (pack_row s) (Inr (A @ replicate k 0, P @ replicate k 0, length A)) (r # rows)
      = foldl (pack_row s) (Inr ((A @ real_tokens r) @ replicate (k - ?l) 0,
          (P @ [0..<?l]) @ replicate (k - ?l) 0, length (A @ real_tokens r))) rows"
    by (simp only: foldl_Cons step)
  also have "\<dots> = Inr ((A @ real_tokens r) @ concat (map real_tokens rows) @ replicate (k - ?l - sum_list (map row_len rows)) 0,
          (P @ [0..<?l]) @ concat (map (\<lambda>r. [0..<row_len r]) rows) @ replicate (k - ?l - sum_list (map row_len rows)) 0,
          length (A @ real_tokens r) + sum_list (map row_len rows))"
    by (rule Cons.IH) (use Cons.prems in auto)
  finally show ?case by (simp add: add.assoc)
qed simp

lemma pack_sequences_run:
  assumes "rows \<noteq> []" "list_all (left_padded s) rows" "0 < tp_align"
  defines "n \<equiv> sum_list (map row_len rows)"
  shows "\<exists>pad < tp_align. tp_align dvd n + pad \<and>
    pack_sequences s rows tp_align = Inr
      \<lparr>pk_input_ids = concat (map real_tokens rows) @ replicate pad 0,
       pk_position_ids = concat (map (\<lambda>r. [0..<row_len r]) rows) @ replicate pad 0,
       pk_cu_seqlens = cumulative (map row_len rows), pk_seq_lens = map row_len rows,
       pk_max_seqlen = foldr max (map row_len rows) 0\<rparr>"
proof -
  let ?pad = "(tp_align - n mod tp_align) mod tp_align"
  have "tp_align dvd n + ?pad"
  proof -
    have "n mod tp_align + (tp_align - n mod tp_align) = tp_align"
      using mod_less_divisor [OF assms(3), of n] by linarith
    moreover have "(n + ?pad) mod tp_align = (n mod tp_align + (tp_align - n mod tp_align)) mod tp_align"
      by (metis mod_add_left_eq mod_add_right_eq)
    ultimately have "(n + ?pad) mod tp_align = 0" by (simp only: mod_self)
    then show ?thesis by (simp only: dvd_eq_mod_eq_0)
  qed
  moreover have "?pad < tp_align" using assms(3) by simp
  moreover have "pack_sequences s rows tp_align = Inr
      \<lparr>pk_input_ids = concat (map real_tokens rows) @ replicate ?pad 0,
       pk_position_ids = concat (map (\<lambda>r. [0..<row_len r]) rows) @ replicate ?pad 0,
       pk_cu_seqlens = cumulative (map row_len rows), pk_seq_lens = map row_len rows,
       pk_max_seqlen = foldr max (map row_len rows) 0\<rparr>"
    using assms pack_loop [of s rows "[]" "[]" "n + ?pad"]
    by (simp add: pack_sequences_def Let_def)
  ultimately show ?thesis by blast
qed

text \<open>packing left-padded rows. The flat sequence is the real tokens of the rows in order, then
  fewer than \<open>tp_align\<close> zeros up to a multiple of \<open>tp_align\<close>; positions restart at every row; the
  cumulative lengths delimit the rows.\<close>

theorem pack_sequences_spec:
  assumes "rows \<noteq> []" "list_all (left_padded s) rows" "0 < tp_align"
  shows "\<exists>b pad. pack_sequences s rows tp_align = Inr b
    \<and> pk_input_ids b = concat (map real_tokens rows) @ replicate pad 0
    \<and> pk_position_ids b = concat (map (\<lambda>r. [0..<row_len r]) rows) @ replicate pad 0
    \<and> pad < tp_align \<and> tp_align dvd length (pk_input_ids b)
    \<and> (\<forall>i < length rows. py_slice (pk_cu_seqlens b ! i) (pk_cu_seqlens b ! Suc i) (pk_input_ids b)
          = real_tokens (rows ! i))"
proof -
  let ?n = "sum_list (map row_len rows)"
  obtain pad where pad: "pad < tp_align" "tp_align dvd ?n + pad"
    and run: "pack_sequences s rows tp_align = Inr
      \<lparr>pk_input_ids = concat (map real_tokens rows) @ replicate pad 0,
       pk_position_ids = concat (map (\<lambda>r. [0..<row_len r]) rows) @ replicate pad 0,
       pk_cu_seqlens = cumulative (map row_len rows), pk_seq_lens = map row_len rows,
       pk_max_seqlen = foldr max (map row_len rows) 0\<rparr>"
    using pack_sequences_run [OF assms] by blast
  have len: "length (concat (map real_tokens rows)) = ?n" by (simp add: length_concat comp_def)
  have "py_slice (cumulative (map row_len rows) ! i) (cumulative (map row_len rows) ! Suc i)
      (concat (map real_tokens rows) @ replicate pad 0) = real_tokens (rows ! i)" if "i < length rows" for i
    using that slice_concat [of i "map real_tokens rows" "replicate pad 0"]
    by (simp add: cumulative_nth comp_def take_map)
  with pad len run show ?thesis by auto
qed


definition packing_rows :: "(int \<times> bool) list list" where
  "packing_rows = [[(0, False), (7, True), (8, True)], [(4, True), (5, True), (6, True)], [(0, False), (0, False), (9, True)]]"

lemma packing_rows_ok:
  "packing_rows \<noteq> []" "list_all (left_padded 3) packing_rows" "map row_len packing_rows = [2, 3, 1]"
  "map real_tokens packing_rows = [[7, 8], [4, 5, 6], [9]]"
  by (simp_all add: packing_rows_def left_padded_def row_len_def real_tokens_def)

theorem pack_sequences_spec_witness:
  "\<exists>b pad. pack_sequences 3 packing_rows 4 = Inr b
    \<and> pk_input_ids b = concat (map real_tokens packing_rows) @ replicate pad 0 \<and> pad < 4"
  using pack_sequences_spec [OF packing_rows_ok(1,2), of 4] by auto

section \<open>Sequence boundaries\<close>

lemma clear_at_spec:
  "(\<And>i. i \<in> set is \<Longrightarrow> i < length bs) \<Longrightarrow>
   clear_at (map int is) bs = Inr (map (\<lambda>j. bs ! j \<and> j \<notin> set is) [0..<length bs])"
proof (induction "is" rule: rev_induct)
  case Nil
  have "map (\<lambda>j. bs ! j) [0..<length bs] = bs" by (rule map_nth)
  then show ?case by (simp add: clear_at_def)
next
  case (snoc i "is")
  have i: "i < length bs" using snoc.prems [of i] by simp
  have "clear_at (map int (is @ [i])) bs = bind_result (clear_at (map int is) bs) (\<lambda>bs.
      let pos = (if int i < 0 then int i + int (length bs) else int i)
      in if pos < 0 \<or> int (length bs) \<le> pos then Inl IndexError else Inr (bs[nat pos := False]))"
    by (simp add: clear_at_def)
  also have "\<dots> = Inr ((map (\<lambda>j. bs ! j \<and> j \<notin> set is) [0..<length bs])[i := False])"
  proof -
    have "clear_at (map int is) bs = Inr (map (\<lambda>j. bs ! j \<and> j \<notin> set is) [0..<length bs])"
      by (rule snoc.IH) (use snoc.prems in simp)
    with i show ?thesis by (simp add: Let_def)
  qed
  also have "(map (\<lambda>j. bs ! j \<and> j \<notin> set is) [0..<length bs])[i := False]
      = map (\<lambda>j. bs ! j \<and> j \<notin> set (is @ [i])) [0..<length bs]"
    using i by (intro nth_equalityI) (auto simp: nth_list_update)
  finally show ?case .
qed

definition last_flags :: "nat list \<Rightarrow> bool list" where
  "last_flags lens = concat (map (\<lambda>l. replicate (l - 1) True @ [False]) lens)"

definition first_flags :: "nat list \<Rightarrow> bool list" where
  "first_flags lens = concat (map (\<lambda>l. False # replicate (l - 1) True) lens)"

lemma flags_of_positions:
  assumes "list_all (\<lambda>l. 0 < l) lens"
  shows "map (\<lambda>j. j \<notin> (\<lambda>i. sum_list (take (Suc i) lens) - 1) ` {..<length lens}) [0..<sum_list lens] = last_flags lens"
    and "map (\<lambda>j. j \<notin> (\<lambda>i. sum_list (take i lens)) ` {..<length lens}) [0..<sum_list lens] = first_flags lens"
  using assms
proof (induction lens rule: rev_induct)
  case Nil
  { case 1 show ?case by (simp add: last_flags_def) }
  { case 2 show ?case by (simp add: first_flags_def) }
next
  case (snoc l lens)
  let ?S = "sum_list lens"
  have le: "sum_list (take i lens) \<le> ?S" for i
    by (metis append_take_drop_id le_add1 sum_list_append)
  have S: "sum_list (lens @ [l]) = ?S + l" by simp
  have split: "[0..<?S + l] = [0..<?S] @ [?S..<?S + l]" by (rule upt_add_eq_append) simp
  have sets: "(\<lambda>i. f (take i (lens @ [l]))) ` {..<length (lens @ [l])}
      = insert (f (take (length lens) (lens @ [l]))) ((\<lambda>i. f (take i lens)) ` {..<length lens})" for f :: "nat list \<Rightarrow> nat"
    by (simp add: lessThan_Suc cong: image_cong_simp)
  have sets': "(\<lambda>i. f (take (Suc i) (lens @ [l]))) ` {..<length (lens @ [l])}
      = insert (f (lens @ [l])) ((\<lambda>i. f (take (Suc i) lens)) ` {..<length lens})" for f :: "nat list \<Rightarrow> nat"
    by (simp add: lessThan_Suc cong: image_cong_simp)
  {
    case 1
    then have l: "0 < l" and pos: "list_all (\<lambda>l. 0 < l) lens" by simp_all
    let ?old = "(\<lambda>i. sum_list (take (Suc i) lens) - 1) ` {..<length lens}"
    have old: "j < ?S" if "j \<in> ?old" for j
    proof -
      from that obtain i where i: "i < length lens" "j = sum_list (take (Suc i) lens) - 1" by auto
      then have "0 < lens ! i" using pos by (simp add: list_all_length)
      then have "0 < sum_list (take (Suc i) lens)" using i(1) by (simp add: take_Suc_conv_app_nth)
      then show ?thesis using i(2) le [of "Suc i"] by linarith
    qed
    have "map (\<lambda>j. j \<notin> insert (?S + l - 1) ?old) [0..<?S] = map (\<lambda>j. j \<notin> ?old) [0..<?S]"
      using l by auto
    then have a: "map (\<lambda>j. j \<notin> insert (?S + l - 1) ?old) [0..<?S] = last_flags lens"
      by (simp only: snoc(1) [OF pos])
    have b: "map (\<lambda>j. j \<notin> insert (?S + l - 1) ?old) [?S..<?S + l] = replicate (l - 1) True @ [False]"
      using l old by (intro nth_equalityI) (auto simp: nth_append)
    have "last_flags (lens @ [l]) = last_flags lens @ replicate (l - 1) True @ [False]"
      by (simp add: last_flags_def)
    then show ?case by (simp only: sets' [of "\<lambda>xs. sum_list xs - 1"] S split map_append a b)
  }
  {
    case 2
    then have l: "0 < l" and pos: "list_all (\<lambda>l. 0 < l) lens" by simp_all
    let ?old = "(\<lambda>i. sum_list (take i lens)) ` {..<length lens}"
    have old: "j < ?S" if "j \<in> ?old" for j
    proof -
      from that obtain i where i: "i < length lens" "j = sum_list (take i lens)" by auto
      then have "0 < lens ! i" using pos by (simp add: list_all_length)
      then have "sum_list (take i lens) < sum_list (take (Suc i) lens)" using i(1) by (simp add: take_Suc_conv_app_nth)
      then show ?thesis using i(2) le [of "Suc i"] by linarith
    qed
    have "map (\<lambda>j. j \<notin> insert ?S ?old) [0..<?S] = map (\<lambda>j. j \<notin> ?old) [0..<?S]" by auto
    then have a: "map (\<lambda>j. j \<notin> insert ?S ?old) [0..<?S] = first_flags lens"
      by (simp only: snoc(2) [OF pos])
    have b: "map (\<lambda>j. j \<notin> insert ?S ?old) [?S..<?S + l] = False # replicate (l - 1) True"
      using l old by (intro nth_equalityI) (auto simp: nth_Cons')
    have "first_flags (lens @ [l]) = first_flags lens @ False # replicate (l - 1) True"
      by (simp add: first_flags_def)
    moreover have "take (length lens) (lens @ [l]) = lens" by simp
    ultimately show ?case by (simp only: sets [of sum_list] S split map_append a b)
  }
qed


lemma boundary_mask_positions:
  assumes "\<And>i. i < k \<Longrightarrow> f i < n"
  shows "boundary_mask (map int (map f [0..<k])) n = Inr (map (\<lambda>j. j \<notin> f ` {..<k}) [0..<n])"
proof -
  have "boundary_mask (map int (map f [0..<k])) n
      = Inr (map (\<lambda>j. replicate n True ! j \<and> j \<notin> set (map f [0..<k])) [0..<length (replicate n True)])"
    unfolding boundary_mask_def by (rule clear_at_spec) (use assms in auto)
  also have "map (\<lambda>j. replicate n True ! j \<and> j \<notin> set (map f [0..<k])) [0..<length (replicate n True)]
      = map (\<lambda>j. j \<notin> f ` {..<k}) [0..<n]"
    by (auto simp: atLeast0LessThan)
  finally show ?thesis .
qed

lemma boundary_masks:
  assumes "list_all (\<lambda>l. 0 < l) lens"
  shows "boundary_mask (last_positions (cumulative lens)) (sum_list lens) = Inr (last_flags lens)"
    and "boundary_mask (first_positions (cumulative lens)) (sum_list lens) = Inr (first_flags lens)"
proof -
  have pos: "sum_list (take i lens) < sum_list (take (Suc i) lens)" if "i < length lens" for i
    using that assms by (simp add: take_Suc_conv_app_nth list_all_length)
  have le: "sum_list (take i lens) \<le> sum_list lens" for i
    by (metis append_take_drop_id le_add1 sum_list_append)
  have cu: "cumulative lens = map (\<lambda>i. sum_list (take i lens)) [0..<Suc (length lens)]" by (rule cumulative_def)
  have "last_positions (cumulative lens) = map int (map (\<lambda>i. sum_list (take (Suc i) lens) - 1) [0..<length lens])"
  proof -
    have "int (sum_list (take (Suc i) lens)) - 1 = int (sum_list (take (Suc i) lens) - 1)" if "i < length lens" for i
      using pos [OF that] by linarith
    then show ?thesis by (simp add: last_positions_def cu upt_Suc_map del: upt_Suc)
  qed
  moreover have "sum_list (take (Suc i) lens) - 1 < sum_list lens" if "i < length lens" for i
    using pos [OF that] le [of "Suc i"] by linarith
  ultimately show "boundary_mask (last_positions (cumulative lens)) (sum_list lens) = Inr (last_flags lens)"
    by (simp only: boundary_mask_positions flags_of_positions(1) [OF assms])
  have "first_positions (cumulative lens) = map int (map (\<lambda>i. sum_list (take i lens)) [0..<length lens])"
    by (simp add: first_positions_def cu)
  moreover have "sum_list (take i lens) < sum_list lens" if "i < length lens" for i
    using pos [OF that] le [of "Suc i"] by linarith
  ultimately show "boundary_mask (first_positions (cumulative lens)) (sum_list lens) = Inr (first_flags lens)"
    by (simp only: boundary_mask_positions flags_of_positions(2) [OF assms])
qed

lemma mask_list_replicate [simp]: "mask_list (replicate (length xs) True) xs = xs"
  by (induction xs) simp_all

lemma mask_last_blocks:
  "list_all (\<lambda>xs. xs \<noteq> []) xss \<Longrightarrow> mask_list (last_flags (map length xss)) (concat xss) = concat (map butlast xss)"
proof (induction xss)
  case (Cons xs xss)
  then obtain ys y where xs: "xs = ys @ [y]" by (cases xs rule: rev_cases) auto
  have "mask_list (replicate (length ys) True @ [False]) (ys @ [y]) = ys"
    by (simp add: mask_list_append)
  then show ?case using Cons xs mask_list_append [of "replicate (length ys) True @ [False]" "ys @ [y]"]
    by (simp add: last_flags_def)
qed (simp add: last_flags_def)

lemma mask_first_blocks:
  "list_all (\<lambda>xs. xs \<noteq> []) xss \<Longrightarrow> mask_list (first_flags (map length xss)) (concat xss) = concat (map tl xss)"
proof (induction xss)
  case (Cons xs xss)
  then obtain y ys where xs: "xs = y # ys" by (cases xs) auto
  have "mask_list (False # replicate (length ys) True) (y # ys) = ys"
    by simp
  then show ?case using Cons xs mask_list_append [of "False # replicate (length ys) True" "y # ys"]
    by (simp add: first_flags_def)
qed (simp add: first_flags_def)

lemma in_chunks_Nil_iff: "0 < c \<Longrightarrow> in_chunks c f xs = [] \<longleftrightarrow> xs = []"
  by (cases xs) (simp_all add: in_chunks_def div_eq_0_iff)

lemma in_chunks_concat:
  assumes "0 < c" "\<And>xs ys. f (xs @ ys) = f xs @ f ys" "f [] = []"
  shows "concat (in_chunks c f xs) = f xs"
proof -
  let ?q = "(length xs + c - 1) div c"
  let ?cut = "\<lambda>m. min (m * c) (length xs)"
  have q: "length xs \<le> ?q * c"
    using assms(1) div_mult_mod_eq [of "length xs + c - 1" c] mod_less_divisor [OF assms(1), of "length xs + c - 1"] by linarith
  have slices: "py_slice (m * c) (min (m * c + c) (length xs)) xs = py_slice (?cut m) (?cut (Suc m)) xs" for m
    by (cases "m * c \<le> length xs") (simp_all add: py_slice_def min_def add.commute)
  have concat_f: "concat (map f ys) = f (concat ys)" for ys
    by (induction ys) (simp_all add: assms(2,3))
  have "concat (in_chunks c f xs) = concat (map f (map (\<lambda>m. py_slice (?cut m) (?cut (Suc m)) xs) [0..<?q]))"
    by (simp add: in_chunks_def slices comp_def)
  also have "\<dots> = f (concat (map (\<lambda>m. py_slice (?cut m) (?cut (Suc m)) xs) [0..<?q]))" by (rule concat_f)
  also have "concat (map (\<lambda>m. py_slice (?cut m) (?cut (Suc m)) xs) [0..<?q]) = xs"
    by (rule concat_slices_all) (use q in \<open>auto simp: min_def\<close>)
  finally show ?thesis .
qed

lemma in_chunks_map: "0 < c \<Longrightarrow> concat (in_chunks c (map g) xs) = map g xs"
  by (rule in_chunks_concat) simp_all

section \<open>Log-probabilities of a packed batch\<close>

text \<open>The fused kernel sees the whole flat sequence with the targets shifted by one; dropping the
  last position of every sequence leaves the same (row, target) pairs the fallback selects.\<close>

lemma shifted_blocks:
  "list_all (\<lambda>ts. ts \<noteq> []) tss \<Longrightarrow> tss \<noteq> [] \<Longrightarrow>
   \<exists>wss. tl (concat tss) @ [z] = concat wss \<and> map length wss = map length tss \<and> map butlast wss = map tl tss"
proof (induction tss)
  case (Cons t tss)
  then obtain y ys where t: "t = y # ys" by (cases t) auto
  show ?case
  proof (cases "tss = []")
    case True
    then show ?thesis by (intro exI [of _ "[ys @ [z]]"]) (simp add: t)
  next
    case False
    with Cons obtain wss where wss: "tl (concat tss) @ [z] = concat wss" "map length wss = map length tss"
        "map butlast wss = map tl tss" by auto
    obtain c cs where c: "concat tss = c # cs" using Cons.prems False by (cases tss) (auto simp: neq_Nil_conv)
    show ?thesis using wss by (intro exI [of _ "(ys @ [c]) # wss"]) (simp add: t c)
  qed
qed simp

lemma mask_list_map: "mask_list bs (map f xs) = map f (mask_list bs xs)"
  by (induction bs xs rule: list_induct2') simp_all

lemma mask_list_zip:
  "length xs = length ys \<Longrightarrow> mask_list bs (zip xs ys) = zip (mask_list bs xs) (mask_list bs ys)"
proof (induction bs arbitrary: xs ys)
  case (Cons b bs)
  then show ?case by (cases xs; cases ys) auto
qed simp

lemma zip_concat:
  "map length xss = map length yss \<Longrightarrow> zip (concat xss) (concat yss) = concat (map2 zip xss yss)"
proof (induction xss arbitrary: yss)
  case (Cons xs xss)
  then show ?case by (cases yss) auto
qed simp

definition block_log_probs :: "('l \<Rightarrow> 'e \<Rightarrow> 'v) \<Rightarrow> 'l list list \<Rightarrow> 'e list list \<Rightarrow> 'v list list" where
  "block_log_probs logp lgs tss = map2 (\<lambda>lg ts. map (\<lambda>(l, t). logp l t) (zip (butlast lg) (tl ts))) lgs tss"

lemma concat_block_log_probs:
  assumes "map length lgs = map length tss"
  shows "map (\<lambda>(l, t). logp l t) (zip (concat (map butlast lgs)) (concat (map tl tss)))
    = concat (block_log_probs logp lgs tss)"
proof -
  have "map length (map butlast lgs) = map length (map tl tss)"
    using arg_cong [OF assms, of "map (\<lambda>n. n - 1)"] by (simp add: comp_def)
  then have "zip (concat (map butlast lgs)) (concat (map tl tss)) = concat (map2 zip (map butlast lgs) (map tl tss))"
    by (rule zip_concat)
  then show ?thesis by (simp add: block_log_probs_def map_concat zip_map_map comp_def case_prod_unfold)
qed

lemma packed_log_probs_blocks:
  assumes blocks: "list_all (\<lambda>ts. ts \<noteq> []) tss" "tss \<noteq> []" "map length lgs = map length tss"
    and cu: "cu = cumulative (map length tss)"
    and some: "\<not> fused \<Longrightarrow> list_ex (\<lambda>ts. 1 < length ts) tss"
    and same: "\<And>l t. - loss l t = logp l t"
  shows "packed_token_log_probs fused loss logp (concat lgs @ extra) (concat tss @ pad) cu
    = Inr (concat (block_log_probs logp lgs tss))"
proof -
  let ?lens = "map length tss"
  let ?n = "sum_list ?lens"
  have pos: "list_all (\<lambda>l. 0 < l) ?lens" using blocks(1) by (simp add: list_all_iff)
  have lgs: "list_all (\<lambda>xs. xs \<noteq> []) lgs"
    using pos unfolding assms(3) [symmetric] by (simp add: list_all_iff)
  have len: "length (concat tss) = ?n" "length (concat lgs) = ?n"
    by (simp_all only: length_concat assms(3))
  have total_real: "py_index cu (-1) = Inr ?n"
    using py_index_neg [of 1 cu] cumulative_nth [of "length ?lens" ?lens] by (simp add: cu cumulative_def)
  have takes: "take ?n (concat lgs @ extra) = concat lgs" "take ?n (concat tss @ pad) = concat tss"
    using len by simp_all
  note masks = boundary_masks [OF pos, folded cu]
  have ne: "concat tss \<noteq> []" using blocks(1,2) by (cases tss) auto
  have last: "mask_list (last_flags ?lens) (concat lgs) = concat (map butlast lgs)"
    using mask_last_blocks [OF lgs] by (simp only: assms(3))
  have first: "mask_list (first_flags ?lens) (concat tss) = concat (map tl tss)"
    by (rule mask_first_blocks [OF blocks(1)])
  show ?thesis
  proof (cases fused)
    case True
    obtain wss where wss: "tl (concat tss) @ [0] = concat wss" "map length wss = ?lens" "map butlast wss = map tl tss"
      using shifted_blocks [OF blocks(1,2), of 0] by blast
    have w: "list_all (\<lambda>xs. xs \<noteq> []) wss" using pos unfolding wss(2) [symmetric] by (simp add: list_all_iff)
    have "mask_list (last_flags ?lens) (concat wss) = concat (map tl tss)"
      using mask_last_blocks [OF w] by (simp only: wss(2,3))
    moreover have "length (concat lgs) = length (concat wss)" by (simp only: length_concat assms(3) wss(2))
    ultimately have "mask_list (last_flags ?lens) (map (\<lambda>(l, t). - loss l t) (zip (concat lgs) (tl (concat tss) @ [0])))
        = concat (block_log_probs logp lgs tss)"
      by (simp only: mask_list_map mask_list_zip last wss(1) same concat_block_log_probs [OF assms(3)])
    then show ?thesis using True ne len
      by (simp add: packed_token_log_probs_def total_real takes masks Let_def)
  next
    case False
    let ?pairs = "zip (concat (map butlast lgs)) (concat (map tl tss))"
    let ?parts = "in_chunks 4096 (map (\<lambda>(l, t). logp l t)) ?pairs"
    have c: "concat ?parts = concat (block_log_probs logp lgs tss)"
      using in_chunks_concat [of 4096 "map (\<lambda>(l, t). logp l t)" ?pairs] concat_block_log_probs [OF assms(3)] by simp
    have "?parts \<noteq> []"
    proof
      assume "?parts = []"
      then have "concat (block_log_probs logp lgs tss) = []" using c by simp
      then have "?pairs = []" by (simp only: concat_block_log_probs [OF assms(3), symmetric] map_is_Nil_conv)
      moreover have "length (concat (map butlast lgs)) = length (concat (map tl tss))"
        using arg_cong [OF assms(3), of "\<lambda>xs. sum_list (map (\<lambda>n. n - 1) xs)"]
        by (simp add: length_concat comp_def)
      ultimately have "concat (map tl tss) = []" by (cases "concat (map tl tss)"; cases "concat (map butlast lgs)") auto
      then have no: "tl ts = []" if "ts \<in> set tss" for ts using that by simp
      obtain ts where "ts \<in> set tss" "1 < length ts" using some [OF False] by (auto simp: list_ex_iff)
      then show False using arg_cong [OF no, of ts length] by simp
    qed
    then show ?thesis using False len c
      by (simp add: packed_token_log_probs_def total_real takes masks Let_def last first)
  qed
qed

lemma packed_log_probs_none:
  \<comment> \<open>rows of one token each leave the fallback nothing to concatenate\<close>
  assumes blocks: "list_all (\<lambda>ts. length ts = 1) tss" "map length lgs = map length tss"
    and cu: "cu = cumulative (map length tss)"
  shows "packed_token_log_probs False loss logp (concat lgs @ extra) (concat tss @ pad) cu = Inl RuntimeError"
proof -
  let ?lens = "map length tss"
  let ?n = "sum_list ?lens"
  have pos: "list_all (\<lambda>l. 0 < l) ?lens" using blocks(1) by (simp add: list_all_iff)
  have lgs: "list_all (\<lambda>xs. xs \<noteq> []) lgs"
    using pos unfolding assms(2) [symmetric] by (simp add: list_all_iff)
  have ne: "list_all (\<lambda>xs. xs \<noteq> []) tss" using blocks(1) by (auto simp: list_all_iff)
  have len: "length (concat tss) = ?n" "length (concat lgs) = ?n"
    by (simp_all only: length_concat assms(2))
  have total_real: "py_index cu (-1) = Inr ?n"
    using py_index_neg [of 1 cu] cumulative_nth [of "length ?lens" ?lens] by (simp add: cu cumulative_def)
  have takes: "take ?n (concat lgs @ extra) = concat lgs" "take ?n (concat tss @ pad) = concat tss"
    using len by simp_all
  note masks = boundary_masks [OF pos, folded cu]
  have last: "mask_list (last_flags ?lens) (concat lgs) = concat (map butlast lgs)"
    using mask_last_blocks [OF lgs] by (simp only: assms(2))
  have first: "mask_list (first_flags ?lens) (concat tss) = concat (map tl tss)"
    by (rule mask_first_blocks [OF ne])
  have "tl ts = []" if "ts \<in> set tss" for ts
    using bspec [OF blocks(1) [unfolded list_all_iff] that] by (cases ts) simp_all
  then have empty: "concat (map tl tss) = []" by simp
  then show ?thesis using len
    by (simp add: packed_token_log_probs_def total_real takes masks Let_def last first empty in_chunks_def del: concat_eq_Nil_conv)
qed

section \<open>Unpacking the log-probabilities\<close>

lemma shifted_cu_nat:
  "list_all (\<lambda>l. 0 < l) lens \<Longrightarrow> shifted_cu lens i = int (sum_list (map (\<lambda>l. l - 1) (take i lens)))"
proof (induction lens arbitrary: i)
  case (Cons l lens)
  then show ?case by (cases i) (simp_all add: shifted_cu_def)
qed (simp add: shifted_cu_def)

lemma unpack_row_block:
  assumes "list_all (\<lambda>l. 0 < l) lens" "i < length lens" "lens ! i \<le> s"
    and fss: "map length fss = map (\<lambda>l. l - 1) lens"
  shows "unpack_row (concat fss) lens (s - 1) i = Inr (replicate (s - lens ! i) 0 @ fss ! i)"
proof -
  let ?l = "lens ! i" and ?c = "\<lambda>i. sum_list (map length (take i fss))"
  have i: "i < length fss" using assms(2) arg_cong [OF fss, of length] by simp
  have l: "0 < ?l" "length (fss ! i) = ?l - 1"
    using assms(1,2) i arg_cong [OF fss, of "\<lambda>xs. xs ! i"] by (simp_all add: list_all_length)
  show ?thesis
  proof (cases "?l \<le> 1")
    case True
    then have "?l = 1" "fss ! i = []" using l by simp_all
    then show ?thesis by (simp add: unpack_row_def)
  next
    case False
    have cu: "shifted_cu lens k = int (?c k)" for k
      by (simp add: shifted_cu_nat [OF assms(1)] take_map [symmetric] fss)
    have le: "?c k \<le> length (concat fss)" for k
      by (metis append_take_drop_id le_add1 length_concat map_append sum_list_append)
    have src: "py_slice (slice_bound (length (concat fss)) (shifted_cu lens i))
        (slice_bound (length (concat fss)) (shifted_cu lens (Suc i))) (concat fss) = fss ! i"
      using slice_concat [OF i, of "[]"] by (simp only: cu slice_bound_nat [OF le] append_Nil2)
    have "unpack_row (concat fss) lens (s - 1) i
        = assign_slice (int (s - ?l)) (int (s - 1)) (fss ! i) (replicate (s - 1) 0)"
    proof -
      have "int (s - 1) - (int ?l - 1) = int (s - ?l)" "int (s - ?l) + (int ?l - 1) = int (s - 1)"
        using False assms(3) by (simp_all)
      then show ?thesis using False src by (simp add: unpack_row_def Let_def)
    qed
    also have "\<dots> = Inr (take (s - ?l) (replicate (s - 1) 0) @ fss ! i @ drop (s - 1) (replicate (s - 1) 0))"
      by (rule assign_slice_in) (use False l assms(3) in simp_all)
    finally show ?thesis using False by (simp add: min_def)
  qed
qed

lemma unpack_blocks:
  assumes "list_all (\<lambda>l. 0 < l \<and> l \<le> s) lens" "0 < s" "map length fss = map (\<lambda>l. l - 1) lens"
  shows "unpack_log_probs (concat fss) lens s
    = Inr (map (\<lambda>i. replicate (s - lens ! i) 0 @ fss ! i) [0..<length lens])"
proof -
  have "list_all (\<lambda>l. 0 < l) lens" using assms(1) by (simp add: list_all_iff)
  then have "map_result (unpack_row (concat fss) lens (s - 1)) [0..<length lens]
      = Inr (map (\<lambda>i. replicate (s - lens ! i) 0 @ fss ! i) [0..<length lens])"
    by (intro map_result_total unpack_row_block) (use assms(1,3) in \<open>auto simp: list_all_length\<close>)
  then show ?thesis using assms(2) by (simp add: unpack_log_probs_def)
qed

lemma blocks_of_lengths:
  assumes "sum_list ns \<le> length xs"
  shows "\<exists>xss extra. xs = concat xss @ extra \<and> map length xss = ns"
  using assms
proof (induction ns arbitrary: xs)
  case Nil
  show ?case by (intro exI [of _ "[]"] exI [of _ xs]) simp
next
  case (Cons n ns)
  then have "sum_list ns \<le> length (drop n xs)" by simp
  then obtain xss extra where "drop n xs = concat xss @ extra" "map length xss = ns" using Cons.IH by blast
  moreover have "xs = take n xs @ drop n xs" by simp
  ultimately show ?case using Cons.prems by (intro exI [of _ "take n xs # xss"] exI [of _ extra]) simp
qed

lemma nth_concat:
  "i < length xss \<Longrightarrow> j < length (xss ! i) \<Longrightarrow>
   (concat xss @ zs) ! (sum_list (map length (take i xss)) + j) = xss ! i ! j"
proof (induction xss arbitrary: i)
  case (Cons xs xss)
  then show ?case by (cases i) (simp_all add: nth_append add.assoc)
qed simp

lemma block_log_probs_nth:
  assumes "map length lgs = map length tss" "i < length tss"
  shows "block_log_probs logp lgs tss ! i
    = map (\<lambda>j. logp (lgs ! i ! j) (tss ! i ! Suc j)) [0..<length (tss ! i) - 1]"
proof -
  have i: "i < length lgs" using map_eq_imp_length_eq [OF assms(1)] assms(2) by simp
  moreover have "length (lgs ! i) = length (tss ! i)"
    using i assms(2) arg_cong [OF assms(1), of "\<lambda>xs. xs ! i"] by simp
  ultimately show ?thesis using assms(2)
    by (intro nth_equalityI) (simp_all add: block_log_probs_def nth_butlast nth_tl)
qed

lemma pack_unpack_run:
  assumes rows: "rows \<noteq> []" "list_all (\<lambda>r. left_padded s r \<and> 0 < row_len r) rows" "0 < tp_align"
    and pack: "pack_sequences s rows tp_align = Inr b"
    and logits: "length logits = length (pk_input_ids b)"
    and some: "\<not> fused \<Longrightarrow> list_ex (\<lambda>r. 1 < row_len r) rows"
    and same: "\<And>l t. - loss l t = logp l t"
  shows "\<exists>flat. packed_token_log_probs fused loss logp logits (pk_input_ids b) (pk_cu_seqlens b) = Inr flat
    \<and> unpack_log_probs flat (pk_seq_lens b) s = Inr (map (\<lambda>i.
        let l = row_len (rows ! i) in replicate (s - l) 0 @
          map (\<lambda>j. logp (logits ! (pk_cu_seqlens b ! i + j)) (real_tokens (rows ! i) ! Suc j)) [0..<l - 1])
        [0..<length rows])"
proof -
  let ?tss = "map real_tokens rows" and ?lens = "map row_len rows"
  have lens: "map length ?tss = ?lens" by (simp add: comp_def)
  have padded: "list_all (left_padded s) rows" using rows(2) by (simp add: list_all_iff)
  obtain pad where b: "pk_input_ids b = concat ?tss @ replicate pad 0" "pk_cu_seqlens b = cumulative ?lens"
      "pk_seq_lens b = ?lens"
    using pack_sequences_run [OF rows(1) padded rows(3)] pack by auto
  have "sum_list ?lens \<le> length logits"
    by (simp only: logits b(1) length_append length_concat lens)
  then obtain lgs extra where lgs: "logits = concat lgs @ extra" "map length lgs = map length ?tss"
    using blocks_of_lengths [of ?lens logits] unfolding lens by blast
  have ne: "list_all (\<lambda>ts. ts \<noteq> []) ?tss"
    using rows(2) by (auto simp: list_all_iff) (metis length_real_tokens less_irrefl list.size(3))
  let ?bs = "block_log_probs logp lgs ?tss"
  have cu: "pk_cu_seqlens b = cumulative (map length ?tss)" by (simp only: lens b(2))
  have flat: "packed_token_log_probs fused loss logp logits (pk_input_ids b) (pk_cu_seqlens b) = Inr (concat ?bs)"
    unfolding lgs(1) b(1)
    by (rule packed_log_probs_blocks)
      (use ne rows(1) lgs(2) cu some same in \<open>auto simp: list_ex_iff\<close>)
  have k: "length lgs = length rows" using arg_cong [OF lgs(2), of length] by simp
  have "map length ?bs = map (\<lambda>l. l - 1) ?lens"
  proof (rule nth_equalityI)
    show "length (map length ?bs) = length (map (\<lambda>l. l - 1) ?lens)" using k by (simp add: block_log_probs_def)
    show "map length ?bs ! i = map (\<lambda>l. l - 1) ?lens ! i" if "i < length (map length ?bs)" for i
      using that block_log_probs_nth [OF lgs(2), of i logp] k by (simp add: block_log_probs_def)
  qed
  moreover have "list_all (\<lambda>l. 0 < l \<and> l \<le> s) ?lens" "0 < s"
    using rows(1,2) left_padded_tail(1) [of s] by (force simp: list_all_iff neq_Nil_conv)+
  ultimately have "unpack_log_probs (concat ?bs) ?lens s
      = Inr (map (\<lambda>i. replicate (s - ?lens ! i) 0 @ ?bs ! i) [0..<length ?lens])"
    by (intro unpack_blocks)
  also have "map (\<lambda>i. replicate (s - ?lens ! i) 0 @ ?bs ! i) [0..<length ?lens] = map (\<lambda>i.
        let l = row_len (rows ! i) in replicate (s - l) 0 @
          map (\<lambda>j. logp (logits ! (pk_cu_seqlens b ! i + j)) (real_tokens (rows ! i) ! Suc j)) [0..<l - 1])
        [0..<length rows]"
  proof (rule map_cong)
    fix i assume "i \<in> set [0..<length rows]"
    then have i: "i < length rows" by simp
    have li: "length (lgs ! i) = row_len (rows ! i)"
      using i k arg_cong [OF lgs(2), of "\<lambda>xs. xs ! i"] by simp
    have "logits ! (cumulative ?lens ! i + j) = lgs ! i ! j" if "j < row_len (rows ! i)" for j
      using nth_concat [of i lgs j extra] i k that li
      by (simp only: lgs(1) cumulative_nth take_map [symmetric] lgs(2) lens length_map less_imp_le)
    then show "replicate (s - ?lens ! i) 0 @ ?bs ! i = (let l = row_len (rows ! i) in replicate (s - l) 0 @
          map (\<lambda>j. logp (logits ! (pk_cu_seqlens b ! i + j)) (real_tokens (rows ! i) ! Suc j)) [0..<l - 1])"
      using i block_log_probs_nth [OF lgs(2), of i logp] by (simp add: Let_def b(2))
  qed simp
  finally show ?thesis using flat by (simp only: b(3)) blast
qed

lemma pack_unpack_none:
  assumes rows: "rows \<noteq> []" "list_all (\<lambda>r. left_padded s r \<and> 0 < row_len r) rows" "0 < tp_align"
    and pack: "pack_sequences s rows tp_align = Inr b"
    and logits: "length logits = length (pk_input_ids b)"
    and none: "\<not> list_ex (\<lambda>r. 1 < row_len r) rows"
  shows "packed_token_log_probs False loss logp logits (pk_input_ids b) (pk_cu_seqlens b) = Inl RuntimeError"
proof -
  let ?tss = "map real_tokens rows" and ?lens = "map row_len rows"
  have lens: "map length ?tss = ?lens" by (simp add: comp_def)
  have padded: "list_all (left_padded s) rows" using rows(2) by (simp add: list_all_iff)
  obtain pad where b: "pk_input_ids b = concat ?tss @ replicate pad 0" "pk_cu_seqlens b = cumulative ?lens"
    using pack_sequences_run [OF rows(1) padded rows(3)] pack by auto
  have "sum_list ?lens \<le> length logits"
    by (simp only: logits b(1) length_append length_concat lens)
  then obtain lgs extra where lgs: "logits = concat lgs @ extra" "map length lgs = map length ?tss"
    using blocks_of_lengths [of ?lens logits] unfolding lens by blast
  have one: "row_len r = 1" if "r \<in> set rows" for r
    using that rows(2) none unfolding list_all_iff list_ex_iff by fastforce
  show ?thesis unfolding lgs(1) b(1)
    by (rule packed_log_probs_none) (use one lgs(2) b(2) lens in \<open>auto simp: list_all_iff comp_def\<close>)
qed

text \<open>C36: log-probabilities of a packed batch of left-padded, non-empty rows. With the fused kernel, or
  with the chunked fallback when some row has more than one token, the values scattered back to the
  padded shape hold at row \<open>i\<close> the log-probability of each real token but the first under the logits
  of its predecessor, and zeros before them: no token is scored with the logits of another row. The
  fallback on rows of one token each raises instead, because it has nothing to concatenate.\<close>

theorem pack_unpack_log_probs:
  assumes "rows \<noteq> []" "list_all (\<lambda>r. left_padded s r \<and> 0 < row_len r) rows" "0 < tp_align"
    and "pack_sequences s rows tp_align = Inr b" "length logits = length (pk_input_ids b)"
    and "\<And>l t. - loss l t = logp l t"
  shows "if fused \<or> list_ex (\<lambda>r. 1 < row_len r) rows
    then \<exists>flat. packed_token_log_probs fused loss logp logits (pk_input_ids b) (pk_cu_seqlens b) = Inr flat
      \<and> unpack_log_probs flat (pk_seq_lens b) s = Inr (map (\<lambda>i.
          let l = row_len (rows ! i) in replicate (s - l) 0 @
            map (\<lambda>j. logp (logits ! (pk_cu_seqlens b ! i + j)) (real_tokens (rows ! i) ! Suc j)) [0..<l - 1])
          [0..<length rows])
    else packed_token_log_probs fused loss logp logits (pk_input_ids b) (pk_cu_seqlens b) = Inl RuntimeError"
proof (cases "fused \<or> list_ex (\<lambda>r. 1 < row_len r) rows")
  case True
  then have "\<not> fused \<Longrightarrow> list_ex (\<lambda>r. 1 < row_len r) rows" by simp
  from pack_unpack_run [OF assms(1-5) this assms(6)] True show ?thesis by simp
next
  case False
  then show ?thesis using pack_unpack_none [OF assms(1-5)] by simp
qed

definition packed_sample :: "int packed_batch" where
  "packed_sample = \<lparr>pk_input_ids = [7, 8, 4, 5, 6, 9, 0, 0], pk_position_ids = [0, 1, 0, 1, 2, 0, 0, 0],
     pk_cu_seqlens = [0, 2, 5, 6], pk_seq_lens = [2, 3, 1], pk_max_seqlen = 3\<rparr>"

lemma packed_sample_ok: "pack_sequences 3 packing_rows 4 = Inr packed_sample"
  by code_simp

theorem pack_unpack_log_probs_witness:
  "\<exists>flat. packed_token_log_probs False (\<lambda>l t. - (l + t)) (+) [10, 20, 30, 40, 50, 60, 70, 80]
      (pk_input_ids packed_sample) (pk_cu_seqlens packed_sample) = Inr flat
    \<and> unpack_log_probs flat (pk_seq_lens packed_sample) 3 = Inr [[0, 18], [35, 46], [0, 0 :: int]]"
  using pack_unpack_log_probs [of packing_rows 3 4 packed_sample "[10, 20, 30, 40, 50, 60, 70, 80]"
      "\<lambda>l t. - (l + t)" "(+)" False] packed_sample_ok packing_rows_ok
  by (simp add: packed_sample_def packing_rows_def left_padded_def row_len_def real_tokens_def upt_rec eval_nat_numeral)

section \<open>Boundary behaviour\<close>

text \<open>When no row has a second token the fallback concatenates an empty list of parts, which
  raises, where the fused kernel returns an empty result.\<close>

lemma single_token_rows:
  "packed_token_log_probs False loss logp [l] [t] [0, 1] = Inl RuntimeError"
  "packed_token_log_probs True loss logp [l] [t] [0, 1] = Inr []"
  by (simp_all add: packed_token_log_probs_def py_index_def boundary_mask_def last_positions_def first_positions_def
      clear_at_def in_chunks_def mask_list_def Let_def)

text \<open>A row without a real token counts \<open>-1\<close> in the shifted cumulative lengths, so the rows after
  it read the log-probabilities of their neighbours.\<close>

lemma empty_row_shifts_others:
  "unpack_log_probs [11, 22, 33] [2, 0, 3] 3 = Inr [[0, 11], [0, 0], [11, 22 :: int]]"
  by code_simp

text \<open>Outside a packing context the patched function calls the one it replaced; patching once more
  replaces it with itself.\<close>

lemma patch_once:
  "map_of reg ''sdpa'' = Some (OtherAttention f) \<Longrightarrow>
   patch_attention_for_packing True (reg, saved) = (True, (dict_set ''sdpa'' VarlenAttention reg, Some (OtherAttention f)))
   \<and> call_sdpa None (snd (patch_attention_for_packing True (reg, saved))) = CallOriginal f
   \<and> call_sdpa (Some (cu, m)) (snd (patch_attention_for_packing True (reg, saved))) = CallVarlen cu m"
  by (simp add: patch_attention_for_packing_def call_sdpa_def get_packing_context_def)

lemma patch_twice_diverges:
  "map_of reg ''sdpa'' = Some (OtherAttention f) \<Longrightarrow>
   call_sdpa None (snd (patch_attention_for_packing True (snd (patch_attention_for_packing True (reg, saved))))) = Diverges"
  by (simp add: patch_attention_for_packing_def call_sdpa_def get_packing_context_def)

text \<open>A packing context is cleared on the way out whatever its body does; a nested one therefore
  leaves its outer body without context.\<close>

lemma packing_context_cleared: "snd (with_packing_context cu m body ctx) = None"
  by (simp add: with_packing_context_def clear_packing_context_def split: prod.split)

text \<open>The chunk size of the entropy has no effect on its value.\<close>

lemma entropy_chunks:
  assumes "0 < c" "0 < c'"
  shows "packed_token_entropy c ent logits cu = packed_token_entropy c' ent logits cu"
  using assms by (simp add: packed_token_entropy_def Let_def in_chunks_Nil_iff in_chunks_map cong: if_cong)

end
