(* ===== verification/Router_Replay.thy ===== *)
theory Router_Replay
  imports Packing
begin

text \<open>
  \<open>lumenrl/moe/rollout_routing.py\<close> and \<open>lumenrl/moe/router_precision.py\<close>: rollout routing
  replay. The experts the rollout engine chose for each token and layer are packed in the
  order of \<open>pack_sequences\<close> and installed for one forward and backward pass; the patched
  router then takes those experts instead of its own top-k and gathers their weights from its
  live probabilities. Tensors are lists of rows; the linear map, the softmax and the top-k of
  one token are functions the definitions take as arguments.
\<close>

section \<open>Layer numbers in module paths\<close>

definition match_layers :: "string \<Rightarrow> nat option" where
  \<comment> \<open>the regular expression \<open>layers\.(\d+)\.\<close> at the start of \<open>s\<close>\<close>
  "match_layers s =
     (if has_prefix ''layers.'' s
      then let t = drop 7 s; ds = takeWhile is_digit t
           in if ds \<noteq> [] \<and> has_prefix ''.'' (drop (length ds) t) then parse_digits False 0 ds else None
      else None)"

fun layer_index_of :: "string \<Rightarrow> nat option" where
  \<comment> \<open>\<open>re.search\<close>: the leftmost match\<close>
  "layer_index_of [] = None"
| "layer_index_of (c # cs) = (case match_layers (c # cs) of Some n \<Rightarrow> Some n | None \<Rightarrow> layer_index_of cs)"

section \<open>The installed routing\<close>

record routing =
  ro_indices :: "nat list list list"   \<comment> \<open>\<open>[total_tokens, n_layers, top_k]\<close>\<close>
  ro_layers :: nat                     \<comment> \<open>\<open>indices.shape[1]\<close>\<close>
  ro_valid :: "bool list"

type_synonym routing_global = "routing option"   \<comment> \<open>the module global \<open>_routing\<close>\<close>

definition for_layer :: "routing \<Rightarrow> nat option \<Rightarrow> nat \<Rightarrow> (nat list list \<times> bool list) option result" where
  "for_layer ro layer_idx n_tokens =
     (case layer_idx of
        None \<Rightarrow> Inr None
      | Some l \<Rightarrow>
          if ro_layers ro \<le> l then Inr None
          else if length (ro_indices ro) \<noteq> n_tokens then Inl RuntimeError
          else Inr (Some (map (\<lambda>t. t ! l) (ro_indices ro), ro_valid ro)))"

record replay_context =
  rc_new :: routing_global
  rc_prev :: routing_global

definition new_replay_context :: "routing option \<Rightarrow> replay_context" where
  \<comment> \<open>None stands for \<open>indices = None\<close>\<close>
  "new_replay_context ro = \<lparr>rc_new = ro, rc_prev = None\<rparr>"

definition replay_enter :: "replay_context \<Rightarrow> routing_global \<Rightarrow> replay_context \<times> routing_global" where
  "replay_enter rc g = (rc\<lparr>rc_prev := g\<rparr>, rc_new rc)"

definition replay_exit :: "replay_context \<Rightarrow> routing_global \<Rightarrow> routing_global" where
  "replay_exit rc g = rc_prev rc"

definition with_routing_replay ::
  "routing option \<Rightarrow> (routing_global \<Rightarrow> 'a result \<times> routing_global) \<Rightarrow> routing_global \<Rightarrow> 'a result \<times> routing_global"
where
  \<comment> \<open>\<open>with RoutingReplayContext(ro): body\<close>\<close>
  "with_routing_replay ro body g =
     (case replay_enter (new_replay_context ro) g of (rc, g') \<Rightarrow>
        (case body g' of (r, g'') \<Rightarrow> (r, replay_exit rc g'')))"

section \<open>Replaying a selection\<close>

definition merge_row :: "bool \<Rightarrow> nat list \<Rightarrow> nat list \<Rightarrow> nat list result" where
  \<comment> \<open>one row of \<open>torch.where(valid.unsqueeze(1), injected, indices)\<close>, with its broadcasting
      of a width of one\<close>
  "merge_row v repl idx =
     (if length repl = length idx then Inr (if v then repl else idx)
      else if length repl = 1 then Inr (if v then replicate (length idx) (hd repl) else idx)
      else if length idx = 1 then Inr (if v then repl else replicate (length repl) (hd idx))
      else Inl RuntimeError)"

definition merge_selection :: "bool list \<Rightarrow> nat list list \<Rightarrow> nat list list \<Rightarrow> nat list list result" where
  \<comment> \<open>the three tensors have one row per token\<close>
  "merge_selection valid repl idx =
     (if length valid \<noteq> length idx \<or> length repl \<noteq> length idx then Inl RuntimeError
      else map_result (\<lambda>(v, a, b). merge_row v a b) (zip valid (zip repl idx)))"

definition gather_row :: "'v list \<Rightarrow> nat list \<Rightarrow> 'v list result" where
  "gather_row p es = map_result (\<lambda>e. if e < length p then Inr (p ! e) else Inl RuntimeError) es"

definition apply_replay ::
  "routing_global \<Rightarrow> 'v list list \<Rightarrow> nat list list \<Rightarrow> nat option \<Rightarrow> ('v list list \<times> nat list list) option result"
where
  "apply_replay g router_probs indices layer_idx =
     (case g of
        None \<Rightarrow> Inr None
      | Some ro \<Rightarrow>
          bind_result (for_layer ro layer_idx (length router_probs)) (\<lambda>r.
            case r of
              None \<Rightarrow> Inr None
            | Some (injected, valid) \<Rightarrow>
                bind_result (merge_selection valid injected indices) (\<lambda>merged.
                bind_result (map_result (\<lambda>(p, es). gather_row p es) (zip router_probs merged)) (\<lambda>vals.
                  Inr (Some (vals, merged))))))"

section \<open>Packing the routing of the rollout\<close>

record rollout_block =
  rb_shape :: "nat \<times> nat"               \<comment> \<open>\<open>shape[1:]\<close>\<close>
  rb_rows :: "nat list list list"        \<comment> \<open>one entry per forward of the engine\<close>

definition routing_step ::
  "rollout_block option list \<Rightarrow> nat \<times> nat \<Rightarrow> (nat list list list \<times> bool list \<times> nat) result \<Rightarrow> nat \<times> nat
    \<Rightarrow> (nat list list list \<times> bool list \<times> nat) result"
where
  \<comment> \<open>one iteration: row number \<open>i\<close> and its length \<open>sl\<close>\<close>
  "routing_step rows shape acc turn =
     (case turn of (i, sl) \<Rightarrow> bind_result acc (\<lambda>(indices, valid, off).
       case (if i < length rows then rows ! i else None) of
         None \<Rightarrow> Inr (indices, valid, off + sl)
       | Some r \<Rightarrow>
           if sl \<le> 1 then Inr (indices, valid, off + sl)
           else let n = min (length (rb_rows r)) (sl - 1)
                in if n = 0 then Inr (indices, valid, off + sl)
                   else if rb_shape r \<noteq> shape then Inl RuntimeError
                   else bind_result (assign_slice (int off) (int (off + n)) (take n (rb_rows r)) indices) (\<lambda>indices'.
                        bind_result (assign_slice (int off) (int (off + n)) [True] valid) (\<lambda>valid'.
                          Inr (indices', valid', off + sl)))))"

definition no_experts :: "nat \<times> nat \<Rightarrow> nat list list" where
  \<comment> \<open>a row of \<open>torch.zeros((total, n_layers, top_k))\<close>\<close>
  "no_experts shape = replicate (fst shape) (replicate (snd shape) 0)"

definition pack_rollout_routing ::
  "rollout_block option list \<Rightarrow> nat list \<Rightarrow> nat \<Rightarrow> nat \<Rightarrow> routing option result"
where
  "pack_rollout_routing rows seq_lens n_layers top_k =
     (let total_tokens = sum_list seq_lens
      in if total_tokens = 0 \<or> rows = [] then Inr None
         else bind_result
           (foldl (routing_step rows (n_layers, top_k))
             (Inr (replicate total_tokens (no_experts (n_layers, top_k)), replicate total_tokens False, 0))
             (enumerate 0 seq_lens))
           (\<lambda>(indices, valid, _). Inr (Some \<lparr>ro_indices = indices, ro_layers = n_layers, ro_valid = valid\<rparr>)))"

section \<open>The patched routers\<close>

datatype router_forward =
    Upstream_Forward
  | Hf_Forward "nat option" bool     \<comment> \<open>layer and fp32 flag of \<open>_patch_hf_topk_router\<close>\<close>
  | Linear_Forward bool              \<comment> \<open>\<open>returns_tuple\<close> of \<open>_patch_linear_router\<close>\<close>

record router_module =
  rm_name :: string
  rm_weight_dim :: "nat option"      \<comment> \<open>None: no \<open>weight\<close> tensor\<close>
  rm_hf :: bool                      \<comment> \<open>has \<open>top_k\<close>, \<open>num_experts\<close> and \<open>norm_topk_prob\<close>\<close>
  rm_linear :: bool                  \<comment> \<open>an \<open>nn.Linear\<close>\<close>
  rm_marker :: bool
  rm_forward :: router_forward

definition has_suffix :: "string \<Rightarrow> string \<Rightarrow> bool" where
  \<comment> \<open>\<open>s.endswith(p)\<close>\<close>
  "has_suffix p s = has_prefix (rev p) (rev s)"

definition fp32_router_enabled :: "string option \<Rightarrow> bool" where
  \<comment> \<open>the value of LUMENRL_FP32_MOE_ROUTER\<close>
  "fp32_router_enabled env = (case env of None \<Rightarrow> True | Some v \<Rightarrow> v = ''1'')"

definition is_router :: "router_module \<Rightarrow> bool" where
  "is_router m = ((has_suffix ''.mlp.gate'' (rm_name m) \<or> has_suffix ''.ffn.gate'' (rm_name m))
     \<and> rm_weight_dim m = Some 2)"

definition patch_router :: "bool \<Rightarrow> router_module \<Rightarrow> router_module \<times> bool" where
  \<comment> \<open>the body of the loop; the flag tells whether it reaches \<open>patched += 1\<close>\<close>
  "patch_router fp32 m =
     (if \<not> is_router m \<or> rm_marker m then (m, False)
      else if rm_hf m then (m\<lparr>rm_forward := Hf_Forward (layer_index_of (rm_name m)) fp32, rm_marker := True\<rparr>, True)
      else if fp32 then (m\<lparr>rm_forward := Linear_Forward (\<not> rm_linear m), rm_marker := True\<rparr>, True)
      else (m, False))"

definition enable_fp32_moe_router :: "string option \<Rightarrow> router_module list \<Rightarrow> router_module list \<times> nat" where
  "enable_fp32_moe_router env ms =
     (let r = map (patch_router (fp32_router_enabled env)) ms
      in (map fst r, length (filter snd r)))"

definition hf_router_forward ::
  "('h \<Rightarrow> 'v list) \<Rightarrow> ('h \<Rightarrow> 'v list) \<Rightarrow> ('v list \<Rightarrow> 'v list) \<Rightarrow> ('v list \<Rightarrow> 'v list \<times> nat list) \<Rightarrow> bool
    \<Rightarrow> nat option \<Rightarrow> bool \<Rightarrow> routing_global \<Rightarrow> 'h list \<Rightarrow> ('v::field list list \<times> 'v list list \<times> nat list list) result"
where
  \<comment> \<open>the replaced forward: \<open>linear\<close> and \<open>linear32\<close> are the gate at its own and at fp32
      precision, \<open>topk\<close> the best \<open>top_k\<close> of one row with their indices\<close>
  "hf_router_forward linear linear32 softmax topk norm_topk_prob layer fp32 g hidden =
     (let router_logits = map (if fp32 then linear32 else linear) hidden;
          router_probs = map softmax router_logits;
          top = map topk router_probs
      in bind_result (apply_replay g router_probs (map snd top) layer) (\<lambda>replayed.
           let (values, indices) = (case replayed of Some vi \<Rightarrow> vi | None \<Rightarrow> (map fst top, map snd top));
               weights = (if norm_topk_prob then map (\<lambda>v. map (\<lambda>x. x / sum_list v) v) values else values)
           in Inr (router_logits, weights, indices)))"

section \<open>Layer numbers\<close>

lemma match_layers_show: "match_layers (''layers.'' @ show_nat n @ CHR ''.'' # rest) = Some n"
proof -
  have "takeWhile is_digit (show_nat n @ CHR ''.'' # rest) = show_nat n"
    using show_nat_digits [of _ n] by (simp add: is_digit_def)
  then show ?thesis
    using parse_digits_show_nat [of False n] by (simp add: match_layers_def has_prefix_def Let_def)
qed

lemma layer_index_of_path:
  "layer_index_of (''model.layers.'' @ show_nat n @ CHR ''.'' # rest) = Some n"
  "layer_index_of (''decoder.layers.'' @ show_nat n @ CHR ''.'' # rest) = Some n"
  using match_layers_show [of n rest] by (simp_all add: match_layers_def has_prefix_def)

section \<open>The context\<close>

text \<open>The context puts back the routing it found, so contexts nest; the module global is the
  same before and after whatever the body does or raises.\<close>

lemma with_routing_replay_simp:
  "with_routing_replay ro body g = (fst (body ro), g)"
  by (simp add: with_routing_replay_def replay_enter_def replay_exit_def new_replay_context_def split: prod.split)

section \<open>Patching the routers\<close>

lemma patch_router_marks: "fst (patch_router fp32 m) = m \<or> rm_marker (fst (patch_router fp32 m))"
  by (simp add: patch_router_def)

lemma patch_router_again: "patch_router fp32 (fst (patch_router fp32 m)) = (fst (patch_router fp32 m), False)"
  by (simp add: patch_router_def is_router_def)

text \<open>Patching a model again changes nothing and reports no gate.\<close>

lemma enable_fp32_idempotent:
  "enable_fp32_moe_router env (fst (enable_fp32_moe_router env ms)) = (fst (enable_fp32_moe_router env ms), 0)"
  by (simp add: enable_fp32_moe_router_def patch_router_again comp_def filter_map)

lemma patched_gate:
  assumes "rm_name m = ''model.layers.'' @ show_nat l @ ''.mlp.gate''" "rm_weight_dim m = Some 2"
    "rm_hf m" "\<not> rm_marker m"
  shows "patch_router fp32 m = (m\<lparr>rm_forward := Hf_Forward (Some l) fp32, rm_marker := True\<rparr>, True)"
proof -
  have "has_suffix ''.mlp.gate'' (rm_name m)" by (simp add: assms(1) has_suffix_def has_prefix_def)
  moreover have "layer_index_of (rm_name m) = Some l"
    using layer_index_of_path(1) [of l "''mlp.gate''"] by (simp add: assms(1))
  ultimately show ?thesis using assms by (simp add: patch_router_def is_router_def)
qed

section \<open>Packed routing\<close>

definition block_rows :: "rollout_block option list \<Rightarrow> nat \<Rightarrow> nat list list list" where
  \<comment> \<open>what the rollout recorded for sequence \<open>i\<close>\<close>
  "block_rows rows i = (if i < length rows then (case rows ! i of None \<Rightarrow> [] | Some r \<Rightarrow> rb_rows r) else [])"

definition covered :: "rollout_block option list \<Rightarrow> nat \<Rightarrow> nat \<Rightarrow> nat" where
  \<comment> \<open>how many tokens of sequence \<open>i\<close>, of length \<open>sl\<close>, have rollout routing\<close>
  "covered rows i sl = min (length (block_rows rows i)) (sl - 1)"

definition index_block :: "rollout_block option list \<Rightarrow> nat \<times> nat \<Rightarrow> nat \<times> nat \<Rightarrow> nat list list list" where
  "index_block rows shape turn = (case turn of (i, sl) \<Rightarrow>
     take (covered rows i sl) (block_rows rows i) @ replicate (sl - covered rows i sl) (no_experts shape))"

definition valid_block :: "rollout_block option list \<Rightarrow> nat \<times> nat \<Rightarrow> bool list" where
  "valid_block rows turn = (case turn of (i, sl) \<Rightarrow>
     replicate (covered rows i sl) True @ replicate (sl - covered rows i sl) False)"

definition shapes_agree :: "rollout_block option list \<Rightarrow> nat \<times> nat \<Rightarrow> bool" where
  "shapes_agree rows shape = list_all (\<lambda>r. case r of None \<Rightarrow> True | Some b \<Rightarrow> rb_shape b = shape) rows"

lemma length_blocks:
  "length (index_block rows shape (i, sl)) = sl" "length (valid_block rows (i, sl)) = sl"
  by (simp_all add: index_block_def valid_block_def covered_def)

lemma assign_slice_single:
  assumes "a < b" "b \<le> length buf"
  shows "assign_slice (int a) (int b) [x] buf = Inr (take a buf @ replicate (b - a) x @ drop b buf)"
  using assms by (cases "b - a = 1") (auto simp: assign_slice_def Let_def slice_bound_nat max_def)

lemma routing_step_block:
  assumes "shapes_agree rows shape" "length xs = off" "length bs = off" "sl \<le> m"
  shows "routing_step rows shape
      (Inr (xs @ replicate m (no_experts shape), bs @ replicate m False, off)) (i, sl)
    = Inr ((xs @ index_block rows shape (i, sl)) @ replicate (m - sl) (no_experts shape),
           (bs @ valid_block rows (i, sl)) @ replicate (m - sl) False, off + sl)"
proof -
  let ?r = "if i < length rows then rows ! i else None"
  have zeros: "replicate m x = replicate sl x @ replicate (m - sl) x" for x :: 'z
    using assms(4) by (simp add: replicate_add [symmetric])
  show ?thesis
  proof (cases "covered rows i sl = 0")
    case True
    then have "index_block rows shape (i, sl) = replicate sl (no_experts shape)"
        "valid_block rows (i, sl) = replicate sl False"
      by (simp_all add: index_block_def valid_block_def)
    moreover have "?r = None \<or> sl \<le> 1 \<or> (\<exists>r. ?r = Some r \<and> rb_rows r = [])"
      using True by (auto simp: covered_def block_rows_def min_def split: if_splits option.splits)
    ultimately show ?thesis using zeros [of "no_experts shape"] zeros [of False]
      by (auto simp: routing_step_def split: option.splits)
  next
    case False
    then obtain r where r: "?r = Some r" "rb_rows r = block_rows rows i" and sl: "\<not> sl \<le> 1"
      by (auto simp: covered_def block_rows_def split: if_splits option.splits)
    obtain n where n_def: "n = covered rows i sl" by blast
    have n: "min (length (rb_rows r)) (sl - 1) = n" "0 < n" "n < sl" "n \<le> length (rb_rows r)"
      using False sl by (auto simp: n_def covered_def r(2))
    have shape: "rb_shape r = shape"
      using assms(1) r(1) by (auto simp: shapes_agree_def list_all_length split: if_splits)
    have 1: "assign_slice (int off) (int (off + n)) (take n (rb_rows r)) (xs @ replicate m (no_experts shape))
        = Inr (xs @ take n (rb_rows r) @ replicate (m - n) (no_experts shape))"
      using assign_slice_in [of off "off + n" "xs @ replicate m (no_experts shape)" "take n (rb_rows r)"]
        assms n by simp
    have 2: "assign_slice (int off) (int (off + n)) [True] (bs @ replicate m False)
        = Inr (bs @ replicate n True @ replicate (m - n) False)"
      using assign_slice_single [of off "off + n" "bs @ replicate m False" True] assms n by simp
    have "routing_step rows shape (Inr (xs @ replicate m (no_experts shape), bs @ replicate m False, off)) (i, sl)
      = bind_result (assign_slice (int off) (int (off + n)) (take n (rb_rows r)) (xs @ replicate m (no_experts shape)))
          (\<lambda>indices'. bind_result (assign_slice (int off) (int (off + n)) [True] (bs @ replicate m False))
            (\<lambda>valid'. Inr (indices', valid', off + sl)))"
      using r(1) sl n(2) shape
      by (simp only: routing_step_def prod.case bind_result_simps option.case if_False Let_def n(1)) simp
    moreover have rest: "replicate (m - n) x = replicate (sl - n) x @ replicate (m - sl) x" for x :: 'z
      using assms(4) n(3) by (simp add: replicate_add [symmetric])
    ultimately show ?thesis
      by (simp add: 1 [unfolded r(2)] 2 rest index_block_def valid_block_def r(2) n_def [symmetric] del: of_nat_add)
  qed
qed

lemma routing_loop:
  assumes "shapes_agree rows shape" "length xs = off" "length bs = off"
  shows "foldl (routing_step rows shape)
      (Inr (xs @ replicate (sum_list lens) (no_experts shape), bs @ replicate (sum_list lens) False, off))
      (enumerate k lens)
    = Inr (xs @ concat (map (index_block rows shape) (enumerate k lens)),
           bs @ concat (map (valid_block rows) (enumerate k lens)), off + sum_list lens)"
  using assms(2,3)
proof (induction lens arbitrary: k xs bs off)
  case (Cons sl lens)
  have "routing_step rows shape (Inr (xs @ replicate (sum_list (sl # lens)) (no_experts shape),
        bs @ replicate (sum_list (sl # lens)) False, off)) (k, sl)
    = Inr ((xs @ index_block rows shape (k, sl)) @ replicate (sum_list lens) (no_experts shape),
           (bs @ valid_block rows (k, sl)) @ replicate (sum_list lens) False, off + sl)"
    using routing_step_block [OF assms(1) Cons.prems, of sl "sum_list (sl # lens)" k] by simp
  moreover note Cons.IH [of "xs @ index_block rows shape (k, sl)" "off + sl" "bs @ valid_block rows (k, sl)" "Suc k"]
  ultimately show ?case using Cons.prems by (simp add: length_blocks add.assoc)
qed simp

lemma pack_rollout_routing_blocks:
  assumes "rows \<noteq> []" "0 < sum_list lens" "shapes_agree rows (n_layers, top_k)"
  shows "pack_rollout_routing rows lens n_layers top_k = Inr (Some
    \<lparr>ro_indices = concat (map (index_block rows (n_layers, top_k)) (enumerate 0 lens)), ro_layers = n_layers,
     ro_valid = concat (map (valid_block rows) (enumerate 0 lens))\<rparr>)"
  using assms(1,2) routing_loop [OF assms(3), of "[]" 0 "[]" lens 0]
  by (simp add: pack_rollout_routing_def Let_def del: sum_list_eq_0_iff)

section \<open>Replay on a packed batch\<close>

definition blocks_ok :: "rollout_block option list \<Rightarrow> nat \<times> nat \<Rightarrow> nat \<Rightarrow> bool" where
  \<comment> \<open>the arrays have the shape they claim and name experts below \<open>n_experts\<close>\<close>
  "blocks_ok rows shape n_experts =
     (shapes_agree rows shape \<and>
      list_all (\<lambda>r. case r of None \<Rightarrow> True | Some b \<Rightarrow>
        list_all (\<lambda>t. length t = fst shape \<and> list_all (\<lambda>es. length es = snd shape \<and> list_all (\<lambda>e. e < n_experts) es) t)
          (rb_rows b)) rows)"

lemma blocks_ok_row:
  assumes "blocks_ok rows shape n_experts" "t < length (block_rows rows i)" "l < fst shape"
  shows "length (block_rows rows i ! t ! l) = snd shape \<and> list_all (\<lambda>e. e < n_experts) (block_rows rows i ! t ! l)"
  using assms by (auto simp: blocks_ok_def block_rows_def list_all_length split: if_splits option.splits)

lemma list_all2_concat:
  "list_all2 (list_all2 P) xss yss \<Longrightarrow> list_all2 P (concat xss) (concat yss)"
  by (induction rule: list_all2_induct) (simp_all add: list_all2_appendI)

definition usable :: "nat \<Rightarrow> nat \<Rightarrow> nat \<Rightarrow> bool \<Rightarrow> nat list list \<Rightarrow> bool" where
  "usable l k n_experts v t = (length (t ! l) = k \<and> (v \<longrightarrow> list_all (\<lambda>e. e < n_experts) (t ! l)))"

lemma packed_rows_usable:
  assumes "blocks_ok rows shape n_experts" "l < fst shape"
  shows "list_all2 (usable l (snd shape) n_experts)
    (concat (map (valid_block rows) (enumerate k lens))) (concat (map (index_block rows shape) (enumerate k lens)))"
proof (rule list_all2_concat)
  have "list_all2 (usable l (snd shape) n_experts) (valid_block rows (i, sl)) (index_block rows shape (i, sl))" for i sl
  proof (rule list_all2_all_nthI)
    show "length (valid_block rows (i, sl)) = length (index_block rows shape (i, sl))" by (simp only: length_blocks)
    fix t assume "t < length (valid_block rows (i, sl))"
    then have t: "t < sl" by (simp only: length_blocks)
    show "usable l (snd shape) n_experts (valid_block rows (i, sl) ! t) (index_block rows shape (i, sl) ! t)"
    proof (cases "t < covered rows i sl")
      case True
      then have "t < length (block_rows rows i)" by (simp add: covered_def)
      with True show ?thesis using blocks_ok_row [OF assms(1) _ assms(2), of t i]
        by (simp add: usable_def valid_block_def index_block_def nth_append covered_def)
    next
      case False
      moreover have "covered rows i sl \<le> length (block_rows rows i)" by (simp add: covered_def)
      ultimately show ?thesis using t assms(2)
        by (simp add: usable_def valid_block_def index_block_def nth_append no_experts_def)
    qed
  qed
  then show "list_all2 (list_all2 (usable l (snd shape) n_experts))
      (map (valid_block rows) (enumerate k lens)) (map (index_block rows shape) (enumerate k lens))"
    by (auto simp: list_all2_conv_all_nth nth_enumerate_eq)
qed

lemma merge_selection_usable:
  assumes "list_all2 (\<lambda>v r. length r = k) valid repl" "length idx = length valid" "list_all (\<lambda>es. length es = k) idx"
  shows "merge_selection valid repl idx = Inr (map (\<lambda>(v, a, b). if v then a else b) (zip valid (zip repl idx)))"
proof -
  have len: "length valid = length repl" using assms(1) by (rule list_all2_lengthD)
  have "map_result (\<lambda>(v, a, b). merge_row v a b) (zip valid (zip repl idx))
      = Inr (map (\<lambda>(v, a, b). if v then a else b) (zip valid (zip repl idx)))"
  proof (rule map_result_total, clarify)
    fix v a b assume "(v, a, b) \<in> set (zip valid (zip repl idx))"
    then obtain n where "n < length valid" "a = repl ! n" "b = idx ! n"
      using len assms(2) by (auto simp: in_set_zip)
    then show "merge_row v a b = Inr (if v then a else b)"
      using assms(1,2,3) by (simp add: merge_row_def list_all2_conv_all_nth list_all_length)
  qed
  then show ?thesis using len assms(2) by (simp add: merge_selection_def)
qed

lemma gather_row_in: "list_all (\<lambda>e. e < length p) es \<Longrightarrow> gather_row p es = Inr (map (\<lambda>e. p ! e) es)"
  unfolding gather_row_def by (rule map_result_total) (simp add: list_all_iff)

lemma gather_rows_in:
  assumes "length probs = length sel" "\<And>k. k < length sel \<Longrightarrow> list_all (\<lambda>e. e < length (probs ! k)) (sel ! k)"
  shows "map_result (\<lambda>(p, es). gather_row p es) (zip probs sel) = Inr (map (\<lambda>(p, es). map (\<lambda>e. p ! e) es) (zip probs sel))"
proof (rule map_result_total, clarify)
  fix p es assume "(p, es) \<in> set (zip probs sel)"
  then obtain k where "k < length sel" "p = probs ! k" "es = sel ! k" using assms(1) by (auto simp: in_set_zip)
  then show "gather_row p es = Inr (map (\<lambda>e. p ! e) es)" using assms(2) by (intro gather_row_in) simp
qed

lemma replay_follows_rollout_run:
  assumes rows: "rows \<noteq> []" "0 < sum_list lens" "blocks_ok rows (n_layers, top_k) n_experts" "l < n_layers"
    and ro: "pack_rollout_routing rows lens n_layers top_k = Inr (Some ro)"
    and probs: "length probs = sum_list lens" "list_all (\<lambda>p. length p = n_experts) probs"
    and fresh: "length fresh = sum_list lens" "list_all (\<lambda>es. length es = top_k \<and> list_all (\<lambda>e. e < n_experts) es) fresh"
  shows "\<exists>vals sel. apply_replay (Some ro) probs fresh (Some l) = Inr (Some (vals, sel))
    \<and> length sel = sum_list lens \<and> vals = map (\<lambda>(p, es). map (\<lambda>e. p ! e) es) (zip probs sel)
    \<and> (\<forall>i < length lens. \<forall>t < lens ! i. sel ! (cumulative lens ! i + t)
        = (if t < covered rows i (lens ! i) then block_rows rows i ! t ! l else fresh ! (cumulative lens ! i + t)))"
proof -
  let ?ibs = "map (index_block rows (n_layers, top_k)) (enumerate 0 lens)"
  let ?vbs = "map (valid_block rows) (enumerate 0 lens)"
  let ?ind = "concat ?ibs" and ?val = "concat ?vbs"
  let ?repl = "map (\<lambda>t. t ! l) ?ind"
  have ro_eq: "ro = \<lparr>ro_indices = ?ind, ro_layers = n_layers, ro_valid = ?val\<rparr>"
    using pack_rollout_routing_blocks [OF rows(1,2)] rows(3) ro by (simp add: blocks_ok_def)
  have lens: "map length ?ibs = lens" "map length ?vbs = lens"
    by (auto intro!: nth_equalityI simp: nth_enumerate_eq length_blocks)
  have len: "length ?ind = sum_list lens" "length ?val = sum_list lens"
    by (simp_all only: length_concat lens)
  have us: "list_all2 (usable l top_k n_experts) ?val ?ind"
    using packed_rows_usable [OF rows(3), of l 0 lens] rows(4) by simp
  let ?sel = "map (\<lambda>(v, a, b). if v then a else b) (zip ?val (zip ?repl fresh))"
  have sel_nth: "?sel ! k = (if ?val ! k then ?ind ! k ! l else fresh ! k)" if "k < sum_list lens" for k
    using that len fresh(1) by simp
  have "merge_selection ?val ?repl fresh = Inr ?sel"
    by (rule merge_selection_usable [where k = top_k])
      (use us len fresh in \<open>auto simp: list_all2_conv_all_nth list_all_length usable_def\<close>)
  moreover have "map_result (\<lambda>(p, es). gather_row p es) (zip probs ?sel)
      = Inr (map (\<lambda>(p, es). map (\<lambda>e. p ! e) es) (zip probs ?sel))"
  proof (rule gather_rows_in)
    show "length probs = length ?sel" using probs(1) len fresh(1) by simp
    fix k assume "k < length ?sel"
    then have k: "k < sum_list lens" using len fresh(1) by simp
    have "usable l top_k n_experts (?val ! k) (?ind ! k)" using us k len by (simp add: list_all2_conv_all_nth)
    moreover have "length (probs ! k) = n_experts" using probs k by (simp add: list_all_length)
    moreover have "list_all (\<lambda>e. e < n_experts) (fresh ! k)" using fresh k by (simp add: list_all_length)
    ultimately show "list_all (\<lambda>e. e < length (probs ! k)) (?sel ! k)" by (auto simp: sel_nth [OF k] usable_def)
  qed
  moreover have "for_layer ro (Some l) (length probs) = Inr (Some (?repl, ?val))"
    using rows(4) len probs(1) by (simp add: for_layer_def ro_eq)
  ultimately have run: "apply_replay (Some ro) probs fresh (Some l)
      = Inr (Some (map (\<lambda>(p, es). map (\<lambda>e. p ! e) es) (zip probs ?sel), ?sel))"
    by (simp add: apply_replay_def)
  have at: "?sel ! (cumulative lens ! i + t)
      = (if t < covered rows i (lens ! i) then block_rows rows i ! t ! l else fresh ! (cumulative lens ! i + t))"
    if i: "i < length lens" and t: "t < lens ! i" for i t
  proof -
    let ?k = "cumulative lens ! i + t"
    have cu: "cumulative lens ! i = sum_list (take i lens)" using i by (simp add: cumulative_nth)
    have "sum_list (take (Suc i) lens) \<le> sum_list lens" by (metis append_take_drop_id le_add1 sum_list_append)
    then have k: "?k < sum_list lens" using i t by (simp add: cu take_Suc_conv_app_nth)
    have c: "cumulative lens ! i = sum_list (map length (take i ?ibs))" "cumulative lens ! i = sum_list (map length (take i ?vbs))"
      by (simp_all only: cu take_map [symmetric] lens)
    have b: "?ibs ! i = index_block rows (n_layers, top_k) (i, lens ! i)" "?vbs ! i = valid_block rows (i, lens ! i)"
      using i by (simp_all add: nth_enumerate_eq)
    have "?ind ! ?k = ?ibs ! i ! t"
      using nth_concat [of i ?ibs t "[]"] i t b unfolding c(1) by (simp add: length_blocks)
    moreover have "?val ! ?k = ?vbs ! i ! t"
      using nth_concat [of i ?vbs t "[]"] i t b unfolding c(2) by (simp add: length_blocks)
    moreover have "covered rows i (lens ! i) \<le> length (block_rows rows i)" by (simp add: covered_def)
    ultimately show ?thesis unfolding sel_nth [OF k] using t
      by (simp add: b valid_block_def index_block_def nth_append)
  qed
  have "length ?sel = sum_list lens" using len fresh(1) by simp
  with run at show ?thesis by blast
qed

text \<open>C37: rollout routing replay. With the packed routing of the rollout installed, the experts of
  token \<open>t\<close> of sequence \<open>i\<close> at layer \<open>l\<close> are those the rollout used, the tokens without
  rollout routing (at least the last of each sequence) keep the fresh selection, and every weight
  is the live probability of the selected expert.\<close>

theorem replay_follows_rollout:
  assumes "rows \<noteq> []" "0 < sum_list lens" "blocks_ok rows (n_layers, top_k) n_experts" "l < n_layers"
    and "pack_rollout_routing rows lens n_layers top_k = Inr (Some ro)"
    and "length probs = sum_list lens" "list_all (\<lambda>p. length p = n_experts) probs"
    and "length fresh = sum_list lens" "list_all (\<lambda>es. length es = top_k \<and> list_all (\<lambda>e. e < n_experts) es) fresh"
  shows "\<exists>vals sel. apply_replay (Some ro) probs fresh (Some l) = Inr (Some (vals, sel))
    \<and> length sel = sum_list lens \<and> vals = map (\<lambda>(p, es). map (\<lambda>e. p ! e) es) (zip probs sel)
    \<and> (\<forall>i < length lens. \<forall>t < lens ! i. sel ! (cumulative lens ! i + t)
        = (if t < covered rows i (lens ! i) then block_rows rows i ! t ! l else fresh ! (cumulative lens ! i + t)))"
  using assms by (rule replay_follows_rollout_run)

definition routing_sample :: "rollout_block option list" where
  "routing_sample = [Some \<lparr>rb_shape = (2, 1), rb_rows = [[[1], [2]], [[0], [1]]]\<rparr>, None]"

definition packed_routing_sample :: routing where
  "packed_routing_sample = \<lparr>ro_indices = [[[1], [2]], [[0], [1]], [[0], [0]], [[0], [0]], [[0], [0]]],
     ro_layers = 2, ro_valid = [True, True, False, False, False]\<rparr>"

lemma routing_sample_ok:
  "pack_rollout_routing routing_sample [3, 2] 2 1 = Inr (Some packed_routing_sample)"
  "blocks_ok routing_sample (2, 1) 3"
  "cumulative [3, 2] = [0, 3, 5]" "covered routing_sample 0 3 = 2"
  by code_simp+

lemma replay_sample_hyps:
  "routing_sample \<noteq> []" "(0::nat) < sum_list [3, 2]" "(0::nat) < 2"
  "length (replicate 5 [1, 2, 3 :: int]) = sum_list [3, 2]" "list_all (\<lambda>p. length p = 3) (replicate 5 [1, 2, 3 :: int])"
  "length (replicate 5 [2 :: nat]) = sum_list [3, 2]"
  "list_all (\<lambda>es. length es = 1 \<and> list_all (\<lambda>e. e < 3) es) (replicate 5 [2 :: nat])"
  by (simp_all add: routing_sample_def list_all_length)

theorem replay_follows_rollout_witness:
  "\<exists>vals sel. apply_replay (Some packed_routing_sample) (replicate 5 [1, 2, 3 :: int]) (replicate 5 [2]) (Some 0)
      = Inr (Some (vals, sel)) \<and> sel ! 0 = [1] \<and> sel ! 1 = [0] \<and> sel ! 2 = [2]"
proof -
  note hyps = replay_sample_hyps
  obtain vals sel where run: "apply_replay (Some packed_routing_sample) (replicate 5 [1, 2, 3 :: int]) (replicate 5 [2]) (Some 0)
      = Inr (Some (vals, sel))"
    and sel: "\<forall>i < length [3, 2 :: nat]. \<forall>t < [3, 2] ! i. sel ! (cumulative [3, 2] ! i + t)
        = (if t < covered routing_sample i ([3, 2] ! i) then block_rows routing_sample i ! t ! 0
           else replicate 5 [2] ! (cumulative [3, 2] ! i + t))"
    using replay_follows_rollout [OF hyps(1,2) routing_sample_ok(2) hyps(3) routing_sample_ok(1) hyps(4-7)] by blast
  have "sel ! (cumulative [3, 2] ! 0 + t) = (if t < covered routing_sample 0 3 then block_rows routing_sample 0 ! t ! 0
           else replicate 5 [2] ! (cumulative [3, 2] ! 0 + t))" if "t < 3" for t
    using sel [rule_format, of 0 t] that by simp
  from this [of 0] this [of 1] this [of 2] have "sel ! 0 = [1] \<and> sel ! 1 = [0] \<and> sel ! 2 = [2]"
    by (simp add: routing_sample_ok block_rows_def) (simp add: routing_sample_def numeral_2_eq_2)
  with run show ?thesis by blast
qed

text \<open>Routing packed for another number of tokens is refused at every layer it covers, rather than
  replayed out of step.\<close>

lemma replay_misaligned_raises:
  "l < ro_layers ro \<Longrightarrow> length (ro_indices ro) \<noteq> length probs \<Longrightarrow>
   apply_replay (Some ro) probs indices (Some l) = Inl RuntimeError"
  by (simp add: apply_replay_def for_layer_def)

lemma replay_off:
  "apply_replay None probs indices layer = Inr None"
  "apply_replay (Some ro) probs indices None = Inr None"
  "ro_layers ro \<le> l \<Longrightarrow> apply_replay (Some ro) probs indices (Some l) = Inr None"
  by (simp_all add: apply_replay_def for_layer_def)

text \<open>The patched router normalises the weights of whatever experts it ends up with, so they sum
  to one with or without replay.\<close>

lemma hf_router_weights:
  assumes "hf_router_forward linear linear32 softmax topk True layer fp32 g hidden = Inr (lgts, weights, sel)"
  shows "\<exists>raw. weights = map (\<lambda>v. map (\<lambda>x. x / sum_list v) v) raw
    \<and> (\<forall>k < length raw. sum_list (raw ! k) \<noteq> 0 \<longrightarrow> sum_list (weights ! k) = 1)"
proof -
  obtain raw where w: "weights = map (\<lambda>v. map (\<lambda>x. x / sum_list v) v) raw"
    using assms by (auto simp: hf_router_forward_def Let_def simp del: map_map split: prod.splits option.splits)
  have "sum_list (map (\<lambda>x. x / c) v) = sum_list v / c" for c :: 'a and v
    by (induction v) (simp_all add: add_divide_distrib)
  then show ?thesis using w by auto
qed

end
