(* ===== verification/Router_Hooks.thy ===== *)
theory Router_Hooks
  imports Data_Proto_Props Router_Replay
begin

text \<open>
  \<open>lumenrl/moe/moe_utils.py\<close>, \<open>router_recorder.py\<close>, \<open>router_replayer.py\<close>, \<open>r3_manager.py\<close> and
  \<open>r3_scope.py\<close>: recording the router logits of a forward pass with hooks on the model's
  mixture-of-experts modules, carrying them in a batch, and replaying them in another forward
  pass. The hooks of all modules are one table in the order of registration; a module is its
  position in \<open>model.named_modules()\<close>. Copies to the CPU and changes of the element type are
  not modelled.
\<close>

section \<open>Finding the modules\<close>

fun contains_str :: "string \<Rightarrow> string \<Rightarrow> bool" where
  \<comment> \<open>\<open>p in s\<close>\<close>
  "contains_str p s = (has_prefix p s \<or> (case s of [] \<Rightarrow> False | _ # cs \<Rightarrow> contains_str p cs))"

record module_info =
  mi_name :: string
  mi_class :: string
  mi_experts :: bool     \<comment> \<open>\<open>hasattr(module, "experts")\<close>, and so on\<close>
  mi_router :: bool
  mi_gate :: bool
  mi_w_gate :: bool
  mi_routing :: bool     \<comment> \<open>\<open>callable(getattr(module, "routing", None))\<close>\<close>
  mi_gating :: bool

definition is_moe :: "module_info \<Rightarrow> bool" where
  "is_moe m =
     (contains_str ''MoE'' (mi_class m) \<or> contains_str ''MoeBlock'' (mi_class m) \<or> contains_str ''SparseMoe'' (mi_class m)
      \<or> (mi_experts m \<and> mi_router m) \<or> (mi_experts m \<and> (mi_gate m \<or> mi_w_gate m)))"

fun moe_modules_from :: "nat \<Rightarrow> nat \<Rightarrow> module_info list \<Rightarrow> (int \<times> string \<times> nat) list" where
  \<comment> \<open>position and running count\<close>
  "moe_modules_from pos running [] = []"
| "moe_modules_from pos running (m # ms) =
     (if is_moe m
      then (case layer_index_of (mi_name m) of Some n \<Rightarrow> int n | None \<Rightarrow> int running, mi_name m, pos)
             # moe_modules_from (Suc pos) (Suc running) ms
      else moe_modules_from (Suc pos) running ms)"

definition iter_moe_modules :: "module_info list \<Rightarrow> (int \<times> string \<times> nat) list" where
  "iter_moe_modules ms = moe_modules_from 0 0 ms"

definition iter_megatron_routers :: "module_info list \<Rightarrow> (int \<times> nat) list" where
  "iter_megatron_routers ms =
     concat (map (\<lambda>(pos, m). if mi_routing m \<and> mi_gating m
       then (case layer_index_of (mi_name m) of Some n \<Rightarrow> [(int n, pos)] | None \<Rightarrow> []) else [])
       (enumerate 0 ms))"

section \<open>Outputs of a module\<close>

datatype 'e part = TensorPart "'e tensor" | OtherPart

datatype 'e module_output = Single "'e tensor" | Parts "'e part list" | Opaque

definition t_numel :: "'e tensor \<Rightarrow> nat" where
  "t_numel t = t_len t * prod_list (t_trail t)"

definition t_reshape_like :: "'e tensor \<Rightarrow> 'e tensor \<Rightarrow> 'e tensor" where
  \<comment> \<open>\<open>t.reshape(ref.shape)\<close> for equal element counts\<close>
  "t_reshape_like t ref =
     (let w = prod_list (t_trail ref); xs = concat (t_rows t)
      in \<lparr>t_trail = t_trail ref, t_rows = map (\<lambda>i. py_slice (i * w) (i * w + w) xs) [0..<t_len ref]\<rparr>)"

fun last_matrix :: "'e part list \<Rightarrow> 'e tensor option" where
  \<comment> \<open>on the reversed parts: the first tensor of at least two dimensions\<close>
  "last_matrix [] = None"
| "last_matrix (TensorPart t # ps) = (if 2 \<le> t_ndim t then Some t else last_matrix ps)"
| "last_matrix (OtherPart # ps) = last_matrix ps"

definition extract_router_logits :: "'e module_output \<Rightarrow> 'e tensor option" where
  "extract_router_logits out =
     (case out of Single t \<Rightarrow> Some t | Parts ps \<Rightarrow> last_matrix (rev ps) | Opaque \<Rightarrow> None)"

definition broadcast_like :: "'e tensor \<Rightarrow> 'e tensor \<Rightarrow> 'e tensor" where
  "broadcast_like recorded reference =
     (if t_trail recorded = t_trail reference \<and> t_len recorded = t_len reference then recorded
      else if t_numel recorded = t_numel reference then t_reshape_like recorded reference
      else reference)"

fun set_last_matrix :: "'e tensor \<Rightarrow> 'e part list \<Rightarrow> 'e part list" where
  \<comment> \<open>on the reversed parts: replace the part \<open>_extract_router_logits\<close> found\<close>
  "set_last_matrix t [] = []"
| "set_last_matrix t (TensorPart u # ps) = (if 2 \<le> t_ndim u then TensorPart t # ps else TensorPart u # set_last_matrix t ps)"
| "set_last_matrix t (OtherPart # ps) = OtherPart # set_last_matrix t ps"

definition replace_router_logits :: "'e module_output \<Rightarrow> 'e tensor \<Rightarrow> 'e module_output" where
  "replace_router_logits out recorded =
     (case out of
        Single t \<Rightarrow> Single (broadcast_like recorded t)
      | Parts ps \<Rightarrow>
          (case extract_router_logits out of
             None \<Rightarrow> out
           | Some lg \<Rightarrow> Parts (rev (set_last_matrix (broadcast_like recorded lg) (rev ps))))
      | Opaque \<Rightarrow> out)"

section \<open>Hooks\<close>

datatype hook_fn = Record_Hook int | Replay_Hook int   \<comment> \<open>the closures, with their layer\<close>

record hook_table =
  hk_installed :: "(nat \<times> nat \<times> hook_fn) list"   \<comment> \<open>handle, module, hook\<close>
  hk_next :: nat

record 'e router_recorder =
  rr_distributions :: "(int, 'e tensor) dict"
  rr_handles :: "nat list"

record 'e router_replayer =
  rp_handles :: "nat list"
  rp_distributions :: "(int, 'e tensor) dict"

record 'e r3_state =
  st_hooks :: hook_table
  st_recorder :: "'e router_recorder"
  st_replayer :: "'e router_replayer"

definition remove_handles :: "nat list \<Rightarrow> hook_table \<Rightarrow> hook_table" where
  "remove_handles hs hk = hk\<lparr>hk_installed := filter (\<lambda>(h, _, _). h \<notin> set hs) (hk_installed hk)\<rparr>"

definition register_hooks :: "(int \<Rightarrow> hook_fn) \<Rightarrow> (int \<times> string \<times> nat) list \<Rightarrow> hook_table \<Rightarrow> hook_table \<times> nat list" where
  \<comment> \<open>the loop of both \<open>install_hooks\<close>\<close>
  "register_hooks make_hook targets hk =
     foldl (\<lambda>(hk, hs) (layer, _, m).
         (\<lparr>hk_installed = hk_installed hk @ [(hk_next hk, m, make_hook layer)], hk_next = Suc (hk_next hk)\<rparr>,
          hs @ [hk_next hk]))
       (hk, []) targets"

definition recorder_remove_hooks :: "'e r3_state \<Rightarrow> 'e r3_state" where
  "recorder_remove_hooks st =
     st\<lparr>st_hooks := remove_handles (rr_handles (st_recorder st)) (st_hooks st),
        st_recorder := (st_recorder st)\<lparr>rr_handles := []\<rparr>\<rparr>"

definition recorder_install_hooks :: "module_info list \<Rightarrow> 'e r3_state \<Rightarrow> 'e r3_state" where
  "recorder_install_hooks ms st =
     (let st = recorder_remove_hooks st;
          (hk, hs) = register_hooks Record_Hook (iter_moe_modules ms) (st_hooks st)
      in st\<lparr>st_hooks := hk, st_recorder := (st_recorder st)\<lparr>rr_handles := hs\<rparr>\<rparr>)"

definition recorder_clear :: "'e r3_state \<Rightarrow> 'e r3_state" where
  "recorder_clear st = st\<lparr>st_recorder := (st_recorder st)\<lparr>rr_distributions := []\<rparr>\<rparr>"

definition get_distributions :: "'e r3_state \<Rightarrow> (int, 'e tensor) dict" where
  "get_distributions st = rr_distributions (st_recorder st)"

definition replayer_remove_hooks :: "'e r3_state \<Rightarrow> 'e r3_state" where
  "replayer_remove_hooks st =
     st\<lparr>st_hooks := remove_handles (rp_handles (st_replayer st)) (st_hooks st),
        st_replayer := \<lparr>rp_handles = [], rp_distributions = []\<rparr>\<rparr>"

definition replayer_install_hooks :: "module_info list \<Rightarrow> (int, 'e tensor) dict \<Rightarrow> 'e r3_state \<Rightarrow> 'e r3_state" where
  "replayer_install_hooks ms dists st =
     (let st = replayer_remove_hooks st;
          (hk, hs) = register_hooks Replay_Hook (iter_moe_modules ms) (st_hooks st)
      in st\<lparr>st_hooks := hk, st_replayer := \<lparr>rp_handles = hs, rp_distributions = dists\<rparr>\<rparr>)"

definition run_hook :: "hook_fn \<Rightarrow> 'e r3_state \<times> 'e module_output \<Rightarrow> 'e r3_state \<times> 'e module_output" where
  \<comment> \<open>a hook that returns a value replaces the output\<close>
  "run_hook fn so =
     (case so of (st, out) \<Rightarrow>
       (case fn of
          Record_Hook l \<Rightarrow>
            (case extract_router_logits out of
               None \<Rightarrow> (st, out)
             | Some t \<Rightarrow> (st\<lparr>st_recorder := (st_recorder st)
                  \<lparr>rr_distributions := dict_set l t (rr_distributions (st_recorder st))\<rparr>\<rparr>, out))
        | Replay_Hook l \<Rightarrow>
            (case map_of (rp_distributions (st_replayer st)) l of
               None \<Rightarrow> (st, out)
             | Some recorded \<Rightarrow> (st, replace_router_logits out recorded))))"

definition call_module :: "nat \<Rightarrow> 'e module_output \<Rightarrow> 'e r3_state \<Rightarrow> 'e r3_state \<times> 'e module_output" where
  \<comment> \<open>a module whose own forward returns \<open>out\<close> runs its hooks in order\<close>
  "call_module m out st =
     foldl (\<lambda>so (_, m', fn). if m' = m then run_hook fn so else so) (st, out) (hk_installed (st_hooks st))"

definition run_forward :: "(nat \<times> 'e module_output) list \<Rightarrow> 'e r3_state \<Rightarrow> 'e module_output list result \<times> 'e r3_state" where
  \<comment> \<open>a forward pass: the modules it calls, with what each returns on its own\<close>
  "run_forward calls st =
     (let (outs, st') = foldl (\<lambda>(outs, st) (m, out). case call_module m out st of (st', out') \<Rightarrow> (outs @ [out'], st'))
                          ([], st) calls
      in (Inr outs, st'))"

section \<open>The phases\<close>

record r3_config =
  r3_enabled :: bool
  r3_record_logits :: bool

definition recording ::
  "module_info list \<Rightarrow> ('e r3_state \<Rightarrow> 'a result \<times> 'e r3_state) \<Rightarrow> 'e r3_state \<Rightarrow> 'a result \<times> 'e r3_state"
where
  "recording ms body st =
     (case body (recorder_install_hooks ms st) of (r, st') \<Rightarrow> (r, recorder_remove_hooks st'))"

definition record_phase ::
  "r3_config \<Rightarrow> module_info list \<Rightarrow> ('e r3_state \<Rightarrow> 'a result \<times> 'e r3_state) \<Rightarrow> 'e r3_state \<Rightarrow> 'a result \<times> 'e r3_state"
where
  "record_phase cfg ms body st =
     (if \<not> r3_enabled cfg \<or> \<not> r3_record_logits cfg then body st else recording ms body st)"

definition replay_phase ::
  "r3_config \<Rightarrow> module_info list \<Rightarrow> (int, 'e tensor) dict \<Rightarrow> ('e r3_state \<Rightarrow> 'a result \<times> 'e r3_state)
    \<Rightarrow> 'e r3_state \<Rightarrow> 'a result \<times> 'e r3_state"
where
  "replay_phase cfg ms dists body st =
     (if \<not> r3_enabled cfg then body st
      else (case body (replayer_install_hooks ms dists st) of (r, st') \<Rightarrow> (r, replayer_remove_hooks st')))"

definition transfer_distributions ::
  "('e, 'r, 'm) data_proto \<Rightarrow> (int, 'e tensor) dict \<Rightarrow> ('e, 'r, 'm) data_proto"
where
  "transfer_distributions data recorded =
     foldl (\<lambda>q (layer, lg). add_router_distributions layer lg q)
       \<lparr>tensors = tensors data, meta = meta data, ragged = []\<rparr> recorded"

definition r3_clear :: "'e r3_state \<Rightarrow> 'e r3_state" where
  "r3_clear st = replayer_remove_hooks (recorder_remove_hooks (recorder_clear st))"

section \<open>The hook table\<close>

definition layer_of :: "module_info list \<Rightarrow> nat \<Rightarrow> int option" where
  \<comment> \<open>the layer under which a module is hooked\<close>
  "layer_of ms m = map_of (map (\<lambda>(l, _, p). (p, l)) (iter_moe_modules ms)) m"

lemma moe_modules_positions:
  "(l, n, p) \<in> set (moe_modules_from pos running ms) \<Longrightarrow> pos \<le> p"
  by (induction pos running ms rule: moe_modules_from.induct) (auto split: if_splits)

lemma distinct_positions: "distinct (map (\<lambda>(_, _, p). p) (moe_modules_from pos running ms))"
proof (induction pos running ms rule: moe_modules_from.induct)
  case (2 pos running m ms)
  then show ?case using moe_modules_positions [of _ _ _ "Suc pos" "Suc running" ms] by fastforce
qed simp

lemma register_hooks_spec:
  "register_hooks mk ts hk =
    (\<lparr>hk_installed = hk_installed hk @ map (\<lambda>(h, l, _, m). (h, m, mk l)) (enumerate (hk_next hk) ts),
      hk_next = hk_next hk + length ts\<rparr>, [hk_next hk..<hk_next hk + length ts])"
proof (induction ts rule: rev_induct)
  case Nil
  show ?case by (simp add: register_hooks_def)
next
  case (snoc t ts)
  obtain l n m where t: "t = (l, n, m)" by (cases t)
  have "register_hooks mk (ts @ [t]) hk =
      (case register_hooks mk ts hk of (hk, hs) \<Rightarrow>
        (\<lparr>hk_installed = hk_installed hk @ [(hk_next hk, m, mk l)], hk_next = Suc (hk_next hk)\<rparr>, hs @ [hk_next hk]))"
    by (simp add: register_hooks_def t case_prod_beta)
  then show ?case by (simp add: snoc t enumerate_append_eq)
qed

lemma hooks_of_module:
  "filter (\<lambda>(_, m', _). m' = m) (map (\<lambda>(h, l, _, m). (h, m, mk l)) (enumerate k ts))
     = map (\<lambda>(h, l, _, m). (h, m, mk l)) (filter (\<lambda>(_, _, _, m'). m' = m) (enumerate k ts))"
  by (simp add: filter_map comp_def case_prod_unfold)

lemma hooks_of_position:
  "distinct (map (\<lambda>(_, _, p). p) ts) \<Longrightarrow>
   map (\<lambda>(_, l, _, _). l) (filter (\<lambda>(_, _, _, m'). m' = m) (enumerate k ts))
     = (case map_of (map (\<lambda>(l, _, p). (p, l)) ts) m of None \<Rightarrow> [] | Some l \<Rightarrow> [l])"
proof (induction ts arbitrary: k)
  case (Cons t ts)
  obtain l n p where t: "t = (l, n, p)" by (cases t)
  show ?case
  proof (cases "p = m")
    case True
    then have "map_of (map (\<lambda>(l, _, p). (p, l)) ts) m = None"
      using Cons.prems by (auto simp: t map_of_eq_None_iff image_iff case_prod_beta)
    then have "map (\<lambda>(_, l, _, _). l) (filter (\<lambda>(_, _, _, m'). m' = m) (enumerate (Suc k) ts)) = []"
      using Cons by simp
    then show ?thesis using True by (simp add: t)
  next
    case False
    then show ?thesis using Cons by (simp add: t)
  qed
qed simp

definition hooks_for :: "(int \<Rightarrow> hook_fn) \<Rightarrow> module_info list \<Rightarrow> hook_table \<Rightarrow> bool" where
  \<comment> \<open>exactly the hooks \<open>register_hooks\<close> adds to an empty table\<close>
  "hooks_for mk ms hk = (\<exists>k. hk_installed hk = map (\<lambda>(h, l, _, m). (h, m, mk l)) (enumerate k (iter_moe_modules ms)))"

lemma foldl_skip: "foldl (\<lambda>so x. if P x then f so x else so) s xs = foldl f s (filter P xs)"
  by (induction xs arbitrary: s) simp_all

lemma call_module_hooked:
  assumes "hooks_for mk ms (st_hooks st)"
  shows "call_module m out st
    = (case layer_of ms m of None \<Rightarrow> (st, out) | Some l \<Rightarrow> run_hook (mk l) (st, out))"
proof -
  obtain k where hk: "hk_installed (st_hooks st)
      = map (\<lambda>(h, l, _, m). (h, m, mk l)) (enumerate k (iter_moe_modules ms))"
    using assms by (auto simp: hooks_for_def)
  let ?fs = "filter (\<lambda>(_, _, _, m'). m' = m) (enumerate k (iter_moe_modules ms))"
  have "call_module m out st = foldl (\<lambda>so (_, _, fn). run_hook fn so) (st, out)
      (filter (\<lambda>(_, m', _). m' = m) (hk_installed (st_hooks st)))"
    unfolding call_module_def by (subst foldl_skip [symmetric]) (simp add: case_prod_unfold cong: if_cong)
  also have "\<dots> = foldl (\<lambda>so (_, _, fn). run_hook fn so) (st, out) (map (\<lambda>(h, l, _, m). (h, m, mk l)) ?fs)"
    by (simp only: hk hooks_of_module)
  also have "\<dots> = foldl (\<lambda>so l. run_hook (mk l) so) (st, out) (map (\<lambda>(_, l, _, _). l) ?fs)"
    by (simp add: foldl_map case_prod_beta)
  also have "map (\<lambda>(_, l, _, _). l) ?fs = (case layer_of ms m of None \<Rightarrow> [] | Some l \<Rightarrow> [l])"
    unfolding layer_of_def
    by (rule hooks_of_position) (simp only: iter_moe_modules_def distinct_positions)
  finally show ?thesis by (simp split: option.splits)
qed

section \<open>Recording\<close>

definition record_into :: "module_info list \<Rightarrow> (int, 'e tensor) dict \<Rightarrow> nat \<times> 'e module_output \<Rightarrow> (int, 'e tensor) dict" where
  "record_into ms d c =
     (case (layer_of ms (fst c), extract_router_logits (snd c)) of
        (Some l, Some t) \<Rightarrow> dict_set l t d | _ \<Rightarrow> d)"

lemma record_into_pair:
  "record_into ms d (m, out) = (case layer_of ms m of None \<Rightarrow> d
     | Some l \<Rightarrow> (case extract_router_logits out of None \<Rightarrow> d | Some t \<Rightarrow> dict_set l t d))"
  by (simp add: record_into_def split: option.splits)

lemma forward_recorded:
  assumes "hooks_for Record_Hook ms (st_hooks st)"
  shows "run_forward calls st = (Inr (map snd calls), st\<lparr>st_recorder := (st_recorder st)
    \<lparr>rr_distributions := foldl (record_into ms) (rr_distributions (st_recorder st)) calls\<rparr>\<rparr>)"
proof -
  have "foldl (\<lambda>(outs, st) (m, out). case call_module m out st of (st', out') \<Rightarrow> (outs @ [out'], st')) ([], st) calls
    = (map snd calls, st\<lparr>st_recorder := (st_recorder st)
    \<lparr>rr_distributions := foldl (record_into ms) (rr_distributions (st_recorder st)) calls\<rparr>\<rparr>)"
  proof (induction calls rule: rev_induct)
    case (snoc c calls)
    obtain m out where c: "c = (m, out)" by (cases c)
    let ?st = "st\<lparr>st_recorder := (st_recorder st)
      \<lparr>rr_distributions := foldl (record_into ms) (rr_distributions (st_recorder st)) calls\<rparr>\<rparr>"
    have "hooks_for Record_Hook ms (st_hooks ?st)" using assms by simp
    from call_module_hooked [OF this, of m out] snoc show ?case
      by (simp add: c record_into_pair run_hook_def split: option.splits)
  qed simp
  then show ?thesis by (simp add: run_forward_def)
qed

section \<open>Replaying\<close>

definition replayed :: "module_info list \<Rightarrow> (int, 'e tensor) dict \<Rightarrow> nat \<times> 'e module_output \<Rightarrow> 'e module_output" where
  "replayed ms d c =
     (case layer_of ms (fst c) of
        None \<Rightarrow> snd c
      | Some l \<Rightarrow> (case map_of d l of None \<Rightarrow> snd c | Some t \<Rightarrow> replace_router_logits (snd c) t))"

lemma forward_replayed:
  assumes "hooks_for Replay_Hook ms (st_hooks st)"
  shows "run_forward calls st = (Inr (map (replayed ms (rp_distributions (st_replayer st))) calls), st)"
proof -
  have "foldl (\<lambda>(outs, st) (m, out). case call_module m out st of (st', out') \<Rightarrow> (outs @ [out'], st')) ([], st) calls
    = (map (replayed ms (rp_distributions (st_replayer st))) calls, st)"
  proof (induction calls rule: rev_induct)
    case (snoc c calls)
    then show ?case
      using call_module_hooked [OF assms, of "fst c" "snd c"]
      by (simp add: replayed_def run_hook_def case_prod_beta split: option.splits)
  qed simp
  then show ?thesis by (simp add: run_forward_def)
qed

lemma last_matrix_ndim: "last_matrix ps = Some t \<Longrightarrow> 2 \<le> t_ndim t"
  by (induction ps rule: last_matrix.induct) (auto split: if_splits)

lemma last_matrix_set:
  "last_matrix ps = Some u \<Longrightarrow> 2 \<le> t_ndim t \<Longrightarrow> last_matrix (set_last_matrix t ps) = Some t"
  by (induction ps rule: last_matrix.induct) (auto split: if_splits)

lemma t_ndim_broadcast_like: "t_ndim (broadcast_like t u) = t_ndim u"
  by (simp add: broadcast_like_def t_reshape_like_def t_ndim_def Let_def)

lemma broadcast_like_values:
  \<comment> \<open>for equal element counts the values are the recorded ones, in order and in the shape of the reference\<close>
  assumes "t_numel t = t_numel u" "length (concat (t_rows t)) = t_numel t"
  shows "concat (t_rows (broadcast_like t u)) = concat (t_rows t)
    \<and> t_trail (broadcast_like t u) = t_trail u \<and> t_len (broadcast_like t u) = t_len u"
proof (cases "t_trail t = t_trail u \<and> t_len t = t_len u")
  case True
  then show ?thesis by (simp add: broadcast_like_def)
next
  case False
  let ?w = "prod_list (t_trail u)" and ?xs = "concat (t_rows t)"
  have "concat (map (\<lambda>i. py_slice (i * ?w) (Suc i * ?w) ?xs) [0..<n]) = take (n * ?w) ?xs" for n
  proof (induction n)
    case (Suc n)
    then show ?case by (simp add: py_slice_def take_add [symmetric] add.commute)
  qed simp
  from this [of "t_len u"] have "concat (t_rows (t_reshape_like t u)) = ?xs"
    using assms by (simp add: t_reshape_like_def Let_def t_numel_def add.commute)
  then show ?thesis using False assms(1)
    by (auto simp: broadcast_like_def) (simp_all add: t_reshape_like_def t_len_def Let_def)
qed

lemma broadcast_like_other: "t_numel t \<noteq> t_numel u \<Longrightarrow> broadcast_like t u = u"
  by (auto simp: broadcast_like_def t_numel_def)

definition logits_replaced :: "'e tensor \<Rightarrow> 'e tensor \<Rightarrow> 'e module_output \<Rightarrow> 'e module_output \<Rightarrow> bool" where
  \<comment> \<open>\<open>out'\<close> is \<open>out\<close> with its logits \<open>u\<close>, the last part with two dimensions or more, replaced by \<open>t\<close>
      in the shape of \<open>u\<close>; every other part is in its place\<close>
  "logits_replaced t u out out' =
     (out = Single u \<and> out' = Single (broadcast_like t u)
      \<or> (\<exists>as bs. out = Parts (as @ TensorPart u # bs) \<and> last_matrix (rev bs) = None
           \<and> out' = Parts (as @ TensorPart (broadcast_like t u) # bs)))"

lemma set_last_matrix_split:
  "last_matrix ps = Some u \<Longrightarrow>
   \<exists>as bs. ps = as @ TensorPart u # bs \<and> last_matrix as = None \<and> set_last_matrix t ps = as @ TensorPart t # bs"
proof (induction ps rule: last_matrix.induct)
  case (2 v ps)
  show ?case
  proof (cases "2 \<le> t_ndim v")
    case True
    then show ?thesis using 2 by (intro exI [of _ "[]"] exI [of _ ps]) simp
  next
    case False
    with 2 obtain as bs where "ps = as @ TensorPart u # bs" "last_matrix as = None"
      "set_last_matrix t ps = as @ TensorPart t # bs" by auto
    with False show ?thesis by (intro exI [of _ "TensorPart v # as"] exI [of _ bs]) simp
  qed
next
  case (3 ps)
  then obtain as bs where "ps = as @ TensorPart u # bs" "last_matrix as = None"
    "set_last_matrix t ps = as @ TensorPart t # bs" by auto
  then show ?case by (intro exI [of _ "OtherPart # as"] exI [of _ bs]) simp
qed simp

lemma replace_logits_replaced:
  assumes "extract_router_logits out = Some u"
  shows "logits_replaced t u out (replace_router_logits out t)"
proof (cases out)
  case (Parts ps)
  with assms have u: "last_matrix (rev ps) = Some u" by (simp add: extract_router_logits_def)
  obtain as bs where "rev ps = as @ TensorPart u # bs" "last_matrix as = None"
    "set_last_matrix (broadcast_like t u) (rev ps) = as @ TensorPart (broadcast_like t u) # bs"
    using set_last_matrix_split [OF u] by blast
  note split = this
  have "ps = rev (as @ TensorPart u # bs)" by (simp only: split(1) [symmetric] rev_rev_ident)
  then have "out = Parts (rev bs @ TensorPart u # rev as)" by (simp add: Parts)
  moreover have "replace_router_logits out t = Parts (rev bs @ TensorPart (broadcast_like t u) # rev as)"
    using assms by (simp add: Parts replace_router_logits_def split(3))
  moreover have "last_matrix (rev (rev as)) = None" by (simp add: split(2))
  ultimately show ?thesis unfolding logits_replaced_def by blast
qed (use assms in \<open>simp_all add: extract_router_logits_def replace_router_logits_def logits_replaced_def\<close>)

lemma replace_without_logits: "extract_router_logits out = None \<Longrightarrow> replace_router_logits out t = out"
  by (cases out) (simp_all add: replace_router_logits_def extract_router_logits_def)

text \<open>Replaying replaces the logits and nothing else an extraction can see.\<close>

lemma extract_replaced:
  assumes "extract_router_logits out = Some u"
  shows "extract_router_logits (replace_router_logits out t) = Some (broadcast_like t u)"
proof (cases out)
  case (Parts ps)
  with assms have u: "last_matrix (rev ps) = Some u" by (simp add: extract_router_logits_def)
  then have "2 \<le> t_ndim (broadcast_like t u)" by (simp add: t_ndim_broadcast_like last_matrix_ndim)
  then show ?thesis using u last_matrix_set
    by (simp add: Parts replace_router_logits_def extract_router_logits_def)
qed (use assms in \<open>simp_all add: extract_router_logits_def replace_router_logits_def\<close>)

section \<open>Installing and removing\<close>

definition unhooked :: "'e r3_state \<Rightarrow> bool" where
  "unhooked st = (hk_installed (st_hooks st) = [] \<and> rr_handles (st_recorder st) = []
     \<and> st_replayer st = \<lparr>rp_handles = [], rp_distributions = []\<rparr>)"

lemma installed_removed:
  "remove_handles [k..<k + length ts] \<lparr>hk_installed = map (\<lambda>(h, l, _, m). (h, m, mk l)) (enumerate k ts), hk_next = n\<rparr>
    = \<lparr>hk_installed = [], hk_next = n\<rparr>"
  by (auto simp: remove_handles_def filter_empty_conv in_set_enumerate_eq)

lemma record_phase_run:
  assumes "unhooked st" "r3_enabled cfg" "r3_record_logits cfg"
  shows "\<exists>st'. record_phase cfg ms (run_forward calls) st = (Inr (map snd calls), st') \<and> unhooked st'
    \<and> get_distributions st' = foldl (record_into ms) (get_distributions st) calls"
proof -
  let ?k = "hk_next (st_hooks st)" and ?ts = "iter_moe_modules ms"
  let ?hk = "\<lparr>hk_installed = map (\<lambda>(h, l, _, m). (h, m, Record_Hook l)) (enumerate ?k ?ts), hk_next = ?k + length ?ts\<rparr>"
  let ?st = "st\<lparr>st_hooks := ?hk, st_recorder := (st_recorder st)\<lparr>rr_handles := [?k..<?k + length ?ts]\<rparr>\<rparr>"
  have inst: "recorder_install_hooks ms st = ?st"
    using assms(1)
    by (simp add: recorder_install_hooks_def recorder_remove_hooks_def register_hooks_spec unhooked_def remove_handles_def)
  have "hooks_for Record_Hook ms (st_hooks ?st)" by (auto simp: hooks_for_def)
  from forward_recorded [OF this, of calls] show ?thesis
    using assms by (simp add: record_phase_def recording_def inst recorder_remove_hooks_def installed_removed
        unhooked_def get_distributions_def)
qed

lemma replay_phase_run:
  assumes "unhooked st" "r3_enabled cfg"
  shows "\<exists>st'. replay_phase cfg ms dists (run_forward calls) st = (Inr (map (replayed ms dists) calls), st')
    \<and> unhooked st' \<and> get_distributions st' = get_distributions st"
proof -
  let ?k = "hk_next (st_hooks st)" and ?ts = "iter_moe_modules ms"
  let ?hk = "\<lparr>hk_installed = map (\<lambda>(h, l, _, m). (h, m, Replay_Hook l)) (enumerate ?k ?ts), hk_next = ?k + length ?ts\<rparr>"
  let ?st = "st\<lparr>st_hooks := ?hk, st_replayer := \<lparr>rp_handles = [?k..<?k + length ?ts], rp_distributions = dists\<rparr>\<rparr>"
  have inst: "replayer_install_hooks ms dists st = ?st"
    using assms(1)
    by (simp add: replayer_install_hooks_def replayer_remove_hooks_def register_hooks_spec unhooked_def remove_handles_def)
  have "hooks_for Replay_Hook ms (st_hooks ?st)" by (auto simp: hooks_for_def)
  from forward_replayed [OF this, of calls] show ?thesis
    using assms by (simp add: replay_phase_def inst replayer_remove_hooks_def installed_removed
        unhooked_def get_distributions_def)
qed

section \<open>Record, carry, replay\<close>

lemma map_of_record_into:
  assumes "inj_on (layer_of ms) {m. layer_of ms m \<noteq> None}" "distinct (map fst calls)"
    and "(m, out) \<in> set calls" "layer_of ms m = Some l" "extract_router_logits out = Some t"
  shows "map_of (foldl (record_into ms) d calls) l = Some t"
  using assms(2,3)
proof (induction calls rule: rev_induct)
  case (snoc c calls)
  obtain m' out' where c: "c = (m', out')" by (cases c)
  show ?case
  proof (cases "m' = m")
    case True
    then have "(m, out) \<notin> set calls" using snoc.prems by (force simp: c)
    then show ?thesis using True snoc.prems assms(4,5) by (simp add: c record_into_pair)
  next
    case False
    then have "map_of (foldl (record_into ms) d calls) l = Some t" using snoc by (auto simp: c)
    moreover have "layer_of ms m' \<noteq> Some l"
      using inj_onD [OF assms(1), of m' m] False assms(4) by auto
    ultimately show ?thesis by (auto simp: c record_into_pair split: option.splits)
  qed
qed simp

lemma map_of_record_into_none:
  assumes "\<And>m out. (m, out) \<in> set calls \<Longrightarrow> layer_of ms m = Some l \<Longrightarrow> extract_router_logits out = None"
  shows "map_of (foldl (record_into ms) d calls) l = map_of d l"
  using assms
proof (induction calls rule: rev_induct)
  case (snoc c calls)
  obtain m out where c: "c = (m, out)" by (cases c)
  have "map_of (foldl (record_into ms) d calls) l = map_of d l"
    by (rule snoc.IH) (use snoc.prems in auto)
  then show ?case using snoc.prems [of m out] by (auto simp: c record_into_pair split: option.splits)
qed simp

lemma distinct_foldl_record_into:
  "distinct (map fst d) \<Longrightarrow> distinct (map fst (foldl (record_into ms) d calls))"
  by (induction calls arbitrary: d) (auto simp: record_into_def split: option.splits)

lemma transfer_distributions_keys:
  assumes "distinct (dict_keys (tensors data))" "router_canonical data"
  shows "distinct (dict_keys (tensors (transfer_distributions data recorded)))
    \<and> router_canonical (transfer_distributions data recorded)
    \<and> (\<forall>l. map_of (tensors (transfer_distributions data recorded)) (router_prefix @ show_int l)
         = (case map_of (rev recorded) l of
              None \<Rightarrow> map_of (tensors data) (router_prefix @ show_int l) | Some t \<Rightarrow> Some t))"
proof (induction recorded rule: rev_induct)
  case Nil
  then show ?case using assms by (simp add: transfer_distributions_def router_canonical_def)
next
  case (snoc lt recorded)
  obtain l t where lt: "lt = (l, t)" by (cases lt)
  have "transfer_distributions data (recorded @ [lt]) = add_router_distributions l t (transfer_distributions data recorded)"
    by (simp add: transfer_distributions_def lt)
  then show ?case using snoc add_router_distributions_inv [of "transfer_distributions data recorded" l t]
    by (auto simp: lt)
qed

lemma map_of_rev: "distinct (map fst xs) \<Longrightarrow> map_of (rev xs) = map_of xs"
  by (rule map_of_eqI) (auto simp: rev_map [symmetric])

definition unrecorded :: "module_info list \<Rightarrow> ('e, 'r, 'm) data_proto \<Rightarrow> (nat \<times> 'e module_output) list \<Rightarrow> nat \<Rightarrow> bool" where
  \<comment> \<open>a module that is not hooked, or gave no logits when recording and none came with the batch\<close>
  "unrecorded ms data calls m =
     (case layer_of ms m of
        None \<Rightarrow> True
      | Some l \<Rightarrow> list_all (\<lambda>(m', out). m' = m \<longrightarrow> extract_router_logits out = None) calls
          \<and> map_of (tensors data) (router_prefix @ show_int l) = None)"

lemma r3_round_trip_run:
  assumes clean: "unhooked st" "get_distributions st = []"
    and cfg: "r3_enabled cfg" "r3_record_logits cfg"
    and layers: "inj_on (layer_of ms) {m. layer_of ms m \<noteq> None}"
    and data: "distinct (dict_keys (tensors data))" "router_canonical data"
    and calls: "distinct (map fst calls)"
  shows "\<exists>st1 d outs st2. record_phase cfg ms (run_forward calls) st = (Inr (map snd calls), st1)
    \<and> get_router_distributions (transfer_distributions data (get_distributions st1)) = Inr d
    \<and> replay_phase cfg ms d (run_forward calls') st1 = (Inr outs, st2)
    \<and> unhooked st1 \<and> unhooked st2 \<and> length outs = length calls'
    \<and> (\<forall>i m out'. i < length calls' \<longrightarrow> calls' ! i = (m, out') \<longrightarrow>
        (\<forall>out l t u. layer_of ms m = Some l \<longrightarrow> (m, out) \<in> set calls \<longrightarrow> extract_router_logits out = Some t
           \<longrightarrow> extract_router_logits out' = Some u \<longrightarrow> logits_replaced t u out' (outs ! i))
        \<and> (extract_router_logits out' = None \<or> unrecorded ms data calls m \<longrightarrow> outs ! i = out'))"
proof -
  obtain st1 where st1: "record_phase cfg ms (run_forward calls) st = (Inr (map snd calls), st1)" "unhooked st1"
      "get_distributions st1 = foldl (record_into ms) [] calls"
    using record_phase_run [OF clean(1) cfg, of ms calls] clean(2) by auto
  let ?rec = "get_distributions st1"
  note tr = transfer_distributions_keys [OF data, of ?rec]
  obtain d where d: "get_router_distributions (transfer_distributions data ?rec) = Inr d"
      "\<And>l. map_of d l = map_of (tensors (transfer_distributions data ?rec)) (router_prefix @ show_int l)"
    using get_router_map [of "transfer_distributions data ?rec"] tr by blast
  obtain st2 where st2: "replay_phase cfg ms d (run_forward calls') st1 = (Inr (map (replayed ms d) calls'), st2)" "unhooked st2"
    using replay_phase_run [OF st1(2) cfg(1)] by blast
  have rec: "map_of (rev ?rec) l = map_of ?rec l" for l
    by (rule fun_cong [OF map_of_rev]) (unfold st1(3), rule distinct_foldl_record_into, simp)
  have dl: "map_of d l = Some t" if "(m, out) \<in> set calls" "layer_of ms m = Some l" "extract_router_logits out = Some t" for m out l t
    using map_of_record_into [OF layers calls that, of "[]"] tr d(2) rec by (simp add: st1(3))
  have dn: "replayed ms d (m, out') = out'" if none: "unrecorded ms data calls m" for m out'
  proof (cases "layer_of ms m")
    case None
    then show ?thesis by (simp add: replayed_def)
  next
    case (Some l)
    have "m' = m" if "layer_of ms m' = Some l" for m' using inj_onD [OF layers, of m' m] that Some by simp
    then have "map_of (foldl (record_into ms) [] calls) l = map_of [] l"
      by (intro map_of_record_into_none) (use none Some in \<open>auto simp: unrecorded_def list_all_iff\<close>)
    then have "map_of d l = None" using tr d(2) rec none Some by (simp add: st1(3) unrecorded_def)
    then show ?thesis using Some by (simp add: replayed_def)
  qed
  let ?outs = "map (replayed ms d) calls'"
  have "logits_replaced t u out' (?outs ! i)"
    if "i < length calls'" "calls' ! i = (m, out')" "layer_of ms m = Some l" "(m, out) \<in> set calls"
      "extract_router_logits out = Some t" "extract_router_logits out' = Some u" for i m out out' l t u
    using that dl [OF that(4,3,5)] replace_logits_replaced [OF that(6)] by (simp add: replayed_def)
  moreover have "?outs ! i = out'"
    if "i < length calls'" "calls' ! i = (m, out')" "extract_router_logits out' = None \<or> unrecorded ms data calls m" for i m out'
    using that dn [of m out'] by (auto simp: replayed_def replace_without_logits split: option.split)
  moreover have "length ?outs = length calls'" by simp
  ultimately show ?thesis using st1 d(1) st2 by blast
qed

lemma layer_of_inj:
  assumes "distinct (map fst (iter_moe_modules ms))"
  shows "inj_on (layer_of ms) {m. layer_of ms m \<noteq> None}"
proof (rule inj_onI)
  fix m n assume "m \<in> {m. layer_of ms m \<noteq> None}" and eq: "layer_of ms m = layer_of ms n"
  then obtain l where l: "layer_of ms m = Some l" "layer_of ms n = Some l" by auto
  have in_list: "\<exists>name. (l, name, p) \<in> set (iter_moe_modules ms)" if "layer_of ms p = Some l" for p
    using map_of_SomeD [OF that [unfolded layer_of_def]] by (auto simp: image_iff)
  obtain x y where "(l, x, m) \<in> set (iter_moe_modules ms)" "(l, y, n) \<in> set (iter_moe_modules ms)"
    using in_list l by blast
  then show "m = n" using eq_key_imp_eq_value [OF assms] by blast
qed


definition r3_sample_modules :: "module_info list" where
  "r3_sample_modules = map (\<lambda>(n, c). \<lparr>mi_name = n, mi_class = c, mi_experts = False, mi_router = False, mi_gate = False,
      mi_w_gate = False, mi_routing = False, mi_gating = False\<rparr>)
    [(''model.embed'', ''Embedding''), (''model.layers.3.mlp'', ''Qwen3MoeSparseMoeBlock''),
     (''model.layers.7.mlp'', ''Qwen3MoeSparseMoeBlock'')]"

definition r3_start :: "int r3_state" where
  "r3_start = \<lparr>st_hooks = \<lparr>hk_installed = [], hk_next = 0\<rparr>, st_recorder = \<lparr>rr_distributions = [], rr_handles = []\<rparr>,
     st_replayer = \<lparr>rp_handles = [], rp_distributions = []\<rparr>\<rparr>"

definition r3_logits :: "int \<Rightarrow> int tensor" where
  "r3_logits x = \<lparr>t_trail = [2], t_rows = [[x, x + 1]]\<rparr>"

lemma r3_sample_ok:
  "distinct (map fst (iter_moe_modules r3_sample_modules))" "layer_of r3_sample_modules 2 = Some 7"
  "unhooked r3_start" "get_distributions r3_start = []"
  "broadcast_like (r3_logits x) (r3_logits y) = r3_logits x"
  "extract_router_logits (Parts [OtherPart, TensorPart (r3_logits x)]) = Some (r3_logits x)"
  "extract_router_logits (Parts [OtherPart, TensorPart (r3_logits x), OtherPart]) = Some (r3_logits x)"
  by (code_simp, code_simp, code_simp, code_simp)
    (simp_all add: broadcast_like_def extract_router_logits_def r3_logits_def t_ndim_def t_len_def)


text \<open>The batch that carries the logits loses its ragged columns; a phase that is switched off runs
  its body untouched; a new recording keeps what an earlier one left.\<close>

lemma transfer_drops_ragged: "ragged (transfer_distributions data recorded) = []"
  by (induction recorded rule: rev_induct)
    (simp_all add: transfer_distributions_def add_router_distributions_def case_prod_beta)

lemma phases_off:
  "\<not> r3_enabled cfg \<Longrightarrow> record_phase cfg ms body st = body st"
  "\<not> r3_record_logits cfg \<Longrightarrow> record_phase cfg ms body st = body st"
  "\<not> r3_enabled cfg \<Longrightarrow> replay_phase cfg ms dists body st = body st"
  by (simp_all add: record_phase_def replay_phase_def)

lemma r3_clear_unhooked:
  assumes "hk_installed (st_hooks st) = []"
  shows "unhooked (r3_clear st) \<and> get_distributions (r3_clear st) = []"
  using assms by (simp add: r3_clear_def recorder_clear_def recorder_remove_hooks_def replayer_remove_hooks_def
      unhooked_def get_distributions_def remove_handles_def)

end
