(* ===== verification/Megatron_Replay.thy ===== *)
theory Megatron_Replay
  imports Router_Hooks
begin

text \<open>
  The second half of \<open>lumenrl/moe/moe_utils.py\<close> and \<open>lumenrl/moe/r3_scope.py\<close>: recording and
  replaying the logits of Megatron routers by wrapping their \<open>routing\<close> method, where every layer
  consumes its recordings in the order of its own calls; and the check of the configuration that
  admits router replay. Elements are exact, so the conversion of a recording to the element type of
  the live logits is the identity.
\<close>

section \<open>Wrapping the routers\<close>

text \<open>A router is its position in the model; the \<open>routing\<close> attribute of every router is a map from
  positions to functions.\<close>

datatype routing_fn =
    Plain_Routing                 \<comment> \<open>the method of the class\<close>
  | Record_Wrap int routing_fn    \<comment> \<open>layer and wrapped function\<close>
  | Replay_Wrap int routing_fn

definition wrap_routers ::
  "(int \<Rightarrow> routing_fn \<Rightarrow> routing_fn) \<Rightarrow> (int \<times> nat) list \<Rightarrow> (nat \<Rightarrow> routing_fn)
    \<Rightarrow> (nat \<Rightarrow> routing_fn) \<times> (nat \<times> routing_fn) list"
where
  "wrap_routers make_wrap routers fns =
     foldl (\<lambda>(fns, saved) (layer, r). (fns(r := make_wrap layer (fns r)), saved @ [(r, fns r)])) (fns, []) routers"

definition restore_routers :: "(nat \<times> routing_fn) list \<Rightarrow> (nat \<Rightarrow> routing_fn) \<Rightarrow> nat \<Rightarrow> routing_fn" where
  "restore_routers saved fns = foldl (\<lambda>f (r, orig). f(r := orig)) fns saved"

definition with_wrapped_routers ::
  "(int \<Rightarrow> routing_fn \<Rightarrow> routing_fn) \<Rightarrow> module_info list \<Rightarrow> ((nat \<Rightarrow> routing_fn) \<Rightarrow> 'a result \<times> (nat \<Rightarrow> routing_fn))
    \<Rightarrow> (nat \<Rightarrow> routing_fn) \<Rightarrow> 'a result \<times> (nat \<Rightarrow> routing_fn)"
where
  \<comment> \<open>the context managers: the \<open>finally\<close> clause restores whatever the body does\<close>
  "with_wrapped_routers make_wrap ms body fns =
     (case wrap_routers make_wrap (iter_megatron_routers ms) fns of (fns', saved) \<Rightarrow>
        (case body fns' of (r, fns'') \<Rightarrow> (r, restore_routers saved fns'')))"

section \<open>Recording and replaying\<close>

type_synonym 'e logit_store = "(int, 'e tensor list) dict"

definition mg_record :: "'e logit_store \<Rightarrow> int \<times> 'e tensor \<Rightarrow> 'e logit_store" where
  \<comment> \<open>\<open>store.setdefault(layer, []).append(logits)\<close>\<close>
  "mg_record store c =
     (case c of (layer, lg) \<Rightarrow>
        dict_set layer ((case map_of store layer of None \<Rightarrow> [] | Some xs \<Rightarrow> xs) @ [lg]) store)"

type_synonym replay_state = "(int, nat) dict \<times> (int, bool) dict"   \<comment> \<open>\<open>call_idx\<close> and \<open>warned\<close>\<close>

definition mg_replay :: "'e logit_store \<Rightarrow> replay_state \<Rightarrow> int \<times> 'e tensor \<Rightarrow> 'e tensor \<times> replay_state" where
  \<comment> \<open>the logits the router really sees\<close>
  "mg_replay recorded s c =
     (case (s, c) of ((call_idx, warned), (layer, lg)) \<Rightarrow>
        let i = (case map_of call_idx layer of None \<Rightarrow> 0 | Some i \<Rightarrow> i);
            call_idx' = dict_set layer (Suc i) call_idx
        in (case map_of recorded layer of
             Some xs \<Rightarrow>
               if i < length xs \<and> t_numel (xs ! i) = t_numel lg
               then (t_reshape_like (xs ! i) lg, call_idx', warned)
               else (lg, call_idx', dict_set layer True warned)
           | None \<Rightarrow> (lg, call_idx', dict_set layer True warned)))"

definition mg_record_forward :: "(int \<times> 'e tensor) list \<Rightarrow> 'e logit_store \<Rightarrow> 'e logit_store" where
  "mg_record_forward calls store = foldl mg_record store calls"

definition mg_replay_forward :: "'e logit_store \<Rightarrow> (int \<times> 'e tensor) list \<Rightarrow> (int \<times> 'e tensor) list \<times> replay_state" where
  "mg_replay_forward recorded calls =
     foldl (\<lambda>(outs, s) c. case mg_replay recorded s c of (lg, s') \<Rightarrow> (outs @ [(fst c, lg)], s')) ([], [], []) calls"

section \<open>Configuration\<close>

datatype cfg = CNone | CBool bool | CStr string | CDict "(string \<times> cfg) list"

fun nested_cfg :: "cfg \<Rightarrow> string list \<Rightarrow> cfg \<Rightarrow> cfg" where
  \<comment> \<open>\<open>_nested\<close>; a boolean or a string has none of the attributes\<close>
  "nested_cfg cur [] d = cur"
| "nested_cfg cur (k # ks) d =
     (case cur of
        CNone \<Rightarrow> d
      | CDict m \<Rightarrow> nested_cfg (case map_of m k of None \<Rightarrow> d | Some c \<Rightarrow> c) ks d
      | _ \<Rightarrow> nested_cfg d ks d)"

definition truthy :: "cfg \<Rightarrow> bool" where
  "truthy c = (case c of CNone \<Rightarrow> False | CBool b \<Rightarrow> b | CStr s \<Rightarrow> s \<noteq> [] | CDict m \<Rightarrow> m \<noteq> [])"

definition cfg_str :: "((string \<times> cfg) list \<Rightarrow> string) \<Rightarrow> cfg \<Rightarrow> string" where
  \<comment> \<open>\<open>str(c)\<close>; the text of a mapping is the argument\<close>
  "cfg_str show_dict c =
     (case c of CNone \<Rightarrow> ''None'' | CBool b \<Rightarrow> (if b then ''True'' else ''False'') | CStr s \<Rightarrow> s | CDict m \<Rightarrow> show_dict m)"

definition r3_fields_from_config :: "((string \<times> cfg) list \<Rightarrow> string) \<Rightarrow> cfg \<Rightarrow> bool \<times> string \<times> string" where
  "r3_fields_from_config show_dict config =
     (let enabled = nested_cfg config [''moe'', ''r3'', ''enabled''] (CBool False);
          mode = nested_cfg config [''moe'', ''r3'', ''replay_mode''] (CStr ''hard_assignment'');
          backend = nested_cfg config [''policy'', ''generation_backend''] (CStr [])
      in (truthy enabled,
          if truthy mode then cfg_str show_dict mode else ''hard_assignment'',
          if truthy backend then cfg_str show_dict backend else []))"

definition assert_supported_r3 :: "string \<Rightarrow> string \<Rightarrow> unit result" where
  "assert_supported_r3 replay_mode generation_backend =
     (if py_lower (py_strip generation_backend) \<noteq> ''vllm'' then Inl RuntimeError
      else if py_lower (py_strip replay_mode) \<noteq> ''hard_assignment'' then Inl RuntimeError
      else Inr ())"

section \<open>The routers are restored\<close>

lemma restore_wrapped:
  assumes "distinct (map snd rs)"
  shows "\<exists>saved. snd (wrap_routers mk rs fns) = saved \<and> map fst saved = map snd rs
    \<and> (\<forall>(r, f) \<in> set saved. f = fns r) \<and> (\<forall>r. r \<notin> set (map snd rs) \<longrightarrow> fst (wrap_routers mk rs fns) r = fns r)"
  using assms
proof (induction rs rule: rev_induct)
  case Nil
  show ?case by (simp add: wrap_routers_def)
next
  case (snoc lr rs)
  obtain l r where lr: "lr = (l, r)" by (cases lr)
  have "wrap_routers mk (rs @ [lr]) fns = (case wrap_routers mk rs fns of (f, saved) \<Rightarrow>
      (f(r := mk l (f r)), saved @ [(r, f r)]))"
    by (simp add: wrap_routers_def lr case_prod_beta)
  then show ?case using snoc by (auto simp: lr case_prod_beta)
qed

lemma restore_other: "r \<notin> set (map fst saved) \<Longrightarrow> restore_routers saved fns r = fns r"
  by (induction saved rule: rev_induct) (auto simp: restore_routers_def)

lemma restore_saved:
  "(\<forall>(r, f) \<in> set saved. f = orig r) \<Longrightarrow> r \<in> set (map fst saved) \<Longrightarrow> restore_routers saved fns r = orig r"
  by (induction saved rule: rev_induct) (force simp: restore_routers_def)+

definition router_at :: "nat \<times> module_info \<Rightarrow> (int \<times> nat) list" where
  "router_at pm = (case pm of (pos, m) \<Rightarrow> if mi_routing m \<and> mi_gating m
     then (case layer_index_of (mi_name m) of Some n \<Rightarrow> [(int n, pos)] | None \<Rightarrow> []) else [])"

lemma router_at_pos: "map snd (router_at (pos, m)) \<in> {[], [pos]}"
  by (simp add: router_at_def split: option.split)

lemma routers_sorted:
  "sorted_wrt (<) (map snd (concat (map router_at (enumerate k ms))))
    \<and> (\<forall>p \<in> set (map snd (concat (map router_at (enumerate k ms)))). k \<le> p)"
proof (induction ms arbitrary: k)
  case (Cons m ms)
  have "\<forall>p \<in> set (map snd (concat (map router_at (enumerate (Suc k) ms)))). Suc k \<le> p" using Cons by blast
  then show ?case using Cons [of "Suc k"] router_at_pos [of k m] by (force simp: Suc_le_eq)
qed simp

lemma distinct_routers: "distinct (map snd (iter_megatron_routers ms))"
proof -
  have "iter_megatron_routers ms = concat (map router_at (enumerate 0 ms))"
    by (simp add: iter_megatron_routers_def router_at_def [abs_def])
  then show ?thesis using routers_sorted [of 0 ms] by (simp only: strict_sorted_iff)
qed

text \<open>Whatever the body does, and whatever it raises, every router the context wrapped has its own
  function back, and a body that leaves the other routers alone leaves no trace.\<close>

lemma with_wrapped_routers_restores:
  assumes "\<And>f r. r \<notin> set (map snd (iter_megatron_routers ms)) \<Longrightarrow> snd (body f) r = f r"
  shows "snd (with_wrapped_routers mk ms body fns) = fns"
proof
  fix r
  let ?rs = "iter_megatron_routers ms"
  obtain fns' saved where w: "wrap_routers mk ?rs fns = (fns', saved)" by force
  with restore_wrapped [OF distinct_routers, of mk ms fns]
  have s: "map fst saved = map snd ?rs" "\<forall>(r, f) \<in> set saved. f = fns r"
    "\<forall>r. r \<notin> set (map snd ?rs) \<longrightarrow> fns' r = fns r" by auto
  have "restore_routers saved (snd (body fns')) r = fns r"
  proof (cases "r \<in> set (map fst saved)")
    case True
    then show ?thesis by (rule restore_saved [OF s(2)])
  next
    case False
    then show ?thesis using assms [of r fns'] s by (simp add: restore_other)
  qed
  then show "snd (with_wrapped_routers mk ms body fns) r = fns r"
    by (simp add: with_wrapped_routers_def w case_prod_beta)
qed

section \<open>Replay follows the recording layer by layer\<close>

definition of_layer :: "int \<Rightarrow> (int \<times> 'a) list \<Rightarrow> 'a list" where
  "of_layer l calls = map snd (filter (\<lambda>c. fst c = l) calls)"

lemma of_layer_append [simp]: "of_layer l (xs @ ys) = of_layer l xs @ of_layer l ys"
  by (simp add: of_layer_def)

lemma of_layer_single [simp]: "of_layer l [(k, x)] = (if k = l then [x] else [])"
  by (simp add: of_layer_def)

lemma mg_record_store:
  "map_of (mg_record_forward calls []) l = (if of_layer l calls = [] then None else Some (of_layer l calls))"
proof (induction calls rule: rev_induct)
  case (snoc c calls)
  obtain k x where c: "c = (k, x)" by (cases c)
  show ?case using snoc by (auto simp: mg_record_forward_def mg_record_def c)
qed (simp add: mg_record_forward_def of_layer_def)

definition call_count :: "(int, nat) dict \<Rightarrow> int \<Rightarrow> nat" where
  "call_count d l = (case map_of d l of None \<Rightarrow> 0 | Some i \<Rightarrow> i)"

lemma mg_replay_step:
  "mg_replay recorded (ci, w) (l, lg) =
     (let xs = (case map_of recorded l of None \<Rightarrow> [] | Some xs \<Rightarrow> xs)
      in if call_count ci l < length xs \<and> t_numel (xs ! call_count ci l) = t_numel lg
         then (t_reshape_like (xs ! call_count ci l) lg, dict_set l (Suc (call_count ci l)) ci, w)
         else (lg, dict_set l (Suc (call_count ci l)) ci, dict_set l True w))"
  by (simp add: mg_replay_def call_count_def Let_def split: option.splits)

definition aligned :: "'e tensor list \<Rightarrow> 'e tensor list \<Rightarrow> bool" where
  \<comment> \<open>the recording has at least as many calls, with the same element counts\<close>
  "aligned rec calls = (length calls \<le> length rec \<and> map t_numel (take (length calls) rec) = map t_numel calls)"

lemma alignedD:
  assumes "aligned rec (xs @ [x])"
  shows "aligned rec xs" and "length xs < length rec" and "t_numel (rec ! length xs) = t_numel x"
proof -
  have m: "map t_numel (take (Suc (length xs)) rec) = map t_numel xs @ [t_numel x]" and l: "Suc (length xs) \<le> length rec"
    using assms by (simp_all add: aligned_def)
  show "length xs < length rec" using l by simp
  then have "take (Suc (length xs)) rec = take (length xs) rec @ [rec ! length xs]" by (rule take_Suc_conv_app_nth)
  with m have "map t_numel (take (length xs) rec) @ [t_numel (rec ! length xs)] = map t_numel xs @ [t_numel x]" by simp
  then show "aligned rec xs" "t_numel (rec ! length xs) = t_numel x" using l by (simp_all add: aligned_def)
qed

lemma mg_replay_forward_snoc:
  "mg_replay_forward rec (calls @ [c]) = (case mg_replay_forward rec calls of (outs, s) \<Rightarrow>
     (case mg_replay rec s c of (lg, s') \<Rightarrow> (outs @ [(fst c, lg)], s')))"
  by (simp add: mg_replay_forward_def split: prod.split)

lemma map2_snoc:
  "length ys < length xs \<Longrightarrow> map2 f xs (ys @ [y]) = map2 f xs ys @ [f (xs ! length ys) y]"
proof (induction ys arbitrary: xs)
  case Nil
  then show ?case by (cases xs) simp_all
next
  case (Cons z ys)
  then show ?case by (cases xs) simp_all
qed

lemma replay_in_order_run:
  assumes "\<And>l. aligned (of_layer l calls) (of_layer l calls')"
  shows "\<exists>outs ci. mg_replay_forward (mg_record_forward calls []) calls' = (outs, ci, [])
    \<and> map fst outs = map fst calls' \<and> (\<forall>l. call_count ci l = length (of_layer l calls'))
    \<and> (\<forall>l. of_layer l outs = map2 t_reshape_like (of_layer l calls) (of_layer l calls'))"
  using assms
proof (induction calls' rule: rev_induct)
  case Nil
  show ?case by (simp add: mg_replay_forward_def of_layer_def call_count_def)
next
  case (snoc c calls')
  obtain k x where c: "c = (k, x)" by (cases c)
  have al: "aligned (of_layer l calls) (of_layer l calls')" for l
    using snoc.prems [of l] alignedD(1) by (cases "k = l") (auto simp: c)
  have k: "length (of_layer k calls') < length (of_layer k calls)"
      "t_numel (of_layer k calls ! length (of_layer k calls')) = t_numel x"
    using snoc.prems [of k] alignedD(2,3) by (auto simp: c)
  obtain outs ci where ih: "mg_replay_forward (mg_record_forward calls []) calls' = (outs, ci, [])"
      "map fst outs = map fst calls'" "\<And>l. call_count ci l = length (of_layer l calls')"
      "\<And>l. of_layer l outs = map2 t_reshape_like (of_layer l calls) (of_layer l calls')"
    using snoc.IH [OF al] by blast
  let ?y = "t_reshape_like (of_layer k calls ! length (of_layer k calls')) x"
  have "of_layer k calls \<noteq> []" using k(1) by auto
  then have step: "mg_replay (mg_record_forward calls []) (ci, []) c = (?y, dict_set k (Suc (call_count ci k)) ci, [])"
    using k by (simp add: c mg_replay_step mg_record_store ih(3) Let_def)
  have "map2 t_reshape_like (of_layer k calls) (of_layer k calls' @ [x])
      = map2 t_reshape_like (of_layer k calls) (of_layer k calls') @ [?y]"
    by (rule map2_snoc [OF k(1)])
  then have "\<forall>l. of_layer l (outs @ [(k, ?y)]) = map2 t_reshape_like (of_layer l calls) (of_layer l (calls' @ [c]))"
    by (simp add: ih(4) c)
  moreover have "call_count (dict_set k (Suc (call_count ci k)) ci) l = length (of_layer l (calls' @ [c]))" for l
    using ih(3) by (simp add: call_count_def c)
  ultimately show ?case using ih(1,2) step by (simp add: mg_replay_forward_snoc c)
qed

text \<open>C39: Megatron router replay. If every layer is called in the replay at most as often as in the
  recording, with logits of the same element counts, then whatever the interleaving of the layers
  and micro-batches the \<open>n\<close>-th call of a layer sees the logits its \<open>n\<close>-th call recorded, and no
  call falls back to its natural routing.\<close>

theorem megatron_replay_in_order:
  assumes "\<And>l. aligned (of_layer l calls) (of_layer l calls')"
  shows "\<exists>outs ci. mg_replay_forward (mg_record_forward calls []) calls' = (outs, ci, [])
    \<and> map fst outs = map fst calls' \<and> (\<forall>l. call_count ci l = length (of_layer l calls'))
    \<and> (\<forall>l. of_layer l outs = map2 t_reshape_like (of_layer l calls) (of_layer l calls'))"
  using assms by (rule replay_in_order_run)

theorem megatron_replay_in_order_witness:
  "\<exists>outs ci. mg_replay_forward (mg_record_forward [(0, r3_logits 1), (1, r3_logits 2), (0, r3_logits 3)] [])
      [(1, r3_logits 7), (0, r3_logits 8), (0, r3_logits 9)] = (outs, ci, [])
    \<and> of_layer 0 outs = [r3_logits 1, r3_logits 3] \<and> of_layer 1 outs = [r3_logits 2]"
proof -
  have al: "aligned (of_layer l [(0, r3_logits 1), (1, r3_logits 2), (0, r3_logits 3)])
      (of_layer l [(1, r3_logits 7), (0, r3_logits 8), (0, r3_logits 9)])" for l
    by (simp add: aligned_def of_layer_def t_numel_def t_len_def r3_logits_def)
  have "t_reshape_like (r3_logits x) (r3_logits y) = r3_logits x" for x y
    by (simp add: t_reshape_like_def r3_logits_def t_len_def py_slice_def)
  with megatron_replay_in_order [OF al] show ?thesis by (fastforce simp: of_layer_def)
qed

text \<open>A layer that runs more often than it was recorded, as under activation recomputation, is
  routed by its own logits from then on and says so once.\<close>

lemma replay_exhausted:
  assumes "length (of_layer l calls) \<le> call_count ci l"
  shows "mg_replay (mg_record_forward calls []) (ci, w) (l, lg) = (lg, dict_set l (Suc (call_count ci l)) ci, dict_set l True w)"
  using assms by (auto simp: mg_replay_step mg_record_store Let_def)

section \<open>The configuration check\<close>

lemma assert_supported_r3_iff:
  "assert_supported_r3 mode backend = Inr () \<longleftrightarrow>
     py_lower (py_strip backend) = ''vllm'' \<and> py_lower (py_strip mode) = ''hard_assignment''"
  "assert_supported_r3 mode backend = Inl e \<Longrightarrow> e = RuntimeError"
  by (auto simp: assert_supported_r3_def split: if_splits)

lemma r3_defaults:
  "r3_fields_from_config sd (CDict []) = (False, ''hard_assignment'', [])"
  "assert_supported_r3 ''hard_assignment'' [] = Inl RuntimeError"
  "assert_supported_r3 ''Hard_Assignment'' '' vLLM '' = Inr ()"
  by (simp add: r3_fields_from_config_def truthy_def cfg_str_def) code_simp+

end
