(* ===== verification/Bucket_Transfer.thy ===== *)
theory Bucket_Transfer
  imports Py_Prelude
begin

text \<open>
  \<open>lumenrl/engine/inference/bucketed_weight_transfer.py\<close>: a trainer streams its weights to the
  inference worker through a shared buffer, bucket by bucket, over a request/reply socket. The
  sender packs tensors into the current slot of the buffer and sends their metadata; the
  receiver looks at the tensors in place and loads them. With two slots the receiver answers
  before it loads, so both sides work at the same time. Each side is a function of the shared
  state that performs its next action, and an execution is any interleaving of the two. Timings,
  logging, socket set-up and the garbage collection of the cleanup are not modelled; a buffer is
  a list of bytes.
\<close>

section \<open>Weights, messages and state\<close>

record 'b weight =
  w_name :: string
  w_shape :: "nat list"
  w_itemsize :: nat
  w_bytes :: "'b list"    \<comment> \<open>the contiguous data, \<open>nbytes\<close> long\<close>

record 'b tensor_meta =
  tm_name :: string
  tm_shape :: "nat list"
  tm_itemsize :: nat
  tm_offset :: nat
  tm_handle :: "'b list option"   \<comment> \<open>a handle gives access to the sender's own tensor\<close>

record 'b control_message =
  cm_meta :: "(string, 'b tensor_meta) dict"
  cm_last :: bool
  cm_version :: "int option"
  cm_early :: bool

record transfer_config =
  tc_bucket :: nat              \<comment> \<open>\<open>bucket_size\<close>, the size of one slot\<close>
  tc_double :: bool
  tc_shm :: bool
  tc_version :: "int option"
  tc_expected :: "int option"   \<comment> \<open>\<open>expected_version\<close> of the receiver\<close>

datatype sender_phase =
    Filling | Wait_Flush | Wait_Direct | Wait_Last | Sent | Sender_Failed py_error

datatype receiver_phase =
    Idle
  | Loading bool bool   \<comment> \<open>answer after loading; last bucket\<close>
  | Received
  | Receiver_Failed py_error

datatype 'b tensor_view = In_Buffer nat nat | Own "'b list"   \<comment> \<open>offset and size; a copy or a mapped tensor\<close>

record 'b transfer_state =
  tx_todo :: "'b weight list"
  tx_offset :: nat
  tx_meta :: "(string, 'b tensor_meta) dict"
  tx_slot :: nat
  tx_phase :: sender_phase
  shared :: "'b list"                      \<comment> \<open>the buffer of all slots\<close>
  ch_msg :: "'b control_message option"
  ch_ack :: bool
  rx_phase :: receiver_phase
  rx_views :: "(string \<times> nat list \<times> 'b tensor_view) list"   \<comment> \<open>what \<open>on_bucket_received\<close> still has to load\<close>
  rx_loaded :: "(string \<times> nat list \<times> 'b list) list"

definition num_slots :: "transfer_config \<Rightarrow> nat" where
  "num_slots c = (if tc_double c then 2 else 1)"

definition slot_bytes :: "nat \<Rightarrow> nat \<Rightarrow> bool \<Rightarrow> nat" where
  \<comment> \<open>\<open>bucket_size\<close> as the constructor computes it\<close>
  "slot_bytes bucket_size_mb min_bucket_bytes double_buffer =
     max (bucket_size_mb * 2 ^ 20) min_bucket_bytes div (if double_buffer then 2 else 1)"

definition check_bucket_version :: "int option \<Rightarrow> int option \<Rightarrow> unit result" where
  "check_bucket_version version expected =
     (case expected of
        None \<Rightarrow> Inr ()
      | Some e \<Rightarrow> if version = Some e then Inr () else Inl RuntimeError)"

section \<open>The sender\<close>

definition control :: "transfer_config \<Rightarrow> (string, 'b tensor_meta) dict \<Rightarrow> bool \<Rightarrow> bool \<Rightarrow> 'b control_message" where
  "control c bucket_meta is_last ack_early =
     \<lparr>cm_meta = bucket_meta, cm_last = is_last, cm_version = tc_version c, cm_early = ack_early\<rparr>"

definition tensor_meta_of :: "'b weight \<Rightarrow> nat \<Rightarrow> 'b list option \<Rightarrow> 'b tensor_meta" where
  "tensor_meta_of w start handle =
     \<lparr>tm_name = w_name w, tm_shape = w_shape w, tm_itemsize = w_itemsize w, tm_offset = start, tm_handle = handle\<rparr>"

definition write_at :: "nat \<Rightarrow> 'b list \<Rightarrow> 'b list \<Rightarrow> 'b list" where
  \<comment> \<open>\<open>buffer[start : start + len(bs)].copy_(bs)\<close>, within the buffer\<close>
  "write_at start bs buf = take start buf @ bs @ drop (start + length bs) buf"

definition flush_send :: "transfer_config \<Rightarrow> bool \<Rightarrow> 'b transfer_state \<Rightarrow> 'b transfer_state" where
  \<comment> \<open>\<open>_flush\<close> up to the send\<close>
  "flush_send c is_last st =
     st\<lparr>ch_msg := Some (control c (tx_meta st) is_last (tc_double c \<and> \<not> is_last)),
        tx_phase := (if is_last then Wait_Last else Wait_Flush)\<rparr>"

definition direct_send :: "transfer_config \<Rightarrow> 'b weight \<Rightarrow> 'b transfer_state \<Rightarrow> 'b transfer_state" where
  \<comment> \<open>\<open>_direct_send_large_weight\<close> up to the send\<close>
  "direct_send c w st =
     st\<lparr>ch_msg := Some (control c [(w_name w, tensor_meta_of w 0 (Some (w_bytes w)))] False False),
        tx_phase := Wait_Direct\<rparr>"

definition pack_weight :: "transfer_config \<Rightarrow> 'b weight \<Rightarrow> 'b weight list \<Rightarrow> 'b transfer_state \<Rightarrow> 'b transfer_state" where
  "pack_weight c w ws st =
     (let start = tx_slot st * tc_bucket c + tx_offset st
      in st\<lparr>tx_meta := dict_set (w_name w) (tensor_meta_of w start None) (tx_meta st),
            shared := write_at start (w_bytes w) (shared st),
            tx_offset := tx_offset st + length (w_bytes w),
            tx_todo := ws\<rparr>)"

definition sender_step :: "transfer_config \<Rightarrow> 'b transfer_state \<Rightarrow> 'b transfer_state option" where
  \<comment> \<open>the next action of \<open>async_send_weights\<close>; None when it waits or has ended\<close>
  "sender_step c st =
     (case tx_phase st of
        Filling \<Rightarrow>
          (case tx_todo st of
             [] \<Rightarrow> Some (flush_send c True st)
           | w # ws \<Rightarrow>
               if tc_bucket c < tx_offset st + length (w_bytes w) \<and> tx_meta st \<noteq> []
               then Some (flush_send c False st)
               else if tc_bucket c < tx_offset st + length (w_bytes w)
               then if tc_shm c then Some (st\<lparr>tx_phase := Sender_Failed AssertionError\<rparr>)
                    else Some (direct_send c w st)
               else Some (pack_weight c w ws st))
      | Wait_Flush \<Rightarrow>
          if ch_ack st
          then Some (st\<lparr>ch_ack := False, tx_slot := Suc (tx_slot st) mod num_slots c, tx_meta := [],
                        tx_offset := 0, tx_phase := Filling\<rparr>)
          else None
      | Wait_Direct \<Rightarrow>
          if ch_ack st then Some (st\<lparr>ch_ack := False, tx_todo := tl (tx_todo st), tx_phase := Filling\<rparr>) else None
      | Wait_Last \<Rightarrow>
          if ch_ack st
          then Some (st\<lparr>ch_ack := False, tx_slot := Suc (tx_slot st) mod num_slots c, tx_phase := Sent\<rparr>) else None
      | Sent \<Rightarrow> None
      | Sender_Failed e \<Rightarrow> None)"

section \<open>The receiver\<close>

definition view_of :: "transfer_config \<Rightarrow> 'b list \<Rightarrow> 'b tensor_meta \<Rightarrow> (nat list \<times> 'b tensor_view) result" where
  \<comment> \<open>\<open>view(dtype=dtype)\<close> on bytes needs the offset to be a multiple of the element size; with
      shared memory the bytes are copied to the device at once\<close>
  "view_of c buf m =
     (case tm_handle m of
        Some bs \<Rightarrow> Inr (tm_shape m, Own bs)
      | None \<Rightarrow>
          let nbytes = tm_itemsize m * prod_list (tm_shape m)
          in if tm_itemsize m = 0 \<or> tm_offset m mod tm_itemsize m \<noteq> 0 then Inl RuntimeError
             else if tc_shm c then Inr (tm_shape m, Own (py_slice (tm_offset m) (tm_offset m + nbytes) buf))
             else Inr (tm_shape m, In_Buffer (tm_offset m) nbytes))"

definition read_view :: "'b list \<Rightarrow> 'b tensor_view \<Rightarrow> 'b list" where
  "read_view buf v = (case v of In_Buffer off n \<Rightarrow> py_slice off (off + n) buf | Own bs \<Rightarrow> bs)"

definition receive_message :: "transfer_config \<Rightarrow> 'b control_message \<Rightarrow> 'b transfer_state \<Rightarrow> 'b transfer_state" where
  \<comment> \<open>from \<open>recv_pyobj\<close> to the call of \<open>on_bucket_received\<close>\<close>
  "receive_message c msg st =
     (case bind_result (check_bucket_version (cm_version msg) (tc_expected c)) (\<lambda>_.
             map_result (\<lambda>(name, m). bind_result (view_of c (shared st) m) (\<lambda>v. Inr (name, v))) (cm_meta msg)) of
        Inl e \<Rightarrow> st\<lparr>ch_msg := None, rx_phase := Receiver_Failed e\<rparr>
      | Inr views \<Rightarrow> st\<lparr>ch_msg := None, ch_ack := cm_early msg, rx_views := views,
                         rx_phase := Loading (\<not> cm_early msg) (cm_last msg)\<rparr>)"

definition receiver_step :: "transfer_config \<Rightarrow> 'b transfer_state \<Rightarrow> 'b transfer_state option" where
  \<comment> \<open>the next action of \<open>receive_weights\<close>; loading one tensor is one action\<close>
  "receiver_step c st =
     (case rx_phase st of
        Idle \<Rightarrow> map_option (\<lambda>msg. receive_message c msg st) (ch_msg st)
      | Loading ack_after last_bucket \<Rightarrow>
          (case rx_views st of
             (name, shape, v) # vs \<Rightarrow>
               Some (st\<lparr>rx_views := vs, rx_loaded := rx_loaded st @ [(name, shape, read_view (shared st) v)]\<rparr>)
           | [] \<Rightarrow> Some (st\<lparr>ch_ack := (ch_ack st \<or> ack_after), rx_phase := (if last_bucket then Received else Idle)\<rparr>))
      | Received \<Rightarrow> None
      | Receiver_Failed e \<Rightarrow> None)"

section \<open>Executions\<close>

definition start_transfer :: "'b list \<Rightarrow> 'b weight list \<Rightarrow> 'b transfer_state" where
  \<comment> \<open>after both \<open>_init_buffer\<close>; the content of the fresh buffer is arbitrary\<close>
  "start_transfer buf ws =
     \<lparr>tx_todo = ws, tx_offset = 0, tx_meta = [], tx_slot = 0, tx_phase = Filling, shared = buf, ch_msg = None,
      ch_ack = False, rx_phase = Idle, rx_views = [], rx_loaded = []\<rparr>"

inductive transfer_step :: "transfer_config \<Rightarrow> 'b transfer_state \<Rightarrow> 'b transfer_state \<Rightarrow> bool" for c where
  sender: "sender_step c st = Some st' \<Longrightarrow> transfer_step c st st'"
| receiver: "receiver_step c st = Some st' \<Longrightarrow> transfer_step c st st'"

inductive transfer_run :: "transfer_config \<Rightarrow> nat \<Rightarrow> 'b transfer_state \<Rightarrow> 'b transfer_state \<Rightarrow> bool" for c where
  none: "transfer_run c 0 st st"
| step: "transfer_run c n st st' \<Longrightarrow> transfer_step c st' st'' \<Longrightarrow> transfer_run c (Suc n) st st''"

inductive_simps transfer_step_iff: "transfer_step c st st'"

fun run_alternating :: "transfer_config \<Rightarrow> nat \<Rightarrow> 'b transfer_state \<Rightarrow> 'b transfer_state" where
  \<comment> \<open>one schedule, with fuel: the sender moves when it can\<close>
  "run_alternating c 0 st = st"
| "run_alternating c (Suc n) st =
     (case sender_step c st of
        Some st' \<Rightarrow> run_alternating c n st'
      | None \<Rightarrow> (case receiver_step c st of Some st' \<Rightarrow> run_alternating c n st' | None \<Rightarrow> st))"

section \<open>Writing and looking at the buffer\<close>

lemma length_write_at [simp]: "start + length bs \<le> length buf \<Longrightarrow> length (write_at start bs buf) = length buf"
  by (simp add: write_at_def)

lemma slice_write_same:
  "start + length bs \<le> length buf \<Longrightarrow> py_slice start (start + length bs) (write_at start bs buf) = bs"
  by (simp add: py_slice_def write_at_def)

lemma slice_write_other:
  assumes "start + length bs \<le> length buf" "off + n \<le> start \<or> start + length bs \<le> off"
  shows "py_slice off (off + n) (write_at start bs buf) = py_slice off (off + n) buf"
  using assms(2)
proof
  assume "off + n \<le> start"
  then have "take (off + n) (write_at start bs buf) = take (off + n) buf"
    using assms(1) by (simp add: write_at_def min_def)
  then show ?thesis by (simp add: py_slice_def take_drop add.commute)
next
  assume o: "start + length bs \<le> off"
  have "drop off (write_at start bs buf) = drop off buf"
    using o assms(1) by (simp add: write_at_def min_def)
  then show ?thesis by (simp add: py_slice_def)
qed

section \<open>What the parts of the state stand for\<close>

definition item :: "'b weight \<Rightarrow> string \<times> nat list \<times> 'b list" where
  "item w = (w_name w, w_shape w, w_bytes w)"

definition in_slot :: "transfer_config \<Rightarrow> nat \<Rightarrow> nat \<Rightarrow> nat \<Rightarrow> bool" where
  "in_slot c s off n = (s * tc_bucket c \<le> off \<and> off + n \<le> s * tc_bucket c + tc_bucket c)"

definition holds_weight :: "nat \<Rightarrow> 'b list \<Rightarrow> 'b weight \<Rightarrow> nat \<Rightarrow> bool" where
  \<comment> \<open>the bytes of \<open>w\<close> are at an aligned offset\<close>
  "holds_weight a buf w off = (a dvd off \<and> py_slice off (off + length (w_bytes w)) buf = w_bytes w)"

definition entry_ok ::
  "transfer_config \<Rightarrow> nat \<Rightarrow> nat \<Rightarrow> 'b list \<Rightarrow> 'b weight \<Rightarrow> string \<times> 'b tensor_meta \<Rightarrow> bool"
where
  "entry_ok c a s buf w e =
     (fst e = w_name w \<and> tm_shape (snd e) = w_shape w \<and> tm_itemsize (snd e) = w_itemsize w \<and>
      (case tm_handle (snd e) of
         Some bs \<Rightarrow> bs = w_bytes w
       | None \<Rightarrow> in_slot c s (tm_offset (snd e)) (length (w_bytes w)) \<and> holds_weight a buf w (tm_offset (snd e))))"

definition view_ok ::
  "transfer_config \<Rightarrow> nat \<Rightarrow> 'b list \<Rightarrow> 'b weight \<Rightarrow> string \<times> nat list \<times> 'b tensor_view \<Rightarrow> bool"
where
  "view_ok c s buf w v =
     (fst v = w_name w \<and> fst (snd v) = w_shape w \<and>
      (case snd (snd v) of
         Own bs \<Rightarrow> bs = w_bytes w
       | In_Buffer off n \<Rightarrow> n = length (w_bytes w) \<and> in_slot c s off n \<and> py_slice off (off + n) buf = w_bytes w))"

definition weight_ok :: "transfer_config \<Rightarrow> nat \<Rightarrow> 'b weight \<Rightarrow> bool" where
  \<comment> \<open>\<open>a\<close> is a common alignment of all element sizes\<close>
  "weight_ok c a w =
     (0 < w_itemsize w \<and> w_itemsize w dvd a \<and> a dvd length (w_bytes w)
      \<and> length (w_bytes w) = w_itemsize w * prod_list (w_shape w)
      \<and> (tc_shm c \<longrightarrow> length (w_bytes w) \<le> tc_bucket c))"

definition sendable :: "transfer_config \<Rightarrow> nat \<Rightarrow> 'b weight list \<Rightarrow> bool" where
  "sendable c a ws =
     (a dvd tc_bucket c \<and> distinct (map w_name ws) \<and> list_all (weight_ok c a) ws
      \<and> check_bucket_version (tc_version c) (tc_expected c) = Inr ())"

definition packed_ok :: "transfer_config \<Rightarrow> nat \<Rightarrow> 'b transfer_state \<Rightarrow> 'b weight list \<Rightarrow> bool" where
  \<comment> \<open>the weights \<open>M\<close> in the bucket the sender is filling\<close>
  "packed_ok c a st M =
     (tx_offset st = sum_list (map (\<lambda>w. length (w_bytes w)) M) \<and> tx_offset st \<le> tc_bucket c
      \<and> list_all2 (entry_ok c a (tx_slot st) (shared st)) M (tx_meta st)
      \<and> list_all (\<lambda>(_, m). tm_handle m = None
           \<and> tm_offset m + tm_itemsize m * prod_list (tm_shape m) \<le> tx_slot st * tc_bucket c + tx_offset st) (tx_meta st))"

definition background :: "nat \<Rightarrow> 'b transfer_state \<Rightarrow> bool" where
  \<comment> \<open>the receiver is idle, or loads from another slot than the one the sender uses\<close>
  "background sv st = (rx_phase st = Idle \<or> (rx_phase st = Loading False False \<and> sv \<noteq> tx_slot st))"

definition exchange ::
  "transfer_config \<Rightarrow> nat \<Rightarrow> bool \<Rightarrow> bool \<Rightarrow> nat \<Rightarrow> 'b transfer_state \<Rightarrow> 'b weight list \<Rightarrow> bool"
where
  \<comment> \<open>the sender has sent a bucket and waits for the answer\<close>
  "exchange c a early is_last sv st C =
     ((\<exists>msg. ch_msg st = Some msg \<and> cm_early msg = early \<and> cm_last msg = is_last \<and> cm_version msg = tc_version c
         \<and> list_all2 (entry_ok c a (tx_slot st) (shared st)) C (cm_meta msg) \<and> \<not> ch_ack st \<and> background sv st)
      \<or> (C = [] \<and> ch_msg st = None \<and>
         (if early then ch_ack st \<and> (rx_phase st = Idle \<or> rx_phase st = Loading False False \<and> sv = tx_slot st)
          else (\<not> ch_ack st \<and> rx_phase st = Loading True is_last)
            \<or> (ch_ack st \<and> rx_phase st = (if is_last then Received else Idle)))))"

fun is_loading :: "receiver_phase \<Rightarrow> bool" where
  "is_loading (Loading b l) = True"
| "is_loading _ = False"

definition control_ok ::
  "transfer_config \<Rightarrow> nat \<Rightarrow> nat \<Rightarrow> 'b transfer_state \<Rightarrow> 'b weight list \<Rightarrow> 'b weight list \<Rightarrow> 'b weight list \<Rightarrow> bool"
where
  \<comment> \<open>\<open>C\<close> travels in a message, \<open>M\<close> is packed, \<open>T\<close> is still to come\<close>
  "control_ok c a sv st C M T =
     (case tx_phase st of
        Filling \<Rightarrow> C = [] \<and> tx_todo st = T \<and> packed_ok c a st M \<and> ch_msg st = None \<and> \<not> ch_ack st \<and> background sv st
      | Wait_Flush \<Rightarrow> M = [] \<and> tx_todo st = T \<and> exchange c a (tc_double c) False sv st C
      | Wait_Direct \<Rightarrow> M = [] \<and> tx_meta st = [] \<and> tx_offset st = 0 \<and> tx_todo st \<noteq> [] \<and> tl (tx_todo st) = T \<and> exchange c a False False sv st C
      | Wait_Last \<Rightarrow> M = [] \<and> T = [] \<and> tx_todo st = [] \<and> exchange c a False True sv st C
      | Sent \<Rightarrow> C = [] \<and> M = [] \<and> T = [] \<and> ch_msg st = None \<and> \<not> ch_ack st \<and> rx_phase st = Received
      | Sender_Failed e \<Rightarrow> False)"

definition parts_ok ::
  "transfer_config \<Rightarrow> nat \<Rightarrow> 'b weight list \<Rightarrow> 'b transfer_state \<Rightarrow> 'b weight list \<Rightarrow> 'b weight list \<Rightarrow> 'b weight list
    \<Rightarrow> 'b weight list \<Rightarrow> 'b weight list \<Rightarrow> nat \<Rightarrow> bool"
where
  "parts_ok c a ws st L P C M T sv =
     (ws = L @ P @ C @ M @ T \<and> rx_loaded st = map item L \<and> list_all2 (view_ok c sv (shared st)) P (rx_views st)
      \<and> sv < num_slots c \<and> tx_slot st < num_slots c \<and> length (shared st) = num_slots c * tc_bucket c
      \<and> (\<not> is_loading (rx_phase st) \<longrightarrow> P = []) \<and> control_ok c a sv st C M T)"

definition transfer_inv :: "transfer_config \<Rightarrow> nat \<Rightarrow> 'b weight list \<Rightarrow> 'b transfer_state \<Rightarrow> bool" where
  "transfer_inv c a ws st = (\<exists>L P C M T sv. parts_ok c a ws st L P C M T sv)"

lemma parts_inv: "parts_ok c a ws st L P C M T sv \<Longrightarrow> transfer_inv c a ws st"
  unfolding transfer_inv_def by blast

lemma transfer_inv_start:
  assumes "length buf = num_slots c * tc_bucket c"
  shows "transfer_inv c a ws (start_transfer buf ws)"
  unfolding transfer_inv_def parts_ok_def
  by (rule exI [of _ "[]"], rule exI [of _ "[]"], rule exI [of _ "[]"], rule exI [of _ "[]"],
      rule exI [of _ ws], rule exI [of _ 0])
    (use assms in \<open>simp add: start_transfer_def control_ok_def packed_ok_def background_def num_slots_def\<close>)

section \<open>The sender keeps the invariant\<close>

lemma slots_disjoint:
  assumes "in_slot c s off n" "in_slot c s' off' n'" "s \<noteq> s'"
  shows "off + n \<le> off' \<or> off' + n' \<le> off"
proof (cases "s < s'")
  case True
  then have "s * tc_bucket c + tc_bucket c \<le> s' * tc_bucket c"
    by (metis Suc_leI add.commute mult_Suc mult_le_mono1)
  then show ?thesis using assms by (auto simp: in_slot_def)
next
  case False
  then have "s' * tc_bucket c + tc_bucket c \<le> s * tc_bucket c"
    using assms(3) by (metis Suc_leI add.commute linorder_neqE_nat mult_Suc mult_le_mono1)
  then show ?thesis using assms by (auto simp: in_slot_def)
qed

lemma view_ok_write:
  assumes "view_ok c s buf w v" "s \<noteq> s'" "in_slot c s' start (length bs)" "start + length bs \<le> length buf"
  shows "view_ok c s (write_at start bs buf) w v"
  using assms slots_disjoint [OF _ assms(3,2)]
  by (auto simp: view_ok_def slice_write_other split: tensor_view.splits)

lemma entry_ok_write:
  assumes "entry_ok c a s buf w (n, m)" "tm_offset m + length (w_bytes w) \<le> start" "start + length bs \<le> length buf"
  shows "entry_ok c a s (write_at start bs buf) w (n, m)"
  using assms by (auto simp: entry_ok_def holds_weight_def slice_write_other split: option.splits)

lemma slot_in_buffer:
  assumes "s < num_slots c" "in_slot c s off n"
  shows "off + n \<le> num_slots c * tc_bucket c"
proof -
  have "Suc s * tc_bucket c \<le> num_slots c * tc_bucket c" using assms(1) by (intro mult_le_mono1) simp
  then show ?thesis using assms(2) by (simp add: in_slot_def)
qed

lemma sendable_weight: "sendable c a ws \<Longrightarrow> w \<in> set ws \<Longrightarrow> weight_ok c a w"
  by (simp add: sendable_def list_all_iff)

lemma pack_weight_inv:
  assumes good: "sendable c a ws" and parts: "parts_ok c a ws st L P C M T sv"
    and fill: "tx_phase st = Filling" "tx_todo st = w # ws'"
    and fits: "tx_offset st + length (w_bytes w) \<le> tc_bucket c"
  shows "parts_ok c a ws (pack_weight c w ws' st) L P [] (M @ [w]) ws' sv"
proof -
  let ?start = "tx_slot st * tc_bucket c + tx_offset st" and ?bs = "w_bytes w"
  let ?e = "(w_name w, tensor_meta_of w ?start None)"
  have ctl: "C = []" "T = w # ws'" "packed_ok c a st M" "ch_msg st = None" "\<not> ch_ack st" "background sv st"
    using parts fill by (auto simp: parts_ok_def control_ok_def)
  have ws: "ws = L @ P @ (M @ [w]) @ ws'" using parts ctl by (simp add: parts_ok_def)
  have slot: "tx_slot st < num_slots c" and len: "length (shared st) = num_slots c * tc_bucket c"
    using parts by (simp_all add: parts_ok_def)
  have w: "weight_ok c a w" by (rule sendable_weight [OF good]) (simp add: ws)
  have ins: "in_slot c (tx_slot st) ?start (length ?bs)" using fits by (simp add: in_slot_def)
  then have room: "?start + length ?bs \<le> length (shared st)" unfolding len by (rule slot_in_buffer [OF slot])
  have views: "list_all2 (view_ok c sv (write_at ?start ?bs (shared st))) P (rx_views st)"
  proof (cases "rx_phase st = Idle")
    case True
    then show ?thesis using parts by (auto simp: parts_ok_def)
  next
    case False
    then have ne: "sv \<noteq> tx_slot st" using ctl(6) by (simp add: background_def)
    have old: "list_all2 (view_ok c sv (shared st)) P (rx_views st)" using parts by (simp add: parts_ok_def)
    show ?thesis by (rule list_all2_mono [OF old]) (rule view_ok_write [OF _ ne ins room])
  qed
  have p: "tx_offset st = sum_list (map (\<lambda>w. length (w_bytes w)) M)"
    "list_all2 (entry_ok c a (tx_slot st) (shared st)) M (tx_meta st)"
    "list_all (\<lambda>(_, m). tm_handle m = None
       \<and> tm_offset m + tm_itemsize m * prod_list (tm_shape m) \<le> ?start) (tx_meta st)"
    using ctl(3) unfolding packed_ok_def by blast+
  have "a dvd ?start"
  proof -
    have "a dvd length (w_bytes u)" if "u \<in> set M" for u
    proof -
      have "u \<in> set ws" using that ws by simp
      from sendable_weight [OF good this] show ?thesis unfolding weight_ok_def by blast
    qed
    then have "a dvd sum_list (map (\<lambda>w. length (w_bytes w)) M)" by (induction M) simp_all
    then show ?thesis using good p(1) by (simp add: sendable_def)
  qed
  then have new: "entry_ok c a (tx_slot st) (write_at ?start ?bs (shared st)) w ?e"
    using ins slice_write_same [OF room] by (simp add: entry_ok_def tensor_meta_of_def holds_weight_def)
  have old: "list_all2 (entry_ok c a (tx_slot st) (write_at ?start ?bs (shared st))) M (tx_meta st)"
  proof (rule list_all2_all_nthI)
    show "length M = length (tx_meta st)" using p(2) by (rule list_all2_lengthD)
    fix i assume i: "i < length M"
    obtain n m where nm: "tx_meta st ! i = (n, m)" by fastforce
    have e: "entry_ok c a (tx_slot st) (shared st) (M ! i) (n, m)" using list_all2_nthD [OF p(2) i] nm by simp
    have mi: "weight_ok c a (M ! i)" by (rule sendable_weight [OF good]) (use i ws in simp)
    have "tm_offset m + tm_itemsize m * prod_list (tm_shape m) \<le> ?start"
      using p(3) i nm list_all2_lengthD [OF p(2)] by (auto simp: list_all_length dest!: spec [of _ i])
    then have "tm_offset m + length (w_bytes (M ! i)) \<le> ?start" using e mi by (simp add: entry_ok_def weight_ok_def)
    then show "entry_ok c a (tx_slot st) (write_at ?start ?bs (shared st)) (M ! i) (tx_meta st ! i)"
      unfolding nm by (rule entry_ok_write [OF e _ room])
  qed
  have names: "map fst (tx_meta st) = map w_name M"
  proof (rule nth_equalityI)
    show "length (map fst (tx_meta st)) = length (map w_name M)" using list_all2_lengthD [OF p(2)] by simp
    show "map fst (tx_meta st) ! i = map w_name M ! i" if "i < length (map fst (tx_meta st))" for i
      using that list_all2_nthD2 [OF p(2), of i] list_all2_lengthD [OF p(2)] by (simp add: entry_ok_def)
  qed
  have "w_name w \<notin> set (map fst (tx_meta st))"
    using good by (simp only: names) (simp add: sendable_def ws)
  then have meta: "dict_set (w_name w) (tensor_meta_of w ?start None) (tx_meta st) = tx_meta st @ [?e]"
    by (rule dict_set_new)
  have "list_all (\<lambda>(_, m). tm_handle m = None \<and> tm_offset m + tm_itemsize m * prod_list (tm_shape m)
      \<le> ?start + length ?bs) (tx_meta st @ [?e])"
    using p(3) w by (auto simp: list_all_iff tensor_meta_of_def weight_ok_def)
  then have "packed_ok c a (pack_weight c w ws' st) (M @ [w])"
    using new old p(1) fits meta
    by (simp add: packed_ok_def pack_weight_def Let_def list_all2_appendI add.assoc)
  then show ?thesis
    using parts ctl fill views room len ws
    by (simp add: parts_ok_def control_ok_def pack_weight_def Let_def background_def)
qed

lemma filling_parts:
  assumes "parts_ok c a ws st L P C M T sv" "tx_phase st = Filling"
  shows "C = []" "tx_todo st = T" "packed_ok c a st M" "ch_msg st = None" "\<not> ch_ack st" "background sv st"
  using assms by (simp_all add: parts_ok_def control_ok_def)

lemma flush_inv:
  assumes "parts_ok c a ws st L P C M T sv" "tx_phase st = Filling"
  shows "parts_ok c a ws (flush_send c False st) L P M [] T sv"
    and "T = [] \<Longrightarrow> parts_ok c a ws (flush_send c True st) L P M [] [] sv"
  using assms filling_parts [OF assms]
  by (simp_all add: parts_ok_def control_ok_def exchange_def flush_send_def control_def packed_ok_def background_def)

lemma direct_inv:
  assumes "parts_ok c a ws st L P C M (w # T) sv" "tx_phase st = Filling" "tx_meta st = []"
  shows "parts_ok c a ws (direct_send c w st) L P [w] [] T sv"
proof -
  note f = filling_parts [OF assms(1,2)]
  have "M = []" using f(3) assms(3) by (simp add: packed_ok_def)
  then show ?thesis using assms f
    by (simp add: parts_ok_def control_ok_def exchange_def direct_send_def control_def packed_ok_def background_def
        entry_ok_def tensor_meta_of_def)
qed

lemma sender_step_inv:
  assumes good: "sendable c a ws" and inv: "transfer_inv c a ws st" and step: "sender_step c st = Some st'"
  shows "transfer_inv c a ws st'"
proof -
  obtain L P C M T sv where parts: "parts_ok c a ws st L P C M T sv" using inv by (auto simp: transfer_inv_def)
  have "\<exists>L P C M T sv. parts_ok c a ws st' L P C M T sv"
  proof (cases "tx_phase st")
    case Filling
    note f = filling_parts [OF parts Filling]
    show ?thesis
    proof (cases "tx_todo st")
      case Nil
      then have "st' = flush_send c True st" using step Filling by (simp add: sender_step_def)
      then show ?thesis using flush_inv(2) [OF parts Filling] f(2) Nil by blast
    next
      case (Cons w ws')
      let ?full = "tc_bucket c < tx_offset st + length (w_bytes w)"
      have T: "T = w # ws'" using f(2) Cons by simp
      consider "?full" "tx_meta st \<noteq> []" | "?full" "tx_meta st = []" | "\<not> ?full" by blast
      then show ?thesis
      proof cases
        case 1
        then have "st' = flush_send c False st" using step Filling Cons by (simp add: sender_step_def)
        then show ?thesis using flush_inv(1) [OF parts Filling] by blast
      next
        case 2
        have "weight_ok c a w" by (rule sendable_weight [OF good]) (use parts T in \<open>simp add: parts_ok_def\<close>)
        moreover have "tx_offset st = 0" using f(3) 2(2) by (simp add: packed_ok_def)
        ultimately have "\<not> tc_shm c" using 2(1) by (auto simp: weight_ok_def)
        then have "st' = direct_send c w st" using step Filling Cons 2 by (simp add: sender_step_def)
        then show ?thesis using direct_inv [OF parts [unfolded T] Filling 2(2)] by blast
      next
        case 3
        then have "st' = pack_weight c w ws' st" using step Filling Cons by (simp add: sender_step_def)
        then show ?thesis using pack_weight_inv [OF good parts Filling Cons] 3 by fastforce
      qed
    qed
  next
    case Wait_Flush
    then have ack: "ch_ack st" and st': "st' = st\<lparr>ch_ack := False, tx_slot := Suc (tx_slot st) mod num_slots c, tx_meta := [],
        tx_offset := 0, tx_phase := Filling\<rparr>"
      using step by (auto simp: sender_step_def split: if_splits)
    have "tx_slot st \<noteq> Suc (tx_slot st) mod 2" by presburger
    then have "parts_ok c a ws st' L P [] [] T sv"
      using parts Wait_Flush ack
      by (auto simp: st' parts_ok_def control_ok_def exchange_def packed_ok_def background_def num_slots_def split: if_splits)
    then show ?thesis by blast
  next
    case Wait_Direct
    then have ack: "ch_ack st" and st': "st' = st\<lparr>ch_ack := False, tx_todo := tl (tx_todo st), tx_phase := Filling\<rparr>"
      using step by (auto simp: sender_step_def split: if_splits)
    have "parts_ok c a ws st' L P [] [] T sv"
      using parts Wait_Direct ack
      by (auto simp: st' parts_ok_def control_ok_def exchange_def packed_ok_def background_def split: if_splits)
    then show ?thesis by blast
  next
    case Wait_Last
    then have ack: "ch_ack st" and st': "st' = st\<lparr>ch_ack := False, tx_slot := Suc (tx_slot st) mod num_slots c, tx_phase := Sent\<rparr>"
      using step by (auto simp: sender_step_def split: if_splits)
    have "parts_ok c a ws st' L P [] [] [] sv"
      using parts Wait_Last ack
      by (auto simp: st' parts_ok_def control_ok_def exchange_def num_slots_def split: if_splits)
    then show ?thesis by blast
  qed (use step in \<open>simp_all add: sender_step_def\<close>)
  then show ?thesis by (simp add: transfer_inv_def)
qed

section \<open>The receiver keeps the invariant\<close>

lemma view_of_entry:
  assumes "entry_ok c a s buf w (n, m)" "weight_ok c a w"
  shows "\<exists>v. view_of c buf m = Inr v \<and> view_ok c s buf w (n, v)"
proof (cases "tm_handle m")
  case None
  have "w_itemsize w dvd tm_offset m"
    using assms None by (auto simp: entry_ok_def holds_weight_def weight_ok_def intro: dvd_trans)
  then show ?thesis using assms None
    by (auto simp: view_of_def entry_ok_def weight_ok_def view_ok_def holds_weight_def Let_def mod_eq_0_iff_dvd)
next
  case (Some bs)
  then show ?thesis using assms by (auto simp: view_of_def entry_ok_def view_ok_def)
qed

lemma views_of_entries:
  assumes "list_all2 (entry_ok c a s buf) C meta" "list_all (weight_ok c a) C"
  shows "\<exists>views. map_result (\<lambda>(n, m). bind_result (view_of c buf m) (\<lambda>v. Inr (n, v))) meta = Inr views
    \<and> list_all2 (view_ok c s buf) C views"
  using assms
proof (induction rule: list_all2_induct)
  case (Cons w ws e es)
  obtain n m where e: "e = (n, m)" by (cases e)
  obtain v where v: "view_of c buf m = Inr v" "view_ok c s buf w (n, v)"
    using view_of_entry [of c a s buf w n m] Cons by (auto simp: e)
  obtain vs where "map_result (\<lambda>(n, m). bind_result (view_of c buf m) (\<lambda>v. Inr (n, v))) es = Inr vs"
      "list_all2 (view_ok c s buf) ws vs" using Cons by auto
  then show ?case using v by (simp add: e)
qed simp

lemma exchange_receive:
  assumes "exchange c a early is_last sv st C" "ch_msg st = Some msg" "rx_phase st = Idle"
  shows "cm_early msg = early" "cm_last msg = is_last" "cm_version msg = tc_version c"
    "list_all2 (entry_ok c a (tx_slot st) (shared st)) C (cm_meta msg)" "\<not> ch_ack st"
  using assms by (auto simp: exchange_def)

lemma received_exchange:
  assumes "sendable c a ws" "parts_ok c a ws st L P C M T sv" "exchange c a early is_last sv st C"
    and "ch_msg st = Some msg" "rx_phase st = Idle" "early \<Longrightarrow> \<not> is_last"
  shows "\<exists>views. receive_message c msg st
      = st\<lparr>ch_msg := None, ch_ack := early, rx_views := views, rx_phase := Loading (\<not> early) is_last\<rparr>
    \<and> list_all2 (view_ok c (tx_slot st) (shared st)) C views
    \<and> exchange c a early is_last (tx_slot st) (receive_message c msg st) []"
proof -
  note x = exchange_receive [OF assms(3-5)]
  have "list_all (weight_ok c a) C"
    using assms(1,2) by (auto simp: sendable_def parts_ok_def list_all_iff)
  from views_of_entries [OF x(4) this] obtain views where
    "map_result (\<lambda>(n, m). bind_result (view_of c (shared st) m) (\<lambda>v. Inr (n, v))) (cm_meta msg) = Inr views"
    "list_all2 (view_ok c (tx_slot st) (shared st)) C views" by blast
  then show ?thesis using assms(1,6) x
    by (cases early) (auto simp: receive_message_def sendable_def exchange_def background_def)
qed

lemma receive_inv:
  assumes good: "sendable c a ws" and parts: "parts_ok c a ws st L P C M T sv"
    and idle: "rx_phase st = Idle" and msg: "ch_msg st = Some msg"
  shows "parts_ok c a ws (receive_message c msg st) L C [] M T (tx_slot st)"
proof -
  have P: "P = []" using parts idle by (simp add: parts_ok_def)
  have "\<exists>early is_last. exchange c a early is_last sv st C \<and> (early \<longrightarrow> \<not> is_last) \<and> tx_phase st \<noteq> Filling \<and> tx_phase st \<noteq> Sent
      \<and> early = (tx_phase st = Wait_Flush \<and> tc_double c) \<and> is_last = (tx_phase st = Wait_Last)"
    using parts msg by (auto simp: parts_ok_def control_ok_def split: sender_phase.splits)
  then obtain early is_last where x: "exchange c a early is_last sv st C" "early \<longrightarrow> \<not> is_last"
      "tx_phase st \<noteq> Filling" "tx_phase st \<noteq> Sent" "early = (tx_phase st = Wait_Flush \<and> tc_double c)"
      "is_last = (tx_phase st = Wait_Last)" by blast
  obtain views where r: "receive_message c msg st
      = st\<lparr>ch_msg := None, ch_ack := early, rx_views := views, rx_phase := Loading (\<not> early) is_last\<rparr>"
    "list_all2 (view_ok c (tx_slot st) (shared st)) C views"
    "exchange c a early is_last (tx_slot st) (receive_message c msg st) []"
    using received_exchange [OF good parts x(1) msg idle] x(2) by blast
  have "control_ok c a (tx_slot st) (receive_message c msg st) [] M T"
    using parts r(3) x(3-6) unfolding parts_ok_def control_ok_def
    by (auto simp: r(1) split: sender_phase.splits)
  then show ?thesis using parts r(2) P by (simp add: parts_ok_def r(1))
qed

lemma load_inv:
  assumes parts: "parts_ok c a ws st L P C M T sv" and rx: "rx_phase st = Loading b l" "rx_views st = (n, sh, v) # vs"
    and st': "st' = st\<lparr>rx_views := vs, rx_loaded := rx_loaded st @ [(n, sh, read_view (shared st) v)]\<rparr>"
  shows "\<exists>w P'. P = w # P' \<and> parts_ok c a ws st' (L @ [w]) P' C M T sv"
proof -
  obtain w P' where P: "P = w # P'" "view_ok c sv (shared st) w (n, sh, v)" "list_all2 (view_ok c sv (shared st)) P' vs"
    using parts rx(2) by (auto simp: parts_ok_def list_all2_Cons2)
  have "(n, sh, read_view (shared st) v) = item w"
    using P(2) by (auto simp: view_ok_def item_def read_view_def split: tensor_view.splits)
  moreover have "control_ok c a sv st' C M T = control_ok c a sv st C M T"
    by (simp add: st' control_ok_def exchange_def background_def packed_ok_def split: sender_phase.split)
  ultimately show ?thesis using parts P rx(1) by (simp add: parts_ok_def st')
qed

lemma finish_inv:
  assumes parts: "parts_ok c a ws st L P C M T sv" and rx: "rx_phase st = Loading b l" "rx_views st = []"
    and st': "st' = st\<lparr>ch_ack := (ch_ack st \<or> b), rx_phase := (if l then Received else Idle)\<rparr>"
  shows "parts_ok c a ws st' L [] C M T sv"
proof -
  have "P = []" using parts rx(2) by (simp add: parts_ok_def)
  moreover have "control_ok c a sv st C M T" using parts by (simp add: parts_ok_def)
  then have "control_ok c a sv st' C M T"
    by (cases "tx_phase st"; cases b; cases l)
      (auto simp: st' rx control_ok_def exchange_def background_def packed_ok_def split: if_splits)
  ultimately show ?thesis using parts rx by (simp add: parts_ok_def st')
qed

lemma receiver_step_inv:
  assumes good: "sendable c a ws" and inv: "transfer_inv c a ws st" and step: "receiver_step c st = Some st'"
  shows "transfer_inv c a ws st'"
proof -
  obtain L P C M T sv where parts: "parts_ok c a ws st L P C M T sv" using inv by (auto simp: transfer_inv_def)
  show ?thesis
  proof (cases "rx_phase st")
    case Idle
    then obtain msg where msg: "ch_msg st = Some msg" and st': "st' = receive_message c msg st"
      using step by (auto simp: receiver_step_def)
    show ?thesis unfolding st' by (rule parts_inv [OF receive_inv [OF good parts Idle msg]])
  next
    case (Loading b l)
    show ?thesis
    proof (cases "rx_views st")
      case Nil
      then have "st' = st\<lparr>ch_ack := (ch_ack st \<or> b), rx_phase := (if l then Received else Idle)\<rparr>"
        using step Loading by (simp add: receiver_step_def)
      then show ?thesis by (rule parts_inv [OF finish_inv [OF parts Loading Nil]])
    next
      case (Cons x vs)
      obtain n sh v where x: "x = (n, sh, v)" by (cases x)
      have "st' = st\<lparr>rx_views := vs, rx_loaded := rx_loaded st @ [(n, sh, read_view (shared st) v)]\<rparr>"
        using step Loading Cons by (simp add: receiver_step_def x)
      from load_inv [OF parts Loading Cons [unfolded x] this]
      obtain w P' where "parts_ok c a ws st' (L @ [w]) P' C M T sv" by (elim exE conjE) (rule that)
      then show ?thesis by (rule parts_inv)
    qed
  qed (use step in \<open>simp_all add: receiver_step_def\<close>)
qed

lemma transfer_step_inv:
  assumes "sendable c a ws" "transfer_inv c a ws st" "transfer_step c st st'"
  shows "transfer_inv c a ws st'"
  using assms(3)
proof cases
  case sender
  then show ?thesis by (rule sender_step_inv [OF assms(1,2)])
next
  case receiver
  then show ?thesis by (rule receiver_step_inv [OF assms(1,2)])
qed

lemma transfer_run_inv:
  assumes "sendable c a ws"
  shows "transfer_run c n st st' \<Longrightarrow> transfer_inv c a ws st \<Longrightarrow> transfer_inv c a ws st'"
proof (induction rule: transfer_run.induct)
  case (step n st st' st'')
  show ?case by (rule transfer_step_inv [OF assms step.IH [OF step.prems] step.hyps(2)])
qed

section \<open>Every execution ends\<close>

definition sender_work :: "'b transfer_state \<Rightarrow> nat" where
  "sender_work st =
     10 * length (tx_todo st) +
     (case tx_phase st of
        Filling \<Rightarrow> 6 + length (tx_meta st) + (if tx_meta st = [] then 0 else 5)
      | Wait_Flush \<Rightarrow> 7 | Wait_Direct \<Rightarrow> 1 | Wait_Last \<Rightarrow> 1 | Sent \<Rightarrow> 0 | Sender_Failed e \<Rightarrow> 0)"

definition receiver_work :: "'b transfer_state \<Rightarrow> nat" where
  "receiver_work st =
     (case ch_msg st of None \<Rightarrow> 0 | Some msg \<Rightarrow> length (cm_meta msg) + 2) +
     (case rx_phase st of Loading b l \<Rightarrow> length (rx_views st) + 1 | _ \<Rightarrow> 0)"

lemma sender_step_work:
  assumes "parts_ok c a ws st L P C M T sv" "sender_step c st = Some st'"
  shows "sender_work st' + receiver_work st' < sender_work st + receiver_work st"
proof (cases "tx_phase st")
  case Filling
  have len: "length (dict_set k v d) \<le> Suc (length d)" for k :: string and v :: "'a tensor_meta" and d
    by (induction d) auto
  have "ch_msg st = None" by (rule filling_parts [OF assms(1) Filling])
  then show ?thesis using assms(2) Filling
      len [of "w_name (hd (tx_todo st))"
        "tensor_meta_of (hd (tx_todo st)) (tx_slot st * tc_bucket c + tx_offset st) None" "tx_meta st"]
    by (auto simp: sender_step_def sender_work_def receiver_work_def flush_send_def direct_send_def control_def
        pack_weight_def Let_def split: list.splits if_splits receiver_phase.split)
next
  case Wait_Direct
  then have "tx_todo st \<noteq> []" "tx_meta st = []" using assms(1) by (simp_all add: parts_ok_def control_ok_def)
  then show ?thesis using assms(2) Wait_Direct
    by (cases "tx_todo st") (auto simp: sender_step_def sender_work_def receiver_work_def split: if_splits receiver_phase.split)
qed (use assms(2) in \<open>auto simp: sender_step_def sender_work_def receiver_work_def split: if_splits receiver_phase.split\<close>)

lemma receiver_step_work:
  assumes "receiver_step c st = Some st'"
  shows "sender_work st' + receiver_work st' < sender_work st + receiver_work st"
proof (cases "rx_phase st")
  case Idle
  then obtain msg where msg: "ch_msg st = Some msg" "st' = receive_message c msg st"
    using assms by (auto simp: receiver_step_def)
  show ?thesis
  proof (cases "bind_result (check_bucket_version (cm_version msg) (tc_expected c)) (\<lambda>_.
             map_result (\<lambda>(name, m). bind_result (view_of c (shared st) m) (\<lambda>v. Inr (name, v))) (cm_meta msg))")
    case (Inl e)
    then have "st' = st\<lparr>ch_msg := None, rx_phase := Receiver_Failed e\<rparr>"
      unfolding msg(2) receive_message_def by (simp only: sum.case)
    then show ?thesis using Idle msg(1) by (simp add: sender_work_def receiver_work_def split: sender_phase.split)
  next
    case (Inr views)
    then have "st' = st\<lparr>ch_msg := None, ch_ack := cm_early msg, rx_views := views,
        rx_phase := Loading (\<not> cm_early msg) (cm_last msg)\<rparr>"
      unfolding msg(2) receive_message_def by (simp only: sum.case)
    moreover have "length views = length (cm_meta msg)"
      using Inr by (auto dest: map_result_length)
    ultimately show ?thesis using Idle msg(1) by (simp add: sender_work_def receiver_work_def split: sender_phase.split)
  qed
next
  case (Loading b l)
  then show ?thesis using assms
    by (auto simp: receiver_step_def sender_work_def receiver_work_def split: list.splits if_splits sender_phase.split)
qed (use assms in \<open>simp_all add: receiver_step_def\<close>)

lemma transfer_run_work:
  assumes "sendable c a ws"
  shows "transfer_run c n st st' \<Longrightarrow> transfer_inv c a ws st \<Longrightarrow>
    n + (sender_work st' + receiver_work st') \<le> sender_work st + receiver_work st"
proof (induction rule: transfer_run.induct)
  case (step n st st' st'')
  have inv: "transfer_inv c a ws st'" by (rule transfer_run_inv [OF assms step.hyps(1) step.prems])
  then obtain L P C M T sv where parts: "parts_ok c a ws st' L P C M T sv" unfolding transfer_inv_def by blast
  have "sender_work st'' + receiver_work st'' < sender_work st' + receiver_work st'"
    using step.hyps(2) by cases (rule sender_step_work [OF parts] receiver_step_work; assumption)+
  then show ?case using step.IH [OF step.prems] by linarith
qed simp

section \<open>No execution gets stuck\<close>

definition transfer_done :: "'b weight list \<Rightarrow> 'b transfer_state \<Rightarrow> bool" where
  "transfer_done ws st = (tx_phase st = Sent \<and> rx_phase st = Received \<and> rx_loaded st = map item ws)"

lemma exchange_progress:
  assumes "exchange c a early is_last sv st C"
  shows "ch_ack st \<or> receiver_step c st \<noteq> None"
proof (cases "rx_views st")
  case Nil
  then show ?thesis using assms by (auto simp: exchange_def background_def receiver_step_def split: if_splits)
next
  case (Cons x vs)
  then show ?thesis using assms
    by (cases x) (auto simp: exchange_def background_def receiver_step_def split: if_splits)
qed

lemma transfer_progress:
  assumes "transfer_inv c a ws st"
  shows "transfer_done ws st \<or> (\<exists>st'. transfer_step c st st')"
proof -
  obtain L P C M T sv where parts: "parts_ok c a ws st L P C M T sv" using assms unfolding transfer_inv_def by blast
  then have ctl: "control_ok c a sv st C M T" by (simp add: parts_ok_def)
  have "transfer_done ws st \<or> sender_step c st \<noteq> None \<or> receiver_step c st \<noteq> None"
  proof (cases "tx_phase st")
    case Filling
    then show ?thesis by (simp add: sender_step_def split: list.split)
  next
    case Wait_Flush
    then have "exchange c a (tc_double c) False sv st C" using ctl by (simp add: control_ok_def)
    from exchange_progress [OF this] show ?thesis using Wait_Flush by (auto simp: sender_step_def)
  next
    case Wait_Direct
    then have "exchange c a False False sv st C" using ctl by (simp add: control_ok_def)
    from exchange_progress [OF this] show ?thesis using Wait_Direct by (auto simp: sender_step_def)
  next
    case Wait_Last
    then have "exchange c a False True sv st C" using ctl by (simp add: control_ok_def)
    from exchange_progress [OF this] show ?thesis using Wait_Last by (auto simp: sender_step_def)
  next
    case Sent
    then show ?thesis using parts ctl by (simp add: parts_ok_def control_ok_def transfer_done_def)
  next
    case (Sender_Failed e)
    then show ?thesis using ctl by (simp add: control_ok_def)
  qed
  then show ?thesis by (auto simp: transfer_step_iff)
qed

lemma done_stuck: "transfer_done ws st \<Longrightarrow> \<not> transfer_step c st st'"
  by (auto simp: transfer_done_def transfer_step_iff sender_step_def receiver_step_def)

lemma transfer_inv_loaded:
  assumes "transfer_inv c a ws st"
  shows "\<exists>rest. map item ws = rx_loaded st @ rest"
    and "(\<forall>e. tx_phase st \<noteq> Sender_Failed e)"
    and "tx_phase st = Sent \<Longrightarrow> transfer_done ws st"
  using assms by (auto simp: transfer_inv_def parts_ok_def control_ok_def transfer_done_def)

text \<open>C6: the bucketed transfer. Let all element sizes divide \<open>a\<close>, and \<open>a\<close> the size of every weight and
  of a slot; names are distinct, the receiver expects the version sent and, with shared memory,
  every weight fits a slot. Then in every interleaving of sender and receiver, with one slot or
  two, what has been loaded is a prefix of the weights in order and byte for byte: no slot is
  overwritten while it is read. Every execution stops after at most \<open>10 * n + 6\<close> actions, and
  one that can go no further has loaded everything and ended both sides normally.\<close>

theorem bucket_transfer_correct:
  assumes "sendable c a ws" "length buf = num_slots c * tc_bucket c"
    and "transfer_run c n (start_transfer buf ws) st"
  shows "(\<exists>rest. map item ws = rx_loaded st @ rest) \<and> n \<le> 10 * length ws + 6
    \<and> ((\<nexists>st'. transfer_step c st st') \<longleftrightarrow> transfer_done ws st)"
proof -
  have start: "transfer_inv c a ws (start_transfer buf ws)" by (rule transfer_inv_start [OF assms(2)])
  have inv: "transfer_inv c a ws st" by (rule transfer_run_inv [OF assms(1,3) start])
  have "n \<le> 10 * length ws + 6"
    using transfer_run_work [OF assms(1,3) start]
    by (simp add: start_transfer_def sender_work_def receiver_work_def)
  moreover have "(\<nexists>st'. transfer_step c st st') \<longleftrightarrow> transfer_done ws st"
    using transfer_progress [OF inv] done_stuck by blast
  ultimately show ?thesis using transfer_inv_loaded(1) [OF inv] by blast
qed

definition transfer_sample :: "nat weight list" where
  "transfer_sample = map (\<lambda>(n, bs). \<lparr>w_name = n, w_shape = [length bs div 2], w_itemsize = 2, w_bytes = bs\<rparr>)
     [(''a'', [1, 2]), (''b'', [3, 4, 5, 6, 7, 8]), (''c'', [9, 10]), (''d'', [11, 12]), (''e'', [13, 14])]"

definition transfer_sample_config :: transfer_config where
  "transfer_sample_config = \<lparr>tc_bucket = 4, tc_double = True, tc_shm = False, tc_version = Some 7, tc_expected = Some 7\<rparr>"

lemma transfer_sample_ok:
  "sendable transfer_sample_config 2 transfer_sample"
  "length (replicate 8 (0 :: nat)) = num_slots transfer_sample_config * tc_bucket transfer_sample_config"
  by code_simp+

text \<open>One schedule of the sample, with its oversized second weight sent by handle.\<close>

definition transfer_sample_end :: "nat transfer_state" where
  "transfer_sample_end = run_alternating transfer_sample_config 56 (start_transfer (replicate 8 0) transfer_sample)"

lemma transfer_sample_done: "transfer_done transfer_sample transfer_sample_end"
  by code_simp

lemma run_prepend: "transfer_step c st st' \<Longrightarrow> transfer_run c n st' st'' \<Longrightarrow> transfer_run c (Suc n) st st''"
  by (rotate_tac 1, induction rule: transfer_run.induct) (auto intro: transfer_run.intros)

lemma run_alternating_run: "\<exists>n. transfer_run c n st (run_alternating c fuel st)"
proof (induction c fuel st rule: run_alternating.induct)
  case (2 c fuel st)
  show ?case
  proof (cases "sender_step c st")
    case None
    show ?thesis
    proof (cases "receiver_step c st")
      case None
      then show ?thesis using \<open>sender_step c st = None\<close> by (auto intro: transfer_run.none)
    next
      case (Some st')
      with None obtain n where "transfer_run c n st' (run_alternating c fuel st')" using 2 by auto
      then have "transfer_run c (Suc n) st (run_alternating c fuel st')"
        by (rule run_prepend [OF transfer_step.receiver [OF Some]])
      then show ?thesis using None Some by auto
    qed
  next
    case (Some st')
    then obtain n where "transfer_run c n st' (run_alternating c fuel st')" using 2 by auto
    then have "transfer_run c (Suc n) st (run_alternating c fuel st')"
      by (rule run_prepend [OF transfer_step.sender [OF Some]])
    then show ?thesis using Some by auto
  qed
qed (auto intro: transfer_run.none)

theorem bucket_transfer_correct_witness:
  "\<exists>n. transfer_run transfer_sample_config n (start_transfer (replicate 8 0) transfer_sample) transfer_sample_end
    \<and> n \<le> 56 \<and> (\<nexists>st'. transfer_step transfer_sample_config transfer_sample_end st')"
proof -
  obtain n where n: "transfer_run transfer_sample_config n (start_transfer (replicate 8 0) transfer_sample) transfer_sample_end"
    using run_alternating_run unfolding transfer_sample_end_def by blast
  have "length transfer_sample = 5" by (simp add: transfer_sample_def)
  with bucket_transfer_correct [OF transfer_sample_ok n] n transfer_sample_done show ?thesis by auto
qed

section \<open>What the conditions are for\<close>

text \<open>Offsets are not aligned: three bytes followed by a two-byte element make the receiver raise
  while it looks at the second tensor, and the sender waits for ever.\<close>

definition odd_transfer :: "nat transfer_state" where
  "odd_transfer = run_alternating (transfer_sample_config\<lparr>tc_bucket := 8\<rparr>) 20 (start_transfer (replicate 16 0)
     [\<lparr>w_name = ''scale'', w_shape = [3], w_itemsize = 1, w_bytes = [1, 2, 3]\<rparr>,
      \<lparr>w_name = ''weight'', w_shape = [1], w_itemsize = 2, w_bytes = [4, 5]\<rparr>])"

lemma misaligned_offset_fails:
  "rx_phase odd_transfer = Receiver_Failed RuntimeError" "tx_phase odd_transfer = Wait_Last" "rx_loaded odd_transfer = []"
  by code_simp+

text \<open>With shared memory a weight larger than a slot ends the sender with an AssertionError; with
  two slots that already happens to weights larger than half the configured bucket.\<close>

lemma oversized_with_shm:
  assumes "tc_shm c" "tx_phase st = Filling" "tx_todo st = w # ws" "tx_meta st = []"
    and "tc_bucket c < tx_offset st + length (w_bytes w)"
  shows "sender_step c st = Some (st\<lparr>tx_phase := Sender_Failed AssertionError\<rparr>)"
  using assms by (simp add: sender_step_def)

lemma double_buffer_halves: "2 * slot_bytes mb min_bytes True \<le> slot_bytes mb min_bytes False"
  by (simp add: slot_bytes_def)

text \<open>A bucket of another version is refused before anything of it is loaded.\<close>

lemma wrong_version_refused:
  assumes "rx_phase st = Idle" "ch_msg st = Some msg" "tc_expected c = Some e" "cm_version msg \<noteq> Some e"
  shows "receiver_step c st = Some (st\<lparr>ch_msg := None, rx_phase := Receiver_Failed RuntimeError\<rparr>)"
  using assms by (simp add: receiver_step_def receive_message_def check_bucket_version_def)

end
