(* ===== verification/Group_Stats.thy ===== *)
theory Group_Stats
  imports Complex_Main Py_Prelude
begin

text \<open>
  Means, deviations and groups of lists of real numbers, as torch computes them on one
  dimension, for the advantage estimators. Arithmetic is exact: the rounding of float32 is not
  modelled. A result torch would report as NaN is the error FloatingPointError.
\<close>

definition rmean :: "real list \<Rightarrow> real" where
  "rmean xs = sum_list xs / real (length xs)"

definition sq_dev :: "real list \<Rightarrow> real" where
  "sq_dev xs = sum_list (map (\<lambda>x. (x - rmean xs)\<^sup>2) xs)"

definition pop_std :: "real list \<Rightarrow> real" where
  \<comment> \<open>\<open>std(unbiased=False)\<close>\<close>
  "pop_std xs = sqrt (sq_dev xs / real (length xs))"

definition sample_std :: "real list \<Rightarrow> real" where
  \<comment> \<open>\<open>std()\<close> of at least two values\<close>
  "sample_std xs = sqrt (sq_dev xs / (real (length xs) - 1))"

definition groups_of :: "nat \<Rightarrow> 'a list \<Rightarrow> 'a list list" where
  \<comment> \<open>the rows of \<open>view(-1, g)\<close>\<close>
  "groups_of g xs = map (\<lambda>i. py_slice (i * g) (i * g + g) xs) [0..<length xs div g]"

definition members :: "nat \<Rightarrow> nat \<Rightarrow> nat \<Rightarrow> nat list" where
  \<comment> \<open>the positions of the group of \<open>i\<close> under \<open>np.arange(n) // g\<close>\<close>
  "members g n i = filter (\<lambda>j. j div g = i div g) [0..<n]"

definition tiny :: real where
  "tiny = 1 / 10 ^ 8"

lemma tiny_pos [simp]: "0 < tiny"
  by (simp add: tiny_def)

lemma max_tiny_pos [simp]: "0 < max x tiny" "max x tiny \<noteq> 0"
  by (simp_all add: less_max_iff_disj) (use tiny_pos in linarith)

lemma length_groups_of [simp]: "length (groups_of g xs) = length xs div g"
  by (simp add: groups_of_def)

lemma length_group:
  assumes "i < length xs div g"
  shows "length (groups_of g xs ! i) = g"
proof -
  have "Suc i * g \<le> length xs div g * g" using assms by (intro mult_le_mono1) simp
  also have "\<dots> \<le> length xs" by simp
  finally have "i * g + g \<le> length xs" by simp
  then show ?thesis using assms by (simp add: groups_of_def)
qed

lemma concat_groups:
  assumes "0 < g" "length xs mod g = 0"
  shows "concat (groups_of g xs) = xs"
proof -
  have "concat (map (\<lambda>i. py_slice (i * g) (Suc i * g) xs) [0..<length xs div g]) = xs"
    by (rule concat_slices_all) (use assms in \<open>auto simp: minus_mod_eq_div_mult [symmetric]\<close>)
  then show ?thesis by (simp add: groups_of_def add.commute)
qed

lemma members_block:
  assumes "n = k * g" "i < n"
  shows "members g n i = [i div g * g..<i div g * g + g]"
proof -
  have g: "0 < g" using assms by (cases g) auto
  have "i div g < k" using assms by (simp add: less_mult_imp_div_less)
  then have "Suc (i div g) * g \<le> k * g" by (intro mult_le_mono1) simp
  then have le: "i div g * g + g \<le> n" using assms by simp
  have "(j div g = i div g) = (i div g * g \<le> j \<and> j < i div g * g + g)" for j
  proof
    assume "j div g = i div g"
    then have "i div g * g + j mod g = j" by (metis div_mult_mod_eq)
    then show "i div g * g \<le> j \<and> j < i div g * g + g" using mod_less_divisor [OF g, of j] by linarith
  next
    assume "i div g * g \<le> j \<and> j < i div g * g + g"
    then show "j div g = i div g" by (intro div_nat_eqI) (simp_all add: mult.commute)
  qed
  then have f: "members g n i = filter (\<lambda>j. i div g * g \<le> j \<and> j < i div g * g + g) [0..<n]"
    by (simp add: members_def)
  have split: "[0..<n] = [0..<i div g * g] @ [i div g * g..<i div g * g + g] @ [i div g * g + g..<n]"
    using le by (metis add_leD1 le_add1 le_add_diff_inverse upt_add_eq_append zero_le)
  have "filter (\<lambda>j. i div g * g \<le> j \<and> j < i div g * g + g) [0..<i div g * g] = []"
    "filter (\<lambda>j. i div g * g \<le> j \<and> j < i div g * g + g) [i div g * g..<i div g * g + g] = [i div g * g..<i div g * g + g]"
    "filter (\<lambda>j. i div g * g \<le> j \<and> j < i div g * g + g) [i div g * g + g..<n] = []"
    by (auto simp: filter_empty_conv filter_id_conv)
  then show ?thesis by (simp only: f split filter_append append_Nil append_Nil2)
qed

lemma sum_centered: "xs \<noteq> [] \<Longrightarrow> sum_list (map (\<lambda>x. x - rmean xs) xs) = 0"
proof -
  have "sum_list (map (\<lambda>x. x - c) ys) = sum_list ys - real (length ys) * c" for c and ys :: "real list"
    by (induction ys) (simp_all add: algebra_simps)
  then show "xs \<noteq> [] \<Longrightarrow> sum_list (map (\<lambda>x. x - rmean xs) xs) = 0" by (simp add: rmean_def)
qed

lemma sum_list_divide: "sum_list (map (\<lambda>x. f x / c) xs) = sum_list (map f xs) / (c :: real)"
  by (induction xs) (simp_all add: add_divide_distrib)

lemma sum_list_nonneg_real: "(\<And>x. x \<in> set xs \<Longrightarrow> 0 \<le> f x) \<Longrightarrow> 0 \<le> sum_list (map f xs :: real list)"
  by (induction xs) simp_all

lemma sq_dev_nonneg [simp]: "0 \<le> sq_dev xs"
  unfolding sq_dev_def by (rule sum_list_nonneg_real) simp

lemma pop_std_nonneg [simp]: "0 \<le> pop_std xs"
  by (simp add: pop_std_def)

lemma sq_dev_zero_iff: "sq_dev xs = 0 \<longleftrightarrow> (\<forall>x \<in> set xs. x = rmean xs)"
proof -
  have "sum_list (map (\<lambda>x. (x - c)\<^sup>2) ys) = 0 \<longleftrightarrow> (\<forall>x \<in> set ys. x = c)" for c and ys :: "real list"
  proof (induction ys)
    case (Cons y ys)
    have "0 \<le> sum_list (map (\<lambda>x. (x - c)\<^sup>2) ys)" by (rule sum_list_nonneg_real) simp
    then show ?case using Cons by (simp add: add_nonneg_eq_0_iff)
  qed simp
  then show ?thesis by (simp add: sq_dev_def)
qed

lemma pop_std_zero_iff: "xs \<noteq> [] \<Longrightarrow> pop_std xs = 0 \<longleftrightarrow> (\<exists>c. \<forall>x \<in> set xs. x = c)"
proof
  assume "xs \<noteq> []" "pop_std xs = 0"
  then have "sq_dev xs = 0" by (simp add: pop_std_def)
  then show "\<exists>c. \<forall>x \<in> set xs. x = c" by (auto simp: sq_dev_zero_iff)
next
  assume ne: "xs \<noteq> []" and "\<exists>c. \<forall>x \<in> set xs. x = c"
  then obtain c where c: "\<forall>x \<in> set xs. x = c" by blast
  then have "xs = replicate (length xs) c" by (simp add: replicate_length_same)
  then have "sum_list xs = real (length xs) * c" by (metis sum_list_replicate)
  then have "rmean xs = c" using ne by (simp add: rmean_def)
  then have "sq_dev xs = 0" using c by (simp add: sq_dev_zero_iff)
  then show "pop_std xs = 0" by (simp add: pop_std_def)
qed

end
