(* ===== verification/Vocab_Probs.thy ===== *)
theory Vocab_Probs
  imports Group_Stats
begin

text \<open>
  \<open>lumenrl/utils/torch_functional.py\<close> and \<open>lumenrl/utils/vocab_parallel.py\<close>: probabilities,
  entropies and sums of squared probabilities of one row of logits, whole, in chunks of rows and
  sharded over tensor-parallel ranks. A sharded row is the list of the shards in rank order; an
  all-reduce gives every rank the reduction of the local values, so the functions return the one
  value all ranks hold. Arithmetic is exact.
\<close>

section \<open>One row of logits\<close>

definition logsumexp :: "real list \<Rightarrow> real" where
  "logsumexp zs = ln (sum_list (map exp zs))"

definition softmax :: "real list \<Rightarrow> real list" where
  "softmax zs = map (\<lambda>z. exp z / sum_list (map exp zs)) zs"

definition log_softmax :: "real list \<Rightarrow> real list" where
  "log_softmax zs = map (\<lambda>z. z - logsumexp zs) zs"

definition logprobs_from_logits :: "real list list \<Rightarrow> nat list \<Rightarrow> real list result" where
  \<comment> \<open>rows of logits and one label per row\<close>
  "logprobs_from_logits logits labels =
     (if length logits \<noteq> length labels then Inl RuntimeError
      else map_result (\<lambda>(zs, l). if l < length zs then Inr (log_softmax zs ! l) else Inl RuntimeError) (zip logits labels))"

definition entropy_row :: "real list \<Rightarrow> real" where
  "entropy_row zs = logsumexp zs - sum_list (map2 (*) (softmax zs) zs)"

definition entropy_from_logits :: "real list list \<Rightarrow> real list" where
  "entropy_from_logits logits = map entropy_row logits"

definition calculate_sum_pi_squared_from_logits :: "real list list \<Rightarrow> real list" where
  "calculate_sum_pi_squared_from_logits logits =
     map (\<lambda>zs. exp (logsumexp (map (\<lambda>z. 2 * z) zs) - 2 * logsumexp zs)) logits"

definition overwrite :: "nat \<Rightarrow> 'a list \<Rightarrow> 'a list \<Rightarrow> 'a list" where
  \<comment> \<open>\<open>xs[i:i + n] = ys\<close> for \<open>ys\<close> of the length of the slice\<close>
  "overwrite i ys xs = take i xs @ ys @ drop (i + length ys) xs"

definition chunk_starts :: "nat \<Rightarrow> int \<Rightarrow> nat list" where
  \<comment> \<open>\<open>range(0, n, c)\<close> for \<open>c\<close> not zero\<close>
  "chunk_starts n c = (if c < 0 then [] else filter (\<lambda>i. i mod nat c = 0) [0..<n])"

definition entropy_from_logits_with_chunking :: "real list list \<Rightarrow> int \<Rightarrow> real list result" where
  "entropy_from_logits_with_chunking logits chunk_size =
     (if chunk_size = 0 then Inl ValueError
      else Inr (foldl (\<lambda>entropy i. overwrite i (entropy_from_logits (py_slice i (i + nat chunk_size) logits)) entropy)
                  (replicate (length logits) 0) (chunk_starts (length logits) chunk_size)))"

definition clip_by_value :: "real \<Rightarrow> real \<Rightarrow> real \<Rightarrow> real" where
  "clip_by_value x min_val max_val = max (min x max_val) min_val"

section \<open>Rows sharded over the vocabulary\<close>

definition all_reduce_max :: "real list \<Rightarrow> real" where
  "all_reduce_max xs = foldl max (hd xs) (tl xs)"

definition shifted_exps :: "real list list \<Rightarrow> real \<times> real list list" where
  \<comment> \<open>\<open>logits_max\<close> and \<open>exp_shifted\<close>\<close>
  "shifted_exps shards =
     (let logits_max = all_reduce_max (map all_reduce_max shards)
      in (logits_max, map (map (\<lambda>z. exp (z - logits_max))) shards))"

definition vocab_parallel_entropy :: "real list list \<Rightarrow> real" where
  "vocab_parallel_entropy shards =
     (let (logits_max, exp_shifted) = shifted_exps shards;
          sum_exp = sum_list (map sum_list exp_shifted);
          log_sum_exp = ln sum_exp + logits_max;
          weighted_sum = sum_list (map2 (\<lambda>es zs. sum_list (map2 (*) es zs)) exp_shifted shards)
      in log_sum_exp - weighted_sum / sum_exp)"

definition vocab_parallel_sum_pi_squared :: "real list list \<Rightarrow> real" where
  "vocab_parallel_sum_pi_squared shards =
     (let (logits_max, exp_shifted) = shifted_exps shards;
          sum_exp = sum_list (map sum_list exp_shifted);
          sum_exp_squared = sum_list (map (\<lambda>es. sum_list (map (\<lambda>e. e ^ 2) es)) exp_shifted)
      in sum_exp_squared / sum_exp ^ 2)"

definition vocab_parallel_log_probs_from_logits ::
  "(real list list \<Rightarrow> nat \<Rightarrow> real) option \<Rightarrow> real list list list \<Rightarrow> nat list \<Rightarrow> real list result"
where
  \<comment> \<open>Megatron's \<open>vocab_parallel_cross_entropy\<close> of one token, if it is installed, is a parameter\<close>
  "vocab_parallel_log_probs_from_logits cross_entropy logits labels =
     (case cross_entropy of None \<Rightarrow> Inl ImportError | Some ce \<Rightarrow> Inr (map2 (\<lambda>shards l. - ce shards l) logits labels))"

section \<open>Softmax\<close>

lemma sum_exp_pos: "zs \<noteq> [] \<Longrightarrow> 0 < sum_list (map exp zs :: real list)"
proof (induction zs)
  case (Cons z zs)
  show ?case using Cons.IH by (cases "zs = []") (auto intro: add_pos_pos)
qed simp

lemma sum_list_div: "sum_list (map (\<lambda>x. f x / c) xs) = sum_list (map f xs) / (c :: real)"
  by (induction xs) (simp_all add: add_divide_distrib)

lemma exp_logsumexp: "zs \<noteq> [] \<Longrightarrow> exp (logsumexp zs) = sum_list (map exp zs)"
  by (simp add: logsumexp_def sum_exp_pos)

lemma exp_log_softmax: "zs \<noteq> [] \<Longrightarrow> map exp (log_softmax zs) = softmax zs"
  by (simp add: log_softmax_def softmax_def exp_diff exp_logsumexp)

lemma softmax_pos: "zs \<noteq> [] \<Longrightarrow> p \<in> set (softmax zs) \<Longrightarrow> 0 < p"
  by (auto simp: softmax_def sum_exp_pos)

lemma softmax_sum: "zs \<noteq> [] \<Longrightarrow> sum_list (softmax zs) = 1"
  using sum_exp_pos [of zs] by (simp add: softmax_def sum_list_div [of exp])

lemma length_softmax [simp]: "length (softmax zs) = length zs" "length (log_softmax zs) = length zs"
  by (simp_all add: softmax_def log_softmax_def)

lemma ln_softmax: "zs \<noteq> [] \<Longrightarrow> map ln (softmax zs) = log_softmax zs"
  using arg_cong [OF exp_log_softmax, of zs "map ln"] by (simp add: map_idI)

lemma log_softmax_nonpos:
  assumes "z \<in> set (log_softmax zs)"
  shows "z \<le> 0"
proof -
  obtain y where y: "y \<in> set zs" "z = y - logsumexp zs" using assms by (auto simp: log_softmax_def)
  then have "exp y \<le> sum_list (map exp zs)" by (intro member_le_sum_list) auto
  then have "exp y \<le> exp (logsumexp zs)" using y by (subst exp_logsumexp) auto
  then show ?thesis using y by simp
qed
section \<open>Relative entropy\<close>

definition rel_entropy :: "real list \<Rightarrow> real list \<Rightarrow> real" where
  "rel_entropy ps qs = sum_list (map2 (\<lambda>p q. p * (ln p - ln q)) ps qs)"

lemma rel_entropy_term:
  fixes a b :: real
  assumes "0 < a" "0 < b"
  shows "a - b \<le> a * (ln a - ln b) \<and> (a * (ln a - ln b) = a - b \<longleftrightarrow> a = b)"
proof -
  have pos: "0 < b / a" using assms by simp
  note strict = ln_eq_minus_one [OF pos]
  have "ln (b / a) \<le> b / a - 1" by (rule ln_le_minus_one [OF pos])
  moreover have "a = b" if "a * ln (b / a) = b - a"
  proof -
    have "ln (b / a) = b / a - 1" using that assms by (simp add: field_simps)
    then show ?thesis using strict assms by simp
  qed
  ultimately have "a * ln (b / a) \<le> b - a" "a * ln (b / a) = b - a \<Longrightarrow> a = b"
    using assms by (simp_all add: field_simps)
  then show ?thesis using assms by (auto simp: ln_div algebra_simps)
qed

lemma rel_entropy_lower:
  assumes "length ps = length qs" "\<forall>p \<in> set ps. 0 < p" "\<forall>q \<in> set qs. 0 < q"
  shows "sum_list ps - sum_list qs \<le> rel_entropy ps qs
    \<and> (rel_entropy ps qs = sum_list ps - sum_list qs \<longleftrightarrow> ps = qs)"
  using assms
proof (induction ps qs rule: list_induct2)
  case (Cons p ps q qs)
  then have ih: "sum_list ps - sum_list qs \<le> rel_entropy ps qs"
    "rel_entropy ps qs = sum_list ps - sum_list qs \<longleftrightarrow> ps = qs" by simp_all
  have hd: "p - q \<le> p * (ln p - ln q)" "p * (ln p - ln q) = p - q \<longleftrightarrow> p = q"
    using rel_entropy_term [of p q] Cons.prems by simp_all
  have "rel_entropy (p # ps) (q # qs) = p * (ln p - ln q) + rel_entropy ps qs"
    by (simp add: rel_entropy_def)
  then show ?case using ih hd by (smt (verit) list.inject sum_list.Cons)
qed (simp add: rel_entropy_def)

lemma rel_entropy_nonneg:
  assumes "length ps = length qs" "\<forall>p \<in> set ps. 0 < p" "\<forall>q \<in> set qs. 0 < q" "sum_list ps = sum_list qs"
  shows "0 \<le> rel_entropy ps qs" and "rel_entropy ps qs = 0 \<longleftrightarrow> ps = qs"
  using rel_entropy_lower [OF assms(1,2,3)] assms(4) by simp_all

lemma rel_entropy_softmax:
  assumes "xs \<noteq> []" "length xs = length ys"
  shows "0 \<le> rel_entropy (softmax xs) (softmax ys)"
    and "rel_entropy (softmax xs) (softmax ys) = 0 \<longleftrightarrow> softmax xs = softmax ys"
    and "rel_entropy (softmax xs) (softmax ys)
      = sum_list (map2 (\<lambda>p (s, t). p * (s - t)) (softmax xs) (zip (log_softmax xs) (log_softmax ys)))"
proof -
  have ys: "ys \<noteq> []" using assms by auto
  note facts = softmax_pos [OF assms(1)] softmax_pos [OF ys] softmax_sum [OF assms(1)] softmax_sum [OF ys]
  show "0 \<le> rel_entropy (softmax xs) (softmax ys)" "rel_entropy (softmax xs) (softmax ys) = 0 \<longleftrightarrow> softmax xs = softmax ys"
    by (rule rel_entropy_nonneg; use assms facts in simp)+
  show "rel_entropy (softmax xs) (softmax ys)
      = sum_list (map2 (\<lambda>p (s, t). p * (s - t)) (softmax xs) (zip (log_softmax xs) (log_softmax ys)))"
    unfolding rel_entropy_def ln_softmax [OF assms(1), symmetric] ln_softmax [OF ys, symmetric]
    by (rule arg_cong [where f = sum_list], rule nth_equalityI) (simp_all add: assms)
qed

section \<open>Entropy\<close>

lemma sum_list_add_mult: "length ws = length xs \<Longrightarrow> sum_list (map2 (\<lambda>w x. w * (x - c)) ws xs) = sum_list (map2 (*) ws xs) - c * sum_list (ws :: real list)"
  by (induction ws xs rule: list_induct2) (simp_all add: algebra_simps)

lemma entropy_row_eq:
  assumes "zs \<noteq> []"
  shows "entropy_row zs = - sum_list (map (\<lambda>p. p * ln p) (softmax zs))"
proof -
  have "map (\<lambda>p. p * ln p) (softmax zs) = map2 (*) (softmax zs) (map ln (softmax zs))"
    by (simp add: zip_map2 zip_same_conv_map)
  also have "\<dots> = map2 (\<lambda>w x. w * (x - logsumexp zs)) (softmax zs) zs"
    by (simp add: ln_softmax [OF assms] log_softmax_def zip_map2 case_prod_unfold)
  finally show ?thesis
    using sum_list_add_mult [of "softmax zs" zs "logsumexp zs"] softmax_sum [OF assms] by (simp add: entropy_row_def)
qed

lemma sum_squares_of_softmax:
  assumes "zs \<noteq> []"
  shows "exp (logsumexp (map (\<lambda>z. 2 * z) zs) - 2 * logsumexp zs) = sum_list (map (\<lambda>p. p\<^sup>2) (softmax zs))"
proof -
  let ?S = "sum_list (map exp zs)"
  have "exp (logsumexp (map (\<lambda>z. 2 * z) zs) - 2 * logsumexp zs) = sum_list (map (\<lambda>z. (exp z)\<^sup>2) zs) / ?S\<^sup>2"
    using assms by (simp add: exp_diff exp_logsumexp exp_double comp_def)
  also have "\<dots> = sum_list (map (\<lambda>z. (exp z / ?S)\<^sup>2) zs)"
    by (simp add: power_divide sum_list_div [of "\<lambda>z. (exp z)\<^sup>2"])
  finally show ?thesis by (simp add: softmax_def comp_def)
qed

lemma entropy_row_bounds:
  assumes "zs \<noteq> []"
  shows "0 \<le> entropy_row zs \<and> entropy_row zs \<le> ln (real (length zs))"
proof
  have "p * ln p \<le> 0" if "p \<in> set (softmax zs)" for p
  proof -
    have "p \<le> sum_list (softmax zs)"
      using that softmax_pos [OF assms] by (intro member_le_sum_list) (auto intro: less_imp_le)
    then show ?thesis using softmax_pos [OF assms that] softmax_sum [OF assms]
      by (simp add: mult_nonneg_nonpos)
  qed
  then have "sum_list (map (\<lambda>p. p * ln p) (softmax zs)) \<le> sum_list (map (\<lambda>p. 0) (softmax zs))"
    by (intro sum_list_mono) simp
  then show "0 \<le> entropy_row zs" by (simp add: entropy_row_eq [OF assms])
  let ?n = "real (length zs)"
  let ?us = "replicate (length zs) (1 / ?n)"
  have n: "0 < ?n" using assms by simp
  have "0 \<le> rel_entropy (softmax zs) ?us"
    using softmax_pos [OF assms] softmax_sum [OF assms] n
    by (intro rel_entropy_nonneg(1)) (auto simp: sum_list_replicate)
  also have "rel_entropy (softmax zs) ?us = sum_list (map (\<lambda>p. p * (ln p + ln ?n)) (softmax zs))"
    using n by (simp add: rel_entropy_def zip_replicate2 ln_div comp_def)
  also have "\<dots> = sum_list (map (\<lambda>p. p * ln p) (softmax zs)) + ln ?n * sum_list (softmax zs)"
    by (simp add: distrib_left sum_list_addf sum_list_mult_const)
  finally show "entropy_row zs \<le> ln ?n" by (simp add: entropy_row_eq [OF assms] softmax_sum [OF assms])
qed
section \<open>Chunks of rows\<close>

lemma chunk_starts_step:
  assumes "0 < c" "0 < n"
  shows "chunk_starts n (int c) = 0 # map (\<lambda>i. i + c) (chunk_starts (n - c) (int c))"
proof -
  have small: "filter (\<lambda>i. i mod c = 0) [1..<m] = []" if "m \<le> c" for m
    using that by (auto simp: filter_empty_conv)
  show ?thesis
  proof (cases "n \<le> c")
    case True
    then show ?thesis using assms small [OF True] by (simp add: chunk_starts_def upt_conv_Cons)
  next
    case False
    then have "[0..<n] = [0..<c] @ map (\<lambda>i. i + c) [0..<n - c]"
      using upt_add_eq_append [of 0 c "n - c"] by (simp add: map_add_upt)
    then have "[0..<n] = 0 # [1..<c] @ map (\<lambda>i. i + c) [0..<n - c]"
      using assms(1) by (simp add: upt_conv_Cons)
    then show ?thesis using small [of c] assms by (simp add: chunk_starts_def filter_map comp_def)
  qed
qed

lemma overwrite_shift: "overwrite (i + length pre) ys (pre @ xs) = pre @ overwrite i ys xs"
  by (simp add: overwrite_def add.commute add.left_commute)

lemma foldl_overwrite_shift:
  "foldl (\<lambda>acc i. overwrite i (f i) acc) (pre @ xs) (map (\<lambda>i. i + length pre) is)
    = pre @ foldl (\<lambda>acc i. overwrite i (f (i + length pre)) acc) xs is"
  by (induction "is" arbitrary: xs) (simp_all add: overwrite_shift)

lemma chunked_map:
  assumes "0 < c"
  shows "foldl (\<lambda>acc i. overwrite i (map f (py_slice i (i + c) rows)) acc) (replicate (length rows) z)
    (chunk_starts (length rows) (int c)) = map f rows"
proof (induction "length rows" arbitrary: rows rule: less_induct)
  case less
  show ?case
  proof (cases "rows = []")
    case True
    then show ?thesis by (simp add: chunk_starts_def)
  next
    case False
    let ?pre = "map f (take c rows)" and ?rest = "drop c rows"
    have first: "overwrite 0 (map f (py_slice 0 c rows)) (replicate (length rows) z)
        = ?pre @ replicate (length ?rest) z"
      by (simp add: overwrite_def py_slice_def min_def)
    have later: "py_slice (i + length ?pre) (i + length ?pre + c) rows = py_slice i (i + c) ?rest" if "?rest \<noteq> []" for i
      using that by (simp add: py_slice_def min_def add.commute add.left_commute drop_take)
    show ?thesis
    proof (cases "?rest = []")
      case True
      then have "length rows \<le> c" by simp
      then show ?thesis using first False chunk_starts_step [OF assms, of "length rows"]
        by (simp add: chunk_starts_def)
    next
      case rest: False
      then have c: "length ?pre = c" by simp
      have "foldl (\<lambda>acc i. overwrite i (map f (py_slice i (i + c) rows)) acc) (?pre @ replicate (length ?rest) z)
          (map (\<lambda>i. i + length ?pre) (chunk_starts (length ?rest) (int c)))
        = ?pre @ foldl (\<lambda>acc i. overwrite i (map f (py_slice i (i + c) ?rest)) acc) (replicate (length ?rest) z)
          (chunk_starts (length ?rest) (int c))"
        unfolding foldl_overwrite_shift later [OF rest] ..
      also have "\<dots> = map f (take c rows) @ map f ?rest" using less [of ?rest] assms False by simp
      also have "\<dots> = map f rows" by (metis append_take_drop_id map_append)
      finally show ?thesis using first chunk_starts_step [OF assms, of "length rows"] False c by simp
    qed
  qed
qed

lemma entropy_chunked:
  "0 < chunk_size \<Longrightarrow> entropy_from_logits_with_chunking logits chunk_size = Inr (entropy_from_logits logits)"
  using chunked_map [of "nat chunk_size" entropy_row logits 0]
  by (simp add: entropy_from_logits_with_chunking_def entropy_from_logits_def)

lemma negative_chunk_size:
  "chunk_size < 0 \<Longrightarrow> entropy_from_logits_with_chunking logits chunk_size = Inr (replicate (length logits) 0)"
  by (simp add: entropy_from_logits_with_chunking_def chunk_starts_def)

text \<open>Entropies of logits: every chunk size gives the same entropies as the unchunked
  computation, each the Shannon entropy of the softmax of its row, between zero and the logarithm
  of the vocabulary size; the sum of squared probabilities is that of the same distribution.\<close>

lemma entropy_is_shannon:
  assumes "0 < chunk_size" "\<forall>zs \<in> set logits. zs \<noteq> []"
  shows "entropy_from_logits_with_chunking logits chunk_size = Inr (entropy_from_logits logits)"
    and "entropy_from_logits logits = map (\<lambda>zs. - sum_list (map (\<lambda>p. p * ln p) (softmax zs))) logits"
    and "\<forall>i < length logits. 0 \<le> entropy_from_logits logits ! i
           \<and> entropy_from_logits logits ! i \<le> ln (real (length (logits ! i)))"
    and "calculate_sum_pi_squared_from_logits logits = map (\<lambda>zs. sum_list (map (\<lambda>p. p\<^sup>2) (softmax zs))) logits"
proof -
  show "entropy_from_logits_with_chunking logits chunk_size = Inr (entropy_from_logits logits)"
    by (rule entropy_chunked [OF assms(1)])
  show "entropy_from_logits logits = map (\<lambda>zs. - sum_list (map (\<lambda>p. p * ln p) (softmax zs))) logits"
    using assms(2) by (simp add: entropy_from_logits_def entropy_row_eq)
  show "\<forall>i < length logits. 0 \<le> entropy_from_logits logits ! i
           \<and> entropy_from_logits logits ! i \<le> ln (real (length (logits ! i)))"
    using assms(2) by (simp add: entropy_from_logits_def entropy_row_bounds)
  show "calculate_sum_pi_squared_from_logits logits = map (\<lambda>zs. sum_list (map (\<lambda>p. p\<^sup>2) (softmax zs))) logits"
    using assms(2) sum_squares_of_softmax by (simp add: calculate_sum_pi_squared_from_logits_def)
qed
section \<open>Sharded rows\<close>

lemma all_reduce_max_ge:
  assumes "xs \<noteq> []"
  shows "all_reduce_max xs \<in> set xs" and "x \<in> set xs \<Longrightarrow> x \<le> all_reduce_max xs"
proof -
  have fold: "foldl max a ys \<in> insert a (set ys) \<and> (\<forall>y \<in> insert a (set ys). y \<le> foldl max a ys)" for a :: real and ys
  proof (induction ys arbitrary: a)
    case (Cons y ys)
    show ?case using Cons.IH [of "max a y"] by (auto simp: max_def split: if_splits)
  qed simp
  obtain a ys where "xs = a # ys" using assms by (cases xs) auto
  then show "all_reduce_max xs \<in> set xs" "x \<in> set xs \<Longrightarrow> x \<le> all_reduce_max xs"
    using fold [of a ys] by (auto simp: all_reduce_max_def)
qed

lemma sum_concat_rows: "sum_list (map (\<lambda>xs. sum_list (map f xs)) xss) = (sum_list (map f (concat xss)) :: real)"
  by (induction xss) simp_all

lemma shifted_row:
  fixes m :: real
  assumes "zs \<noteq> []"
  shows "ln (sum_list (map (\<lambda>z. exp (z - m)) zs)) + m = logsumexp zs"
    and "map (\<lambda>z. exp (z - m) / sum_list (map (\<lambda>z. exp (z - m)) zs)) zs = softmax zs"
proof -
  have sum: "sum_list (map (\<lambda>z. exp (z - m)) zs) = sum_list (map exp zs) / exp m"
    by (simp add: exp_diff sum_list_div [of exp])
  then show "ln (sum_list (map (\<lambda>z. exp (z - m)) zs)) + m = logsumexp zs"
    using sum_exp_pos [OF assms] by (simp add: ln_div logsumexp_def)
  show "map (\<lambda>z. exp (z - m) / sum_list (map (\<lambda>z. exp (z - m)) zs)) zs = softmax zs"
    unfolding sum by (simp add: softmax_def exp_diff)
qed

lemma vocab_parallel_run:
  assumes "concat shards = zs" "zs \<noteq> []"
  shows "vocab_parallel_entropy shards = entropy_row zs
    \<and> vocab_parallel_sum_pi_squared shards = exp (logsumexp (map (\<lambda>z. 2 * z) zs) - 2 * logsumexp zs)"
proof -
  obtain m where m: "shifted_exps shards = (m, map (map (\<lambda>z. exp (z - m))) shards)"
    by (auto simp: shifted_exps_def Let_def)
  let ?S = "sum_list (map (\<lambda>z. exp (z - m)) zs)"
  have zip_self: "map2 (\<lambda>es zs. sum_list (map2 (*) es zs)) (map (map f) xss) xss
      = map (\<lambda>xs. sum_list (map (\<lambda>x. f x * x) xs)) xss" for f :: "real \<Rightarrow> real" and xss
    by (simp add: zip_map1 zip_same_conv_map comp_def)
  have sums: "sum_list (map sum_list (map (map (\<lambda>z. exp (z - m))) shards)) = ?S"
    using sum_concat_rows [of "\<lambda>z. exp (z - m)" shards] assms(1) by (simp add: comp_def)
  have weighted: "sum_list (map2 (\<lambda>es zs. sum_list (map2 (*) es zs)) (map (map (\<lambda>z. exp (z - m))) shards) shards) / ?S
      = sum_list (map2 (*) (softmax zs) zs)"
    unfolding zip_self sum_concat_rows assms(1) shifted_row(2) [OF assms(2), of m, symmetric]
    by (simp add: zip_map1 zip_same_conv_map comp_def sum_list_div [symmetric])
  have squares: "sum_list (map (\<lambda>es. sum_list (map (\<lambda>e. e ^ 2) es)) (map (map (\<lambda>z. exp (z - m))) shards)) / ?S ^ 2
      = sum_list (map (\<lambda>p. p\<^sup>2) (softmax zs))"
    using sum_concat_rows [of "\<lambda>z. (exp (z - m))\<^sup>2" shards] assms(1)
    unfolding shifted_row(2) [OF assms(2), of m, symmetric]
    by (simp add: comp_def power_divide sum_list_div)
  show ?thesis
    unfolding vocab_parallel_entropy_def vocab_parallel_sum_pi_squared_def m Let_def prod.case sums weighted squares
      entropy_row_def sum_squares_of_softmax [OF assms(2)] shifted_row(1) [OF assms(2), of m]
    by simp
qed

text \<open>C30: a row of logits sharded over the vocabulary. However a non-empty row is cut into shards,
  the all-reduced entropy and sum of squared probabilities are those of the whole row, the latter
  being the sum over its softmax; the logits subtracted for stability are an upper bound of the
  row, so no exponential exceeds one.\<close>

theorem vocab_parallel_matches_whole:
  assumes "concat shards = zs" "\<forall>s \<in> set shards. s \<noteq> []" "shards \<noteq> []"
  shows "vocab_parallel_entropy shards = - sum_list (map (\<lambda>p. p * ln p) (softmax zs))
    \<and> [vocab_parallel_entropy shards] = entropy_from_logits [zs]
    \<and> vocab_parallel_sum_pi_squared shards = sum_list (map (\<lambda>p. p\<^sup>2) (softmax zs))
    \<and> [vocab_parallel_sum_pi_squared shards] = calculate_sum_pi_squared_from_logits [zs]
    \<and> (\<forall>es \<in> set (snd (shifted_exps shards)). \<forall>e \<in> set es. 0 < e \<and> e \<le> 1)"
proof -
  have ne: "zs \<noteq> []" using assms by (cases shards) auto
  have "z \<le> all_reduce_max (map all_reduce_max shards)" if "s \<in> set shards" "z \<in> set s" for s z
  proof -
    have "z \<le> all_reduce_max s" using all_reduce_max_ge(2) [of s z] that assms(2) by simp
    also have "\<dots> \<le> all_reduce_max (map all_reduce_max shards)"
      using all_reduce_max_ge(2) [of "map all_reduce_max shards"] that(1) assms(3) by simp
    finally show ?thesis .
  qed
  then have "\<forall>es \<in> set (snd (shifted_exps shards)). \<forall>e \<in> set es. 0 < e \<and> e \<le> 1"
    by (auto simp: shifted_exps_def Let_def)
  then show ?thesis
    using vocab_parallel_run [OF assms(1) ne] entropy_row_eq [OF ne] sum_squares_of_softmax [OF ne]
    by (simp add: entropy_from_logits_def calculate_sum_pi_squared_from_logits_def)
qed

theorem vocab_parallel_matches_whole_witness:
  "[vocab_parallel_entropy [[1, 2], [3 :: real]]] = entropy_from_logits [[1, 2, 3]]"
proof -
  have "concat [[1, 2], [3]] = [1, 2, 3 :: real]" "\<forall>s \<in> set [[1, 2], [3 :: real]]. s \<noteq> []" "[[1, 2], [3 :: real]] \<noteq> []"
    by simp_all
  from vocab_parallel_matches_whole [OF this] show ?thesis by (elim conjE)
qed

end
