(* ===== verification/Advantages.thy ===== *)
theory Advantages
  imports Group_Stats
begin

text \<open>
  \<open>lumenrl/algorithms/advantage_estimators.py\<close>: the advantage estimators. Every estimator is a
  function of the tensors it reads from the batch, None standing for a missing tensor: rewards
  are the vector of one scalar per row that \<open>squeeze(-1)\<close> leaves (the estimators that accept
  token rewards take a list per row), masks are lists of booleans, and \<open>g\<close> is the number of
  generations per prompt that the metadata or the configuration gives. Log messages are not
  modelled.
\<close>

section \<open>Helpers\<close>

definition of_mask :: "bool \<Rightarrow> real" where
  "of_mask b = (if b then 1 else 0)"

definition masked_whiten :: "real list list \<Rightarrow> bool list list \<Rightarrow> bool \<Rightarrow> real list list" where
  "masked_whiten vals msk shift_mean =
     (let valid = map snd (filter fst (zip (concat msk) (concat vals)))
      in if length valid < 2 then vals
         else let mean = (if shift_mean then rmean valid else 0);
                  std = max (sample_std valid) tiny
              in map2 (map2 (\<lambda>v m. (v - mean) / std * of_mask m)) vals msk)"

definition response_mask_from_batch :: "'m option \<Rightarrow> 'm option \<Rightarrow> 'm option" where
  \<comment> \<open>the tensors \<open>response_mask\<close> and \<open>attention_mask\<close>\<close>
  "response_mask_from_batch response attention =
     (case response of Some m \<Rightarrow> Some m | None \<Rightarrow> attention)"

definition mask_count :: "bool list \<Rightarrow> nat" where
  "mask_count m = length (filter (\<lambda>b. b) m)"

definition last_token_index :: "bool list \<Rightarrow> nat" where
  \<comment> \<open>\<open>_last_token_indices\<close> of one row; zero when the row has no token\<close>
  "last_token_index m = mask_count m - 1"

definition scalar_rewards_to_token_rewards :: "real list \<Rightarrow> bool list list \<Rightarrow> real list list result" where
  "scalar_rewards_to_token_rewards rewards msk =
     (let rs = (if length rewards = 1 then replicate (length msk) (hd rewards) else rewards)
      in if length rs \<noteq> length msk then Inl RuntimeError
         else map_result (\<lambda>(r, m). if m = [] then Inl IndexError
                                   else Inr ((replicate (length m) 0)[last_token_index m := r])) (zip rs msk))"

fun gae_scan :: "real \<Rightarrow> real list \<Rightarrow> bool list \<Rightarrow> real list" where
  \<comment> \<open>the loop over \<open>range(seq - 1, -1, -1)\<close> on one row: \<open>last = delta[t] + c * m[t] * last\<close>\<close>
  "gae_scan c (d # ds) (m # ms) =
     (let rest = gae_scan c ds ms; last_gae = (case rest of [] \<Rightarrow> 0 | a # _ \<Rightarrow> a)
      in (d + c * of_mask m * last_gae) # rest)"
| "gae_scan c _ _ = []"

definition next_values :: "real list \<Rightarrow> bool list \<Rightarrow> real list" where
  \<comment> \<open>the values shifted by one, with a zero at index \<open>length - 1\<close>, which is the last column for a
      row without tokens\<close>
  "next_values vals m =
     (let rolled = (case vals of [] \<Rightarrow> [] | v # vs \<Rightarrow> vs @ [v]); n = mask_count m
      in rolled[(if n = 0 then length vals - 1 else n - 1) := 0])"

definition gae_deltas :: "real \<Rightarrow> real list \<Rightarrow> real list \<Rightarrow> bool list \<Rightarrow> real list" where
  "gae_deltas gamma rewards vals m =
     map (\<lambda>t. rewards ! t + gamma * next_values vals m ! t * of_mask (m ! t) - vals ! t) [0..<length vals]"

definition gae_row ::
  "real \<Rightarrow> real \<Rightarrow> real list \<Rightarrow> real list \<Rightarrow> bool list \<Rightarrow> real list \<times> real list"
where
  \<comment> \<open>advantages and returns of one row of \<open>_gae_returns\<close>\<close>
  "gae_row gamma lam rewards vals m =
     (let adv = gae_scan (gamma * lam) (gae_deltas gamma rewards vals m) m
      in (map2 (\<lambda>a b. a * of_mask b) adv m, map2 (\<lambda>(a, v) b. (a + v) * of_mask b) (zip adv vals) m))"

definition same_shape :: "'a list list \<Rightarrow> 'b list list \<Rightarrow> bool" where
  "same_shape xss yss = (map length xss = map length yss)"

definition gae_returns ::
  "real \<Rightarrow> real \<Rightarrow> real list list \<Rightarrow> real list list \<Rightarrow> bool list list \<Rightarrow> (real list list \<times> real list list) result"
where
  \<comment> \<open>tensors of other shapes are refused; broadcasting of single rows or columns is not modelled\<close>
  "gae_returns gamma lam token_rewards vals msk =
     (if \<not> same_shape token_rewards vals \<or> \<not> same_shape vals msk then Inl RuntimeError
      else if list_ex (\<lambda>v. v = []) vals then Inl IndexError
      else let rows = map (\<lambda>(r, v, m). gae_row gamma lam r v m) (zip token_rewards (zip vals msk))
           in Inr (map fst rows, map snd rows))"

definition apply_overlong_shaping :: "real list \<Rightarrow> nat list option \<Rightarrow> int \<Rightarrow> real \<Rightarrow> real list" where
  "apply_overlong_shaping rewards lengths max_len penalty =
     (if penalty \<le> 0 then rewards
      else case lengths of
             None \<Rightarrow> rewards
           | Some ls \<Rightarrow>
               if length ls \<noteq> length rewards then rewards
               else map2 (\<lambda>r l. r - penalty * max (real l - real_of_int max_len) 0) rewards ls)"

section \<open>Group-relative estimators\<close>

definition normalise_group :: "real list \<Rightarrow> real list" where
  "normalise_group xs = map (\<lambda>x. (x - rmean xs) / max (pop_std xs) tiny) xs"

definition check_groups :: "nat \<Rightarrow> real list \<Rightarrow> unit result" where
  "check_groups g rewards =
     (if g = 0 then Inl ZeroDivisionError
      else if length rewards mod g \<noteq> 0 then Inl ValueError else Inr ())"

definition compute_grpo_advantage :: "nat \<Rightarrow> real list option \<Rightarrow> real list result" where
  "compute_grpo_advantage g rewards =
     (case rewards of
        None \<Rightarrow> Inl KeyError
      | Some rs \<Rightarrow> bind_result (check_groups g rs) (\<lambda>_. Inr (concat (map normalise_group (groups_of g rs)))))"

definition overlong_buffer_penalty :: "nat list \<Rightarrow> int \<Rightarrow> int \<Rightarrow> real \<Rightarrow> real list" where
  \<comment> \<open>\<open>lumenrl/algorithms/dapo_sampling.py\<close>\<close>
  "overlong_buffer_penalty lengths max_resp_len buffer_len penalty_factor =
     (if buffer_len \<le> 0 \<or> penalty_factor = 0 then replicate (length lengths) 0
      else map (\<lambda>l. min (- (real l - real_of_int (max_resp_len - buffer_len)) / real_of_int buffer_len * penalty_factor) 0)
             lengths)"

record dapo_config =
  da_num_generations :: nat
  da_overlong_buffer :: "(int \<times> real) option"   \<comment> \<open>length and factor, when the buffer is enabled\<close>
  da_max_resp_len :: int                          \<comment> \<open>zero when unset\<close>
  da_max_response_length :: int                   \<comment> \<open>of the policy\<close>
  da_overlong_reward_shaping :: bool
  da_max_total_length :: int
  da_dynamic_sampling :: bool

definition dapo_rewards :: "dapo_config \<Rightarrow> nat list option \<Rightarrow> real \<Rightarrow> real list \<Rightarrow> real list" where
  \<comment> \<open>\<open>lengths\<close> and \<open>penalty\<close> are \<open>response_lengths\<close> and \<open>overlong_penalty\<close> of the metadata\<close>
  "dapo_rewards cfg lengths penalty rewards =
     (case da_overlong_buffer cfg of
        Some (buffer_len, factor) \<Rightarrow>
          (case lengths of
             None \<Rightarrow> rewards
           | Some ls \<Rightarrow>
               let max_resp = (if da_max_resp_len cfg \<noteq> 0 then da_max_resp_len cfg else da_max_response_length cfg);
                   pen = overlong_buffer_penalty ls max_resp buffer_len factor
               in if length pen = length rewards then map2 (+) rewards pen else rewards)
      | None \<Rightarrow>
          if da_overlong_reward_shaping cfg
          then apply_overlong_shaping rewards lengths (da_max_total_length cfg) penalty
          else rewards)"

definition dapo_group :: "real list \<Rightarrow> real list" where
  "dapo_group xs = map (\<lambda>x. (x - rmean xs) / max (sample_std xs) tiny) xs"

definition dapo_keep :: "dapo_config \<Rightarrow> real list list \<Rightarrow> bool list" where
  "dapo_keep cfg grouped =
     (if da_dynamic_sampling cfg
      then let keep = map (\<lambda>xs. 1 / 10 ^ 6 < pop_std xs) grouped
           in if list_ex (\<lambda>b. b) keep then keep else map (\<lambda>_. True) grouped
      else map (\<lambda>_. True) grouped)"

definition compute_dapo_advantage ::
  "dapo_config \<Rightarrow> nat list option \<Rightarrow> real \<Rightarrow> real list option \<Rightarrow> (real list \<times> bool list) result"
where
  \<comment> \<open>the advantages and \<open>dapo_sample_mask\<close>; the sample deviation of one value is NaN\<close>
  "compute_dapo_advantage cfg lengths penalty rewards =
     (case rewards of
        None \<Rightarrow> Inl KeyError
      | Some rs \<Rightarrow>
          let g = da_num_generations cfg
          in bind_result (check_groups g rs) (\<lambda>_.
             let grouped = groups_of g (dapo_rewards cfg lengths penalty rs)
             in if g = 1 \<and> rs \<noteq> [] then Inl FloatingPointError
                else Inr (concat (map dapo_group grouped),
                          concat (map (replicate g) (dapo_keep cfg grouped)))))"

definition rloo_group :: "real list \<Rightarrow> real list" where
  "rloo_group xs = map (\<lambda>x. x - (sum_list xs - x) / (real (length xs) - 1)) xs"

definition expand_rows :: "real list \<Rightarrow> bool list list \<Rightarrow> real list list" where
  \<comment> \<open>\<open>adv.unsqueeze(-1) * mask.float()\<close>\<close>
  "expand_rows adv msk = map2 (\<lambda>a ms. map (\<lambda>m. a * of_mask m) ms) adv msk"

definition compute_rloo_advantage ::
  "nat \<Rightarrow> bool list list option \<Rightarrow> bool list list option \<Rightarrow> real list option \<Rightarrow> real list list result"
where
  \<comment> \<open>for one generation the baseline is \<open>0 / 0\<close>\<close>
  "compute_rloo_advantage g response attention rewards =
     (case rewards of
        None \<Rightarrow> Inl KeyError
      | Some rs \<Rightarrow>
          bind_result (check_groups g rs) (\<lambda>_.
            case response_mask_from_batch response attention of
              None \<Rightarrow> Inl KeyError
            | Some msk \<Rightarrow>
                if length msk \<noteq> length rs then Inl RuntimeError
                else if g = 1 \<and> rs \<noteq> [] then Inl FloatingPointError
                else Inr (masked_whiten (expand_rows (concat (map rloo_group (groups_of g rs))) msk) msk True)))"

section \<open>Token-level estimators\<close>

definition compute_gae_advantage ::
  "real \<Rightarrow> real \<Rightarrow> real list list option \<Rightarrow> bool list list option \<Rightarrow> bool list list option \<Rightarrow> (real list + real list list) option
    \<Rightarrow> (real list list \<times> real list list) result"
where
  \<comment> \<open>rewards are a scalar per row (\<open>Inl\<close>) or a list per row (\<open>Inr\<close>)\<close>
  "compute_gae_advantage discount gae_lambda vals response attention rewards =
     (case vals of
        None \<Rightarrow> Inl KeyError
      | Some vs \<Rightarrow>
          (case rewards of
             None \<Rightarrow> Inl KeyError
           | Some rw \<Rightarrow>
               (case response_mask_from_batch response attention of
                  None \<Rightarrow> Inl KeyError
                | Some msk \<Rightarrow>
                    bind_result
                      (case rw of
                         Inl rs \<Rightarrow> scalar_rewards_to_token_rewards rs msk
                       | Inr rows \<Rightarrow> if same_shape rows vs then Inr rows else Inl ValueError)
                      (\<lambda>token_rewards. gae_returns discount gae_lambda token_rewards vs msk))))"

definition compute_reinforce_plus_plus_advantage ::
  "real \<Rightarrow> bool list list option \<Rightarrow> bool list list option \<Rightarrow> real list option \<Rightarrow> real list list result"
where
  "compute_reinforce_plus_plus_advantage discount response attention rewards =
     (case rewards of
        None \<Rightarrow> Inl KeyError
      | Some rs \<Rightarrow>
          (case response_mask_from_batch response attention of
             None \<Rightarrow> Inl KeyError
           | Some msk \<Rightarrow>
               bind_result (scalar_rewards_to_token_rewards rs msk) (\<lambda>token_rewards.
                 Inr (masked_whiten (map2 (gae_scan discount) token_rewards msk) msk True))))"

fun suffix_sums :: "real list \<Rightarrow> real list" where
  \<comment> \<open>\<open>flip\<close>, \<open>cumsum\<close>, \<open>flip\<close>\<close>
  "suffix_sums [] = []"
| "suffix_sums (x # xs) = (x + sum_list xs) # suffix_sums xs"

definition compute_remax_advantage ::
  "real list option \<Rightarrow> real list list \<Rightarrow> bool list list \<Rightarrow> real list list \<times> real list list"
where
  \<comment> \<open>advantages and returns, from token rewards of the shape of the mask\<close>
  "compute_remax_advantage baselines rewards msk =
     (let returns = map2 (\<lambda>rs ms. suffix_sums (map2 (\<lambda>r m. r * of_mask m) rs ms)) rewards msk;
          bs = (case baselines of None \<Rightarrow> replicate (length rewards) 0 | Some bs \<Rightarrow> bs)
      in (map2 (\<lambda>(ret, b) ms. map2 (\<lambda>x m. x - b * of_mask m) ret ms) (zip returns bs) msk, returns))"

section \<open>Estimators on group indices\<close>

datatype advantage = Per_Row "real list" | Per_Token "real list list"

definition spread_rows :: "bool list list option \<Rightarrow> real list \<Rightarrow> advantage" where
  \<comment> \<open>the last lines these estimators share\<close>
  "spread_rows msk adv = (case msk of None \<Rightarrow> Per_Row adv | Some m \<Rightarrow> Per_Token (expand_rows adv m))"

definition group_scores :: "nat \<Rightarrow> real list \<Rightarrow> nat \<Rightarrow> real list" where
  \<comment> \<open>\<open>id2score[index[i]]\<close>\<close>
  "group_scores g rs i = map (\<lambda>j. rs ! j) (members g (length rs) i)"

definition group_mean :: "nat \<Rightarrow> real list \<Rightarrow> nat \<Rightarrow> real" where
  "group_mean g rs i = (let s = group_scores g rs i in if length s \<le> 1 then 0 else rmean s)"

definition compute_grpo_vectorized_advantage ::
  "nat \<Rightarrow> bool \<Rightarrow> bool list list option \<Rightarrow> real list \<Rightarrow> advantage result"
where
  "compute_grpo_vectorized_advantage g norm_by_std msk rewards =
     (if g = 0 \<or> length rewards mod g \<noteq> 0 then Inl RuntimeError
      else Inr (spread_rows msk (concat (map (\<lambda>xs. if norm_by_std then normalise_group xs else map (\<lambda>x. x - rmean xs) xs)
                                         (groups_of g rewards)))))"

definition best_two :: "real list \<Rightarrow> real \<times> real \<times> nat" where
  \<comment> \<open>\<open>torch.topk(r, 2)\<close> of at least two values, with the position of the first\<close>
  "best_two r = (let s = rev (sort r); i = length (takeWhile (\<lambda>x. x \<noteq> hd s) r) in (hd s, s ! 1, i))"

definition passk_advantage :: "nat \<Rightarrow> real list \<Rightarrow> nat \<Rightarrow> real" where
  \<comment> \<open>the final value of \<open>advantages[i]\<close>; ties for the best have a difference of zero, so their
      order does not matter\<close>
  "passk_advantage g rs i =
     (let r = group_scores g rs i
      in if length r < 2 then 0
         else (case best_two r of (best, second, p) \<Rightarrow>
                 if members g (length rs) i ! p = i then (best - second) / max (sample_std r) tiny else 0))"

definition compute_grpo_passk_advantage :: "nat \<Rightarrow> bool list list option \<Rightarrow> real list \<Rightarrow> advantage" where
  "compute_grpo_passk_advantage g msk rewards = spread_rows msk (map (passk_advantage g rewards) [0..<length rewards])"

definition baseline_scores :: "nat \<Rightarrow> real list \<Rightarrow> real list" where
  "baseline_scores g rs = map (\<lambda>i. rs ! i - group_mean g rs i) [0..<length rs]"

definition compute_reinforce_pp_baseline_advantage :: "nat \<Rightarrow> bool list list option \<Rightarrow> real list \<Rightarrow> advantage" where
  "compute_reinforce_pp_baseline_advantage g msk rewards =
     (let scores = baseline_scores g rewards
      in case msk of
           None \<Rightarrow> Per_Row scores
         | Some m \<Rightarrow> Per_Token (map2 (map2 (\<lambda>a b. a * of_mask b)) (masked_whiten (expand_rows scores m) m True) m))"

definition opo_baseline :: "nat \<Rightarrow> real list \<Rightarrow> real list \<Rightarrow> nat \<Rightarrow> real" where
  "opo_baseline g rs ls i =
     (let s = group_scores g rs i; l = group_scores g ls i
      in if length s \<le> 1 then 0 else sum_list (map2 (*) l s) / max (sum_list l) 1)"

definition compute_opo_advantage :: "nat \<Rightarrow> bool list list option \<Rightarrow> real list \<Rightarrow> advantage" where
  "compute_opo_advantage g msk rewards =
     (let ls = (case msk of None \<Rightarrow> replicate (length rewards) 1 | Some m \<Rightarrow> map (\<lambda>r. real (mask_count r)) m)
      in spread_rows msk (map (\<lambda>i. rewards ! i - opo_baseline g rewards ls i) [0..<length rewards]))"

definition compute_gpg_advantage :: "nat \<Rightarrow> bool list list option \<Rightarrow> real list \<Rightarrow> advantage" where
  "compute_gpg_advantage g msk rewards =
     (let alpha = real (length rewards) / real (max (length (filter (\<lambda>x. x \<noteq> 0) rewards)) 1)
      in spread_rows msk (map (\<lambda>x. alpha * x) (baseline_scores g rewards)))"

definition rloo_vectorized_at :: "nat \<Rightarrow> real list \<Rightarrow> nat \<Rightarrow> real" where
  "rloo_vectorized_at g rs i =
     (let s = group_scores g rs i; c = real (length s)
      in (c * rs ! i - sum_list s) / max (c - 1) 1 * of_mask (1 < length s))"

definition compute_rloo_vectorized_advantage :: "nat \<Rightarrow> bool list list option \<Rightarrow> real list \<Rightarrow> advantage result" where
  \<comment> \<open>the largest group index of no rows raises\<close>
  "compute_rloo_vectorized_advantage g msk rewards =
     (if rewards = [] then Inl RuntimeError
      else Inr (spread_rows msk (map (rloo_vectorized_at g rewards) [0..<length rewards])))"

section \<open>Groups of equal size\<close>

lemma nth_concat_uniform:
  "list_all (\<lambda>ys. length ys = g) yss \<Longrightarrow> 0 < g \<Longrightarrow> i < length yss * g \<Longrightarrow>
   concat yss ! i = yss ! (i div g) ! (i mod g)"
proof (induction yss arbitrary: i)
  case (Cons ys yss)
  show ?case
  proof (cases "i < g")
    case True
    then show ?thesis using Cons.prems by (simp add: nth_append)
  next
    case False
    then have "concat (ys # yss) ! i = concat yss ! (i - g)" using Cons.prems by (simp add: nth_append)
    also have "\<dots> = yss ! ((i - g) div g) ! ((i - g) mod g)" by (rule Cons.IH) (use Cons.prems False in auto)
    also have "(i - g) mod g = i mod g" using False by (simp add: le_mod_geq)
    also have "yss ! ((i - g) div g) = (ys # yss) ! (i div g)"
      using False Cons.prems(2) by (simp add: le_div_geq)
    finally show ?thesis .
  qed
qed simp

lemma group_lengths: "list_all (\<lambda>ys. length ys = g) (groups_of g xs)"
  by (simp add: list_all_length length_group)

lemma groups_of_concat:
  assumes "list_all (\<lambda>ys. length ys = g) yss" "0 < g"
  shows "groups_of g (concat yss) = yss"
proof -
  have len: "length (concat yss) = length yss * g"
    using assms(1) by (induction yss) simp_all
  have "py_slice (i * g) (i * g + g) (concat yss) = yss ! i" if "i < length yss" for i
  proof -
    have t: "sum_list (map length (take j yss)) = j * g" if "j \<le> length yss" for j
      using assms(1) that by (induction j) (simp_all add: take_Suc_conv_app_nth list_all_length)
    have "py_slice (sum_list (map length (take i yss))) (sum_list (map length (take (Suc i) yss))) (concat yss) = yss ! i"
    proof -
      have "concat yss = concat (take i yss) @ yss ! i @ concat (drop (Suc i) yss)"
        using that by (metis append_take_drop_id concat.simps(2) concat_append Cons_nth_drop_Suc)
      moreover have "length (concat (take i yss)) = sum_list (map length (take i yss))" by (simp add: length_concat)
      ultimately show ?thesis using that by (simp add: py_slice_def take_Suc_conv_app_nth)
    qed
    then show ?thesis using that t [of i] t [of "Suc i"] by (simp add: add.commute)
  qed
  then show ?thesis using len assms(2) by (intro nth_equalityI) (simp_all add: groups_of_def)
qed

lemma group_scores_block:
  assumes "length rs = k * g" "i < length rs"
  shows "group_scores g rs i = groups_of g rs ! (i div g)"
proof -
  have g: "0 < g" using assms by (cases g) auto
  have ik: "i div g < k" using assms by (simp add: less_mult_imp_div_less)
  then have "Suc (i div g) * g \<le> k * g" by (intro mult_le_mono1) simp
  then have le: "i div g * g + g \<le> length rs" using assms(1) by simp
  have "group_scores g rs i = map (\<lambda>j. rs ! j) [i div g * g..<i div g * g + g]"
    by (simp only: group_scores_def members_block [OF assms])
  also have "\<dots> = py_slice (i div g * g) (i div g * g + g) rs" by (rule py_slice_nths [OF le, symmetric])
  finally show ?thesis using ik assms(1) g by (simp add: groups_of_def)
qed

section \<open>Group normalisation\<close>

lemma check_groups_ok: "0 < g \<Longrightarrow> length rs mod g = 0 \<Longrightarrow> check_groups g rs = Inr ()"
  by (simp add: check_groups_def)

lemma sum_normalised: "sum_list (normalise_group xs) = 0"
proof (cases "xs = []")
  case False
  then show ?thesis using sum_centered [of xs] by (simp add: normalise_group_def sum_list_divide)
qed (simp add: normalise_group_def)

lemma normalised_unit:
  assumes "xs \<noteq> []" "tiny \<le> pop_std xs"
  shows "sum_list (map (\<lambda>a. a\<^sup>2) (normalise_group xs)) = real (length xs)"
proof -
  have p: "0 < pop_std xs" using assms(2) tiny_pos by linarith
  have sq: "(pop_std xs)\<^sup>2 = sq_dev xs / real (length xs)" by (simp add: pop_std_def)
  have n: "0 < real (length xs)" using assms(1) by simp
  have "0 < (pop_std xs)\<^sup>2" using p by simp
  then have d: "0 < sq_dev xs" using n by (simp add: sq zero_less_divide_iff)
  have "sum_list (map (\<lambda>a. a\<^sup>2) (normalise_group xs)) = sq_dev xs / (pop_std xs)\<^sup>2"
    using assms(2) by (simp add: normalise_group_def comp_def power_divide sum_list_divide sq_dev_def max_def)
  also have "\<dots> = real (length xs)" using d n by (simp add: sq)
  finally show ?thesis .
qed

lemma normalised_order:
  "i < length xs \<Longrightarrow> j < length xs \<Longrightarrow> xs ! i < xs ! j \<Longrightarrow> normalise_group xs ! i < normalise_group xs ! j"
  by (simp add: normalise_group_def divide_strict_right_mono)

lemma normalised_constant:
  assumes "xs \<noteq> []" "\<forall>x \<in> set xs. x = c"
  shows "normalise_group xs = replicate (length xs) 0"
proof -
  have "pop_std xs = 0" using pop_std_zero_iff [OF assms(1)] assms(2) by blast
  then have "sq_dev xs = 0" using assms(1) by (simp add: pop_std_def)
  then have "\<forall>x \<in> set xs. x - rmean xs = 0" by (simp add: sq_dev_zero_iff)
  then show ?thesis
    by (intro nth_equalityI) (simp_all add: normalise_group_def)
qed

text \<open>GRPO advantages. For rewards in groups of \<open>g\<close> the advantages of every group sum to zero,
  rank its members as their rewards do, have mean square one whenever the deviation of the group
  is not below the clamp, and vanish when all rewards of the group are equal; any other batch
  size raises ValueError.\<close>

theorem grpo_normalises:
  assumes "0 < g"
  shows "if length rs mod g \<noteq> 0 then compute_grpo_advantage g (Some rs) = Inl ValueError
    else \<exists>adv. compute_grpo_advantage g (Some rs) = Inr adv \<and> length adv = length rs
      \<and> (\<forall>k < length rs div g. let xs = groups_of g rs ! k; as = groups_of g adv ! k in
           sum_list as = 0
         \<and> (\<forall>i < g. \<forall>j < g. xs ! i < xs ! j \<longrightarrow> as ! i < as ! j)
         \<and> (tiny \<le> pop_std xs \<longrightarrow> sum_list (map (\<lambda>a. a\<^sup>2) as) = real g)
         \<and> (\<forall>c. set xs = {c} \<longrightarrow> as = replicate g 0))"
proof (cases "length rs mod g = 0")
  case True
  let ?adv = "concat (map normalise_group (groups_of g rs))"
  have run: "compute_grpo_advantage g (Some rs) = Inr ?adv"
    by (simp add: compute_grpo_advantage_def check_groups_ok [OF assms True])
  have "list_all (\<lambda>ys. length ys = g) (map normalise_group (groups_of g rs))"
    using group_lengths [of g rs] by (simp add: list_all_iff normalise_group_def)
  then have groups: "groups_of g ?adv = map normalise_group (groups_of g rs)" by (rule groups_of_concat [OF _ assms])
  have "map length (map normalise_group (groups_of g rs)) = map length (groups_of g rs)" by (simp add: normalise_group_def)
  then have "length ?adv = length (concat (groups_of g rs))" by (simp only: length_concat)
  then have len: "length ?adv = length rs" by (simp only: concat_groups [OF assms True])
  have "let xs = groups_of g rs ! k; as = groups_of g ?adv ! k in
           sum_list as = 0
         \<and> (\<forall>i < g. \<forall>j < g. xs ! i < xs ! j \<longrightarrow> as ! i < as ! j)
         \<and> (tiny \<le> pop_std xs \<longrightarrow> sum_list (map (\<lambda>a. a\<^sup>2) as) = real g)
         \<and> (\<forall>c. set xs = {c} \<longrightarrow> as = replicate g 0)" if "k < length rs div g" for k
  proof -
    have l: "length (groups_of g rs ! k) = g" by (rule length_group [OF that])
    then have ne: "groups_of g rs ! k \<noteq> []" using assms by auto
    have n: "groups_of g ?adv ! k = normalise_group (groups_of g rs ! k)" using that groups by simp
    show ?thesis unfolding Let_def n
      using l ne sum_normalised normalised_order [of _ "groups_of g rs ! k"] normalised_unit [OF ne]
        normalised_constant [OF ne] by auto
  qed
  with run len True show ?thesis by auto
next
  case False
  then show ?thesis using assms by (simp add: compute_grpo_advantage_def check_groups_def)
qed

theorem grpo_normalises_witness:
  "\<exists>adv. compute_grpo_advantage 2 (Some [1, 3, 5, 5]) = Inr adv \<and> length adv = 4
    \<and> sum_list (groups_of 2 adv ! 0) = 0 \<and> groups_of 2 adv ! 1 = [0, 0]"
proof -
  have g: "groups_of 2 [1, 3, 5, 5 :: real] = [[1, 3], [5, 5]]"
    by (simp add: groups_of_def py_slice_def upt_rec)
  have "\<exists>adv. compute_grpo_advantage 2 (Some [1, 3, 5, 5]) = Inr adv \<and> length adv = length [1, 3, 5, 5 :: real]
      \<and> (\<forall>k < length [1, 3, 5, 5 :: real] div 2. let xs = groups_of 2 [1, 3, 5, 5] ! k; as = groups_of 2 adv ! k in
           sum_list as = 0
         \<and> (\<forall>i < 2. \<forall>j < 2. xs ! i < xs ! j \<longrightarrow> as ! i < as ! j)
         \<and> (tiny \<le> pop_std xs \<longrightarrow> sum_list (map (\<lambda>a. a\<^sup>2) as) = real 2)
         \<and> (\<forall>c. set xs = {c} \<longrightarrow> as = replicate 2 0))"
    using grpo_normalises [of 2 "[1, 3, 5, 5]"] by simp
  then obtain adv where adv: "compute_grpo_advantage 2 (Some [1, 3, 5, 5]) = Inr adv" "length adv = 4"
    and at: "\<And>k. k < 2 \<Longrightarrow> sum_list (groups_of 2 adv ! k) = 0
      \<and> (\<forall>c. set ([[1, 3], [5, 5 :: real]] ! k) = {c} \<longrightarrow> groups_of 2 adv ! k = replicate 2 0)"
    by (auto simp: g Let_def)
  then show ?thesis using at [of 0] at [of 1] by (auto simp: numeral_2_eq_2)
qed

section \<open>Leave-one-out baselines\<close>

definition others :: "nat \<Rightarrow> nat \<Rightarrow> nat \<Rightarrow> nat list" where
  \<comment> \<open>the other members of the group of \<open>i\<close>\<close>
  "others g n i = filter (\<lambda>j. j \<noteq> i) (members g n i)"

lemma sum_without:
  assumes "distinct js" "i \<in> set js"
  shows "sum_list (map f (filter (\<lambda>j. j \<noteq> i) js)) = sum_list (map f js) - (f i :: real)"
proof -
  have none: "filter (\<lambda>j. j \<noteq> i) ks = ks" if "i \<notin> set ks" for ks
    using that by (induction ks) auto
  show ?thesis using assms by (induction js) (auto simp: none)
qed

lemma distinct_members: "distinct (members g n i)"
  by (simp add: members_def)

lemma in_members: "i < n \<Longrightarrow> i \<in> set (members g n i)"
  by (simp add: members_def)

lemma sum_others:
  assumes "i < length rs"
  shows "sum_list (map (\<lambda>j. rs ! j) (others g (length rs) i)) = sum_list (group_scores g rs i) - rs ! i"
  unfolding others_def group_scores_def
  by (rule sum_without [OF distinct_members in_members [OF assms]])

lemma length_others:
  assumes "i < n"
  shows "length (others g n i) = length (members g n i) - 1"
  using sum_without [OF distinct_members [of g n i] in_members [OF assms], of "\<lambda>_. 1"]
    in_members [OF assms, of g]
  by (cases "members g n i") (simp_all add: others_def sum_list_triv)

lemma rloo_at:
  assumes "length rs = k * g" "2 \<le> g" "i < length rs"
  shows "concat (map rloo_group (groups_of g rs)) ! i = rs ! i - rmean (map (\<lambda>j. rs ! j) (others g (length rs) i))"
    and "rloo_vectorized_at g rs i = rs ! i - rmean (map (\<lambda>j. rs ! j) (others g (length rs) i))"
proof -
  have g: "0 < g" using assms(2) by simp
  have len: "length (group_scores g rs i) = g"
    using members_block [OF assms(1,3)] by (simp add: group_scores_def)
  let ?S = "sum_list (group_scores g rs i)"
  have mean: "rmean (map (\<lambda>j. rs ! j) (others g (length rs) i)) = (?S - rs ! i) / (real g - 1)"
    using len assms(2) by (simp add: rmean_def sum_others [OF assms(3)] length_others [OF assms(3)] group_scores_def)
  have ik: "i div g < length rs div g" using assms(1,3) g by (simp add: less_mult_imp_div_less)
  have "list_all (\<lambda>ys. length ys = g) (map rloo_group (groups_of g rs))"
    using group_lengths [of g rs] by (simp add: list_all_iff rloo_group_def)
  then have "concat (map rloo_group (groups_of g rs)) ! i = map rloo_group (groups_of g rs) ! (i div g) ! (i mod g)"
    by (rule nth_concat_uniform) (use assms(1,3) g in \<open>simp_all\<close>)
  also have "\<dots> = rloo_group (group_scores g rs i) ! (i mod g)"
    using ik by (simp add: group_scores_block [OF assms(1,3)])
  also have "group_scores g rs i ! (i mod g) = rs ! i"
  proof -
    have "[a * g..<a * g + g] ! b = a * g + b" if "b < g" for a b using that by simp
    from this [of "i mod g" "i div g"] have "[i div g * g..<i div g * g + g] ! (i mod g) = i" using g by simp
    then show ?thesis using g by (simp add: group_scores_def members_block [OF assms(1,3)])
  qed
  then have "rloo_group (group_scores g rs i) ! (i mod g) = rs ! i - (?S - rs ! i) / (real g - 1)"
    using len g by (simp add: rloo_group_def)
  finally show "concat (map rloo_group (groups_of g rs)) ! i = rs ! i - rmean (map (\<lambda>j. rs ! j) (others g (length rs) i))"
    by (simp only: mean)
  have "(real g * x - S) / (real g - 1) = x - (S - x) / (real g - 1)" for x S
    using assms(2) by (simp add: field_simps)
  then show "rloo_vectorized_at g rs i = rs ! i - rmean (map (\<lambda>j. rs ! j) (others g (length rs) i))"
    using len assms(2) by (simp add: rloo_vectorized_at_def mean of_mask_def max_def Let_def)
qed

lemma rloo_lists_agree:
  assumes "length rs = k * g" "2 \<le> g"
  shows "concat (map rloo_group (groups_of g rs)) = map (rloo_vectorized_at g rs) [0..<length rs]"
proof (rule nth_equalityI)
  have "map length (map rloo_group (groups_of g rs)) = map length (groups_of g rs)" by (simp add: rloo_group_def)
  then have "length (concat (map rloo_group (groups_of g rs))) = length (concat (groups_of g rs))" by (simp only: length_concat)
  also have "\<dots> = length rs" using assms by (simp add: concat_groups)
  finally have len: "length (concat (map rloo_group (groups_of g rs))) = length rs" .
  then show "length (concat (map rloo_group (groups_of g rs))) = length (map (rloo_vectorized_at g rs) [0..<length rs])"
    by simp
  show "concat (map rloo_group (groups_of g rs)) ! i = map (rloo_vectorized_at g rs) [0..<length rs] ! i"
    if "i < length (concat (map rloo_group (groups_of g rs)))" for i
    using that rloo_at [OF assms, of i] len by simp
qed

text \<open>C24: the leave-one-out estimators. With at least two generations per prompt the vectorised
  estimator gives every sample its reward minus the mean of the other samples of its group, and the
  grouped estimator whitens exactly those values over the response tokens.\<close>

theorem rloo_leave_one_out:
  assumes "length rs = k * g" "2 \<le> g" "rs \<noteq> []" "length msk = length rs"
  shows "\<exists>adv. compute_rloo_vectorized_advantage g None rs = Inr (Per_Row adv) \<and> length adv = length rs
    \<and> (\<forall>i < length rs. adv ! i = rs ! i - rmean (map (\<lambda>j. rs ! j) (others g (length rs) i)))
    \<and> compute_rloo_advantage g (Some msk) att (Some rs) = Inr (masked_whiten (expand_rows adv msk) msk True)"
proof -
  let ?adv = "map (rloo_vectorized_at g rs) [0..<length rs]"
  have "compute_rloo_vectorized_advantage g None rs = Inr (Per_Row ?adv)"
    using assms(3) by (simp add: compute_rloo_vectorized_advantage_def spread_rows_def)
  moreover have "check_groups g rs = Inr ()" using assms(1,2) by (intro check_groups_ok) simp_all
  then have "compute_rloo_advantage g (Some msk) att (Some rs) = Inr (masked_whiten (expand_rows ?adv msk) msk True)"
    using assms by (simp add: compute_rloo_advantage_def response_mask_from_batch_def rloo_lists_agree [OF assms(1,2)])
  moreover have "\<forall>i < length rs. ?adv ! i = rs ! i - rmean (map (\<lambda>j. rs ! j) (others g (length rs) i))"
    using rloo_at(2) [OF assms(1,2)] by simp
  ultimately show ?thesis by auto
qed

theorem rloo_leave_one_out_witness:
  "\<exists>adv. compute_rloo_vectorized_advantage 2 None [1, 4, 2, 0] = Inr (Per_Row adv) \<and> length adv = 4
    \<and> adv ! 0 = - 3 \<and> adv ! 3 = - 2"
proof -
  have o: "others 2 (Suc (Suc (Suc (Suc 0)))) 0 = [1]" "others 2 (Suc (Suc (Suc (Suc 0)))) 3 = [2]" by code_simp+
  show ?thesis
    using rloo_leave_one_out [of "[1, 4, 2, 0]" 2 2 "[[True], [True], [True], [True]]" None]
    by (auto simp: o rmean_def)
qed

text \<open>One generation per prompt divides by zero in the grouped estimator; the vectorised one
  gives zero.\<close>

lemma single_member: "i < n \<Longrightarrow> members 1 n i = [i]"
  using members_block [of n n 1 i] by simp

lemma rloo_single_generation:
  "rs \<noteq> [] \<Longrightarrow> length msk = length rs \<Longrightarrow> compute_rloo_advantage 1 (Some msk) att (Some rs) = Inl FloatingPointError"
  "rs \<noteq> [] \<Longrightarrow> da_num_generations cfg = 1 \<Longrightarrow> compute_dapo_advantage cfg lengths pen (Some rs) = Inl FloatingPointError"
  "i < length rs \<Longrightarrow> rloo_vectorized_at 1 rs i = 0"
  by (simp_all add: compute_rloo_advantage_def compute_dapo_advantage_def check_groups_def response_mask_from_batch_def
      rloo_vectorized_at_def group_scores_def single_member [unfolded One_nat_def] of_mask_def Let_def)

section \<open>Zero-sum baselines\<close>

lemma members_same: "j \<in> set (members g n i) \<Longrightarrow> members g n j = members g n i"
  by (auto simp: members_def)

lemma group_scores_same: "j \<in> set (members g (length rs) i) \<Longrightarrow> group_scores g rs j = group_scores g rs i"
  by (simp add: group_scores_def members_same)

text \<open>Within every group of at least two samples the mean-baseline scores sum to zero, and so do
  the length-weighted scores of OPO as soon as the group has a response token.\<close>

lemma baseline_zero_sum:
  assumes "2 \<le> length (members g (length rs) i)"
  shows "sum_list (map (\<lambda>j. baseline_scores g rs ! j) (members g (length rs) i)) = 0"
proof -
  let ?M = "members g (length rs) i"
  have "map (\<lambda>j. baseline_scores g rs ! j) ?M = map (\<lambda>x. x - rmean (group_scores g rs i)) (group_scores g rs i)"
    using assms by (auto simp: baseline_scores_def group_mean_def group_scores_same members_same Let_def)
      (auto simp: group_scores_def members_def)
  moreover have "group_scores g rs i \<noteq> []" using assms by (auto simp: group_scores_def)
  ultimately show ?thesis by (simp add: sum_centered)
qed

lemma opo_weighted_zero_sum:
  assumes "2 \<le> length (members g (length rs) i)" "length ls = length rs" "1 \<le> sum_list (group_scores g ls i)"
  shows "sum_list (map (\<lambda>j. ls ! j * (rs ! j - opo_baseline g rs ls j)) (members g (length rs) i)) = 0"
proof -
  let ?M = "members g (length rs) i"
  let ?b = "opo_baseline g rs ls i"
  have same: "opo_baseline g rs ls j = ?b" if "j \<in> set ?M" for j
    using that group_scores_same [of j g rs i] group_scores_same [of j g ls i] assms(2) by (simp add: opo_baseline_def)
  have ls: "group_scores g ls i = map (\<lambda>j. ls ! j) ?M" using assms(2) by (simp add: group_scores_def)
  have b: "?b = sum_list (map (\<lambda>j. ls ! j * rs ! j) ?M) / sum_list (map (\<lambda>j. ls ! j) ?M)"
  proof -
    have m: "map2 (*) (map f M) (map h M) = map (\<lambda>j. f j * h j) M" for f h :: "nat \<Rightarrow> real" and M
      by (induction M) simp_all
    have rs: "group_scores g rs i = map (\<lambda>j. rs ! j) ?M" by (simp add: group_scores_def)
    show ?thesis using assms(1) assms(3) [unfolded ls] by (simp add: opo_baseline_def ls rs m max_def Let_def)
  qed
  have "map (\<lambda>j. ls ! j * (rs ! j - opo_baseline g rs ls j)) ?M = map (\<lambda>j. ls ! j * (rs ! j - ?b)) ?M"
    using same by simp
  also have "sum_list \<dots> = sum_list (map (\<lambda>j. ls ! j * rs ! j) ?M) - ?b * sum_list (map (\<lambda>j. ls ! j) ?M)"
  proof -
    have "sum_list (map (\<lambda>j. f j * (h j - c)) M) = sum_list (map (\<lambda>j. f j * h j) M) - c * sum_list (map f M)"
      for f h :: "nat \<Rightarrow> real" and c M by (induction M) (simp_all add: algebra_simps)
    then show ?thesis .
  qed
  also have "\<dots> = 0" using assms(3) by (simp add: b ls)
  finally show ?thesis .
qed

section \<open>Generalised advantage estimation\<close>

definition disc_sum :: "real \<Rightarrow> real list \<Rightarrow> real" where
  \<comment> \<open>the discounted sum\<close>
  "disc_sum c xs = (\<Sum>k < length xs. c ^ k * xs ! k)"

lemma disc_sum_simps [simp]:
  "disc_sum c [] = 0"
  "disc_sum c (x # xs) = x + c * disc_sum c xs"
proof -
  show "disc_sum c [] = 0" by (simp add: disc_sum_def)
  have "disc_sum c (x # xs) = x + (\<Sum>k < length xs. c ^ Suc k * xs ! k)"
    unfolding disc_sum_def length_Cons sum.lessThan_Suc_shift by simp
  then show "disc_sum c (x # xs) = x + c * disc_sum c xs" by (simp add: disc_sum_def sum_distrib_left mult.assoc)
qed

lemma gae_scan_zeros: "length ms = n \<Longrightarrow> gae_scan c (replicate n 0) ms = replicate n 0"
proof (induction n arbitrary: ms)
  case (Suc n)
  then show ?case by (cases ms; cases n) (simp_all add: Let_def)
qed simp

lemma gae_scan_prefix:
  "length ms = n \<Longrightarrow> gae_scan c (ds @ replicate n 0) (replicate (length ds) True @ ms)
     = map (\<lambda>t. disc_sum c (drop t ds)) [0..<length ds] @ replicate n 0"
proof (induction ds)
  case Nil
  then show ?case by (simp add: gae_scan_zeros)
next
  case (Cons d ds)
  let ?rest = "map (\<lambda>t. disc_sum c (drop t ds)) [0..<length ds] @ replicate n 0"
  have hd: "(case ?rest of [] \<Rightarrow> 0 | a # _ \<Rightarrow> a) = disc_sum c ds"
    by (cases ds; cases n) (simp_all add: upt_conv_Cons del: upt_Suc)
  have "map (\<lambda>t. disc_sum c (drop t (d # ds))) [0..<length (d # ds)]
      = disc_sum c (d # ds) # map (\<lambda>t. disc_sum c (drop t ds)) [0..<length ds]"
    by (simp only: list.size(4) add_Suc_right add_0_right upt_conv_Cons [OF zero_less_Suc] list.map map_Suc_upt [symmetric] map_map)
      (simp add: comp_def)
  then show ?case using Cons hd by (simp add: Let_def of_mask_def)
qed

definition prefix_mask :: "nat \<Rightarrow> nat \<Rightarrow> bool list" where
  \<comment> \<open>\<open>l\<close> response tokens first, in a row of width \<open>n\<close>\<close>
  "prefix_mask n l = replicate l True @ replicate (n - l) False"

lemma prefix_mask_simps:
  "l \<le> n \<Longrightarrow> length (prefix_mask n l) = n" "l \<le> n \<Longrightarrow> mask_count (prefix_mask n l) = l"
  "t < n \<Longrightarrow> l \<le> n \<Longrightarrow> prefix_mask n l ! t = (t < l)"
  by (simp_all add: prefix_mask_def mask_count_def nth_append)

definition td_error :: "real \<Rightarrow> real list \<Rightarrow> real list \<Rightarrow> nat \<Rightarrow> nat \<Rightarrow> real" where
  \<comment> \<open>the one-step error, with no value after the last of \<open>l\<close> tokens\<close>
  "td_error gamma rewards vals l t =
     rewards ! t + gamma * (if Suc t < l then vals ! Suc t else 0) - vals ! t"

lemma next_values_prefix:
  assumes "0 < l" "l \<le> length vals" "t < length vals" "t < l"
  shows "next_values vals (prefix_mask (length vals) l) ! t = (if Suc t < l then vals ! Suc t else 0)"
  using assms by (cases vals) (auto simp: next_values_def prefix_mask_simps Let_def nth_append nth_list_update)

lemma gae_row_prefix:
  fixes gamma lam :: real and rewards vals :: "real list"
  assumes l: "0 < l" "l \<le> n" and len: "length vals = n" "length rewards = n"
    and pad: "\<And>t. l \<le> t \<Longrightarrow> t < n \<Longrightarrow> vals ! t = 0 \<and> rewards ! t = 0"
  defines "adv \<equiv> \<lambda>t. disc_sum (gamma * lam) (map (td_error gamma rewards vals l) [t..<l])"
  shows "gae_row gamma lam rewards vals (prefix_mask n l)
    = (map (\<lambda>t. if t < l then adv t else 0) [0..<n], map (\<lambda>t. if t < l then adv t + vals ! t else 0) [0..<n])"
proof -
  let ?m = "prefix_mask n l" and ?td = "td_error gamma rewards vals l"
  have split: "[0..<n] = [0..<l] @ [l..<n]" using l(2) by (metis le_add_diff_inverse upt_add_eq_append zero_le)
  have delta: "gae_deltas gamma rewards vals ?m = map ?td [0..<l] @ replicate (n - l) 0"
  proof -
    have in_l: "map (\<lambda>t. rewards ! t + gamma * next_values vals ?m ! t * of_mask (?m ! t) - vals ! t) [0..<l] = map ?td [0..<l]"
    proof (rule map_cong)
      fix t assume "t \<in> set [0..<l]"
      then have "t < l" "t < n" using l(2) by simp_all
      then show "rewards ! t + gamma * next_values vals ?m ! t * of_mask (?m ! t) - vals ! t = ?td t"
        using next_values_prefix [of l vals t] l len by (simp add: td_error_def prefix_mask_simps of_mask_def)
    qed simp
    have "map (\<lambda>t. rewards ! t + gamma * next_values vals ?m ! t * of_mask (?m ! t) - vals ! t) [l..<n] = map (\<lambda>t. 0) [l..<n]"
      using pad l by (intro map_cong) (auto simp: prefix_mask_simps of_mask_def)
    then show ?thesis unfolding gae_deltas_def len(1) split map_append in_l by (simp add: map_replicate_const)
  qed
  have "gae_scan (gamma * lam) (gae_deltas gamma rewards vals ?m) ?m = map adv [0..<l] @ replicate (n - l) 0"
    unfolding delta
    using gae_scan_prefix [of "replicate (n - l) False" "n - l" "gamma * lam" "map ?td [0..<l]"]
    by (simp add: prefix_mask_def adv_def drop_map)
  moreover have "map2 (\<lambda>a b. a * of_mask b) (map adv [0..<l] @ replicate (n - l) 0) ?m
      = map (\<lambda>t. if t < l then adv t else 0) [0..<n]"
    using l by (intro nth_equalityI) (auto simp: prefix_mask_def nth_append of_mask_def)
  moreover have "map2 (\<lambda>(a, v) b. (a + v) * of_mask b) (zip (map adv [0..<l] @ replicate (n - l) 0) vals) ?m
      = map (\<lambda>t. if t < l then adv t + vals ! t else 0) [0..<n]"
    using l len by (intro nth_equalityI) (auto simp: prefix_mask_def nth_append of_mask_def)
  ultimately show ?thesis by (simp add: gae_row_def Let_def)
qed

lemma td_telescope:
  assumes "t < l"
  shows "disc_sum gamma (map (td_error gamma rewards vals l) [t..<l]) + vals ! t = disc_sum gamma (map (\<lambda>t. rewards ! t) [t..<l])"
  using assms
proof (induction "l - t" arbitrary: t)
  case (Suc d)
  show ?case
  proof (cases "Suc t < l")
    case True
    then have "disc_sum gamma (map (td_error gamma rewards vals l) [Suc t..<l]) + vals ! Suc t
        = disc_sum gamma (map (\<lambda>t. rewards ! t) [Suc t..<l])" using Suc by (intro Suc.hyps) simp_all
    note ih = this [symmetric]
    have "[t..<l] = t # [Suc t..<l]" using Suc.prems by (rule upt_conv_Cons)
    moreover have "td_error gamma rewards vals l t = rewards ! t + gamma * vals ! Suc t - vals ! t" using True by (simp add: td_error_def)
    ultimately show ?thesis by (simp add: ih algebra_simps)
  next
    case False
    then have "[t..<l] = [t]" "\<not> Suc t < l" using Suc.prems by (simp_all add: upt_conv_Cons)
    then show ?thesis by (simp add: td_error_def)
  qed
qed simp

definition final_reward :: "nat \<Rightarrow> nat \<Rightarrow> real \<Rightarrow> real list" where
  \<comment> \<open>the scalar reward at the last of \<open>l\<close> response tokens\<close>
  "final_reward n l r = (replicate n 0)[l - 1 := r]"

lemma scalar_rewards_prefix:
  assumes "length rs = length ls" "list_all (\<lambda>l. 0 < l \<and> l \<le> n) ls"
  shows "scalar_rewards_to_token_rewards rs (map (prefix_mask n) ls) = Inr (map2 (\<lambda>r l. final_reward n l r) rs ls)"
proof -
  have "map_result (\<lambda>(r, m). if m = [] then Inl IndexError else Inr ((replicate (length m) 0)[last_token_index m := r]))
      (zip rs (map (prefix_mask n) ls)) = Inr (map (\<lambda>(r, m). (replicate (length m) 0)[last_token_index m := r])
      (zip rs (map (prefix_mask n) ls)))"
  proof (rule map_result_total, clarify)
    fix r m assume "(r, m) \<in> set (zip rs (map (prefix_mask n) ls))"
    then obtain l where "l \<in> set ls" "m = prefix_mask n l" using set_zip_rightD [of r m rs "map (prefix_mask n) ls"] by auto
    then have "m \<noteq> []" using assms(2) by (auto simp: list_all_iff prefix_mask_def)
    then show "(if m = [] then Inl IndexError else Inr ((replicate (length m) 0)[last_token_index m := r]))
        = Inr ((replicate (length m) 0)[last_token_index m := r])" by simp
  qed
  moreover have "map (\<lambda>(r, m). (replicate (length m) 0)[last_token_index m := r]) (zip rs (map (prefix_mask n) ls))
      = map2 (\<lambda>r l. final_reward n l r) rs ls"
    using assms by (intro nth_equalityI)
      (auto simp: final_reward_def last_token_index_def prefix_mask_simps list_all_length)
  moreover have "(if length rs = 1 then replicate (length (map (prefix_mask n) ls)) (hd rs) else rs) = rs"
    using assms(1) by (cases rs) auto
  ultimately show ?thesis using assms(1) by (simp add: scalar_rewards_to_token_rewards_def Let_def)
qed

lemma gae_prefix_run:
  assumes shape: "length rs = length ls" "length vs = length ls" "0 < n"
    and ls: "list_all (\<lambda>l. 0 < l \<and> l \<le> n) ls"
    and vs: "\<And>i. i < length ls \<Longrightarrow> length (vs ! i) = n \<and> (\<forall>t. ls ! i \<le> t \<and> t < n \<longrightarrow> vs ! i ! t = 0)"
  shows "\<exists>adv ret. compute_gae_advantage gamma lam (Some vs) (Some (map (prefix_mask n) ls)) att (Some (Inl rs)) = Inr (adv, ret)
    \<and> length adv = length ls \<and> length ret = length ls
    \<and> (\<forall>i < length ls. let l = ls ! i; r = final_reward n l (rs ! i);
         gae = (\<lambda>t. disc_sum (gamma * lam) (map (td_error gamma r (vs ! i) l) [t..<l]))
       in adv ! i = map (\<lambda>t. if t < l then gae t else 0) [0..<n]
        \<and> ret ! i = map (\<lambda>t. if t < l then gae t + vs ! i ! t else 0) [0..<n])"
proof -
  let ?msk = "map (prefix_mask n) ls" and ?tok = "map2 (\<lambda>r l. final_reward n l r) rs ls"
  let ?rows = "map (\<lambda>(r, v, m). gae_row gamma lam r v m) (zip ?tok (zip vs ?msk))"
  have tok: "scalar_rewards_to_token_rewards rs ?msk = Inr ?tok" by (rule scalar_rewards_prefix [OF shape(1) ls])
  have "map length ?tok = map length vs" "map length vs = map length ?msk"
    using shape vs ls by (auto intro!: nth_equalityI simp: final_reward_def prefix_mask_simps list_all_length)
  moreover have "\<not> list_ex (\<lambda>v. v = []) vs"
    using vs shape by (auto simp: list_ex_iff in_set_conv_nth)
  ultimately have "gae_returns gamma lam ?tok vs ?msk = Inr (map fst ?rows, map snd ?rows)"
    by (simp add: gae_returns_def same_shape_def Let_def del: map_map)
  then have run: "compute_gae_advantage gamma lam (Some vs) (Some ?msk) att (Some (Inl rs)) = Inr (map fst ?rows, map snd ?rows)"
    by (simp add: compute_gae_advantage_def response_mask_from_batch_def tok)
  have row: "?rows ! i = gae_row gamma lam (final_reward n (ls ! i) (rs ! i)) (vs ! i) (prefix_mask n (ls ! i))"
    and len: "length ?rows = length ls" if "i < length ls" for i
    using that shape by simp_all
  have "let l = ls ! i; r = final_reward n l (rs ! i);
         gae = (\<lambda>t. disc_sum (gamma * lam) (map (td_error gamma r (vs ! i) l) [t..<l]))
       in map fst ?rows ! i = map (\<lambda>t. if t < l then gae t else 0) [0..<n]
        \<and> map snd ?rows ! i = map (\<lambda>t. if t < l then gae t + vs ! i ! t else 0) [0..<n]" if i: "i < length ls" for i
  proof -
    have l: "0 < ls ! i" "ls ! i \<le> n" using ls i by (simp_all add: list_all_length)
    have "gae_row gamma lam (final_reward n (ls ! i) (rs ! i)) (vs ! i) (prefix_mask n (ls ! i))
      = (map (\<lambda>t. if t < ls ! i then disc_sum (gamma * lam)
            (map (td_error gamma (final_reward n (ls ! i) (rs ! i)) (vs ! i) (ls ! i)) [t..<ls ! i]) else 0) [0..<n],
         map (\<lambda>t. if t < ls ! i then disc_sum (gamma * lam)
            (map (td_error gamma (final_reward n (ls ! i) (rs ! i)) (vs ! i) (ls ! i)) [t..<ls ! i]) + vs ! i ! t else 0) [0..<n])"
      by (rule gae_row_prefix [OF l]) (use vs [OF i] l in \<open>auto simp: final_reward_def\<close>)
    moreover have "map fst ?rows ! i = fst (?rows ! i)" "map snd ?rows ! i = snd (?rows ! i)"
      using len [OF i] i by (simp_all del: map_map)
    ultimately show ?thesis by (simp only: row [OF i] Let_def fst_conv snd_conv)
  qed
  moreover have "length (map fst ?rows) = length ls" "length (map snd ?rows) = length ls" using shape by simp_all
  ultimately show ?thesis using run by blast
qed

text \<open>C23: generalised advantage estimation. For responses that start in the first column, a scalar
  reward per response and values that vanish on the padding, the advantage of every response token
  is the discounted sum of the one-step errors up to the end of its response, with the reward at the
  last token and no value after it; returns are advantages plus values, and padding gets zero.\<close>

theorem gae_prefix_responses:
  assumes "length rs = length ls" "length vs = length ls" "0 < n" "list_all (\<lambda>l. 0 < l \<and> l \<le> n) ls"
    and "\<And>i. i < length ls \<Longrightarrow> length (vs ! i) = n \<and> (\<forall>t. ls ! i \<le> t \<and> t < n \<longrightarrow> vs ! i ! t = 0)"
  shows "\<exists>adv ret. compute_gae_advantage gamma lam (Some vs) (Some (map (prefix_mask n) ls)) att (Some (Inl rs)) = Inr (adv, ret)
    \<and> length adv = length ls \<and> length ret = length ls
    \<and> (\<forall>i < length ls. let l = ls ! i; r = final_reward n l (rs ! i);
         gae = (\<lambda>t. disc_sum (gamma * lam) (map (td_error gamma r (vs ! i) l) [t..<l]))
       in adv ! i = map (\<lambda>t. if t < l then gae t else 0) [0..<n]
        \<and> ret ! i = map (\<lambda>t. if t < l then gae t + vs ! i ! t else 0) [0..<n])"
  using assms by (rule gae_prefix_run)

lemma gae_sample_deltas:
  "map (td_error 1 (final_reward 3 2 5) [1, 2, 0] 2) [0..<2] = [1, 3]"
  "map (td_error 1 (final_reward 3 2 5) [1, 2, 0] 2) [1..<2] = [3]"
  by (simp_all add: td_error_def final_reward_def upt_rec eval_nat_numeral)

theorem gae_prefix_responses_witness:
  "\<exists>adv ret. compute_gae_advantage 1 (1 / 2) (Some [[1, 2, 0]]) (Some [prefix_mask 3 2]) None (Some (Inl [5])) = Inr (adv, ret)
    \<and> adv ! 0 ! 0 = 5 / 2 \<and> adv ! 0 ! 1 = 3"
proof -
  have v: "length ([[1, 2, 0 :: real]] ! i) = 3 \<and> (\<forall>t. [2 :: nat] ! i \<le> t \<and> t < 3 \<longrightarrow> [[1, 2, 0 :: real]] ! i ! t = 0)"
    if "i < length [2 :: nat]" for i
    using that by (auto simp: less_Suc_eq numeral_3_eq_3 numeral_2_eq_2)
  obtain adv ret where a: "compute_gae_advantage 1 (1 / 2) (Some [[1, 2, 0]]) (Some (map (prefix_mask 3) [2])) None (Some (Inl [5])) = Inr (adv, ret)"
    and at: "\<forall>i < length [2 :: nat]. let l = [2] ! i; r = final_reward 3 l ([5] ! i);
         gae = (\<lambda>t. disc_sum (1 * (1 / 2)) (map (td_error 1 r ([[1, 2, 0]] ! i) l) [t..<l]))
       in adv ! i = map (\<lambda>t. if t < l then gae t else 0) [0..<3]
        \<and> ret ! i = map (\<lambda>t. if t < l then gae t + [[1, 2, 0]] ! i ! t else 0) [0..<3]"
    using gae_prefix_responses [of "[5]" "[2]" "[[1, 2, 0]]" 3 1 "1 / 2" None, OF _ _ _ _ v] by auto
  have "adv ! 0 = map (\<lambda>t. if t < 2 then disc_sum (1 * (1 / 2)) (map (td_error 1 (final_reward 3 2 5) [1, 2, 0] 2) [t..<2]) else 0) [0..<3]"
    using at [rule_format, of 0] by (simp add: Let_def)
  then have "adv ! 0 ! 0 = 5 / 2" "adv ! 0 ! 1 = 3" using gae_sample_deltas by simp_all
  then show ?thesis using a by auto
qed

text \<open>With \<open>lam = 1\<close> the return of a token is the discounted reward of its response.\<close>

lemma gae_monte_carlo:
  assumes "0 < l" "l \<le> n" "length vals = n" "length rewards = n"
    and "\<And>t. l \<le> t \<Longrightarrow> t < n \<Longrightarrow> vals ! t = 0 \<and> rewards ! t = 0"
  shows "snd (gae_row gamma 1 rewards vals (prefix_mask n l))
    = map (\<lambda>t. if t < l then disc_sum gamma (map (\<lambda>t. rewards ! t) [t..<l]) else 0) [0..<n]"
  using gae_row_prefix [OF assms, of gamma 1] td_telescope [of _ l gamma rewards vals] by simp

section \<open>Where the estimators depend on the layout\<close>

text \<open>A value on the padding right after a response enters the advantage of its last token: the
  scan multiplies by the mask of the token it is at, not of the one it looks ahead to.\<close>

lemma gae_padding_leak:
  "gae_row gamma lam [r, 0] [v, w] [True, False] = ([r - v - gamma * lam * w, 0], [r - gamma * lam * w, 0])"
  by (simp add: gae_row_def gae_deltas_def next_values_def mask_count_def of_mask_def upt_rec Let_def)

text \<open>The index of the last token is the number of tokens minus one. In a response mask whose tokens
  are at the right end, as \<open>_build_response_mask\<close> returns for left-padded sequences, that is
  another column: the reward goes there and no response token sees it, while the value of the
  first column wraps around to the last token.\<close>

lemma gae_right_aligned:
  "scalar_rewards_to_token_rewards [r] [[False, False, True]] = Inr [[r, 0, 0]]"
  "gae_row gamma lam [r, 0, 0] [u, v, w] [False, False, True] = ([0, 0, gamma * u - w], [0, 0, gamma * u])"
  by (simp_all add: scalar_rewards_to_token_rewards_def last_token_index_def gae_row_def gae_deltas_def
      next_values_def mask_count_def of_mask_def upt_rec Let_def eval_nat_numeral)

end
