(* ===== verification/Reward_Shaping.thy ===== *)
theory Reward_Shaping
  imports Advantages
begin

text \<open>
  \<open>lumenrl/algorithms/dapo_sampling.py\<close> and \<open>lumenrl/algorithms/kl_controller.py\<close>: the overlong
  penalty and the group filter of DAPO, the KL controllers, the per-token KL estimates and their
  application to the rewards of a batch. Arithmetic is exact.
\<close>

section \<open>Group filter\<close>

definition uid_groups :: "real list \<Rightarrow> 'u list \<Rightarrow> ('u, real list) dict" where
  \<comment> \<open>\<open>uid2vals\<close>\<close>
  "uid_groups vals uids =
     foldl (\<lambda>d (u, v). dict_set u ((case map_of d u of None \<Rightarrow> [] | Some vs \<Rightarrow> vs) @ [v]) d) [] (zip uids vals)"

definition keep_group :: "real \<Rightarrow> real list \<Rightarrow> bool" where
  "keep_group eps vs = (length vs = 1 \<or> eps < pop_std vs)"

definition filter_groups_keep_mask :: "real list \<Rightarrow> 'u list \<Rightarrow> real \<Rightarrow> (bool list \<times> 'u list) result" where
  "filter_groups_keep_mask vals uids eps =
     (if length uids \<noteq> length vals then Inl ValueError
      else let kept_uids = map fst (filter (\<lambda>(_, vs). keep_group eps vs) (uid_groups vals uids))
           in Inr (map (\<lambda>u. u \<in> set kept_uids) uids, kept_uids))"

section \<open>KL controllers\<close>

datatype kl_controller =
    Adaptive_KL real real int   \<comment> \<open>value, target and horizon\<close>
  | Fixed_KL real

definition clip :: "real \<Rightarrow> real \<Rightarrow> real \<Rightarrow> real" where
  \<comment> \<open>\<open>np.clip(x, lo, hi)\<close> and \<open>torch.clamp\<close>\<close>
  "clip x lo hi = min (max x lo) hi"

definition kl_value :: "kl_controller \<Rightarrow> real" where
  "kl_value k = (case k of Adaptive_KL v _ _ \<Rightarrow> v | Fixed_KL v \<Rightarrow> v)"

definition kl_update :: "real \<Rightarrow> nat \<Rightarrow> kl_controller \<Rightarrow> kl_controller result" where
  "kl_update current_kl n_steps k =
     (case k of
        Fixed_KL v \<Rightarrow> Inr k
      | Adaptive_KL v target horizon \<Rightarrow>
          if target = 0 then Inl ZeroDivisionError
          else if horizon = 0 then Inl FloatingPointError
          else let proportional_error = clip (current_kl / target - 1) (- (1 / 5)) (1 / 5);
                   mult = 1 + proportional_error * real n_steps / real_of_int horizon
               in Inr (Adaptive_KL (v * mult) target horizon))"

definition get_kl_controller :: "string \<Rightarrow> real \<Rightarrow> real \<Rightarrow> int \<Rightarrow> kl_controller result" where
  "get_kl_controller kl_ctrl_type kl_coef target_kl horizon =
     (if kl_ctrl_type = ''fixed'' then Inr (Fixed_KL kl_coef)
      else if kl_ctrl_type = ''adaptive''
      then if horizon \<le> 0 then Inl AssertionError else Inr (Adaptive_KL kl_coef target_kl horizon)
      else Inl ValueError)"

section \<open>KL estimates\<close>

definition kl_penalty_forward :: "real \<Rightarrow> real \<Rightarrow> string \<Rightarrow> real result" where
  \<comment> \<open>one token\<close>
  "kl_penalty_forward logprob ref_logprob kind =
     (if kind = ''kl'' \<or> kind = ''k1'' then Inr (logprob - ref_logprob)
      else if kind = ''abs'' then Inr \<bar>logprob - ref_logprob\<bar>
      else if kind = ''mse'' \<or> kind = ''k2'' then Inr (1 / 2 * (logprob - ref_logprob)\<^sup>2)
      else if kind = ''low_var_kl'' \<or> kind = ''k3''
      then let kl = clip (ref_logprob - logprob) (- 20) 20; ratio = exp kl
           in Inr (clip (ratio - kl - 1) (- 10) 10)
      else Inl NotImplementedError)"

definition rstrip_plus :: "string \<Rightarrow> string" where
  "rstrip_plus s = rev (dropWhile (\<lambda>c. c = CHR ''+'') (rev s))"

definition kl_penalty_token :: "real \<Rightarrow> real \<Rightarrow> string \<Rightarrow> real result" where
  \<comment> \<open>the value of one token: with a trailing \<open>+\<close> the backward score cancels\<close>
  "kl_penalty_token logprob ref_logprob kind =
     bind_result (kl_penalty_forward logprob ref_logprob (rstrip_plus kind)) (\<lambda>forward_score.
       if kind = [] \<or> last kind \<noteq> CHR ''+'' \<or> kind = ''mse'' \<or> kind = ''k2'' then Inr forward_score
       else let backward_score = 1 / 2 * (logprob - ref_logprob)\<^sup>2
            in Inr (backward_score - backward_score + forward_score))"

definition masked_mean :: "real list \<Rightarrow> bool list \<Rightarrow> real" where
  \<comment> \<open>one row\<close>
  "masked_mean vals m = sum_list (map2 (\<lambda>v b. v * of_mask b) vals m) / max (real (mask_count m)) 1"

definition kl_row :: "string \<Rightarrow> real list \<Rightarrow> real list \<Rightarrow> bool list \<Rightarrow> real list result" where
  "kl_row kind old ref m =
     map_result (\<lambda>(a, b, w). bind_result (kl_penalty_token a b kind) (\<lambda>k. Inr (k * of_mask w))) (zip old (zip ref m))"

record kl_outcome =
  ko_rewards :: "real list list"
  ko_scores :: "real list list"
  ko_controller :: kl_controller
  ko_current_kl :: real
  ko_coeff :: real

definition apply_kl_penalty ::
  "bool list list option \<Rightarrow> bool list list option \<Rightarrow> real list list \<Rightarrow> real list list \<Rightarrow> (real list + real list list)
    \<Rightarrow> kl_controller \<Rightarrow> string \<Rightarrow> kl_outcome result"
where
  \<comment> \<open>log-probabilities, masks and token rewards of one shape; rewards are a scalar per row (\<open>Inl\<close>)
      or a list per row. The mean over no rows is NaN.\<close>
  "apply_kl_penalty response attention old ref rewards ctrl kind =
     (case response_mask_from_batch response attention of
        None \<Rightarrow> Inl KeyError
      | Some msk \<Rightarrow>
          if \<not> same_shape old ref \<or> \<not> same_shape old msk then Inl RuntimeError
          else if old = [] then Inl FloatingPointError
          else bind_result (map_result (\<lambda>(a, b, m). kl_row kind a b m) (zip old (zip ref msk))) (\<lambda>kld.
               bind_result (case rewards of Inl rs \<Rightarrow> scalar_rewards_to_token_rewards rs msk
                                          | Inr rows \<Rightarrow>
                                              if list_all (\<lambda>r. length r = 1) rows
                                              then scalar_rewards_to_token_rewards (map hd rows) msk
                                              else if same_shape rows old then Inr rows else Inl RuntimeError)
                 (\<lambda>token_rewards.
                   let beta = kl_value ctrl; current_kl = rmean (map2 masked_mean kld msk)
                   in bind_result (kl_update current_kl (length old) ctrl) (\<lambda>ctrl'.
                        Inr \<lparr>ko_rewards = map2 (map2 (\<lambda>r k. r - beta * k)) token_rewards kld,
                             ko_scores = token_rewards, ko_controller = ctrl',
                             ko_current_kl = current_kl, ko_coeff = beta\<rparr>))))"

section \<open>The overlong penalty\<close>

lemma scaled_excess_zero:
  assumes "0 < b" "0 < f"
  shows "min (- x / b * f) 0 = (0 :: real) \<longleftrightarrow> x \<le> 0"
proof -
  have "- x / b * f < 0 \<longleftrightarrow> 0 < x"
    using assms by (auto simp: mult_less_0_iff divide_less_0_iff zero_less_divide_iff zero_less_mult_iff)
  then show ?thesis by (auto simp: min_def not_le)
qed

text \<open>the soft overlong penalty. With a positive buffer and factor it never rewards, is zero exactly
  up to \<open>max - buffer\<close> tokens, costs the factor at the maximal length and at most that before it,
  and does not shrink as the response grows; every length is penalised on its own.\<close>

theorem overlong_penalty_shape:
  assumes "0 < buffer_len" "0 < factor"
  shows "\<exists>p. (\<forall>ls. overlong_buffer_penalty ls max_resp buffer_len factor = map p ls)
    \<and> (\<forall>l. p l \<le> 0 \<and> (p l = 0 \<longleftrightarrow> int l \<le> max_resp - buffer_len)
         \<and> (int l = max_resp \<longrightarrow> p l = - factor) \<and> (int l \<le> max_resp \<longrightarrow> - factor \<le> p l))
    \<and> (\<forall>l l'. l \<le> l' \<longrightarrow> p l' \<le> p l)"
proof -
  let ?b = "real_of_int buffer_len"
  let ?x = "\<lambda>l. real l - real_of_int (max_resp - buffer_len)"
  let ?p = "\<lambda>l. min (- ?x l / ?b * factor) 0"
  have b: "0 < ?b" using assms(1) by simp
  have run: "overlong_buffer_penalty ls max_resp buffer_len factor = map ?p ls" for ls
    using assms by (simp add: overlong_buffer_penalty_def)
  have zero: "?p l = 0 \<longleftrightarrow> int l \<le> max_resp - buffer_len" for l
  proof -
    have "?p l = 0 \<longleftrightarrow> ?x l \<le> 0" by (rule scaled_excess_zero [OF b assms(2)])
    also have "\<dots> \<longleftrightarrow> int l \<le> max_resp - buffer_len" by linarith
    finally show ?thesis .
  qed
  have at_max: "?p l = - factor" if "int l = max_resp" for l
  proof -
    have "real l = real_of_int max_resp" using that by (metis of_int_of_nat_eq)
    then have "?x l = ?b" by simp
    then show ?thesis using b assms(2) by simp
  qed
  have mono: "?p l' \<le> ?p l" if "l \<le> l'" for l l'
  proof -
    have "- ?x l' / ?b * factor \<le> - ?x l / ?b * factor"
      using that b assms(2) by (intro mult_right_mono divide_right_mono) simp_all
    then show ?thesis by linarith
  qed
  have bound: "- factor \<le> ?p l" if "int l \<le> max_resp" for l
  proof -
    have "real l \<le> real_of_int max_resp" using that by linarith
    then have "- ?b / ?b * factor \<le> - ?x l / ?b * factor"
      using b assms(2) by (intro mult_right_mono divide_right_mono) simp_all
    then show ?thesis using b assms(2) by simp
  qed
  show ?thesis
    by (intro exI [of _ ?p] conjI allI impI run zero at_max bound mono min.cobounded2)
qed

theorem overlong_penalty_shape_witness:
  "\<exists>p. overlong_buffer_penalty [10, 100] 100 20 2 = map p [10, 100] \<and> p (10 :: nat) = 0 \<and> p 100 = (- 2 :: real)"
proof -
  obtain p where "\<forall>ls. overlong_buffer_penalty ls 100 20 2 = map p ls"
    "\<forall>l. p l \<le> 0 \<and> (p l = 0 \<longleftrightarrow> int l \<le> 100 - 20) \<and> (int l = 100 \<longrightarrow> p l = - 2) \<and> (int l \<le> 100 \<longrightarrow> - 2 \<le> p l)"
    using overlong_penalty_shape [of 20 2 100] by auto
  then show ?thesis by (intro exI [of _ p]) simp
qed

section \<open>The group filter\<close>

definition values_of :: "'u \<Rightarrow> 'u list \<Rightarrow> real list \<Rightarrow> real list" where
  "values_of u uids vals = map snd (filter (\<lambda>(u', _). u' = u) (zip uids vals))"

lemma uid_groups_pairs:
  fixes ps :: "('u \<times> real) list"
  defines "d \<equiv> foldl (\<lambda>d (u, v). dict_set u ((case map_of d u of None \<Rightarrow> [] | Some vs \<Rightarrow> vs) @ [v]) d) []"
  shows "distinct (map fst (d ps)) \<and> set (map fst (d ps)) = fst ` set ps
    \<and> (\<forall>u. map_of (d ps) u = (if u \<in> fst ` set ps then Some (map snd (filter (\<lambda>(u', _). u' = u) ps)) else None))"
proof (induction ps rule: rev_induct)
  case Nil
  show ?case by (simp add: d_def)
next
  case (snoc p ps)
  obtain u v where p: "p = (u, v)" by (cases p)
  have none: "filter (\<lambda>(u', _). u' = u) ps = []" if "u \<notin> fst ` set ps"
    using that by (force simp: filter_empty_conv)
  have "d (ps @ [p]) = dict_set u ((case map_of (d ps) u of None \<Rightarrow> [] | Some vs \<Rightarrow> vs) @ [v]) (d ps)"
    by (simp add: d_def p)
  then show ?case using snoc none by (auto simp: p)
qed

lemma uid_groups_spec:
  assumes "length uids = length vals"
  shows "distinct (map fst (uid_groups vals uids)) \<and> set (map fst (uid_groups vals uids)) = set uids
    \<and> (\<forall>u \<in> set uids. map_of (uid_groups vals uids) u = Some (values_of u uids vals))"
proof -
  have "fst ` set (zip uids vals) = set uids" using assms by (metis map_fst_zip set_map)
  then show ?thesis using uid_groups_pairs [of "zip uids vals"] by (simp add: uid_groups_def values_of_def)
qed

lemma keep_group_iff:
  assumes "vs \<noteq> []"
  shows "keep_group 0 vs \<longleftrightarrow> length vs = 1 \<or> (\<exists>x \<in> set vs. \<exists>y \<in> set vs. x \<noteq> y)"
proof -
  have "0 < pop_std vs \<longleftrightarrow> pop_std vs \<noteq> 0" using pop_std_nonneg [of vs] by linarith
  also have "\<dots> \<longleftrightarrow> (\<exists>x \<in> set vs. \<exists>y \<in> set vs. x \<noteq> y)"
    using pop_std_zero_iff [OF assms] assms by (cases vs) auto
  finally show ?thesis by (simp add: keep_group_def)
qed

lemma subset_as_marked:
  assumes "K \<subseteq> set xs"
  shows "K = {xs ! i | i. i < length xs \<and> map (\<lambda>x. x \<in> K) xs ! i}" (is "K = ?R")
proof (rule equalityI)
  show "K \<subseteq> ?R"
  proof
    fix x
    assume x: "x \<in> K"
    then have "x \<in> set xs" using assms by (rule rev_subsetD)
    then obtain i where "i < length xs" "xs ! i = x" unfolding in_set_conv_nth by (elim exE conjE)
    then show "x \<in> ?R" using x by fastforce
  qed
  show "?R \<subseteq> K" by clarsimp
qed

text \<open>the group filter of dynamic sampling. With the default threshold a sample is kept exactly
  when it is the only one of its prompt or the samples of its prompt do not all have the same
  metric; the kept prompts are listed once each, and a wrong number of prompt ids raises
  ValueError.\<close>

theorem filter_groups_keeps_informative:
  shows "if length uids \<noteq> length vals then filter_groups_keep_mask vals uids 0 = Inl ValueError
    else \<exists>msk kept. filter_groups_keep_mask vals uids 0 = Inr (msk, kept) \<and> length msk = length uids \<and> distinct kept
      \<and> (\<forall>i < length uids. let vs = values_of (uids ! i) uids vals in
           msk ! i \<longleftrightarrow> length vs = 1 \<or> (\<exists>x \<in> set vs. \<exists>y \<in> set vs. x \<noteq> y))
      \<and> set kept = {uids ! i | i. i < length uids \<and> msk ! i}"
proof (cases "length uids = length vals")
  case True
  note spec = uid_groups_spec [OF True]
  let ?d = "uid_groups vals uids"
  let ?kept = "map fst (filter (\<lambda>(_, vs). keep_group 0 vs) ?d)"
  have mem: "u \<in> set ?kept \<longleftrightarrow> u \<in> set uids \<and> keep_group 0 (values_of u uids vals)" for u
  proof
    assume "u \<in> set ?kept"
    then obtain vs where vs: "(u, vs) \<in> set ?d" "keep_group 0 vs" by auto
    then have "map_of ?d u = Some vs" using spec by simp
    moreover have "u \<in> set uids" using vs(1) spec by force
    ultimately show "u \<in> set uids \<and> keep_group 0 (values_of u uids vals)" using vs(2) spec by auto
  next
    assume "u \<in> set uids \<and> keep_group 0 (values_of u uids vals)"
    moreover from this have "(u, values_of u uids vals) \<in> set ?d" using spec by (auto dest: map_of_SomeD)
    ultimately show "u \<in> set ?kept" by force
  qed
  have ne: "values_of (uids ! i) uids vals \<noteq> []" if "i < length uids" for i
  proof -
    have "(uids ! i, vals ! i) \<in> set (zip uids vals)" using that True by (auto simp: set_zip)
    then show ?thesis by (auto simp: values_of_def filter_empty_conv)
  qed
  have dist: "distinct ?kept" using spec by (simp add: distinct_map_filter)
  have run: "filter_groups_keep_mask vals uids 0 = Inr (map (\<lambda>u. u \<in> set ?kept) uids, ?kept)"
    using True by (simp add: filter_groups_keep_mask_def Let_def)
  have at: "map (\<lambda>u. u \<in> set ?kept) uids ! i \<longleftrightarrow> keep_group 0 (values_of (uids ! i) uids vals)"
    if "i < length uids" for i
    unfolding nth_map [OF that] mem using that by simp
  have kept: "set ?kept = {uids ! i | i. i < length uids \<and> map (\<lambda>u. u \<in> set ?kept) uids ! i}"
    by (rule subset_as_marked) (use mem in blast)
  have sel: "let vs = values_of (uids ! i) uids vals in map (\<lambda>u. u \<in> set ?kept) uids ! i
      \<longleftrightarrow> length vs = 1 \<or> (\<exists>x \<in> set vs. \<exists>y \<in> set vs. x \<noteq> y)" if "i < length uids" for i
    unfolding Let_def at [OF that] by (rule keep_group_iff [OF ne [OF that]])
  have "\<exists>msk kept. filter_groups_keep_mask vals uids 0 = Inr (msk, kept) \<and> length msk = length uids \<and> distinct kept
      \<and> (\<forall>i < length uids. let vs = values_of (uids ! i) uids vals in
           msk ! i \<longleftrightarrow> length vs = 1 \<or> (\<exists>x \<in> set vs. \<exists>y \<in> set vs. x \<noteq> y))
      \<and> set kept = {uids ! i | i. i < length uids \<and> msk ! i}"
    by (intro exI [of _ "map (\<lambda>u. u \<in> set ?kept) uids"] exI [of _ ?kept] conjI allI impI run dist kept sel) simp_all
  then show ?thesis unfolding if_not_P [OF not_not [THEN iffD2, OF True]] .
next
  case False
  then show ?thesis by (simp add: filter_groups_keep_mask_def)
qed

theorem filter_groups_keeps_informative_witness:
  "\<exists>msk kept. filter_groups_keep_mask [1, 1, 0, 1, 1] [''a'', ''a'', ''b'', ''b'', ''c''] 0 = Inr (msk, kept)
    \<and> \<not> msk ! 0 \<and> msk ! 2 \<and> msk ! 4 \<and> distinct kept"
proof -
  have "\<exists>msk kept. filter_groups_keep_mask [1, 1, 0, 1, 1] [''a'', ''a'', ''b'', ''b'', ''c''] 0 = Inr (msk, kept) \<and> length msk = 5 \<and> distinct kept
      \<and> (\<forall>i < 5. let vs = values_of ([''a'', ''a'', ''b'', ''b'', ''c''] ! i) [''a'', ''a'', ''b'', ''b'', ''c''] [1, 1, 0, 1, 1] in
           msk ! i \<longleftrightarrow> length vs = 1 \<or> (\<exists>x \<in> set vs. \<exists>y \<in> set vs. x \<noteq> y))"
    using filter_groups_keeps_informative [of "[''a'', ''a'', ''b'', ''b'', ''c'']" "[1, 1, 0, 1, 1]"] by auto
  then obtain msk kept where "filter_groups_keep_mask [1, 1, 0, 1, 1] [''a'', ''a'', ''b'', ''b'', ''c''] 0 = Inr (msk, kept)" "distinct kept"
    and at: "\<And>i. i < 5 \<Longrightarrow> let vs = values_of ([''a'', ''a'', ''b'', ''b'', ''c''] ! i) [''a'', ''a'', ''b'', ''b'', ''c''] [1, 1, 0, 1, 1] in
           msk ! i \<longleftrightarrow> length vs = 1 \<or> (\<exists>x \<in> set vs. \<exists>y \<in> set vs. x \<noteq> y)" by blast
  then show ?thesis using at [of 0] at [of 2] at [of 4] by (auto simp: values_of_def Let_def)
qed
section \<open>The KL estimates\<close>

lemma clip_range: "lo \<le> hi \<Longrightarrow> lo \<le> clip x lo hi \<and> clip x lo hi \<le> hi"
  by (auto simp: clip_def)

lemma clip_zero_iff: "lo < 0 \<Longrightarrow> 0 < hi \<Longrightarrow> clip x lo hi = 0 \<longleftrightarrow> x = 0"
  by (auto simp: clip_def min_def max_def)

lemma clip_nonneg_iff: "lo < 0 \<Longrightarrow> 0 < hi \<Longrightarrow> 0 \<le> clip x lo hi \<longleftrightarrow> 0 \<le> x"
  by (auto simp: clip_def)

lemma exp_excess:
  fixes x :: real
  shows "0 \<le> exp x - x - 1 \<and> (exp x - x - 1 = 0 \<longleftrightarrow> x = 0)"
proof -
  have "x = 0" if "exp x = 1 + x"
  proof -
    have "ln (1 + x) = x" using that by (metis ln_exp)
    moreover have "0 < 1 + x" using that by (metis exp_gt_zero)
    ultimately show ?thesis using ln_eq_minus_one [of "1 + x"] by simp
  qed
  moreover have "1 + x \<le> exp x" by (rule exp_ge_add_one_self)
  moreover have "exp x = 1 + x" if "exp x - x - 1 = 0" using that by linarith
  ultimately show ?thesis by (intro conjI iffI) (linarith, blast, simp)
qed

lemma kl_penalty_token_value: "kl_penalty_token a b kind = kl_penalty_forward a b (rstrip_plus kind)"
  by (cases "kl_penalty_forward a b (rstrip_plus kind)") (simp_all add: kl_penalty_token_def)

text \<open>the KL estimates. With or without the trailing plus signs, every estimator but k1 is
  non-negative and zero exactly where both policies agree; k3 never exceeds ten; k1 is the
  difference of the log-probabilities, and any other name raises NotImplementedError.\<close>

theorem kl_estimates_nonnegative:
  "let base = rstrip_plus kind in
     (base \<in> {''kl'', ''k1''} \<longrightarrow> kl_penalty_token a b kind = Inr (a - b))
   \<and> (base \<in> {''abs'', ''mse'', ''k2'', ''low_var_kl'', ''k3''} \<longrightarrow>
        (\<exists>v. kl_penalty_token a b kind = Inr v \<and> 0 \<le> v \<and> (v = 0 \<longleftrightarrow> a = b)
             \<and> (base \<in> {''low_var_kl'', ''k3''} \<longrightarrow> v \<le> 10)))
   \<and> (base \<notin> {''kl'', ''k1'', ''abs'', ''mse'', ''k2'', ''low_var_kl'', ''k3''} \<longrightarrow>
        kl_penalty_token a b kind = Inl NotImplementedError)"
proof -
  let ?x = "clip (b - a) (- 20) 20"
  let ?k3 = "clip (exp ?x - ?x - 1) (- 10) 10"
  have "?k3 = 0 \<longleftrightarrow> exp ?x - ?x - 1 = 0" by (rule clip_zero_iff) simp_all
  also have "\<dots> \<longleftrightarrow> ?x = 0" using exp_excess by blast
  also have "\<dots> \<longleftrightarrow> b - a = 0" by (rule clip_zero_iff) simp_all
  finally have zero: "?k3 = 0 \<longleftrightarrow> a = b" by auto
  have "0 \<le> ?k3" using clip_nonneg_iff [of "- 10" 10] exp_excess [of ?x] by simp
  moreover have "?k3 \<le> 10" using clip_range [of "- 10" 10] by simp
  moreover have "\<exists>v. (a - b)\<^sup>2 = v * 2 \<and> 0 \<le> v \<and> v \<noteq> 0" if "a \<noteq> b"
    using that by (intro exI [of _ "(a - b)\<^sup>2 / 2"]) simp
  ultimately show ?thesis
    unfolding Let_def kl_penalty_token_value kl_penalty_forward_def using zero by auto
qed

theorem kl_estimates_nonnegative_witness:
  "\<exists>v. kl_penalty_token (- 1) (- 3) ''k3+'' = Inr v \<and> 0 < v \<and> v \<le> 10"
  using kl_estimates_nonnegative [of "''k3+''" "- 1" "- 3"] by (auto simp: rstrip_plus_def Let_def less_le)

section \<open>The controllers\<close>

text \<open>One update changes the coefficient by at most a fifth of the batch size over the horizon,
  upwards exactly when the measured divergence is above the target. A batch of more than five
  horizons can turn the coefficient negative.\<close>

lemma adaptive_update_factor:
  assumes "0 < target" "0 < horizon"
  obtains mult where "kl_update kl n (Adaptive_KL v target horizon) = Inr (Adaptive_KL (v * mult) target horizon)"
    "\<bar>mult - 1\<bar> \<le> real n / (5 * real_of_int horizon)"
    "0 < n \<Longrightarrow> (1 < mult \<longleftrightarrow> target < kl) \<and> (mult < 1 \<longleftrightarrow> kl < target)"
proof -
  let ?e = "clip (kl / target - 1) (- (1 / 5)) (1 / 5)"
  let ?m = "1 + ?e * real n / real_of_int horizon"
  have h: "0 < real_of_int horizon" using assms by simp
  have e: "\<bar>?e\<bar> \<le> 1 / 5" using clip_range [of "- (1 / 5)" "1 / 5" "kl / target - 1"] by linarith
  have "\<bar>?m - 1\<bar> = \<bar>?e\<bar> * (real n / real_of_int horizon)" using h by (simp add: abs_mult)
  also have "\<dots> \<le> 1 / 5 * (real n / real_of_int horizon)" using e h by (intro mult_right_mono) simp_all
  finally have bound: "\<bar>?m - 1\<bar> \<le> real n / (5 * real_of_int horizon)" by simp
  have pos: "0 < ?e \<longleftrightarrow> target < kl" and neg: "?e < 0 \<longleftrightarrow> kl < target"
  proof -
    have "0 < clip y (- (1 / 5)) (1 / 5) \<longleftrightarrow> 0 < y" "clip y (- (1 / 5)) (1 / 5) < 0 \<longleftrightarrow> y < 0" for y :: real
      by (auto simp: clip_def min_def max_def)
    moreover have "0 < kl / target - 1 \<longleftrightarrow> target < kl" "kl / target - 1 < 0 \<longleftrightarrow> kl < target"
      using assms(1) by (simp_all add: less_divide_eq divide_less_eq)
    ultimately show "0 < ?e \<longleftrightarrow> target < kl" "?e < 0 \<longleftrightarrow> kl < target" by blast+
  qed
  have "(1 < ?m \<longleftrightarrow> target < kl) \<and> (?m < 1 \<longleftrightarrow> kl < target)" if "0 < n"
  proof -
    have "0 < real n" using that by simp
    then show ?thesis
      unfolding pos [symmetric] neg [symmetric] using h
      by (auto simp: zero_less_divide_iff zero_less_mult_iff divide_less_0_iff mult_less_0_iff)
  qed
  moreover have "kl_update kl n (Adaptive_KL v target horizon) = Inr (Adaptive_KL (v * ?m) target horizon)"
    using assms by (simp add: kl_update_def Let_def)
  ultimately show ?thesis using bound that by blast
qed

lemma adaptive_update_nonneg:
  assumes "0 < target" "0 < horizon" "0 \<le> v" "int n \<le> 5 * horizon"
  shows "\<exists>v'. kl_update kl n (Adaptive_KL v target horizon) = Inr (Adaptive_KL v' target horizon) \<and> 0 \<le> v'"
proof -
  obtain mult where run: "kl_update kl n (Adaptive_KL v target horizon) = Inr (Adaptive_KL (v * mult) target horizon)"
    and m: "\<bar>mult - 1\<bar> \<le> real n / (5 * real_of_int horizon)"
    using adaptive_update_factor [OF assms(1,2)] .
  have "real n \<le> 5 * real_of_int horizon" using assms(4) by linarith
  then have "real n / (5 * real_of_int horizon) \<le> 1" using assms(2) by simp
  then have "0 \<le> mult" using m by linarith
  then show ?thesis using run assms(3) by auto
qed

lemma large_batch_turns_negative: "\<exists>v' < 0. kl_update 0 12 (Adaptive_KL 1 1 2) = Inr (Adaptive_KL v' 1 2)"
  by (simp add: kl_update_def Let_def clip_def)
section \<open>The penalty on the rewards of a batch\<close>

lemma sum_list_one_hot: "i < n \<Longrightarrow> sum_list ((replicate n 0)[i := r]) = (r :: real)"
proof (induction n arbitrary: i)
  case (Suc n)
  then show ?case by (cases i) (simp_all add: sum_list_replicate)
qed simp

lemma scalar_rewards_shape:
  assumes "scalar_rewards_to_token_rewards rs msk = Inr rows"
  shows "same_shape rows msk
    \<and> (length rs = length msk \<longrightarrow> (\<forall>i < length msk. sum_list (rows ! i) = rs ! i))"
proof -
  obtain qs where qs_def: "qs = (if length rs = 1 then replicate (length msk) (hd rs) else rs)" by blast
  have "length rs = 1 \<Longrightarrow> replicate (length rs) (hd rs) = rs" by (auto simp: length_Suc_conv)
  then have qs: "length qs = length msk" "length rs = length msk \<Longrightarrow> qs = rs"
    and rows: "map_result (\<lambda>(r, m). if m = [] then Inl IndexError
                  else Inr ((replicate (length m) 0)[last_token_index m := r])) (zip qs msk) = Inr rows"
    using assms by (auto simp: qs_def scalar_rewards_to_token_rewards_def Let_def split: if_splits)
  have len: "length rows = length msk" using map_result_length [OF rows] qs(1) by simp
  have at: "msk ! i \<noteq> [] \<and> rows ! i = (replicate (length (msk ! i)) 0)[last_token_index (msk ! i) := qs ! i]"
    if "i < length msk" for i
    using map_result_nth [OF rows, of i] that qs(1) by (auto split: if_splits)
  have "last_token_index m < length m" if "m \<noteq> []" for m
    using that length_filter_le [of "\<lambda>b. b" m] by (cases m) (auto simp: last_token_index_def mask_count_def)
  then have "sum_list (rows ! i) = qs ! i" if "i < length msk" for i
    using at [OF that] by (metis sum_list_one_hot)
  moreover have "same_shape rows msk" unfolding same_shape_def using len at by (intro nth_equalityI) simp_all
  ultimately show ?thesis using qs(2) by simp
qed

lemma same_shapeD:
  assumes "same_shape xss yss"
  shows "length xss = length yss" and "i < length yss \<Longrightarrow> length (xss ! i) = length (yss ! i)"
proof -
  show len: "length xss = length yss" using assms map_eq_imp_length_eq unfolding same_shape_def by blast
  show "length (xss ! i) = length (yss ! i)" if "i < length yss"
  proof -
    have "map length xss ! i = map length yss ! i" using assms by (simp add: same_shape_def)
    then show ?thesis using that len by simp
  qed
qed

lemma same_shapeI:
  "length xss = length yss \<Longrightarrow> (\<And>i. i < length yss \<Longrightarrow> length (xss ! i) = length (yss ! i)) \<Longrightarrow> same_shape xss yss"
  unfolding same_shape_def by (rule nth_equalityI) simp_all

lemma kl_rows_at:
  assumes "map_result (\<lambda>(a, b, m). kl_row kind a b m) (zip old (zip ref msk)) = Inr kld"
    and shape: "same_shape old ref" "same_shape old msk"
  shows "same_shape kld old"
    and "i < length old \<Longrightarrow> j < length (old ! i)
          \<Longrightarrow> \<exists>k. kl_penalty_token (old ! i ! j) (ref ! i ! j) kind = Inr k \<and> kld ! i ! j = k * of_mask (msk ! i ! j)"
proof -
  note len = same_shapeD(1) [OF shape(1)] same_shapeD(1) [OF shape(2)]
  have row: "kl_row kind (old ! i) (ref ! i) (msk ! i) = Inr (kld ! i)" if "i < length old" for i
    using map_result_nth [OF assms(1), of i] that len by simp
  have cols: "length (ref ! i) = length (old ! i)" "length (msk ! i) = length (old ! i)" if "i < length old" for i
    using same_shapeD(2) [OF shape(1), of i] same_shapeD(2) [OF shape(2), of i] that len by simp_all
  show "same_shape kld old"
  proof (rule same_shapeI)
    show "length kld = length old" using map_result_length [OF assms(1)] len by simp
    show "length (kld ! i) = length (old ! i)" if "i < length old" for i
      using map_result_length [OF row [OF that, unfolded kl_row_def]] cols [OF that] by simp
  qed
  show "\<exists>k. kl_penalty_token (old ! i ! j) (ref ! i ! j) kind = Inr k \<and> kld ! i ! j = k * of_mask (msk ! i ! j)"
    if "i < length old" "j < length (old ! i)"
    using map_result_nth [OF row [OF that(1), unfolded kl_row_def], of j] that(2) cols [OF that(1)] by auto
qed

text \<open>the KL penalty on a batch. When it succeeds every token keeps its score, less the
  coefficient times the KL estimate of that token where the mask is set and nothing elsewhere; the
  scores are the given token rewards, or sum to the given scalar reward in every row; the
  coefficient used is the one before the controller's update on the reported divergence.\<close>

theorem apply_kl_penalty_tokens:
  assumes "apply_kl_penalty response attention old ref rewards ctrl kind = Inr out"
  shows "\<exists>msk. response_mask_from_batch response attention = Some msk
    \<and> same_shape (ko_rewards out) old \<and> same_shape (ko_scores out) old
    \<and> (\<forall>i < length old. \<forall>j < length (old ! i). \<exists>k. kl_penalty_token (old ! i ! j) (ref ! i ! j) kind = Inr k
         \<and> ko_rewards out ! i ! j = ko_scores out ! i ! j - (if msk ! i ! j then ko_coeff out * k else 0))
    \<and> (\<forall>rs. rewards = Inl rs \<and> length rs = length old \<longrightarrow> (\<forall>i < length old. sum_list (ko_scores out ! i) = rs ! i))
    \<and> (\<forall>rows. rewards = Inr rows \<and> (\<exists>r \<in> set rows. length r \<noteq> 1) \<longrightarrow> ko_scores out = rows)
    \<and> ko_coeff out = kl_value ctrl
    \<and> kl_update (ko_current_kl out) (length old) ctrl = Inr (ko_controller out)"
proof -
  obtain msk where msk: "response_mask_from_batch response attention = Some msk"
    using assms by (auto simp: apply_kl_penalty_def split: option.splits)
  then have shape: "same_shape old ref" "same_shape old msk"
    using assms by (auto simp: apply_kl_penalty_def split: if_splits)
  obtain kld tok where kld: "map_result (\<lambda>(a, b, m). kl_row kind a b m) (zip old (zip ref msk)) = Inr kld"
    and tok: "(case rewards of Inl rs \<Rightarrow> scalar_rewards_to_token_rewards rs msk | Inr rows \<Rightarrow>
                 if list_all (\<lambda>r. length r = 1) rows then scalar_rewards_to_token_rewards (map hd rows) msk
                 else if same_shape rows old then Inr rows else Inl RuntimeError) = Inr tok"
    and upd: "kl_update (ko_current_kl out) (length old) ctrl = Inr (ko_controller out)"
    and out: "ko_rewards out = map2 (map2 (\<lambda>r k. r - kl_value ctrl * k)) tok kld" "ko_scores out = tok"
      "ko_coeff out = kl_value ctrl"
    using assms msk shape by (auto simp: apply_kl_penalty_def Let_def split: if_splits)
  have "same_shape tok msk \<or> same_shape tok old"
    using tok scalar_rewards_shape by (auto split: sum.splits if_splits)
  then have tok_shape: "same_shape tok old" using shape(2) by (auto simp: same_shape_def)
  note kl = kl_rows_at [OF kld shape]
  note len = same_shapeD(1) [OF tok_shape] same_shapeD(1) [OF kl(1)]
  note cols = same_shapeD(2) [OF tok_shape] same_shapeD(2) [OF kl(1)]
  have rew_shape: "same_shape (ko_rewards out) old" using len cols by (intro same_shapeI) (simp_all add: out)
  have at: "\<exists>k. kl_penalty_token (old ! i ! j) (ref ! i ! j) kind = Inr k
         \<and> ko_rewards out ! i ! j = tok ! i ! j - (if msk ! i ! j then kl_value ctrl * k else 0)"
    if "i < length old" "j < length (old ! i)" for i j
    using kl(2) [OF that] that len cols by (auto simp: out of_mask_def)
  have sums: "sum_list (tok ! i) = rs ! i" if "rewards = Inl rs" "length rs = length old" "i < length old" for rs i
    using scalar_rewards_shape [of rs msk tok] tok that same_shapeD(1) [OF shape(2)] by simp
  have rows: "tok = rows" if "rewards = Inr rows" "r \<in> set rows" "length r \<noteq> 1" for rows r
    using tok that by (auto simp: list_all_iff split: if_splits)
  show ?thesis
    unfolding out(2,3) using msk tok_shape rew_shape at upd sums rows by blast
qed

theorem apply_kl_penalty_tokens_witness:
  "\<exists>out. apply_kl_penalty None (Some [[True, False]]) [[- 1, - 2]] [[- 2, - 5]] (Inr [[1, 1]]) (Fixed_KL 3) ''k1'' = Inr out
    \<and> ko_rewards out ! 0 ! 0 = - 2 \<and> ko_rewards out ! 0 ! 1 = 1"
proof -
  have "\<exists>out. apply_kl_penalty None (Some [[True, False]]) [[- 1, - 2]] [[- 2, - 5]] (Inr [[1, 1]]) (Fixed_KL 3) ''k1'' = Inr out"
    by (simp add: apply_kl_penalty_def response_mask_from_batch_def same_shape_def kl_row_def kl_penalty_token_def
        kl_penalty_forward_def rstrip_plus_def kl_update_def Let_def)
  then obtain out where run: "apply_kl_penalty None (Some [[True, False]]) [[- 1, - 2]] [[- 2, - 5]] (Inr [[1, 1]]) (Fixed_KL 3) ''k1'' = Inr out" ..
  note at = apply_kl_penalty_tokens [OF run]
  have "ko_rewards out ! 0 ! 0 = - 2 \<and> ko_rewards out ! 0 ! 1 = 1"
    using at by (auto simp: response_mask_from_batch_def kl_penalty_token_value kl_penalty_forward_def rstrip_plus_def
        kl_value_def All_less_Suc)
  then show ?thesis using run by blast
qed

end
