(* ===== verification/Policy_Losses.thy ===== *)
theory Policy_Losses
  imports Vocab_Probs Reward_Shaping
begin

text \<open>
  \<open>lumenrl/algorithms/loss_functions.py\<close>: the losses of one batch as numbers (gradients are not
  modelled), their aggregation over tokens and sequences and over data-parallel ranks. Tensors of
  shape \<open>[B, T]\<close> are lists of rows; masks are Boolean; all tensors of a call have one shape, other
  shapes are the error RuntimeError. A mean over no element is FloatingPointError (NaN in torch).
\<close>

section \<open>Reductions\<close>

definition masked_sum :: "real list list \<Rightarrow> bool list list \<Rightarrow> real" where
  "masked_sum vals msk = sum_list (map2 (\<lambda>vs ms. sum_list (map2 (\<lambda>v b. (if b then v else 0) * of_mask b) vs ms)) vals msk)"

definition row_sum :: "real list \<Rightarrow> bool list \<Rightarrow> real" where
  \<comment> \<open>one row of \<open>torch.sum(x * mask, dim=-1)\<close>\<close>
  "row_sum vs ms = sum_list (map2 (\<lambda>v b. v * of_mask b) vs ms)"

definition token_count :: "bool list list \<Rightarrow> nat" where
  \<comment> \<open>\<open>loss_mask.sum()\<close>\<close>
  "token_count msk = sum_list (map mask_count msk)"

definition seq_mask :: "bool list list \<Rightarrow> bool list" where
  "seq_mask msk = map (\<lambda>ms. 0 < mask_count ms) msk"

definition mean_all :: "real list list \<Rightarrow> real result" where
  \<comment> \<open>\<open>x.mean()\<close>\<close>
  "mean_all vals = (if concat vals = [] then Inl FloatingPointError else Inr (rmean (concat vals)))"

definition mask_mean :: "real list list \<Rightarrow> bool list list option \<Rightarrow> real result" where
  \<comment> \<open>the end of the unaggregated losses: \<open>(x * w).sum() / clamp(w.sum(), min=1.0)\<close> or \<open>x.mean()\<close>\<close>
  "mask_mean vals msk =
     (case msk of
        None \<Rightarrow> mean_all vals
      | Some w \<Rightarrow> if \<not> same_shape vals w then Inl RuntimeError
                  else Inr (sum_list (map2 row_sum vals w) / max (real (token_count w)) 1))"

definition map_tokens2 :: "('a \<Rightarrow> 'b \<Rightarrow> 'c) \<Rightarrow> 'a list list \<Rightarrow> 'b list list \<Rightarrow> 'c list list" where
  "map_tokens2 f = map2 (map2 f)"

definition agg_loss ::
  "real list list \<Rightarrow> bool list list \<Rightarrow> string \<Rightarrow> nat \<Rightarrow> int option \<Rightarrow> int option \<Rightarrow> real result"
where
  "agg_loss loss_mat loss_mask loss_agg_mode dp_size batch_num_tokens global_batch_size =
     (if \<not> same_shape loss_mat loss_mask then Inl RuntimeError
      else if loss_agg_mode = ''token-mean''
      then if batch_num_tokens = None \<and> 1 < dp_size then Inl ValueError
           else let n = (case batch_num_tokens of Some b \<Rightarrow> b | None \<Rightarrow> int (token_count loss_mask))
                in Inr (masked_sum loss_mat loss_mask / real_of_int (max n 1) * real dp_size)
      else if loss_agg_mode = ''seq-mean-token-sum'' \<or> loss_agg_mode = ''seq-mean-token-sum-norm''
      then if global_batch_size = None \<and> 1 < dp_size then Inl ValueError
           else let seq_losses = map2 row_sum loss_mat loss_mask;
                    g = (case global_batch_size of Some b \<Rightarrow> b | None \<Rightarrow> int (mask_count (seq_mask loss_mask)));
                    loss = masked_sum [seq_losses] [seq_mask loss_mask] / real_of_int (max g 1) * real dp_size
                in if loss_agg_mode = ''seq-mean-token-sum-norm'' \<and> loss_mask \<noteq> []
                   then if hd loss_mask = [] then Inl FloatingPointError else Inr (loss / real (length (hd loss_mask)))
                   else Inr loss
      else if loss_agg_mode = ''seq-mean-token-mean''
      then if global_batch_size = None \<and> 1 < dp_size then Inl ValueError
           else let seq_losses = map2 (\<lambda>vs ms. row_sum vs ms / (real (mask_count ms) + tiny)) loss_mat loss_mask;
                    g = (case global_batch_size of Some b \<Rightarrow> b | None \<Rightarrow> int (mask_count (seq_mask loss_mask)))
                in Inr (masked_sum [seq_losses] [seq_mask loss_mask] / real_of_int (max g 1) * real dp_size)
      else Inl ValueError)"

definition sft_loss ::
  "real list list \<Rightarrow> bool list list \<Rightarrow> string \<Rightarrow> nat \<Rightarrow> (nat \<Rightarrow> nat) \<Rightarrow> (real \<times> nat) result"
where
  \<comment> \<open>\<open>all_reduce\<close> is the sum over the data-parallel group, the identity without a group\<close>
  "sft_loss log_probs loss_mask loss_agg_mode dp_size all_reduce =
     (let (batch_num_tokens, global_batch_size) =
            (if loss_agg_mode = ''token-mean''
             then (Some (max (int (all_reduce (token_count loss_mask))) 1), None)
             else (None, Some (max (int (all_reduce (mask_count (seq_mask loss_mask)))) 1)))
      in bind_result (agg_loss (map (map uminus) log_probs) loss_mask loss_agg_mode dp_size batch_num_tokens global_batch_size)
           (\<lambda>loss. Inr (loss, token_count loss_mask)))"

section \<open>Policy gradients\<close>

definition policy_gradient_token :: "real \<Rightarrow> real \<Rightarrow> real \<Rightarrow> real \<Rightarrow> real" where
  "policy_gradient_token clip_ratio logprob old_logprob advantage =
     (let ratio = exp (logprob - old_logprob)
      in - min (ratio * advantage) (clip ratio (1 - clip_ratio) (1 + clip_ratio) * advantage))"

definition policy_gradient_loss ::
  "real list list \<Rightarrow> real list list \<Rightarrow> real list list \<Rightarrow> real \<Rightarrow> bool list list option \<Rightarrow> real result"
where
  "policy_gradient_loss logprobs old_logprobs advantages clip_ratio msk =
     (if \<not> same_shape logprobs old_logprobs \<or> \<not> same_shape logprobs advantages then Inl RuntimeError
      else mask_mean (map_tokens2 (\<lambda>lp (old, adv). policy_gradient_token clip_ratio lp old adv) logprobs
                        (map_tokens2 Pair old_logprobs advantages)) msk)"

definition clip_token :: "real \<Rightarrow> real \<Rightarrow> real \<Rightarrow> real \<Rightarrow> real \<Rightarrow> real \<Rightarrow> real" where
  "clip_token clip_low clip_high clip_ratio_c logprob old_logprob advantage =
     (let ratio = exp (clip (logprob - old_logprob) (- 20) 20);
          clipped = clip ratio (1 - clip_low) (1 + clip_high);
          pg = max (- advantage * ratio) (- advantage * clipped)
      in if 0 < clip_ratio_c \<and> advantage < 0 then min (- advantage * clip_ratio_c) pg else pg)"

definition asymmetric_clip_loss ::
  "real list list \<Rightarrow> real list list \<Rightarrow> real list list \<Rightarrow> real \<Rightarrow> real \<Rightarrow> bool list list option \<Rightarrow> real \<Rightarrow> int option
    \<Rightarrow> nat \<Rightarrow> real list list option \<Rightarrow> string \<Rightarrow> int option \<Rightarrow> real result"
where
  "asymmetric_clip_loss logprobs old_logprobs advantages clip_low clip_high msk clip_ratio_c batch_num_tokens
     dp_size rollout_is_weights loss_agg_mode global_batch_size =
     (if \<not> same_shape logprobs old_logprobs \<or> \<not> same_shape logprobs advantages
         \<or> (case rollout_is_weights of None \<Rightarrow> False | Some w \<Rightarrow> \<not> same_shape logprobs w)
      then Inl RuntimeError
      else let pg = map_tokens2 (\<lambda>lp (old, adv). clip_token clip_low clip_high clip_ratio_c lp old adv) logprobs
                      (map_tokens2 Pair old_logprobs advantages);
               pg' = (case rollout_is_weights of None \<Rightarrow> pg | Some w \<Rightarrow> map_tokens2 (*) pg w)
           in if msk = None \<and> loss_agg_mode = ''token-mean'' \<and> batch_num_tokens = None then mean_all pg'
              else agg_loss pg' (case msk of Some w \<Rightarrow> w | None \<Rightarrow> map (map (\<lambda>_. True)) pg') loss_agg_mode dp_size
                     batch_num_tokens global_batch_size)"

definition gmpo_log_ratio :: "real \<Rightarrow> real \<Rightarrow> real \<Rightarrow> real \<Rightarrow> real \<Rightarrow> real" where
  "gmpo_log_ratio clip_low clip_high logprob old_logprob advantage =
     (let kl = logprob - old_logprob; s = sgn advantage
      in s * min (s * kl) (s * clip kl (- clip_low) clip_high))"

definition gmpo_row :: "real list \<Rightarrow> real list \<Rightarrow> bool list option \<Rightarrow> real" where
  \<comment> \<open>one row of \<open>-seq_adv * ratio\<close>\<close>
  "gmpo_row kls advs m =
     (case m of
        Some w \<Rightarrow> - (row_sum advs w / (real (mask_count w) + tiny)) * exp (row_sum kls w / (real (mask_count w) + tiny))
      | None \<Rightarrow> - rmean advs * exp (rmean kls))"

definition gmpo_loss ::
  "real list list \<Rightarrow> real list list \<Rightarrow> real list list \<Rightarrow> real \<Rightarrow> real \<Rightarrow> bool list list option \<Rightarrow> real result"
where
  "gmpo_loss logprobs old_logprobs advantages clip_low clip_high msk =
     (if \<not> same_shape logprobs old_logprobs \<or> \<not> same_shape logprobs advantages
         \<or> (case msk of None \<Rightarrow> False | Some w \<Rightarrow> \<not> same_shape logprobs w) then Inl RuntimeError
      else if logprobs = [] \<or> msk = None \<and> [] \<in> set logprobs then Inl FloatingPointError
      else let kls = map_tokens2 (\<lambda>lp (old, adv). gmpo_log_ratio clip_low clip_high lp old adv) logprobs
                       (map_tokens2 Pair old_logprobs advantages)
           in Inr (rmean (map (\<lambda>i. gmpo_row (kls ! i) (advantages ! i) (map_option (\<lambda>w. w ! i) msk)) [0..<length logprobs])))"

section \<open>Value, divergence and entropy terms\<close>

definition value_token :: "real \<Rightarrow> real \<Rightarrow> real \<Rightarrow> real \<Rightarrow> real" where
  "value_token clip_ratio v old_v ret =
     (let clipped = old_v + clip (v - old_v) (- clip_ratio) clip_ratio
      in max ((v - ret)\<^sup>2) ((clipped - ret)\<^sup>2))"

definition value_loss ::
  "real list list \<Rightarrow> real list list \<Rightarrow> real list list \<Rightarrow> real \<Rightarrow> bool list list option \<Rightarrow> real result"
where
  "value_loss vs old_values returns clip_ratio msk =
     (if \<not> same_shape vs old_values \<or> \<not> same_shape vs returns then Inl RuntimeError
      else mask_mean (map_tokens2 (\<lambda>v (old, ret). value_token clip_ratio v old ret) vs (map_tokens2 Pair old_values returns)) msk)"

definition kl_penalty :: "real list list \<Rightarrow> real list list \<Rightarrow> bool list list option \<Rightarrow> real result" where
  "kl_penalty logprobs ref_logprobs msk =
     (if \<not> same_shape logprobs ref_logprobs then Inl RuntimeError
      else mask_mean (map_tokens2 (\<lambda>lp ref. ref - lp) logprobs ref_logprobs) msk)"

definition entropy_bonus :: "real list list \<Rightarrow> bool list list option \<Rightarrow> real result" where
  "entropy_bonus logprobs msk = mask_mean (map (map (\<lambda>lp. - (exp lp * lp))) logprobs) msk"

definition kl_of_logits :: "string \<Rightarrow> real list \<Rightarrow> real list \<Rightarrow> real result" where
  \<comment> \<open>one token of \<open>kl_per_token\<close>\<close>
  "kl_of_logits kl_direction student teacher =
     (let s = log_softmax student; t = log_softmax teacher
      in if kl_direction = ''reverse'' then Inr (sum_list (map2 (\<lambda>a b. exp a * (a - b)) s t))
         else if kl_direction = ''forward'' then Inr (sum_list (map2 (\<lambda>a b. exp b * (b - a)) s t))
         else Inl ValueError)"

definition position_weighted :: "real list \<Rightarrow> real list list \<Rightarrow> real list list result" where
  "position_weighted position_weights kl =
     map_result (\<lambda>row. let pw = take (length row) position_weights
                       in if length pw = length row then Inr (map2 (*) row pw)
                          else if length pw = 1 then Inr (map (\<lambda>k. k * hd pw) row) else Inl RuntimeError) kl"

definition opd_kl_divergence ::
  "real list list list \<Rightarrow> real list list list \<Rightarrow> bool list list option \<Rightarrow> string \<Rightarrow> real \<Rightarrow> real list option \<Rightarrow> real result"
where
  "opd_kl_divergence student_logits teacher_logits msk kl_direction temperature position_weights =
     (if temperature = 0 then Inl FloatingPointError
      else if \<not> same_shape student_logits teacher_logits \<or> \<not> same_shape (concat student_logits) (concat teacher_logits)
      then Inl RuntimeError
      else let scale = map (\<lambda>z. z / temperature)
           in bind_result
                (if kl_direction \<noteq> ''reverse'' \<and> kl_direction \<noteq> ''forward'' then Inl ValueError
                 else map_result (map_result (\<lambda>(s, t). kl_of_logits kl_direction (scale s) (scale t)))
                        (map_tokens2 Pair student_logits teacher_logits))
                (\<lambda>kl. bind_result (case position_weights of None \<Rightarrow> Inr kl | Some pw \<Rightarrow> position_weighted pw kl)
                        (\<lambda>kl'. mask_mean kl' msk)))"

definition hidden_state_loss ::
  "(real list \<Rightarrow> real list \<Rightarrow> real) \<Rightarrow> (real list \<Rightarrow> real list) option \<Rightarrow> real list list list \<Rightarrow> real list list list
    \<Rightarrow> bool list list option \<Rightarrow> string \<Rightarrow> real result"
where
  \<comment> \<open>\<open>cosine_similarity\<close> and the projection are parameters\<close>
  "hidden_state_loss cosine projection student_hidden teacher_hidden msk loss_type =
     (let student = (case projection of None \<Rightarrow> student_hidden | Some f \<Rightarrow> map (map f) student_hidden)
      in if \<not> same_shape student teacher_hidden \<or> \<not> same_shape (concat student) (concat teacher_hidden) then Inl RuntimeError
         else if loss_type = ''mse''
         then if [] \<in> set (concat student) then Inl FloatingPointError
              else mask_mean (map_tokens2 (\<lambda>s t. rmean (map2 (\<lambda>a b. (a - b)\<^sup>2) s t)) student teacher_hidden) msk
         else if loss_type = ''cosine''
         then mask_mean (map_tokens2 (\<lambda>s t. 1 - cosine s t) student teacher_hidden) msk
         else Inl ValueError)"
section \<open>Aggregation over data-parallel ranks\<close>

definition agg_modes :: "string set" where
  "agg_modes = {''token-mean'', ''seq-mean-token-sum'', ''seq-mean-token-sum-norm'', ''seq-mean-token-mean''}"

definition agg_numerator :: "string \<Rightarrow> real list list \<Rightarrow> bool list list \<Rightarrow> real" where
  "agg_numerator loss_agg_mode mat msk =
     (if loss_agg_mode = ''token-mean'' then masked_sum mat msk
      else if loss_agg_mode = ''seq-mean-token-mean''
      then masked_sum [map2 (\<lambda>vs ms. row_sum vs ms / (real (mask_count ms) + tiny)) mat msk] [seq_mask msk]
      else masked_sum [map2 row_sum mat msk] [seq_mask msk])"

definition agg_denominator :: "string \<Rightarrow> int \<Rightarrow> int \<Rightarrow> nat \<Rightarrow> real" where
  "agg_denominator loss_agg_mode tokens seqs width =
     (if loss_agg_mode = ''token-mean'' then real_of_int (max tokens 1)
      else if loss_agg_mode = ''seq-mean-token-sum-norm'' then real_of_int (max seqs 1) * real width
      else real_of_int (max seqs 1))"

lemma masked_sum_append:
  "length a = length c \<Longrightarrow> masked_sum (a @ b) (c @ d) = masked_sum a c + masked_sum b d"
  by (simp add: masked_sum_def)

lemma masked_sum_row_append:
  "length a = length c \<Longrightarrow> masked_sum [a @ b] [c @ d] = masked_sum [a] [c] + masked_sum [b] [d]"
  by (simp add: masked_sum_def)

lemma mask_count_append [simp]: "mask_count (a @ b) = mask_count a + mask_count b"
  by (simp add: mask_count_def)

lemma mask_count_Nil [simp]: "mask_count [] = 0"
  by (simp add: mask_count_def)

lemma agg_numerator_append:
  assumes "same_shape a c"
  shows "agg_numerator mode (a @ b) (c @ d) = agg_numerator mode a c + agg_numerator mode b d"
proof -
  have "length a = length c" using same_shapeD(1) [OF assms] .
  then show ?thesis by (simp add: agg_numerator_def masked_sum_append masked_sum_row_append seq_mask_def)
qed

lemma agg_numerator_Nil [simp]: "agg_numerator mode [] [] = 0"
  by (simp add: agg_numerator_def masked_sum_def seq_mask_def)

lemma agg_numerator_concat:
  "\<forall>(l, m) \<in> set ranks. same_shape l m
    \<Longrightarrow> agg_numerator mode (concat (map fst ranks)) (concat (map snd ranks)) = sum_list (map (\<lambda>(l, m). agg_numerator mode l m) ranks)"
  by (induction ranks) (auto simp: agg_numerator_append)

lemma agg_loss_eq:
  assumes "mode \<in> agg_modes" "same_shape l m" "\<forall>r \<in> set m. length r = T" "0 < T"
    and "mode = ''token-mean'' \<Longrightarrow> bt = Some t \<or> bt = None \<and> n = 1 \<and> t = int (token_count m)"
    and "mode \<noteq> ''token-mean'' \<Longrightarrow> gb = Some g \<or> gb = None \<and> n = 1 \<and> g = int (mask_count (seq_mask m))"
  shows "agg_loss l m mode n bt gb = Inr (agg_numerator mode l m / agg_denominator mode t g T * real n)"
proof -
  have T: "hd m \<noteq> [] \<and> length (hd m) = T" if "m \<noteq> []" using that assms(3,4) by (cases m) auto
  have nil: "l = [] \<longleftrightarrow> m = []" using same_shapeD(1) [OF assms(2)] by auto
  from assms(1) consider "mode = ''token-mean''" | "mode = ''seq-mean-token-sum''"
    | "mode = ''seq-mean-token-sum-norm''" | "mode = ''seq-mean-token-mean''" unfolding agg_modes_def by blast
  then show ?thesis
  proof cases
    case 1
    then show ?thesis using assms(5) [OF 1] assms(2) by (auto simp: agg_loss_def agg_numerator_def agg_denominator_def)
  next
    case 2
    then show ?thesis using assms(6) assms(2) by (auto simp: agg_loss_def agg_numerator_def agg_denominator_def)
  next
    case 3
    have "masked_sum [map2 row_sum l m] [seq_mask m] = 0" if "m = []"
      using that by (simp add: masked_sum_def)
    then show ?thesis using 3 assms(6) assms(2) T
      by (cases "m = []") (auto simp: agg_loss_def agg_numerator_def agg_denominator_def Let_def)
  next
    case 4
    then show ?thesis using assms(6) assms(2) by (auto simp: agg_loss_def agg_numerator_def agg_denominator_def)
  qed
qed

lemma same_shape_concat:
  "\<forall>(l, m) \<in> set ranks. same_shape l m \<Longrightarrow> same_shape (concat (map fst ranks)) (concat (map snd ranks))"
  by (induction ranks) (auto simp: same_shape_def)

lemma token_count_concat: "token_count (concat mss) = sum_list (map token_count mss)"
  by (induction mss) (simp_all add: token_count_def)

lemma rank_losses_run:
  assumes "ranks \<noteq> []" "mode \<in> agg_modes" "0 < T"
    and shapes: "\<forall>(l, m) \<in> set ranks. same_shape l m \<and> (\<forall>r \<in> set m. length r = T)"
    and bt: "mode = ''token-mean'' \<Longrightarrow> bt = Some t" and gb: "mode \<noteq> ''token-mean'' \<Longrightarrow> gb = Some g"
  shows "\<exists>losses. map_result (\<lambda>(l, m). agg_loss l m mode (length ranks) bt gb) ranks = Inr losses
    \<and> rmean losses = agg_numerator mode (concat (map fst ranks)) (concat (map snd ranks)) / agg_denominator mode t g T"
proof -
  let ?D = "agg_denominator mode t g T"
  let ?f = "\<lambda>(l, m). agg_numerator mode l m / ?D * real (length ranks)"
  have "(\<lambda>(l, m). agg_loss l m mode (length ranks) bt gb) p = Inr (?f p)" if "p \<in> set ranks" for p
  proof -
    obtain l m where p: "p = (l, m)" by (cases p)
    show ?thesis using that shapes bt gb unfolding p prod.case
      by (intro agg_loss_eq [OF assms(2) _ _ assms(3)]) auto
  qed
  then have "map_result (\<lambda>(l, m). agg_loss l m mode (length ranks) bt gb) ranks = Inr (map ?f ranks)"
    by (rule map_result_total)
  moreover have "rmean (map ?f ranks) = sum_list (map (\<lambda>(l, m). agg_numerator mode l m) ranks) / ?D"
  proof -
    have "sum_list (map ?f ranks) = sum_list (map (\<lambda>(l, m). agg_numerator mode l m) ranks) / ?D * real (length ranks)"
      by (simp add: case_prod_unfold sum_list_mult_const sum_list_div)
    then show ?thesis using assms(1) by (simp add: rmean_def)
  qed
  ultimately show ?thesis using shapes by (subst agg_numerator_concat) (auto simp: case_prod_unfold)
qed

lemma sft_ranks_run:
  assumes "ranks \<noteq> []" "mode \<in> agg_modes" "0 < T"
    and "\<forall>(l, m) \<in> set ranks. same_shape l m \<and> (\<forall>r \<in> set m. length r = T)"
    and L: "L = concat (map fst ranks)" and M: "M = concat (map snd ranks)"
  shows "\<exists>losses. map_result (\<lambda>(l, m). sft_loss l m mode (length ranks)
                     (\<lambda>_. if mode = ''token-mean'' then token_count M else mask_count (seq_mask M))) ranks = Inr losses
          \<and> sft_loss L M mode 1 (\<lambda>n. n) = Inr (rmean (map fst losses), sum_list (map snd losses))"
proof -
  let ?t = "int (token_count M)" and ?s = "int (mask_count (seq_mask M))"
  have ss: "\<forall>(l, m) \<in> set ranks. same_shape l m" and widths: "\<forall>r \<in> set M. length r = T" using assms(4) M by auto
  let ?neg = "map (\<lambda>(l, m). (map (map uminus) l :: real list list, m)) ranks"
  let ?bt = "if mode = ''token-mean'' then Some (max ?t 1) else None"
  let ?gb = "if mode = ''token-mean'' then None else Some (max ?s 1)"
  have neg: "concat (map fst ?neg) = map (map uminus) L" "concat (map snd ?neg) = M"
    by (simp_all add: L M map_concat comp_def case_prod_unfold)
  have neg_shape: "\<forall>(l, m) \<in> set ?neg. same_shape l m \<and> (\<forall>r \<in> set m. length r = T)"
    using assms(4) by (auto simp: same_shape_def comp_def)
  have den: "agg_denominator mode (max ?t 1) (max ?s 1) T = agg_denominator mode ?t ?s T"
    by (simp add: agg_denominator_def)
  obtain ls where ls: "map_result (\<lambda>(l, m). agg_loss l m mode (length ranks) ?bt ?gb) ?neg = Inr ls"
    "rmean ls = agg_numerator mode (map (map uminus) L) M / agg_denominator mode ?t ?s T"
    using rank_losses_run [OF _ assms(2,3) neg_shape, of ?bt "max ?t 1" ?gb "max ?s 1"] assms(1)
    unfolding neg den by auto
  have sft: "sft_loss l m mode n ar = bind_result (agg_loss (map (map uminus) l) m mode n ?bt ?gb) (\<lambda>loss. Inr (loss, token_count m))"
    if "ar = (\<lambda>_. if mode = ''token-mean'' then token_count M else mask_count (seq_mask M))
        \<or> ar = (\<lambda>n. n) \<and> m = M" for l m n ar
    using that by (auto simp: sft_loss_def)
  have ranks: "map_result (\<lambda>(l, m). sft_loss l m mode (length ranks)
                     (\<lambda>_. if mode = ''token-mean'' then token_count M else mask_count (seq_mask M))) ranks
      = Inr (zip ls (map token_count (map snd ranks)))"
  proof -
    have "list_all2 (\<lambda>(l, m) loss. agg_loss (map (map uminus) l) m mode (length ranks) ?bt ?gb = Inr loss) ranks ls"
      using ls(1) by (auto simp: map_result_map map_result_Inr_iff case_prod_unfold list_all2_map1)
    then show ?thesis
      by (auto simp: map_result_Inr_iff list_all2_conv_all_nth case_prod_unfold sft)
  qed
  have len: "length ls = length ranks" using map_result_length [OF ls(1)] by simp
  have "sft_loss L M mode 1 (\<lambda>n. n) = Inr (rmean ls, token_count M)"
  proof -
    have "same_shape (map (map uminus) L) M" using same_shape_concat [OF ss] by (simp add: L M same_shape_def comp_def)
    then have "agg_loss (map (map uminus) L) M mode 1 ?bt ?gb
        = Inr (agg_numerator mode (map (map uminus) L) M / agg_denominator mode (max ?t 1) (max ?s 1) T * real 1)"
      by (intro agg_loss_eq [OF assms(2) _ widths assms(3)]) simp_all
    then show ?thesis unfolding den by (simp add: sft ls(2))
  qed
  then show ?thesis using ranks len by (simp add: M token_count_concat)
qed

text \<open>C25: loss aggregation over data-parallel ranks. In every mode, if each rank aggregates its
  shard with the number of ranks and the global token and sequence counts, the mean of the rank
  losses is the loss of the whole batch on one rank; the supervised loss, which gets its counts
  by an all-reduce, has the same property.\<close>

theorem agg_loss_data_parallel:
  assumes "ranks \<noteq> []" "mode \<in> agg_modes" "0 < T"
    and "\<forall>(l, m) \<in> set ranks. same_shape l m \<and> (\<forall>r \<in> set m. length r = T)"
  shows "let L = concat (map fst ranks); M = concat (map snd ranks);
             tokens = token_count M; seqs = mask_count (seq_mask M)
    in (\<exists>losses. map_result (\<lambda>(l, m). agg_loss l m mode (length ranks) (Some (int tokens)) (Some (int seqs))) ranks = Inr losses
          \<and> agg_loss L M mode 1 None None = Inr (rmean losses))
     \<and> (\<exists>losses. map_result (\<lambda>(l, m). sft_loss l m mode (length ranks)
                     (\<lambda>_. if mode = ''token-mean'' then tokens else seqs)) ranks = Inr losses
          \<and> sft_loss L M mode 1 (\<lambda>n. n) = Inr (rmean (map fst losses), sum_list (map snd losses)))"
proof -
  let ?L = "concat (map fst ranks)" and ?M = "concat (map snd ranks)"
  let ?t = "int (token_count ?M)" and ?s = "int (mask_count (seq_mask ?M))"
  have ss: "\<forall>(l, m) \<in> set ranks. same_shape l m" and widths: "\<forall>r \<in> set ?M. length r = T" using assms(4) by auto
  have whole: "agg_loss ?L ?M mode 1 None None = Inr (agg_numerator mode ?L ?M / agg_denominator mode ?t ?s T)"
    using agg_loss_eq [OF assms(2) same_shape_concat [OF ss] widths assms(3), of None ?t 1 None ?s] by simp
  have agg: "\<exists>losses. map_result (\<lambda>(l, m). agg_loss l m mode (length ranks) (Some ?t) (Some ?s)) ranks = Inr losses
          \<and> agg_loss ?L ?M mode 1 None None = Inr (rmean losses)"
    using rank_losses_run [OF assms, of "Some ?t" ?t "Some ?s" ?s] whole by auto
  show ?thesis unfolding Let_def by (intro conjI agg sft_ranks_run [OF assms refl refl])
qed

theorem agg_loss_data_parallel_witness:
  "agg_loss [[1, 2], [3, 4]] [[True, True], [True, False]] ''token-mean'' 1 None None = Inr (rmean [3 / 3 * 2, 3 / 3 * 2])"
proof -
  have "\<exists>losses. map_result (\<lambda>(l, m). agg_loss l m ''token-mean'' 2 (Some 3) (Some 2))
          [([[1, 2]], [[True, True]]), ([[3, 4]], [[True, False]])] = Inr losses
       \<and> agg_loss [[1, 2], [3, 4]] [[True, True], [True, False]] ''token-mean'' 1 None None = Inr (rmean losses)"
    using agg_loss_data_parallel [of "[([[1, 2]], [[True, True]]), ([[3, 4]], [[True, False]])]" "''token-mean''" 2,
        unfolded Let_def, THEN conjunct1]
    by (simp add: agg_modes_def same_shape_def token_count_def seq_mask_def mask_count_def numeral_2_eq_2)
  then show ?thesis
    by (auto simp: agg_loss_def same_shape_def masked_sum_def of_mask_def)
qed
section \<open>The clipped surrogate\<close>

lemma max_scaled_neg:
  fixes a x y :: real
  shows "max (- a * x) (- a * y) = - a * (if 0 \<le> a then min x y else max x y)"
  by (auto simp: max_def min_def mult_le_cancel_left)

lemma clip_token_nonneg:
  assumes "0 \<le> clip_low" "0 \<le> clip_high" "0 \<le> advantage"
  shows "clip_token clip_low clip_high c lp old advantage
    = - advantage * min (exp (clip (lp - old) (- 20) 20)) (1 + clip_high)"
proof -
  have "min r (clip r (1 - clip_low) (1 + clip_high)) = min r (1 + clip_high)" for r
    using assms by (auto simp: clip_def min_def max_def)
  then show ?thesis using assms(3) unfolding clip_token_def Let_def max_scaled_neg by simp
qed

lemma clip_token_neg:
  assumes "0 \<le> clip_low" "0 \<le> clip_high" "advantage < 0"
  shows "clip_token clip_low clip_high c lp old advantage
    = - advantage * (let m = max (exp (clip (lp - old) (- 20) 20)) (1 - clip_low) in if 0 < c then min c m else m)"
proof -
  have "max r (clip r (1 - clip_low) (1 + clip_high)) = max r (1 - clip_low)" for r
    using assms by (auto simp: clip_def min_def max_def)
  moreover have "min (- advantage * c) (- advantage * m) = - advantage * min c m" for m
    using assms(3) by (auto simp: min_def mult_le_cancel_left)
  ultimately show ?thesis using assms(3) unfolding clip_token_def Let_def max_scaled_neg by simp
qed

lemma policy_gradient_token_eq:
  assumes "\<bar>lp - old\<bar> \<le> 20"
  shows "policy_gradient_token eps lp old advantage = clip_token eps eps 0 lp old advantage"
proof -
  have "clip (lp - old) (- 20) 20 = lp - old" using assms by (auto simp: clip_def)
  then show ?thesis by (simp add: policy_gradient_token_def clip_token_def Let_def minus_min_eq_max mult.commute)
qed

lemma map_tokens2_cong:
  assumes "same_shape xss yss" "\<And>i j. i < length xss \<Longrightarrow> j < length (xss ! i) \<Longrightarrow> f (xss ! i ! j) (yss ! i ! j) = g (xss ! i ! j) (yss ! i ! j)"
  shows "map_tokens2 f xss yss = map_tokens2 g xss yss"
  unfolding map_tokens2_def
proof (rule nth_equalityI)
  show "map2 (map2 f) xss yss ! i = map2 (map2 g) xss yss ! i" if "i < length (map2 (map2 f) xss yss)" for i
  proof -
    have "map2 f (xss ! i) (yss ! i) = map2 g (xss ! i) (yss ! i)"
      by (rule nth_equalityI) (use that assms(2) in simp_all)
    then show ?thesis using that by simp
  qed
qed simp_all

lemma same_shape_tokens2:
  assumes "same_shape xss yss"
  shows "same_shape (map_tokens2 f xss yss) zss = same_shape xss zss"
proof -
  have "map length (map_tokens2 f xss yss) = map length xss"
    using same_shapeD [OF assms] by (intro nth_equalityI) (simp_all add: map_tokens2_def)
  then show ?thesis by (simp add: same_shape_def)
qed

lemma nth_tokens2:
  assumes "same_shape xss yss" "i < length xss" "j < length (xss ! i)"
  shows "map_tokens2 f xss yss ! i ! j = f (xss ! i ! j) (yss ! i ! j)"
  using assms same_shapeD [OF assms(1)] by (simp add: map_tokens2_def)

lemma masked_sum_rows: "masked_sum vals msk = sum_list (map2 row_sum vals msk)"
proof -
  have "(\<lambda>v b. (if b then v else 0) * of_mask b) = (\<lambda>v b. v * of_mask b)"
    by (intro ext) (simp add: of_mask_def)
  then show ?thesis by (simp add: masked_sum_def row_sum_def)
qed

lemma mask_mean_is_token_mean:
  "same_shape vals msk \<Longrightarrow> mask_mean vals (Some msk) = agg_loss vals msk ''token-mean'' 1 None gb"
  by (simp add: mask_mean_def agg_loss_def masked_sum_rows of_int_max)

text \<open>C29: the clipped surrogate. A token with a non-negative advantage costs minus the advantage times
  the ratio capped at \<open>1 + clip_high\<close>; one with a negative advantage scales with the ratio, at least
  \<open>1 - clip_low\<close> and at most the dual-clip bound when that is set; so on-policy tokens cost minus
  the advantage. With symmetric clipping and no dual clip the loss is the PPO loss wherever the
  log-ratios are within 20.\<close>

theorem clipped_surrogate:
  assumes "0 \<le> clip_low" "0 \<le> clip_high"
  shows "(\<forall>c lp old adv. let r = exp (clip (lp - old) (- 20) 20); v = clip_token clip_low clip_high c lp old adv in
       (0 \<le> adv \<longrightarrow> v = - adv * min r (1 + clip_high))
     \<and> (adv < 0 \<and> c \<le> 0 \<longrightarrow> v = - adv * max r (1 - clip_low))
     \<and> (adv < 0 \<and> 0 < c \<longrightarrow> v = - adv * min c (max r (1 - clip_low)))
     \<and> (lp = old \<and> (c \<le> 0 \<or> 1 \<le> c) \<longrightarrow> v = - adv))
    \<and> (\<forall>lps olds advs msk. same_shape lps olds \<and> same_shape lps advs \<and> (\<forall>m. msk = Some m \<longrightarrow> same_shape lps m)
         \<and> (\<forall>i < length lps. \<forall>j < length (lps ! i). \<bar>lps ! i ! j - olds ! i ! j\<bar> \<le> 20) \<longrightarrow>
         policy_gradient_loss lps olds advs clip_low msk
           = asymmetric_clip_loss lps olds advs clip_low clip_low msk 0 None 1 None ''token-mean'' None)"
proof (intro conjI allI impI)
  fix c lp old adv
  have "clip 0 (- 20) 20 = (0 :: real)" by (simp add: clip_def)
  then show "let r = exp (clip (lp - old) (- 20) 20); v = clip_token clip_low clip_high c lp old adv in
       (0 \<le> adv \<longrightarrow> v = - adv * min r (1 + clip_high))
     \<and> (adv < 0 \<and> c \<le> 0 \<longrightarrow> v = - adv * max r (1 - clip_low))
     \<and> (adv < 0 \<and> 0 < c \<longrightarrow> v = - adv * min c (max r (1 - clip_low)))
     \<and> (lp = old \<and> (c \<le> 0 \<or> 1 \<le> c) \<longrightarrow> v = - adv)"
    using clip_token_nonneg [OF assms] clip_token_neg [OF assms] assms by (cases "0 \<le> adv") (auto simp: Let_def)
next
  fix lps olds advs :: "real list list" and msk :: "bool list list option"
  assume a: "same_shape lps olds \<and> same_shape lps advs \<and> (\<forall>m. msk = Some m \<longrightarrow> same_shape lps m)
         \<and> (\<forall>i < length lps. \<forall>j < length (lps ! i). \<bar>lps ! i ! j - olds ! i ! j\<bar> \<le> 20)"
  have pair: "same_shape olds advs" using a unfolding same_shape_def by (elim conjE) simp
  then have shape: "same_shape lps (map_tokens2 Pair olds advs)"
    using a same_shape_tokens2 [OF pair, of Pair lps] by (simp add: same_shape_def)
  have tokens: "map_tokens2 (\<lambda>lp (old, adv). policy_gradient_token clip_low lp old adv) lps (map_tokens2 Pair olds advs)
      = map_tokens2 (\<lambda>lp (old, adv). clip_token clip_low clip_low 0 lp old adv) lps (map_tokens2 Pair olds advs)"
    using a same_shapeD [of lps olds]
    by (intro map_tokens2_cong shape) (auto simp: nth_tokens2 [OF pair] policy_gradient_token_eq)
  show "policy_gradient_loss lps olds advs clip_low msk
           = asymmetric_clip_loss lps olds advs clip_low clip_low msk 0 None 1 None ''token-mean'' None"
  proof (cases msk)
    case None
    then show ?thesis using a by (simp add: policy_gradient_loss_def asymmetric_clip_loss_def tokens mask_mean_def)
  next
    case (Some m)
    then show ?thesis
      using a by (simp add: policy_gradient_loss_def asymmetric_clip_loss_def tokens
          same_shape_tokens2 [OF shape] mask_mean_is_token_mean [where gb = None])
  qed
qed

theorem clipped_surrogate_witness:
  "clip_token (1 / 5) (7 / 25) 3 (- 1) (- 1) (- 2) = 2
    \<and> policy_gradient_loss [[- 1]] [[- 1]] [[5]] (1 / 5) None
        = asymmetric_clip_loss [[- 1]] [[- 1]] [[5]] (1 / 5) (1 / 5) None 0 None 1 None ''token-mean'' None"
proof
  note shape = clipped_surrogate [of "1 / 5" "7 / 25"]
  show "clip_token (1 / 5) (7 / 25) 3 (- 1) (- 1) (- 2) = 2"
    using shape [THEN conjunct1, rule_format, of "- 1" "- 1" 3 "- 2"] by (simp add: Let_def)
  show "policy_gradient_loss [[- 1]] [[- 1]] [[5]] (1 / 5) None
        = asymmetric_clip_loss [[- 1]] [[- 1]] [[5]] (1 / 5) (1 / 5) None 0 None 1 None ''token-mean'' None"
    by (rule shape [THEN conjunct2, rule_format]) (simp_all add: same_shape_def)
qed

section \<open>Divergences\<close>

lemma kl_of_logits_value:
  assumes "s \<noteq> []" "length s = length t"
  shows "kl_of_logits ''reverse'' s t = Inr (rel_entropy (softmax s) (softmax t))"
    and "kl_of_logits ''forward'' s t = Inr (rel_entropy (softmax t) (softmax s))"
proof -
  have t: "t \<noteq> []" using assms by auto
  have sum: "sum_list (map2 (\<lambda>p (a, b). p * (a - b)) (softmax u) (zip (log_softmax u) (log_softmax v)))
      = sum_list (map2 (\<lambda>a b. exp a * (a - b)) (log_softmax u) (log_softmax v))"
    if "u \<noteq> []" "length u = length v" for u v
    unfolding exp_log_softmax [OF that(1), symmetric] using that(2)
    by (intro arg_cong [where f = sum_list] nth_equalityI) (simp_all add: log_softmax_def)
  have swap: "map2 (\<lambda>a b. exp b * (b - a)) xs ys = map2 (\<lambda>a b. exp a * (a - b)) ys xs" for xs ys :: "real list"
    by (subst zip_commute) (simp add: case_prod_unfold)
  show "kl_of_logits ''reverse'' s t = Inr (rel_entropy (softmax s) (softmax t))"
    using rel_entropy_softmax(3) [OF assms] sum [OF assms] by (simp add: kl_of_logits_def Let_def)
  show "kl_of_logits ''forward'' s t = Inr (rel_entropy (softmax t) (softmax s))"
    using rel_entropy_softmax(3) [OF t assms(2) [symmetric]] sum [OF t assms(2) [symmetric]]
    by (simp add: kl_of_logits_def Let_def swap)
qed

text \<open>The sampled penalty has the opposite sign of the divergence it is documented to estimate:
  its expectation under the current policy is minus the relative entropy to the reference.\<close>

lemma kl_penalty_expectation:
  assumes "length lps = length refs"
  shows "sum_list (map2 (\<lambda>lp ref. exp lp * (case kl_penalty [[lp]] [[ref]] None of Inr k \<Rightarrow> k | Inl _ \<Rightarrow> 0)) lps refs)
    = - rel_entropy (map exp lps) (map exp refs)"
  using assms
  by (induction lps refs rule: list_induct2)
    (simp_all add: kl_penalty_def same_shape_def mask_mean_def mean_all_def map_tokens2_def rmean_def rel_entropy_def algebra_simps)
lemma sum_rows_nonneg:
  assumes "same_shape vals m" "\<And>i j. i < length vals \<Longrightarrow> j < length (vals ! i) \<Longrightarrow> 0 \<le> vals ! i ! j"
  shows "0 \<le> sum_list (map2 row_sum vals m)
    \<and> (sum_list (map2 row_sum vals m) = 0 \<longleftrightarrow> (\<forall>i < length vals. \<forall>j < length (vals ! i). m ! i ! j \<longrightarrow> vals ! i ! j = 0))"
proof -
  note len = same_shapeD [OF assms(1)]
  have row: "0 \<le> row_sum (vals ! i) (m ! i)
      \<and> (row_sum (vals ! i) (m ! i) = 0 \<longleftrightarrow> (\<forall>j < length (vals ! i). m ! i ! j \<longrightarrow> vals ! i ! j = 0))"
    if i: "i < length vals" for i
  proof -
    let ?ts = "map2 (\<lambda>v b. v * of_mask b) (vals ! i) (m ! i)"
    have "\<forall>t \<in> set ?ts. 0 \<le> t" using assms(2) [OF i] by (auto simp: set_zip of_mask_def)
    then have "0 \<le> sum_list ?ts \<and> (sum_list ?ts = 0 \<longleftrightarrow> (\<forall>t \<in> set ?ts. t = 0))"
      by (simp add: sum_list_nonneg sum_list_nonneg_eq_0_iff del: set_map)
    moreover have "(\<forall>t \<in> set ?ts. t = 0) \<longleftrightarrow> (\<forall>j < length (vals ! i). m ! i ! j \<longrightarrow> vals ! i ! j = 0)"
      using len i by (auto simp: set_zip of_mask_def)
    ultimately show ?thesis unfolding row_sum_def by blast
  qed
  let ?rs = "map2 row_sum vals m"
  have "\<forall>r \<in> set ?rs. 0 \<le> r" using row len by (auto simp: set_zip)
  then have "0 \<le> sum_list ?rs \<and> (sum_list ?rs = 0 \<longleftrightarrow> (\<forall>r \<in> set ?rs. r = 0))"
    by (simp add: sum_list_nonneg sum_list_nonneg_eq_0_iff del: set_map)
  moreover have "(\<forall>r \<in> set ?rs. r = 0) \<longleftrightarrow> (\<forall>i < length vals. row_sum (vals ! i) (m ! i) = 0)"
    using len by (auto simp: set_zip)
  ultimately show ?thesis using row by simp
qed

lemma map_pairs_tokens2: "map (map (\<lambda>(a, b). f a b)) (map_tokens2 Pair xss yss) = map_tokens2 f xss yss"
  by (simp add: map_tokens2_def case_prod_unfold comp_def)

definition token_divergence :: "string \<Rightarrow> real \<Rightarrow> real list \<Rightarrow> real list \<Rightarrow> real" where
  "token_divergence kl_direction temperature s t =
     (let p = softmax (map (\<lambda>z. z / temperature) s); q = softmax (map (\<lambda>z. z / temperature) t)
      in if kl_direction = ''reverse'' then rel_entropy p q else rel_entropy q p)"

lemma token_divergence_zero:
  assumes "s \<noteq> []" "length s = length t"
  shows "0 \<le> token_divergence dir temp s t
    \<and> (token_divergence dir temp s t = 0 \<longleftrightarrow> softmax (map (\<lambda>z. z / temp) s) = softmax (map (\<lambda>z. z / temp) t))"
proof -
  have t: "t \<noteq> []" using assms by auto
  show ?thesis
    unfolding token_divergence_def Let_def
    using rel_entropy_softmax(1,2) [of "map (\<lambda>z. z / temp) s" "map (\<lambda>z. z / temp) t"]
      rel_entropy_softmax(1,2) [of "map (\<lambda>z. z / temp) t" "map (\<lambda>z. z / temp) s"] assms t by auto
qed

lemma full_shape:
  assumes "map (map length) xss = map (map length) yss"
  shows "same_shape xss yss" and "same_shape (concat xss) (concat yss)"
    and "i < length xss \<Longrightarrow> j < length (xss ! i) \<Longrightarrow> length (xss ! i ! j) = length (yss ! i ! j)"
proof -
  show "same_shape xss yss" using arg_cong [OF assms, of "map length"] by (simp add: same_shape_def comp_def)
  show "same_shape (concat xss) (concat yss)"
    using arg_cong [OF assms, of concat] by (simp add: same_shape_def map_concat)
  note shape = same_shapeD [OF \<open>same_shape xss yss\<close>]
  show "length (xss ! i ! j) = length (yss ! i ! j)" if "i < length xss" "j < length (xss ! i)"
  proof -
    have "map (map length) xss ! i ! j = map (map length) yss ! i ! j" using assms by simp
    then show ?thesis using that shape by simp
  qed
qed

lemma opd_kl_run:
  assumes "temp \<noteq> 0" "dir \<in> {''reverse'', ''forward''}" "map (map length) S = map (map length) T"
    and tokens: "\<forall>row \<in> set S. \<forall>s \<in> set row. s \<noteq> []"
  shows "opd_kl_divergence S T msk dir temp pw
    = bind_result (case pw of None \<Rightarrow> Inr (map_tokens2 (token_divergence dir temp) S T)
                   | Some w \<Rightarrow> position_weighted w (map_tokens2 (token_divergence dir temp) S T)) (\<lambda>kl. mask_mean kl msk)"
proof -
  let ?sc = "map (\<lambda>z. z / temp)"
  note shape = full_shape [OF assms(3)]
  have token: "kl_of_logits dir (?sc s) (?sc t) = Inr (token_divergence dir temp s t)"
    if "p \<in> set row" "row \<in> set (map_tokens2 Pair S T)" "p = (s, t)" for p row s t
  proof -
    have "\<exists>i j. i < length S \<and> j < length (S ! i) \<and> s = S ! i ! j \<and> t = T ! i ! j"
      using that same_shapeD [OF shape(1)] by (force simp: map_tokens2_def set_zip)
    then obtain i j where ij: "i < length S" "j < length (S ! i)" "s = S ! i ! j" "t = T ! i ! j" by blast
    have "s \<noteq> []" "length s = length t"
      using bspec [OF bspec [OF tokens nth_mem [OF ij(1)]] nth_mem [OF ij(2)]] shape(3) [OF ij(1,2)] ij(3,4) by simp_all
    then show ?thesis
      using kl_of_logits_value [of "?sc s" "?sc t"] assms(2) by (auto simp: token_divergence_def Let_def)
  qed
  have "map_result (map_result (\<lambda>(s, t). kl_of_logits dir (?sc s) (?sc t))) (map_tokens2 Pair S T)
      = Inr (map (map (\<lambda>(s, t). token_divergence dir temp s t)) (map_tokens2 Pair S T))"
    using token by (intro map_result_total) auto
  then show ?thesis
    unfolding map_pairs_tokens2 using assms(1,2) shape(1,2) by (auto simp: opd_kl_divergence_def Let_def)
qed
lemma opd_kl_tokens:
  assumes "temp \<noteq> 0" "dir \<in> {''reverse'', ''forward''}" "map (map length) S = map (map length) T"
    and "\<forall>row \<in> set S. \<forall>s \<in> set row. s \<noteq> []"
    and "\<forall>w. pw = Some w \<longrightarrow> (\<forall>row \<in> set S. length row \<le> length w) \<and> (\<forall>x \<in> set w. 0 < x)"
  obtains V where "opd_kl_divergence S T msk dir temp pw = mask_mean V msk" "same_shape V S"
    and "\<And>i j. i < length S \<Longrightarrow> j < length (S ! i)
      \<Longrightarrow> \<exists>c > 0. V ! i ! j = token_divergence dir temp (S ! i ! j) (T ! i ! j) * c"
proof -
  note shape = full_shape [OF assms(3)]
  let ?K = "map_tokens2 (token_divergence dir temp) S T"
  let ?W = "\<lambda>j. case pw of None \<Rightarrow> 1 | Some w \<Rightarrow> w ! j"
  obtain V where V_def: "V = map (\<lambda>row. map (\<lambda>j. row ! j * ?W j) [0..<length row]) ?K" by blast
  have K: "same_shape ?K S" unfolding same_shape_tokens2 [OF shape(1)] by (simp add: same_shape_def)
  note lenK = same_shapeD [OF K]
  have "position_weighted w ?K = Inr V" if "pw = Some w" for w
  proof -
    have "length row \<le> length w" if mem: "row \<in> set ?K" for row
    proof -
      obtain i where "i < length ?K" "?K ! i = row" using mem unfolding in_set_conv_nth by blast
      then have "i < length S" "length row = length (S ! i)" using lenK(1) lenK(2) [of i] by simp_all
      then show ?thesis using assms(5) \<open>pw = Some w\<close> by auto
    qed
    then show ?thesis
      unfolding position_weighted_def V_def using that
      by (intro map_result_total) (auto simp: Let_def intro!: nth_equalityI)
  qed
  moreover have "V = ?K" if "pw = None" using that by (simp add: V_def map_nth)
  ultimately have run: "opd_kl_divergence S T msk dir temp pw = mask_mean V msk"
    unfolding opd_kl_run [OF assms(1-4)] by (cases pw) simp_all
  have V: "same_shape V S" using K by (simp add: V_def same_shape_def comp_def)
  have W: "0 < ?W j" if "i < length S" "j < length (S ! i)" for i j
  proof (cases pw)
    case (Some w)
    then have "length (S ! i) \<le> length w" "\<forall>x \<in> set w. 0 < x" using assms(5) nth_mem [OF that(1)] by blast+
    then show ?thesis using that(2) Some by simp
  qed simp
  have at: "V ! i ! j = token_divergence dir temp (S ! i ! j) (T ! i ! j) * ?W j"
    if "i < length S" "j < length (S ! i)" for i j
    using that lenK by (cases pw) (simp_all add: V_def nth_tokens2 [OF shape(1)])
  show ?thesis by (rule that [OF run V]) (use at W in blast)
qed

text \<open>the distillation loss over the full vocabulary. In either direction, at any non-zero
  temperature and with positive position weights it is never negative, and it is zero exactly when
  student and teacher have the same tempered distribution at every token of the mask. Another
  direction raises ValueError.\<close>

theorem opd_kl_nonnegative:
  assumes "temp \<noteq> 0" "map (map length) S = map (map length) T" "\<forall>row \<in> set S. \<forall>s \<in> set row. s \<noteq> []"
    and "same_shape S m"
    and "\<forall>w. pw = Some w \<longrightarrow> (\<forall>row \<in> set S. length row \<le> length w) \<and> (\<forall>x \<in> set w. 0 < x)"
  shows "if dir \<notin> {''reverse'', ''forward''} then opd_kl_divergence S T (Some m) dir temp pw = Inl ValueError
    else \<exists>v. opd_kl_divergence S T (Some m) dir temp pw = Inr v \<and> 0 \<le> v
      \<and> (v = 0 \<longleftrightarrow> (\<forall>i < length S. \<forall>j < length (S ! i). m ! i ! j \<longrightarrow>
            softmax (map (\<lambda>z. z / temp) (S ! i ! j)) = softmax (map (\<lambda>z. z / temp) (T ! i ! j))))"
proof (cases "dir \<in> {''reverse'', ''forward''}")
  case True
  let ?same = "\<lambda>i j. softmax (map (\<lambda>z. z / temp) (S ! i ! j)) = softmax (map (\<lambda>z. z / temp) (T ! i ! j))"
  obtain V where run: "opd_kl_divergence S T (Some m) dir temp pw = mask_mean V (Some m)" and V: "same_shape V S"
    and at: "\<And>i j. i < length S \<Longrightarrow> j < length (S ! i)
      \<Longrightarrow> \<exists>c > 0. V ! i ! j = token_divergence dir temp (S ! i ! j) (T ! i ! j) * c"
    using opd_kl_tokens [OF assms(1) True assms(2,3,5)] by blast
  note len = same_shapeD [OF V]
  have Vm: "same_shape V m" using V assms(4) by (simp add: same_shape_def)
  have tok: "0 \<le> V ! i ! j \<and> (V ! i ! j = 0 \<longleftrightarrow> ?same i j)" if "i < length S" "j < length (S ! i)" for i j
    using at [OF that] token_divergence_zero [of "S ! i ! j" "T ! i ! j" dir temp] full_shape(3) [OF assms(2) that]
      bspec [OF bspec [OF assms(3) nth_mem [OF that(1)]] nth_mem [OF that(2)]] by auto
  have "0 \<le> V ! i ! j" if "i < length V" "j < length (V ! i)" for i j using that tok len by simp
  note total = sum_rows_nonneg [OF Vm this]
  let ?v = "sum_list (map2 row_sum V m) / max (real (token_count m)) 1"
  have "mask_mean V (Some m) = Inr ?v" using Vm by (simp add: mask_mean_def)
  moreover have "0 \<le> ?v" using total by (simp add: less_max_iff_disj)
  moreover have "?v = 0 \<longleftrightarrow> (\<forall>i < length S. \<forall>j < length (S ! i). m ! i ! j \<longrightarrow> ?same i j)"
  proof -
    have "max (real (token_count m)) 1 \<noteq> 0" by simp
    then show ?thesis using total len tok by simp
  qed
  ultimately show ?thesis using True run by auto
next
  case False
  then show ?thesis using assms(1) full_shape(1,2) [OF assms(2)] by (simp add: opd_kl_divergence_def Let_def)
qed

theorem opd_kl_nonnegative_witness:
  "\<exists>v. opd_kl_divergence [[[1, 2], [3, 4]]] [[[1, 2], [0, 4]]] (Some [[True, False]]) ''reverse'' 2 None = Inr v \<and> v = 0"
proof -
  have "\<exists>v. opd_kl_divergence [[[1, 2], [3, 4]]] [[[1, 2], [0, 4]]] (Some [[True, False]]) ''reverse'' 2 None = Inr v \<and> 0 \<le> v
      \<and> (v = 0 \<longleftrightarrow> (\<forall>i < 1. \<forall>j < length ([[[1, 2], [3, 4]]] ! i). [[True, False]] ! i ! j \<longrightarrow>
            softmax (map (\<lambda>z. z / 2) ([[[1, 2], [3, 4]]] ! i ! j)) = softmax (map (\<lambda>z. z / 2) ([[[1, 2], [0, 4]]] ! i ! j))))"
    using opd_kl_nonnegative [of 2 "[[[1, 2], [3, 4]]]" "[[[1, 2], [0, 4]]]" "[[True, False]]" None "''reverse''"]
    by (simp add: same_shape_def)
  then show ?thesis by (auto simp: All_less_Suc)
qed
section \<open>The geometric-mean ratio and the clipped value error\<close>

lemma gmpo_log_ratio_cases:
  assumes "0 \<le> clip_low" "0 \<le> clip_high"
  shows "0 < adv \<Longrightarrow> gmpo_log_ratio clip_low clip_high lp old adv = min (lp - old) clip_high"
    and "adv < 0 \<Longrightarrow> gmpo_log_ratio clip_low clip_high lp old adv = max (lp - old) (- clip_low)"
    and "gmpo_log_ratio clip_low clip_high lp old 0 = 0"
  using assms by (auto simp: gmpo_log_ratio_def Let_def clip_def min_def max_def)

lemma value_token_pessimistic:
  "(v - ret)\<^sup>2 \<le> value_token clip_ratio v old ret"
  "\<bar>v - old\<bar> \<le> clip_ratio \<Longrightarrow> value_token clip_ratio v old ret = (v - ret)\<^sup>2"
proof -
  show "(v - ret)\<^sup>2 \<le> value_token clip_ratio v old ret" by (simp add: value_token_def Let_def)
  show "value_token clip_ratio v old ret = (v - ret)\<^sup>2" if "\<bar>v - old\<bar> \<le> clip_ratio"
  proof -
    have "clip (v - old) (- clip_ratio) clip_ratio = v - old" using that by (auto simp: clip_def)
    then show ?thesis by (simp add: value_token_def)
  qed
qed

lemma entropy_bonus_nonneg:
  assumes "entropy_bonus logprobs (Some m) = Inr v" "\<forall>row \<in> set logprobs. \<forall>lp \<in> set row. lp \<le> 0"
  shows "0 \<le> v"
proof -
  let ?E = "map (map (\<lambda>lp. - (exp lp * lp))) logprobs"
  have shape: "same_shape ?E m" and v: "v = sum_list (map2 row_sum ?E m) / max (real (token_count m)) 1"
    using assms(1) by (auto simp: entropy_bonus_def mask_mean_def split: if_splits)
  have "0 \<le> ?E ! i ! j" if "i < length ?E" "j < length (?E ! i)" for i j
  proof -
    have ij: "i < length logprobs" "j < length (logprobs ! i)" using that by simp_all
    have "logprobs ! i ! j \<le> 0" by (rule bspec [OF bspec [OF assms(2) nth_mem [OF ij(1)]] nth_mem [OF ij(2)]])
    then show ?thesis using that by (simp add: mult_nonneg_nonpos)
  qed
  then show ?thesis using sum_rows_nonneg [OF shape] v by (simp add: less_max_iff_disj)
qed

end
