(* ===== verification/Rollout_Correction.thy ===== *)
theory Rollout_Correction
  imports Policy_Losses
begin

text \<open>
  \<open>lumenrl/algorithms/rollout_correction.py\<close>: importance-sampling weights between the training and
  the rollout policy, the rejection masks, the parsers of their thresholds, and the update of a
  batch. Arithmetic is exact; the logged metrics appear only where computing them can fail.
\<close>

section \<open>Numbers in text\<close>

definition digits_or_empty :: "string \<Rightarrow> nat option" where
  "digits_or_empty s = (if s = [] then Some 0 else parse_digits False 0 s)"

definition count_digits :: "string \<Rightarrow> nat" where
  "count_digits s = length (filter is_digit s)"

definition mantissa :: "string \<Rightarrow> real option" where
  "mantissa s =
     (let (ip, fp) = (case split_first (CHR ''.'') s of None \<Rightarrow> (s, []) | Some (a, b) \<Rightarrow> (a, b))
      in if ip = [] \<and> fp = [] then None
         else case (digits_or_empty ip, digits_or_empty fp) of
                (Some i, Some f) \<Rightarrow> Some (real i + real f / 10 ^ count_digits fp)
              | _ \<Rightarrow> None)"

definition signed :: "(string \<Rightarrow> 'a option) \<Rightarrow> ('a \<Rightarrow> 'a) \<Rightarrow> string \<Rightarrow> 'a option" where
  "signed p neg s =
     (case s of c # cs \<Rightarrow> if c = CHR ''-'' then map_option neg (p cs) else if c = CHR ''+'' then p cs else p s
              | [] \<Rightarrow> p s)"

definition scale10 :: "real \<Rightarrow> int \<Rightarrow> real" where
  "scale10 x e = (if 0 \<le> e then x * 10 ^ nat e else x / 10 ^ nat (- e))"

definition unsigned_float :: "string \<Rightarrow> real option" where
  "unsigned_float s =
     (let s' = map lower_char s
      in case split_first (CHR ''e'') s' of
           None \<Rightarrow> mantissa s'
         | Some (m, ex) \<Rightarrow>
             (case (mantissa m, signed (\<lambda>d. map_option int (parse_digits False 0 d)) uminus ex) of
                (Some x, Some e) \<Rightarrow> Some (scale10 x e) | _ \<Rightarrow> None))"

definition py_float :: "string \<Rightarrow> real result" where
  \<comment> \<open>\<open>float(s)\<close> of a finite decimal; the words inf and nan are not modelled\<close>
  "py_float s = (case signed unsigned_float uminus (py_strip s) of None \<Rightarrow> Inl ValueError | Some x \<Rightarrow> Inr x)"

section \<open>Thresholds\<close>

datatype threshold_spec = Bool_Spec bool | Num_Spec real | Text_Spec string

definition check_is_threshold :: "real \<Rightarrow> real option \<Rightarrow> (real \<times> real option) result" where
  "check_is_threshold upper lower =
     (if upper \<le> 0 then Inl ValueError
      else case lower of
             None \<Rightarrow> Inr (upper, None)
           | Some l \<Rightarrow> if l \<le> 0 \<or> upper < l then Inl ValueError else Inr (upper, Some l))"

definition parse_rollout_is_threshold :: "threshold_spec \<Rightarrow> (real \<times> real option) result" where
  "parse_rollout_is_threshold threshold_spec =
     (case threshold_spec of
        Bool_Spec b \<Rightarrow> Inl TypeError
      | Num_Spec x \<Rightarrow> check_is_threshold x None
      | Text_Spec s \<Rightarrow>
          let spec = py_strip s
          in if spec = [] then Inl ValueError
             else (case split_first (CHR ''_'') spec of
                     Some (lo, hi) \<Rightarrow> bind_result (py_float lo) (\<lambda>l. bind_result (py_float hi) (\<lambda>u. check_is_threshold u (Some l)))
                   | None \<Rightarrow> bind_result (py_float spec) (\<lambda>u. check_is_threshold u None)))"

datatype raw_threshold = Raw_Num real | Raw_Text string

definition nonempty_parts :: "string \<Rightarrow> string list" where
  \<comment> \<open>\<open>[p.strip() for p in s.split(",") if p.strip()]\<close>\<close>
  "nonempty_parts s = filter (\<lambda>p. p \<noteq> []) (map py_strip (split_on (CHR '','') s))"

definition raw_specs :: "threshold_spec \<Rightarrow> raw_threshold list" where
  "raw_specs threshold_spec =
     (case threshold_spec of
        Bool_Spec b \<Rightarrow> [Raw_Text (if b then ''True'' else ''False'')]
      | Num_Spec x \<Rightarrow> [Raw_Num x]
      | Text_Spec s \<Rightarrow> map Raw_Text (nonempty_parts s))"

definition raw_value :: "raw_threshold \<Rightarrow> real result" where
  "raw_value r = (case r of Raw_Num x \<Rightarrow> Inr x | Raw_Text s \<Rightarrow> py_float s)"

definition raw_pair :: "raw_threshold \<Rightarrow> (string \<times> string) option" where
  "raw_pair r = (case r of Raw_Num x \<Rightarrow> None | Raw_Text s \<Rightarrow> split_first (CHR ''_'') s)"

definition option_thresholds :: "string \<Rightarrow> raw_threshold \<Rightarrow> (real option \<times> real) result" where
  \<comment> \<open>lower and upper bound of one option; \<open>float(str(1.0 / x))\<close> is \<open>1 / x\<close>\<close>
  "option_thresholds opt spec =
     (if has_suffix ''k1'' opt
      then bind_result
             (case raw_pair spec of
                Some (lo, hi) \<Rightarrow> bind_result (py_float lo) (\<lambda>l. bind_result (py_float hi) (\<lambda>u. Inr (l, u)))
              | None \<Rightarrow> bind_result (raw_value spec) (\<lambda>u. if u = 0 then Inl ZeroDivisionError else Inr (1 / u, u)))
             (\<lambda>(l, u). if l \<le> 0 \<or> u \<le> 0 then Inl ValueError else Inr (Some l, u))
      else if raw_pair spec \<noteq> None then Inl ValueError
      else bind_result (raw_value spec) (\<lambda>u. if u \<le> 0 then Inl ValueError else Inr (None, u)))"

definition parse_rollout_rs_thresholds ::
  "string list \<Rightarrow> threshold_spec option \<Rightarrow> (string, real option \<times> real) dict result"
where
  "parse_rollout_rs_thresholds options threshold_spec =
     (case threshold_spec of
        None \<Rightarrow> Inl ValueError
      | Some spec \<Rightarrow>
          let raws = raw_specs spec
          in if raws = [] \<or> (length raws \<noteq> 1 \<and> length raws \<noteq> length options) then Inl ValueError
             else let raws' = (if length raws = 1 \<and> 1 < length options then replicate (length options) (hd raws) else raws)
                  in map_result (\<lambda>(opt, raw). bind_result (option_thresholds opt raw) (\<lambda>t. Inr (opt, t))) (zip options raws'))"

section \<open>Rejection\<close>

definition supported_rs_options :: "string list" where
  "supported_rs_options =
     [''token_k1'', ''token_k2'', ''token_k3'', ''seq_sum_k1'', ''seq_sum_k2'', ''seq_sum_k3'',
      ''seq_mean_k1'', ''seq_mean_k2'', ''seq_mean_k3'', ''seq_max_k2'', ''seq_max_k3'']"

definition token_stat :: "string \<Rightarrow> real \<Rightarrow> real" where
  \<comment> \<open>\<open>token_k1\<close>, \<open>token_k2\<close> or \<open>token_k3\<close> of a log-ratio, by the end of the option\<close>
  "token_stat opt log_ratio =
     (let lr = clip log_ratio (- 20) 20
      in if has_suffix ''k1'' opt then - lr
         else if has_suffix ''k2'' opt then 1 / 2 * lr\<^sup>2 else exp lr - 1 - lr)"

definition row_mean :: "real list \<Rightarrow> bool list \<Rightarrow> real" where
  \<comment> \<open>\<open>_masked_mean(v, mask, axis=-1)\<close>\<close>
  "row_mean vs ms = row_sum vs ms / max (real (mask_count ms)) tiny"

definition row_max :: "real list \<Rightarrow> bool list \<Rightarrow> real" where
  \<comment> \<open>\<open>_seq_max\<close>, zero when nothing is selected\<close>
  "row_max vs ms =
     (let sel = map fst (filter (\<lambda>(_, b). b) (zip vs ms)) in if sel = [] then 0 else foldl max (hd sel) (tl sel))"

definition in_bounds :: "string \<Rightarrow> real option \<times> real \<Rightarrow> real \<Rightarrow> bool" where
  "in_bounds opt th x =
     (case th of (Some lower, upper) \<Rightarrow> if has_suffix ''k1'' opt then ln lower \<le> x \<and> x \<le> ln upper else x \<le> upper
               | (None, upper) \<Rightarrow> x \<le> upper)"

definition token_keep :: "string \<Rightarrow> real option \<times> real \<Rightarrow> real list \<Rightarrow> bool list \<Rightarrow> bool list result" where
  \<comment> \<open>\<open>token_keep_bool\<close> of one row\<close>
  "token_keep opt th log_ratio ms =
     (let kx = map (token_stat opt) log_ratio
      in if has_prefix ''token'' opt then Inr (map (in_bounds opt th) kx)
         else if has_prefix ''seq_sum'' opt then Inr (map (\<lambda>_. in_bounds opt th (row_sum kx ms)) ms)
         else if has_prefix ''seq_mean'' opt then Inr (map (\<lambda>_. in_bounds opt th (row_mean kx ms)) ms)
         else if ms = [] then Inl IndexError
         else Inr (map (\<lambda>_. in_bounds opt th (row_max kx ms)) ms))"

definition unique_in_order :: "'a list \<Rightarrow> 'a list" where
  "unique_in_order xs = foldl (\<lambda>acc x. if x \<in> set acc then acc else acc @ [x]) [] xs"

definition rs_options :: "string \<Rightarrow> string list result" where
  \<comment> \<open>\<open>normalized\<close>\<close>
  "rs_options rollout_rs =
     (let modes = nonempty_parts rollout_rs
      in if modes = [] then Inl ValueError
         else if \<exists>o' \<in> set modes. o' \<notin> set supported_rs_options then Inl ValueError
         else Inr (unique_in_order modes))"

definition combine_keep :: "bool list \<Rightarrow> bool list list \<Rightarrow> bool list" where
  \<comment> \<open>the product of the keep masks of one row with its response mask\<close>
  "combine_keep ms keeps = foldl (map2 (\<and>)) ms keeps"

definition compute_rollout_rejection_mask ::
  "real list list \<Rightarrow> bool list list \<Rightarrow> string \<Rightarrow> threshold_spec option \<Rightarrow> bool list list result"
where
  "compute_rollout_rejection_mask log_ratio response_mask rollout_rs rollout_rs_threshold =
     (if rollout_rs_threshold = None then Inl ValueError
      else if log_ratio = [] then Inr response_mask
      else bind_result (rs_options rollout_rs) (\<lambda>opts.
           bind_result (parse_rollout_rs_thresholds opts rollout_rs_threshold) (\<lambda>ths.
             if \<not> same_shape log_ratio response_mask then Inl RuntimeError
             else map_result (\<lambda>(lr, ms). bind_result (map_result (\<lambda>(opt, th). token_keep opt th lr ms) ths)
                                           (\<lambda>keeps. Inr (combine_keep ms keeps)))
                    (zip log_ratio response_mask))))"

section \<open>Importance-sampling weights\<close>

definition seq_log_ratio :: "string \<Rightarrow> real list \<Rightarrow> bool list \<Rightarrow> real" where
  "seq_log_ratio reduction lr ms =
     (if reduction = ''mean'' then row_sum lr ms / real (max (mask_count ms) 1) else row_sum lr ms)"

definition raw_weights :: "string \<Rightarrow> string \<Rightarrow> real list \<Rightarrow> bool list \<Rightarrow> real list" where
  "raw_weights rollout_is reduction lr ms =
     map2 (\<lambda>x b. exp (clip (if rollout_is = ''token'' then x else seq_log_ratio reduction lr ms) (- 20) 20) * of_mask b) lr ms"

definition truncate_weight :: "real \<times> real option \<Rightarrow> real \<Rightarrow> real" where
  "truncate_weight th w =
     (case th of (upper, None) \<Rightarrow> min w upper | (upper, Some lower) \<Rightarrow> if lower \<le> w \<and> w \<le> upper then w else 0)"

definition batch_weight_mean :: "string \<Rightarrow> real list list \<Rightarrow> bool list list \<Rightarrow> real" where
  \<comment> \<open>\<open>w_mean\<close> of the batch normalisation\<close>
  "batch_weight_mean rollout_is ws msk =
     (if rollout_is = ''token'' then masked_sum ws msk / max (real (token_count msk)) tiny
      else sum_list (map2 (\<lambda>w ms. row_mean w ms * of_mask (0 < mask_count ms)) ws msk)
             / max (real (mask_count (seq_mask msk))) tiny)"

definition compute_rollout_correction_weights ::
  "real list list \<Rightarrow> bool list list \<Rightarrow> string \<Rightarrow> threshold_spec \<Rightarrow> bool \<Rightarrow> string \<Rightarrow> real list list result"
where
  \<comment> \<open>the effective sample size divides by the masked mean square of the weights, a Python float\<close>
  "compute_rollout_correction_weights log_ratio response_mask rollout_is threshold batch_normalize reduction =
     (if rollout_is \<noteq> ''token'' \<and> rollout_is \<noteq> ''sequence'' then Inl ValueError
      else bind_result (parse_rollout_is_threshold threshold) (\<lambda>th.
        if \<not> same_shape log_ratio response_mask then Inl RuntimeError
        else let ws = map2 (\<lambda>lr ms. map (truncate_weight th) (raw_weights rollout_is reduction lr ms)) log_ratio response_mask
        in if log_ratio = [] \<or> (rollout_is = ''token'' \<and> concat log_ratio = []) then Inl RuntimeError
           else if masked_sum (map (map (\<lambda>w. w\<^sup>2)) ws) response_mask = 0 then Inl ZeroDivisionError
           else let w_mean = batch_weight_mean rollout_is ws response_mask
                in Inr (if batch_normalize \<and> tiny < w_mean then map (map (\<lambda>w. w / w_mean)) ws else ws)))"

section \<open>Batches\<close>

definition compute_rollout_correction_and_rejection_mask ::
  "real list list \<Rightarrow> real list list \<Rightarrow> bool list list \<Rightarrow> string option \<Rightarrow> threshold_spec option \<Rightarrow> bool
    \<Rightarrow> string option \<Rightarrow> threshold_spec option \<Rightarrow> string \<Rightarrow> (real list list option \<times> bool list list) result"
where
  "compute_rollout_correction_and_rejection_mask old_log_prob rollout_log_prob response_mask rollout_is
     rollout_is_threshold batch_normalize rollout_rs rollout_rs_threshold reduction =
     (if \<not> same_shape old_log_prob rollout_log_prob then Inl RuntimeError
      else let log_ratio = map_tokens2 (-) old_log_prob rollout_log_prob
      in bind_result
           (case (rollout_is, rollout_is_threshold) of
              (Some level, Some th) \<Rightarrow>
                bind_result (compute_rollout_correction_weights log_ratio response_mask level th batch_normalize reduction)
                  (\<lambda>ws. Inr (Some ws))
            | _ \<Rightarrow> Inr None) (\<lambda>ws.
         bind_result
           (case rollout_rs of
              None \<Rightarrow> Inr response_mask
            | Some rs \<Rightarrow> compute_rollout_rejection_mask log_ratio response_mask rs rollout_rs_threshold) (\<lambda>modified.
         if log_ratio = [] then Inl RuntimeError else Inr (ws, modified))))"

record correction_batch =
  cb_old :: "real list list option"
  cb_rollout :: "real list list option"
  cb_fp8 :: "real list list option"
  cb_response :: "bool list list option"
  cb_attention :: "bool list list option"
  cb_weights :: "real list list option"

definition width_of :: "'a list list \<Rightarrow> nat" where
  "width_of xss = (case xss of [] \<Rightarrow> 0 | xs # _ \<Rightarrow> length xs)"

definition clean_token :: "real \<Rightarrow> real \<Rightarrow> bool \<Rightarrow> real" where
  \<comment> \<open>\<open>torch.where(unreported, old_w, roll_w)\<close>\<close>
  "clean_token old roll m = (if roll = 0 \<and> m then old else roll)"

definition splice :: "nat \<Rightarrow> 'a list list \<Rightarrow> 'a list list \<Rightarrow> 'a list list" where
  \<comment> \<open>\<open>x[..., :width] = y\<close>\<close>
  "splice w new old = map2 (\<lambda>n r. n @ drop w r) new old"

definition batch_mask :: "correction_batch \<Rightarrow> bool list list option" where
  "batch_mask b = (case cb_response b of Some m \<Rightarrow> Some m | None \<Rightarrow> cb_attention b)"

definition set_batch_mask :: "bool list list \<Rightarrow> correction_batch \<Rightarrow> correction_batch" where
  "set_batch_mask m b = (case cb_response b of Some _ \<Rightarrow> b\<lparr>cb_response := Some m\<rparr> | None \<Rightarrow> b\<lparr>cb_attention := Some m\<rparr>)"

definition clean_batch_logprobs ::
  "correction_batch \<Rightarrow> (real list list \<times> real list list \<times> bool list list \<times> correction_batch) result"
where
  "clean_batch_logprobs b =
     (case cb_old b of
        None \<Rightarrow> Inl KeyError
      | Some old \<Rightarrow>
          (case (case cb_rollout b of Some r \<Rightarrow> Some r | None \<Rightarrow> cb_fp8 b, batch_mask b) of
             (Some roll, Some msk) \<Rightarrow>
               let w = min (width_of old) (min (width_of roll) (width_of msk));
                   old_w = map (take w) old; roll_w = map (take w) roll; mask_w = map (take w) msk
               in if length roll \<noteq> length old \<or> length msk \<noteq> length old then Inl RuntimeError
                  else let clean = map2 (\<lambda>os (rs, ms). map2 (\<lambda>o' (r, m). clean_token o' r m) os (zip rs ms)) old_w (zip roll_w mask_w);
                           unreported = (\<exists>(rs, ms) \<in> set (zip roll_w mask_w). \<exists>(r, m) \<in> set (zip rs ms). r = 0 \<and> m)
                       in Inr (old_w, clean, mask_w, if unreported then b\<lparr>cb_rollout := Some (splice w clean roll)\<rparr> else b)
           | _ \<Rightarrow> Inl KeyError))"

record correction_config =
  cc_is :: string
  cc_is_threshold :: string
  cc_normalize :: bool
  cc_rs :: string
  cc_rs_threshold :: string
  cc_reduction :: string

definition or_none :: "string \<Rightarrow> string option" where
  "or_none s = (if s = [] then None else Some s)"

definition compute_rollout_correction_and_add_to_batch :: "correction_batch \<Rightarrow> correction_config \<Rightarrow> correction_batch result" where
  "compute_rollout_correction_and_add_to_batch b cfg =
     bind_result (clean_batch_logprobs b) (\<lambda>(old_w, roll_w, mask_w, b1).
     bind_result
       (compute_rollout_correction_and_rejection_mask old_w roll_w mask_w (or_none (cc_is cfg))
          (map_option Text_Spec (or_none (cc_is_threshold cfg))) (cc_normalize cfg) (or_none (cc_rs cfg))
          (map_option Text_Spec (or_none (cc_rs_threshold cfg))) (cc_reduction cfg))
       (\<lambda>(ws, modified).
          let original = (case batch_mask b1 of Some m \<Rightarrow> m | None \<Rightarrow> []);
              b2 = set_batch_mask (splice (width_of modified) modified original) b1
          in Inr (case ws of None \<Rightarrow> b2 | Some w \<Rightarrow> b2\<lparr>cb_weights := Some w\<rparr>)))"

definition apply_bypass_mode :: "correction_batch \<Rightarrow> correction_batch result" where
  "apply_bypass_mode b = (case cb_rollout b of None \<Rightarrow> Inl ValueError | Some r \<Rightarrow> Inr (b\<lparr>cb_old := Some r\<rparr>))"

section \<open>The legacy interface\<close>

definition token_level_tis :: "real \<Rightarrow> real \<Rightarrow> real \<Rightarrow> real \<Rightarrow> real" where
  \<comment> \<open>one token\<close>
  "token_level_tis cl bf16 fp8 advantage = clip (exp (clip (bf16 - fp8) (- 20) 20)) (1 / cl) cl * advantage"

definition token_level_mis :: "real list list \<Rightarrow> real list list \<Rightarrow> real list list \<Rightarrow> real list list result" where
  "token_level_mis bf16 fp8 advantages =
     (if \<not> same_shape bf16 fp8 \<or> \<not> same_shape bf16 advantages then Inl RuntimeError
      else let ratio = map_tokens2 (\<lambda>a b. exp (clip (a - b) (- 20) 20)) bf16 fp8
           in if concat ratio = [] then Inr advantages
              else Inr (map_tokens2 (\<lambda>r a. r / max (rmean (concat ratio)) tiny * a) ratio advantages))"

definition compute_rollout_is_weights ::
  "real list list \<Rightarrow> real list list \<Rightarrow> bool list list \<Rightarrow> string \<Rightarrow> threshold_spec \<Rightarrow> bool \<Rightarrow> real list list result"
where
  "compute_rollout_is_weights old roll msk rollout_is threshold batch_normalize =
     (if \<not> same_shape old roll then Inl RuntimeError
      else bind_result (compute_rollout_correction_weights (map_tokens2 (-) old roll) msk rollout_is threshold batch_normalize ''sum'')
             (\<lambda>ws. Inr (map_tokens2 (\<lambda>w b. w * of_mask b) ws msk)))"

definition apply_rejection_sampling :: "bool list list \<Rightarrow> real list list \<Rightarrow> real \<Rightarrow> bool list list" where
  "apply_rejection_sampling response_mask is_weights threshold =
     (if threshold \<le> 0 then response_mask
      else map_tokens2 (\<lambda>m w. m \<and> \<not> threshold < w) response_mask is_weights)"
section \<open>The weights\<close>

lemma is_threshold_bounds:
  assumes "parse_rollout_is_threshold th = Inr (upper, lower)"
  shows "0 < upper" and "lower = Some l \<Longrightarrow> 0 < l \<and> l \<le> upper"
proof -
  have "0 < upper \<and> (\<forall>l. lower = Some l \<longrightarrow> 0 < l \<and> l \<le> upper)" if "check_is_threshold u lo = Inr (upper, lower)" for u lo
    using that by (auto simp: check_is_threshold_def split: if_splits option.splits)
  then have "0 < upper \<and> (\<forall>l. lower = Some l \<longrightarrow> 0 < l \<and> l \<le> upper)"
    using assms
    by (auto simp: parse_rollout_is_threshold_def Let_def split: threshold_spec.splits if_splits option.splits prod.splits)
  then show "0 < upper" "lower = Some l \<Longrightarrow> 0 < l \<and> l \<le> upper" by blast+
qed

definition raw_ratio :: "string \<Rightarrow> string \<Rightarrow> real list list \<Rightarrow> bool list list \<Rightarrow> nat \<Rightarrow> nat \<Rightarrow> real" where
  \<comment> \<open>the likelihood ratio of token \<open>j\<close> of row \<open>i\<close>, of the token or of its sequence, within the safety bound\<close>
  "raw_ratio rollout_is reduction lr msk i j =
     exp (clip (if rollout_is = ''token'' then lr ! i ! j else seq_log_ratio reduction (lr ! i) (msk ! i)) (- 20) 20)"

definition accepted_ratio :: "real \<times> real option \<Rightarrow> real \<Rightarrow> bool" where
  "accepted_ratio th r = (case th of (upper, lower) \<Rightarrow> lower = None \<or> (the lower \<le> r \<and> r \<le> upper))"

definition plain_weights :: "string \<Rightarrow> string \<Rightarrow> real \<times> real option \<Rightarrow> real list list \<Rightarrow> bool list list \<Rightarrow> real list list" where
  "plain_weights rollout_is reduction th lr msk =
     map2 (\<lambda>l ms. map (truncate_weight th) (raw_weights rollout_is reduction l ms)) lr msk"

lemma plain_weights_at:
  assumes "same_shape lr msk"
  shows "same_shape (plain_weights level red th lr msk) msk"
    and "i < length lr \<Longrightarrow> j < length (lr ! i) \<Longrightarrow>
      plain_weights level red th lr msk ! i ! j = truncate_weight th (raw_ratio level red lr msk i j * of_mask (msk ! i ! j))"
proof -
  note len = same_shapeD [OF assms]
  show "same_shape (plain_weights level red th lr msk) msk"
    by (rule same_shapeI) (use len in \<open>simp_all add: plain_weights_def raw_weights_def\<close>)
  show "plain_weights level red th lr msk ! i ! j = truncate_weight th (raw_ratio level red lr msk i j * of_mask (msk ! i ! j))"
    if "i < length lr" "j < length (lr ! i)"
    using that len by (simp add: plain_weights_def raw_weights_def raw_ratio_def)
qed

lemma truncated_ratio:
  assumes "0 < upper" "\<And>l. lower = Some l \<Longrightarrow> 0 < l \<and> l \<le> upper" "0 < r"
  shows "truncate_weight (upper, lower) (r * of_mask b)
      = (if b \<and> accepted_ratio (upper, lower) r then min r upper else 0)"
  using assms by (cases lower) (auto simp: truncate_weight_def accepted_ratio_def of_mask_def)

lemma raw_ratio_pos: "0 < raw_ratio level red lr msk i j"
  by (simp add: raw_ratio_def)

lemma weight_mean_scaled:
  "batch_weight_mean level (map (map (\<lambda>w. w / c)) ws) msk = batch_weight_mean level ws msk / c"
proof -
  have row: "row_sum (map (\<lambda>w. w / c) w) ms = row_sum w ms / c" for w ms
    by (simp add: row_sum_def zip_map1 comp_def case_prod_unfold sum_list_div [symmetric])
  have cols: "sum_list (map2 f (map g xs) ys) = sum_list (map2 (\<lambda>x y. f (g x) y) xs ys)" for f :: "real list \<Rightarrow> bool list \<Rightarrow> real" and g :: "real list \<Rightarrow> real list" and xs and ys :: "bool list list"
    by (simp add: zip_map1 comp_def case_prod_unfold)
  show ?thesis
    unfolding batch_weight_mean_def masked_sum_rows row_mean_def cols row
    by (simp add: sum_list_div [symmetric] case_prod_unfold field_simps)
qed

lemma squares_zero_iff:
  assumes "same_shape ws msk"
  shows "masked_sum (map (map (\<lambda>w. w\<^sup>2)) ws) msk = 0 \<longleftrightarrow> (\<forall>i < length ws. \<forall>j < length (ws ! i). msk ! i ! j \<longrightarrow> ws ! i ! j = 0)"
proof -
  have "same_shape (map (map (\<lambda>w. w\<^sup>2)) ws) msk" using assms by (simp add: same_shape_def comp_def)
  then show ?thesis unfolding masked_sum_rows
    using sum_rows_nonneg [of "map (map (\<lambda>w. w\<^sup>2)) ws" msk] by simp
qed
lemma weights_run:
  fixes red :: string
  assumes "parse_rollout_is_threshold spec = Inr th" "same_shape lr msk" "level \<in> {''token'', ''sequence''}"
  defines "ws \<equiv> plain_weights level red th lr msk"
  shows "compute_rollout_correction_weights lr msk level spec nrm red =
    (if lr = [] \<or> (level = ''token'' \<and> concat lr = []) then Inl RuntimeError
     else if \<not> (\<exists>i < length lr. \<exists>j < length (lr ! i). msk ! i ! j \<and> accepted_ratio th (raw_ratio level red lr msk i j))
     then Inl ZeroDivisionError
     else Inr (if nrm \<and> tiny < batch_weight_mean level ws msk
               then map (map (\<lambda>w. w / batch_weight_mean level ws msk)) ws else ws))"
proof -
  obtain upper lower where th: "th = (upper, lower)" by (cases th)
  note bounds = is_threshold_bounds [OF assms(1) [unfolded th]]
  note at = plain_weights_at [OF assms(2), where level = level and red = red and th = th]
  have len: "length ws = length lr" "\<And>i. i < length lr \<Longrightarrow> length (ws ! i) = length (lr ! i)"
    using same_shapeD [OF at(1)] same_shapeD [OF assms(2)] by (simp_all add: ws_def)
  have "ws ! i ! j = 0 \<longleftrightarrow> \<not> accepted_ratio th (raw_ratio level red lr msk i j)"
    if "i < length lr" "j < length (lr ! i)" "msk ! i ! j" for i j
    using at(2) [OF that(1,2)] truncated_ratio [OF bounds raw_ratio_pos] that(3) raw_ratio_pos [of level red lr msk i j] bounds(1)
    by (auto simp: ws_def th min_def)
  then have zero: "masked_sum (map (map (\<lambda>w. w\<^sup>2)) ws) msk = 0 \<longleftrightarrow>
      \<not> (\<exists>i < length lr. \<exists>j < length (lr ! i). msk ! i ! j \<and> accepted_ratio th (raw_ratio level red lr msk i j))"
    using squares_zero_iff [OF at(1)] len unfolding ws_def by auto
  have ws: "map2 (\<lambda>l ms. map (truncate_weight th) (raw_weights level red l ms)) lr msk = ws"
    by (simp add: ws_def plain_weights_def)
  have "\<not> (level \<noteq> ''token'' \<and> level \<noteq> ''sequence'')" using assms(3) by auto
  then show ?thesis
    unfolding compute_rollout_correction_weights_def Let_def assms(1) bind_result_simps ws zero using assms(2)
    by (simp only: if_False if_not_P simp_thms HOL.if_True)
qed

text \<open>C26: truncated importance sampling. The weight of a token outside the mask is zero; inside, it is the
  likelihood ratio, of the token or of its sequence, capped at the threshold, or with a lower
  threshold the ratio itself when it lies between both and zero otherwise, so weights lie between
  zero and the threshold. If no token is accepted, computing the effective sample size raises
  ZeroDivisionError; batch normalisation divides by the mean weight, which becomes one.\<close>

theorem importance_weights_truncated:
  assumes "parse_rollout_is_threshold spec = Inr (upper, lower)" "same_shape lr msk" "level \<in> {''token'', ''sequence''}"
    and "concat lr \<noteq> []"
  shows "let ratio = raw_ratio level red lr msk; accepted = (\<lambda>i j. msk ! i ! j \<and> accepted_ratio (upper, lower) (ratio i j)) in
    if \<not> (\<exists>i < length lr. \<exists>j < length (lr ! i). accepted i j)
    then compute_rollout_correction_weights lr msk level spec nrm red = Inl ZeroDivisionError
    else \<exists>ws. compute_rollout_correction_weights lr msk level spec False red = Inr ws \<and> same_shape ws lr
      \<and> (\<forall>i < length lr. \<forall>j < length (lr ! i). ws ! i ! j = (if accepted i j then min (ratio i j) upper else 0)
           \<and> 0 \<le> ws ! i ! j \<and> ws ! i ! j \<le> upper)
      \<and> (\<exists>ns. compute_rollout_correction_weights lr msk level spec True red = Inr ns
           \<and> (if tiny < batch_weight_mean level ws msk
              then ns = map (map (\<lambda>w. w / batch_weight_mean level ws msk)) ws \<and> batch_weight_mean level ns msk = 1
              else ns = ws))"
proof -
  let ?th = "(upper, lower)" and ?ratio = "raw_ratio level red lr msk"
  obtain ws where ws: "ws = plain_weights level red ?th lr msk" by blast
  note run = weights_run [OF assms(1-3), of _ red, folded ws]
  note bounds = is_threshold_bounds [OF assms(1)]
  note at = plain_weights_at [OF assms(2), where level = level and red = red and th = ?th, folded ws]
  have shape: "same_shape ws lr" using at(1) assms(2) by (simp add: same_shape_def)
  have entry: "ws ! i ! j = (if msk ! i ! j \<and> accepted_ratio ?th (?ratio i j) then min (?ratio i j) upper else 0)"
    if "i < length lr" "j < length (lr ! i)" for i j
    unfolding at(2) [OF that] by (rule truncated_ratio [OF bounds raw_ratio_pos])
  have range: "0 \<le> ws ! i ! j \<and> ws ! i ! j \<le> upper" if "i < length lr" "j < length (lr ! i)" for i j
    using entry [OF that] raw_ratio_pos [of level red lr msk i j] bounds(1) by (simp add: less_imp_le)
  have mean: "batch_weight_mean level (map (map (\<lambda>w. w / batch_weight_mean level ws msk)) ws) msk = 1"
    if "tiny < batch_weight_mean level ws msk"
    using less_trans [OF tiny_pos that] unfolding weight_mean_scaled by simp
  have ne: "lr \<noteq> []" using assms(4) by auto
  let ?any = "\<exists>i < length lr. \<exists>j < length (lr ! i). msk ! i ! j \<and> accepted_ratio ?th (?ratio i j)"
  have guard: "\<not> (lr = [] \<or> level = ''token'' \<and> concat lr = [])" using assms(4) ne by simp
  show ?thesis
  proof (cases ?any)
    case True
    then have eq: "compute_rollout_correction_weights lr msk level spec False red = Inr ws"
      "compute_rollout_correction_weights lr msk level spec True red = Inr (if tiny < batch_weight_mean level ws msk
         then map (map (\<lambda>w. w / batch_weight_mean level ws msk)) ws else ws)"
      unfolding run if_not_P [OF guard] by simp_all
    show ?thesis
    proof -
      have all: "\<forall>i < length lr. \<forall>j < length (lr ! i).
           ws ! i ! j = (if msk ! i ! j \<and> accepted_ratio ?th (?ratio i j) then min (?ratio i j) upper else 0)
         \<and> 0 \<le> ws ! i ! j \<and> ws ! i ! j \<le> upper"
        using entry range by blast
      show ?thesis
        unfolding Let_def if_not_P [OF not_not [THEN iffD2, OF True]] eq
        by (rule exI [of _ ws], intro conjI refl shape all) (use mean in simp)
    qed
  next
    case False
    then show ?thesis unfolding Let_def run if_not_P [OF guard] by simp
  qed
qed

theorem importance_weights_truncated_witness:
  "compute_rollout_correction_weights [[0, 50]] [[True, False]] ''token'' (Num_Spec 2) False ''sum'' = Inr [[1, 0]]
    \<and> compute_rollout_correction_weights [[0, 1]] [[False, False]] ''token'' (Num_Spec 2) True ''sum'' = Inl ZeroDivisionError"
proof
  have th: "parse_rollout_is_threshold (Num_Spec 2) = Inr (2, None)"
    by (simp add: parse_rollout_is_threshold_def check_is_threshold_def)
  have zero: "clip 0 (- 20) 20 = (0 :: real)" by (simp add: clip_def)
  have "\<exists>ws. compute_rollout_correction_weights [[0, 50]] [[True, False]] ''token'' (Num_Spec 2) False ''sum'' = Inr ws
      \<and> same_shape ws [[0, 50 :: real]] \<and> ws ! 0 ! 0 = 1 \<and> ws ! 0 ! 1 = 0"
    using importance_weights_truncated [OF th, of "[[0, 50]]" "[[True, False]]" "''token''" "''sum''" True]
    by (fastforce simp: same_shape_def accepted_ratio_def raw_ratio_def zero Let_def All_less_Suc Ex_less_Suc split: if_splits)
  then show "compute_rollout_correction_weights [[0, 50]] [[True, False]] ''token'' (Num_Spec 2) False ''sum'' = Inr [[1, 0]]"
    by (auto simp: same_shape_def length_Suc_conv)
  show "compute_rollout_correction_weights [[0, 1]] [[False, False]] ''token'' (Num_Spec 2) True ''sum'' = Inl ZeroDivisionError"
    using importance_weights_truncated [OF th, of "[[0, 1]]" "[[False, False]]" "''token''" "''sum''" True]
    by (simp add: same_shape_def Let_def All_less_Suc split: if_splits)
qed
section \<open>The rejection mask\<close>

definition rs_statistic :: "string \<Rightarrow> real list \<Rightarrow> bool list \<Rightarrow> nat \<Rightarrow> real" where
  \<comment> \<open>what an option compares with its bounds at token \<open>j\<close> of a row\<close>
  "rs_statistic opt lr ms j =
     (let kx = map (token_stat opt) lr
      in if has_prefix ''token'' opt then token_stat opt (lr ! j)
         else if has_prefix ''seq_sum'' opt then row_sum kx ms
         else if has_prefix ''seq_mean'' opt then row_mean kx ms else row_max kx ms)"

lemma token_keep_run:
  assumes "length ms = length lr" "ms \<noteq> []"
  shows "token_keep opt th lr ms = Inr (map (\<lambda>j. in_bounds opt th (rs_statistic opt lr ms j)) [0..<length ms])"
proof -
  have const: "map (\<lambda>_. c) ms = map (\<lambda>_. c) [0..<length ms]" for c :: bool
    by (rule nth_equalityI) simp_all
  have tok: "map (in_bounds opt th) (map (token_stat opt) lr) = map (\<lambda>j. in_bounds opt th (token_stat opt (lr ! j))) [0..<length ms]"
    by (rule nth_equalityI) (simp_all add: assms(1))
  show ?thesis using assms(2) unfolding token_keep_def rs_statistic_def Let_def const tok by simp
qed

lemma combine_keep_nth:
  assumes "\<forall>k \<in> set keeps. length k = length ms"
  shows "length (combine_keep ms keeps) = length ms"
    and "j < length ms \<Longrightarrow> combine_keep ms keeps ! j \<longleftrightarrow> ms ! j \<and> (\<forall>k \<in> set keeps. k ! j)"
proof -
  have "length (combine_keep ms keeps) = length ms
      \<and> (\<forall>j < length ms. combine_keep ms keeps ! j \<longleftrightarrow> ms ! j \<and> (\<forall>k \<in> set keeps. k ! j))"
    using assms unfolding combine_keep_def by (induction keeps arbitrary: ms) auto
  then show "length (combine_keep ms keeps) = length ms"
    and "j < length ms \<Longrightarrow> combine_keep ms keeps ! j \<longleftrightarrow> ms ! j \<and> (\<forall>k \<in> set keeps. k ! j)" by blast+
qed

lemma unique_in_order_set: "distinct (unique_in_order xs) \<and> set (unique_in_order xs) = set xs"
  unfolding unique_in_order_def by (induction xs rule: rev_induct) auto

lemma rs_options_spec:
  assumes "rs_options s = Inr opts"
  shows "distinct opts \<and> set opts = set (nonempty_parts s) \<and> set opts \<subseteq> set supported_rs_options \<and> opts \<noteq> []"
  using assms unique_in_order_set [of "nonempty_parts s"]
  by (auto simp: rs_options_def Let_def split: if_splits simp flip: set_empty2)

lemma option_threshold_bounds:
  assumes "option_thresholds opt raw = Inr (lo, up)"
  shows "0 < up \<and> (lo \<noteq> None \<longleftrightarrow> has_suffix ''k1'' opt) \<and> (\<forall>l. lo = Some l \<longrightarrow> 0 < l)"
  using assms by (auto simp: option_thresholds_def split: if_splits option.splits)

lemma rs_thresholds_spec:
  assumes "parse_rollout_rs_thresholds opts spec = Inr ths"
  shows "map fst ths = opts"
    and "(opt, lo, up) \<in> set ths \<Longrightarrow> 0 < up \<and> (lo \<noteq> None \<longleftrightarrow> has_suffix ''k1'' opt) \<and> (\<forall>l. lo = Some l \<longrightarrow> 0 < l)"
proof -
  obtain sp where sp: "spec = Some sp" using assms by (auto simp: parse_rollout_rs_thresholds_def split: option.splits)
  obtain rs where rs: "rs = raw_specs sp" by blast
  obtain raws where raws: "raws = (if length rs = 1 \<and> 1 < length opts then replicate (length opts) (hd rs) else rs)" by blast
  have ok: "rs \<noteq> []" "length rs = 1 \<or> length rs = length opts"
    and run: "map_result (\<lambda>(opt, raw). bind_result (option_thresholds opt raw) (\<lambda>t. Inr (opt, t))) (zip opts raws) = Inr ths"
    using assms unfolding sp parse_rollout_rs_thresholds_def option.case rs [symmetric] Let_def raws [symmetric]
    by (simp_all split: if_splits)
  have len: "length raws = length opts \<or> length raws = 1 \<and> length opts \<le> 1" using ok by (auto simp: raws)
  have "length (zip opts raws) = length opts" using len by (cases opts) auto
  then have "length ths = length opts" using map_result_length [OF run] by simp
  moreover have "fst (ths ! i) = opts ! i" if "i < length ths" for i
  proof -
    have "fst p = k" if "bind_result r (\<lambda>t. Inr (k, t)) = Inr p" for r :: "(real option \<times> real) result" and k :: string and p
      using that by (cases r) auto
    then show ?thesis using map_result_nth [OF run, of i] that map_result_length [OF run] by simp
  qed
  ultimately show "map fst ths = opts" by (intro nth_equalityI) simp_all
  show "0 < up \<and> (lo \<noteq> None \<longleftrightarrow> has_suffix ''k1'' opt) \<and> (\<forall>l. lo = Some l \<longrightarrow> 0 < l)" if mem: "(opt, lo, up) \<in> set ths"
  proof -
    obtain i where i: "i < length ths" "ths ! i = (opt, lo, up)" using mem by (auto simp: in_set_conv_nth)
    have "bind_result (option_thresholds (opts ! i) (raws ! i)) (\<lambda>t. Inr (opts ! i, t)) = Inr (ths ! i)"
      using map_result_nth [OF run, of i] map_result_length [OF run] i(1) by simp
    then have "opts ! i = opt \<and> option_thresholds (opts ! i) (raws ! i) = Inr (lo, up)" unfolding i(2) by auto
    then have "option_thresholds opt (raws ! i) = Inr (lo, up)" by metis
    then show ?thesis by (rule option_threshold_bounds)
  qed
qed

text \<open>A k1 option bounds the exponential of its statistic, the inverse of the likelihood ratio.\<close>

lemma k1_bounds:
  assumes "0 < l" "0 < u" "has_suffix ''k1'' opt"
  shows "in_bounds opt (Some l, u) x \<longleftrightarrow> l \<le> exp x \<and> exp x \<le> u"
proof -
  have "ln l \<le> x \<longleftrightarrow> exp (ln l) \<le> exp x" "x \<le> ln u \<longleftrightarrow> exp x \<le> exp (ln u)" by (simp_all only: exp_le_cancel_iff)
  then show ?thesis unfolding exp_ln [OF assms(1)] exp_ln [OF assms(2)] using assms(3) by (simp add: in_bounds_def)
qed
lemma rejection_run:
  assumes "rs_options s = Inr opts" "parse_rollout_rs_thresholds opts (Some spec) = Inr ths"
    and "same_shape lr msk" "lr \<noteq> []" "\<forall>r \<in> set lr. r \<noteq> []"
  shows "compute_rollout_rejection_mask lr msk s (Some spec)
    = Inr (map2 (\<lambda>l ms. combine_keep ms (map (\<lambda>(opt, th). map (\<lambda>j. in_bounds opt th (rs_statistic opt l ms j)) [0..<length ms]) ths)) lr msk)"
proof -
  have row: "map_result (\<lambda>(opt, th). token_keep opt th l ms) ths
      = Inr (map (\<lambda>(opt, th). map (\<lambda>j. in_bounds opt th (rs_statistic opt l ms j)) [0..<length ms]) ths)"
    if lm: "(l, ms) \<in> set (zip lr msk)" for l ms
  proof -
    obtain i where i: "i < length lr" "i < length msk" "l = lr ! i" "ms = msk ! i" using lm by (auto simp: set_zip)
    then have "length ms = length l" "ms \<noteq> []"
      using same_shapeD(2) [OF assms(3) i(2)] bspec [OF assms(5) nth_mem [OF i(1)]] by auto
    then show ?thesis by (intro map_result_total) (auto simp: token_keep_run)
  qed
  have "map_result (\<lambda>(lr, ms). bind_result (map_result (\<lambda>(opt, th). token_keep opt th lr ms) ths)
          (\<lambda>keeps. Inr (combine_keep ms keeps))) (zip lr msk)
      = Inr (map (\<lambda>(l, ms). combine_keep ms (map (\<lambda>(opt, th). map (\<lambda>j. in_bounds opt th (rs_statistic opt l ms j)) [0..<length ms]) ths)) (zip lr msk))"
    by (rule map_result_total) (auto simp: row)
  then show ?thesis using assms(1-4) by (simp add: compute_rollout_rejection_mask_def)
qed

text \<open>C27: rejection sampling. With valid options and thresholds a token keeps its place in the mask exactly
  when every option, each taken once, has its statistic in bounds: the token's own, or that of its
  row, so the row options keep or drop rows as a whole; k1 options have a positive lower bound and
  the others none. Without options, with an unknown option or without a threshold the call raises
  ValueError.\<close>

theorem rejection_mask_keeps:
  assumes "same_shape lr msk" "lr \<noteq> []" "\<forall>r \<in> set lr. r \<noteq> []"
  shows "case rs_options s of
      Inl e \<Rightarrow> e = ValueError \<and> compute_rollout_rejection_mask lr msk s (Some spec) = Inl ValueError
    | Inr opts \<Rightarrow> distinct opts \<and> set opts = set (nonempty_parts s) \<and> set opts \<subseteq> set supported_rs_options
        \<and> (case parse_rollout_rs_thresholds opts (Some spec) of
             Inl e \<Rightarrow> compute_rollout_rejection_mask lr msk s (Some spec) = Inl e
           | Inr ths \<Rightarrow> map fst ths = opts
               \<and> (\<forall>(opt, lo, up) \<in> set ths. 0 < up \<and> (lo \<noteq> None \<longleftrightarrow> has_suffix ''k1'' opt) \<and> (\<forall>l. lo = Some l \<longrightarrow> 0 < l))
               \<and> (\<exists>m'. compute_rollout_rejection_mask lr msk s (Some spec) = Inr m' \<and> same_shape m' msk
                   \<and> (\<forall>i < length lr. \<forall>j < length (lr ! i). m' ! i ! j \<longleftrightarrow>
                        msk ! i ! j \<and> (\<forall>(opt, th) \<in> set ths. in_bounds opt th (rs_statistic opt (lr ! i) (msk ! i) j)))))"
proof (cases "rs_options s")
  case (Inl e)
  then show ?thesis using assms(2) by (auto simp: compute_rollout_rejection_mask_def rs_options_def Let_def split: if_splits)
next
  case (Inr opts)
  note spec = rs_options_spec [OF Inr]
  show ?thesis
  proof (cases "parse_rollout_rs_thresholds opts (Some spec)")
    case err: (Inl e)
    then have "compute_rollout_rejection_mask lr msk s (Some spec) = Inl e"
      using Inr assms(2) by (simp add: compute_rollout_rejection_mask_def)
    then show ?thesis using Inr err spec by auto
  next
    case (Inr ths)
    note ths = rs_thresholds_spec [OF Inr] and run = rejection_run [OF \<open>rs_options s = Inr opts\<close> Inr assms]
    note len = same_shapeD [OF assms(1)]
    let ?row = "\<lambda>l ms. combine_keep ms (map (\<lambda>(opt, th). map (\<lambda>j. in_bounds opt th (rs_statistic opt l ms j)) [0..<length ms]) ths)"
    have row: "length (?row l ms) = length ms"
      "j < length ms \<Longrightarrow> ?row l ms ! j \<longleftrightarrow> ms ! j \<and> (\<forall>(opt, th) \<in> set ths. in_bounds opt th (rs_statistic opt l ms j))" for l ms j
      by (subst combine_keep_nth; auto)+
    have "same_shape (map2 ?row lr msk) msk" by (rule same_shapeI) (use len row(1) in simp_all)
    moreover have "map2 ?row lr msk ! i ! j \<longleftrightarrow>
        msk ! i ! j \<and> (\<forall>(opt, th) \<in> set ths. in_bounds opt th (rs_statistic opt (lr ! i) (msk ! i) j))"
      if "i < length lr" "j < length (lr ! i)" for i j
      using that len row(2) by simp
    ultimately have "\<exists>m'. compute_rollout_rejection_mask lr msk s (Some spec) = Inr m' \<and> same_shape m' msk
        \<and> (\<forall>i < length lr. \<forall>j < length (lr ! i). m' ! i ! j \<longleftrightarrow>
              msk ! i ! j \<and> (\<forall>(opt, th) \<in> set ths. in_bounds opt th (rs_statistic opt (lr ! i) (msk ! i) j)))"
      unfolding run by (intro exI [of _ "map2 ?row lr msk"]) simp
    moreover have "\<forall>(opt, lo, up) \<in> set ths. 0 < up \<and> (lo \<noteq> None \<longleftrightarrow> has_suffix ''k1'' opt) \<and> (\<forall>l. lo = Some l \<longrightarrow> 0 < l)"
      using ths(2) by blast
    ultimately show ?thesis
      unfolding \<open>rs_options s = Inr opts\<close> Inr sum.case using spec ths(1) by blast
  qed
qed

theorem rejection_mask_keeps_witness:
  "\<exists>m'. compute_rollout_rejection_mask [[0, 1], [0, 5]] [[True, True], [True, True]] ''token_k2'' (Some (Num_Spec 1)) = Inr m'
    \<and> m' ! 0 ! 1 \<and> \<not> m' ! 1 ! 1"
proof -
  have opts: "rs_options ''token_k2'' = Inr [''token_k2'']" by code_simp
  have ths: "parse_rollout_rs_thresholds [''token_k2''] (Some (Num_Spec 1)) = Inr [(''token_k2'', None, 1)]"
    by (simp add: parse_rollout_rs_thresholds_def raw_specs_def option_thresholds_def raw_pair_def raw_value_def
        has_suffix_def has_prefix_def)
  have stat: "rs_statistic ''token_k2'' [0, a] ms 1 = 1 / 2 * (clip a (- 20) 20)\<^sup>2" for a ms
    by (simp add: rs_statistic_def token_stat_def has_prefix_def has_suffix_def Let_def)
  have keep: "in_bounds ''token_k2'' (None, 1) (1 / 2 * (clip 1 (- 20) 20)\<^sup>2)"
    "\<not> in_bounds ''token_k2'' (None, 1) (1 / 2 * (clip 5 (- 20) 20)\<^sup>2)"
    by (simp_all add: in_bounds_def clip_def power2_eq_square)
  let ?lr = "[[0, 1], [0, 5]] :: real list list" and ?m = "[[True, True], [True, True]]"
  have "same_shape ?lr ?m" "?lr \<noteq> []" "\<forall>r \<in> set ?lr. r \<noteq> []" by (simp_all add: same_shape_def)
  from rejection_mask_keeps [OF this, of "''token_k2''" "Num_Spec 1", unfolded opts ths sum.case]
  obtain m' where run: "compute_rollout_rejection_mask ?lr ?m ''token_k2'' (Some (Num_Spec 1)) = Inr m'"
    and at: "\<forall>i < length ?lr. \<forall>j < length (?lr ! i). m' ! i ! j \<longleftrightarrow> ?m ! i ! j
      \<and> (\<forall>(opt, th) \<in> set [(''token_k2'', None, 1)]. in_bounds opt th (rs_statistic opt (?lr ! i) (?m ! i) j))" by blast
  have "m' ! 0 ! 1" using at [rule_format, of 0 1] keep(1) by (simp add: stat [unfolded One_nat_def])
  moreover have "\<not> m' ! 1 ! 1" using at [rule_format, of 1 1] keep(2) by (simp add: stat [unfolded One_nat_def])
  ultimately show ?thesis using run by blast
qed

text \<open>A single k1 bound below one is its own upper bound and the inverse its lower bound, so every
  token is rejected.\<close>

lemma k1_bound_below_one:
  "option_thresholds ''token_k1'' (Raw_Num (1 / 2)) = Inr (Some 2, 1 / 2)"
  "\<not> in_bounds ''token_k1'' (Some 2, 1 / 2) x"
proof -
  show "option_thresholds ''token_k1'' (Raw_Num (1 / 2)) = Inr (Some 2, 1 / 2)"
    by (simp add: option_thresholds_def raw_pair_def raw_value_def has_suffix_def has_prefix_def)
  have "0 < ln (2 :: real)" by simp
  then have "\<not> (ln 2 \<le> x \<and> x \<le> - ln 2)" by linarith
  then show "\<not> in_bounds ''token_k1'' (Some 2, 1 / 2) x"
    by (simp add: in_bounds_def has_suffix_def has_prefix_def ln_div)
qed
section \<open>The correction of a batch\<close>

lemma rejection_shrinks:
  assumes "compute_rollout_rejection_mask lr msk s spec = Inr m'" "same_shape lr msk"
  shows "same_shape m' msk \<and> (\<forall>i < length msk. \<forall>j < length (msk ! i). m' ! i ! j \<longrightarrow> msk ! i ! j)"
proof (cases "lr = []")
  case True
  then show ?thesis using assms same_shapeD(1) [OF assms(2)]
    by (auto simp: compute_rollout_rejection_mask_def same_shape_def split: if_splits)
next
  case False
  note len = same_shapeD [OF assms(2)]
  obtain ths where run: "map_result (\<lambda>(lr, ms). bind_result (map_result (\<lambda>(opt, th). token_keep opt th lr ms) ths)
          (\<lambda>keeps. Inr (combine_keep ms keeps))) (zip lr msk) = Inr m'"
    using assms False by (auto simp: compute_rollout_rejection_mask_def split: if_splits)
  have keep_len: "length k = length ms" if "token_keep opt th l ms = Inr k" "length l = length ms" for opt th l ms k
    using that by (auto simp: token_keep_def Let_def split: if_splits)
  have row: "length (m' ! i) = length (msk ! i) \<and> (\<forall>j < length (msk ! i). m' ! i ! j \<longrightarrow> msk ! i ! j)"
    if i: "i < length msk" for i
  proof -
    obtain keeps where keeps: "map_result (\<lambda>(opt, th). token_keep opt th (lr ! i) (msk ! i)) ths = Inr keeps"
      "m' ! i = combine_keep (msk ! i) keeps"
      using map_result_nth [OF run, of i] i len by auto
    have "\<forall>k \<in> set keeps. length k = length (msk ! i)"
    proof
      fix k
      assume "k \<in> set keeps"
      then obtain p where "(\<lambda>(opt, th). token_keep opt th (lr ! i) (msk ! i)) p = Inr k"
        using map_result_mem [OF keeps(1)] by blast
      then show "length k = length (msk ! i)" using keep_len len(2) [OF i] by (cases p) auto
    qed
    then show ?thesis using combine_keep_nth [of keeps "msk ! i"] keeps(2) by simp
  qed
  have "length m' = length msk" using map_result_length [OF run] len by simp
  then show ?thesis using row by (auto intro: same_shapeI)
qed

definition batch_rollout :: "correction_batch \<Rightarrow> real list list option" where
  \<comment> \<open>\<open>tensors.get("rollout_log_probs", tensors.get("fp8_logprobs"))\<close>\<close>
  "batch_rollout b = (case cb_rollout b of Some r \<Rightarrow> Some r | None \<Rightarrow> cb_fp8 b)"

definition cleaned :: "real list list \<Rightarrow> real list list \<Rightarrow> bool list list \<Rightarrow> real list list" where
  "cleaned old roll msk = map2 (\<lambda>os (rs, ms). map2 (\<lambda>o' (r, m). clean_token o' r m) os (zip rs ms)) old (zip roll msk)"

lemma cleaned_at:
  assumes "same_shape old roll" "same_shape old msk"
  shows "same_shape (cleaned old roll msk) roll"
    and "i < length old \<Longrightarrow> j < length (old ! i) \<Longrightarrow> cleaned old roll msk ! i ! j = clean_token (old ! i ! j) (roll ! i ! j) (msk ! i ! j)"
proof -
  note len = same_shapeD [OF assms(1)] same_shapeD [OF assms(2)]
  show "same_shape (cleaned old roll msk) roll"
    by (rule same_shapeI) (use len in \<open>auto simp: cleaned_def\<close>)
  show "cleaned old roll msk ! i ! j = clean_token (old ! i ! j) (roll ! i ! j) (msk ! i ! j)"
    if "i < length old" "j < length (old ! i)"
    using that len by (simp add: cleaned_def)
qed

lemma rectangle_take:
  assumes "\<forall>r \<in> set xss. length r = w" "\<forall>r \<in> set yss. length r = v" "length xss = length yss" "n \<le> w" "n \<le> v"
  shows "same_shape (map (take n) xss) (map (take n) yss)"
  by (rule same_shapeI) (use assms in \<open>auto simp: min_def\<close>)

lemma splice_rectangle:
  assumes "same_shape new (map (take w) old)" "\<forall>r \<in> set old. length r = v" "w \<le> v"
  shows "same_shape (splice w new old) old"
    and "i < length old \<Longrightarrow> j < v \<Longrightarrow> splice w new old ! i ! j = (if j < w then new ! i ! j else old ! i ! j)"
proof -
  have len: "length new = length old" using same_shapeD(1) [OF assms(1)] by simp
  have row: "length (new ! i) = w" "length (old ! i) = v" if "i < length old" for i
    using same_shapeD(2) [OF assms(1), of i] that assms(2,3) by simp_all
  show "same_shape (splice w new old) old"
    by (rule same_shapeI) (use len row assms(3) in \<open>simp_all add: splice_def\<close>)
  show "splice w new old ! i ! j = (if j < w then new ! i ! j else old ! i ! j)" if "i < length old" "j < v"
    using that len row by (simp add: splice_def nth_append)
qed
lemma clean_run:
  assumes "cb_old b = Some old" "batch_rollout b = Some roll" "batch_mask b = Some msk" "old \<noteq> []"
    and widths: "\<forall>r \<in> set old. length r = wo" "\<forall>r \<in> set roll. length r = wr" "\<forall>r \<in> set msk. length r = wm"
    and rows: "length roll = length old" "length msk = length old"
  defines "w \<equiv> min wo (min wr wm)"
  shows "\<exists>b1. clean_batch_logprobs b = Inr (map (take w) old, cleaned (map (take w) old) (map (take w) roll) (map (take w) msk), map (take w) msk, b1)
    \<and> batch_mask b1 = batch_mask b \<and> cb_response b1 = cb_response b \<and> cb_old b1 = cb_old b
    \<and> (\<exists>roll'. batch_rollout b1 = Some roll' \<and> (\<forall>i < length old. \<forall>j < wr.
         roll' ! i ! j = (if j < w \<and> msk ! i ! j \<and> roll ! i ! j = 0 then old ! i ! j else roll ! i ! j)))"
proof -
  let ?o = "map (take w) old" and ?r = "map (take w) roll" and ?m = "map (take w) msk"
  let ?c = "cleaned ?o ?r ?m"
  have wle: "w \<le> wo" "w \<le> wr" "w \<le> wm" by (simp_all add: w_def)
  have wid: "width_of xs = v" if "\<forall>r \<in> set xs. length r = v" "length xs = length old" for xs :: "'x list list" and v
    using that assms(4) by (cases xs) (auto simp: width_of_def)
  have wids: "width_of old = wo" "width_of roll = wr" "width_of msk = wm"
    using wid [OF widths(1)] wid [OF widths(2)] wid [OF widths(3)] rows by simp_all
  have shape: "same_shape ?o ?r" "same_shape ?o ?m"
    using rectangle_take [OF widths(1,2)] rectangle_take [OF widths(1,3)] rows wle by simp_all
  note at = cleaned_at [OF shape]
  let ?unrep = "\<exists>(rs, ms) \<in> set (zip ?r ?m). \<exists>(r, m) \<in> set (zip rs ms). r = 0 \<and> m"
  let ?b1 = "if ?unrep then b\<lparr>cb_rollout := Some (splice w ?c roll)\<rparr> else b"
  have run: "clean_batch_logprobs b = Inr (?o, ?c, ?m, ?b1)"
    using assms(1,3) rows assms(2) [unfolded batch_rollout_def]
    unfolding clean_batch_logprobs_def Let_def cleaned_def by (simp add: wids flip: w_def)
  have entry: "?c ! i ! j = (if msk ! i ! j \<and> roll ! i ! j = 0 then old ! i ! j else roll ! i ! j)"
    if "i < length old" "j < w" for i j
    using at(2) [of i j] that rows widths wle by (simp add: clean_token_def conj_commute)
  have quiet: "\<not> (msk ! i ! j \<and> roll ! i ! j = 0)" if "\<not> ?unrep" "i < length old" "j < w" for i j
  proof -
    have "(?r ! i, ?m ! i) \<in> set (zip ?r ?m)" using that rows by (auto simp: set_zip intro!: exI [of _ i])
    moreover have "(roll ! i ! j, msk ! i ! j) \<in> set (zip (?r ! i) (?m ! i))"
      using that rows widths wle by (auto simp: set_zip intro!: exI [of _ j])
    ultimately show ?thesis using that(1) by blast
  qed
  have splice_at: "splice w ?c roll ! i ! j = (if j < w then ?c ! i ! j else roll ! i ! j)" if "i < length old" "j < wr" for i j
    using splice_rectangle(2) [OF at(1) widths(2) wle(2)] that rows by simp
  have "\<exists>roll'. batch_rollout ?b1 = Some roll' \<and> (\<forall>i < length old. \<forall>j < wr.
         roll' ! i ! j = (if j < w \<and> msk ! i ! j \<and> roll ! i ! j = 0 then old ! i ! j else roll ! i ! j))"
  proof (cases ?unrep)
    case True
    then show ?thesis using splice_at entry by (intro exI [of _ "splice w ?c roll"]) (auto simp: batch_rollout_def)
  next
    case False
    then show ?thesis using quiet [OF False] assms(2) by (intro exI [of _ roll]) auto
  qed
  moreover have "batch_mask ?b1 = batch_mask b \<and> cb_response ?b1 = cb_response b \<and> cb_old ?b1 = cb_old b"
    by (cases ?unrep) (simp_all add: batch_mask_def split: option.split)
  ultimately show ?thesis using run by blast
qed

text \<open>C28: the correction of a batch. It never adds a token to the mask, leaves the columns past the common
  width of the three tensors alone, and without rejection leaves the whole mask alone; rollout
  log-probabilities that are exactly zero inside the mask are replaced by the trainer's own, so
  that their ratio is one, and no other is changed.\<close>

theorem correction_shrinks_mask:
  assumes "compute_rollout_correction_and_add_to_batch b cfg = Inr b'"
    and "cb_old b = Some old" "batch_rollout b = Some roll" "batch_mask b = Some msk" "old \<noteq> []"
    and "\<forall>r \<in> set old. length r = wo" "\<forall>r \<in> set roll. length r = wr" "\<forall>r \<in> set msk. length r = wm"
    and "length roll = length old" "length msk = length old" "w = min wo (min wr wm)"
  shows "\<exists>msk' roll'. batch_mask b' = Some msk' \<and> batch_rollout b' = Some roll' \<and> same_shape msk' msk
    \<and> (\<forall>i < length old. \<forall>j < wm. (msk' ! i ! j \<longrightarrow> msk ! i ! j) \<and> (w \<le> j \<or> cc_rs cfg = [] \<longrightarrow> msk' ! i ! j = msk ! i ! j))
    \<and> (\<forall>i < length old. \<forall>j < wr.
         roll' ! i ! j = (if j < w \<and> msk ! i ! j \<and> roll ! i ! j = 0 then old ! i ! j else roll ! i ! j))"
proof -
  let ?o = "map (take w) old" and ?r = "map (take w) roll" and ?m = "map (take w) msk"
  obtain b1 roll' where clean: "clean_batch_logprobs b = Inr (?o, cleaned ?o ?r ?m, ?m, b1)"
    and b1: "batch_mask b1 = Some msk" "batch_rollout b1 = Some roll'"
    and roll': "\<forall>i < length old. \<forall>j < wr.
         roll' ! i ! j = (if j < w \<and> msk ! i ! j \<and> roll ! i ! j = 0 then old ! i ! j else roll ! i ! j)"
    using clean_run [OF assms(2-10)] unfolding assms(11) [symmetric] assms(4) by blast
  obtain ws modified where
    run: "compute_rollout_correction_and_rejection_mask ?o (cleaned ?o ?r ?m) ?m (or_none (cc_is cfg))
       (map_option Text_Spec (or_none (cc_is_threshold cfg))) (cc_normalize cfg) (or_none (cc_rs cfg))
       (map_option Text_Spec (or_none (cc_rs_threshold cfg))) (cc_reduction cfg) = Inr (ws, modified)"
    and b': "b' = (let b2 = set_batch_mask (splice (width_of modified) modified msk) b1
                   in case ws of None \<Rightarrow> b2 | Some w \<Rightarrow> b2\<lparr>cb_weights := Some w\<rparr>)"
    using assms(1) unfolding compute_rollout_correction_and_add_to_batch_def clean bind_result_simps prod.case
    by (auto simp: b1(1) Let_def split: option.splits)
  have wle: "w \<le> wo" "w \<le> wr" "w \<le> wm" by (simp_all add: assms(11))
  have shape: "same_shape ?o ?r" "same_shape ?o ?m"
    using rectangle_take [OF assms(6,7)] rectangle_take [OF assms(6,8)] assms(9,10) wle by simp_all
  let ?lr = "map_tokens2 (-) ?o (cleaned ?o ?r ?m)"
  have oc: "same_shape ?o (cleaned ?o ?r ?m)" using cleaned_at(1) [OF shape] shape(1) by (simp add: same_shape_def)
  have lr: "same_shape ?lr ?m" unfolding same_shape_tokens2 [OF oc] by (rule shape(2))
  have modified: "same_shape modified ?m \<and> (\<forall>i < length msk. \<forall>j < w. modified ! i ! j \<longrightarrow> msk ! i ! j)"
    and plain: "cc_rs cfg = [] \<Longrightarrow> modified = ?m"
  proof -
    have cases: "case or_none (cc_rs cfg) of None \<Rightarrow> modified = ?m
        | Some rs \<Rightarrow> compute_rollout_rejection_mask ?lr ?m rs (map_option Text_Spec (or_none (cc_rs_threshold cfg))) = Inr modified"
      using run unfolding compute_rollout_correction_and_rejection_mask_def Let_def
      by (auto split: if_splits option.splits)
    then show "cc_rs cfg = [] \<Longrightarrow> modified = ?m" by (simp add: or_none_def)
    show "same_shape modified ?m \<and> (\<forall>i < length msk. \<forall>j < w. modified ! i ! j \<longrightarrow> msk ! i ! j)"
      using cases rejection_shrinks [OF _ lr] assms(8) wle
      by (auto simp: same_shape_def split: option.splits)
  qed
  have wid: "width_of modified = w"
    using modified assms(5,8,10) wle same_shapeD(1) [of modified ?m] same_shapeD(2) [of modified ?m 0]
    by (cases modified; cases msk) (auto simp: width_of_def)
  let ?msk' = "splice w modified msk"
  note sp = splice_rectangle [OF conjunct1 [OF modified] assms(8) wle(3)]
  have "batch_mask b' = Some ?msk'" "batch_rollout b' = Some roll'"
    using b1 unfolding b' wid Let_def
    by (auto simp: batch_mask_def set_batch_mask_def batch_rollout_def split: option.splits)
  moreover have "(?msk' ! i ! j \<longrightarrow> msk ! i ! j) \<and> (w \<le> j \<or> cc_rs cfg = [] \<longrightarrow> ?msk' ! i ! j = msk ! i ! j)"
    if "i < length old" "j < wm" for i j
    using sp(2) [of i j] that assms(10) modified plain by auto
  ultimately show ?thesis using sp(1) roll' by (intro exI [of _ ?msk'] exI [of _ roll']) blast
qed
definition correction_sample :: correction_batch where
  \<comment> \<open>a trainer width of three and a rollout width of two, with one position not reported\<close>
  "correction_sample =
     \<lparr>cb_old = Some [[- 1, - 2, 0]], cb_rollout = Some [[- 1, 0]], cb_fp8 = None, cb_response = Some [[True, True, True]],
      cb_attention = None, cb_weights = None\<rparr>"

definition correction_off :: correction_config where
  "correction_off = \<lparr>cc_is = [], cc_is_threshold = ''2.0'', cc_normalize = False, cc_rs = [], cc_rs_threshold = [], cc_reduction = ''sum''\<rparr>"

lemma correction_sample_run:
  "\<exists>b'. compute_rollout_correction_and_add_to_batch correction_sample correction_off = Inr b'"
  by (simp add: compute_rollout_correction_and_add_to_batch_def clean_batch_logprobs_def correction_sample_def
      correction_off_def batch_mask_def width_of_def or_none_def same_shape_def Let_def clean_token_def
      compute_rollout_correction_and_rejection_mask_def map_tokens2_def)

theorem correction_shrinks_mask_witness:
  "\<exists>b' roll'. compute_rollout_correction_and_add_to_batch correction_sample correction_off = Inr b'
    \<and> batch_rollout b' = Some roll' \<and> roll' ! 0 ! 1 = - 2 \<and> roll' ! 0 ! 0 = - 1"
proof -
  obtain b' where run: "compute_rollout_correction_and_add_to_batch correction_sample correction_off = Inr b'"
    using correction_sample_run by blast
  have facts: "cb_old correction_sample = Some [[- 1, - 2, 0]]" "batch_rollout correction_sample = Some [[- 1, 0]]"
    "batch_mask correction_sample = Some [[True, True, True]]"
    by (simp_all add: correction_sample_def batch_rollout_def batch_mask_def)
  obtain roll' where r: "batch_rollout b' = Some roll'"
    and at: "\<forall>i < 1. \<forall>j < 2. roll' ! i ! j = (if j < 2 \<and> [[True, True, True]] ! i ! j \<and> [[- 1, 0 :: real]] ! i ! j = 0
         then [[- 1, - 2, 0]] ! i ! j else [[- 1, 0]] ! i ! j)"
    using correction_shrinks_mask [OF run facts, of 3 2 3 2] by auto
  have "roll' ! 0 ! 1 = - 2" "roll' ! 0 ! 0 = - 1" using at [rule_format, of 0 1] at [rule_format, of 0 0] by simp_all
  then show ?thesis using run r by blast
qed

section \<open>The legacy interface and bypass mode\<close>

lemma tis_ratio_bounds:
  assumes "1 \<le> cl"
  obtains r where "token_level_tis cl bf16 fp8 advantage = r * advantage" "1 / cl \<le> r" "r \<le> cl"
proof -
  have "1 / cl \<le> cl" using assms by (simp add: divide_le_eq mult_ge1_I)
  then show ?thesis
    using that [of "clip (exp (clip (bf16 - fp8) (- 20) 20)) (1 / cl) cl"] clip_range [of "1 / cl" cl]
    by (simp add: token_level_tis_def)
qed

lemma bypass_has_unit_ratio:
  assumes "apply_bypass_mode b = Inr b'" "cb_rollout b = Some r"
  shows "cb_old b' = Some r" "map_tokens2 (-) r r = map (map (\<lambda>_. 0)) r"
  using assms by (auto simp: apply_bypass_mode_def map_tokens2_def zip_same_conv_map)

end
