(* ===== verification/Name_Pattern.thy ===== *)
theory Name_Pattern
  imports Py_Prelude
begin

text \<open>
  The name templates of \<open>lumenrl/engine/training/bridges/core.py\<close>: a template is text with the
  slots \<open>{L}\<close>, \<open>{E}\<close> and \<open>{S}\<close>; it is filled with indices by \<open>str.format\<close> and matched against a name
  by the regular expression that puts a group of digits for every slot. The lemmas evaluate a
  match on a name whose indices are variables.
\<close>

section \<open>Templates\<close>

datatype part = Lit string | Slot char

primrec flat_part :: "(char \<Rightarrow> string) \<Rightarrow> part \<Rightarrow> string" where
  "flat_part f (Lit l) = l"
| "flat_part f (Slot k) = f k"

fun add_char :: "char \<Rightarrow> part list \<Rightarrow> part list" where
  "add_char a (Lit l # ps) = Lit (a # l) # ps"
| "add_char a ps = Lit [a] # ps"

fun name_parts :: "string \<Rightarrow> part list" where
  \<comment> \<open>the slots of \<open>_PLACEHOLDERS\<close>\<close>
  "name_parts [] = []"
| "name_parts (a # s) =
     (if a = CHR ''{'' then
        (case s of
           k # b # s' \<Rightarrow>
             if b = CHR ''}'' \<and> k \<in> set ''LES'' then Slot k # name_parts s'
             else add_char a (name_parts s)
         | _ \<Rightarrow> add_char a (name_parts s))
      else add_char a (name_parts s))"

definition format_name :: "(char \<Rightarrow> string) \<Rightarrow> string \<Rightarrow> string" where
  \<comment> \<open>\<open>template.format(L=..., E=..., S=...)\<close>\<close>
  "format_name f template = concat (map (flat_part f) (name_parts template))"

section \<open>Matching\<close>

fun first_some :: "('a \<Rightarrow> 'b option) \<Rightarrow> 'a list \<Rightarrow> 'b option" where
  "first_some f [] = None"
| "first_some f (x # xs) = (case f x of None \<Rightarrow> first_some f xs | Some y \<Rightarrow> Some y)"

definition at_end :: "string \<Rightarrow> bool" where
  \<comment> \<open>\<open>$\<close> also matches before a final newline\<close>
  "at_end s = (s = [] \<or> s = [CHR 0x0A])"

lemma at_end_simps [simp]:
  "at_end []" "at_end (c # s) \<longleftrightarrow> c = CHR 0x0A \<and> s = []"
  by (simp_all add: at_end_def)

lemma first_some_None [simp]: "first_some f xs = None \<longleftrightarrow> (\<forall>x \<in> set xs. f x = None)"
  by (induction xs) (auto split: option.splits)

definition digits_value :: "string \<Rightarrow> nat" where
  \<comment> \<open>\<open>int(v)\<close> of a group of digits\<close>
  "digits_value v = foldl (\<lambda>n c. 10 * n + digit_val c) 0 v"

definition leading_digits :: "string \<Rightarrow> nat" where
  "leading_digits s = length (takeWhile is_digit s)"

fun drop_prefix :: "string \<Rightarrow> string \<Rightarrow> string option" where
  "drop_prefix [] s = Some s"
| "drop_prefix (a # p) [] = None"
| "drop_prefix (a # p) (b # s) = (if a = b then drop_prefix p s else None)"

primrec match_parts :: "part list \<Rightarrow> string \<Rightarrow> (char \<times> nat) list option" where
  \<comment> \<open>\<open>pattern.match(s)\<close>: a slot is \<open>\d+\<close>, which tries the longest group of digits first\<close>
  "match_parts [] s = (if at_end s then Some [] else None)"
| "match_parts (p # ps) s =
     (case p of
        Lit l \<Rightarrow> (case drop_prefix l s of None \<Rightarrow> None | Some s' \<Rightarrow> match_parts ps s')
      | Slot k \<Rightarrow>
          first_some (\<lambda>n. map_option ((#) (k, digits_value (take n s))) (match_parts ps (drop n s)))
            (rev [1..<Suc (leading_digits s)]))"

section \<open>Matching names with symbolic indices\<close>

lemma parse_digits_value:
  "\<forall>c \<in> set v. is_digit c \<Longrightarrow> v \<noteq> [] \<or> p \<Longrightarrow>
   parse_digits p acc v = Some (foldl (\<lambda>n c. 10 * n + digit_val c) acc v)"
  by (induction v arbitrary: p acc) auto

lemma digits_value_show_nat [simp]: "digits_value (show_nat n) = n"
proof -
  have "Some n = Some (digits_value (show_nat n))"
    using parse_digits_value [of "show_nat n" False 0] parse_digits_show_nat [of False n]
    by (simp add: digits_value_def show_nat_digits)
  then show ?thesis by simp
qed

definition no_digit :: "string \<Rightarrow> bool" where
  "no_digit s = (case s of [] \<Rightarrow> True | c # _ \<Rightarrow> \<not> is_digit c)"

lemma no_digit_simps [simp]: "no_digit []" "no_digit (c # s) \<longleftrightarrow> \<not> is_digit c"
  by (simp_all add: no_digit_def)

fun stops :: "part list \<Rightarrow> bool" where
  \<comment> \<open>what follows a slot cannot begin with a digit\<close>
  "stops [] = True"
| "stops (Lit (c # l) # ps) = (\<not> is_digit c)"
| "stops ps = False"

lemma match_stops_digit: "stops ps \<Longrightarrow> is_digit c \<Longrightarrow> match_parts ps (c # s) = None"
  by (cases ps rule: stops.cases) (auto simp: at_end_def is_digit_def)

lemma leading_show_nat: "no_digit s \<Longrightarrow> leading_digits (show_nat n @ s) = length (show_nat n)"
  by (cases s) (simp_all add: leading_digits_def show_nat_digits takeWhile_eq_all_conv [THEN iffD2])

lemma match_slot:
  assumes "stops ps" "no_digit s"
  shows "match_parts (Slot k # ps) (show_nat n @ s) = map_option ((#) (k, n)) (match_parts ps s)"
proof -
  let ?f = "\<lambda>m. map_option ((#) (k, digits_value (take m (show_nat n @ s))))
              (match_parts ps (drop m (show_nat n @ s)))"
  have shorter: "?f m = None" if "m < length (show_nat n)" for m
  proof -
    have "drop m (show_nat n @ s) = (show_nat n ! m) # drop (Suc m) (show_nat n) @ s"
      using that by (simp add: Cons_nth_drop_Suc flip: append_Cons)
    moreover have "is_digit (show_nat n ! m)" by (rule show_nat_digits [OF nth_mem [OF that]])
    ultimately show ?thesis using match_stops_digit [OF assms(1)] by simp
  qed
  have none: "first_some ?f ms = None" if "\<forall>m \<in> set ms. m < length (show_nat n)" for ms
    using that shorter by (simp only: first_some_None) blast
  have "rev [1..<Suc (length (show_nat n))] = length (show_nat n) # rev [1..<length (show_nat n)]"
    by (cases "show_nat n") simp_all
  with none [of "rev [1..<length (show_nat n)]"] show ?thesis
    by (simp add: leading_show_nat [OF assms(2)] split: option.split)
qed

lemma match_slot_no_digit [simp]: "no_digit s \<Longrightarrow> match_parts (Slot k # ps) s = None"
  by (cases s) (simp_all add: leading_digits_def)

lemma drop_prefix_append [simp]: "drop_prefix l (l @ s) = Some s"
  by (induction l) simp_all

lemma drop_prefix_digits [simp]:
  "\<not> is_digit a \<Longrightarrow> drop_prefix (a # p) (show_nat n @ s) = None"
  "\<not> is_digit a \<Longrightarrow> drop_prefix (a # p) (show_nat n) = None"
proof -
  obtain c cs where c: "show_nat n = c # cs" by (cases "show_nat n") simp_all
  then have "is_digit c" using show_nat_digits [of c n] by simp
  then show "\<not> is_digit a \<Longrightarrow> drop_prefix (a # p) (show_nat n @ s) = None"
    "\<not> is_digit a \<Longrightarrow> drop_prefix (a # p) (show_nat n) = None" by (auto simp: c)
qed

lemma match_lit [simp]:
  "match_parts (Lit l # ps) s = (case drop_prefix l s of None \<Rightarrow> None | Some s' \<Rightarrow> match_parts ps s')"
  by simp

lemma match_lit_append: "match_parts (Lit l # ps) (l @ s) = match_parts ps s"
  by simp

declare match_parts.simps(2) [simp del]

lemma not_digit [simp]:
  "\<not> is_digit (CHR ''.'')" "\<not> is_digit (CHR '':'')" "\<not> is_digit (CHR ''m'')" "\<not> is_digit (CHR ''e'')"
  by (simp_all add: is_digit_def)

lemma match_slot_here [simp]:
  "stops ps \<Longrightarrow> match_parts (Slot k # ps) (show_nat n) = map_option ((#) (k, n)) (match_parts ps [])"
  "stops ps \<Longrightarrow> \<not> is_digit c \<Longrightarrow>
   match_parts (Slot k # ps) (show_nat n @ c # s) = map_option ((#) (k, n)) (match_parts ps (c # s))"
  using match_slot [of ps "[]" k n] match_slot [of ps "c # s" k n] by simp_all

end
