(* ===== verification/Weight_Tensor.thy ===== *)
theory Weight_Tensor
  imports Tensor
begin

text \<open>
  The torch operations with which the weight bridges (\<open>lumenrl/engine/training/bridges\<close>) regroup
  parameter tensors: reshaping, transposing, slicing and joining along dimension 1, and splitting
  in two along dimension 0. Each is inverted by another, which is what the bridges rely on.
\<close>

section \<open>Operations\<close>

abbreviation t_data :: "'e tensor \<Rightarrow> 'e list" where
  \<comment> \<open>the elements in row-major order\<close>
  "t_data t \<equiv> concat (t_rows t)"

definition cut_rows :: "nat \<Rightarrow> nat \<Rightarrow> 'e list \<Rightarrow> 'e list list" where
  "cut_rows n p xs = map (\<lambda>i. take p (drop (i * p) xs)) [0..<n]"

definition t_reshape :: "nat \<Rightarrow> nat list \<Rightarrow> 'e tensor \<Rightarrow> 'e tensor result" where
  \<comment> \<open>\<open>t.reshape(n, *trail)\<close>\<close>
  "t_reshape n trail t =
     (if n * prod_list trail = length (t_data t)
      then Inr \<lparr>t_trail = trail, t_rows = cut_rows n (prod_list trail) (t_data t)\<rparr>
      else Inl RuntimeError)"

definition t_reshape_rows :: "nat list \<Rightarrow> 'e tensor \<Rightarrow> 'e tensor result" where
  \<comment> \<open>\<open>t.reshape(-1, *trail)\<close>: the inferred dimension is ambiguous when \<open>trail\<close> has a zero\<close>
  "t_reshape_rows trail t =
     (if prod_list trail = 0 then Inl RuntimeError
      else t_reshape (length (t_data t) div prod_list trail) trail t)"

definition t_slice1 :: "nat \<Rightarrow> nat \<Rightarrow> 'e tensor \<Rightarrow> 'e tensor result" where
  \<comment> \<open>\<open>t[:, s:e]\<close>\<close>
  "t_slice1 s e t =
     (case t_trail t of
        [] \<Rightarrow> Inl IndexError
      | n # rest \<Rightarrow>
          Inr \<lparr>t_trail = (min e n - min s n) # rest,
               t_rows = map (py_slice (s * prod_list rest) (min e n * prod_list rest)) (t_rows t)\<rparr>)"

definition t_cat1 :: "'e tensor list \<Rightarrow> 'e tensor result" where
  \<comment> \<open>\<open>torch.cat(ts, dim=1)\<close>: all shapes agree but in dimension 1\<close>
  "t_cat1 ts =
     (case ts of
        [] \<Rightarrow> Inl RuntimeError
      | t # _ \<Rightarrow>
          if list_all (\<lambda>u. t_trail u \<noteq> []) ts then
            if list_all (\<lambda>u. t_len u = t_len t \<and> tl (t_trail u) = tl (t_trail t)) ts
            then Inr \<lparr>t_trail = sum_list (map (\<lambda>u. hd (t_trail u)) ts) # tl (t_trail t),
                      t_rows = map (\<lambda>i. concat (map (\<lambda>u. t_rows u ! i) ts)) [0..<t_len t]\<rparr>
            else Inl RuntimeError
          else Inl IndexError)"

definition t_transpose :: "'e tensor \<Rightarrow> 'e tensor result" where
  \<comment> \<open>\<open>t.t()\<close>: at most two dimensions\<close>
  "t_transpose t =
     (case t_trail t of
        [] \<Rightarrow> Inr t
      | [c] \<Rightarrow> Inr \<lparr>t_trail = [t_len t], t_rows = map (\<lambda>j. map (\<lambda>r. r ! j) (t_rows t)) [0..<c]\<rparr>
      | _ \<Rightarrow> Inl RuntimeError)"

definition t_halves :: "'e tensor \<Rightarrow> ('e tensor \<times> 'e tensor) result" where
  \<comment> \<open>\<open>gate, up = t.chunk(2, dim=0)\<close>: one row gives a single chunk, and the unpacking fails\<close>
  "t_halves t =
     (if t_len t = 1 then Inl ValueError
      else let h = (t_len t + 1) div 2 in Inr (t_slice 0 h t, t_slice h (t_len t) t))"

section \<open>Reshaping\<close>

lemma length_cut_rows [simp]: "length (cut_rows n p xs) = n"
  by (simp add: cut_rows_def)

lemma cut_rows_Suc: "cut_rows (Suc n) p xs = take p xs # cut_rows n p (drop p xs)"
  unfolding cut_rows_def upt_Suc_map [of n] by (simp add: comp_def add.commute del: upt_Suc)

lemma concat_cut_rows: "length xs = n * p \<Longrightarrow> concat (cut_rows n p xs) = xs"
proof (induction n arbitrary: xs)
  case 0
  then show ?case by (simp add: cut_rows_def)
next
  case (Suc n)
  then show ?case by (simp add: cut_rows_Suc)
qed

lemma cut_rows_concat: "\<forall>r \<in> set rs. length r = p \<Longrightarrow> cut_rows (length rs) p (concat rs) = rs"
  by (induction rs) (simp_all add: cut_rows_Suc, simp add: cut_rows_def)

lemma length_cut_row: "length xs = n * p \<Longrightarrow> r \<in> set (cut_rows n p xs) \<Longrightarrow> length r = p"
proof (induction n arbitrary: xs)
  case 0
  then show ?case by (simp add: cut_rows_def)
next
  case (Suc n)
  then show ?case using Suc.IH [of "drop p xs"] by (auto simp: cut_rows_Suc)
qed

lemma wf_data_length: "wf_tensor t \<Longrightarrow> length (t_data t) = t_len t * prod_list (t_trail t)"
  by (simp add: wf_tensor_def list_all_iff t_len_def length_concat sum_list_triv
      cong: map_cong)

lemma t_reshape_total:
  assumes "wf_tensor t" "n * prod_list trail = t_len t * prod_list (t_trail t)"
  shows "\<exists>u. t_reshape n trail t = Inr u \<and> wf_tensor u \<and> t_len u = n \<and> t_trail u = trail
           \<and> t_data u = t_data t"
proof -
  have len: "length (t_data t) = n * prod_list trail" using assms wf_data_length by metis
  then show ?thesis
    using concat_cut_rows [OF len] length_cut_row [OF len]
    by (simp add: t_reshape_def t_len_def wf_tensor_def list_all_iff)
qed

lemma t_reshape_back:
  assumes "wf_tensor t" "t_data u = t_data t" "n = t_len t" "trail = t_trail t"
  shows "t_reshape n trail u = Inr t"
proof -
  have "cut_rows (t_len t) (prod_list (t_trail t)) (t_data t) = t_rows t"
    unfolding t_len_def using assms(1) by (intro cut_rows_concat) (simp add: wf_tensor_def list_all_iff)
  with assms wf_data_length [OF assms(1)] show ?thesis by (simp add: t_reshape_def)
qed

section \<open>Splitting in two and transposing\<close>

lemma t_cat_two:
  assumes "t_trail a = tr" "t_trail b = tr"
  shows "t_cat [a, b] = Inr \<lparr>t_trail = tr, t_rows = t_rows a @ t_rows b\<rparr>"
proof -
  have "t_cat [a, b] = Inr \<lparr>t_trail = tr, t_rows = concat (map t_rows [a, b])\<rparr>"
    by (rule t_cat_same_trail) (use assms in auto)
  then show ?thesis by simp
qed

lemma t_cat_map:
  assumes "xs \<noteq> []" "\<And>x. x \<in> set xs \<Longrightarrow> t_trail (f x) = tr"
  shows "t_cat (map f xs) = Inr \<lparr>t_trail = tr, t_rows = concat (map (\<lambda>x. t_rows (f x)) xs)\<rparr>"
proof -
  have "t_cat (map f xs) = Inr \<lparr>t_trail = tr, t_rows = concat (map t_rows (map f xs))\<rparr>"
    by (rule t_cat_same_trail) (use assms in auto)
  then show ?thesis by (simp add: comp_def)
qed

lemma t_halves_cat:
  assumes "t_cat [a, b] = Inr t" "t_len a = t_len b" "t_trail a = t_trail b"
  shows "t_halves t = Inr (a, b)"
proof -
  have t: "t = \<lparr>t_trail = t_trail a, t_rows = t_rows a @ t_rows b\<rparr>"
    using t_cat_two [OF refl assms(3) [symmetric]] assms(1) by simp
  moreover have "t_len t = 2 * t_len a" using assms(2) by (simp add: t t_len_def)
  moreover have "t_slice 0 (t_len a) t = a" "t_slice (t_len a) (2 * t_len a) t = b"
    using assms(2,3)
    by (simp_all add: t t_slice_def py_slice_def t_len_def tensor.equality)
  ultimately show ?thesis by (simp add: t_halves_def Let_def)
qed

lemma t_transpose_matrix:
  "t_trail t = [c] \<Longrightarrow>
   t_transpose t = Inr \<lparr>t_trail = [t_len t], t_rows = map (\<lambda>j. map (\<lambda>r. r ! j) (t_rows t)) [0..<c]\<rparr>"
  by (simp add: t_transpose_def)

lemma t_transpose_back:
  assumes "wf_tensor t" "t_trail t = [c]" "t_transpose t = Inr u"
  shows "t_transpose u = Inr t \<and> t_trail u = [t_len t] \<and> t_len u = c \<and> wf_tensor u"
proof -
  have u: "u = \<lparr>t_trail = [t_len t], t_rows = map (\<lambda>j. map (\<lambda>r. r ! j) (t_rows t)) [0..<c]\<rparr>"
    using assms(2,3) by (simp add: t_transpose_matrix)
  have len: "length r = c" if "r \<in> set (t_rows t)" for r
    using assms(1,2) that by (simp add: wf_tensor_def list_all_iff)
  have "map (\<lambda>i. map (\<lambda>r. r ! i) (t_rows u)) [0..<t_len t] = t_rows t"
  proof (rule nth_equalityI)
    show "length (map (\<lambda>i. map (\<lambda>r. r ! i) (t_rows u)) [0..<t_len t]) = length (t_rows t)"
      by (simp add: t_len_def)
    fix i assume "i < length (map (\<lambda>i. map (\<lambda>r. r ! i) (t_rows u)) [0..<t_len t])"
    then have i: "i < length (t_rows t)" by (simp add: t_len_def)
    have "map (\<lambda>r. r ! i) (t_rows u) = map (\<lambda>j. t_rows t ! i ! j) [0..<c]" using i by (simp add: u)
    also have "\<dots> = t_rows t ! i"
      using len [OF nth_mem [OF i]] map_nth [of "t_rows t ! i"] by simp
    finally show "map (\<lambda>i. map (\<lambda>r. r ! i) (t_rows u)) [0..<t_len t] ! i = t_rows t ! i"
      using i by (simp add: t_len_def)
  qed
  moreover have "t_trail u = [t_len t]" "t_len u = c" "wf_tensor u"
    by (simp_all add: u t_len_def wf_tensor_def list_all_iff)
  ultimately show ?thesis
    using t_transpose_matrix [of u "t_len t"] by (simp flip: assms(2))
qed

section \<open>Dimension 1\<close>

lemma t_cat1_total:
  assumes "ts \<noteq> []" "\<And>t. t \<in> set ts \<Longrightarrow> wf_tensor t \<and> t_len t = n \<and> t_trail t \<noteq> [] \<and> tl (t_trail t) = rest"
  shows "\<exists>u. t_cat1 ts = Inr u \<and> t_trail u = sum_list (map (\<lambda>t. hd (t_trail t)) ts) # rest
           \<and> t_len u = n \<and> t_rows u = map (\<lambda>i. concat (map (\<lambda>t. t_rows t ! i) ts)) [0..<n]
           \<and> wf_tensor u"
proof -
  obtain t0 ts' where ts: "ts = t0 # ts'" using assms(1) by (cases ts) auto
  have all: "list_all (\<lambda>u. t_trail u \<noteq> []) ts"
    "list_all (\<lambda>u. t_len u = t_len t0 \<and> tl (t_trail u) = tl (t_trail t0)) ts"
    using assms(2) by (auto simp: list_all_iff ts)
  have t0: "t_len t0 = n" "tl (t_trail t0) = rest" using assms(2) by (simp_all add: ts)
  have "length (t_rows t ! i) = hd (t_trail t) * prod_list rest" if "i < n" "t \<in> set ts" for i t
    using assms(2) [OF that(2)] that(1)
    by (cases "t_trail t") (auto simp: wf_tensor_def list_all_iff t_len_def)
  then have "length (concat (map (\<lambda>t. t_rows t ! i) ts)) = sum_list (map (\<lambda>t. hd (t_trail t)) ts) * prod_list rest"
    if "i < n" for i
    using that by (simp add: length_concat comp_def sum_list_mult_const cong: map_cong)
  then show ?thesis
    using all t0 by (auto simp: t_cat1_def ts t_len_def wf_tensor_def list_all_iff)
qed

lemma t_slice1_rows:
  assumes "t_trail t = n # rest" "s \<le> e" "e \<le> n" "t_len u = t_len t" "t_trail u = (e - s) # rest"
    "\<And>i. i < t_len t \<Longrightarrow> py_slice (s * prod_list rest) (e * prod_list rest) (t_rows t ! i) = t_rows u ! i"
  shows "t_slice1 s e t = Inr u"
proof -
  have "map (py_slice (s * prod_list rest) (e * prod_list rest)) (t_rows t) = t_rows u"
    using assms(4,6) by (intro nth_equalityI) (auto simp: t_len_def)
  with assms show ?thesis by (simp add: t_slice1_def min_absorb1)
qed

section \<open>Matrices\<close>

definition is_matrix :: "nat \<Rightarrow> nat \<Rightarrow> 'e tensor \<Rightarrow> bool" where
  "is_matrix n m t \<longleftrightarrow> wf_tensor t \<and> t_len t = n \<and> t_trail t = [m]"

lemma py_slice_concat:
  assumes "\<forall>xs \<in> set xss. length xs = w" "i < length xss"
  shows "py_slice (i * w) ((i + 1) * w) (concat xss) = xss ! i"
proof -
  have "take w (drop (i * w) (concat xss)) = cut_rows (length xss) w (concat xss) ! i"
    using assms(2) by (simp add: cut_rows_def)
  also have "\<dots> = xss ! i" by (simp only: cut_rows_concat [OF assms(1)])
  finally show ?thesis by (simp add: py_slice_def)
qed

lemma sum_list_const: "(\<And>x. x \<in> set xs \<Longrightarrow> f x = w) \<Longrightarrow> sum_list (map f xs) = length xs * (w::nat)"
  by (induction xs) simp_all

lemma t_slice1_cat1:
  assumes "t_cat1 ts = Inr u" "\<And>t. t \<in> set ts \<Longrightarrow> is_matrix n w t" "i < length ts"
  shows "t_slice1 (i * w) ((i + 1) * w) u = Inr (ts ! i) \<and> t_trail u = [length ts * w]"
proof -
  have "ts \<noteq> []" using assms(3) by auto
  from t_cat1_total [OF this, of n "[]"] assms(1,2)
  have u: "t_trail u = [sum_list (map (\<lambda>t. hd (t_trail t)) ts)]" "t_len u = n"
    "t_rows u = map (\<lambda>i. concat (map (\<lambda>t. t_rows t ! i) ts)) [0..<n]"
    by (auto simp: is_matrix_def)
  have trail: "t_trail u = [length ts * w]"
    unfolding u(1) by (simp, rule sum_list_const) (use assms(2) in \<open>auto simp: is_matrix_def\<close>)
  have m: "is_matrix n w (ts ! i)" using assms(2,3) by simp
  have rows: "py_slice (i * w) ((i + 1) * w) (t_rows u ! j) = t_rows (ts ! i) ! j" if "j < n" for j
  proof -
    have "length (t_rows t ! j) = w" if "t \<in> set ts" for t
      using assms(2) [OF that] \<open>j < n\<close> by (auto simp: is_matrix_def wf_tensor_def list_all_length t_len_def)
    then have "py_slice (i * w) ((i + 1) * w) (concat (map (\<lambda>t. t_rows t ! j) ts)) = map (\<lambda>t. t_rows t ! j) ts ! i"
      by (intro py_slice_concat) (use assms(3) in auto)
    then show ?thesis using that assms(3) by (simp add: u(3))
  qed
  have "(i + 1) * w \<le> length ts * w" using assms(3) by (intro mult_le_mono1) simp
  then have "t_slice1 (i * w) ((i + 1) * w) u = Inr (ts ! i)"
    by (intro t_slice1_rows [OF trail]) (use u(2) m rows in \<open>simp_all add: is_matrix_def\<close>)
  with trail show ?thesis by simp
qed

lemma t_slice_cat:
  assumes "t_cat ts = Inr u" "\<And>t. t \<in> set ts \<Longrightarrow> is_matrix f h t" "i < length ts"
  shows "t_slice (i * f) ((i + 1) * f) u = ts ! i \<and> t_len u = length ts * f"
proof -
  have "ts \<noteq> []" using assms(3) by auto
  then have u: "u = \<lparr>t_trail = [h], t_rows = concat (map t_rows ts)\<rparr>"
    using t_cat_same_trail [of ts "[h]"] assms(1,2) by (auto simp: is_matrix_def)
  have "py_slice (i * f) ((i + 1) * f) (concat (map t_rows ts)) = map t_rows ts ! i"
    by (rule py_slice_concat) (use assms(2,3) in \<open>auto simp: is_matrix_def t_len_def\<close>)
  moreover have "t_trail (ts ! i) = [h]" using assms(2,3) by (auto simp: is_matrix_def)
  ultimately have "t_slice (i * f) ((i + 1) * f) u = ts ! i"
    using assms(3) by (simp add: u t_slice_def)
  moreover have "sum_list (map (\<lambda>t. length (t_rows t)) ts) = length ts * f"
    by (rule sum_list_const) (use assms(2) in \<open>auto simp: is_matrix_def t_len_def\<close>)
  ultimately show ?thesis by (simp add: u t_len_def length_concat comp_def)
qed

end
