(* ===== verification/Weight_Bridge.thy ===== *)
theory Weight_Bridge
  imports Name_Pattern Weight_Tensor
begin

text \<open>
  \<open>lumenrl/engine/training/bridges/core.py\<close>: the machinery shared by the bridges between
  Megatron parameters and Hugging Face checkpoints. A rule has a name template and a conversion;
  the bridge converts every named tensor by the rule its name matches. A generator is the list it
  yields when it is drained, or the exception that ends it; the names no rule matches, which the
  code logs, are returned beside the list.
\<close>

section \<open>Named tensors, sites and rules\<close>

type_synonym 'e named = "(string \<times> 'e tensor) list"

record 'd site =
  site_layer :: "nat option"
  site_expert :: "nat option"
  site_expert_offset :: nat
  site_dims :: 'd
  site_expert_step :: "nat option"

definition show_opt :: "nat option \<Rightarrow> string" where
  "show_opt i = (case i of None \<Rightarrow> ''None'' | Some n \<Rightarrow> show_nat n)"

definition site_name :: "'d site \<Rightarrow> string \<Rightarrow> string" where
  \<comment> \<open>\<open>Site.name\<close>\<close>
  "site_name site template =
     format_name (\<lambda>k. show_opt (if k = CHR ''L'' then site_layer site
       else if k = CHR ''E'' then site_expert site else site_expert_step site)) template"

record ('e, 'd) rule =
  r_megatron :: string
  r_convert :: "'e tensor \<Rightarrow> 'd site \<Rightarrow> 'e named result"

definition rename :: "string \<Rightarrow> string \<Rightarrow> ('e, 'd) rule" where
  "rename megatron hf =
     \<lparr>r_megatron = megatron, r_convert = (\<lambda>t site. Inr [(site_name site hf, t)])\<rparr>"

definition split_rule ::
  "string \<Rightarrow> string list \<Rightarrow> ('e tensor \<Rightarrow> 'd \<Rightarrow> 'e tensor list result) \<Rightarrow> ('e, 'd) rule" where
  \<comment> \<open>\<open>split\<close>: a fused tensor that becomes one tensor per name\<close>
  "split_rule megatron hf f =
     \<lparr>r_megatron = megatron,
      r_convert = (\<lambda>t site. bind_result (f t (site_dims site)) (\<lambda>parts.
        bind_result (require (length parts = length hf) AssertionError) (\<lambda>_.
        Inr (zip (map (site_name site) hf) parts))))\<rparr>"

definition split_gate_up :: "'e tensor \<Rightarrow> ('e tensor \<times> 'e tensor) result" where
  "split_gate_up t = t_halves t"

definition gate_up :: "string \<Rightarrow> string \<Rightarrow> ('e, 'd) rule" where
  "gate_up megatron hf_prefix =
     split_rule megatron [hf_prefix @ ''gate_proj.weight'', hf_prefix @ ''up_proj.weight'']
       (\<lambda>t d. bind_result (split_gate_up t) (\<lambda>(gate, up). Inr [gate, up]))"

definition expert_layouts :: "string \<Rightarrow> string \<Rightarrow> (string \<times> string) list" where
  \<comment> \<open>the fc1 and fc2 templates of the grouped and the sequential layout, with the expert index\<close>
  "expert_layouts e1 e2 =
     [(''decoder.layers.{L}.mlp.experts.linear_fc1.weight'' @ e1,
       ''decoder.layers.{L}.mlp.experts.linear_fc2.weight'' @ e1),
      (''decoder.layers.{L}.mlp.experts.local_experts.'' @ e2 @ ''.linear_fc1.weight'',
       ''decoder.layers.{L}.mlp.experts.local_experts.'' @ e2 @ ''.linear_fc2.weight'')]"

definition routed_expert_rules :: "string \<Rightarrow> ('e, 'd) rule list" where
  "routed_expert_rules hf_prefix =
     concat (map (\<lambda>(fc1, fc2). [gate_up fc1 hf_prefix, rename fc2 (hf_prefix @ ''down_proj.weight'')])
       (expert_layouts ''{E}'' ''{E}''))"

definition stacked_expert_rules :: "string \<Rightarrow> ('e, 'd) rule list" where
  "stacked_expert_rules hf_prefix =
     concat (map (\<lambda>(fc1, fc2).
         [rename fc1 (hf_prefix @ ''{E}::{S}.gate_up_proj''), rename fc2 (hf_prefix @ ''{E}::{S}.down_proj'')])
       (expert_layouts ''{E}::{S}'' ''{E}::{S}''))"

definition top_level_rules :: "('e, 'd) rule list" where
  "top_level_rules =
     [rename ''embedding.word_embeddings.weight'' ''model.embed_tokens.weight'',
      rename ''decoder.final_layernorm.weight'' ''model.norm.weight'',
      rename ''output_layer.weight'' ''lm_head.weight'']"

section \<open>Matching a name\<close>

definition module_prefixes :: "string list" where
  "module_prefixes = [''module.module.'', ''module.'']"

definition strip_module_prefix :: "string \<Rightarrow> string" where
  "strip_module_prefix name =
     (case find (\<lambda>pre. has_prefix pre name) module_prefixes of
        Some pre \<Rightarrow> drop (length pre) name
      | None \<Rightarrow> name)"

definition templated :: "('e, 'd) rule \<Rightarrow> bool" where
  "templated r = (CHR ''{'' \<in> set (r_megatron r))"

definition match_rule ::
  "('e, 'd) rule list \<Rightarrow> string \<Rightarrow> (('e, 'd) rule \<times> (char \<times> nat) list) option" where
  \<comment> \<open>\<open>WeightBridge.match\<close>: rules without slots are looked up in a dictionary, where the last one
      of a name wins; the others are tried in order\<close>
  "match_rule rules name =
     (case map_of (rev (map (\<lambda>r. (r_megatron r, r)) (filter (\<lambda>r. \<not> templated r) rules))) name of
        Some r \<Rightarrow> Some (r, [])
      | None \<Rightarrow>
          first_some (\<lambda>r. map_option (Pair r) (match_parts (name_parts (r_megatron r)) name))
            (filter templated rules))"

definition site_of :: "(char \<times> nat) list \<Rightarrow> 'd \<Rightarrow> nat \<Rightarrow> nat \<Rightarrow> 'd site" where
  "site_of idx d layer_offset expert_offset =
     \<lparr>site_layer = map_option (\<lambda>l. l + layer_offset) (map_of idx (CHR ''L'')),
      site_expert = map_option (\<lambda>e. e + expert_offset) (map_of idx (CHR ''E'')),
      site_expert_offset = expert_offset,
      site_dims = d,
      site_expert_step = map_of idx (CHR ''S'')\<rparr>"

fun bridge_to_hf ::
  "('e, 'd) rule list \<Rightarrow> 'd \<Rightarrow> nat \<Rightarrow> nat \<Rightarrow> 'e named \<Rightarrow> ('e named \<times> string list) result" where
  \<comment> \<open>\<open>WeightBridge.megatron_to_hf\<close>\<close>
  "bridge_to_hf rules d lo eo [] = Inr ([], [])"
| "bridge_to_hf rules d lo eo ((raw, t) # params) =
     (let name = strip_module_prefix raw in
      case match_rule rules name of
        None \<Rightarrow> bind_result (bridge_to_hf rules d lo eo params)
                  (\<lambda>(out, unmatched). Inr (out, name # unmatched))
      | Some (r, idx) \<Rightarrow>
          bind_result (r_convert r t (site_of idx d lo eo)) (\<lambda>hf.
          bind_result (bridge_to_hf rules d lo eo params) (\<lambda>(out, unmatched).
          Inr (hf @ out, unmatched))))"

section \<open>Expert indices in names\<close>

fun line_prefix :: "(string \<Rightarrow> 'a option) \<Rightarrow> string \<Rightarrow> ('a \<times> string) option" where
  \<comment> \<open>a pattern that starts with \<open>(.*\<close>: the longest prefix without a line break whose rest matches\<close>
  "line_prefix m [] = map_option (\<lambda>x. (x, [])) (m [])"
| "line_prefix m (c # s) =
     (case (if c = CHR 0x0A then None else line_prefix m s) of
        Some (x, pre) \<Rightarrow> Some (x, c # pre)
      | None \<Rightarrow> map_option (\<lambda>x. (x, [])) (m (c # s)))"

definition fc_match :: "(string \<Rightarrow> string) \<Rightarrow> string \<Rightarrow> (nat \<times> string) option" where
  \<comment> \<open>\<open>([12])\<close> inside a template with an expert index\<close>
  "fc_match template s =
     first_some (\<lambda>fc. case match_parts (name_parts (template fc)) s of
          Some [(_, e)] \<Rightarrow> Some (e, fc) | _ \<Rightarrow> None) [''1'', ''2'']"

definition grouped_match :: "string \<Rightarrow> (nat \<times> string) option" where
  "grouped_match = fc_match (\<lambda>fc. ''.mlp.experts.linear_fc'' @ fc @ ''.weight{E}'')"

definition seq_match :: "string \<Rightarrow> (nat \<times> string) option" where
  "seq_match = fc_match (\<lambda>fc. ''.mlp.experts.local_experts.{E}.linear_fc'' @ fc @ ''.weight'')"

definition exp_grouped :: "string \<Rightarrow> (nat \<times> string \<times> string) option" where
  \<comment> \<open>expert index, which fc, and the text before \<open>.weight\<close>\<close>
  "exp_grouped s =
     map_option (\<lambda>((e, fc), pre). (e, fc, pre @ ''.mlp.experts.linear_fc'' @ fc))
       (line_prefix grouped_match s)"

definition exp_seq :: "string \<Rightarrow> (nat \<times> string \<times> string) option" where
  \<comment> \<open>expert index, which fc, and the text before the index\<close>
  "exp_seq s =
     map_option (\<lambda>((e, fc), pre). (e, fc, pre @ ''.mlp.experts.local_experts.''))
       (line_prefix seq_match s)"

definition expert_local_index :: "string \<Rightarrow> (nat \<times> string) option" where
  "expert_local_index name =
     (case exp_grouped name of
        Some (e, fc, _) \<Rightarrow> Some (e, fc)
      | None \<Rightarrow> map_option (\<lambda>(e, fc, _). (e, fc)) (exp_seq name))"

definition relabel_expert_index :: "string \<Rightarrow> string \<Rightarrow> string" where
  "relabel_expert_index name new_e =
     (case exp_grouped name of
        Some (_, _, g1) \<Rightarrow> g1 @ ''.weight'' @ new_e
      | None \<Rightarrow>
          (case exp_seq name of
             Some (_, fc, g1) \<Rightarrow> g1 @ new_e @ ''.linear_fc'' @ fc @ ''.weight''
           | None \<Rightarrow> name))"

definition stacked_expert_index :: "nat \<Rightarrow> nat \<Rightarrow> string" where
  "stacked_expert_index start step = show_nat start @ ''::'' @ show_nat step"

definition pp_layer_range ::
  "nat \<Rightarrow> nat \<Rightarrow> nat \<Rightarrow> nat list option \<Rightarrow> (nat \<times> nat) result" where
  \<comment> \<open>the first global layer and the number of layers of a pipeline stage\<close>
  "pp_layer_range num_layers pp_rank pp_size layers_per_pp_rank =
     (if pp_size \<le> 1 then Inr (0, num_layers)
      else case layers_per_pp_rank of
        Some ls \<Rightarrow>
          if length ls = pp_size
          then bind_result (py_index ls (int pp_rank)) (\<lambda>n. Inr (sum_list (take pp_rank ls), n))
          else Inl AssertionError
      | None \<Rightarrow> Inr (pp_rank * (num_layers div pp_size), num_layers div pp_size))"

section \<open>Searching a name with symbolic indices\<close>

definition no_digit_match :: "(string \<Rightarrow> 'a option) \<Rightarrow> bool" where
  "no_digit_match m \<longleftrightarrow> (\<forall>c s. is_digit c \<longrightarrow> m (c # s) = None)"

lemma line_prefix_digits:
  assumes "no_digit_match m" "\<forall>c \<in> set ds. is_digit c"
  shows "line_prefix m (ds @ s) = map_option (\<lambda>(x, pre). (x, ds @ pre)) (line_prefix m s)"
  using assms(2)
proof (induction ds)
  case Nil
  show ?case by (simp add: option.map_id0 case_prod_unfold option.map_ident)
next
  case (Cons c ds)
  then have "c \<noteq> CHR 0x0A" "m (c # ds @ s) = None"
    using assms(1) by (auto simp: is_digit_def no_digit_match_def)
  with Cons show ?case by (auto split: option.split)
qed

lemma line_prefix_show_nat:
  "no_digit_match m \<Longrightarrow>
   line_prefix m (show_nat n @ s) = map_option (\<lambda>(x, pre). (x, show_nat n @ pre)) (line_prefix m s)"
  by (rule line_prefix_digits) (simp_all add: show_nat_digits)

lemma line_prefix_show_nat_end:
  "no_digit_match m \<Longrightarrow>
   line_prefix m (show_nat n) = map_option (\<lambda>(x, pre). (x, show_nat n @ pre)) (line_prefix m [])"
  using line_prefix_show_nat [of m n "[]"] by simp

lemma name_parts_first: "c \<noteq> CHR ''{'' \<Longrightarrow> \<exists>l ps. name_parts (c # s) = Lit (c # l) # ps"
  by (cases "(c, name_parts s)" rule: add_char.cases) auto

definition meg_layer :: "nat \<Rightarrow> string \<Rightarrow> string" where
  \<comment> \<open>\<open>f"decoder.layers.{i}." + s\<close>\<close>
  "meg_layer i s = ''decoder.layers.'' @ show_nat i @ ''.'' @ s"

definition hf_layer :: "nat \<Rightarrow> string \<Rightarrow> string" where
  \<comment> \<open>\<open>f"model.layers.{i}." + s\<close>\<close>
  "hf_layer i s = ''model.layers.'' @ show_nat i @ ''.'' @ s"

definition grouped_expert :: "nat \<Rightarrow> string \<Rightarrow> string \<Rightarrow> string" where
  "grouped_expert i fc e = meg_layer i (''mlp.experts.linear_fc'' @ fc @ ''.weight'' @ e)"

definition local_expert :: "nat \<Rightarrow> string \<Rightarrow> string \<Rightarrow> string" where
  "local_expert i fc e = meg_layer i (''mlp.experts.local_experts.'' @ e @ ''.linear_fc'' @ fc @ ''.weight'')"

lemma match_first:
  "c \<noteq> c' \<Longrightarrow> c' \<noteq> CHR ''{'' \<Longrightarrow> match_parts (name_parts (c' # p)) (c # s) = None"
  using name_parts_first [of c' p] by auto

lemma fc_match_other:
  "c \<noteq> CHR ''.'' \<Longrightarrow> grouped_match (c # s) = None" "c \<noteq> CHR ''.'' \<Longrightarrow> seq_match (c # s) = None"
  "grouped_match [] = None" "seq_match [] = None"
proof -
  have "match_parts (name_parts (CHR ''.'' # p)) [] = None" for p
    using name_parts_first [of "CHR ''.''" p] by auto
  then show "grouped_match [] = None" "seq_match [] = None"
    by (simp_all only: grouped_match_def seq_match_def fc_match_def append.simps first_some.simps option.case)
  assume "c \<noteq> CHR ''.''"
  then have "match_parts (name_parts (CHR ''.'' # p)) (c # s) = None" for p
    by (rule match_first) simp
  then show "grouped_match (c # s) = None" "seq_match (c # s) = None"
    by (simp_all only: grouped_match_def seq_match_def fc_match_def append.simps first_some.simps option.case)
qed

lemma no_digit_fc [simp]: "no_digit_match grouped_match" "no_digit_match seq_match"
  using fc_match_other not_digit(1) by (metis no_digit_match_def)+

lemma fc_match_dot:
  "grouped_match (CHR ''.'' # s) = fc_match (\<lambda>fc. ''.mlp.experts.linear_fc'' @ fc @ ''.weight{E}'') (CHR ''.'' # s)"
  "seq_match (CHR ''.'' # s) =
     fc_match (\<lambda>fc. ''.mlp.experts.local_experts.{E}.linear_fc'' @ fc @ ''.weight'') (CHR ''.'' # s)"
  by (simp_all only: grouped_match_def seq_match_def)

lemma line_prefix_step:
  "m (c # s) = None \<Longrightarrow> c \<noteq> CHR 0x0A \<Longrightarrow>
   line_prefix m (c # s) = map_option (\<lambda>(x, pre). (x, c # pre)) (line_prefix m s)"
  "m (c # s) = Some y \<Longrightarrow> c \<noteq> CHR 0x0A \<Longrightarrow> line_prefix m s = None \<Longrightarrow>
   line_prefix m (c # s) = Some (y, [])"
  by (auto split: option.split)

declare line_prefix.simps(2) [simp del]

lemmas name_search =
  line_prefix_step line_prefix_show_nat line_prefix_show_nat_end fc_match_other fc_match_dot fc_match_def meg_layer_def

lemma exp_grouped_name:
  "fc = ''1'' \<or> fc = ''2'' \<Longrightarrow>
   exp_grouped (grouped_expert i fc (show_nat e)) = Some (e, fc, meg_layer i (''mlp.experts.linear_fc'' @ fc))"
  by (elim disjE) (simp_all add: exp_grouped_def grouped_expert_def name_search)

lemma exp_local_name:
  "fc = ''1'' \<or> fc = ''2'' \<Longrightarrow>
   exp_grouped (local_expert i fc (show_nat e)) = None \<and>
   exp_seq (local_expert i fc (show_nat e)) = Some (e, fc, meg_layer i ''mlp.experts.local_experts.'')"
  by (elim disjE) (simp_all add: exp_grouped_def exp_seq_def local_expert_def name_search)

lemma expert_local_index_name:
  "fc = ''1'' \<or> fc = ''2'' \<Longrightarrow> expert_local_index (grouped_expert i fc (show_nat e)) = Some (e, fc)"
  "fc = ''1'' \<or> fc = ''2'' \<Longrightarrow> expert_local_index (local_expert i fc (show_nat e)) = Some (e, fc)"
  by (simp_all add: expert_local_index_def exp_grouped_name exp_local_name)

lemma relabel_expert_name:
  "fc = ''1'' \<or> fc = ''2'' \<Longrightarrow>
   relabel_expert_index (grouped_expert i fc (show_nat e)) new_e = grouped_expert i fc new_e"
  "fc = ''1'' \<or> fc = ''2'' \<Longrightarrow>
   relabel_expert_index (local_expert i fc (show_nat e)) new_e = local_expert i fc new_e"
  by (simp_all add: relabel_expert_index_def exp_grouped_name exp_local_name)
     (simp_all add: grouped_expert_def local_expert_def meg_layer_def)

end
