(* ===== verification/GPT_Bridge.thy ===== *)
theory GPT_Bridge
  imports Weight_Bridge
begin

text \<open>
  \<open>lumenrl/engine/training/bridges/gpt.py\<close>: the bridge of the standard Megatron GPT model
  (grouped-query attention with a fused QKV, SwiGLU, optional mixture of experts) to a Hugging Face
  checkpoint, in both directions.
\<close>

section \<open>Dimensions and the fused QKV\<close>

record gpt_dims =
  num_layers :: nat
  hidden :: nat
  num_heads :: nat
  num_kv_groups :: nat
  head_dim :: nat
  ffn :: nat
  vocab :: nat
  num_experts :: nat
  moe_ffn :: nat
  shared_expert_ffn :: nat
  shared_expert_gate :: bool

definition heads_per_group :: "gpt_dims \<Rightarrow> nat result" where
  "heads_per_group d =
     (if num_kv_groups d = 0 then Inl ZeroDivisionError else Inr (num_heads d div num_kv_groups d))"

definition hf_qkv_to_megatron ::
  "gpt_dims \<Rightarrow> 'e tensor \<Rightarrow> 'e tensor \<Rightarrow> 'e tensor \<Rightarrow> 'e tensor result" where
  "hf_qkv_to_megatron d q k v =
     bind_result (heads_per_group d) (\<lambda>r.
     bind_result (t_reshape (num_kv_groups d) [r, head_dim d, hidden d] q) (\<lambda>q.
     bind_result (t_reshape (num_kv_groups d) [1, head_dim d, hidden d] k) (\<lambda>k.
     bind_result (t_reshape (num_kv_groups d) [1, head_dim d, hidden d] v) (\<lambda>v.
     bind_result (t_cat1 [q, k, v]) (\<lambda>qkv.
     t_reshape_rows [hidden d] qkv)))))"

definition megatron_qkv_to_hf :: "'e tensor \<Rightarrow> gpt_dims \<Rightarrow> 'e tensor list result" where
  "megatron_qkv_to_hf qkv d =
     bind_result (heads_per_group d) (\<lambda>r.
     bind_result (t_reshape (num_kv_groups d) [r + 2, head_dim d, hidden d] qkv) (\<lambda>qkv.
     bind_result (bind_result (t_slice1 0 r qkv) (t_reshape (num_heads d * head_dim d) [hidden d])) (\<lambda>q.
     bind_result (bind_result (t_slice1 r (r + 1) qkv) (t_reshape (num_kv_groups d * head_dim d) [hidden d])) (\<lambda>k.
     bind_result (bind_result (t_slice1 (r + 1) (r + 2) qkv) (t_reshape (num_kv_groups d * head_dim d) [hidden d])) (\<lambda>v.
     Inr [q, k, v])))))"

section \<open>Export\<close>

definition expert_prefix :: "'d site \<Rightarrow> nat \<Rightarrow> string" where
  "expert_prefix site i =
     ''model.layers.'' @ show_opt (site_layer site) @ ''.mlp.experts.''
       @ show_nat (site_expert_offset site + i) @ ''.''"

definition legacy_fc1 :: "'e tensor \<Rightarrow> gpt_dims site \<Rightarrow> 'e named result" where
  \<comment> \<open>\<open>weight1\<close> [hidden, n * 2 * moe_ffn]: gate and up of every expert of the rank\<close>
  "legacy_fc1 t site =
     (let f = moe_ffn (site_dims site) in
      bind_result (t_dim1 t) (\<lambda>cols.
      if f = 0 then Inl ZeroDivisionError
      else concat_result (\<lambda>i.
        bind_result (bind_result (t_slice1 (i * 2 * f) ((i + 1) * 2 * f) t) t_transpose) (\<lambda>w.
        Inr [(expert_prefix site i @ ''gate_proj.weight'', t_slice 0 f w),
             (expert_prefix site i @ ''up_proj.weight'', t_slice f (t_len w) w)]))
        [0..<cols div (2 * f)]))"

definition legacy_fc2 :: "'e tensor \<Rightarrow> gpt_dims site \<Rightarrow> 'e named result" where
  \<comment> \<open>\<open>weight2\<close> [n * moe_ffn, hidden]: down of every expert of the rank\<close>
  "legacy_fc2 t site =
     (let f = moe_ffn (site_dims site) in
      if f = 0 then Inl ZeroDivisionError
      else concat_result (\<lambda>i.
        bind_result (t_transpose (t_slice (i * f) ((i + 1) * f) t)) (\<lambda>w.
        Inr [(expert_prefix site i @ ''down_proj.weight'', w)]))
        [0..<t_len t div f])"

abbreviation layer_meg :: "string \<Rightarrow> string" where
  "layer_meg s \<equiv> ''decoder.layers.{L}.'' @ s"

abbreviation layer_hf :: "string \<Rightarrow> string" where
  "layer_hf s \<equiv> ''model.layers.{L}.'' @ s"

definition gpt_layer_rules :: "('e, gpt_dims) rule list" where
  "gpt_layer_rules =
     [rename (layer_meg ''self_attention.linear_qkv.layer_norm_weight'') (layer_hf ''input_layernorm.weight''),
      rename (layer_meg ''input_layernorm.weight'') (layer_hf ''input_layernorm.weight''),
      split_rule (layer_meg ''self_attention.linear_qkv.weight'')
        [layer_hf ''self_attn.q_proj.weight'', layer_hf ''self_attn.k_proj.weight'',
         layer_hf ''self_attn.v_proj.weight''] megatron_qkv_to_hf,
      rename (layer_meg ''self_attention.q_layernorm.weight'') (layer_hf ''self_attn.q_norm.weight''),
      rename (layer_meg ''self_attention.k_layernorm.weight'') (layer_hf ''self_attn.k_norm.weight''),
      rename (layer_meg ''self_attention.linear_proj.weight'') (layer_hf ''self_attn.o_proj.weight''),
      rename (layer_meg ''mlp.linear_fc1.layer_norm_weight'') (layer_hf ''post_attention_layernorm.weight''),
      rename (layer_meg ''pre_mlp_layernorm.weight'') (layer_hf ''post_attention_layernorm.weight''),
      gate_up (layer_meg ''mlp.linear_fc1.weight'') (layer_hf ''mlp.''),
      rename (layer_meg ''mlp.linear_fc2.weight'') (layer_hf ''mlp.down_proj.weight''),
      rename (layer_meg ''mlp.router.weight'') (layer_hf ''mlp.gate.weight'')]
     @ routed_expert_rules (layer_hf ''mlp.experts.{E}.'')
     @ stacked_expert_rules (layer_hf ''mlp.experts.'')
     @ [\<lparr>r_megatron = layer_meg ''mlp.experts.weight1'', r_convert = legacy_fc1\<rparr>,
        \<lparr>r_megatron = layer_meg ''mlp.experts.weight2'', r_convert = legacy_fc2\<rparr>,
        gate_up (layer_meg ''mlp.shared_experts.linear_fc1.weight'') (layer_hf ''mlp.shared_expert.''),
        rename (layer_meg ''mlp.shared_experts.linear_fc2.weight'')
          (layer_hf ''mlp.shared_expert.down_proj.weight''),
        rename (layer_meg ''mlp.shared_experts.gate_weight'') (layer_hf ''mlp.shared_expert_gate.weight'')]"

definition gpt_rules :: "('e, gpt_dims) rule list" where
  "gpt_rules = top_level_rules @ gpt_layer_rules"

definition megatron_to_hf ::
  "gpt_dims \<Rightarrow> nat \<Rightarrow> nat \<Rightarrow> 'e named \<Rightarrow> ('e named \<times> string list) result" where
  "megatron_to_hf d layer_offset expert_offset named_params =
     bridge_to_hf gpt_rules d layer_offset expert_offset named_params"

section \<open>Load\<close>

definition entry :: "'k \<Rightarrow> 'v result \<Rightarrow> ('k \<times> 'v) list result" where
  \<comment> \<open>\<open>m[k] = v\<close>, the assignments of a function being collected in order\<close>
  "entry k r = bind_result r (\<lambda>v. Inr [(k, v)])"

abbreviation in_order :: "'a list result list \<Rightarrow> 'a list result" where
  "in_order \<equiv> concat_result (\<lambda>r. r)"

definition cat_two :: "('k \<times> 'e tensor) list \<Rightarrow> 'k \<Rightarrow> 'k \<Rightarrow> 'e tensor result" where
  \<comment> \<open>\<open>torch.cat([hf[a], hf[b]], dim=0)\<close>\<close>
  "cat_two hf a b =
     bind_result (dict_get hf a) (\<lambda>x. bind_result (dict_get hf b) (\<lambda>y. t_cat [x, y]))"

definition hf_expert :: "nat \<Rightarrow> nat \<Rightarrow> string \<Rightarrow> string" where
  "hf_expert layer e s = hf_layer layer (''mlp.experts.'' @ show_nat e @ ''.'' @ s)"

definition hf_expert_fc1 :: "'e named \<Rightarrow> nat \<Rightarrow> nat \<Rightarrow> 'e tensor result" where
  "hf_expert_fc1 hf layer e =
     cat_two hf (hf_expert layer e ''gate_proj.weight'') (hf_expert layer e ''up_proj.weight'')"

definition hf_expert_fc2 :: "'e named \<Rightarrow> nat \<Rightarrow> nat \<Rightarrow> 'e tensor result" where
  "hf_expert_fc2 hf layer e = dict_get hf (hf_expert layer e ''down_proj.weight'')"

definition load_qkv :: "gpt_dims \<Rightarrow> 'e named \<Rightarrow> nat \<Rightarrow> 'e tensor result" where
  "load_qkv d hf gi =
     bind_result (dict_get hf (hf_layer gi ''self_attn.q_proj.weight'')) (\<lambda>q.
     bind_result (dict_get hf (hf_layer gi ''self_attn.k_proj.weight'')) (\<lambda>k.
     bind_result (dict_get hf (hf_layer gi ''self_attn.v_proj.weight'')) (\<lambda>v.
     hf_qkv_to_megatron d q k v)))"

definition load_attention :: "gpt_dims \<Rightarrow> bool \<Rightarrow> 'e named \<Rightarrow> nat \<Rightarrow> nat \<Rightarrow> 'e named result" where
  \<comment> \<open>the part of a layer that dense and mixture models share\<close>
  "load_attention d te hf gi li = in_order
     [entry (meg_layer li (if te then ''self_attention.linear_qkv.layer_norm_weight'' else ''input_layernorm.weight''))
        (dict_get hf (hf_layer gi ''input_layernorm.weight'')),
      entry (meg_layer li ''self_attention.linear_qkv.weight'') (load_qkv d hf gi),
      if hf_layer gi ''self_attn.q_norm.weight'' \<in> set (dict_keys hf)
      then in_order
        [entry (meg_layer li ''self_attention.q_layernorm.weight'') (dict_get hf (hf_layer gi ''self_attn.q_norm.weight'')),
         entry (meg_layer li ''self_attention.k_layernorm.weight'') (dict_get hf (hf_layer gi ''self_attn.k_norm.weight''))]
      else Inr [],
      entry (meg_layer li ''self_attention.linear_proj.weight'') (dict_get hf (hf_layer gi ''self_attn.o_proj.weight'')),
      entry (meg_layer li (if te then ''mlp.linear_fc1.layer_norm_weight'' else ''pre_mlp_layernorm.weight''))
        (dict_get hf (hf_layer gi ''post_attention_layernorm.weight''))]"

definition expert_weights :: "'e named \<Rightarrow> nat \<Rightarrow> nat \<Rightarrow> ('e tensor \<times> 'e tensor \<times> 'e tensor) result" where
  "expert_weights hf gi e =
     bind_result (dict_get hf (hf_expert gi e ''gate_proj.weight'')) (\<lambda>gate.
     bind_result (dict_get hf (hf_expert gi e ''up_proj.weight'')) (\<lambda>up.
     bind_result (dict_get hf (hf_expert gi e ''down_proj.weight'')) (\<lambda>down.
     Inr (gate, up, down))))"

definition fuse_expert :: "'e named \<Rightarrow> nat \<Rightarrow> nat \<Rightarrow> ('e tensor \<times> 'e tensor) result" where
  \<comment> \<open>the transposed \<open>[gate; up]\<close> and \<open>down\<close> that are appended to \<open>gate_ups\<close> and \<open>downs\<close>\<close>
  "fuse_expert hf gi e =
     bind_result (expert_weights hf gi e) (\<lambda>(gate, up, down).
     bind_result (bind_result (t_cat [gate, up]) t_transpose) (\<lambda>gu.
     bind_result (t_transpose down) (\<lambda>dn. Inr (gu, dn))))"

definition load_grouped_experts :: "'e named \<Rightarrow> nat \<Rightarrow> nat \<Rightarrow> nat list \<Rightarrow> 'e named result" where
  \<comment> \<open>GroupedMLP: all local experts in \<open>weight1\<close> and \<open>weight2\<close>\<close>
  "load_grouped_experts hf gi li es =
     bind_result (map_result (fuse_expert hf gi) es) (\<lambda>ws.
     in_order [entry (meg_layer li ''mlp.experts.weight1'') (t_cat1 (map fst ws)),
               entry (meg_layer li ''mlp.experts.weight2'') (t_cat (map snd ws))])"

definition meg_expert :: "nat \<Rightarrow> nat \<Rightarrow> string \<Rightarrow> string" where
  "meg_expert li i s = meg_layer li (''mlp.experts.local_experts.'' @ show_nat i @ ''.'' @ s)"

definition load_local_experts :: "'e named \<Rightarrow> nat \<Rightarrow> nat \<Rightarrow> nat list \<Rightarrow> 'e named result" where
  \<comment> \<open>SequentialMLP: every local expert by itself\<close>
  "load_local_experts hf gi li es =
     concat_result (\<lambda>(i, e). bind_result (expert_weights hf gi e) (\<lambda>(gate, up, down). in_order
       [entry (meg_expert li i ''linear_fc1.weight'') (t_cat [gate, up]),
        entry (meg_expert li i ''linear_fc2.weight'') (Inr down)])) (enumerate 0 es)"

definition load_shared_expert :: "gpt_dims \<Rightarrow> 'e named \<Rightarrow> nat \<Rightarrow> nat \<Rightarrow> 'e named result" where
  "load_shared_expert d hf gi li =
     (if shared_expert_ffn d > 0 then in_order
        [entry (meg_layer li ''mlp.shared_experts.linear_fc1.weight'')
           (cat_two hf (hf_layer gi ''mlp.shared_expert.gate_proj.weight'')
                       (hf_layer gi ''mlp.shared_expert.up_proj.weight'')),
         entry (meg_layer li ''mlp.shared_experts.linear_fc2.weight'')
           (dict_get hf (hf_layer gi ''mlp.shared_expert.down_proj.weight'')),
         if shared_expert_gate d
         then entry (meg_layer li ''mlp.shared_experts.gate_weight'')
                (dict_get hf (hf_layer gi ''mlp.shared_expert_gate.weight''))
         else Inr []]
      else Inr [])"

definition load_mlp :: "gpt_dims \<Rightarrow> bool \<Rightarrow> 'e named \<Rightarrow> nat list \<Rightarrow> nat \<Rightarrow> nat \<Rightarrow> 'e named result" where
  "load_mlp d grouped hf es gi li =
     (if num_experts d > 0 then in_order
        [entry (meg_layer li ''mlp.router.weight'') (dict_get hf (hf_layer gi ''mlp.gate.weight'')),
         if grouped then load_grouped_experts hf gi li es else load_local_experts hf gi li es,
         load_shared_expert d hf gi li]
      else in_order
        [entry (meg_layer li ''mlp.linear_fc1.weight'')
           (cat_two hf (hf_layer gi ''mlp.gate_proj.weight'') (hf_layer gi ''mlp.up_proj.weight'')),
         entry (meg_layer li ''mlp.linear_fc2.weight'') (dict_get hf (hf_layer gi ''mlp.down_proj.weight''))])"

definition load_top :: "'e named \<Rightarrow> bool \<Rightarrow> bool \<Rightarrow> 'e named result" where
  "load_top hf is_first is_last = in_order
     [if is_first
      then entry ''embedding.word_embeddings.weight'' (dict_get hf ''model.embed_tokens.weight'') else Inr [],
      if is_last then in_order
        [entry ''decoder.final_layernorm.weight'' (dict_get hf ''model.norm.weight''),
         entry ''output_layer.weight'' (dict_get hf ''lm_head.weight'')] else Inr []]"

record load_config =
  te_spec :: bool
  ep_rank :: nat
  ep_size :: nat
  pp_rank :: nat
  pp_size :: nat
  layers_per_pp_rank :: "nat list option"
  use_grouped_mlp :: bool

definition local_experts :: "gpt_dims \<Rightarrow> load_config \<Rightarrow> nat list result" where
  \<comment> \<open>the global indices of the experts of this rank\<close>
  "local_experts d c =
     (if num_experts d > 0 then
        if ep_size c = 0 then Inl ZeroDivisionError
        else let n = num_experts d div ep_size c in Inr [ep_rank c * n..<ep_rank c * n + n]
      else Inr [])"

definition hf_to_megatron :: "'e named \<Rightarrow> gpt_dims \<Rightarrow> load_config \<Rightarrow> 'e named result" where
  "hf_to_megatron hf d c =
     bind_result (load_top hf (pp_rank c = 0) (pp_rank c + 1 = pp_size c)) (\<lambda>top.
     bind_result (local_experts d c) (\<lambda>es.
     bind_result (pp_layer_range (num_layers d) (pp_rank c) (pp_size c) (layers_per_pp_rank c)) (\<lambda>(lo, n).
     bind_result (concat_result (\<lambda>li. in_order
         [load_attention d (te_spec c) hf (lo + li) li,
          load_mlp d (use_grouped_mlp c) hf es (lo + li) li]) [0..<n]) (\<lambda>layers.
     Inr (dict_update [] (top @ layers))))))"

end
