(* ===== verification/GPT_Match.thy ===== *)
theory GPT_Match
  imports GPT_Bridge
begin

text \<open>
  The rule every Megatron name of the GPT bridge matches, for arbitrary layer and expert indices.
  The rules of a layer are tried on what follows the layer index, which is a literal up to the
  expert index.
\<close>

section \<open>Matching the names of a layer\<close>

lemma name_parts_layer:
  "name_parts (''decoder.layers.{L}.'' @ s) =
     Lit ''decoder.layers.'' # Slot (CHR ''L'') # name_parts (CHR ''.'' # s)"
  by simp

definition layer_tail :: "('e, 'd) rule \<Rightarrow> part list" where
  "layer_tail r = name_parts (drop 18 (r_megatron r))"

lemma match_layer_template:
  assumes "r_megatron r = ''decoder.layers.{L}.'' @ u"
  shows "match_parts (name_parts (r_megatron r)) (meg_layer i s) =
     map_option ((#) (CHR ''L'', i)) (match_parts (layer_tail r) (CHR ''.'' # s))"
proof -
  obtain l ps where tail: "name_parts (CHR ''.'' # u) = Lit (CHR ''.'' # l) # ps"
    using name_parts_first [of "CHR ''.''" u] by auto
  then have "stops (name_parts (CHR ''.'' # u))" by (simp add: is_digit_def)
  then have "match_parts (Slot (CHR ''L'') # name_parts (CHR ''.'' # u)) (show_nat i @ CHR ''.'' # s) =
      map_option ((#) (CHR ''L'', i)) (match_parts (name_parts (CHR ''.'' # u)) (CHR ''.'' # s))"
    by (rule match_slot) (simp add: is_digit_def)
  moreover have "layer_tail r = name_parts (CHR ''.'' # u)"
    by (simp add: layer_tail_def assms)
  moreover have "match_parts (name_parts (r_megatron r)) (meg_layer i s) =
      match_parts (Slot (CHR ''L'') # name_parts (CHR ''.'' # u)) (show_nat i @ CHR ''.'' # s)"
    unfolding assms name_parts_layer meg_layer_def
    using match_lit_append [of "''decoder.layers.''" _ "show_nat i @ CHR ''.'' # s"] by simp
  ultimately show ?thesis by metis
qed

lemma rule_names [simp]:
  "r_megatron (rename a b) = a" "r_megatron (split_rule a bs f) = a" "r_megatron (gate_up a b) = a"
  by (simp_all add: rename_def split_rule_def gate_up_def)

lemma gpt_layer_templates: "r \<in> set gpt_layer_rules \<Longrightarrow> \<exists>u. r_megatron r = ''decoder.layers.{L}.'' @ u"
  by (auto simp: gpt_layer_rules_def routed_expert_rules_def stacked_expert_rules_def expert_layouts_def)

lemma templated_layer: "r_megatron r = ''decoder.layers.{L}.'' @ u \<Longrightarrow> templated r"
  by (simp add: templated_def)

lemma gpt_layer_templated: "r \<in> set gpt_layer_rules \<Longrightarrow> templated r"
  using gpt_layer_templates templated_layer by blast

lemma top_not_templated: "r \<in> set top_level_rules \<Longrightarrow> \<not> templated r"
  by (auto simp: top_level_rules_def templated_def)

lemma gpt_templated:
  "filter templated gpt_rules = gpt_layer_rules"
  "filter (\<lambda>r. \<not> templated r) gpt_rules = top_level_rules"
  by (simp_all add: gpt_rules_def gpt_layer_templated top_not_templated)

lemma top_level_no_layer:
  "map_of (rev (map (\<lambda>r. (r_megatron r, r)) top_level_rules)) (meg_layer i s) = None"
  by (simp add: top_level_rules_def meg_layer_def)

lemma first_some_cong:
  "(\<And>x. x \<in> set xs \<Longrightarrow> f x = g x) \<Longrightarrow> first_some f xs = first_some g xs"
  by (induction xs) (auto split: option.split)

lemma gpt_match_layer:
  "match_rule gpt_rules (meg_layer i s) =
     first_some (\<lambda>r. map_option (\<lambda>m. (r, (CHR ''L'', i) # m)) (match_parts (layer_tail r) (CHR ''.'' # s)))
       gpt_layer_rules"
proof -
  have "map_option (Pair r) (match_parts (name_parts (r_megatron r)) (meg_layer i s)) =
      map_option (\<lambda>m. (r, (CHR ''L'', i) # m)) (match_parts (layer_tail r) (CHR ''.'' # s))"
    if "\<exists>u. r_megatron r = ''decoder.layers.{L}.'' @ u" for r :: "('e, gpt_dims) rule"
    using that match_layer_template by (force simp: option.map_comp comp_def)
  then have "first_some (\<lambda>r. map_option (Pair r) (match_parts (name_parts (r_megatron r)) (meg_layer i s)))
      gpt_layer_rules =
    first_some (\<lambda>r. map_option (\<lambda>m. (r, (CHR ''L'', i) # m)) (match_parts (layer_tail r) (CHR ''.'' # s)))
      (gpt_layer_rules :: ('e, gpt_dims) rule list)"
    by (intro first_some_cong) (use gpt_layer_templates in blast)
  then show ?thesis
    by (simp only: match_rule_def gpt_templated top_level_no_layer option.case)
qed


section \<open>Lookups\<close>

lemmas gpt_lookup =
  gpt_match_layer gpt_layer_rules_def routed_expert_rules_def stacked_expert_rules_def
  expert_layouts_def layer_tail_def

lemma gpt_match [simp]:
  "match_rule gpt_rules (meg_layer i ''self_attention.linear_qkv.layer_norm_weight'') =
     Some (rename (layer_meg ''self_attention.linear_qkv.layer_norm_weight'') (layer_hf ''input_layernorm.weight''), [(CHR ''L'', i)])"
  "match_rule gpt_rules (meg_layer i ''input_layernorm.weight'') =
     Some (rename (layer_meg ''input_layernorm.weight'') (layer_hf ''input_layernorm.weight''), [(CHR ''L'', i)])"
  "match_rule gpt_rules (meg_layer i ''self_attention.q_layernorm.weight'') =
     Some (rename (layer_meg ''self_attention.q_layernorm.weight'') (layer_hf ''self_attn.q_norm.weight''), [(CHR ''L'', i)])"
  "match_rule gpt_rules (meg_layer i ''self_attention.k_layernorm.weight'') =
     Some (rename (layer_meg ''self_attention.k_layernorm.weight'') (layer_hf ''self_attn.k_norm.weight''), [(CHR ''L'', i)])"
  "match_rule gpt_rules (meg_layer i ''self_attention.linear_proj.weight'') =
     Some (rename (layer_meg ''self_attention.linear_proj.weight'') (layer_hf ''self_attn.o_proj.weight''), [(CHR ''L'', i)])"
  "match_rule gpt_rules (meg_layer i ''mlp.linear_fc1.layer_norm_weight'') =
     Some (rename (layer_meg ''mlp.linear_fc1.layer_norm_weight'') (layer_hf ''post_attention_layernorm.weight''), [(CHR ''L'', i)])"
  "match_rule gpt_rules (meg_layer i ''pre_mlp_layernorm.weight'') =
     Some (rename (layer_meg ''pre_mlp_layernorm.weight'') (layer_hf ''post_attention_layernorm.weight''), [(CHR ''L'', i)])"
  "match_rule gpt_rules (meg_layer i ''mlp.linear_fc2.weight'') =
     Some (rename (layer_meg ''mlp.linear_fc2.weight'') (layer_hf ''mlp.down_proj.weight''), [(CHR ''L'', i)])"
  "match_rule gpt_rules (meg_layer i ''mlp.router.weight'') =
     Some (rename (layer_meg ''mlp.router.weight'') (layer_hf ''mlp.gate.weight''), [(CHR ''L'', i)])"
  "match_rule gpt_rules (meg_layer i ''mlp.shared_experts.linear_fc2.weight'') =
     Some (rename (layer_meg ''mlp.shared_experts.linear_fc2.weight'') (layer_hf ''mlp.shared_expert.down_proj.weight''), [(CHR ''L'', i)])"
  "match_rule gpt_rules (meg_layer i ''mlp.shared_experts.gate_weight'') =
     Some (rename (layer_meg ''mlp.shared_experts.gate_weight'') (layer_hf ''mlp.shared_expert_gate.weight''), [(CHR ''L'', i)])"
  by (simp_all add: gpt_lookup)

lemma gpt_match_split [simp]:
  "match_rule gpt_rules (meg_layer i ''self_attention.linear_qkv.weight'') =
     Some (split_rule (layer_meg ''self_attention.linear_qkv.weight'')
       [layer_hf ''self_attn.q_proj.weight'', layer_hf ''self_attn.k_proj.weight'',
        layer_hf ''self_attn.v_proj.weight''] megatron_qkv_to_hf, [(CHR ''L'', i)])"
  "match_rule gpt_rules (meg_layer i ''mlp.linear_fc1.weight'') =
     Some (gate_up (layer_meg ''mlp.linear_fc1.weight'') (layer_hf ''mlp.''), [(CHR ''L'', i)])"
  "match_rule gpt_rules (meg_layer i ''mlp.shared_experts.linear_fc1.weight'') =
     Some (gate_up (layer_meg ''mlp.shared_experts.linear_fc1.weight'') (layer_hf ''mlp.shared_expert.''),
       [(CHR ''L'', i)])"
  "match_rule gpt_rules (meg_layer i ''mlp.experts.weight1'') =
     Some (\<lparr>r_megatron = layer_meg ''mlp.experts.weight1'', r_convert = legacy_fc1\<rparr>, [(CHR ''L'', i)])"
  "match_rule gpt_rules (meg_layer i ''mlp.experts.weight2'') =
     Some (\<lparr>r_megatron = layer_meg ''mlp.experts.weight2'', r_convert = legacy_fc2\<rparr>, [(CHR ''L'', i)])"
  by (simp_all add: gpt_lookup)

lemma gpt_match_expert [simp]:
  "match_rule gpt_rules (meg_expert i e ''linear_fc1.weight'') =
     Some (gate_up (layer_meg ''mlp.experts.local_experts.{E}.linear_fc1.weight'') (layer_hf ''mlp.experts.{E}.''),
       [(CHR ''L'', i), (CHR ''E'', e)])"
  "match_rule gpt_rules (meg_expert i e ''linear_fc2.weight'') =
     Some (rename (layer_meg ''mlp.experts.local_experts.{E}.linear_fc2.weight'')
       (layer_hf ''mlp.experts.{E}.down_proj.weight''), [(CHR ''L'', i), (CHR ''E'', e)])"
  by (simp_all add: gpt_lookup meg_expert_def)

lemma gpt_match_grouped:
  "match_rule gpt_rules (grouped_expert i ''1'' (show_nat e)) =
     Some (gate_up (layer_meg ''mlp.experts.linear_fc1.weight{E}'') (layer_hf ''mlp.experts.{E}.''),
       [(CHR ''L'', i), (CHR ''E'', e)])"
  "match_rule gpt_rules (grouped_expert i ''2'' (show_nat e)) =
     Some (rename (layer_meg ''mlp.experts.linear_fc2.weight{E}'')
       (layer_hf ''mlp.experts.{E}.down_proj.weight''), [(CHR ''L'', i), (CHR ''E'', e)])"
  by (simp_all add: gpt_lookup grouped_expert_def)

lemma gpt_match_stacked:
  "match_rule gpt_rules (grouped_expert i ''1'' (stacked_expert_index e n)) =
     Some (rename (layer_meg ''mlp.experts.linear_fc1.weight{E}::{S}'')
       (layer_hf ''mlp.experts.{E}::{S}.gate_up_proj''), [(CHR ''L'', i), (CHR ''E'', e), (CHR ''S'', n)])"
  "match_rule gpt_rules (grouped_expert i ''2'' (stacked_expert_index e n)) =
     Some (rename (layer_meg ''mlp.experts.linear_fc2.weight{E}::{S}'')
       (layer_hf ''mlp.experts.{E}::{S}.down_proj''), [(CHR ''L'', i), (CHR ''E'', e), (CHR ''S'', n)])"
  "match_rule gpt_rules (local_expert i ''1'' (stacked_expert_index e n)) =
     Some (rename (layer_meg ''mlp.experts.local_experts.{E}::{S}.linear_fc1.weight'')
       (layer_hf ''mlp.experts.{E}::{S}.gate_up_proj''), [(CHR ''L'', i), (CHR ''E'', e), (CHR ''S'', n)])"
  "match_rule gpt_rules (local_expert i ''2'' (stacked_expert_index e n)) =
     Some (rename (layer_meg ''mlp.experts.local_experts.{E}::{S}.linear_fc2.weight'')
       (layer_hf ''mlp.experts.{E}::{S}.down_proj''), [(CHR ''L'', i), (CHR ''E'', e), (CHR ''S'', n)])"
  by (simp_all add: gpt_lookup grouped_expert_def local_expert_def stacked_expert_index_def)

end
