(* ===== verification/GPT_Round_Trip.thy ===== *)
theory GPT_Round_Trip
  imports GPT_Match
begin

text \<open>
  Loading a checkpoint into the ranks of a Megatron model and exporting it again gives the
  checkpoint back: the QKV regrouping is undone, every name matches its rule, and the names a rank
  exports are those it loaded.
\<close>

section \<open>The fused QKV\<close>

lemma qkv_parts:
  assumes "t_cat1 [q, k, v] = Inr u" "wf_tensor q" "wf_tensor k" "wf_tensor v"
    "t_len q = n" "t_len k = n" "t_len v = n"
    "t_trail q = r # rest" "t_trail k = 1 # rest" "t_trail v = 1 # rest"
  shows "t_slice1 0 r u = Inr q \<and> t_slice1 r (r + 1) u = Inr k \<and> t_slice1 (r + 1) (r + 2) u = Inr v
         \<and> wf_tensor u \<and> t_len u = n \<and> t_trail u = (r + 2) # rest"
proof -
  have "t \<in> set [q, k, v] \<Longrightarrow> wf_tensor t \<and> t_len t = n \<and> t_trail t \<noteq> [] \<and> tl (t_trail t) = rest" for t
    using assms(2-) by auto
  from t_cat1_total [of "[q, k, v]", OF _ this] assms(1,8-)
  have u: "t_trail u = (r + 2) # rest" "t_len u = n" "wf_tensor u"
    "t_rows u = map (\<lambda>i. t_rows q ! i @ t_rows k ! i @ t_rows v ! i) [0..<n]" by auto
  have len: "length (t_rows q ! i) = r * prod_list rest" "length (t_rows k ! i) = prod_list rest"
    "length (t_rows v ! i) = prod_list rest" if "i < n" for i
    using assms(2-) that by (auto simp: wf_tensor_def list_all_length t_len_def)
  have "t_slice1 0 r u = Inr q"
    by (rule t_slice1_rows [OF u(1)]) (use u assms len in \<open>simp_all add: py_slice_def\<close>)
  moreover have "t_slice1 r (r + 1) u = Inr k"
    by (rule t_slice1_rows [OF u(1)]) (use u assms len in \<open>simp_all add: py_slice_def\<close>)
  moreover have "t_slice1 (r + 1) (r + 2) u = Inr v"
    by (rule t_slice1_rows [OF u(1)]) (use u assms len in \<open>simp_all add: py_slice_def\<close>)
  ultimately show ?thesis using u by simp
qed

lemma qkv_round_trip:
  assumes "num_kv_groups d > 0" "num_kv_groups d dvd num_heads d" "hidden d > 0"
    "is_matrix (num_heads d * head_dim d) (hidden d) q"
    "is_matrix (num_kv_groups d * head_dim d) (hidden d) k"
    "is_matrix (num_kv_groups d * head_dim d) (hidden d) v"
  shows "\<exists>qkv. hf_qkv_to_megatron d q k v = Inr qkv \<and> megatron_qkv_to_hf qkv d = Inr [q, k, v]"
proof -
  let ?g = "num_kv_groups d" and ?hd = "head_dim d" and ?h = "hidden d"
  obtain r where r: "num_heads d = ?g * r" using assms(2) by (elim dvdE)
  have wf: "wf_tensor q" "wf_tensor k" "wf_tensor v" using assms(4-6) by (simp_all add: is_matrix_def)
  have fused: "\<exists>u. t_reshape ?g [m, ?hd, ?h] t = Inr u \<and> wf_tensor u \<and> t_len u = ?g
      \<and> t_trail u = [m, ?hd, ?h] \<and> t_data u = t_data t" if "is_matrix (?g * m * ?hd) ?h t"
    for m and t :: "'a tensor"
    by (rule t_reshape_total) (use that in \<open>simp_all add: is_matrix_def mult_ac\<close>)
  obtain q' where q': "t_reshape ?g [r, ?hd, ?h] q = Inr q'" "wf_tensor q'" "t_len q' = ?g"
    "t_trail q' = [r, ?hd, ?h]" "t_data q' = t_data q" using fused [of r q] assms(4) r by auto
  obtain k' where k': "t_reshape ?g [1, ?hd, ?h] k = Inr k'" "wf_tensor k'" "t_len k' = ?g"
    "t_trail k' = [1, ?hd, ?h]" "t_data k' = t_data k" using fused [of 1 k] assms(5) by auto
  obtain v' where v': "t_reshape ?g [1, ?hd, ?h] v = Inr v'" "wf_tensor v'" "t_len v' = ?g"
    "t_trail v' = [1, ?hd, ?h]" "t_data v' = t_data v" using fused [of 1 v] assms(6) by auto
  obtain u where u: "t_cat1 [q', k', v'] = Inr u"
    by (simp add: t_cat1_def q' k' v')
  note parts = qkv_parts [OF u q'(2) k'(2) v'(2) q'(3) k'(3) v'(3) q'(4) k'(4) v'(4)]
  then have len: "(?g * (r + 2) * ?hd) * prod_list [?h] = t_len u * prod_list (t_trail u)"
    by (simp add: algebra_simps)
  moreover have "length (t_data u) = t_len u * prod_list (t_trail u)"
    using parts wf_data_length [of u] by simp
  ultimately have "length (t_data u) = (?g * (r + 2) * ?hd) * ?h" by simp
  then have "length (t_data u) div ?h = ?g * (r + 2) * ?hd"
    using assms(3) by (simp only: nonzero_mult_div_cancel_right)
  then have "t_reshape_rows [?h] u = t_reshape (?g * (r + 2) * ?hd) [?h] u"
    using assms(3) by (simp only: t_reshape_rows_def prod_list.Cons prod_list.Nil) simp
  then obtain w where w: "t_reshape_rows [?h] u = Inr w" "wf_tensor w" "t_data w = t_data u"
    using t_reshape_total [OF _ len] parts by auto
  have "t_reshape ?g [r + 2, ?hd, ?h] w = Inr u"
    by (rule t_reshape_back) (use parts w in auto)
  moreover have "t_reshape (num_heads d * ?hd) [?h] q' = Inr q" "t_reshape (?g * ?hd) [?h] k' = Inr k"
    "t_reshape (?g * ?hd) [?h] v' = Inr v"
    using assms(4-6) q'(5) k'(5) v'(5) by (auto intro!: t_reshape_back simp: is_matrix_def)
  ultimately show ?thesis
    using q' k' v' u w parts assms(1) r
    by (simp add: hf_qkv_to_megatron_def megatron_qkv_to_hf_def heads_per_group_def)
qed

section \<open>Loading, then exporting\<close>

definition pick_names :: "'e named \<Rightarrow> string list \<Rightarrow> 'e named" where
  "pick_names hf ns = map (\<lambda>n. (n, the (map_of hf n))) ns"

lemma pick_names_append [simp]: "pick_names hf (xs @ ys) = pick_names hf xs @ pick_names hf ys"
  by (simp add: pick_names_def)

lemma pick_names_simps [simp]:
  "pick_names hf [] = []" "pick_names hf (n # ns) = (n, the (map_of hf n)) # pick_names hf ns"
  by (simp_all add: pick_names_def)

text \<open>\<open>moves d lo eo hf r ks ns\<close>: the assignments \<open>r\<close> load the keys \<open>ks\<close>, and exporting them yields
  the tensors \<open>ns\<close> of the checkpoint.\<close>

definition moves ::
  "gpt_dims \<Rightarrow> nat \<Rightarrow> nat \<Rightarrow> 'e named \<Rightarrow> 'e named result \<Rightarrow> string list \<Rightarrow> string list \<Rightarrow> bool" where
  "moves d lo eo hf r ks ns \<longleftrightarrow>
     (\<exists>xs. r = Inr xs \<and> map fst xs = ks \<and> megatron_to_hf d lo eo xs = Inr (pick_names hf ns, []))"

lemma bridge_append:
  assumes "bridge_to_hf rs d lo eo xs = Inr (a, u)" "bridge_to_hf rs d lo eo ys = Inr (b, v)"
  shows "bridge_to_hf rs d lo eo (xs @ ys) = Inr (a @ b, u @ v)"
  using assms(1)
proof (induction xs arbitrary: a u)
  case Nil
  with assms(2) show ?case by simp
next
  case (Cons x xs)
  obtain raw t where x: "x = (raw, t)" by (cases x)
  show ?case
    using Cons
    by (cases "match_rule rs (strip_module_prefix raw)") (fastforce simp: x Let_def)+
qed

lemma moves_Nil [simp, intro]: "moves d lo eo hf (Inr []) [] []"
  by (simp add: moves_def megatron_to_hf_def)

lemma moves_append:
  "moves d lo eo hf (Inr xs) k1 n1 \<Longrightarrow> moves d lo eo hf (Inr ys) k2 n2 \<Longrightarrow>
   moves d lo eo hf (Inr (xs @ ys)) (k1 @ k2) (n1 @ n2)"
  by (auto simp: moves_def megatron_to_hf_def bridge_append)

lemma moves_Inr: "moves d lo eo hf r ks ns \<Longrightarrow> \<exists>xs. r = Inr xs \<and> moves d lo eo hf (Inr xs) ks ns"
  by (auto simp: moves_def)

lemma moves_concat:
  assumes "\<And>x. x \<in> set xs \<Longrightarrow> moves d lo eo hf (f x) (ks x) (ns x)"
  shows "moves d lo eo hf (concat_result f xs) (concat (map ks xs)) (concat (map ns xs))"
  using assms
proof (induction xs)
  case Nil
  show ?case by simp
next
  case (Cons x xs)
  obtain ys where y: "f x = Inr ys" "moves d lo eo hf (Inr ys) (ks x) (ns x)"
    using moves_Inr [OF Cons.prems [of x]] by auto
  obtain zs where z: "concat_result f xs = Inr zs"
    "moves d lo eo hf (Inr zs) (concat (map ks xs)) (concat (map ns xs))"
    using moves_Inr [OF Cons.IH] Cons.prems by auto
  show ?case using moves_append [OF y(2) z(2)] y z by simp
qed

lemma moves_in_order:
  assumes "moves d lo eo hf r k1 n1" "moves d lo eo hf (in_order rs) k2 n2"
  shows "moves d lo eo hf (in_order (r # rs)) (k1 @ k2) (n1 @ n2)"
proof -
  obtain xs where xs: "r = Inr xs" "moves d lo eo hf (Inr xs) k1 n1"
    using moves_Inr [OF assms(1)] by blast
  obtain ys where ys: "in_order rs = Inr ys" "moves d lo eo hf (Inr ys) k2 n2"
    using moves_Inr [OF assms(2)] by blast
  show ?thesis using moves_append [OF xs(2) ys(2)] xs(1) ys(1) by simp
qed

lemma moves_eq:
  "moves d lo eo hf r ks ns \<Longrightarrow> ks = ks' \<Longrightarrow> ns = ns' \<Longrightarrow> moves d lo eo hf r ks' ns'"
  by simp

lemma moves_in_order_Nil: "moves d lo eo hf (in_order []) [] []"
  by simp

lemma moves_entry:
  assumes "strip_module_prefix k = k" "match_rule gpt_rules k = Some (rule, idx)" "r = Inr t"
    "r_convert rule t (site_of idx d lo eo) = Inr (pick_names hf ns)"
  shows "moves d lo eo hf (entry k r) [k] ns"
  using assms by (simp add: moves_def entry_def megatron_to_hf_def)

lemma strip_layer [simp]:
  "strip_module_prefix (meg_layer i s) = meg_layer i s"
  "strip_module_prefix (meg_expert i e s) = meg_expert i e s"
  by (simp_all add: strip_module_prefix_def module_prefixes_def meg_expert_def meg_layer_def has_prefix_def)

definition plain :: "string \<Rightarrow> bool" where
  "plain s \<longleftrightarrow> CHR ''{'' \<notin> set s"

lemma name_parts_plain: "plain s \<Longrightarrow> concat (map (flat_part f) (name_parts s)) = s"
proof (induction s)
  case Nil
  show ?case by simp
next
  case (Cons a s)
  have "concat (map (flat_part f) (add_char a ps)) = a # concat (map (flat_part f) ps)" for ps
    by (cases "(a, ps)" rule: add_char.cases) auto
  with Cons show ?case by (auto simp: plain_def)
qed

lemma format_plain [simp]: "plain s \<Longrightarrow> format_name f s = s"
  by (simp add: format_name_def name_parts_plain)

lemma format_lit: "c \<noteq> CHR ''{'' \<Longrightarrow> format_name f (c # s) = c # format_name f s"
  by (cases "(c, name_parts s)" rule: add_char.cases) (auto simp: format_name_def)

lemma format_slot: "k \<in> set ''LES'' \<Longrightarrow> format_name f (CHR ''{'' # k # CHR ''}'' # s) = f k @ format_name f s"
  by (simp add: format_name_def)

lemma site_fields [simp]:
  "site_dims (site_of idx d lo eo) = d" "site_expert_offset (site_of idx d lo eo) = eo"
  by (simp_all add: site_of_def)

lemma site_layer_name:
  "plain s \<Longrightarrow> site_name (site_of ((CHR ''L'', i) # m) d lo eo) (layer_hf s) = hf_layer (i + lo) s"
  by (simp add: site_name_def site_of_def format_lit format_slot show_opt_def hf_layer_def)

lemma site_expert_name:
  "plain s \<Longrightarrow>
   site_name (site_of [(CHR ''L'', i), (CHR ''E'', e)] d lo eo) (layer_hf (''mlp.experts.{E}.'' @ s)) =
   hf_expert (i + lo) (e + eo) s"
  by (simp add: site_name_def site_of_def format_lit format_slot show_opt_def hf_layer_def hf_expert_def)

lemmas site_names [simp] = site_layer_name [simplified] site_expert_name [simplified]

lemma moves_rename:
  fixes hf :: "'e named"
  assumes "match_rule gpt_rules k = Some (rename m h :: ('e, gpt_dims) rule, idx)" "strip_module_prefix k = k"
    "map_of hf n \<noteq> None" "site_name (site_of idx d lo eo) h = n"
  shows "moves d lo eo hf (entry k (dict_get hf n)) [k] [n]"
  using assms(3,4)
  by (intro moves_entry [OF assms(2,1), where t = "the (map_of hf n)"]) (auto simp: rename_def)

lemma moves_gpt:
  fixes hf :: "'e named"
  assumes "match_rule gpt_rules (meg_layer i s) =
      Some (rename m (layer_hf s') :: ('e, gpt_dims) rule, [(CHR ''L'', i)])" "plain s'"
    "map_of hf (hf_layer (i + lo) s') \<noteq> None"
  shows "moves d lo eo hf (entry (meg_layer i s) (dict_get hf (hf_layer (i + lo) s')))
    [meg_layer i s] [hf_layer (i + lo) s']"
  by (rule moves_rename [OF assms(1) strip_layer(1) assms(3) site_layer_name [OF assms(2)]])

lemma moves_gate_up:
  fixes hf :: "'e named"
  assumes "match_rule gpt_rules k = Some (gate_up m h :: ('e, gpt_dims) rule, idx)" "strip_module_prefix k = k"
    "map_of hf g = Some a" "map_of hf u = Some b" "t_len a = t_len b" "t_trail a = t_trail b"
    "site_name (site_of idx d lo eo) (h @ ''gate_proj.weight'') = g"
    "site_name (site_of idx d lo eo) (h @ ''up_proj.weight'') = u"
  shows "moves d lo eo hf (entry k (t_cat [a, b])) [k] [g, u]"
proof -
  have "t_cat [a, b] = Inr \<lparr>t_trail = t_trail b, t_rows = concat (map t_rows [a, b])\<rparr>"
    by (rule t_cat_same_trail) (use assms(6) in auto)
  then obtain t where t: "t_cat [a, b] = Inr t" by blast
  have "t_halves t = Inr (a, b)" by (rule t_halves_cat [OF t assms(5,6)])
  then show ?thesis
    using assms(3,4,7,8)
    by (intro moves_entry [OF assms(2,1) t]) (simp add: gate_up_def split_rule_def split_gate_up_def)
qed

definition has_matrix :: "'e named \<Rightarrow> string \<Rightarrow> nat \<Rightarrow> nat \<Rightarrow> bool" where
  "has_matrix hf k n m \<longleftrightarrow> (case map_of hf k of None \<Rightarrow> False | Some t \<Rightarrow> is_matrix n m t)"

lemma has_matrix_iff: "has_matrix hf k n m \<longleftrightarrow> (\<exists>t. map_of hf k = Some t \<and> is_matrix n m t)"
  by (simp add: has_matrix_def split: option.split)

definition dims_ok :: "gpt_dims \<Rightarrow> bool" where
  "dims_ok d \<longleftrightarrow> num_kv_groups d > 0 \<and> num_kv_groups d dvd num_heads d \<and> hidden d > 0"

definition attention_ok :: "gpt_dims \<Rightarrow> 'e named \<Rightarrow> nat \<Rightarrow> bool" where
  "attention_ok d hf i \<longleftrightarrow>
     map_of hf (hf_layer i ''input_layernorm.weight'') \<noteq> None \<and>
     has_matrix hf (hf_layer i ''self_attn.q_proj.weight'') (num_heads d * head_dim d) (hidden d) \<and>
     has_matrix hf (hf_layer i ''self_attn.k_proj.weight'') (num_kv_groups d * head_dim d) (hidden d) \<and>
     has_matrix hf (hf_layer i ''self_attn.v_proj.weight'') (num_kv_groups d * head_dim d) (hidden d) \<and>
     (map_of hf (hf_layer i ''self_attn.q_norm.weight'') \<noteq> None \<longrightarrow>
      map_of hf (hf_layer i ''self_attn.k_norm.weight'') \<noteq> None) \<and>
     map_of hf (hf_layer i ''self_attn.o_proj.weight'') \<noteq> None \<and>
     map_of hf (hf_layer i ''post_attention_layernorm.weight'') \<noteq> None"

definition has_q_norm :: "'e named \<Rightarrow> nat \<Rightarrow> bool" where
  "has_q_norm hf i \<longleftrightarrow> hf_layer i ''self_attn.q_norm.weight'' \<in> set (dict_keys hf)"

definition attention_names :: "'e named \<Rightarrow> nat \<Rightarrow> string list" where
  "attention_names hf i = map (hf_layer i)
     ([''input_layernorm.weight'', ''self_attn.q_proj.weight'', ''self_attn.k_proj.weight'',
       ''self_attn.v_proj.weight'']
      @ (if has_q_norm hf i then [''self_attn.q_norm.weight'', ''self_attn.k_norm.weight''] else [])
      @ [''self_attn.o_proj.weight'', ''post_attention_layernorm.weight''])"

definition attention_keys :: "bool \<Rightarrow> 'e named \<Rightarrow> nat \<Rightarrow> string list" where
  "attention_keys te hf i =
     [if te then ''self_attention.linear_qkv.layer_norm_weight'' else ''input_layernorm.weight'',
      ''self_attention.linear_qkv.weight'']
      @ (if has_q_norm hf i
         then [''self_attention.q_layernorm.weight'', ''self_attention.k_layernorm.weight''] else [])
      @ [''self_attention.linear_proj.weight'',
         if te then ''mlp.linear_fc1.layer_norm_weight'' else ''pre_mlp_layernorm.weight'']"

lemma plain_names [simp]:
  "plain ''input_layernorm.weight''" "plain ''self_attn.q_proj.weight''" "plain ''self_attn.k_proj.weight''"
  "plain ''self_attn.v_proj.weight''" "plain ''self_attn.q_norm.weight''" "plain ''self_attn.k_norm.weight''"
  "plain ''self_attn.o_proj.weight''" "plain ''post_attention_layernorm.weight''"
  "plain ''mlp.gate_proj.weight''" "plain ''mlp.up_proj.weight''" "plain ''mlp.down_proj.weight''"
  "plain ''mlp.gate.weight''" "plain ''gate_proj.weight''" "plain ''up_proj.weight''"
  "plain ''down_proj.weight''" "plain ''mlp.shared_expert.gate_proj.weight''"
  "plain ''mlp.shared_expert.up_proj.weight''" "plain ''mlp.shared_expert.down_proj.weight''"
  "plain ''mlp.shared_expert_gate.weight''"
  by (simp_all add: plain_def)

lemma moves_qkv:
  assumes "dims_ok d" "attention_ok d hf (li + lo)"
  shows "moves d lo eo hf (entry (meg_layer li ''self_attention.linear_qkv.weight'') (load_qkv d hf (li + lo)))
    [meg_layer li ''self_attention.linear_qkv.weight'']
    (map (hf_layer (li + lo)) [''self_attn.q_proj.weight'', ''self_attn.k_proj.weight'', ''self_attn.v_proj.weight''])"
proof -
  obtain q k v where "map_of hf (hf_layer (li + lo) ''self_attn.q_proj.weight'') = Some q"
    "map_of hf (hf_layer (li + lo) ''self_attn.k_proj.weight'') = Some k"
    "map_of hf (hf_layer (li + lo) ''self_attn.v_proj.weight'') = Some v"
    and m: "is_matrix (num_heads d * head_dim d) (hidden d) q"
    "is_matrix (num_kv_groups d * head_dim d) (hidden d) k"
    "is_matrix (num_kv_groups d * head_dim d) (hidden d) v"
    using assms(2) by (auto simp: attention_ok_def has_matrix_iff)
  moreover obtain qkv where "hf_qkv_to_megatron d q k v = Inr qkv" "megatron_qkv_to_hf qkv d = Inr [q, k, v]"
    using qkv_round_trip [OF _ _ _ m] assms(1) by (auto simp: dims_ok_def)
  ultimately show ?thesis
    by (intro moves_entry [OF strip_layer(1) gpt_match_split(1), where t = qkv])
       (simp_all add: load_qkv_def dict_get_def split_rule_def)
qed

lemma hf_key [simp]: "k \<in> set (dict_keys hf) \<longleftrightarrow> map_of hf k \<noteq> None"
  by (metis map_of_eq_None_iff set_map)

lemma moves_q_norm:
  assumes "attention_ok d hf (li + lo)"
  shows "moves d lo eo hf
      (if hf_layer (li + lo) ''self_attn.q_norm.weight'' \<in> set (dict_keys hf)
       then in_order
        [entry (meg_layer li ''self_attention.q_layernorm.weight'') (dict_get hf (hf_layer (li + lo) ''self_attn.q_norm.weight'')),
         entry (meg_layer li ''self_attention.k_layernorm.weight'') (dict_get hf (hf_layer (li + lo) ''self_attn.k_norm.weight''))]
       else Inr [])
      (map (meg_layer li) (if has_q_norm hf (li + lo)
        then [''self_attention.q_layernorm.weight'', ''self_attention.k_layernorm.weight''] else []))
      (map (hf_layer (li + lo)) (if has_q_norm hf (li + lo)
        then [''self_attn.q_norm.weight'', ''self_attn.k_norm.weight''] else []))"
proof (cases "has_q_norm hf (li + lo)")
  case True
  then have "map_of hf (hf_layer (li + lo) ''self_attn.q_norm.weight'') \<noteq> None"
    "map_of hf (hf_layer (li + lo) ''self_attn.k_norm.weight'') \<noteq> None"
    using assms unfolding has_q_norm_def attention_ok_def by (simp_all only: hf_key) blast+
  from moves_in_order [OF moves_gpt [OF gpt_match(3) plain_names(5) this(1)]
      moves_in_order [OF moves_gpt [OF gpt_match(4) plain_names(6) this(2)] moves_in_order_Nil]]
  show ?thesis
    unfolding if_P [OF True] if_P [OF True [unfolded has_q_norm_def]] by (rule moves_eq) simp_all
next
  case False
  then show ?thesis by (simp only: has_q_norm_def if_False list.map moves_Nil)
qed

lemma moves_attention:
  assumes "dims_ok d" "attention_ok d hf (li + lo)"
  shows "moves d lo eo hf (load_attention d te hf (li + lo) li)
    (map (meg_layer li) (attention_keys te hf (li + lo))) (attention_names hf (li + lo))"
proof -
  have present: "map_of hf (hf_layer (li + lo) ''input_layernorm.weight'') \<noteq> None"
    "map_of hf (hf_layer (li + lo) ''self_attn.o_proj.weight'') \<noteq> None"
    "map_of hf (hf_layer (li + lo) ''post_attention_layernorm.weight'') \<noteq> None"
    using assms(2) unfolding attention_ok_def by blast+
  have ln: "moves d lo eo hf
      (entry (meg_layer li (if te then ''self_attention.linear_qkv.layer_norm_weight'' else ''input_layernorm.weight''))
        (dict_get hf (hf_layer (li + lo) ''input_layernorm.weight'')))
      [meg_layer li (if te then ''self_attention.linear_qkv.layer_norm_weight'' else ''input_layernorm.weight'')]
      [hf_layer (li + lo) ''input_layernorm.weight'']"
    using moves_gpt [OF gpt_match(1) plain_names(1) present(1)]
      moves_gpt [OF gpt_match(2) plain_names(1) present(1)] by (cases te) simp_all
  have mlp_ln: "moves d lo eo hf
      (entry (meg_layer li (if te then ''mlp.linear_fc1.layer_norm_weight'' else ''pre_mlp_layernorm.weight''))
        (dict_get hf (hf_layer (li + lo) ''post_attention_layernorm.weight'')))
      [meg_layer li (if te then ''mlp.linear_fc1.layer_norm_weight'' else ''pre_mlp_layernorm.weight'')]
      [hf_layer (li + lo) ''post_attention_layernorm.weight'']"
    using moves_gpt [OF gpt_match(6) plain_names(8) present(3)]
      moves_gpt [OF gpt_match(7) plain_names(8) present(3)] by (cases te) simp_all
  show ?thesis
    unfolding load_attention_def attention_keys_def attention_names_def
    by (rule moves_eq [OF moves_in_order [OF ln moves_in_order [OF moves_qkv [OF assms]
          moves_in_order [OF moves_q_norm [OF assms(2)]
          moves_in_order [OF moves_gpt [OF gpt_match(5) plain_names(7) present(2)]
          moves_in_order [OF mlp_ln moves_in_order_Nil]]]]]]) simp_all
qed

section \<open>The feed-forward part\<close>

definition has_gate_up :: "'e named \<Rightarrow> string \<Rightarrow> string \<Rightarrow> nat \<Rightarrow> nat \<Rightarrow> bool" where
  "has_gate_up hf g u f h \<longleftrightarrow> has_matrix hf g f h \<and> has_matrix hf u f h"

definition dense_ok :: "gpt_dims \<Rightarrow> 'e named \<Rightarrow> nat \<Rightarrow> bool" where
  "dense_ok d hf i \<longleftrightarrow>
     has_gate_up hf (hf_layer i ''mlp.gate_proj.weight'') (hf_layer i ''mlp.up_proj.weight'') (ffn d) (hidden d) \<and>
     map_of hf (hf_layer i ''mlp.down_proj.weight'') \<noteq> None"

definition shared_ok :: "gpt_dims \<Rightarrow> 'e named \<Rightarrow> nat \<Rightarrow> bool" where
  "shared_ok d hf i \<longleftrightarrow>
     has_gate_up hf (hf_layer i ''mlp.shared_expert.gate_proj.weight'')
       (hf_layer i ''mlp.shared_expert.up_proj.weight'') (shared_expert_ffn d) (hidden d) \<and>
     map_of hf (hf_layer i ''mlp.shared_expert.down_proj.weight'') \<noteq> None \<and>
     (shared_expert_gate d \<longrightarrow> map_of hf (hf_layer i ''mlp.shared_expert_gate.weight'') \<noteq> None)"

definition expert_ok :: "gpt_dims \<Rightarrow> 'e named \<Rightarrow> nat \<Rightarrow> nat \<Rightarrow> bool" where
  "expert_ok d hf i e \<longleftrightarrow>
     has_gate_up hf (hf_expert i e ''gate_proj.weight'') (hf_expert i e ''up_proj.weight'') (moe_ffn d) (hidden d) \<and>
     has_matrix hf (hf_expert i e ''down_proj.weight'') (hidden d) (moe_ffn d)"

lemma moves_cat_two:
  fixes hf :: "'e named"
  assumes "match_rule gpt_rules k = Some (gate_up m h :: ('e, gpt_dims) rule, idx)" "strip_module_prefix k = k"
    "has_gate_up hf g u f c"
    "site_name (site_of idx d lo eo) (h @ ''gate_proj.weight'') = g"
    "site_name (site_of idx d lo eo) (h @ ''up_proj.weight'') = u"
  shows "moves d lo eo hf (entry k (cat_two hf g u)) [k] [g, u]"
proof -
  obtain a b where ab: "map_of hf g = Some a" "map_of hf u = Some b" "is_matrix f c a" "is_matrix f c b"
    using assms(3) by (auto simp: has_gate_up_def has_matrix_iff)
  then have "cat_two hf g u = t_cat [a, b]" by (simp add: cat_two_def dict_get_def)
  moreover have "moves d lo eo hf (entry k (t_cat [a, b])) [k] [g, u]"
    by (rule moves_gate_up [OF assms(1,2) ab(1,2) _ _ assms(4,5)]) (use ab in \<open>simp_all add: is_matrix_def\<close>)
  ultimately show ?thesis by simp
qed

definition shared_keys :: "gpt_dims \<Rightarrow> string list" where
  "shared_keys d = (if shared_expert_ffn d > 0 then
     [''mlp.shared_experts.linear_fc1.weight'', ''mlp.shared_experts.linear_fc2.weight'']
       @ (if shared_expert_gate d then [''mlp.shared_experts.gate_weight''] else []) else [])"

definition shared_names :: "gpt_dims \<Rightarrow> nat \<Rightarrow> string list" where
  "shared_names d i = (if shared_expert_ffn d > 0 then map (hf_layer i)
     ([''mlp.shared_expert.gate_proj.weight'', ''mlp.shared_expert.up_proj.weight'',
       ''mlp.shared_expert.down_proj.weight'']
      @ (if shared_expert_gate d then [''mlp.shared_expert_gate.weight''] else [])) else [])"

lemma moves_shared:
  assumes "shared_expert_ffn d > 0 \<Longrightarrow> shared_ok d hf (li + lo)"
  shows "moves d lo eo hf (load_shared_expert d hf (li + lo) li) (map (meg_layer li) (shared_keys d))
    (shared_names d (li + lo))"
proof (cases "shared_expert_ffn d > 0")
  case True
  note ok = assms [OF True, unfolded shared_ok_def]
  have fc1: "moves d lo eo hf
      (entry (meg_layer li ''mlp.shared_experts.linear_fc1.weight'')
         (cat_two hf (hf_layer (li + lo) ''mlp.shared_expert.gate_proj.weight'')
                     (hf_layer (li + lo) ''mlp.shared_expert.up_proj.weight'')))
      [meg_layer li ''mlp.shared_experts.linear_fc1.weight'']
      [hf_layer (li + lo) ''mlp.shared_expert.gate_proj.weight'',
       hf_layer (li + lo) ''mlp.shared_expert.up_proj.weight'']"
    by (rule moves_cat_two [OF gpt_match_split(3) strip_layer(1) conjunct1 [OF ok]]) simp_all
  have gate: "moves d lo eo hf
      (if shared_expert_gate d
       then entry (meg_layer li ''mlp.shared_experts.gate_weight'')
              (dict_get hf (hf_layer (li + lo) ''mlp.shared_expert_gate.weight'')) else Inr [])
      (if shared_expert_gate d then [meg_layer li ''mlp.shared_experts.gate_weight''] else [])
      (if shared_expert_gate d then [hf_layer (li + lo) ''mlp.shared_expert_gate.weight''] else [])"
    using ok by (auto intro!: moves_gpt [OF gpt_match(11) plain_names(19)])
  have fc2: "map_of hf (hf_layer (li + lo) ''mlp.shared_expert.down_proj.weight'') \<noteq> None" using ok by blast
  show ?thesis
    unfolding load_shared_expert_def shared_keys_def shared_names_def if_P [OF True]
    by (rule moves_eq [OF moves_in_order [OF fc1 moves_in_order [OF moves_gpt [OF gpt_match(10) plain_names(18) fc2]
          moves_in_order [OF gate moves_in_order_Nil]]]]) simp_all
next
  case False
  then show ?thesis
    by (simp only: load_shared_expert_def shared_keys_def shared_names_def if_False list.map moves_Nil)
qed

lemma moves_local_expert:
  assumes "expert_ok d hf (li + lo) (i + eo)"
  shows "moves d lo eo hf
    (bind_result (expert_weights hf (li + lo) (i + eo)) (\<lambda>(gate, up, down). in_order
       [entry (meg_expert li i ''linear_fc1.weight'') (t_cat [gate, up]),
        entry (meg_expert li i ''linear_fc2.weight'') (Inr down)]))
    [meg_expert li i ''linear_fc1.weight'', meg_expert li i ''linear_fc2.weight'']
    (map (hf_expert (li + lo) (i + eo)) [''gate_proj.weight'', ''up_proj.weight'', ''down_proj.weight''])"
proof -
  let ?n = "hf_expert (li + lo) (i + eo)"
  obtain a b c where w: "map_of hf (?n ''gate_proj.weight'') = Some a" "map_of hf (?n ''up_proj.weight'') = Some b"
    "map_of hf (?n ''down_proj.weight'') = Some c" "is_matrix (moe_ffn d) (hidden d) a" "is_matrix (moe_ffn d) (hidden d) b"
    using assms by (auto simp: expert_ok_def has_gate_up_def has_matrix_iff)
  have "moves d lo eo hf (entry (meg_expert li i ''linear_fc1.weight'') (t_cat [a, b]))
      [meg_expert li i ''linear_fc1.weight''] [?n ''gate_proj.weight'', ?n ''up_proj.weight'']"
    by (rule moves_gate_up [OF gpt_match_expert(1) strip_layer(2) w(1,2)])
       (use w(4,5) in \<open>simp_all add: is_matrix_def\<close>)
  moreover have "moves d lo eo hf (entry (meg_expert li i ''linear_fc2.weight'') (dict_get hf (?n ''down_proj.weight'')))
      [meg_expert li i ''linear_fc2.weight''] [?n ''down_proj.weight'']"
    by (rule moves_rename [OF gpt_match_expert(2) strip_layer(2)]) (simp_all add: w(3))
  ultimately have "moves d lo eo hf
      (in_order [entry (meg_expert li i ''linear_fc1.weight'') (t_cat [a, b]),
                 entry (meg_expert li i ''linear_fc2.weight'') (dict_get hf (?n ''down_proj.weight''))])
      ([meg_expert li i ''linear_fc1.weight''] @ [meg_expert li i ''linear_fc2.weight''] @ [])
      ([?n ''gate_proj.weight'', ?n ''up_proj.weight''] @ [?n ''down_proj.weight''] @ [])"
    by (intro moves_in_order moves_in_order_Nil)
  moreover have "expert_weights hf (li + lo) (i + eo) = Inr (a, b, c)"
    "dict_get hf (?n ''down_proj.weight'') = Inr c"
    using w by (simp_all add: expert_weights_def dict_get_def)
  ultimately show ?thesis by simp
qed

section \<open>Fused experts\<close>

lemma fused_gate_up:
  assumes "is_matrix f h a" "is_matrix f h b"
  obtains c w where "t_cat [a, b] = Inr c" "t_transpose c = Inr w" "is_matrix h (2 * f) w"
    "t_transpose w = Inr c" "t_slice 0 f c = a" "t_slice f (t_len c) c = b"
proof -
  have c: "t_cat [a, b] = Inr \<lparr>t_trail = [h], t_rows = concat (map t_rows [a, b])\<rparr>" (is "_ = Inr ?c")
    by (rule t_cat_same_trail) (use assms in \<open>auto simp: is_matrix_def\<close>)
  have wf: "wf_tensor ?c" using assms by (auto simp: wf_tensor_def is_matrix_def list_all_iff)
  obtain w where w: "t_transpose ?c = Inr w" by (simp add: t_transpose_matrix [where c = h])
  have len: "t_len ?c = 2 * f" using assms by (simp add: t_len_def is_matrix_def)
  have "t_transpose w = Inr ?c \<and> is_matrix h (2 * f) w"
    using t_transpose_back [OF wf _ w, of h] len by (simp add: is_matrix_def)
  moreover have "t_slice 0 f ?c = a" "t_slice f (t_len ?c) ?c = b"
    using assms len by (simp_all add: t_slice_def py_slice_def is_matrix_def t_len_def tensor.equality)
  ultimately show ?thesis using that [OF c w] by blast
qed

definition grouped_names :: "nat \<Rightarrow> nat list \<Rightarrow> string list" where
  "grouped_names i es =
     concat (map (\<lambda>e. [hf_expert i e ''gate_proj.weight'', hf_expert i e ''up_proj.weight'']) es)
     @ map (\<lambda>e. hf_expert i e ''down_proj.weight'') es"

lemma expert_prefix_name:
  "expert_prefix (site_of [(CHR ''L'', li)] d lo eo) i @ s = hf_expert (li + lo) (eo + i) s"
  by (simp add: expert_prefix_def site_of_def show_opt_def hf_expert_def hf_layer_def)

lemma legacy_fc1_parts:
  assumes "t_cat1 gs = Inr u" "length gs = n" "0 < n" "0 < moe_ffn d"
    "\<And>i. i < n \<Longrightarrow> is_matrix h (2 * moe_ffn d) (gs ! i) \<and> t_transpose (gs ! i) = Inr (cs ! i)
       \<and> t_slice 0 (moe_ffn d) (cs ! i) = the (map_of hf (hf_expert (li + lo) (eo + i) ''gate_proj.weight''))
       \<and> t_slice (moe_ffn d) (t_len (cs ! i)) (cs ! i) = the (map_of hf (hf_expert (li + lo) (eo + i) ''up_proj.weight''))"
  shows "legacy_fc1 u (site_of [(CHR ''L'', li)] d lo eo) = Inr (pick_names hf (concat (map (\<lambda>e.
     [hf_expert (li + lo) e ''gate_proj.weight'', hf_expert (li + lo) e ''up_proj.weight'']) [eo..<eo + n])))"
proof -
  let ?f = "moe_ffn d"
  have m: "is_matrix h (2 * ?f) t" if "t \<in> set gs" for t
    using that assms(2,5) by (metis in_set_conv_nth)
  have cut: "t_slice1 (i * 2 * ?f) ((i + 1) * 2 * ?f) u = Inr (gs ! i)" "t_trail u = [n * 2 * ?f]" if "i < n" for i
    using t_slice1_cat1 [OF assms(1) m, of i] that assms(2) by (simp_all add: mult.assoc)
  have cols: "t_dim1 u = Inr (n * 2 * ?f)" "n * 2 * ?f div (2 * ?f) = n"
    using cut(2) [OF assms(3)] assms(4) by (simp_all add: t_dim1_def mult.assoc)
  let ?g = "\<lambda>i. [hf_expert (li + lo) (eo + i) ''gate_proj.weight'', hf_expert (li + lo) (eo + i) ''up_proj.weight'']"
  have "concat_result (\<lambda>i.
        bind_result (bind_result (t_slice1 (i * 2 * ?f) ((i + 1) * 2 * ?f) u) t_transpose) (\<lambda>w.
        Inr [(hf_expert (li + lo) (eo + i) ''gate_proj.weight'', t_slice 0 ?f w),
             (hf_expert (li + lo) (eo + i) ''up_proj.weight'', t_slice ?f (t_len w) w)])) [0..<n] =
      Inr (concat (map (\<lambda>i. pick_names hf (?g i)) [0..<n]))"
    by (rule concat_result_total) (use cut(1) assms(5) in simp)
  moreover have "concat (map (\<lambda>i. pick_names hf (?g i)) [0..<n]) = pick_names hf (concat (map ?g [0..<n]))"
    by (simp add: pick_names_def map_concat comp_def)
  moreover have "map ?g [0..<n] = map (\<lambda>e. [hf_expert (li + lo) e ''gate_proj.weight'',
      hf_expert (li + lo) e ''up_proj.weight'']) [eo..<eo + n]"
    by (rule nth_equalityI) simp_all
  ultimately show ?thesis
    using assms(4) cols by (simp add: legacy_fc1_def expert_prefix_name)
qed

lemma legacy_fc2_parts:
  assumes "t_cat ds = Inr u" "length ds = n" "0 < n" "0 < moe_ffn d"
    "\<And>i. i < n \<Longrightarrow> is_matrix (moe_ffn d) h (ds ! i)
       \<and> t_transpose (ds ! i) = Inr (the (map_of hf (hf_expert (li + lo) (eo + i) ''down_proj.weight'')))"
  shows "legacy_fc2 u (site_of [(CHR ''L'', li)] d lo eo) =
     Inr (pick_names hf (map (\<lambda>e. hf_expert (li + lo) e ''down_proj.weight'') [eo..<eo + n]))"
proof -
  let ?f = "moe_ffn d" and ?g = "\<lambda>i. hf_expert (li + lo) (eo + i) ''down_proj.weight''"
  have m: "is_matrix ?f h t" if "t \<in> set ds" for t
    using that assms(2,5) by (metis in_set_conv_nth)
  have cut: "t_slice (i * ?f) ((i + 1) * ?f) u = ds ! i" "t_len u = n * ?f" if "i < n" for i
    using t_slice_cat [OF assms(1) m, of i] that assms(2) by simp_all
  have "concat_result (\<lambda>i.
        bind_result (t_transpose (t_slice (i * ?f) ((i + 1) * ?f) u)) (\<lambda>w. Inr [(?g i, w)])) [0..<n] =
      Inr (concat (map (\<lambda>i. pick_names hf [?g i]) [0..<n]))"
    by (rule concat_result_total) (use cut(1) assms(5) in simp)
  moreover have "concat (map (\<lambda>i. pick_names hf [?g i]) [0..<n]) = pick_names hf (map ?g [0..<n])"
    by (simp add: pick_names_def comp_def)
  moreover have "map ?g [0..<n] = map (\<lambda>e. hf_expert (li + lo) e ''down_proj.weight'') [eo..<eo + n]"
    by (rule nth_equalityI) simp_all
  ultimately show ?thesis
    using assms(4) cut(2) [OF assms(3)] by (simp add: legacy_fc2_def expert_prefix_name)
qed

lemma fused_expert:
  assumes "expert_ok d hf gi e"
  shows "\<exists>gu dn fc1. fuse_expert hf gi e = Inr (gu, dn) \<and> is_matrix (hidden d) (2 * moe_ffn d) gu
    \<and> t_transpose gu = Inr fc1
    \<and> t_slice 0 (moe_ffn d) fc1 = the (map_of hf (hf_expert gi e ''gate_proj.weight''))
    \<and> t_slice (moe_ffn d) (t_len fc1) fc1 = the (map_of hf (hf_expert gi e ''up_proj.weight''))
    \<and> is_matrix (moe_ffn d) (hidden d) dn
    \<and> t_transpose dn = Inr (the (map_of hf (hf_expert gi e ''down_proj.weight'')))"
proof -
  obtain a b c where w: "map_of hf (hf_expert gi e ''gate_proj.weight'') = Some a"
    "map_of hf (hf_expert gi e ''up_proj.weight'') = Some b"
    "map_of hf (hf_expert gi e ''down_proj.weight'') = Some c"
    and m: "is_matrix (moe_ffn d) (hidden d) a" "is_matrix (moe_ffn d) (hidden d) b"
      "is_matrix (hidden d) (moe_ffn d) c"
    using assms by (auto simp: expert_ok_def has_gate_up_def has_matrix_iff)
  obtain dn where dn: "t_transpose c = Inr dn"
    using m(3) by (simp add: is_matrix_def t_transpose_matrix)
  have "t_transpose dn = Inr c \<and> is_matrix (moe_ffn d) (hidden d) dn"
    using t_transpose_back [OF _ _ dn, of "moe_ffn d"] m(3) by (simp add: is_matrix_def)
  moreover have "expert_weights hf gi e = Inr (a, b, c)"
    using w by (simp add: expert_weights_def dict_get_def)
  moreover obtain fc1 gu where "t_cat [a, b] = Inr fc1" "t_transpose fc1 = Inr gu"
    "is_matrix (hidden d) (2 * moe_ffn d) gu" "t_transpose gu = Inr fc1"
    "t_slice 0 (moe_ffn d) fc1 = a" "t_slice (moe_ffn d) (t_len fc1) fc1 = b"
    by (rule fused_gate_up [OF m(1,2)])
  ultimately show ?thesis using w dn by (simp add: fuse_expert_def)
qed

lemma moves_grouped:
  assumes "0 < n" "0 < moe_ffn d" "\<And>i. i < n \<Longrightarrow> expert_ok d hf (li + lo) (eo + i)"
  shows "moves d lo eo hf (load_grouped_experts hf (li + lo) li [eo..<eo + n])
    [meg_layer li ''mlp.experts.weight1'', meg_layer li ''mlp.experts.weight2'']
    (grouped_names (li + lo) [eo..<eo + n])"
proof -
  have "\<forall>i. \<exists>w. i < n \<longrightarrow> fuse_expert hf (li + lo) (eo + i) = Inr (fst w)
    \<and> is_matrix (hidden d) (2 * moe_ffn d) (fst (fst w)) \<and> t_transpose (fst (fst w)) = Inr (snd w)
    \<and> t_slice 0 (moe_ffn d) (snd w) = the (map_of hf (hf_expert (li + lo) (eo + i) ''gate_proj.weight''))
    \<and> t_slice (moe_ffn d) (t_len (snd w)) (snd w) = the (map_of hf (hf_expert (li + lo) (eo + i) ''up_proj.weight''))
    \<and> is_matrix (moe_ffn d) (hidden d) (snd (fst w))
    \<and> t_transpose (snd (fst w)) = Inr (the (map_of hf (hf_expert (li + lo) (eo + i) ''down_proj.weight'')))"
    (is "\<forall>i. \<exists>w. i < n \<longrightarrow> ?P i w")
  proof
    fix i
    show "\<exists>w. i < n \<longrightarrow> ?P i w"
    proof (cases "i < n")
      case True
      from fused_expert [OF assms(3) [OF this]] obtain gu dn fc1 where "?P i ((gu, dn), fc1)" by auto
      then show ?thesis by blast
    qed simp
  qed
  from choice [OF this] obtain w where e: "i < n \<Longrightarrow> ?P i (w i)" for i by blast
  let ?gs = "map (\<lambda>i. fst (fst (w i))) [0..<n]" and ?ds = "map (\<lambda>i. snd (fst (w i))) [0..<n]"
  have "[eo..<eo + n] = map (\<lambda>i. eo + i) [0..<n]" by (simp add: map_add_upt add.commute)
  then have ws: "map_result (fuse_expert hf (li + lo)) [eo..<eo + n] = Inr (map (\<lambda>i. fst (w i)) [0..<n])"
    by (simp only: map_result_map) (rule map_result_total, use e in simp)
  have rows: "wf_tensor t \<and> t_len t = hidden d \<and> t_trail t \<noteq> [] \<and> tl (t_trail t) = []" if t: "t \<in> set ?gs" for t
  proof -
    obtain i where "i < n" "t = fst (fst (w i))" using t by auto
    with e [of i] show ?thesis by (simp add: is_matrix_def)
  qed
  have "?gs \<noteq> []" using assms(1) by simp
  from t_cat1_total [OF this rows] obtain w1 where w1: "t_cat1 ?gs = Inr w1" by blast
  have trails: "t_trail t = [hidden d]" if t: "t \<in> set ?ds" for t
  proof -
    obtain i where "i < n" "t = snd (fst (w i))" using t by auto
    with e [of i] show ?thesis by (simp add: is_matrix_def)
  qed
  have "?ds \<noteq> []" using assms(1) by simp
  from t_cat_same_trail [OF this trails] obtain w2 where w2: "t_cat ?ds = Inr w2" by blast
  have fc1: "moves d lo eo hf (entry (meg_layer li ''mlp.experts.weight1'') (t_cat1 ?gs))
      [meg_layer li ''mlp.experts.weight1''] (concat (map (\<lambda>e.
     [hf_expert (li + lo) e ''gate_proj.weight'', hf_expert (li + lo) e ''up_proj.weight'']) [eo..<eo + n]))"
    by (rule moves_entry [OF strip_layer(1) gpt_match_split(4) w1])
       (simp only: rule.simps, rule legacy_fc1_parts [OF w1 _ assms(1,2), where h = "hidden d" and cs = "map (\<lambda>i. snd (w i)) [0..<n]"],
         use e in simp_all)
  have fc2: "moves d lo eo hf (entry (meg_layer li ''mlp.experts.weight2'') (t_cat ?ds))
      [meg_layer li ''mlp.experts.weight2''] (map (\<lambda>e. hf_expert (li + lo) e ''down_proj.weight'') [eo..<eo + n])"
    by (rule moves_entry [OF strip_layer(1) gpt_match_split(5) w2])
       (simp only: rule.simps, rule legacy_fc2_parts [OF w2 _ assms(1,2), where h = "hidden d"], use e in simp_all)
  have "map fst (map (\<lambda>i. fst (w i)) [0..<n]) = ?gs" "map snd (map (\<lambda>i. fst (w i)) [0..<n]) = ?ds" by simp_all
  then show ?thesis
    unfolding load_grouped_experts_def ws bind_result_simps grouped_names_def
    by (simp only:) (rule moves_eq [OF moves_in_order [OF fc1 moves_in_order [OF fc2 moves_in_order_Nil]]], simp_all)
qed

section \<open>A whole rank\<close>

definition expert_suffix :: "nat \<Rightarrow> string \<Rightarrow> string" where
  "expert_suffix i s = ''mlp.experts.local_experts.'' @ show_nat i @ ''.'' @ s"

lemma meg_expert_suffix: "meg_expert li i s = meg_layer li (expert_suffix i s)"
  by (simp add: meg_expert_def expert_suffix_def)

definition mlp_keys :: "gpt_dims \<Rightarrow> bool \<Rightarrow> nat \<Rightarrow> string list" where
  "mlp_keys d grouped n =
     (if num_experts d > 0 then
        ''mlp.router.weight'' #
        (if grouped then [''mlp.experts.weight1'', ''mlp.experts.weight2'']
         else concat (map (\<lambda>i. [expert_suffix i ''linear_fc1.weight'', expert_suffix i ''linear_fc2.weight'']) [0..<n]))
        @ shared_keys d
      else [''mlp.linear_fc1.weight'', ''mlp.linear_fc2.weight''])"

definition mlp_names :: "gpt_dims \<Rightarrow> bool \<Rightarrow> nat list \<Rightarrow> nat \<Rightarrow> string list" where
  \<comment> \<open>the names of the feed-forward part of layer \<open>i\<close> with the experts \<open>es\<close>, in the order of the export\<close>
  "mlp_names d grouped es i =
     (if num_experts d > 0 then
        hf_layer i ''mlp.gate.weight'' #
        (if grouped then grouped_names i es
         else concat (map (\<lambda>e. map (hf_expert i e)
           [''gate_proj.weight'', ''up_proj.weight'', ''down_proj.weight'']) es))
        @ shared_names d i
      else map (hf_layer i) [''mlp.gate_proj.weight'', ''mlp.up_proj.weight'', ''mlp.down_proj.weight''])"

definition mlp_ok :: "gpt_dims \<Rightarrow> 'e named \<Rightarrow> nat \<Rightarrow> bool" where
  "mlp_ok d hf i \<longleftrightarrow>
     (if num_experts d > 0 then
        0 < moe_ffn d \<and> map_of hf (hf_layer i ''mlp.gate.weight'') \<noteq> None \<and>
        (\<forall>e \<in> set [0..<num_experts d]. expert_ok d hf i e) \<and> (shared_expert_ffn d > 0 \<longrightarrow> shared_ok d hf i)
      else dense_ok d hf i)"

lemma moves_experts:
  assumes "mlp_ok d hf (li + lo)" "num_experts d > 0" "eo + n \<le> num_experts d" "grouped \<Longrightarrow> 0 < n"
  shows "moves d lo eo hf
     (if grouped then load_grouped_experts hf (li + lo) li [eo..<eo + n]
      else load_local_experts hf (li + lo) li [eo..<eo + n])
     (map (meg_layer li) (if grouped then [''mlp.experts.weight1'', ''mlp.experts.weight2'']
         else concat (map (\<lambda>i. [expert_suffix i ''linear_fc1.weight'', expert_suffix i ''linear_fc2.weight'']) [0..<n])))
     (if grouped then grouped_names (li + lo) [eo..<eo + n]
         else concat (map (\<lambda>e. map (hf_expert (li + lo) e)
           [''gate_proj.weight'', ''up_proj.weight'', ''down_proj.weight'']) [eo..<eo + n]))"
proof -
  have ok: "expert_ok d hf (li + lo) (eo + i)" if "i < n" for i
    using assms(1-3) that by (simp add: mlp_ok_def)
  have pos: "0 < moe_ffn d" using assms(1,2) by (simp add: mlp_ok_def)
  show ?thesis
  proof (cases grouped)
    case True
    with moves_grouped [where n = n and lo = lo and li = li and eo = eo, OF _ pos ok] assms(4)
    show ?thesis by simp
  next
    case False
    have "enumerate 0 [eo..<eo + n] = map (\<lambda>i. (i, i + eo)) [0..<n]"
      by (rule nth_equalityI) (simp_all add: nth_enumerate_eq)
    then have "load_local_experts hf (li + lo) li [eo..<eo + n] =
        concat_result (\<lambda>i. bind_result (expert_weights hf (li + lo) (i + eo)) (\<lambda>(gate, up, down). in_order
          [entry (meg_expert li i ''linear_fc1.weight'') (t_cat [gate, up]),
           entry (meg_expert li i ''linear_fc2.weight'') (Inr down)])) [0..<n]"
      by (simp only: load_local_experts_def concat_result_def map_result_map case_prod_conv)
    moreover have "moves d lo eo hf \<dots>
        (concat (map (\<lambda>i. [meg_expert li i ''linear_fc1.weight'', meg_expert li i ''linear_fc2.weight'']) [0..<n]))
        (concat (map (\<lambda>i. map (hf_expert (li + lo) (i + eo))
          [''gate_proj.weight'', ''up_proj.weight'', ''down_proj.weight'']) [0..<n]))"
      by (rule moves_concat, rule moves_local_expert) (use ok in \<open>simp add: add.commute\<close>)
    moreover have "map (\<lambda>i. map (hf_expert (li + lo) (i + eo))
          [''gate_proj.weight'', ''up_proj.weight'', ''down_proj.weight'']) [0..<n] =
        map (\<lambda>e. map (hf_expert (li + lo) e)
          [''gate_proj.weight'', ''up_proj.weight'', ''down_proj.weight'']) [eo..<eo + n]"
      by (rule nth_equalityI) (simp_all add: add.commute)
    ultimately have "moves d lo eo hf (load_local_experts hf (li + lo) li [eo..<eo + n])
        (concat (map (\<lambda>i. [meg_expert li i ''linear_fc1.weight'', meg_expert li i ''linear_fc2.weight'']) [0..<n]))
        (concat (map (\<lambda>e. map (hf_expert (li + lo) e)
          [''gate_proj.weight'', ''up_proj.weight'', ''down_proj.weight'']) [eo..<eo + n]))" by (simp only:)
    then show ?thesis
      unfolding if_not_P [OF False] by (elim moves_eq) (simp_all add: map_concat comp_def meg_expert_suffix)
  qed
qed

lemma moves_mlp:
  assumes "mlp_ok d hf (li + lo)" "es = [eo..<eo + n]" "eo + n \<le> num_experts d"
    "grouped \<Longrightarrow> num_experts d > 0 \<Longrightarrow> 0 < n"
  shows "moves d lo eo hf (load_mlp d grouped hf es (li + lo) li)
    (map (meg_layer li) (mlp_keys d grouped n)) (mlp_names d grouped es (li + lo))"
proof (cases "num_experts d > 0")
  case True
  then have gate: "map_of hf (hf_layer (li + lo) ''mlp.gate.weight'') \<noteq> None"
    and shared: "shared_expert_ffn d > 0 \<Longrightarrow> shared_ok d hf (li + lo)"
    using assms(1) by (simp_all add: mlp_ok_def)
  show ?thesis
    unfolding load_mlp_def mlp_keys_def mlp_names_def if_P [OF True] assms(2)
    by (rule moves_eq [OF moves_in_order [OF moves_gpt [OF gpt_match(9) plain_names(12) gate]
          moves_in_order [OF moves_experts [OF assms(1) True assms(3) assms(4) [OF _ True]]
          moves_in_order [OF moves_shared [OF shared] moves_in_order_Nil]]]]) simp_all
next
  case False
  then have ok: "dense_ok d hf (li + lo)" using assms(1) by (simp add: mlp_ok_def)
  have fc1: "moves d lo eo hf (entry (meg_layer li ''mlp.linear_fc1.weight'')
        (cat_two hf (hf_layer (li + lo) ''mlp.gate_proj.weight'') (hf_layer (li + lo) ''mlp.up_proj.weight'')))
      [meg_layer li ''mlp.linear_fc1.weight'']
      [hf_layer (li + lo) ''mlp.gate_proj.weight'', hf_layer (li + lo) ''mlp.up_proj.weight'']"
    by (rule moves_cat_two [OF gpt_match_split(2) strip_layer(1) conjunct1 [OF ok [unfolded dense_ok_def]]])
       simp_all
  show ?thesis
    unfolding load_mlp_def mlp_keys_def mlp_names_def if_not_P [OF False]
    by (rule moves_eq [OF moves_in_order [OF fc1 moves_in_order
          [OF moves_gpt [OF gpt_match(8) plain_names(11) conjunct2 [OF ok [unfolded dense_ok_def]]]
            moves_in_order_Nil]]]) simp_all
qed

section \<open>The keys are distinct\<close>

lemma show_nat_append_inject:
  assumes "\<not> is_digit c" "\<not> is_digit c'"
  shows "show_nat i @ c # s = show_nat j @ c' # t \<longleftrightarrow> i = j \<and> c = c' \<and> s = t"
proof -
  have head: "takeWhile is_digit (show_nat k @ x # r) = show_nat k" if "\<not> is_digit x" for k x r
    using that by (simp add: show_nat_digits)
  show ?thesis
  proof
    assume eq: "show_nat i @ c # s = show_nat j @ c' # t"
    then have "show_nat i = show_nat j" using head assms by metis
    with eq show "i = j \<and> c = c' \<and> s = t" by simp
  qed simp
qed

lemma meg_layer_inject [simp]: "meg_layer i s = meg_layer j t \<longleftrightarrow> i = j \<and> s = t"
  by (simp add: meg_layer_def show_nat_append_inject)

lemma expert_suffix_inject [simp]: "expert_suffix i s = expert_suffix j t \<longleftrightarrow> i = j \<and> s = t"
  by (simp add: expert_suffix_def show_nat_append_inject)

lemma expert_suffix_other [simp]:
  "expert_suffix i s \<noteq> ''mlp.router.weight''" "expert_suffix i s \<noteq> ''mlp.shared_experts.linear_fc1.weight''"
  "expert_suffix i s \<noteq> ''mlp.shared_experts.linear_fc2.weight''" "expert_suffix i s \<noteq> ''mlp.shared_experts.gate_weight''"
  "expert_suffix i s \<noteq> ''mlp.linear_fc1.layer_norm_weight''" "expert_suffix i s \<noteq> ''pre_mlp_layernorm.weight''"
  "expert_suffix i s \<noteq> ''input_layernorm.weight''" "expert_suffix i s \<noteq> CHR ''s'' # u"
  by (simp_all add: expert_suffix_def)

lemma distinct_concat_upt:
  assumes "\<And>i. distinct (f i)" "\<And>i j x. x \<in> set (f i) \<Longrightarrow> x \<in> set (f j) \<Longrightarrow> i = j"
  shows "distinct (concat (map f [0..<n]))"
proof (induction n)
  case 0
  show ?case by simp
next
  case (Suc n)
  have "set (concat (map f [0..<n])) \<inter> set (f n) = {}" using assms(2) by fastforce
  with Suc assms(1) show ?case by simp
qed

definition expert_keys :: "nat \<Rightarrow> string list" where
  "expert_keys n = concat (map (\<lambda>i. [expert_suffix i ''linear_fc1.weight'', expert_suffix i ''linear_fc2.weight'']) [0..<n])"

lemma distinct_expert_keys: "distinct (expert_keys n)"
  unfolding expert_keys_def by (rule distinct_concat_upt) (simp, fastforce)

lemma not_expert_key: "(\<And>i s. expert_suffix i s \<noteq> x) \<Longrightarrow> x \<notin> set (expert_keys n)"
  by (force simp: expert_keys_def)

lemma distinct_layer_keys: "distinct (attention_keys te hf i @ mlp_keys d grouped n)"
  unfolding attention_keys_def mlp_keys_def shared_keys_def expert_keys_def [symmetric]
  by (cases te; cases "has_q_norm hf i"; cases "num_experts d > 0"; cases grouped;
      cases "shared_expert_ffn d > 0"; cases "shared_expert_gate d")
     (simp_all add: distinct_expert_keys not_expert_key)

lemma dict_update_fresh: "distinct (dict_keys (d @ xs)) \<Longrightarrow> dict_update d xs = d @ xs"
proof (induction xs arbitrary: d)
  case Nil
  show ?case by simp
next
  case (Cons x xs)
  obtain k v where x: "x = (k, v)" by (cases x)
  with Cons.prems have "dict_set k v d = d @ [(k, v)]" by (intro dict_set_new) auto
  with Cons.IH [of "d @ [(k, v)]"] Cons.prems x show ?case by simp
qed

section \<open>The round trip\<close>

definition top_keys :: "bool \<Rightarrow> bool \<Rightarrow> string list" where
  "top_keys is_first is_last =
     (if is_first then [''embedding.word_embeddings.weight''] else [])
     @ (if is_last then [''decoder.final_layernorm.weight'', ''output_layer.weight''] else [])"

definition top_names :: "bool \<Rightarrow> bool \<Rightarrow> string list" where
  "top_names is_first is_last =
     (if is_first then [''model.embed_tokens.weight''] else [])
     @ (if is_last then [''model.norm.weight'', ''lm_head.weight''] else [])"

definition top_ok :: "'e named \<Rightarrow> bool" where
  "top_ok hf \<longleftrightarrow> map_of hf ''model.embed_tokens.weight'' \<noteq> None \<and>
     map_of hf ''model.norm.weight'' \<noteq> None \<and> map_of hf ''lm_head.weight'' \<noteq> None"

lemma gpt_match_top:
  "match_rule gpt_rules ''embedding.word_embeddings.weight'' =
     Some (rename ''embedding.word_embeddings.weight'' ''model.embed_tokens.weight'', [])"
  "match_rule gpt_rules ''decoder.final_layernorm.weight'' =
     Some (rename ''decoder.final_layernorm.weight'' ''model.norm.weight'', [])"
  "match_rule gpt_rules ''output_layer.weight'' =
     Some (rename ''output_layer.weight'' ''lm_head.weight'', [])"
  by (simp_all add: match_rule_def gpt_templated top_level_rules_def)

lemma strip_top:
  "strip_module_prefix ''embedding.word_embeddings.weight'' = ''embedding.word_embeddings.weight''"
  "strip_module_prefix ''decoder.final_layernorm.weight'' = ''decoder.final_layernorm.weight''"
  "strip_module_prefix ''output_layer.weight'' = ''output_layer.weight''"
  by (simp_all add: strip_module_prefix_def module_prefixes_def has_prefix_def)

lemma moves_top:
  assumes "top_ok hf"
  shows "moves d lo eo hf (load_top hf a b) (top_keys a b) (top_names a b)"
proof -
  have present: "map_of hf ''model.embed_tokens.weight'' \<noteq> None"
    "map_of hf ''model.norm.weight'' \<noteq> None" "map_of hf ''lm_head.weight'' \<noteq> None"
    using assms by (simp_all add: top_ok_def)
  have name: "site_name (site_of [] d lo eo) s = s" if "plain s" for s
    using that by (simp add: site_name_def)
  have emb: "moves d lo eo hf
      (if a then entry ''embedding.word_embeddings.weight'' (dict_get hf ''model.embed_tokens.weight'') else Inr [])
      (if a then [''embedding.word_embeddings.weight''] else []) (if a then [''model.embed_tokens.weight''] else [])"
    using present by (cases a) (auto intro!: moves_rename [OF gpt_match_top(1) strip_top(1)] name simp: plain_def)
  have norm: "moves d lo eo hf (entry ''decoder.final_layernorm.weight'' (dict_get hf ''model.norm.weight''))
      [''decoder.final_layernorm.weight''] [''model.norm.weight'']"
    by (rule moves_rename [OF gpt_match_top(2) strip_top(2) present(2) name]) (simp add: plain_def)
  have head: "moves d lo eo hf (entry ''output_layer.weight'' (dict_get hf ''lm_head.weight''))
      [''output_layer.weight''] [''lm_head.weight'']"
    by (rule moves_rename [OF gpt_match_top(3) strip_top(3) present(3) name]) (simp add: plain_def)
  have tail: "moves d lo eo hf
      (if b then in_order [entry ''decoder.final_layernorm.weight'' (dict_get hf ''model.norm.weight''),
         entry ''output_layer.weight'' (dict_get hf ''lm_head.weight'')] else Inr [])
      (if b then [''decoder.final_layernorm.weight'', ''output_layer.weight''] else [])
      (if b then [''model.norm.weight'', ''lm_head.weight''] else [])"
    using moves_in_order [OF norm moves_in_order [OF head moves_in_order_Nil]]
    by (cases b) (simp_all only: if_True if_False append.simps moves_Nil)
  show ?thesis
    unfolding load_top_def top_keys_def top_names_def
    by (rule moves_eq [OF moves_in_order [OF emb moves_in_order [OF tail moves_in_order_Nil]]]) simp_all
qed

definition checkpoint_ok :: "gpt_dims \<Rightarrow> 'e named \<Rightarrow> bool" where
  \<comment> \<open>the checkpoint has every tensor of the model, in the shapes of \<open>d\<close>\<close>
  "checkpoint_ok d hf \<longleftrightarrow> top_ok hf \<and> (\<forall>i \<in> set [0..<num_layers d]. attention_ok d hf i \<and> mlp_ok d hf i)"

definition rank_names :: "gpt_dims \<Rightarrow> load_config \<Rightarrow> 'e named \<Rightarrow> nat \<Rightarrow> nat \<Rightarrow> nat list \<Rightarrow> string list" where
  \<comment> \<open>the tensors of the rank with layers \<open>[lo..<lo + n]\<close> and experts \<open>es\<close>\<close>
  "rank_names d c hf lo n es =
     top_names (pp_rank c = 0) (pp_rank c + 1 = pp_size c)
     @ concat (map (\<lambda>i. attention_names hf i @ mlp_names d (use_grouped_mlp c) es i) [lo..<lo + n])"

lemma moves_layer:
  assumes "dims_ok d" "attention_ok d hf (li + lo)" "mlp_ok d hf (li + lo)" "es = [eo..<eo + m]"
    "eo + m \<le> num_experts d" "grouped \<Longrightarrow> num_experts d > 0 \<Longrightarrow> 0 < m"
  shows "moves d lo eo hf (in_order [load_attention d te hf (lo + li) li, load_mlp d grouped hf es (lo + li) li])
    (map (meg_layer li) (attention_keys te hf (li + lo) @ mlp_keys d grouped m))
    (attention_names hf (li + lo) @ mlp_names d grouped es (li + lo))"
  unfolding add.commute [of lo li]
  by (rule moves_eq [OF moves_in_order [OF moves_attention [OF assms(1,2)]
        moves_in_order [OF moves_mlp [OF assms(3-6)] moves_in_order_Nil]]]) simp_all

lemma load_export:
  assumes "dims_ok d" "checkpoint_ok d hf"
    "pp_layer_range (num_layers d) (pp_rank c) (pp_size c) (layers_per_pp_rank c) = Inr (lo, n)"
    "lo + n \<le> num_layers d" "local_experts d c = Inr [eo..<eo + m]" "eo + m \<le> num_experts d"
    "use_grouped_mlp c \<Longrightarrow> num_experts d > 0 \<Longrightarrow> 0 < m"
  shows "\<exists>meg. hf_to_megatron hf d c = Inr meg \<and> distinct (dict_keys meg)
    \<and> megatron_to_hf d lo eo meg = Inr (pick_names hf (rank_names d c hf lo n [eo..<eo + m]), [])"
proof -
  let ?es = "[eo..<eo + m]"
  let ?ks = "\<lambda>li. map (meg_layer li) (attention_keys (te_spec c) hf (li + lo) @ mlp_keys d (use_grouped_mlp c) m)"
  let ?ns = "\<lambda>li. attention_names hf (li + lo) @ mlp_names d (use_grouped_mlp c) ?es (li + lo)"
  have ok: "attention_ok d hf (li + lo)" "mlp_ok d hf (li + lo)" if "li \<in> set [0..<n]" for li
    using assms(2,4) that by (auto simp: checkpoint_ok_def)
  have "moves d lo eo hf (concat_result (\<lambda>li. in_order
         [load_attention d (te_spec c) hf (lo + li) li,
          load_mlp d (use_grouped_mlp c) hf ?es (lo + li) li]) [0..<n])
      (concat (map ?ks [0..<n])) (concat (map ?ns [0..<n]))"
    by (rule moves_concat) (rule moves_layer [OF assms(1) ok refl assms(6,7)])
  then obtain ls where ls: "concat_result (\<lambda>li. in_order
         [load_attention d (te_spec c) hf (lo + li) li,
          load_mlp d (use_grouped_mlp c) hf ?es (lo + li) li]) [0..<n] = Inr ls"
    "moves d lo eo hf (Inr ls) (concat (map ?ks [0..<n])) (concat (map ?ns [0..<n]))"
    using moves_Inr by blast
  have "top_ok hf" using assms(2) by (simp add: checkpoint_ok_def)
  then obtain ts where ts: "load_top hf (pp_rank c = 0) (pp_rank c + 1 = pp_size c) = Inr ts"
    "moves d lo eo hf (Inr ts) (top_keys (pp_rank c = 0) (pp_rank c + 1 = pp_size c))
       (top_names (pp_rank c = 0) (pp_rank c + 1 = pp_size c))"
    using moves_Inr [OF moves_top] by blast
  have all: "moves d lo eo hf (Inr (ts @ ls))
      (top_keys (pp_rank c = 0) (pp_rank c + 1 = pp_size c) @ concat (map ?ks [0..<n]))
      (rank_names d c hf lo n ?es)"
    using moves_append [OF ts(2) ls(2)]
  proof (rule moves_eq)
    have "[lo..<lo + n] = map (\<lambda>i. i + lo) [0..<n]" by (simp add: map_add_upt add.commute)
    then show "top_names (pp_rank c = 0) (pp_rank c + 1 = pp_size c) @ concat (map ?ns [0..<n]) =
        rank_names d c hf lo n ?es"
      by (simp only: rank_names_def map_map comp_def)
  qed simp
  have "distinct (concat (map ?ks [0..<n]))"
    by (rule distinct_concat_upt)
       (auto simp: distinct_map inj_on_def distinct_layer_keys simp del: distinct_append map_append)
  moreover have "set (top_keys a b) \<inter> set (concat (map ?ks [0..<n])) = {}" for a b
    by (auto simp: top_keys_def meg_layer_def)
  moreover have "distinct (top_keys a b)" for a b by (simp add: top_keys_def)
  ultimately have "distinct (dict_keys (ts @ ls))" using all by (auto simp: moves_def)
  then have "dict_update [] (ts @ ls) = [] @ (ts @ ls)" by (intro dict_update_fresh) simp
  then have "dict_update [] (ts @ ls) = ts @ ls" by simp
  then have "hf_to_megatron hf d c = Inr (ts @ ls)"
    by (simp only: hf_to_megatron_def ts(1) ls(1) assms(3,5) bind_result_simps case_prod_conv)
  moreover have "megatron_to_hf d lo eo (ts @ ls) = Inr (pick_names hf (rank_names d c hf lo n ?es), [])"
    using all by (simp add: moves_def)
  ultimately show ?thesis using \<open>distinct (dict_keys (ts @ ls))\<close> by blast
qed

end
