(* ===== verification/Stage_Gather.thy ===== *)
theory Stage_Gather
  imports GPT_Round_Trip
begin

text \<open>
  The expert parameters of \<open>lumenrl/engine/training/megatron_native_engine.py\<close>: how
  \<open>_shard_hf_for_moe\<close> gives every rank its experts and, under expert tensor parallelism, its slice
  of them, and how \<open>_stage_plan\<close> and \<open>_stage_named_params\<close> gather them again under global names. A
  collective is a function of the tensors of all ranks of its group, in rank order; every rank
  gets the same result. Casts to bfloat16 are left out.
\<close>

section \<open>Slices of one expert\<close>

definition shard_gate_up :: "nat \<Rightarrow> nat \<Rightarrow> nat \<Rightarrow> 'e tensor \<Rightarrow> 'e tensor result" where
  \<comment> \<open>the part of rank \<open>r\<close>: its rows of gate, then its rows of up\<close>
  "shard_gate_up f n r full =
     (let shard = f div n; gate = t_slice 0 f full; up = t_slice f (t_len full) full in
      t_cat [t_slice (r * shard) ((r + 1) * shard) gate, t_slice (r * shard) ((r + 1) * shard) up])"

definition shard_columns :: "nat \<Rightarrow> nat \<Rightarrow> nat \<Rightarrow> 'e tensor \<Rightarrow> 'e tensor result" where
  "shard_columns f n r full = (let shard = f div n in t_slice1 (r * shard) ((r + 1) * shard) full)"

definition gather_gate_up :: "'e tensor list \<Rightarrow> 'e tensor result" where
  \<comment> \<open>\<open>sh\<close> is read off the own shard; the shards of a group have one shape\<close>
  "gather_gate_up g =
     (let sh = t_len (hd g) div 2 in
      bind_result (t_cat (map (t_slice 0 sh) g)) (\<lambda>gate.
      bind_result (t_cat (map (\<lambda>x. t_slice sh (t_len x) x) g)) (\<lambda>up.
      t_cat [gate, up])))"

definition gather_columns :: "'e tensor list \<Rightarrow> 'e tensor result" where
  "gather_columns g = t_cat1 g"

section \<open>Loading and gathering the experts of a stage\<close>

record mesh =
  m_ep :: nat
  m_etp :: nat

definition num_local_experts :: "gpt_dims \<Rightarrow> mesh \<Rightarrow> nat result" where
  "num_local_experts d m =
     (if m_ep m = 0 then Inl ZeroDivisionError
      else let n = num_experts d div m_ep m in
        if n * m_ep m \<noteq> num_experts d then Inl RuntimeError else Inr n)"

definition shard_expert ::
  "'e named \<Rightarrow> gpt_dims \<Rightarrow> mesh \<Rightarrow> nat \<Rightarrow> nat \<Rightarrow> nat \<Rightarrow> nat \<Rightarrow> string \<Rightarrow> 'e tensor result" where
  \<comment> \<open>the value of a local expert parameter on rank (\<open>er\<close>, \<open>tr\<close>)\<close>
  "shard_expert hf d m er tr global_layer local_e which_fc =
     bind_result (num_local_experts d m) (\<lambda>n.
     let e = er * n + local_e in
     if which_fc = ''1'' then
       bind_result (hf_expert_fc1 hf global_layer e) (\<lambda>full.
       if m_etp m > 1 then shard_gate_up (moe_ffn d) (m_etp m) tr full else Inr full)
     else
       bind_result (hf_expert_fc2 hf global_layer e) (\<lambda>full.
       if m_etp m > 1 then shard_columns (moe_ffn d) (m_etp m) tr full else Inr full))"

definition to_global_key :: "string \<Rightarrow> nat \<Rightarrow> string" where
  \<comment> \<open>the first \<open>decoder.layers.<digits>.\<close> of the name\<close>
  "to_global_key key offset =
     (if offset = 0 then key
      else case first_some (\<lambda>k. case drop_prefix ''decoder.layers.'' (drop k key) of
               None \<Rightarrow> None
             | Some s \<Rightarrow>
                 let n = leading_digits s in
                 if n > 0 \<and> has_prefix ''.'' (drop n s)
                 then Some (take k key @ ''decoder.layers.'' @ show_nat (digits_value (take n s) + offset) @ drop n s)
                 else None) [0..<Suc (length key)] of
             None \<Rightarrow> key
           | Some key' \<Rightarrow> key')"

definition etp_gather :: "string \<Rightarrow> 'e tensor list \<Rightarrow> 'e tensor result" where
  "etp_gather which_fc g =
     (if length g > 1 then (if which_fc = ''1'' then gather_gate_up g else gather_columns g)
      else Inr (hd g))"

definition t_stack :: "'e tensor list \<Rightarrow> 'e tensor" where
  \<comment> \<open>\<open>all_gather_into_tensor\<close> into \<open>[ep, *p.shape]\<close>\<close>
  "t_stack ts = \<lparr>t_trail = t_len (hd ts) # t_trail (hd ts), t_rows = map (\<lambda>t. concat (t_rows t)) ts\<rparr>"

definition stage_expert ::
  "string \<Rightarrow> nat \<Rightarrow> nat \<Rightarrow> bool \<Rightarrow> 'e tensor list list \<Rightarrow> 'e named result" where
  \<comment> \<open>what the gather of the expert parameter \<open>name\<close> yields; \<open>locals ! j\<close> are the shards of EP rank \<open>j\<close>\<close>
  "stage_expert name num_local offset stack_experts locals =
     (case expert_local_index name of
        None \<Rightarrow> Inl AssertionError
      | Some (local_e, which_fc) \<Rightarrow>
          bind_result (map_result (etp_gather which_fc) locals) (\<lambda>g.
          Inr (if stack_experts \<and> length locals > 1
               then [(to_global_key (relabel_expert_index name (stacked_expert_index local_e num_local)) offset,
                      t_stack g)]
               else map (\<lambda>(j, t). (to_global_key (relabel_expert_index name (show_nat (j * num_local + local_e))) offset, t))
                      (enumerate 0 g))))"

section \<open>Shards are gathered back\<close>

lemma to_global_key_layer [simp]: "to_global_key (meg_layer i s) offset = meg_layer (i + offset) s"
proof -
  have len: "leading_digits (show_nat i @ CHR ''.'' # s) = length (show_nat i)"
    by (rule leading_show_nat) simp
  have "[0..<Suc (length (meg_layer i s))] = 0 # [1..<Suc (length (meg_layer i s))]"
    by (simp add: upt_conv_Cons del: upt_Suc)
  then show ?thesis
    using len by (simp add: to_global_key_def meg_layer_def has_prefix_def Let_def del: upt_Suc)
qed

lemma concat_shards:
  assumes "length xs = n * s"
  shows "concat (map (\<lambda>r. py_slice (r * s) ((r + 1) * s) xs) [0..<n]) = xs"
  using concat_slices_all [of n "\<lambda>r. r * s" xs] assms by simp

lemma hd_map_upt: "0 < n \<Longrightarrow> hd (map f [0..<n]) = f 0"
  by (simp add: upt_conv_Cons)

lemma shard_gather_gate_up:
  assumes "is_matrix (2 * f) h full" "0 < n" "n dvd f"
  shows "\<exists>g. map_result (\<lambda>r. shard_gate_up f n r full) [0..<n] = Inr g
    \<and> (\<forall>x \<in> set g. is_matrix (2 * (f div n)) h x) \<and> gather_gate_up g = Inr full"
proof -
  let ?s = "f div n" and ?g = "take f (t_rows full)" and ?u = "drop f (t_rows full)"
  let ?part = "\<lambda>xs r. py_slice (r * ?s) ((r + 1) * ?s) xs"
  let ?x = "\<lambda>r. \<lparr>t_trail = [h], t_rows = ?part ?g r @ ?part ?u r\<rparr>"
  have f: "n * ?s = f" using assms(3) by simp
  have full: "t_trail full = [h]" "length (t_rows full) = 2 * f" "wf_tensor full"
    using assms(1) by (simp_all add: is_matrix_def t_len_def)
  have in_range: "(r + 1) * ?s \<le> f" if "r < n" for r
    using mult_le_mono1 [of "r + 1" n ?s] that f by simp
  have slices: "py_slice 0 f (t_rows full) = ?g" "py_slice f (2 * f) (t_rows full) = ?u"
    using full(2) by (simp_all add: py_slice_def)
  have shard: "shard_gate_up f n r full = Inr (?x r)" for r
    using full by (simp add: shard_gate_up_def Let_def t_cat_two [where tr = "[h]"] t_len_def slices)
  have len: "length (?part ?g r) = ?s" "length (?part ?u r) = ?s" if "r < n" for r
    using in_range [OF that] full(2) by simp_all
  have m: "is_matrix (2 * ?s) h (?x r)" if "r < n" for r
    using len [OF that] full set_py_slice [of "r * ?s" "(r + 1) * ?s" ?g] set_py_slice [of "r * ?s" "(r + 1) * ?s" ?u]
    by (auto simp: is_matrix_def t_len_def wf_tensor_def list_all_iff dest: in_set_takeD in_set_dropD)
  have gathered: "map_result (\<lambda>r. shard_gate_up f n r full) [0..<n] = Inr (map ?x [0..<n])"
    by (rule map_result_total) (rule shard)
  have sh: "t_len (hd (map ?x [0..<n])) div 2 = ?s"
    using m [OF assms(2)] by (simp only: hd_map_upt [OF assms(2)] is_matrix_def)
  have gate: "t_cat (map (t_slice 0 ?s) (map ?x [0..<n])) = Inr \<lparr>t_trail = [h], t_rows = ?g\<rparr>"
  proof -
    have "t_cat (map (t_slice 0 ?s) (map ?x [0..<n])) =
        Inr \<lparr>t_trail = [h], t_rows = concat (map (\<lambda>x. t_rows (t_slice 0 ?s x)) (map ?x [0..<n]))\<rparr>"
      by (rule t_cat_map) (use assms(2) in auto)
    moreover have "map (\<lambda>x. t_rows (t_slice 0 ?s x)) (map ?x [0..<n]) = map (?part ?g) [0..<n]"
      using len by (auto simp: py_slice_def)
    moreover have "concat (map (?part ?g) [0..<n]) = ?g" by (rule concat_shards) (use full f in simp)
    ultimately show ?thesis by (simp only:)
  qed
  have up: "t_cat (map (\<lambda>x. t_slice ?s (t_len x) x) (map ?x [0..<n])) = Inr \<lparr>t_trail = [h], t_rows = ?u\<rparr>"
  proof -
    have "t_cat (map (\<lambda>x. t_slice ?s (t_len x) x) (map ?x [0..<n])) =
        Inr \<lparr>t_trail = [h], t_rows = concat (map (\<lambda>x. t_rows (t_slice ?s (t_len x) x)) (map ?x [0..<n]))\<rparr>"
      by (rule t_cat_map) (use assms(2) in auto)
    moreover have "map (\<lambda>x. t_rows (t_slice ?s (t_len x) x)) (map ?x [0..<n]) = map (?part ?u) [0..<n]"
      using len by (auto simp: py_slice_def t_len_def)
    moreover have "concat (map (?part ?u) [0..<n]) = ?u" by (rule concat_shards) (use full f in simp)
    ultimately show ?thesis by (simp only:)
  qed
  have "t_cat [\<lparr>t_trail = [h], t_rows = ?g\<rparr>, \<lparr>t_trail = [h], t_rows = ?u\<rparr>] = Inr full"
    using full(1) by (simp add: t_cat_two [where tr = "[h]"] tensor.equality)
  then have "gather_gate_up (map ?x [0..<n]) = Inr full"
    by (simp only: gather_gate_up_def Let_def sh gate up bind_result_simps)
  then show ?thesis using gathered m by auto
qed

lemma shard_gather_columns:
  assumes "is_matrix h f full" "0 < n" "n dvd f"
  shows "\<exists>g. map_result (\<lambda>r. shard_columns f n r full) [0..<n] = Inr g
    \<and> (\<forall>x \<in> set g. is_matrix h (f div n) x) \<and> gather_columns g = Inr full"
proof -
  let ?s = "f div n"
  let ?x = "\<lambda>r. \<lparr>t_trail = [?s], t_rows = map (py_slice (r * ?s) ((r + 1) * ?s)) (t_rows full)\<rparr>"
  have f: "n * ?s = f" using assms(3) by simp
  have in_range: "(r + 1) * ?s \<le> f" "r * ?s \<le> f" if "r < n" for r
    using mult_le_mono1 [of "r + 1" n ?s] that f by simp_all
  have full: "t_trail full = [f]" "length (t_rows full) = h" "\<forall>row \<in> set (t_rows full). length row = f"
    using assms(1) by (simp_all add: is_matrix_def t_len_def wf_tensor_def list_all_iff)
  have "shard_columns f n r full = Inr (?x r)" if "r < n" for r
    using full in_range [OF that] by (simp add: shard_columns_def Let_def t_slice1_def min_absorb1)
  then have g: "map_result (\<lambda>r. shard_columns f n r full) [0..<n] = Inr (map ?x [0..<n])"
    by (intro map_result_total) simp
  have m: "is_matrix h ?s x" if x: "x \<in> set (map ?x [0..<n])" for x
  proof -
    obtain r where "r < n" "x = ?x r" using x by auto
    then show ?thesis using full in_range [OF \<open>r < n\<close>] by (simp add: is_matrix_def t_len_def wf_tensor_def list_all_iff)
  qed
  have wf: "wf_tensor x \<and> t_len x = h \<and> t_trail x \<noteq> [] \<and> tl (t_trail x) = []"
    if "x \<in> set (map ?x [0..<n])" for x
    using m [OF that] by (simp add: is_matrix_def)
  have ne: "map ?x [0..<n] \<noteq> []" using assms(2) by simp
  from t_cat1_total [OF ne wf] obtain u where u: "t_cat1 (map ?x [0..<n]) = Inr u"
    "t_trail u = [sum_list (map (\<lambda>t. hd (t_trail t)) (map ?x [0..<n]))]"
    "t_rows u = map (\<lambda>i. concat (map (\<lambda>t. t_rows t ! i) (map ?x [0..<n]))) [0..<h]" by blast
  have "t_rows u = t_rows full"
  proof (rule nth_equalityI)
    show "length (t_rows u) = length (t_rows full)" using u(3) full(2) by simp
    fix i assume "i < length (t_rows u)"
    then have i: "i < h" using u(3) by simp
    then have "t_rows u ! i = concat (map (\<lambda>r. py_slice (r * ?s) ((r + 1) * ?s) (t_rows full ! i)) [0..<n])"
      using full(2) by (simp add: u(3) comp_def)
    also have "\<dots> = t_rows full ! i"
      by (rule concat_shards) (use full i f in simp)
    finally show "t_rows u ! i = t_rows full ! i" .
  qed
  moreover have "t_trail u = t_trail full"
    using u(2) full(1) f by (simp add: comp_def sum_list_triv)
  ultimately have "u = full" by (simp add: tensor.equality)
  with g u(1) m show ?thesis by (auto simp: gather_columns_def)
qed

text \<open>The shards of an expert that the EP rank \<open>er\<close> holds, in the order of the ETP ranks.\<close>

definition expert_shards ::
  "'e named \<Rightarrow> gpt_dims \<Rightarrow> mesh \<Rightarrow> nat \<Rightarrow> nat \<Rightarrow> nat \<Rightarrow> string \<Rightarrow> 'e tensor list result" where
  "expert_shards hf d m er gl le fc =
     map_result (\<lambda>tr. shard_expert hf d m er tr gl le fc) [0..<m_etp m]"

definition full_expert :: "'e named \<Rightarrow> nat \<Rightarrow> nat \<Rightarrow> string \<Rightarrow> 'e tensor result" where
  "full_expert hf gl e fc = (if fc = ''1'' then hf_expert_fc1 hf gl e else hf_expert_fc2 hf gl e)"

lemma expert_fc1_matrix:
  assumes "expert_ok d hf gl e"
  shows "\<exists>a b t. map_of hf (hf_expert gl e ''gate_proj.weight'') = Some a
    \<and> map_of hf (hf_expert gl e ''up_proj.weight'') = Some b
    \<and> t_len a = t_len b \<and> t_trail a = t_trail b
    \<and> hf_expert_fc1 hf gl e = Inr t \<and> t_cat [a, b] = Inr t \<and> is_matrix (2 * moe_ffn d) (hidden d) t"
proof -
  obtain a b where "map_of hf (hf_expert gl e ''gate_proj.weight'') = Some a" "is_matrix (moe_ffn d) (hidden d) a"
    "map_of hf (hf_expert gl e ''up_proj.weight'') = Some b" "is_matrix (moe_ffn d) (hidden d) b"
    using assms by (auto simp: expert_ok_def has_gate_up_def has_matrix_iff)
  then show ?thesis
    by (simp add: hf_expert_fc1_def cat_two_def dict_get_def is_matrix_def t_cat_two [where tr = "[hidden d]"])
       (auto simp: wf_tensor_def t_len_def list_all_iff)
qed

lemma expert_shards_gather:
  assumes "expert_ok d hf gl (er * n + le)" "num_local_experts d m = Inr n" "0 < m_etp m"
    "m_etp m dvd moe_ffn d"
  shows "\<exists>g t. expert_shards hf d m er gl le fc = Inr g \<and> etp_gather fc g = Inr t
    \<and> full_expert hf gl (er * n + le) fc = Inr t"
proof (cases "fc = ''1''")
  case True
  obtain t where t: "hf_expert_fc1 hf gl (er * n + le) = Inr t" "is_matrix (2 * moe_ffn d) (hidden d) t"
    using expert_fc1_matrix [OF assms(1)] by blast
  show ?thesis
  proof (cases "m_etp m > 1")
    case etp: True
    from shard_gather_gate_up [OF t(2) assms(3,4)] obtain g where
      g: "map_result (\<lambda>r. shard_gate_up (moe_ffn d) (m_etp m) r t) [0..<m_etp m] = Inr g" "gather_gate_up g = Inr t"
      by blast
    then show ?thesis
      using True etp t assms(2) map_result_length [OF g(1)]
      by (simp add: expert_shards_def shard_expert_def etp_gather_def full_expert_def)
  next
    case False
    then have "m_etp m = 1" using assms(3) by simp
    then show ?thesis
      using True t assms(2) by (simp add: expert_shards_def shard_expert_def etp_gather_def full_expert_def)
  qed
next
  case False
  obtain t where t: "hf_expert_fc2 hf gl (er * n + le) = Inr t" "is_matrix (hidden d) (moe_ffn d) t"
    using assms(1) by (auto simp: expert_ok_def has_matrix_iff hf_expert_fc2_def)
  show ?thesis
  proof (cases "m_etp m > 1")
    case etp: True
    from shard_gather_columns [OF t(2) assms(3,4)] obtain g where
      g: "map_result (\<lambda>r. shard_columns (moe_ffn d) (m_etp m) r t) [0..<m_etp m] = Inr g" "gather_columns g = Inr t"
      by blast
    then show ?thesis
      using False etp t assms(2) map_result_length [OF g(1)]
      by (simp add: expert_shards_def shard_expert_def etp_gather_def full_expert_def)
  next
    case no: False
    then have "m_etp m = 1" using assms(3) by simp
    then show ?thesis
      using False t assms(2) by (simp add: expert_shards_def shard_expert_def etp_gather_def full_expert_def)
  qed
qed

end
