(* ===== verification/Expert_Sync.thy ===== *)
theory Expert_Sync
  imports Weight_Bridge
begin

text \<open>
  \<open>lumenrl/engine/inference/vllm_moe_weight_sync.py\<close>: the receiving side of the expert weights in
  vLLM. Fused and stacked expert tensors are routed by name to the parameters of the rollout model,
  stacks are expanded for loaders that take one expert at a time, and every sync must account for
  every parameter. The weight loader of a vLLM layer is a parameter; the optional read-back of what
  was written (\<open>LUMENRL_WEIGHT_SYNC_VERIFY\<close>) is not modelled. The iteration order of the set of
  parameter names a module owns is the order of its list.
\<close>

section \<open>Names\<close>

definition rpartition_dot :: "string \<Rightarrow> string \<times> string" where
  \<comment> \<open>\<open>prefix, _, leaf = name.rpartition(".")\<close>\<close>
  "rpartition_dot name =
     (case split_first (CHR ''.'') (rev name) of
        None \<Rightarrow> ([], name) | Some (leaf, pre) \<Rightarrow> (rev pre, rev leaf))"

definition stacked_match :: "string \<Rightarrow> (nat \<times> nat \<times> string) option" where
  \<comment> \<open>what follows group 1 without \<open>.experts\<close>\<close>
  "stacked_match s =
     first_some (\<lambda>leaf. case match_parts (name_parts (''.experts.{E}::{S}.'' @ leaf)) s of
          Some [(_, start), (_, step)] \<Rightarrow> Some (start, step, leaf) | _ \<Rightarrow> None)
       [''gate_up_proj'', ''down_proj'']"

definition stacked :: "string \<Rightarrow> (string \<times> nat \<times> nat \<times> string) option" where
  \<comment> \<open>\<open>_STACKED.match\<close>: the module prefix, start, step and leaf\<close>
  "stacked name =
     map_option (\<lambda>((start, step, leaf), pre). (pre @ ''.experts'', start, step, leaf))
       (line_prefix stacked_match name)"

section \<open>Stacks of experts\<close>

definition t_sub :: "nat \<Rightarrow> 'e tensor \<Rightarrow> 'e tensor result" where
  \<comment> \<open>\<open>t[k]\<close> of a tensor with at least two dimensions\<close>
  "t_sub k t =
     (case t_trail t of
        [] \<Rightarrow> Inl IndexError
      | n # rest \<Rightarrow> bind_result (py_index (t_rows t) (int k)) (\<lambda>row.
          Inr \<lparr>t_trail = rest, t_rows = cut_rows n (prod_list rest) row\<rparr>))"

definition stacked_expert_shards :: "'e tensor \<Rightarrow> string \<Rightarrow> bool \<Rightarrow> (string \<times> 'e tensor) list" where
  "stacked_expert_shards t leaf act_and_mul =
     (if leaf = ''down_proj'' then [(''w2'', t)]
      else if \<not> act_and_mul then [(''w1'', t)]
      else let half = t_len t div 2 in [(''w1'', t_slice 0 half t), (''w3'', t_slice half (t_len t) t)])"

definition shard_proj :: "string \<Rightarrow> string" where
  "shard_proj shard_id =
     (if shard_id = ''w1'' then ''gate_proj'' else if shard_id = ''w3'' then ''up_proj'' else ''down_proj'')"

definition unstack_one :: "string \<Rightarrow> 'e tensor \<Rightarrow> 'e named result" where
  "unstack_one name t =
     (case stacked name of
        None \<Rightarrow> Inr [(name, t)]
      | Some (pre, start, step, leaf) \<Rightarrow>
          concat_result (\<lambda>k. bind_result (t_sub k t) (\<lambda>e.
            Inr (map (\<lambda>(shard_id, shard).
                (pre @ ''.'' @ show_nat (start + k * step) @ ''.'' @ shard_proj shard_id @ ''.weight'', shard))
              (stacked_expert_shards e leaf True)))) [0..<t_len t])"

definition unstack_expert_weights :: "'e named \<Rightarrow> 'e named result" where
  "unstack_expert_weights weights = concat_result (\<lambda>(name, t). unstack_one name t) weights"

section \<open>The router\<close>

record fused_module =
  fm_name :: string
  fm_has_loader :: bool
  fm_owned :: "string list"
  fm_ep :: nat
  fm_tp :: nat
  fm_act_and_mul :: bool

type_synonym expert_entry = "fused_module \<times> string \<times> string"

definition container_segments :: "string list" where
  "container_segments = [''routed_experts'']"

definition lookup_keys :: "string \<Rightarrow> string list" where
  "lookup_keys mod_name =
     (let (pre, leaf) = rpartition_dot mod_name in
      mod_name # (if pre \<noteq> [] \<and> leaf \<in> set container_segments then [pre] else []))"

definition setdefault :: "'k \<Rightarrow> 'v \<Rightarrow> ('k, 'v) dict \<Rightarrow> ('k, 'v) dict" where
  "setdefault k v d = (case map_of d k of None \<Rightarrow> dict_set k v d | Some _ \<Rightarrow> d)"

definition add_module :: "fused_module \<Rightarrow> (string, expert_entry) dict \<Rightarrow> (string, expert_entry) dict" where
  "add_module m experts =
     (if \<not> fm_has_loader m then experts
      else case (find (has_suffix ''w13_weight'') (fm_owned m), find (has_suffix ''w2_weight'') (fm_owned m)) of
        (Some w13, Some w2) \<Rightarrow>
          fold (\<lambda>key. setdefault key (m, fm_name m @ ''.'' @ w13, fm_name m @ ''.'' @ w2))
            (lookup_keys (fm_name m)) experts
      | _ \<Rightarrow> experts)"

definition expert_modules :: "fused_module list \<Rightarrow> (string, expert_entry) dict" where
  \<comment> \<open>the constructor of the router\<close>
  "expert_modules modules = fold add_module modules []"

text \<open>
  \<open>loader m pname shard_id expert_id shard param\<close> is \<open>module.weight_loader\<close>: the new value of the
  parameter, and whether it accepted the shard.
\<close>

type_synonym 'e weight_loader =
  "fused_module \<Rightarrow> string \<Rightarrow> string \<Rightarrow> nat \<Rightarrow> 'e tensor \<Rightarrow> 'e tensor \<Rightarrow> 'e tensor \<times> bool"

definition write_strided :: "nat \<Rightarrow> nat \<Rightarrow> 'e list list \<Rightarrow> 'e list list \<Rightarrow> 'e list list" where
  \<comment> \<open>\<open>param.data[start::step].copy_(rows)\<close>\<close>
  "write_strided start step rows param =
     fold (\<lambda>(k, row) ps. ps[start + k * step := row]) (enumerate 0 rows) param"

definition strided_len :: "nat \<Rightarrow> nat \<Rightarrow> nat \<Rightarrow> nat" where
  "strided_len start step n = (n - start + step - 1) div step"

definition load_stacked ::
  "'e weight_loader \<Rightarrow> (string, expert_entry) dict \<Rightarrow> 'e named \<Rightarrow> string \<times> nat \<times> nat \<times> string
     \<Rightarrow> 'e tensor \<Rightarrow> (string \<times> 'e named) result" where
  \<comment> \<open>the name of the loaded parameter and the new parameters\<close>
  "load_stacked loader experts params st t =
     (case st of (pre, start, step, leaf) \<Rightarrow>
      (case map_of experts pre of
        None \<Rightarrow> Inl RuntimeError
      | Some (m, w13, w2) \<Rightarrow>
          if t_ndim t \<noteq> 3 then Inl RuntimeError
          else let pname = (if leaf = ''gate_up_proj'' then w13 else w2) in
            bind_result (dict_get params pname) (\<lambda>param.
            if step = 0 then Inl ValueError
            else if fm_ep m = 1 \<and> fm_tp m = 1
                \<and> strided_len start step (t_len param) = t_len t \<and> t_trail param = t_trail t
            then Inr (pname, dict_set pname (param\<lparr>t_rows := write_strided start step (t_rows t) (t_rows param)\<rparr>) params)
            else
              bind_result (concat_result (\<lambda>k. bind_result (t_sub k t) (\<lambda>e.
                  Inr (map (\<lambda>(shard_id, shard). (k, shard_id, shard))
                        (stacked_expert_shards e leaf (fm_act_and_mul m))))) [0..<t_len t]) (\<lambda>shards.
              Inr (pname, dict_set pname
                (fold (\<lambda>(k, shard_id, shard) p. fst (loader m pname shard_id (start + k * step) shard p))
                  shards param) params)))))"

definition load_shard ::
  "'e weight_loader \<Rightarrow> fused_module \<Rightarrow> string \<Rightarrow> string \<Rightarrow> 'e tensor \<Rightarrow> 'e tensor \<Rightarrow> 'e tensor result" where
  \<comment> \<open>\<open>_dispatch\<close>: the whole shard when the layer is not sharded, else expert by expert\<close>
  "load_shard loader m pname shard_id shard param =
     (if fm_ep m = 1 \<and> fm_tp m = 1 then
        (case loader m pname shard_id 0 shard param of
           (p, ok) \<Rightarrow> if ok then Inr p else Inl RuntimeError)
      else
        bind_result (map_result (\<lambda>e. t_sub e shard) [0..<t_len shard]) (\<lambda>es.
        case fold (\<lambda>(e, x) (p, any). case loader m pname shard_id e x p of (p', ok) \<Rightarrow> (p', any \<or> ok))
               (enumerate 0 es) (param, False) of
          (p, any) \<Rightarrow> if any then Inr p else Inl RuntimeError))"

definition load_fused ::
  "'e weight_loader \<Rightarrow> 'e named \<Rightarrow> expert_entry \<Rightarrow> string \<Rightarrow> 'e tensor \<Rightarrow> (string \<times> 'e named) result" where
  "load_fused loader params entry leaf t =
     (case entry of (m, w13, w2) \<Rightarrow>
      if t_ndim t \<noteq> 3 then Inl RuntimeError
      else let pname = (if leaf = ''gate_up_proj'' then w13 else w2) in
        bind_result (dict_get params pname) (\<lambda>param.
        bind_result (if leaf = ''down_proj'' then Inr [(''w2'', t)]
           else if fm_act_and_mul m then
             bind_result (t_dim1 t) (\<lambda>n. let half = n div 2 in
             bind_result (t_slice1 0 half t) (\<lambda>a. bind_result (t_slice1 half n t) (\<lambda>b.
             Inr [(''w1'', a), (''w3'', b)])))
           else Inr [(''w1'', t)]) (\<lambda>shards.
        bind_result (foldl (\<lambda>r (shard_id, shard). bind_result r (load_shard loader m pname shard_id shard))
            (Inr param) shards) (\<lambda>p.
        Inr (pname, dict_set pname p params)))))"

fun route ::
  "'e weight_loader \<Rightarrow> (string, expert_entry) dict \<Rightarrow> 'e named \<Rightarrow> 'e named
     \<Rightarrow> ('e named \<times> string list \<times> 'e named) result" where
  \<comment> \<open>what is left for \<open>model.load_weights\<close>, the names loaded here, and the new parameters\<close>
  "route loader experts params [] = Inr ([], [], params)"
| "route loader experts params ((name, t) # weights) =
     (if experts = [] then Inr ((name, t) # weights, [], params)
      else case stacked name of
        Some st \<Rightarrow>
          bind_result (load_stacked loader experts params st t) (\<lambda>(pname, params').
          bind_result (route loader experts params' weights) (\<lambda>(rest, loaded, ps).
          Inr (rest, pname # loaded, ps)))
      | None \<Rightarrow>
          (case rpartition_dot name of (pre, leaf) \<Rightarrow>
           (case (if leaf \<in> {''gate_up_proj'', ''down_proj''} then map_of experts pre else None) of
             None \<Rightarrow> bind_result (route loader experts params weights) (\<lambda>(rest, loaded, ps).
                       Inr ((name, t) # rest, loaded, ps))
           | Some entry \<Rightarrow>
               bind_result (load_fused loader params entry leaf t) (\<lambda>(pname, params').
               bind_result (route loader experts params' weights) (\<lambda>(rest, loaded, ps).
               Inr (rest, pname # loaded, ps))))))"

section \<open>Coverage\<close>

definition coverage_ignore_suffixes :: "string list" where
  "coverage_ignore_suffixes =
     [''_scale'', ''_scale_inv'', ''_scale_2'', ''_offset'', ''_zero_point'', ''_shape'', ''g_idx'']"

fun replace_first :: "string \<Rightarrow> string \<Rightarrow> string \<Rightarrow> string option" where
  \<comment> \<open>\<open>s.replace(needle, new, 1)\<close> when \<open>needle in s\<close>\<close>
  "replace_first needle new [] = (if needle = [] then Some new else None)"
| "replace_first needle new (c # s) =
     (case drop_prefix needle (c # s) of
        Some rest \<Rightarrow> Some (new @ rest)
      | None \<Rightarrow> map_option ((#) c) (replace_first needle new s))"

definition coverage_aliases :: "string \<Rightarrow> string list" where
  "coverage_aliases name =
     name # concat (map (\<lambda>seg. case replace_first (''.'' @ seg @ ''.'') ''.'' name of
                              None \<Rightarrow> [] | Some a \<Rightarrow> [a]) container_segments)"

definition missing_parameters :: "string list \<Rightarrow> string list \<Rightarrow> string list" where
  \<comment> \<open>the expected parameters, of which no alias was loaded\<close>
  "missing_parameters params loaded =
     filter (\<lambda>name. set loaded \<inter> set (coverage_aliases name) = {})
       (filter (\<lambda>name. \<not> list_ex (\<lambda>suf. has_suffix suf name) coverage_ignore_suffixes) params)"

definition assert_weight_sync_coverage :: "string \<Rightarrow> string list \<Rightarrow> string list \<Rightarrow> unit result" where
  \<comment> \<open>\<open>mode\<close> is \<open>LUMENRL_WEIGHT_SYNC_CHECK\<close> or its default\<close>
  "assert_weight_sync_coverage mode params loaded =
     (if py_lower mode = ''off'' then Inr ()
      else if missing_parameters params loaded = [] then Inr ()
      else if py_lower mode = ''warn'' then Inr ()
      else Inl RuntimeError)"


section \<open>Names of stacks and of experts\<close>

lemma stacked_match_other:
  "c \<noteq> CHR ''.'' \<Longrightarrow> stacked_match (c # s) = None" "stacked_match [] = None"
proof -
  have "match_parts (name_parts (CHR ''.'' # p)) [] = None" for p
    using name_parts_first [of "CHR ''.''" p] by auto
  then show "stacked_match [] = None"
    by (simp only: stacked_match_def append.simps first_some.simps option.case)
  assume "c \<noteq> CHR ''.''"
  then have "match_parts (name_parts (CHR ''.'' # p)) (c # s) = None" for p
    by (rule match_first) simp
  then show "stacked_match (c # s) = None"
    by (simp only: stacked_match_def append.simps first_some.simps option.case)
qed

lemma no_digit_stacked [simp]: "no_digit_match stacked_match"
  using stacked_match_other not_digit(1) by (metis no_digit_match_def)

lemma stacked_match_dot:
  "stacked_match (CHR ''.'' # s) =
     first_some (\<lambda>leaf. case match_parts (name_parts (''.experts.{E}::{S}.'' @ leaf)) (CHR ''.'' # s) of
          Some [(_, start), (_, step)] \<Rightarrow> Some (start, step, leaf) | _ \<Rightarrow> None)
       [''gate_up_proj'', ''down_proj'']"
  by (simp only: stacked_match_def)

lemmas stacked_search =
  line_prefix_step line_prefix_show_nat line_prefix_show_nat_end stacked_match_other stacked_match_dot

definition hf_stack :: "nat \<Rightarrow> nat \<Rightarrow> nat \<Rightarrow> string \<Rightarrow> string" where
  "hf_stack i e n leaf = hf_layer i (''mlp.experts.'' @ show_nat e @ ''::'' @ show_nat n @ ''.'' @ leaf)"

lemma stacked_name [simp]:
  "stacked (hf_stack i e n ''gate_up_proj'') = Some (hf_layer i ''mlp.experts'', e, n, ''gate_up_proj'')"
  "stacked (hf_stack i e n ''down_proj'') = Some (hf_layer i ''mlp.experts'', e, n, ''down_proj'')"
  by (simp_all add: stacked_def hf_stack_def hf_layer_def stacked_search)

lemma rpartition_dot_append [simp]:
  "CHR ''.'' \<notin> set leaf \<Longrightarrow> rpartition_dot (pre @ CHR ''.'' # leaf) = (pre, leaf)"
  using split_first_append [of "CHR ''.''" "rev leaf" "rev pre"] by (simp add: rpartition_dot_def)

section \<open>Strided writes\<close>

lemma write_strided_snoc:
  "write_strided start step (rows @ [r]) ps = (write_strided start step rows ps)[start + length rows * step := r]"
  by (simp add: write_strided_def enumerate_append_eq)

lemma length_write_strided [simp]: "length (write_strided start step rows ps) = length ps"
  by (induction rows rule: rev_induct) (simp_all add: write_strided_snoc, simp add: write_strided_def)

lemma nth_write_strided:
  assumes "0 < step" "i < length ps"
  shows "write_strided start step rows ps ! i =
    (if start \<le> i \<and> (i - start) mod step = 0 \<and> (i - start) div step < length rows
     then rows ! ((i - start) div step) else ps ! i)"
proof (induction rows rule: rev_induct)
  case Nil
  show ?case by (simp add: write_strided_def)
next
  case (snoc r rows)
  have here: "i = start + length rows * step \<longleftrightarrow>
      start \<le> i \<and> (i - start) mod step = 0 \<and> (i - start) div step = length rows"
  proof
    assume "start \<le> i \<and> (i - start) mod step = 0 \<and> (i - start) div step = length rows"
    then have "start \<le> i" "i - start = length rows * step"
      using div_mult_mod_eq [of "i - start" step] by auto
    then show "i = start + length rows * step" by simp
  qed (use assms(1) in simp)
  show ?case
  proof (cases "i = start + length rows * step")
    case True
    with here assms(2) show ?thesis by (simp add: write_strided_snoc)
  next
    case False
    with here snoc assms(2) show ?thesis by (auto simp: write_strided_snoc nth_append)
  qed
qed

text \<open>Writing the stacks of all starts fills the parameter: row \<open>j * n + l\<close> comes from stack \<open>l\<close>.\<close>

lemma fold_write_strided:
  assumes "length ps = k * n" "m \<le> n" "\<And>l. l < m \<Longrightarrow> length (stack l) = k" "i < k * n"
  shows "fold (\<lambda>l. write_strided l n (stack l)) [0..<m] ps ! i =
    (if i mod n < m then stack (i mod n) ! (i div n) else ps ! i)"
  using assms(2,3)
proof (induction m)
  case 0
  show ?case by simp
next
  case (Suc m)
  have n: "0 < n" using assms(4) by (cases n) simp_all
  let ?q = "fold (\<lambda>l. write_strided l n (stack l)) [0..<m] ps"
  have len: "length ?q = k * n"
    by (induction m) (simp_all add: assms(1))
  have here: "m \<le> i \<and> (i - m) mod n = 0 \<and> (i - m) div n < k \<longleftrightarrow> i mod n = m"
  proof
    assume a: "m \<le> i \<and> (i - m) mod n = 0 \<and> (i - m) div n < k"
    then have "i = m + (i - m) div n * n" by (simp add: mod_eq_0_iff_dvd)
    with Suc.prems(1) show "i mod n = m" by (metis mod_less mod_mult_self1 Suc_le_lessD)
  next
    assume m: "i mod n = m"
    then have "i - m = i div n * n" by (metis minus_mod_eq_div_mult)
    moreover have "i div n < k" using assms(4) by (simp add: less_mult_imp_div_less)
    ultimately show "m \<le> i \<and> (i - m) mod n = 0 \<and> (i - m) div n < k"
      using m n mod_less_eq_dividend [of i n] by simp
  qed
  have "(i - m) div n = i div n" if "i mod n = m"
    using that n by (metis minus_mod_eq_div_mult div_mult_self_is_m)
  with here Suc len assms(4) n show ?case
    by (auto simp: nth_write_strided less_Suc_eq)
qed

end
