(* ===== verification/Expert_Path.thy ===== *)
theory Expert_Path
  imports Stage_Gather Expert_Sync
begin

text \<open>
  The way of the expert weights from the ranks of the trainer to the rollout engine, over the
  components it crosses: the slices of the ranks (\<open>Stage_Gather\<close>), the names of the bridge
  (\<open>GPT_Bridge\<close>) and the router of the receiver (\<open>Expert_Sync\<close>).
\<close>

definition expert_param :: "bool \<Rightarrow> nat \<Rightarrow> string \<Rightarrow> string \<Rightarrow> string" where
  \<comment> \<open>the name of an expert parameter in the grouped or the sequential layout\<close>
  "expert_param grouped li fc e = (if grouped then grouped_expert li fc e else local_expert li fc e)"

definition expert_tensor :: "'e named \<Rightarrow> nat \<Rightarrow> nat \<Rightarrow> string \<Rightarrow> 'e tensor" where
  "expert_tensor hf gl e fc = projr (full_expert hf gl e fc)"

definition expert_cols :: "gpt_dims \<Rightarrow> string \<Rightarrow> nat \<times> nat" where
  "expert_cols d fc = (if fc = ''1'' then (2 * moe_ffn d, hidden d) else (hidden d, moe_ffn d))"

definition proj_names :: "nat \<Rightarrow> string \<Rightarrow> nat \<Rightarrow> string list" where
  "proj_names gl fc e = map (hf_expert gl e)
     (if fc = ''1'' then [''gate_proj.weight'', ''up_proj.weight''] else [''down_proj.weight''])"

lemma expert_tensor_ok:
  assumes "expert_ok d hf gl e"
  shows "full_expert hf gl e fc = Inr (expert_tensor hf gl e fc)
    \<and> is_matrix (fst (expert_cols d fc)) (snd (expert_cols d fc)) (expert_tensor hf gl e fc)"
proof (cases "fc = ''1''")
  case True
  then show ?thesis
    using expert_fc1_matrix [OF assms] by (auto simp: expert_tensor_def full_expert_def expert_cols_def)
next
  case False
  with assms show ?thesis
    by (auto simp: expert_tensor_def full_expert_def expert_cols_def hf_expert_fc2_def dict_get_def
        expert_ok_def has_matrix_iff)
qed

lemma expert_index_of_param [simp]:
  "fc = ''1'' \<or> fc = ''2'' \<Longrightarrow> expert_local_index (expert_param g li fc (show_nat e)) = Some (e, fc)"
  "fc = ''1'' \<or> fc = ''2'' \<Longrightarrow>
   relabel_expert_index (expert_param g li fc (show_nat e)) new_e = expert_param g li fc new_e"
  "to_global_key (expert_param g li fc s) offset = expert_param g (li + offset) fc s"
  by (auto simp: expert_param_def expert_local_index_name relabel_expert_name)
     (simp_all add: grouped_expert_def local_expert_def)

definition expert_locals ::
  "'e named \<Rightarrow> gpt_dims \<Rightarrow> mesh \<Rightarrow> nat \<Rightarrow> nat \<Rightarrow> string \<Rightarrow> 'e tensor list list result" where
  \<comment> \<open>the shards of all ranks of a local expert parameter\<close>
  "expert_locals hf d m gl le fc = map_result (\<lambda>er. expert_shards hf d m er gl le fc) [0..<m_ep m]"

definition mesh_ok :: "gpt_dims \<Rightarrow> mesh \<Rightarrow> bool" where
  "mesh_ok d m \<longleftrightarrow> 0 < m_ep m \<and> m_ep m dvd num_experts d \<and> 0 < m_etp m \<and> m_etp m dvd moe_ffn d"

lemma mesh_local: "mesh_ok d m \<Longrightarrow> num_local_experts d m = Inr (num_experts d div m_ep m)"
  by (auto simp: mesh_ok_def num_local_experts_def Let_def)

lemma global_expert:
  "mesh_ok d m \<Longrightarrow> j < m_ep m \<Longrightarrow> le < num_experts d div m_ep m \<Longrightarrow>
   j * (num_experts d div m_ep m) + le < num_experts d"
proof -
  assume a: "mesh_ok d m" "j < m_ep m" "le < num_experts d div m_ep m"
  let ?n = "num_experts d div m_ep m"
  have "j * ?n + le < (j + 1) * ?n" using a(3) by simp
  also have "\<dots> \<le> m_ep m * ?n" using a(2) by (intro mult_le_mono1) simp
  also have "\<dots> = num_experts d" using a(1) by (simp add: mesh_ok_def)
  finally show ?thesis .
qed

lemma gathered_expert:
  assumes "mesh_ok d m" "\<And>e. e < num_experts d \<Longrightarrow> expert_ok d hf gl e"
    "le < num_experts d div m_ep m"
  shows "\<exists>locals. expert_locals hf d m gl le fc = Inr locals \<and> length locals = m_ep m
    \<and> map_result (etp_gather fc) locals =
        Inr (map (\<lambda>j. expert_tensor hf gl (j * (num_experts d div m_ep m) + le) fc) [0..<m_ep m])"
proof -
  let ?n = "num_experts d div m_ep m"
  let ?s = "\<lambda>j. projr (expert_shards hf d m j gl le fc)"
  have one: "expert_shards hf d m j gl le fc = Inr (?s j)
      \<and> etp_gather fc (?s j) = Inr (expert_tensor hf gl (j * ?n + le) fc)" if "j < m_ep m" for j
  proof -
    have ok: "expert_ok d hf gl (j * ?n + le)"
      by (rule assms(2)) (rule global_expert [OF assms(1) that assms(3)])
    have "0 < m_etp m" "m_etp m dvd moe_ffn d" using assms(1) by (simp_all add: mesh_ok_def)
    from expert_shards_gather [OF ok mesh_local [OF assms(1)] this, of fc] expert_tensor_ok [OF ok, of fc]
    show ?thesis by auto
  qed
  have "expert_locals hf d m gl le fc = Inr (map ?s [0..<m_ep m])"
    unfolding expert_locals_def by (rule map_result_total) (use one in simp)
  moreover have "map_result (etp_gather fc) (map ?s [0..<m_ep m]) =
      Inr (map (\<lambda>j. expert_tensor hf gl (j * ?n + le) fc) [0..<m_ep m])"
    unfolding map_result_map by (rule map_result_total) (use one in simp)
  ultimately show ?thesis by auto
qed

section \<open>One expert at a time\<close>

lemma local_expert_meg:
  "local_expert i ''1'' (show_nat e) = meg_expert i e ''linear_fc1.weight''"
  "local_expert i ''2'' (show_nat e) = meg_expert i e ''linear_fc2.weight''"
  by (simp_all add: local_expert_def meg_expert_def)

lemma strip_expert [simp]:
  "strip_module_prefix (grouped_expert i fc s) = grouped_expert i fc s"
  "strip_module_prefix (local_expert i fc s) = local_expert i fc s"
  by (simp_all add: grouped_expert_def local_expert_def)

lemma bridge_one:
  assumes "strip_module_prefix k = k" "match_rule gpt_rules k = Some (rule, idx)"
    "r_convert rule t (site_of idx d lo eo) = Inr out"
  shows "megatron_to_hf d lo eo [(k, t)] = Inr (out, [])"
  using assms by (simp add: megatron_to_hf_def)

lemma bridge_map:
  assumes "\<And>x. x \<in> set xs \<Longrightarrow> megatron_to_hf d lo eo [f x] = Inr (g x, [])"
  shows "megatron_to_hf d lo eo (map f xs) = Inr (concat (map g xs), [])"
  using assms
proof (induction xs)
  case Nil
  show ?case by (simp add: megatron_to_hf_def)
next
  case (Cons x xs)
  then have "bridge_to_hf gpt_rules d lo eo ([f x] @ map f xs) = Inr (g x @ concat (map g xs), [] @ [])"
    by (intro bridge_append) (simp_all add: megatron_to_hf_def)
  then show ?case by (simp add: megatron_to_hf_def)
qed

lemma gate_up_convert:
  assumes "t_cat [a, b] = Inr t" "t_len a = t_len b" "t_trail a = t_trail b"
  shows "r_convert (gate_up m h) t site =
     Inr [(site_name site (h @ ''gate_proj.weight''), a), (site_name site (h @ ''up_proj.weight''), b)]"
  using t_halves_cat [OF assms] by (simp add: gate_up_def split_rule_def split_gate_up_def)

lemma bridge_expert:
  fixes hf :: "'e named"
  assumes "expert_ok d hf gl e" "fc = ''1'' \<or> fc = ''2''"
  shows "megatron_to_hf d 0 0 [(expert_param g gl fc (show_nat e), expert_tensor hf gl e fc)] =
     Inr (pick_names hf (proj_names gl fc e), [])"
proof (cases "fc = ''1''")
  case True
  obtain a b t where ab: "map_of hf (hf_expert gl e ''gate_proj.weight'') = Some a"
    "map_of hf (hf_expert gl e ''up_proj.weight'') = Some b" "t_len a = t_len b" "t_trail a = t_trail b"
    "hf_expert_fc1 hf gl e = Inr t" "t_cat [a, b] = Inr t"
    using expert_fc1_matrix [OF assms(1)] by blast
  have key: "megatron_to_hf d 0 0 [(k, t)] = Inr (pick_names hf (proj_names gl fc e), [])"
    if "match_rule gpt_rules k = Some (gate_up m (layer_hf ''mlp.experts.{E}.'') :: ('e, gpt_dims) rule, [(CHR ''L'', gl), (CHR ''E'', e)])"
      "strip_module_prefix k = k" for k m
    by (rule bridge_one [OF that(2,1)])
       (simp add: gate_up_convert [OF ab(6,3,4)] proj_names_def True ab(1,2))
  have "expert_tensor hf gl e fc = t" using True ab(5) by (simp add: expert_tensor_def full_expert_def)
  then show ?thesis
    using True key [OF gpt_match_grouped(1)] key [OF gpt_match_expert(1)]
    by (cases g) (simp_all add: expert_param_def local_expert_meg)
next
  case False
  then have fc: "fc = ''2''" using assms(2) by simp
  obtain t where t: "map_of hf (hf_expert gl e ''down_proj.weight'') = Some t"
    using assms(1) by (auto simp: expert_ok_def has_matrix_iff)
  have key: "megatron_to_hf d 0 0 [(k, t)] = Inr (pick_names hf (proj_names gl fc e), [])"
    if "match_rule gpt_rules k = Some (rename m (layer_hf ''mlp.experts.{E}.down_proj.weight'') :: ('e, gpt_dims) rule, [(CHR ''L'', gl), (CHR ''E'', e)])"
      "strip_module_prefix k = k" for k m
    by (rule bridge_one [OF that(2,1)]) (simp add: rename_def proj_names_def fc t)
  have "expert_tensor hf gl e fc = t"
    using fc t by (simp add: expert_tensor_def full_expert_def hf_expert_fc2_def dict_get_def)
  then show ?thesis
    using fc key [OF gpt_match_grouped(2)] key [OF gpt_match_expert(2)]
    by (cases g) (simp_all add: expert_param_def local_expert_meg)
qed

lemma stage_plain:
  assumes "map_result (etp_gather fc) locals = Inr (map T [0..<ep])" "fc = ''1'' \<or> fc = ''2''"
  shows "stage_expert (expert_param g li fc (show_nat le)) n lo False locals =
     Inr (map (\<lambda>j. (expert_param g (li + lo) fc (show_nat (j * n + le)), T j)) [0..<ep])"
proof -
  have "enumerate 0 (map T [0..<ep]) = map (\<lambda>j. (j, T j)) [0..<ep]"
    by (rule nth_equalityI) (simp_all add: nth_enumerate_eq)
  then show ?thesis using assms by (simp add: stage_expert_def comp_def)
qed

lemma stage_stacked:
  assumes "map_result (etp_gather fc) locals = Inr ts" "fc = ''1'' \<or> fc = ''2''" "1 < length locals"
  shows "stage_expert (expert_param g li fc (show_nat le)) n lo True locals =
     Inr [(expert_param g (li + lo) fc (stacked_expert_index le n), t_stack ts)]"
  using assms by (simp add: stage_expert_def)

section \<open>Stacks\<close>

definition stack_leaf :: "string \<Rightarrow> string" where
  "stack_leaf fc = (if fc = ''1'' then ''gate_up_proj'' else ''down_proj'')"

lemma site_stack_name:
  "site_name (site_of [(CHR ''L'', i), (CHR ''E'', e), (CHR ''S'', n)] d 0 0)
     (layer_hf ''mlp.experts.{E}::{S}.gate_up_proj'') = hf_stack i e n ''gate_up_proj''"
  "site_name (site_of [(CHR ''L'', i), (CHR ''E'', e), (CHR ''S'', n)] d 0 0)
     (layer_hf ''mlp.experts.{E}::{S}.down_proj'') = hf_stack i e n ''down_proj''"
  by (simp_all add: site_name_def site_of_def format_lit format_slot show_opt_def hf_stack_def hf_layer_def plain_def)

lemma bridge_stack:
  fixes t :: "'e tensor"
  assumes "fc = ''1'' \<or> fc = ''2''"
  shows "megatron_to_hf d 0 0 [(expert_param g gl fc (stacked_expert_index le n), t)] =
     Inr ([(hf_stack gl le n (stack_leaf fc), t)], [])"
proof -
  have key: "megatron_to_hf d 0 0 [(k, t)] = Inr ([(site_name (site_of idx d 0 0) h, t)], [])"
    if "match_rule gpt_rules k = Some (rename m h :: ('e, gpt_dims) rule, idx)" "strip_module_prefix k = k"
    for k m h idx
    by (rule bridge_one [OF that(2,1)]) (simp add: rename_def)
  show ?thesis
    using assms key [OF gpt_match_stacked(1)] key [OF gpt_match_stacked(2)]
      key [OF gpt_match_stacked(3)] key [OF gpt_match_stacked(4)]
    by (cases g) (auto simp: expert_param_def stack_leaf_def site_stack_name simp del: append.simps)
qed

lemma t_sub_stack:
  assumes "\<And>t. t \<in> set ts \<Longrightarrow> is_matrix r c t" "k < length ts"
  shows "t_sub k (t_stack ts) = Inr (ts ! k)"
proof -
  have m: "is_matrix r c (ts ! k)" using assms by simp
  have "is_matrix r c (hd ts)" using assms by (cases ts) auto
  then have "t_trail (t_stack ts) = [r, c]" by (simp add: t_stack_def is_matrix_def)
  moreover have "cut_rows r c (concat (t_rows (ts ! k))) = t_rows (ts ! k)"
    using m cut_rows_concat [of "t_rows (ts ! k)" c] by (simp add: is_matrix_def wf_tensor_def list_all_iff t_len_def)
  ultimately show ?thesis
    using m assms(2) by (simp add: t_sub_def t_stack_def is_matrix_def tensor.equality)
qed

lemma expert_stack_shards:
  assumes "expert_ok d hf gl e" "fc = ''1'' \<or> fc = ''2''"
  shows "map (\<lambda>(shard_id, shard). (hf_layer gl ''mlp.experts'' @ ''.'' @ show_nat e @ ''.'' @ shard_proj shard_id @ ''.weight'', shard))
      (stacked_expert_shards (expert_tensor hf gl e fc) (stack_leaf fc) True) =
    pick_names hf (proj_names gl fc e)"
proof (cases "fc = ''1''")
  case True
  obtain a b t where ab: "map_of hf (hf_expert gl e ''gate_proj.weight'') = Some a"
    "map_of hf (hf_expert gl e ''up_proj.weight'') = Some b" "t_len a = t_len b" "t_trail a = t_trail b"
    "hf_expert_fc1 hf gl e = Inr t" "t_cat [a, b] = Inr t"
    using expert_fc1_matrix [OF assms(1)] by blast
  have "t_len t = 2 * t_len a"
    using ab(3,6) t_cat_two [OF refl ab(4) [symmetric]] by (auto simp: t_len_def)
  then have "t_slice 0 (t_len t div 2) t = a" "t_slice (t_len t div 2) (t_len t) t = b"
    using t_halves_cat [OF ab(6,3,4)] by (auto simp: t_halves_def Let_def split: if_splits)
  moreover have "expert_tensor hf gl e fc = t"
    using True ab(5) by (simp add: expert_tensor_def full_expert_def)
  ultimately show ?thesis
    using True ab(1,2)
    by (simp add: stacked_expert_shards_def stack_leaf_def shard_proj_def proj_names_def Let_def
        hf_expert_def hf_layer_def)
next
  case False
  then have fc: "fc = ''2''" using assms(2) by simp
  obtain t where t: "map_of hf (hf_expert gl e ''down_proj.weight'') = Some t"
    using assms(1) by (auto simp: expert_ok_def has_matrix_iff)
  then have "expert_tensor hf gl e fc = t"
    using fc by (simp add: expert_tensor_def full_expert_def hf_expert_fc2_def dict_get_def)
  with fc t show ?thesis
    by (simp add: stacked_expert_shards_def stack_leaf_def shard_proj_def proj_names_def hf_expert_def hf_layer_def)
qed

lemma unstack_experts:
  assumes "\<And>j. j < ep \<Longrightarrow> expert_ok d hf gl (j * n + le)" "fc = ''1'' \<or> fc = ''2''"
  shows "unstack_expert_weights [(hf_stack gl le n (stack_leaf fc),
      t_stack (map (\<lambda>j. expert_tensor hf gl (j * n + le) fc) [0..<ep]))] =
    Inr (concat (map (\<lambda>j. pick_names hf (proj_names gl fc (j * n + le))) [0..<ep]))"
proof -
  let ?ts = "map (\<lambda>j. expert_tensor hf gl (j * n + le) fc) [0..<ep]"
  have m: "is_matrix (fst (expert_cols d fc)) (snd (expert_cols d fc)) t" if "t \<in> set ?ts" for t
    using that assms(1) expert_tensor_ok by fastforce
  have st: "stacked (hf_stack gl le n (stack_leaf fc)) = Some (hf_layer gl ''mlp.experts'', le, n, stack_leaf fc)"
    using assms(2) by (auto simp: stack_leaf_def)
  have "concat_result (\<lambda>k. bind_result (t_sub k (t_stack ?ts)) (\<lambda>e.
            Inr (map (\<lambda>(shard_id, shard).
                (hf_layer gl ''mlp.experts'' @ ''.'' @ show_nat (le + k * n) @ ''.'' @ shard_proj shard_id @ ''.weight'', shard))
              (stacked_expert_shards e (stack_leaf fc) True)))) [0..<ep] =
      Inr (concat (map (\<lambda>j. pick_names hf (proj_names gl fc (j * n + le))) [0..<ep]))"
  proof (rule concat_result_total)
    fix k assume "k \<in> set [0..<ep]"
    then have k: "k < ep" by simp
    then have "t_sub k (t_stack ?ts) = Inr (expert_tensor hf gl (k * n + le) fc)"
      using t_sub_stack [where ts = ?ts, OF m, where k = k] by simp
    then show "bind_result (t_sub k (t_stack ?ts)) (\<lambda>e.
            Inr (map (\<lambda>(shard_id, shard).
                (hf_layer gl ''mlp.experts'' @ ''.'' @ show_nat (le + k * n) @ ''.'' @ shard_proj shard_id @ ''.weight'', shard))
              (stacked_expert_shards e (stack_leaf fc) True))) =
        Inr (pick_names hf (proj_names gl fc (k * n + le)))"
      using expert_stack_shards [OF assms(1) [OF k] assms(2)] by (simp only: bind_result_simps add.commute [of le])
  qed
  moreover have "t_len (t_stack ?ts) = ep" by (simp add: t_stack_def t_len_def)
  ultimately show ?thesis
    by (simp only: unstack_expert_weights_def concat_result_simps case_prod_conv unstack_one_def st option.case
        bind_result_simps append_Nil2)
qed

section \<open>Stacks in the rollout model\<close>

definition unsharded_entry :: "(string, expert_entry) dict \<Rightarrow> nat \<Rightarrow> string \<Rightarrow> string \<Rightarrow> bool" where
  \<comment> \<open>layer \<open>gl\<close> of the rollout model is not sharded and keeps the leaf in parameter \<open>pname\<close>\<close>
  "unsharded_entry experts gl leaf pname \<longleftrightarrow>
     (case map_of experts (hf_layer gl ''mlp.experts'') of
        None \<Rightarrow> False
      | Some (m, w13, w2) \<Rightarrow> fm_ep m = 1 \<and> fm_tp m = 1 \<and> pname = (if leaf = ''gate_up_proj'' then w13 else w2))"

lemma load_stack:
  assumes "unsharded_entry experts gl leaf pname" "map_of params pname = Some p"
    "t_len p = k * n" "t_trail p = t_trail t" "length (t_trail t) = 2" "t_len t = k" "l < n"
  shows "load_stacked loader experts params (hf_layer gl ''mlp.experts'', l, n, leaf) t =
    Inr (pname, dict_set pname (p\<lparr>t_rows := write_strided l n (t_rows t) (t_rows p)\<rparr>) params)"
proof -
  obtain m w13 w2 where e: "map_of experts (hf_layer gl ''mlp.experts'') = Some (m, w13, w2)"
    "fm_ep m = 1" "fm_tp m = 1" "pname = (if leaf = ''gate_up_proj'' then w13 else w2)"
    using assms(1) by (auto simp: unsharded_entry_def split: option.splits)
  have "strided_len l n (k * n) = k"
  proof (cases k)
    case 0
    then show ?thesis using assms(7) by (simp add: strided_len_def)
  next
    case (Suc k')
    then have "k * n - l + n - 1 = (n - 1 - l) + k * n" using assms(7) by simp
    moreover have "((n - 1 - l) + k * n) div n = k + (n - 1 - l) div n"
      by (rule div_mult_self1) (use assms(7) in simp)
    moreover have "(n - 1 - l) div n = 0" using assms(7) by simp
    ultimately show ?thesis by (simp only: strided_len_def)
  qed
  with e assms show ?thesis
    by (simp add: load_stacked_def t_ndim_def dict_get_def Let_def)
qed

lemma route_stacks:
  assumes "unsharded_entry experts gl leaf pname" "leaf = ''gate_up_proj'' \<or> leaf = ''down_proj''"
    "map_of params pname = Some p" "t_len p = k * n"
    "\<And>l. l < n \<Longrightarrow> t_trail (S l) = t_trail p \<and> t_len (S l) = k" "length (t_trail p) = 2"
    "\<And>l. l \<in> set ls \<Longrightarrow> l < n"
  shows "\<exists>params'. route loader experts params (map (\<lambda>l. (hf_stack gl l n leaf, S l)) ls) =
      Inr ([], map (\<lambda>_. pname) ls, params')
    \<and> map_of params' = (map_of params)(pname \<mapsto>
        p\<lparr>t_rows := fold (\<lambda>l. write_strided l n (t_rows (S l))) ls (t_rows p)\<rparr>)"
proof -
  have ne: "experts \<noteq> []" using assms(1) by (auto simp: unsharded_entry_def)
  show ?thesis
    using assms(7,3,4,5,6)
  proof (induction ls arbitrary: params p)
    case Nil
    then show ?case by (auto simp: fun_upd_idem)
  next
    case (Cons l ls)
    let ?p = "p\<lparr>t_rows := write_strided l n (t_rows (S l)) (t_rows p)\<rparr>"
    have st: "stacked (hf_stack gl l n leaf) = Some (hf_layer gl ''mlp.experts'', l, n, leaf)"
      using assms(2) by auto
    have step: "load_stacked loader experts params (hf_layer gl ''mlp.experts'', l, n, leaf) (S l) =
        Inr (pname, dict_set pname ?p params)"
      by (rule load_stack [OF assms(1) Cons.prems(2,3)]) (use Cons.prems in auto)
    have "\<exists>params'. route loader experts (dict_set pname ?p params) (map (\<lambda>l. (hf_stack gl l n leaf, S l)) ls) =
        Inr ([], map (\<lambda>_. pname) ls, params')
      \<and> map_of params' = (map_of (dict_set pname ?p params))(pname \<mapsto>
          ?p\<lparr>t_rows := fold (\<lambda>l. write_strided l n (t_rows (S l))) ls (t_rows ?p)\<rparr>)"
      by (rule Cons.IH) (use Cons.prems in \<open>auto simp: t_len_def\<close>)
    then show ?case using ne by (auto simp: st step)
  qed
qed

section \<open>Properties\<close>

definition stacked_stream ::
  "'e named \<Rightarrow> gpt_dims \<Rightarrow> mesh \<Rightarrow> bool \<Rightarrow> nat \<Rightarrow> nat \<Rightarrow> string \<Rightarrow> nat \<Rightarrow> 'e named result" where
  \<comment> \<open>what the trainer sends for the local expert \<open>le\<close> of a layer when the receiver takes stacks\<close>
  "stacked_stream hf d m g li lo fc le =
     bind_result (expert_locals hf d m (li + lo) le fc) (\<lambda>locals.
     bind_result (stage_expert (expert_param g li fc (show_nat le)) (num_experts d div m_ep m) lo True locals) (\<lambda>ys.
     bind_result (megatron_to_hf d 0 0 ys) (\<lambda>(zs, _). Inr zs)))"

lemma stacked_stream_ok:
  fixes hf :: "'e named"
  assumes "mesh_ok d m" "1 < m_ep m" "\<And>e. e < num_experts d \<Longrightarrow> expert_ok d hf (li + lo) e"
    "le < num_experts d div m_ep m" "fc = ''1'' \<or> fc = ''2''"
  shows "stacked_stream hf d m g li lo fc le =
    Inr [(hf_stack (li + lo) le (num_experts d div m_ep m) (stack_leaf fc),
      t_stack (map (\<lambda>j. expert_tensor hf (li + lo) (j * (num_experts d div m_ep m) + le) fc) [0..<m_ep m]))]"
proof -
  obtain ls where ls: "expert_locals hf d m (li + lo) le fc = Inr ls" "length ls = m_ep m"
    "map_result (etp_gather fc) ls =
        Inr (map (\<lambda>j. expert_tensor hf (li + lo) (j * (num_experts d div m_ep m) + le) fc) [0..<m_ep m])"
    using gathered_expert [OF assms(1,3,4)] by blast
  from stage_stacked [OF ls(3) assms(5)] assms(2) ls(2) show ?thesis
    by (simp add: stacked_stream_def ls(1) bridge_stack [OF assms(5)])
qed

lemma experts_gathered_and_sent:
  fixes hf :: "'e named"
  assumes "mesh_ok d m" "\<And>e. e < num_experts d \<Longrightarrow> expert_ok d hf (li + lo) e"
    "le < num_experts d div m_ep m" "fc = ''1'' \<or> fc = ''2''"
    "n = num_experts d div m_ep m"
    "out = concat (map (\<lambda>j. pick_names hf (proj_names (li + lo) fc (j * n + le))) [0..<m_ep m])"
  shows "(\<exists>locals xs. expert_locals hf d m (li + lo) le fc = Inr locals
      \<and> stage_expert (expert_param g li fc (show_nat le)) n lo False locals = Inr xs
      \<and> megatron_to_hf d 0 0 xs = Inr (out, []))
    \<and> (1 < m_ep m \<longrightarrow> bind_result (stacked_stream hf d m g li lo fc le) unstack_expert_weights = Inr out)"
proof -
  let ?T = "\<lambda>j. expert_tensor hf (li + lo) (j * n + le) fc"
  have ok: "expert_ok d hf (li + lo) (j * n + le)" if "j < m_ep m" for j
    using assms(2) global_expert [OF assms(1) that assms(3)] assms(5) by simp
  obtain ls where ls: "expert_locals hf d m (li + lo) le fc = Inr ls" "length ls = m_ep m"
    "map_result (etp_gather fc) ls = Inr (map ?T [0..<m_ep m])"
    using gathered_expert [OF assms(1-3)] assms(5) by blast
  have plain: "stage_expert (expert_param g li fc (show_nat le)) n lo False ls =
      Inr (map (\<lambda>j. (expert_param g (li + lo) fc (show_nat (j * n + le)), ?T j)) [0..<m_ep m])"
    by (rule stage_plain [OF ls(3) assms(4)])
  moreover have "megatron_to_hf d 0 0
      (map (\<lambda>j. (expert_param g (li + lo) fc (show_nat (j * n + le)), ?T j)) [0..<m_ep m]) = Inr (out, [])"
    unfolding assms(6) by (rule bridge_map, rule bridge_expert [OF ok assms(4)]) simp
  moreover have "bind_result (stacked_stream hf d m g li lo fc le) unstack_expert_weights = Inr out" if "1 < m_ep m"
    using unstack_experts [OF ok assms(4)] assms(6)
    by (simp only: stacked_stream_ok [OF assms(1) that assms(2,3,4)] bind_result_simps assms(5))
  ultimately show ?thesis using ls(1) by blast
qed

lemma stacks_fill:
  fixes hf :: "'e named"
  assumes "mesh_ok d m" "1 < m_ep m" "\<And>e. e < num_experts d \<Longrightarrow> expert_ok d hf (li + lo) e"
    "fc = ''1'' \<or> fc = ''2''"
    "unsharded_entry experts (li + lo) (stack_leaf fc) pname" "map_of params pname = Some p"
    "t_len p = num_experts d" "t_trail p = [fst (expert_cols d fc), snd (expert_cols d fc)]"
    "n = num_experts d div m_ep m"
  shows "\<exists>sent params' p'. map_result (stacked_stream hf d m g li lo fc) [0..<n] = Inr sent
    \<and> route loader experts params (concat sent) = Inr ([], replicate n pname, params')
    \<and> map_of params' = (map_of params)(pname \<mapsto> p')
    \<and> t_len p' = num_experts d \<and> (\<forall>e < num_experts d. t_sub e p' = full_expert hf (li + lo) e fc)"
proof -
  let ?k = "m_ep m" and ?T = "\<lambda>e. expert_tensor hf (li + lo) e fc"
  let ?S = "\<lambda>l. t_stack (map (\<lambda>j. ?T (j * n + l)) [0..<?k])"
  let ?sent = "map (\<lambda>l. (hf_stack (li + lo) l n (stack_leaf fc), ?S l)) [0..<n]"
  have total: "?k * n = num_experts d" using assms(1,9) by (simp add: mesh_ok_def)
  have T: "is_matrix (fst (expert_cols d fc)) (snd (expert_cols d fc)) (?T e)" if "e < num_experts d" for e
    using expert_tensor_ok [OF assms(3) [OF that]] by blast
  have sent: "map_result (stacked_stream hf d m g li lo fc) [0..<n] = Inr (map (\<lambda>x. [x]) ?sent)"
    unfolding map_map comp_def assms(9)
    by (rule map_result_total, rule stacked_stream_ok [OF assms(1-3) _ assms(4)]) simp_all
  have S: "t_trail (?S l) = t_trail p" "t_len (?S l) = ?k"
    "t_rows (?S l) = map (\<lambda>j. concat (t_rows (?T (j * n + l)))) [0..<?k]" if "l < n" for l
  proof -
    have "hd (map (\<lambda>j. ?T (j * n + l)) [0..<?k]) = ?T (0 * n + l)"
      by (rule hd_map_upt) (use assms(2) in simp)
    moreover have "l < num_experts d" using that assms(2) mult_le_mono1 [of 1 ?k n] unfolding total by simp
    ultimately show "t_trail (?S l) = t_trail p" "t_len (?S l) = ?k"
      "t_rows (?S l) = map (\<lambda>j. concat (t_rows (?T (j * n + l)))) [0..<?k]"
      using T [of l] assms(8) by (simp_all add: t_stack_def is_matrix_def t_len_def comp_def)
  qed
  let ?rows = "fold (\<lambda>l. write_strided l n (t_rows (?S l))) [0..<n] (t_rows p)"
  have "\<exists>params'. route loader experts params ?sent = Inr ([], map (\<lambda>_. pname) [0..<n], params')
    \<and> map_of params' = (map_of params)(pname \<mapsto> p\<lparr>t_rows := ?rows\<rparr>)"
    by (rule route_stacks [OF assms(5) _ assms(6), where k = ?k])
      (use S assms(4,7,8) total in \<open>auto simp: stack_leaf_def\<close>)
  then obtain params' where r: "route loader experts params ?sent = Inr ([], map (\<lambda>_. pname) [0..<n], params')"
    "map_of params' = (map_of params)(pname \<mapsto> p\<lparr>t_rows := ?rows\<rparr>)" by blast
  have len: "length ?rows = num_experts d"
  proof -
    have "length (fold (\<lambda>l. write_strided l n (t_rows (?S l))) ls ps) = length ps" for ls and ps :: "'e list list"
      by (induction ls arbitrary: ps) simp_all
    then show ?thesis using assms(7) by (simp add: t_len_def)
  qed
  have sub: "t_sub e (p\<lparr>t_rows := ?rows\<rparr>) = full_expert hf (li + lo) e fc" if e: "e < num_experts d" for e
  proof -
    have n: "0 < n" using e total by (cases n) simp_all
    have "?rows ! e = t_rows (?S (e mod n)) ! (e div n)"
      by (subst fold_write_strided [where k = ?k]) (use n e total S assms(7) in \<open>simp_all add: t_len_def\<close>)
    also have "\<dots> = concat (t_rows (?T e))"
    proof -
      have "e div n < ?k" using e total by (metis less_mult_imp_div_less)
      then show ?thesis using S(3) [of "e mod n"] n by simp
    qed
    finally have "?rows ! e = concat (t_rows (?T e))" .
    moreover have "cut_rows (fst (expert_cols d fc)) (snd (expert_cols d fc)) (concat (t_rows (?T e))) = t_rows (?T e)"
      using T [OF e] cut_rows_concat [of "t_rows (?T e)" "snd (expert_cols d fc)"]
      by (simp add: is_matrix_def wf_tensor_def list_all_iff t_len_def)
    ultimately have "t_sub e (p\<lparr>t_rows := ?rows\<rparr>) = Inr (?T e)"
      using T [OF e] len e assms(8) by (simp add: t_sub_def is_matrix_def tensor.equality)
    with expert_tensor_ok [OF assms(3) [OF e]] show ?thesis by simp
  qed
  have flat: "concat (map (\<lambda>x. [x]) xs) = xs" for xs :: "'e named" by (induction xs) simp_all
  have "route loader experts params (concat (map (\<lambda>x. [x]) ?sent)) = Inr ([], replicate n pname, params')"
    unfolding flat using r(1) by (simp only: map_replicate_const length_upt diff_zero)
  moreover have "t_len (p\<lparr>t_rows := ?rows\<rparr>) = num_experts d" using len by (simp add: t_len_def)
  ultimately show ?thesis using sent r(2) sub by blast
qed

end
