(* ===== verification/Bridge_Props.thy ===== *)
theory Bridge_Props
  imports Expert_Path
begin

text \<open>
  What the weight bridge guarantees from the checkpoint to the rollout engine: the parts of the ranks are
  exported back to the tensors they were loaded from and together are the checkpoint, the two ways of
  sending experts agree, stacks of experts fill the parameters of the rollout model, and the router of
  the receiver accounts for every tensor.
\<close>

section \<open>The ranks of a mesh\<close>

definition pp_layout :: "nat \<Rightarrow> nat \<Rightarrow> int option \<Rightarrow> int option \<Rightarrow> int list" where
  \<comment> \<open>\<open>_layers_per_pp_rank\<close> of \<open>megatron_engine.py\<close> for more than one stage\<close>
  "pp_layout layers pp first_n last_n =
     (if first_n \<noteq> None \<or> last_n \<noteq> None then
        let remaining = int layers - (case first_n of None \<Rightarrow> 0 | Some f \<Rightarrow> f) - (case last_n of None \<Rightarrow> 0 | Some l \<Rightarrow> l);
            mid = int pp - (if first_n \<noteq> None then 1 else 0) - (if last_n \<noteq> None then 1 else 0);
            per_mid = (if mid > 0 then remaining div mid else 0) in
        map (\<lambda>s. case (s = 0, first_n) of
                 (True, Some f) \<Rightarrow> f
               | _ \<Rightarrow> (case (s + 1 = pp, last_n) of (True, Some l) \<Rightarrow> l | _ \<Rightarrow> per_mid)) [0..<pp]
      else replicate pp (int (layers div pp)))"

definition rank_config :: "bool \<Rightarrow> bool \<Rightarrow> nat list \<Rightarrow> nat \<Rightarrow> nat \<Rightarrow> nat \<Rightarrow> load_config" where
  \<comment> \<open>the configuration of pipeline rank \<open>r\<close> and of expert rank \<open>e\<close> of \<open>ep\<close> for the layers per stage \<open>lay\<close>\<close>
  "rank_config te grouped lay r e ep = \<lparr>te_spec = te, ep_rank = e, ep_size = ep, pp_rank = r, pp_size = length lay,
     layers_per_pp_rank = Some lay, use_grouped_mlp = grouped\<rparr>"

definition model_names :: "gpt_dims \<Rightarrow> 'e named \<Rightarrow> string list" where
  \<comment> \<open>every tensor of the model\<close>
  "model_names d hf = top_names True True
     @ concat (map (\<lambda>i. attention_names hf i @ mlp_names d False [0..<num_experts d] i) [0..<num_layers d])"

definition first_layer :: "nat list \<Rightarrow> nat \<Rightarrow> nat" where
  "first_layer lay r = sum_list (take r lay)"

abbreviation rank_experts :: "gpt_dims \<Rightarrow> nat \<Rightarrow> nat \<Rightarrow> nat list" where
  "rank_experts d e ep \<equiv> [e * (num_experts d div ep)..<e * (num_experts d div ep) + num_experts d div ep]"

text \<open>The layout of the engine covers the layers exactly when what the middle stages share is divisible.\<close>

lemma sum_list_ends:
  assumes "2 \<le> n"
  shows "(\<Sum>s \<leftarrow> [0..<n]. if s = 0 then a else if s + 1 = n then b else c) = a + b + (int n - 2) * (c :: int)"
proof -
  obtain k where k: "n = Suc (Suc k)" using assms by (metis add_2_eq_Suc le_Suc_ex)
  let ?f = "\<lambda>s. if s = 0 then a else if s + 1 = n then b else c"
  have "map ?f [1..<Suc k] = replicate k c" by (rule nth_equalityI) (simp_all add: k nth_upt del: upt_Suc)
  moreover have "[0..<n] = 0 # [1..<Suc k] @ [Suc k]" unfolding k by (simp add: upt_conv_Cons)
  ultimately show ?thesis using k by (simp add: sum_list_replicate)
qed

lemma sum_list_int: "sum_list (map int xs) = int (sum_list xs)"
  by (induction xs) simp_all

lemma mult_div_dvd: "a * (b div a) = b \<longleftrightarrow> a dvd b" for a b :: int
  using minus_mod_eq_mult_div [of b a] by (auto simp: dvd_eq_mod_eq_0)

lemma pp_layout_total:
  assumes "2 \<le> pp"
  shows "sum_list (pp_layout layers pp first_n last_n) = int layers \<longleftrightarrow>
    int pp - (if first_n = None then 0 else 1) - (if last_n = None then 0 else 1)
      dvd int layers - (case first_n of None \<Rightarrow> 0 | Some f \<Rightarrow> f) - (case last_n of None \<Rightarrow> 0 | Some l \<Rightarrow> l)"
proof (cases "first_n = None \<and> last_n = None")
  case True
  with assms show ?thesis using mult_div_dvd [of "int pp" "int layers"]
    by (simp add: pp_layout_def sum_list_replicate zdiv_int)
next
  case False
  let ?rest = "int layers - (case first_n of None \<Rightarrow> 0 | Some f \<Rightarrow> f) - (case last_n of None \<Rightarrow> 0 | Some l \<Rightarrow> l)"
  let ?mid = "int pp - (if first_n = None then 0 else 1) - (if last_n = None then 0 else 1)"
  let ?per = "if ?mid > 0 then ?rest div ?mid else 0"
  let ?a = "case first_n of None \<Rightarrow> ?per | Some f \<Rightarrow> f" and ?b = "case last_n of None \<Rightarrow> ?per | Some l \<Rightarrow> l"
  have "pp_layout layers pp first_n last_n = map (\<lambda>s. if s = 0 then ?a else if s + 1 = pp then ?b else ?per) [0..<pp]"
    using False assms by (auto simp: pp_layout_def Let_def split: option.split)
  then have sum: "sum_list (pp_layout layers pp first_n last_n) = ?a + ?b + (int pp - 2) * ?per"
    by (simp only: sum_list_ends [OF assms])
  have "?a + ?b + (int pp - 2) * ?per = int layers - ?rest + ?mid * ?per"
  proof -
    have "p + q + (m - 2) * r = n - (n - f - l) + (m - (if x then 0 else 1) - (if y then 0 else 1)) * r"
      if "p = (if x then r else f)" "q = (if y then r else l)" "x \<longrightarrow> f = 0" "y \<longrightarrow> l = 0"
      for p q m n r f l :: int and x y using that by (cases x; cases y) (simp_all add: algebra_simps)
    from this [of ?a "first_n = None" ?per "case first_n of None \<Rightarrow> 0 | Some f \<Rightarrow> f" ?b "last_n = None"
        "case last_n of None \<Rightarrow> 0 | Some l \<Rightarrow> l" "int pp" "int layers"]
    show ?thesis by (cases first_n; cases last_n) simp_all
  qed
  then have "sum_list (pp_layout layers pp first_n last_n) = int layers \<longleftrightarrow> ?mid * ?per = ?rest"
    unfolding sum by linarith
  also have "\<dots> \<longleftrightarrow> ?mid dvd ?rest"
  proof (cases "?mid > 0")
    case False
    then have "?mid = 0" using assms by (auto split: if_splits)
    then show ?thesis by auto
  qed (simp only: if_True mult_div_dvd)
  finally show ?thesis .
qed

lemma stages_cover: "(\<Union>r \<in> {..<length lay}. set [first_layer lay r..<first_layer lay r + lay ! r]) = {..<sum_list lay}"
proof (induction lay rule: rev_induct)
  case (snoc x lay)
  have "(\<Union>r \<in> {..<length lay}. set [first_layer (lay @ [x]) r..<first_layer (lay @ [x]) r + (lay @ [x]) ! r])
      = {..<sum_list lay}"
    unfolding snoc.IH [symmetric] by (rule SUP_cong) (simp_all add: first_layer_def nth_append)
  then show ?case by (auto simp: lessThan_Suc first_layer_def)
qed simp

lemma stage_bound: "r < length lay \<Longrightarrow> first_layer lay r + lay ! r \<le> sum_list lay"
  using id_take_nth_drop [of r lay] by (metis first_layer_def le_add1 sum_list.Cons sum_list.append add.assoc)

lemma stage_range:
  assumes "r < length lay" "sum_list lay = n"
  shows "pp_layer_range n r (length lay) (Some lay) = Inr (first_layer lay r, lay ! r)"
proof (cases "length lay = 1")
  case True
  then obtain x where "lay = [x]" by (cases lay) auto
  with assms show ?thesis by (simp add: pp_layer_range_def first_layer_def)
next
  case False
  with assms show ?thesis by (simp add: pp_layer_range_def first_layer_def py_index_def)
qed

lemma block_bound: "(r::nat) < p \<Longrightarrow> r * (n div p) + n div p \<le> n"
proof -
  assume "r < p"
  then have "Suc r * (n div p) \<le> p * (n div p)" by (intro mult_le_mono1) simp
  also have "\<dots> \<le> n" by simp
  finally show ?thesis by simp
qed

lemma blocks_cover:
  assumes "0 < (p::nat)" "p dvd n"
  shows "(\<Union>r \<in> {..<p}. set [r * (n div p)..<r * (n div p) + n div p]) = {..<n}"
proof
  show "(\<Union>r \<in> {..<p}. set [r * (n div p)..<r * (n div p) + n div p]) \<subseteq> {..<n}"
    using block_bound [of _ p n] by fastforce
  show "{..<n} \<subseteq> (\<Union>r \<in> {..<p}. set [r * (n div p)..<r * (n div p) + n div p])"
  proof
    fix x assume "x \<in> {..<n}"
    let ?q = "n div p"
    have q: "p * ?q = n" "0 < ?q" using assms \<open>x \<in> {..<n}\<close> by (auto intro!: Nat.gr0I)
    have "x div ?q < p" using q \<open>x \<in> {..<n}\<close> by (simp add: less_mult_imp_div_less mult.commute)
    moreover have "x div ?q * ?q \<le> x" "x < x div ?q * ?q + ?q"
      using dividend_less_div_times [OF q(2), of x] by (simp_all add: add.commute)
    ultimately show "x \<in> (\<Union>r \<in> {..<p}. set [r * ?q..<r * ?q + ?q])" by (auto intro!: bexI [of _ "x div ?q"])
  qed
qed

lemma rank_export:
  fixes hf :: "'e named"
  assumes "dims_ok d" "checkpoint_ok d hf" "sum_list lay = num_layers d" "r < length lay" "e < ep" "ep dvd num_experts d"
  shows "\<exists>meg. hf_to_megatron hf d (rank_config te grouped lay r e ep) = Inr meg
    \<and> megatron_to_hf d (first_layer lay r) (e * (num_experts d div ep)) meg =
        Inr (pick_names hf (rank_names d (rank_config te grouped lay r e ep) hf
          (first_layer lay r) (lay ! r) (rank_experts d e ep)), [])"
proof -
  have "\<exists>meg. hf_to_megatron hf d (rank_config te grouped lay r e ep) = Inr meg \<and> distinct (dict_keys meg)
    \<and> megatron_to_hf d (first_layer lay r) (e * (num_experts d div ep)) meg =
        Inr (pick_names hf (rank_names d (rank_config te grouped lay r e ep) hf
          (first_layer lay r) (lay ! r) (rank_experts d e ep)), [])"
  proof (rule load_export [OF assms(1,2)])
    show "pp_layer_range (num_layers d) (pp_rank (rank_config te grouped lay r e ep))
        (pp_size (rank_config te grouped lay r e ep)) (layers_per_pp_rank (rank_config te grouped lay r e ep)) =
        Inr (first_layer lay r, lay ! r)"
      using stage_range [OF assms(4,3)] by (simp add: rank_config_def)
    show "local_experts d (rank_config te grouped lay r e ep) = Inr (rank_experts d e ep)"
      using assms(5) by (simp add: local_experts_def rank_config_def Let_def)
    show "0 < num_experts d div ep" if "num_experts d > 0"
      using assms(5,6) that by (auto simp: dvd_def)
  qed (use assms block_bound stage_bound [OF assms(4)] in auto)
  then show ?thesis by blast
qed

lemma set_mlp_names:
  "set (mlp_names d grouped es i) =
     (if num_experts d > 0 then insert (hf_layer i ''mlp.gate.weight'') (set (shared_names d i)
        \<union> (\<Union>e \<in> set es. hf_expert i e ` {''gate_proj.weight'', ''up_proj.weight'', ''down_proj.weight''}))
      else hf_layer i ` {''mlp.gate_proj.weight'', ''mlp.up_proj.weight'', ''mlp.down_proj.weight''})"
  by (auto simp: mlp_names_def grouped_names_def)

lemma set_mlp_names_ranks:
  assumes "0 < ep" "ep dvd num_experts d"
  shows "(\<Union>e \<in> {..<ep}. set (mlp_names d grouped (rank_experts d e ep) i)) =
    set (mlp_names d False [0..<num_experts d] i)"
proof -
  have cover: "(\<Union>e \<in> {..<ep}. \<Union>x \<in> set (rank_experts d e ep). f x) = (\<Union>x \<in> set [0..<num_experts d]. f x)"
    for f :: "nat \<Rightarrow> string set"
  proof -
    have "(\<Union>x \<in> set [0..<num_experts d]. f x) = (\<Union>x \<in> (\<Union>e \<in> {..<ep}. set (rank_experts d e ep)). f x)"
      unfolding blocks_cover [OF assms] by auto
    then show ?thesis by blast
  qed
  have "(\<Union>e \<in> {..<ep}. insert a (B \<union> C e)) = insert a (B \<union> (\<Union>e \<in> {..<ep}. C e))" for a :: string and B C
    using assms(1) by auto
  moreover have "(\<Union>e \<in> {..<ep}. B) = B" for B :: "string set" using assms(1) by auto
  ultimately show ?thesis by (cases "num_experts d > 0") (simp_all only: set_mlp_names cover if_True if_False)
qed

lemma set_top_names_ranks:
  assumes "0 < (pp::nat)"
  shows "(\<Union>r \<in> {..<pp}. set (top_names (r = 0) (r + 1 = pp))) = set (top_names True True)"
proof -
  have split: "set (top_names a b) = (if a then set (top_names True False) else {}) \<union> (if b then set (top_names False True) else {})"
    for a b by (auto simp: top_names_def)
  have "(\<Union>r \<in> {..<pp}. (if r = 0 then A else {}) \<union> (if r + 1 = pp then B else {})) = A \<union> B" for A B :: "string set"
  proof (rule set_eqI)
    fix x
    have "\<exists>r<pp. r + 1 = pp" using assms by (intro exI [of _ "pp - 1"]) simp
    then show "x \<in> (\<Union>r \<in> {..<pp}. (if r = 0 then A else {}) \<union> (if r + 1 = pp then B else {})) \<longleftrightarrow> x \<in> A \<union> B"
      using assms by (auto split: if_splits)
  qed
  then show ?thesis unfolding split [of "_ = _"] split [of True True] by simp
qed

lemma rank_names_cover:
  assumes "lay \<noteq> []" "sum_list lay = num_layers d" "0 < ep" "ep dvd num_experts d"
  shows "(\<Union>r \<in> {..<length lay}. \<Union>e \<in> {..<ep}. set (rank_names d (rank_config te grouped lay r e ep) hf
      (first_layer lay r) (lay ! r) (rank_experts d e ep))) = set (model_names d hf)"
proof -
  have pos: "0 < length lay" using assms(1) by simp
  have one: "(\<Union>e \<in> {..<ep}. set (rank_names d (rank_config te grouped lay r e ep) hf
      (first_layer lay r) (lay ! r) (rank_experts d e ep))) =
    set (top_names (r = 0) (r + 1 = length lay)) \<union> (\<Union>i \<in> set [first_layer lay r..<first_layer lay r + lay ! r].
      set (attention_names hf i) \<union> set (mlp_names d False [0..<num_experts d] i))" (is "_ = _ \<union> (\<Union>i \<in> ?L. _)") for r
  proof -
    have "(\<Union>e \<in> {..<ep}. T \<union> (\<Union>i \<in> ?L. A i \<union> M e i)) = T \<union> (\<Union>i \<in> ?L. A i \<union> (\<Union>e \<in> {..<ep}. M e i))"
      for T :: "string set" and A M using assms(3) by auto
    then show ?thesis
      by (simp only: rank_names_def rank_config_def load_config.simps set_append set_concat set_map
          image_image set_mlp_names_ranks [OF assms(3,4), of grouped])
  qed
  have flat: "(\<Union>r \<in> {..<length lay}. T r \<union> (\<Union>i \<in> L r. N i)) = (\<Union>r \<in> {..<length lay}. T r) \<union> (\<Union>i \<in> (\<Union>r \<in> {..<length lay}. L r). N i)"
    for T :: "nat \<Rightarrow> string set" and L :: "nat \<Rightarrow> nat set" and N by blast
  show ?thesis
    unfolding one flat set_top_names_ranks [OF pos] stages_cover assms(2)
    by (simp only: model_names_def set_append set_concat set_map image_image set_upt lessThan_atLeast0)
qed

section \<open>What the router loads\<close>

definition routed :: "(string, expert_entry) dict \<Rightarrow> string \<Rightarrow> bool" where
  \<comment> \<open>the router takes the tensor of that name\<close>
  "routed experts name \<longleftrightarrow> experts \<noteq> [] \<and>
     (stacked name \<noteq> None \<or>
      (case rpartition_dot name of (pre, leaf) \<Rightarrow>
         leaf \<in> {''gate_up_proj'', ''down_proj''} \<and> map_of experts pre \<noteq> None))"

lemma dict_keys_set [simp]: "k \<in> set (dict_keys d) \<Longrightarrow> dict_keys (dict_set k v d) = dict_keys d"
  by (simp add: update_keys)

definition loads_one :: "'e named \<Rightarrow> string \<times> 'e named \<Rightarrow> bool" where
  "loads_one params r \<longleftrightarrow> (case r of (pname, params') \<Rightarrow>
     pname \<in> set (dict_keys params) \<and> (\<exists>v. params' = dict_set pname v params))"

lemma map_of_key: "map_of d k = Some v \<Longrightarrow> k \<in> set (dict_keys d)"
  by (force dest: map_of_SomeD)

lemma loads_oneD:
  "loads_one params (pname, params1) \<Longrightarrow> pname \<in> set (dict_keys params) \<and> dict_keys params1 = dict_keys params
    \<and> (\<forall>k. k \<noteq> pname \<longrightarrow> map_of params1 k = map_of params k)"
  by (force simp: loads_one_def update_keys)

lemma load_stacked_loads:
  "load_stacked loader experts params st t = Inr r \<Longrightarrow> loads_one params r"
  by (auto simp: load_stacked_def loads_one_def  Let_def dest!: map_of_key [simplified] split: prod.splits option.splits if_splits)

lemma load_fused_loads:
  "load_fused loader params ent leaf t = Inr r \<Longrightarrow> loads_one params r"
  by (auto simp: load_fused_def loads_one_def  Let_def dest!: map_of_key [simplified] split: prod.splits if_splits)

lemma route_taken:
  assumes "routed experts name" "route loader experts params ((name, t) # weights) = Inr (rest, loaded, params')"
  shows "\<exists>pname params1 loaded'. loads_one params (pname, params1)
    \<and> route loader experts params1 weights = Inr (rest, loaded', params') \<and> loaded = pname # loaded'"
proof (cases "stacked name")
  case None
  obtain pre leaf where p: "rpartition_dot name = (pre, leaf)" by fastforce
  obtain ent where e: "map_of experts pre = Some ent" "leaf \<in> {''gate_up_proj'', ''down_proj''}" "experts \<noteq> []"
    using assms(1) None p by (auto simp: routed_def)
  obtain pname params1 loaded' where "load_fused loader params ent leaf t = Inr (pname, params1)"
    "route loader experts params1 weights = Inr (rest, loaded', params')" "loaded = pname # loaded'"
    using assms(2) e by (auto simp: None p)
  with load_fused_loads show ?thesis by blast
next
  case (Some st)
  have "experts \<noteq> []" using assms(1) by (simp add: routed_def)
  then obtain pname params1 loaded' where "load_stacked loader experts params st t = Inr (pname, params1)"
    "route loader experts params1 weights = Inr (rest, loaded', params')" "loaded = pname # loaded'"
    using assms(2) by (auto simp: Some)
  with load_stacked_loads show ?thesis by blast
qed

lemma route_loads:
  assumes "route loader experts params weights = Inr (rest, loaded, params')"
  shows "rest = filter (\<lambda>(name, _). \<not> routed experts name) weights
    \<and> length rest + length loaded = length weights
    \<and> dict_keys params' = dict_keys params \<and> set loaded \<subseteq> set (dict_keys params)
    \<and> (\<forall>k. k \<notin> set loaded \<longrightarrow> map_of params' k = map_of params k)"
  using assms
proof (induction weights arbitrary: params rest loaded params')
  case (Cons w weights)
  obtain name t where w: "w = (name, t)" by (cases w)
  obtain pre leaf where p: "rpartition_dot name = (pre, leaf)" by fastforce
  consider (none) "experts = []" | (skip) "experts \<noteq> []" "\<not> routed experts name"
    | (take) "routed experts name" by blast
  then show ?case
  proof cases
    case none
    then show ?thesis using Cons.prems by (auto simp: w routed_def filter_id_conv)
  next
    case skip
    then show ?thesis using Cons.prems Cons.IH [of params]
      by (auto simp: w p routed_def  split: if_splits option.splits)
  next
    case take
    obtain pname params1 loaded' where one: "loads_one params (pname, params1)"
      "route loader experts params1 weights = Inr (rest, loaded', params')" "loaded = pname # loaded'"
      using route_taken [OF take Cons.prems [unfolded w]] by blast
    from Cons.IH [OF one(2)] loads_oneD [OF one(1)] take one(3) show ?thesis by (auto simp: w)
  qed
qed auto

lemma missing_parameters_iff:
  "k \<in> set (missing_parameters params loaded) \<longleftrightarrow> k \<in> set params
     \<and> \<not> list_ex (\<lambda>suf. has_suffix suf k) coverage_ignore_suffixes \<and> set loaded \<inter> set (coverage_aliases k) = {}"
  by (auto simp: missing_parameters_def)

section \<open>A small checkpoint\<close>

definition sample_dims :: gpt_dims where
  "sample_dims = \<lparr>num_layers = 2, hidden = 2, num_heads = 2, num_kv_groups = 1, head_dim = 1, ffn = 2, vocab = 3,
     num_experts = 2, moe_ffn = 2, shared_expert_ffn = 0, shared_expert_gate = False\<rparr>"

definition sample_matrix :: "nat \<Rightarrow> nat \<Rightarrow> nat \<Rightarrow> nat tensor" where
  "sample_matrix k n m = \<lparr>t_trail = [m], t_rows = map (\<lambda>i. map (\<lambda>j. k + i * m + j) [0..<m]) [0..<n]\<rparr>"

definition sample_layer :: "nat \<Rightarrow> nat named" where
  "sample_layer i =
     [(hf_layer i ''input_layernorm.weight'', sample_matrix i 2 1),
      (hf_layer i ''self_attn.q_proj.weight'', sample_matrix i 2 2),
      (hf_layer i ''self_attn.k_proj.weight'', sample_matrix (10 + i) 1 2),
      (hf_layer i ''self_attn.v_proj.weight'', sample_matrix (20 + i) 1 2),
      (hf_layer i ''self_attn.o_proj.weight'', sample_matrix (30 + i) 2 2),
      (hf_layer i ''post_attention_layernorm.weight'', sample_matrix (40 + i) 2 1),
      (hf_layer i ''mlp.gate.weight'', sample_matrix (50 + i) 2 2)]
     @ concat (map (\<lambda>e. [(hf_expert i e ''gate_proj.weight'', sample_matrix (60 + 20 * e + i) 2 2),
      (hf_expert i e ''up_proj.weight'', sample_matrix (65 + 20 * e + i) 2 2),
      (hf_expert i e ''down_proj.weight'', sample_matrix (70 + 20 * e + i) 2 2)]) [0..<2])"

definition sample_checkpoint :: "nat named" where
  "sample_checkpoint =
     [(''model.embed_tokens.weight'', sample_matrix 0 3 2), (''model.norm.weight'', sample_matrix 1 2 1),
      (''lm_head.weight'', sample_matrix 2 3 2)] @ sample_layer 0 @ sample_layer 1"



lemma sample_ok: "dims_ok sample_dims" "checkpoint_ok sample_dims sample_checkpoint"
  by code_simp+

lemma sample_experts: "e < num_experts sample_dims \<Longrightarrow> expert_ok sample_dims sample_checkpoint 1 e"
proof -
  assume e: "e < num_experts sample_dims"
  have "1 \<in> set [0..<num_layers sample_dims]" by (simp add: sample_dims_def)
  then have "mlp_ok sample_dims sample_checkpoint 1"
    using sample_ok(2) unfolding checkpoint_ok_def by blast
  with e show ?thesis by (auto simp: mlp_ok_def split: if_splits)
qed

definition sample_module :: fused_module where
  "sample_module = \<lparr>fm_name = ''model.layers.1.mlp.experts'', fm_has_loader = True,
     fm_owned = [''w13_weight'', ''w2_weight''], fm_ep = 1, fm_tp = 1, fm_act_and_mul = True\<rparr>"

definition sample_params :: "nat named" where
  "sample_params =
     [(''model.layers.1.mlp.experts.w13_weight'', \<lparr>t_trail = [4, 2], t_rows = replicate 2 (replicate 8 0)\<rparr>),
      (''model.layers.1.mlp.experts.w2_weight'', \<lparr>t_trail = [2, 2], t_rows = replicate 2 (replicate 4 0)\<rparr>)]"

section \<open>Properties\<close>

text \<open>C7: Whatever the mesh and the module layout, a rank that loads its part of a complete checkpoint and
  exports it again gets the tensors of the checkpoint for its layers and experts, under their own names
  and in order, with nothing left over.\<close>

theorem load_export_round_trip:
  fixes hf :: "'e named"
  assumes "dims_ok d" "checkpoint_ok d hf"
    "pp_layer_range (num_layers d) (pp_rank c) (pp_size c) (layers_per_pp_rank c) = Inr (lo, n)"
    "lo + n \<le> num_layers d" "local_experts d c = Inr [eo..<eo + m]" "eo + m \<le> num_experts d"
    "use_grouped_mlp c \<Longrightarrow> num_experts d > 0 \<Longrightarrow> 0 < m"
  shows "\<exists>meg. hf_to_megatron hf d c = Inr meg \<and> distinct (dict_keys meg)
    \<and> megatron_to_hf d lo eo meg = Inr (pick_names hf (rank_names d c hf lo n [eo..<eo + m]), [])"
  by (rule load_export [OF assms])

lemma load_export_round_trip_witness:
  "let c = \<lparr>te_spec = True, ep_rank = 1, ep_size = 2, pp_rank = 1, pp_size = 2,
        layers_per_pp_rank = Some [1, 1], use_grouped_mlp = True\<rparr> in
    \<exists>meg. hf_to_megatron sample_checkpoint sample_dims c = Inr meg \<and> distinct (dict_keys meg)
    \<and> megatron_to_hf sample_dims 1 1 meg =
        Inr (pick_names sample_checkpoint (rank_names sample_dims c sample_checkpoint 1 1 [1..<1 + 1]), [])"
  unfolding Let_def
  by (rule load_export_round_trip [OF sample_ok])
    (simp_all add: sample_dims_def pp_layer_range_def local_experts_def py_index_def Let_def)

text \<open>C8: For every division of the layers over the pipeline stages and every expert parallel size that divides
  the experts, the exports of all ranks together are exactly the tensors of the model, each as it is in
  the checkpoint. The division the engine makes is one exactly when the stages without a fixed
  number of layers share the remaining layers evenly; otherwise layers are dropped or asked for twice.\<close>

theorem exports_cover_checkpoint:
  fixes hf :: "'e named"
  assumes "dims_ok d" "checkpoint_ok d hf" "0 < ep" "ep dvd num_experts d"
    "2 \<le> pp" "map int lay = pp_layout (num_layers d) pp first_n last_n"
    "int pp - (if first_n = None then 0 else 1) - (if last_n = None then 0 else 1)
      dvd int (num_layers d) - (case first_n of None \<Rightarrow> 0 | Some f \<Rightarrow> f) - (case last_n of None \<Rightarrow> 0 | Some l \<Rightarrow> l)"
  shows "\<exists>out. (\<forall>r < pp. \<forall>e < ep. \<exists>meg. hf_to_megatron hf d (rank_config te grouped lay r e ep) = Inr meg
      \<and> megatron_to_hf d (first_layer lay r) (e * (num_experts d div ep)) meg = Inr (out r e, []))
    \<and> (\<Union>r \<in> {..<pp}. \<Union>e \<in> {..<ep}. set (out r e)) = set (pick_names hf (model_names d hf))"
proof -
  have "length (map int lay) = pp" unfolding assms(6) by (simp add: pp_layout_def Let_def)
  then have len: "pp = length lay" by simp
  then have ne: "lay \<noteq> []" using assms(5) by auto
  have "int (sum_list lay) = int (num_layers d)"
    using pp_layout_total [OF assms(5), of "num_layers d" first_n last_n] assms(7) unfolding assms(6) [symmetric]
    by (simp add: sum_list_int)
  then have sum: "sum_list lay = num_layers d" by simp
  let ?out = "\<lambda>r e. pick_names hf (rank_names d (rank_config te grouped lay r e ep) hf
      (first_layer lay r) (lay ! r) (rank_experts d e ep))"
  have pick: "set (pick_names hf ns) = (\<lambda>n. (n, the (map_of hf n))) ` set ns" for ns by (simp add: pick_names_def)
  have covered: "(\<Union>r \<in> {..<pp}. \<Union>e \<in> {..<ep}. set (?out r e)) = set (pick_names hf (model_names d hf))"
    unfolding pick image_UN [symmetric] len by (simp only: rank_names_cover [OF ne sum assms(3,4)])
  have exported: "\<forall>r < pp. \<forall>e < ep. \<exists>meg. hf_to_megatron hf d (rank_config te grouped lay r e ep) = Inr meg
      \<and> megatron_to_hf d (first_layer lay r) (e * (num_experts d div ep)) meg = Inr (?out r e, [])"
    unfolding len using rank_export [OF assms(1,2) sum _ _ assms(4)] by blast
  from exported covered show ?thesis by (intro exI [of _ ?out]) (rule conjI)
qed

lemma exports_cover_checkpoint_witness:
  "\<exists>out. (\<forall>r < 2. \<forall>e < 2. \<exists>meg. hf_to_megatron sample_checkpoint sample_dims (rank_config True False [1, 1] r e 2) = Inr meg
      \<and> megatron_to_hf sample_dims (first_layer [1, 1] r) (e * (num_experts sample_dims div 2)) meg = Inr (out r e, []))
    \<and> (\<Union>r \<in> {..<2}. \<Union>e \<in> {..<2}. set (out r e)) = set (pick_names sample_checkpoint (model_names sample_dims sample_checkpoint))"
  by (rule exports_cover_checkpoint [OF sample_ok, where first_n = "Some 1" and last_n = None])
    (simp_all add: sample_dims_def pp_layout_def upt_conv_Cons)

lemma uneven_stages_drop_layers: "sum_list (pp_layout 5 2 None None) = 4" "sum_list (pp_layout 8 4 (Some 1) None) = 7"
  by code_simp+

text \<open>C9: Gathering the shards of a local expert parameter over expert and expert-tensor ranks and exporting
  them gives the projections of the experts of the checkpoint with the global indices
  \<open>j * local + le\<close>; sending the experts as one stack and unstacking them on the other side gives the same.\<close>

theorem expert_routes_agree:
  fixes hf :: "'e named"
  assumes "mesh_ok d m" "\<And>e. e < num_experts d \<Longrightarrow> expert_ok d hf (li + lo) e"
    "le < num_experts d div m_ep m" "fc = ''1'' \<or> fc = ''2''"
    "n = num_experts d div m_ep m"
    "out = concat (map (\<lambda>j. pick_names hf (proj_names (li + lo) fc (j * n + le))) [0..<m_ep m])"
  shows "(\<exists>locals xs. expert_locals hf d m (li + lo) le fc = Inr locals
      \<and> stage_expert (expert_param g li fc (show_nat le)) n lo False locals = Inr xs
      \<and> megatron_to_hf d 0 0 xs = Inr (out, []))
    \<and> (1 < m_ep m \<longrightarrow> bind_result (stacked_stream hf d m g li lo fc le) unstack_expert_weights = Inr out)"
  by (rule experts_gathered_and_sent [OF assms])

lemma expert_routes_agree_witness:
  "let m = \<lparr>m_ep = 2, m_etp = 2\<rparr>; out = concat (map (\<lambda>j. pick_names sample_checkpoint (proj_names 1 ''1'' j)) [0..<2]) in
    (\<exists>locals xs. expert_locals sample_checkpoint sample_dims m 1 0 ''1'' = Inr locals
      \<and> stage_expert (expert_param True 0 ''1'' (show_nat 0)) 1 1 False locals = Inr xs
      \<and> megatron_to_hf sample_dims 0 0 xs = Inr (out, []))
    \<and> bind_result (stacked_stream sample_checkpoint sample_dims m True 0 1 ''1'' 0) unstack_expert_weights = Inr out"
  using expert_routes_agree [where d = sample_dims and m = "\<lparr>m_ep = 2, m_etp = 2\<rparr>" and hf = sample_checkpoint
      and li = 0 and lo = 1 and le = 0 and fc = "''1''" and n = 1 and g = True, OF _ _ _ _ _ refl]
    sample_experts by (simp add: sample_dims_def mesh_ok_def)


text \<open>C10: If the receiver's expert layer of a layer is not sharded, routing the stacks of all local experts of the
  trainer fills its parameter: every stack is loaded, nothing is left over, and row \<open>e\<close> of the parameter
  is the fused projection of expert \<open>e\<close> of the checkpoint, for every expert.\<close>

theorem stacks_reach_rollout:
  fixes hf :: "'e named"
  assumes "mesh_ok d m" "1 < m_ep m" "\<And>e. e < num_experts d \<Longrightarrow> expert_ok d hf (li + lo) e"
    "fc = ''1'' \<or> fc = ''2''"
    "unsharded_entry experts (li + lo) (stack_leaf fc) pname" "map_of params pname = Some p"
    "t_len p = num_experts d" "t_trail p = [fst (expert_cols d fc), snd (expert_cols d fc)]"
    "n = num_experts d div m_ep m"
  shows "\<exists>sent params' p'. map_result (stacked_stream hf d m g li lo fc) [0..<n] = Inr sent
    \<and> route loader experts params (concat sent) = Inr ([], replicate n pname, params')
    \<and> map_of params' = (map_of params)(pname \<mapsto> p')
    \<and> t_len p' = num_experts d \<and> (\<forall>e < num_experts d. t_sub e p' = full_expert hf (li + lo) e fc)"
  by (rule stacks_fill [OF assms])

lemma stacks_reach_rollout_witness:
  "let d = sample_dims; m = \<lparr>m_ep = 2, m_etp = 1\<rparr>; pname = ''model.layers.1.mlp.experts.w13_weight'' in
    \<exists>sent params' p'. map_result (stacked_stream sample_checkpoint d m True 0 1 ''1'') [0..<1] = Inr sent
    \<and> route (\<lambda>m p s e x y. (y, True)) (expert_modules [sample_module]) sample_params (concat sent) =
        Inr ([], replicate 1 pname, params')
    \<and> map_of params' = (map_of sample_params)(pname \<mapsto> p')
    \<and> t_len p' = 2 \<and> (\<forall>e < 2. t_sub e p' = full_expert sample_checkpoint 1 e ''1'')"
proof -
  let ?p = "''model.layers.1.mlp.experts.w13_weight''"
  have u: "unsharded_entry (expert_modules [sample_module]) (0 + 1) (stack_leaf ''1'') ?p" by code_simp
  have p: "map_of sample_params ?p = Some \<lparr>t_trail = [4, 2], t_rows = replicate 2 (replicate 8 0)\<rparr>"
    by (simp add: sample_params_def)
  show ?thesis
    unfolding Let_def
    using stacks_reach_rollout [where d = sample_dims and m = "\<lparr>m_ep = 2, m_etp = 1\<rparr>" and hf = sample_checkpoint
        and li = 0 and lo = 1 and fc = "''1''" and n = 1 and g = True and loader = "\<lambda>m p s e x y. (y, True)",
        OF _ _ _ _ u p]
      sample_experts by (simp add: sample_dims_def mesh_ok_def expert_cols_def t_len_def)
qed

text \<open>C11: The router drops no tensor: each one is either loaded or left for the model in the order it came,
  according to its name alone; only loaded parameters change and no parameter appears or disappears.
  The check after the sync then raises, unless it is off or only warns, exactly when some parameter
  that is not a quantisation constant was reported by neither the router nor the model, under its own
  name or the one without the container segment.\<close>

theorem router_accounts_for_tensors:
  assumes "route loader experts params weights = Inr (rest, loaded, params')"
  shows "rest = filter (\<lambda>(name, _). \<not> routed experts name) weights
    \<and> length rest + length loaded = length weights
    \<and> dict_keys params' = dict_keys params \<and> set loaded \<subseteq> set (dict_keys params)
    \<and> (\<forall>k. k \<notin> set loaded \<longrightarrow> map_of params' k = map_of params k)
    \<and> (assert_weight_sync_coverage mode (dict_keys params') (loaded @ model_loaded) = Inl RuntimeError \<longleftrightarrow>
        py_lower mode \<notin> {''off'', ''warn''} \<and>
        (\<exists>k \<in> set (dict_keys params). \<not> list_ex (\<lambda>suf. has_suffix suf k) coverage_ignore_suffixes
          \<and> (set loaded \<union> set model_loaded) \<inter> set (coverage_aliases k) = {}))"
proof -
  from route_loads [OF assms] have r: "rest = filter (\<lambda>(name, _). \<not> routed experts name) weights"
    "length rest + length loaded = length weights" "dict_keys params' = dict_keys params"
    "set loaded \<subseteq> set (dict_keys params)" "\<forall>k. k \<notin> set loaded \<longrightarrow> map_of params' k = map_of params k" by auto
  have "missing_parameters (dict_keys params) (loaded @ model_loaded) \<noteq> [] \<longleftrightarrow>
      (\<exists>k. k \<in> set (missing_parameters (dict_keys params) (loaded @ model_loaded)))"
    by (cases "missing_parameters (dict_keys params) (loaded @ model_loaded)") auto
  then have "assert_weight_sync_coverage mode (dict_keys params') (loaded @ model_loaded) = Inl RuntimeError \<longleftrightarrow>
        py_lower mode \<notin> {''off'', ''warn''} \<and>
        (\<exists>k \<in> set (dict_keys params). \<not> list_ex (\<lambda>suf. has_suffix suf k) coverage_ignore_suffixes
          \<and> (set loaded \<union> set model_loaded) \<inter> set (coverage_aliases k) = {})"
    unfolding r(3) missing_parameters_iff by (auto simp: assert_weight_sync_coverage_def)
  with r show ?thesis by blast
qed

lemma router_accounts_for_tensors_witness:
  "\<exists>params' :: nat named. dict_keys params' = dict_keys sample_params
    \<and> assert_weight_sync_coverage ''error'' (dict_keys params') ([''model.layers.1.mlp.experts.w13_weight''] @ []) = Inl RuntimeError"
proof -
  let ?w = "[(''model.layers.1.mlp.experts.0::1.gate_up_proj'', hd (map snd sample_params)),
     (''model.norm.weight'', hd (map snd sample_params))]"
  have "case route (\<lambda>m p s e x y. (y, True)) (expert_modules [sample_module]) sample_params ?w of
      Inr (rest, loaded, _) \<Rightarrow> rest = [(''model.norm.weight'', hd (map snd sample_params))]
        \<and> loaded = [''model.layers.1.mlp.experts.w13_weight''] | _ \<Rightarrow> False"
    by code_simp
  then obtain params' where "route (\<lambda>m p s e x y. (y, True)) (expert_modules [sample_module]) sample_params ?w =
      Inr ([(''model.norm.weight'', hd (map snd sample_params))], [''model.layers.1.mlp.experts.w13_weight''], params')"
    by (auto split: sum.splits)
  note all = router_accounts_for_tensors [OF this, of "''error''" "[]"]
  let ?k = "''model.layers.1.mlp.experts.w2_weight''"
  have "?k \<in> set (dict_keys sample_params)" by (simp add: sample_params_def)
  moreover have "\<not> list_ex (\<lambda>suf. has_suffix suf ?k) coverage_ignore_suffixes
    \<and> (set [''model.layers.1.mlp.experts.w13_weight''] \<union> set []) \<inter> set (coverage_aliases ?k) = {}" by code_simp
  moreover have "py_lower ''error'' \<notin> {''off'', ''warn''}" by code_simp
  ultimately have "assert_weight_sync_coverage ''error'' (dict_keys params')
      ([''model.layers.1.mlp.experts.w13_weight''] @ []) = Inl RuntimeError"
    by (intro all [THEN conjunct2, THEN conjunct2, THEN conjunct2, THEN conjunct2, THEN conjunct2, THEN iffD2]
        conjI bexI [of _ ?k]) simp_all
  with all [THEN conjunct2, THEN conjunct2, THEN conjunct1] show ?thesis by blast
qed

end
