(* ===== verification/Context_Parallel.thy ===== *)
theory Context_Parallel
  imports Packing
begin

text \<open>
  How \<open>lumenrl/engine/training/megatron_native_engine.py\<close> runs the rows of a batch: the valid rows are
  grouped into microbatches, every microbatch is packed into one stream of tokens per rank of the
  context parallel group, and the log-probabilities of the rows are put together again from what
  the ranks computed. A rank holds either one contiguous chunk of every sequence or a pair of
  chunks, one from each end. The model is a parameter: it gives one value per token of the stream,
  and the kernel \<open>lp\<close> gives one number per value and target token. A collective is a function of what all
  ranks of its group hold. The greedy bins are those of \<open>megatron_base_engine.py\<close>.
\<close>

section \<open>Rows and microbatches\<close>

definition real_block :: "bool list \<Rightarrow> nat \<times> nat" where
  \<comment> \<open>the first real token of a row, and how many there are\<close>
  "real_block row =
     (case filter (\<lambda>i. row ! i) [0..<length row] of
        [] \<Rightarrow> (0, 0)
      | i # ks \<Rightarrow> (i, Suc (length ks)))"

type_synonym block_row = "nat \<times> nat \<times> nat"

definition collect_rows :: "bool list list \<Rightarrow> block_row list" where
  "collect_rows masks =
     concat (map (\<lambda>r. case real_block (masks ! r) of (start, L) \<Rightarrow> if L \<ge> 2 then [(r, start, L)] else [])
       [0..<length masks])"

definition ceil_div :: "nat \<Rightarrow> nat \<Rightarrow> nat" where
  "ceil_div a b = (a + b - 1) div b"

definition cp_local_length :: "nat \<Rightarrow> nat \<Rightarrow> nat" where
  \<comment> \<open>the tokens of a sequence on one rank\<close>
  "cp_local_length cp L = (if cp = 1 then L else 2 * ceil_div L (2 * cp))"

fun place_row :: "nat \<Rightarrow> nat \<Rightarrow> nat \<Rightarrow> (nat list \<times> nat) list \<Rightarrow> (nat list \<times> nat) list" where
  \<comment> \<open>the first bin with room, each with the number of its tokens\<close>
  "place_row budget i L [] = [([i], L)]"
| "place_row budget i L ((b, t) # bins) =
     (if t + L \<le> budget then (b @ [i], t + L) # bins else (b, t) # place_row budget i L bins)"

definition build_bins :: "nat list \<Rightarrow> int \<Rightarrow> nat list list" where
  "build_bins lengths budget =
     (let limit = (if budget \<le> 0 then (if lengths = [] then 1 else Max (set lengths)) else nat budget);
          order = sort_key (\<lambda>i. - int (lengths ! i)) [0..<length lengths] in
      map fst (fold (\<lambda>i. place_row limit i (lengths ! i)) order []))"

definition default_token_budget :: int where
  "default_token_budget = 21504"

definition build_microbatches ::
  "bool \<Rightarrow> int \<Rightarrow> nat \<Rightarrow> 'e list list \<Rightarrow> block_row list \<Rightarrow> (block_row list \<times> 'e list list) list" where
  \<comment> \<open>the rows of every microbatch and their real tokens\<close>
  "build_microbatches dynamic max_tokens cp seqs rows =
     (let bins = (if dynamic
        then build_bins (map (\<lambda>(_, _, L). cp_local_length cp L) rows)
               (if max_tokens > 0 then max_tokens else default_token_budget)
        else map (\<lambda>i. [i]) [0..<length rows]) in
      map (\<lambda>bin. (map (\<lambda>j. rows ! j) bin,
                  map (\<lambda>j. case rows ! j of (r, start, L) \<Rightarrow> py_slice start (start + L) (seqs ! r)) bin)) bins)"

definition pad_mbs_for_ep ::
  "bool \<Rightarrow> nat \<Rightarrow> nat list \<Rightarrow> (block_row list \<times> 'e::zero list list) list \<Rightarrow> (block_row list \<times> 'e list list) list" where
  \<comment> \<open>\<open>counts\<close> are the microbatches of all ranks of the expert parallel group\<close>
  "pad_mbs_for_ep is_moe ep counts mbs =
     (if \<not> is_moe \<or> ep \<le> 1 then mbs
      else mbs @ replicate (Max (set counts) - length mbs) ([], [[0, 0]]))"

section \<open>The stream of a rank\<close>

definition cp_chunk :: "nat \<Rightarrow> bool \<Rightarrow> nat \<Rightarrow> nat \<Rightarrow> nat" where
  \<comment> \<open>\<open>chunk\<close> of a sequence of that length\<close>
  "cp_chunk cp contiguous align L =
     (if cp = 1 then L
      else if contiguous then ceil_div (ceil_div L cp) align * align
      else ceil_div L (2 * cp))"

definition pad_ids :: "nat \<Rightarrow> 'e::zero list \<Rightarrow> 'e list" where
  "pad_ids n ids = ids @ replicate (n - length ids) 0"

definition cp_slice :: "nat \<Rightarrow> nat \<Rightarrow> bool \<Rightarrow> nat \<Rightarrow> 'e::zero list \<Rightarrow> 'e list" where
  \<comment> \<open>what rank \<open>r\<close> holds of a sequence\<close>
  "cp_slice cp r contiguous align ids =
     (let c = cp_chunk cp contiguous align (length ids) in
      if cp = 1 then ids
      else if contiguous then py_slice (r * c) (r * c + c) (pad_ids (cp * c) ids)
      else let padded = pad_ids (2 * cp * c) ids; second = (2 * cp - r - 1) * c in
        py_slice (r * c) (r * c + c) padded @ py_slice second (second + c) padded)"

record cp_layout =
  lay_length :: nat
  lay_chunk :: nat
  lay_start :: nat
  lay_end :: nat
  lay_contiguous :: bool

fun cp_layouts :: "nat \<Rightarrow> bool \<Rightarrow> nat \<Rightarrow> nat \<Rightarrow> ('e list \<times> 'e list) list \<Rightarrow> cp_layout list" where
  \<comment> \<open>the layouts of sequences and their slices from offset \<open>begin_at\<close> on\<close>
  "cp_layouts cp contiguous align begin_at [] = []"
| "cp_layouts cp contiguous align begin_at ((ids, sliced) # rest) =
     \<lparr>lay_length = length ids, lay_chunk = cp_chunk cp contiguous align (length ids), lay_start = begin_at,
      lay_end = begin_at + length sliced, lay_contiguous = contiguous\<rparr>
     # cp_layouts cp contiguous align (begin_at + length sliced) rest"

record 'e cp_stream =
  st_tokens :: "'e list"
  st_layouts :: "cp_layout list"
  st_cu_seqlens :: "nat list"
  st_max_seqlen :: nat

definition stream_align :: "nat \<Rightarrow> bool \<Rightarrow> nat option \<Rightarrow> nat \<Rightarrow> nat" where
  \<comment> \<open>\<open>aligned\<close> is \<open>_dsv4_align\<close> of a model with a sequence alignment\<close>
  "stream_align tp sp aligned cp =
     (let base = (if sp \<and> tp > 1 then tp else 1) in
      case aligned of None \<Rightarrow> base | Some a \<Rightarrow> lcm base (a * (if cp > 1 then 2 else 1)))"

definition pack_stream :: "nat \<Rightarrow> nat \<Rightarrow> bool \<Rightarrow> nat \<Rightarrow> 'e::zero list list \<Rightarrow> 'e cp_stream result" where
  \<comment> \<open>what \<open>_pp_forward_model\<close> hands to the model on rank \<open>r\<close>; \<open>single\<close> is
      \<open>packed_stream_is_single_sequence\<close>\<close>
  "pack_stream cp r single align ids_list =
     (let contiguous = (single \<and> cp > 1) in
      if ids_list = [] \<or> (contiguous \<and> length ids_list > 1) then Inl RuntimeError
      else
        let parts = map (cp_slice cp r contiguous align) ids_list;
            filled = length (concat parts);
            pad = (if align > 1 then (align - filled mod align) mod align else 0);
            offsets = map (\<lambda>k. length (concat (take k parts))) [0..<Suc (length parts)]
                      @ (if pad > 0 then [filled + pad] else []);
            lens = map (\<lambda>p. length p * cp) parts in
        Inr \<lparr>st_tokens = concat parts @ replicate pad 0,
             st_layouts = cp_layouts cp contiguous align 0 (zip ids_list parts),
             st_cu_seqlens = map (\<lambda>o'. o' * cp) offsets,
             st_max_seqlen = (if lens = [] then 0 else Max (set lens))\<rparr>)"

section \<open>Log-probabilities of a row\<close>

definition row_spans :: "nat \<Rightarrow> nat \<Rightarrow> cp_layout \<Rightarrow> (nat \<times> nat \<times> nat) list" where
  \<comment> \<open>offset in the local chunk, and first and last global position with a prediction\<close>
  "row_spans cp r lay =
     (let c = lay_chunk lay;
          starts = (if lay_contiguous lay then [r * c] else [r * c, (2 * cp - r - 1) * c]) in
      filter (\<lambda>(_, a, b). a < b)
        (map (\<lambda>(half, a). (half * c, a, min (a + c) (lay_length lay - 1))) (enumerate 0 starts)))"

fun split_sizes :: "nat list \<Rightarrow> 'a list \<Rightarrow> 'a list list" where
  "split_sizes [] xs = []"
| "split_sizes (n # ns) xs = take n xs # split_sizes ns (drop n xs)"

definition add_rows :: "'v::comm_monoid_add list \<Rightarrow> 'v list \<Rightarrow> 'v list" where
  "add_rows xs ys = map2 (+) xs ys"

definition rank_row ::
  "('l \<Rightarrow> 'e \<Rightarrow> 'v::comm_monoid_add) \<Rightarrow> nat \<Rightarrow> nat \<Rightarrow> 'l list \<Rightarrow> 'e list \<Rightarrow> cp_layout \<Rightarrow> 'v list" where
  \<comment> \<open>what rank \<open>r\<close> of more than one knows of the row, before the ranks are summed\<close>
  "rank_row lp cp r packed ids lay =
     (let local = py_slice (lay_start lay) (lay_end lay) packed; n = lay_length lay - 1;
          spans = row_spans cp r lay in
      if spans = [] then replicate n 0
      else
        let logits = concat (map (\<lambda>(s, a, b). py_slice s (s + (b - a)) local) spans);
            targets = concat (map (\<lambda>(_, a, b). py_slice (a + 1) (b + 1) ids) spans);
            parts = split_sizes (map (\<lambda>(_, a, b). b - a) spans) (map2 lp logits targets);
            full = map (\<lambda>(part, _, a, b). replicate a 0 @ part @ replicate (n - b) 0) (zip parts spans) in
        foldl add_rows (hd full) (tl full))"

definition cp_row_values ::
  "('l \<Rightarrow> 'e \<Rightarrow> 'v::comm_monoid_add) \<Rightarrow> nat \<Rightarrow> (nat \<Rightarrow> 'l list) \<Rightarrow> 'e list \<Rightarrow> (nat \<Rightarrow> cp_layout) \<Rightarrow> 'v list" where
  \<comment> \<open>\<open>_cp_row_logprob_entropy\<close>: \<open>packed r\<close> and \<open>lay r\<close> are the model's output and the layout on rank \<open>r\<close>\<close>
  "cp_row_values lp cp packed ids lay =
     (if cp = 1
      then map2 lp (butlast (py_slice (lay_start (lay 0)) (lay_end (lay 0)) (packed 0))) (tl ids)
      else let rows = map (\<lambda>r. rank_row lp cp r (packed r) ids (lay r)) [0..<cp] in
        foldl add_rows (hd rows) (tl rows))"


section \<open>Positions\<close>

text \<open>The specification of the packing: which position of which sequence a rank holds where.\<close>

definition cp_positions :: "nat \<Rightarrow> nat \<Rightarrow> bool \<Rightarrow> nat \<Rightarrow> nat \<Rightarrow> nat list" where
  "cp_positions cp r contiguous align L =
     (let c = cp_chunk cp contiguous align L in
      if cp = 1 then [0..<L]
      else if contiguous then [r * c..<r * c + c]
      else [r * c..<r * c + c] @ [(2 * cp - r - 1) * c..<(2 * cp - r - 1) * c + c])"

definition cp_chunks :: "nat \<Rightarrow> bool \<Rightarrow> nat" where
  \<comment> \<open>the number of chunks of a sequence\<close>
  "cp_chunks cp contiguous = (if contiguous then cp else 2 * cp)"

lemma ceil_div_le: "0 < b \<Longrightarrow> a \<le> b * ceil_div a b"
proof -
  assume b: "0 < b"
  have "(a + b - 1) mod b < b" using b by simp
  moreover have "a + b - 1 = b * ceil_div a b + (a + b - 1) mod b" by (simp add: ceil_div_def)
  ultimately show ?thesis using b by linarith
qed

lemma cp_chunk_covers:
  assumes "0 < cp" "0 < align" "cp \<noteq> 1"
  shows "L \<le> cp_chunks cp contiguous * cp_chunk cp contiguous align L"
proof (cases contiguous)
  case True
  have "L \<le> cp * ceil_div L cp" by (rule ceil_div_le [OF assms(1)])
  also have "\<dots> \<le> cp * (align * ceil_div (ceil_div L cp) align)"
    by (intro mult_le_mono2 ceil_div_le [OF assms(2)])
  finally show ?thesis using True assms(3) by (simp add: cp_chunks_def cp_chunk_def ac_simps)
next
  case False
  with assms ceil_div_le [of "2 * cp" L] show ?thesis by (simp add: cp_chunks_def cp_chunk_def)
qed

lemma length_cp_positions:
  "length (cp_positions cp r contiguous align L) =
     (if cp = 1 then L else (if contiguous then 1 else 2) * cp_chunk cp contiguous align L)"
  by (simp add: cp_positions_def Let_def)

lemma pad_ids_slice:
  assumes "length ids \<le> n" "b \<le> n"
  shows "py_slice a b (pad_ids n ids) = map (\<lambda>i. if i < length ids then ids ! i else 0) [a..<b]"
proof -
  have "py_slice a b (pad_ids n ids) = map (\<lambda>i. pad_ids n ids ! i) [a..<b]"
    by (rule py_slice_nths) (use assms in \<open>simp add: pad_ids_def\<close>)
  moreover have "pad_ids n ids ! i = (if i < length ids then ids ! i else 0)" if "i < b" for i
    using that assms by (simp add: pad_ids_def nth_append)
  ultimately show ?thesis by simp
qed

lemma chunk_bound: "q < n \<Longrightarrow> q * c + c \<le> n * (c :: nat)"
  using mult_le_mono1 [of "Suc q" n c] by simp

lemma cp_slice_positions:
  assumes "r < cp" "0 < align"
  shows "cp_slice cp r contiguous align ids =
    map (\<lambda>i. if i < length ids then ids ! i else 0) (cp_positions cp r contiguous align (length ids))"
proof (cases "cp = 1")
  case True
  then show ?thesis by (auto simp: cp_slice_def cp_positions_def intro: nth_equalityI)
next
  case False
  let ?c = "cp_chunk cp contiguous align (length ids)"
  have cov: "length ids \<le> cp_chunks cp contiguous * ?c"
    using cp_chunk_covers [OF _ assms(2) False] assms(1) by simp
  show ?thesis
  proof (cases contiguous)
    case True
    with cov have "length ids \<le> cp * ?c" by (simp add: cp_chunks_def)
    from pad_ids_slice [OF this chunk_bound [OF assms(1)]] True False show ?thesis
      by (simp add: cp_slice_def cp_positions_def Let_def)
  next
    case nc: False
    with cov have len: "length ids \<le> 2 * cp * ?c" by (simp add: cp_chunks_def)
    have "r < 2 * cp" "2 * cp - r - 1 < 2 * cp" using assms(1) by auto
    from pad_ids_slice [OF len chunk_bound [OF this(1)]] pad_ids_slice [OF len chunk_bound [OF this(2)]] nc False
    show ?thesis by (simp add: cp_slice_def cp_positions_def Let_def)
  qed
qed

lemma chunk_iff: "0 < c \<Longrightarrow> q * c \<le> i \<and> i < q * c + c \<longleftrightarrow> q = i div (c :: nat)"
  by (metis add.commute div_nat_eqI dividend_less_div_times div_times_less_eq_dividend mult.commute mult_Suc_right)

section \<open>Values of a row\<close>

definition layout_starts :: "nat \<Rightarrow> nat \<Rightarrow> bool \<Rightarrow> nat \<Rightarrow> nat list" where
  "layout_starts cp r contiguous c = (if contiguous then [r * c] else [r * c, (2 * cp - r - 1) * c])"

lemma cp_positions_chunk:
  assumes "cp \<noteq> 1" "half < length (layout_starts cp r contiguous c)" "j < c" "c = cp_chunk cp contiguous align L"
  shows "cp_positions cp r contiguous align L ! (half * c + j) = layout_starts cp r contiguous c ! half + j"
    "half * c + j < length (cp_positions cp r contiguous align L)"
  using assms by (auto simp: cp_positions_def layout_starts_def Let_def nth_append less_Suc_eq split: if_splits)

lemma split_sizes_concat: "split_sizes (map length xss) (concat xss) = xss"
  by (induction xss) simp_all

lemma map2_concat:
  "map length xss = map length yss \<Longrightarrow> map2 f (concat xss) (concat yss) = concat (map2 (map2 f) xss yss)"
  by (simp add: zip_concat map_concat comp_def case_prod_unfold)

lemma foldl_add_rows:
  assumes "\<And>x. x \<in> set xs \<Longrightarrow> length x = n" "xs \<noteq> []"
  shows "length (foldl add_rows (hd xs) (tl xs)) = n
    \<and> (\<forall>i < n. foldl add_rows (hd xs) (tl xs) ! i = (\<Sum>x \<leftarrow> xs. x ! i))"
proof -
  have fold: "length y = n \<Longrightarrow> (\<And>x. x \<in> set ys \<Longrightarrow> length x = n) \<Longrightarrow>
      length (foldl add_rows y ys) = n \<and> (\<forall>i < n. foldl add_rows y ys ! i = y ! i + (\<Sum>x \<leftarrow> ys. x ! i))" for y ys
    by (induction ys arbitrary: y) (simp_all add: add_rows_def add.assoc)
  obtain y ys where "xs = y # ys" using assms(2) by (cases xs) auto
  with fold [of y ys] assms(1) show ?thesis by simp
qed

lemma sum_list_filter_zero:
  "(\<And>x. x \<in> set xs \<Longrightarrow> \<not> P x \<Longrightarrow> f x = (0 :: 'v::comm_monoid_add)) \<Longrightarrow> (\<Sum>x \<leftarrow> filter P xs. f x) = (\<Sum>x \<leftarrow> xs. f x)"
  by (induction xs) auto

lemma sum_list_zeros: "(\<And>x. x \<in> set xs \<Longrightarrow> f x = (0 :: 'v::comm_monoid_add)) \<Longrightarrow> (\<Sum>x \<leftarrow> xs. f x) = 0"
  by (induction xs) auto

lemma map2_slices:
  assumes "s + (b - a) \<le> length xs" "b < length ys" "\<And>i. a \<le> i \<Longrightarrow> i < b \<Longrightarrow> xs ! (s + (i - a)) = g i"
  shows "map2 f (py_slice s (s + (b - a)) xs) (py_slice (a + 1) (b + 1) ys) = map (\<lambda>i. f (g i) (ys ! Suc i)) [a..<b]"
proof (rule nth_equalityI)
  show "length (map2 f (py_slice s (s + (b - a)) xs) (py_slice (a + 1) (b + 1) ys))
      = length (map (\<lambda>i. f (g i) (ys ! Suc i)) [a..<b])" using assms(1,2) by (simp add: py_slice_def)
  fix j assume j: "j < length (map2 f (py_slice s (s + (b - a)) xs) (py_slice (a + 1) (b + 1) ys))"
  then have "j < b - a" using assms(1,2) by (simp add: py_slice_def)
  with assms(1,2) assms(3) [of "a + j"] show "map2 f (py_slice s (s + (b - a)) xs) (py_slice (a + 1) (b + 1) ys) ! j
      = map (\<lambda>i. f (g i) (ys ! Suc i)) [a..<b] ! j"
    by (simp add: py_slice_def nth_append)
qed

lemma rank_row_nth:
  fixes lp :: "'l \<Rightarrow> 'e \<Rightarrow> 'v::comm_monoid_add"
  assumes "cp \<noteq> 1" "lay_length lay = length ids" "lay_contiguous lay = contiguous"
    "lay_chunk lay = cp_chunk cp contiguous align (length ids)"
    "xs = py_slice (lay_start lay) (lay_end lay) packed"
    "length xs = length (cp_positions cp r contiguous align (length ids))"
    "\<And>j. j < length xs \<Longrightarrow> cp_positions cp r contiguous align (length ids) ! j < length ids \<Longrightarrow>
       xs ! j = g (cp_positions cp r contiguous align (length ids) ! j)"
  shows "length (rank_row lp cp r packed ids lay) = length ids - 1
    \<and> (\<forall>i < length ids - 1. rank_row lp cp r packed ids lay ! i =
        (\<Sum>a \<leftarrow> layout_starts cp r contiguous (lay_chunk lay). if a \<le> i \<and> i < a + lay_chunk lay
           then lp (g i) (ids ! Suc i) else 0))"
proof -
  let ?n = "length ids - 1" and ?c = "lay_chunk lay"
  let ?starts = "layout_starts cp r contiguous ?c" and ?v = "\<lambda>i. lp (g i) (ids ! Suc i)"
  let ?f = "\<lambda>(half, a). (half * ?c, a, min (a + ?c) ?n)"
  let ?spans = "row_spans cp r lay"
  have spans: "?spans = filter (\<lambda>(_, a, b). a < b) (map ?f (enumerate 0 ?starts))"
    unfolding row_spans_def Let_def assms(2,3) layout_starts_def by simp
  have part: "map2 lp (py_slice s (s + (b - a)) xs) (py_slice (a + 1) (b + 1) ids) = map ?v [a..<b]
      \<and> a < b \<and> b \<le> ?n \<and> s + (b - a) \<le> length xs"
    if mem: "(s, a, b) \<in> set ?spans" for s a b
  proof -
    obtain half where half: "half < length ?starts" "a = ?starts ! half" "s = half * ?c" "b = min (a + ?c) ?n" "a < b"
      using mem unfolding spans by (auto simp: in_set_enumerate_eq)
    have pos: "cp_positions cp r contiguous align (length ids) ! (s + (i - a)) = i \<and> s + (i - a) < length xs"
      if "a \<le> i" "i < b" for i
    proof -
      have "i < a + ?c" using that(2) half(4) by simp
      with that(1) have "i - a < ?c" by linarith
      from cp_positions_chunk [OF assms(1) half(1) this assms(4)] that half(2,3) assms(6) show ?thesis by simp
    qed
    have "a \<le> b - 1" "b - 1 < b" using half(5) by simp_all
    from pos [OF this] half(5) have le: "s + (b - a) \<le> length xs" by linarith
    have at: "xs ! (s + (i - a)) = g i" if "a \<le> i" "i < b" for i
    proof -
      have "i < length ids" using that(2) half(4) by linarith
      with assms(7) [of "s + (i - a)"] pos [OF that] show ?thesis by simp
    qed
    have "b < length ids" "b \<le> ?n" using half(4,5) by linarith+
    with map2_slices [OF le _ at] half(5) le show ?thesis by blast
  qed
  show ?thesis
  proof (cases "?spans = []")
    case True
    have none: "\<not> (a \<le> i \<and> i < a + ?c)" if i: "i < ?n" and a: "a \<in> set ?starts" for i a
    proof -
      obtain half where "half < length ?starts" "a = ?starts ! half" using a by (auto simp: in_set_conv_nth)
      then have "?f (half, a) \<in> set (map ?f (enumerate 0 ?starts))" by (force simp: in_set_enumerate_eq)
      with True have "\<not> a < min (a + ?c) ?n" unfolding spans by (auto simp: filter_empty_conv)
      with i show ?thesis by auto
    qed
    have "(\<Sum>a \<leftarrow> ?starts. if a \<le> i \<and> i < a + ?c then ?v i else 0) = 0" if i: "i < ?n" for i
      by (rule sum_list_zeros) (use none [OF i] in auto)
    with True show ?thesis by (simp add: rank_row_def Let_def assms(2))
  next
    case False
    let ?full = "map (\<lambda>(s, a, b). replicate a 0 @ map ?v [a..<b] @ replicate (?n - b) 0) ?spans"
    let ?ls = "map (\<lambda>(s, a, b). py_slice s (s + (b - a)) xs) ?spans"
      and ?ts = "map (\<lambda>(_, a, b). py_slice (a + 1) (b + 1) ids) ?spans"
    have size: "length (py_slice s (s + (b - a)) xs) = b - a \<and> length (py_slice (a + 1) (b + 1) ids) = b - a"
      if "(s, a, b) \<in> set ?spans" for s a b
    proof -
      have "s + (b - a) \<le> length xs" "b + 1 \<le> length ids" using part [OF that] by linarith+
      then show ?thesis by simp
    qed
    have lens: "map length ?ls = map (\<lambda>(_, a, b). b - a) ?spans" "map length ?ts = map (\<lambda>(_, a, b). b - a) ?spans"
      unfolding map_map comp_def by (rule map_cong [OF refl], use size in fastforce)+
    have "map2 (map2 lp) ?ls ?ts = map (\<lambda>x. map2 lp ((\<lambda>(s, a, b). py_slice s (s + (b - a)) xs) x)
        ((\<lambda>(_, a, b). py_slice (a + 1) (b + 1) ids) x)) ?spans"
      by (simp add: zip_map_map zip_same_conv_map comp_def)
    also have "\<dots> = map (\<lambda>(_, a, b). map ?v [a..<b]) ?spans"
      by (rule map_cong [OF refl]) (use part in fastforce)
    finally have vals: "map2 (map2 lp) ?ls ?ts = map (\<lambda>(_, a, b). map ?v [a..<b]) ?spans" .
    have "map (\<lambda>(_, a, b). b - a) ?spans = map length (map (\<lambda>(_, a, b). map ?v [a..<b]) ?spans)"
      by (simp add: comp_def case_prod_unfold)
    then have "split_sizes (map (\<lambda>(_, a, b). b - a) ?spans) (map2 lp (concat ?ls) (concat ?ts))
        = map (\<lambda>(_, a, b). map ?v [a..<b]) ?spans"
      unfolding map2_concat [OF trans [OF lens(1) lens(2) [symmetric]]] vals by (simp only: split_sizes_concat)
    then have row: "rank_row lp cp r packed ids lay = foldl add_rows (hd ?full) (tl ?full)"
      using False unfolding rank_row_def Let_def assms(2) assms(5) [symmetric]
      by (simp add: zip_map1 zip_same_conv_map comp_def case_prod_unfold)
    have "length x = ?n \<and> (\<forall>i < ?n. x ! i = (if a \<le> i \<and> i < b then ?v i else 0))"
      if "(s, a, b) \<in> set ?spans" "x = replicate a 0 @ map ?v [a..<b] @ replicate (?n - b) 0" for s a b x
      using part [OF that(1)] by (auto simp: that(2) nth_append)
    then have each: "length x = ?n" if "x \<in> set ?full" for x using that by fastforce
    have at: "(\<Sum>x \<leftarrow> ?full. x ! i) = (\<Sum>(s, a, b) \<leftarrow> ?spans. if a \<le> i \<and> i < b then ?v i else 0)" if "i < ?n" for i
      unfolding map_map comp_def by (rule arg_cong [where f = sum_list], rule map_cong [OF refl])
        (use part that in \<open>auto simp: nth_append\<close>)
    have "(\<Sum>(s, a, b) \<leftarrow> ?spans. if a \<le> i \<and> i < b then ?v i else 0)
        = (\<Sum>a \<leftarrow> ?starts. if a \<le> i \<and> i < a + ?c then ?v i else 0)" if i: "i < ?n" for i
    proof -
      have "(\<Sum>(s, a, b) \<leftarrow> ?spans. if a \<le> i \<and> i < b then ?v i else 0)
          = (\<Sum>(s, a, b) \<leftarrow> map ?f (enumerate 0 ?starts). if a \<le> i \<and> i < b then ?v i else 0)"
        unfolding spans by (rule sum_list_filter_zero) auto
      also have "\<dots> = (\<Sum>a \<leftarrow> map snd (enumerate 0 ?starts). if a \<le> i \<and> i < a + ?c then ?v i else 0)"
        unfolding map_map comp_def by (rule arg_cong [where f = sum_list], rule map_cong [OF refl]) (use i in auto)
      finally show ?thesis by simp
    qed
    with foldl_add_rows [of ?full ?n] each at False show ?thesis unfolding row by auto
  qed
qed

lemma sum_list_delta: "(\<Sum>r \<leftarrow> [0..<n]. if r = q then v else (0 :: 'v::comm_monoid_add)) = (if q < n then v else 0)"
  by (induction n) (auto simp: less_Suc_eq)

lemma sum_list_cong: "(\<And>x. x \<in> set xs \<Longrightarrow> f x = g x) \<Longrightarrow> (\<Sum>x \<leftarrow> xs. f x) = (\<Sum>x \<leftarrow> xs. g x)"
  by (rule arg_cong [where f = sum_list], rule map_cong) auto

lemma one_owner:
  fixes v :: "'v::comm_monoid_add"
  assumes "i < cp_chunks cp contiguous * c"
  shows "(\<Sum>r \<leftarrow> [0..<cp]. \<Sum>a \<leftarrow> layout_starts cp r contiguous c. if a \<le> i \<and> i < a + c then v else 0) = v"
proof -
  have c: "0 < c" using assms by (cases c) auto
  have q: "i div c < cp_chunks cp contiguous" using assms by (simp add: less_mult_imp_div_less)
  show ?thesis
  proof (cases contiguous)
    case True
    then have "(\<Sum>r \<leftarrow> [0..<cp]. \<Sum>a \<leftarrow> layout_starts cp r contiguous c. if a \<le> i \<and> i < a + c then v else 0)
        = (\<Sum>r \<leftarrow> [0..<cp]. if r = i div c then v else 0)"
      by (simp add: layout_starts_def chunk_iff [OF c])
    with True q show ?thesis by (simp only: sum_list_delta cp_chunks_def if_True)
  next
    case False
    have "(\<Sum>r \<leftarrow> [0..<cp]. \<Sum>a \<leftarrow> layout_starts cp r contiguous c. if a \<le> i \<and> i < a + c then v else 0)
        = (\<Sum>r \<leftarrow> [0..<cp]. (if r = i div c then v else 0) + (if r = 2 * cp - 1 - i div c then v else 0))"
    proof (rule sum_list_cong)
      fix r assume "r \<in> set [0..<cp]"
      moreover have "i div c < 2 * cp" using q False by (simp add: cp_chunks_def)
      ultimately have "2 * cp - r - 1 = i div c \<longleftrightarrow> r = 2 * cp - 1 - i div c" by auto
      with False show "(\<Sum>a \<leftarrow> layout_starts cp r contiguous c. if a \<le> i \<and> i < a + c then v else 0)
          = (if r = i div c then v else 0) + (if r = 2 * cp - 1 - i div c then v else 0)"
        by (simp add: layout_starts_def chunk_iff [OF c])
    qed
    also have "\<dots> = (if i div c < cp then v else 0) + (if 2 * cp - 1 - i div c < cp then v else 0)"
      by (simp only: sum_list_addf sum_list_delta)
    also have "\<dots> = v" using q False by (auto simp: cp_chunks_def)
    finally show ?thesis .
  qed
qed

lemma cp_row_values_whole:
  fixes lp :: "'l \<Rightarrow> 'e \<Rightarrow> 'v::comm_monoid_add"
  assumes "0 < cp" "0 < align" "cp = 1 \<Longrightarrow> \<not> contiguous"
    "\<And>r. r < cp \<Longrightarrow> lay_length (lay r) = length ids \<and> lay_contiguous (lay r) = contiguous
       \<and> lay_chunk (lay r) = cp_chunk cp contiguous align (length ids)"
    "\<And>r. r < cp \<Longrightarrow> length (py_slice (lay_start (lay r)) (lay_end (lay r)) (packed r))
       = length (cp_positions cp r contiguous align (length ids))"
    "\<And>r j. r < cp \<Longrightarrow> j < length (cp_positions cp r contiguous align (length ids)) \<Longrightarrow>
       cp_positions cp r contiguous align (length ids) ! j < length ids \<Longrightarrow>
       py_slice (lay_start (lay r)) (lay_end (lay r)) (packed r) ! j = g (cp_positions cp r contiguous align (length ids) ! j)"
  shows "cp_row_values lp cp packed ids lay = map (\<lambda>i. lp (g i) (ids ! Suc i)) [0..<length ids - 1]"
proof (cases "cp = 1")
  case True
  let ?xs = "py_slice (lay_start (lay 0)) (lay_end (lay 0)) (packed 0)"
  have len: "length ?xs = length ids" using assms(5) [of 0] True by (simp add: cp_positions_def)
  have "?xs ! j = g j" if "j < length ids" for j
    using assms(6) [of 0 j] True that by (simp add: cp_positions_def)
  then have "map2 lp (butlast ?xs) (tl ids) = map (\<lambda>i. lp (g i) (ids ! Suc i)) [0..<length ids - 1]"
    using len by (intro nth_equalityI) (auto simp: nth_butlast nth_tl)
  with True show ?thesis by (simp add: cp_row_values_def)
next
  case False
  let ?row = "\<lambda>r. rank_row lp cp r (packed r) ids (lay r)" and ?n = "length ids - 1"
    and ?c = "cp_chunk cp contiguous align (length ids)"
  have row: "length (?row r) = ?n \<and> (\<forall>i < ?n. ?row r ! i = (\<Sum>a \<leftarrow> layout_starts cp r contiguous ?c.
      if a \<le> i \<and> i < a + ?c then lp (g i) (ids ! Suc i) else 0))" if "r < cp" for r
    using rank_row_nth [OF False _ _ _ refl, of "lay r" ids contiguous align "packed r" r g lp]
      assms(4,5,6) [OF that] by simp
  have all: "length (foldl add_rows (hd (map ?row [0..<cp])) (tl (map ?row [0..<cp]))) = ?n
    \<and> (\<forall>i < ?n. foldl add_rows (hd (map ?row [0..<cp])) (tl (map ?row [0..<cp])) ! i = (\<Sum>x \<leftarrow> map ?row [0..<cp]. x ! i))"
    by (rule foldl_add_rows) (use row assms(1) in auto)
  have "(\<Sum>x \<leftarrow> map ?row [0..<cp]. x ! i) = lp (g i) (ids ! Suc i)" if i: "i < ?n" for i
  proof -
    have "(\<Sum>x \<leftarrow> map ?row [0..<cp]. x ! i) = (\<Sum>r \<leftarrow> [0..<cp]. \<Sum>a \<leftarrow> layout_starts cp r contiguous ?c.
        if a \<le> i \<and> i < a + ?c then lp (g i) (ids ! Suc i) else 0)"
      unfolding map_map comp_def by (rule sum_list_cong) (use row i in simp)
    also have "\<dots> = lp (g i) (ids ! Suc i)"
      by (rule one_owner) (use cp_chunk_covers [OF assms(1,2) False, of "length ids" contiguous] i in linarith)
    finally show ?thesis .
  qed
  with all False show ?thesis
    by (intro nth_equalityI) (simp_all add: cp_row_values_def Let_def)
qed

section \<open>Streams\<close>

definition stream_pad :: "nat \<Rightarrow> nat \<Rightarrow> nat" where
  "stream_pad align filled = (if align > 1 then (align - filled mod align) mod align else 0)"

definition stream_sources :: "nat \<Rightarrow> nat \<Rightarrow> bool \<Rightarrow> nat \<Rightarrow> nat list \<Rightarrow> (nat \<times> nat) option list" where
  \<comment> \<open>for every token of the stream of rank \<open>r\<close> the sequence and the position in it, or padding\<close>
  "stream_sources cp r single align Ls =
     (let blocks = map (\<lambda>k. map (\<lambda>i. if i < Ls ! k then Some (k, i) else None)
                             (cp_positions cp r (single \<and> cp > 1) align (Ls ! k))) [0..<length Ls] in
      concat blocks @ replicate (stream_pad align (length (concat blocks))) None)"

abbreviation token_at :: "'e::zero list list \<Rightarrow> (nat \<times> nat) option \<Rightarrow> 'e" where
  "token_at ids_list src \<equiv> (case src of None \<Rightarrow> 0 | Some (k, i) \<Rightarrow> ids_list ! k ! i)"

lemma map_over_index: "map f xs = map (\<lambda>k. f (xs ! k)) [0..<length xs]"
  by (rule nth_equalityI) simp_all

lemma pack_stream_ok:
  "pack_stream cp r single align ids_list = Inr s \<longleftrightarrow> ids_list \<noteq> [] \<and> \<not> (single \<and> cp > 1 \<and> length ids_list > 1) \<and>
     (let parts = map (cp_slice cp r (single \<and> cp > 1) align) ids_list; filled = length (concat parts);
          pad = stream_pad align filled in
      s = \<lparr>st_tokens = concat parts @ replicate pad 0,
           st_layouts = cp_layouts cp (single \<and> cp > 1) align 0 (zip ids_list parts),
           st_cu_seqlens = map (\<lambda>o'. o' * cp)
             (map (\<lambda>k. length (concat (take k parts))) [0..<Suc (length parts)] @ (if pad > 0 then [filled + pad] else [])),
           st_max_seqlen = (if map (\<lambda>p. length p * cp) parts = [] then 0 else Max (set (map (\<lambda>p. length p * cp) parts)))\<rparr>)"
  unfolding pack_stream_def Let_def stream_pad_def by (auto split: if_splits)

lemma stream_blocks:
  assumes "r < cp" "0 < align"
  shows "map (cp_slice cp r contiguous align) ids_list =
    map (map (token_at ids_list)) (map (\<lambda>k. map (\<lambda>i. if i < map length ids_list ! k then Some (k, i) else None)
      (cp_positions cp r contiguous align (map length ids_list ! k))) [0..<length ids_list])"
  unfolding map_over_index [of "cp_slice cp r contiguous align" ids_list]
  by (auto simp: cp_slice_positions [OF assms] comp_def)

lemma stream_tokens:
  assumes "r < cp" "0 < align" "pack_stream cp r single align ids_list = Inr s"
  shows "st_tokens s = map (token_at ids_list) (stream_sources cp r single align (map length ids_list))"
proof -
  let ?blocks = "map (\<lambda>k. map (\<lambda>i. if i < map length ids_list ! k then Some (k, i) else None)
      (cp_positions cp r (single \<and> cp > 1) align (map length ids_list ! k))) [0..<length ids_list]"
  have parts: "map (cp_slice cp r (single \<and> cp > 1) align) ids_list = map (map (token_at ids_list)) ?blocks"
    by (rule stream_blocks [OF assms(1,2)])
  have "concat (map (cp_slice cp r (single \<and> cp > 1) align) ids_list) = map (token_at ids_list) (concat ?blocks)"
    unfolding parts map_concat ..
  then show ?thesis
    using assms(3) unfolding pack_stream_ok by (simp add: stream_sources_def Let_def)
qed

lemma cp_layouts_nth:
  "k < length xs \<Longrightarrow> cp_layouts cp contiguous align b xs ! k =
     \<lparr>lay_length = length (fst (xs ! k)), lay_chunk = cp_chunk cp contiguous align (length (fst (xs ! k))),
      lay_start = b + sum_list (map (length \<circ> snd) (take k xs)),
      lay_end = b + sum_list (map (length \<circ> snd) (take (Suc k) xs)), lay_contiguous = contiguous\<rparr>"
proof (induction xs arbitrary: b k)
  case (Cons x xs)
  obtain ids sliced where "x = (ids, sliced)" by (cases x)
  with Cons show ?case by (cases k) (simp_all add: add.assoc)
qed simp

lemma stream_layout:
  assumes "pack_stream cp r single align ids_list = Inr s" "k < length ids_list"
  defines "parts \<equiv> map (cp_slice cp r (single \<and> cp > 1) align) ids_list"
  shows "st_layouts s ! k =
     \<lparr>lay_length = length (ids_list ! k), lay_chunk = cp_chunk cp (single \<and> cp > 1) align (length (ids_list ! k)),
      lay_start = sum_list (map length (take k parts)), lay_end = sum_list (map length (take (Suc k) parts)),
      lay_contiguous = (single \<and> cp > 1)\<rparr>"
proof -
  have "map (length \<circ> snd) (take j (zip ids_list parts)) = map length (take j parts)" for j
  proof -
    have "map snd (zip ids_list parts) = parts" by (simp add: parts_def)
    then show ?thesis by (metis map_map take_map)
  qed
  then show ?thesis
    using assms(1,2) cp_layouts_nth [of k "zip ids_list parts" cp "single \<and> cp > 1" align 0]
    unfolding pack_stream_ok Let_def parts_def by simp
qed

lemma stream_position:
  assumes "r < cp" "0 < align" "k < length ids_list"
    "j < length (cp_positions cp r (single \<and> cp > 1) align (length (ids_list ! k)))"
    "i = cp_positions cp r (single \<and> cp > 1) align (length (ids_list ! k)) ! j"
  defines "start \<equiv> sum_list (map length (take k (map (cp_slice cp r (single \<and> cp > 1) align) ids_list)))"
    and "srcs \<equiv> stream_sources cp r single align (map length ids_list)"
  shows "srcs ! (start + j) = (if i < length (ids_list ! k) then Some (k, i) else None) \<and> start + j < length srcs"
proof -
  let ?blocks = "map (\<lambda>k. map (\<lambda>i. if i < map length ids_list ! k then Some (k, i) else None)
      (cp_positions cp r (single \<and> cp > 1) align (map length ids_list ! k))) [0..<length ids_list]"
  let ?pad = "replicate (stream_pad align (length (concat ?blocks))) None"
  have srcs: "srcs = concat ?blocks @ ?pad" by (simp add: srcs_def stream_sources_def Let_def)
  have start: "start = sum_list (map length (take k ?blocks))"
    unfolding start_def stream_blocks [OF assms(1,2)] by (simp add: take_map comp_def)
  have j: "j < length (?blocks ! k)" using assms(3,4) by simp
  from nth_concat [OF _ j, of ?pad] assms(3,5) assms(4)
  have "srcs ! (start + j) = (if i < length (ids_list ! k) then Some (k, i) else None)"
    unfolding srcs start by simp
  moreover have "start + j < length srcs"
  proof -
    have "?blocks = take k ?blocks @ ?blocks ! k # drop (Suc k) ?blocks" by (rule id_take_nth_drop) (use assms(3) in simp)
    then have "length (concat ?blocks) = sum_list (map length (take k ?blocks)) + length (?blocks ! k)
        + sum_list (map length (drop (Suc k) ?blocks))"
      by (metis (no_types, lifting) length_concat map_append sum_list.append list.simps(9) sum_list.Cons add.assoc)
    then show ?thesis unfolding srcs start using j by simp
  qed
  ultimately show ?thesis by simp
qed

lemma stream_row_values:
  fixes lp :: "'l \<Rightarrow> 'e::zero \<Rightarrow> 'v::comm_monoid_add"
  assumes "0 < cp" "0 < align" "k < length ids_list"
    "\<And>r. r < cp \<Longrightarrow> pack_stream cp r single align ids_list = Inr (s r)"
    "\<And>r. r < cp \<Longrightarrow> length (logits r) = length (st_tokens (s r))"
    "\<And>r p i. r < cp \<Longrightarrow> p < length (logits r) \<Longrightarrow>
       stream_sources cp r single align (map length ids_list) ! p = Some (k, i) \<Longrightarrow> logits r ! p = g i"
  shows "cp_row_values lp cp logits (ids_list ! k) (\<lambda>r. st_layouts (s r) ! k) =
    map (\<lambda>i. lp (g i) (ids_list ! k ! Suc i)) [0..<length (ids_list ! k) - 1]"
proof (rule cp_row_values_whole [OF assms(1,2), where contiguous = "single \<and> cp > 1"])
  let ?cont = "single \<and> cp > 1" and ?L = "length (ids_list ! k)"
  let ?pos = "\<lambda>r. cp_positions cp r ?cont align ?L"
    and ?parts = "\<lambda>r. map (cp_slice cp r ?cont align) ids_list"
  note lay = stream_layout [OF assms(4) assms(3)]
  have size: "sum_list (map length (take (Suc k) (?parts r))) = sum_list (map length (take k (?parts r))) + length (?pos r)"
    if "r < cp" for r
    using assms(3) by (simp add: take_Suc_conv_app_nth cp_slice_positions [OF that assms(2)])
  have total: "length (logits r) = length (stream_sources cp r single align (map length ids_list))" if "r < cp" for r
    using stream_tokens [OF that assms(2,4)] that assms(5) [OF that] by simp
  have fits: "sum_list (map length (take k (?parts r))) + j < length (logits r)" if "r < cp" "j < length (?pos r)" for r j
    using stream_position [OF that(1) assms(2,3) that(2) refl] total [OF that(1)] by simp
  show "lay_length (st_layouts (s r) ! k) = ?L \<and> lay_contiguous (st_layouts (s r) ! k) = ?cont
      \<and> lay_chunk (st_layouts (s r) ! k) = cp_chunk cp ?cont align ?L" if "r < cp" for r
    by (simp add: lay [OF that])
  show len: "length (py_slice (lay_start (st_layouts (s r) ! k)) (lay_end (st_layouts (s r) ! k)) (logits r)) = length (?pos r)"
    if r: "r < cp" for r
  proof (cases "length (?pos r)")
    case 0
    then show ?thesis unfolding lay [OF r] cp_layout.select_convs size [OF r] by simp
  next
    case (Suc n)
    with fits [OF r, of n] show ?thesis unfolding lay [OF r] cp_layout.select_convs size [OF r] by simp
  qed
  show "py_slice (lay_start (st_layouts (s r) ! k)) (lay_end (st_layouts (s r) ! k)) (logits r) ! j = g (?pos r ! j)"
    if r: "r < cp" and j: "j < length (?pos r)" "?pos r ! j < ?L" for r j
  proof -
    have "logits r ! (sum_list (map length (take k (?parts r))) + j) = g (?pos r ! j)"
      by (rule assms(6) [OF r fits [OF r j(1)]])
        (use stream_position [OF r assms(2,3) j(1) refl] j(2) in simp)
    then show ?thesis using fits [OF r j(1)] j(1)
      unfolding lay [OF r] cp_layout.select_convs size [OF r] by (simp add: py_slice_def)
  qed
qed simp

lemma count_upt: "count_list [a..<b] i = (if a \<le> i \<and> i < b then 1 else 0)"
  by (induction b) auto

lemma count_block:
  "count_list (map (\<lambda>i. if i < L then Some (k', i) else None) ps) (Some (k, i)) =
     (if k' = k \<and> i < L then count_list ps i else 0)"
  by (induction ps) auto

lemma count_list_concat: "count_list (concat xss) x = (\<Sum>xs \<leftarrow> xss. count_list xs x)"
  by (induction xss) simp_all

lemma sources_once:
  assumes "0 < cp" "0 < align" "k < length Ls" "i < Ls ! k"
  shows "(\<Sum>r \<leftarrow> [0..<cp]. count_list (stream_sources cp r single align Ls) (Some (k, i))) = 1"
proof -
  let ?cont = "single \<and> cp > 1"
  let ?c = "cp_chunk cp ?cont align (Ls ! k)"
  have one: "count_list (stream_sources cp r single align Ls) (Some (k, i)) = count_list (cp_positions cp r ?cont align (Ls ! k)) i"
    if "r < cp" for r
  proof -
    have "count_list (replicate n None) (Some (k, i)) = 0" for n by (induction n) simp_all
    then have "count_list (stream_sources cp r single align Ls) (Some (k, i)) =
        (\<Sum>k' \<leftarrow> [0..<length Ls]. if k' = k then count_list (cp_positions cp r ?cont align (Ls ! k)) i else 0)"
      unfolding stream_sources_def Let_def count_list_append count_list_concat map_map comp_def count_block
      by (simp, intro sum_list_cong) (use assms(4) in auto)
    with assms(3) show ?thesis by (simp only: sum_list_delta if_True)
  qed
  have "(\<Sum>r \<leftarrow> [0..<cp]. count_list (stream_sources cp r single align Ls) (Some (k, i)))
      = (\<Sum>r \<leftarrow> [0..<cp]. count_list (cp_positions cp r ?cont align (Ls ! k)) i)"
    by (rule sum_list_cong) (use one in simp)
  also have "\<dots> = 1"
  proof (cases "cp = 1")
    case True
    with assms(4) show ?thesis by (simp add: cp_positions_def count_upt)
  next
    case False
    have "(\<Sum>r \<leftarrow> [0..<cp]. count_list (cp_positions cp r ?cont align (Ls ! k)) i)
        = (\<Sum>r \<leftarrow> [0..<cp]. \<Sum>a \<leftarrow> layout_starts cp r ?cont ?c. if a \<le> i \<and> i < a + ?c then 1 else 0)"
      by (rule sum_list_cong) (use False in \<open>simp add: cp_positions_def layout_starts_def Let_def count_upt\<close>)
    also have "\<dots> = 1"
      by (rule one_owner) (use cp_chunk_covers [OF assms(1,2) False, of "Ls ! k" ?cont] assms(4) in linarith)
    finally show ?thesis .
  qed
  finally show ?thesis .
qed

lemma stream_pad_aligned: "0 < align \<Longrightarrow> align dvd filled + stream_pad align filled"
proof (cases "align = 1 \<or> filled mod align = 0")
  case False
  moreover assume a: "0 < align"
  ultimately have "stream_pad align filled = align - filled mod align" by (simp add: stream_pad_def)
  then have "filled + stream_pad align filled = (filled - filled mod align) + align"
    using mod_less_divisor [OF a, of filled] mod_less_eq_dividend [of filled align] by linarith
  moreover have "align dvd (filled - filled mod align) + align" by (intro dvd_add dvd_minus_mod dvd_refl)
  ultimately show ?thesis by (simp only:)
next
  case True
  then show ?thesis by (elim disjE) (simp_all add: stream_pad_def dvd_eq_mod_eq_0)
qed

lemma stream_lengths:
  assumes "r < cp" "0 < align" "pack_stream cp r single align ids_list = Inr s"
  shows "align dvd length (st_tokens s)" "length (st_tokens s) =
     (let n = sum_list (map (\<lambda>ids. length (cp_positions cp 0 (single \<and> cp > 1) align (length ids))) ids_list) in
      n + stream_pad align n)"
proof -
  have len: "length (concat (map (cp_slice cp r (single \<and> cp > 1) align) ids_list)) =
      sum_list (map (\<lambda>ids. length (cp_positions cp 0 (single \<and> cp > 1) align (length ids))) ids_list)"
    by (simp add: length_concat comp_def cp_slice_positions [OF assms(1,2)] length_cp_positions)
  show "align dvd length (st_tokens s)" "length (st_tokens s) =
     (let n = sum_list (map (\<lambda>ids. length (cp_positions cp 0 (single \<and> cp > 1) align (length ids))) ids_list) in
      n + stream_pad align n)"
    using assms(3) stream_pad_aligned [OF assms(2)] unfolding pack_stream_ok Let_def len [symmetric]
    by (auto simp del: length_concat)
qed

section \<open>Bins\<close>

definition bins_ok :: "nat \<Rightarrow> (nat \<Rightarrow> nat) \<Rightarrow> (nat list \<times> nat) list \<Rightarrow> bool" where
  "bins_ok limit len bins \<longleftrightarrow>
     (\<forall>(b, t) \<in> set bins. t = sum_list (map len b) \<and> b \<noteq> [] \<and> (t \<le> limit \<or> length b = 1))"

lemma place_row_ok:
  assumes "bins_ok limit len bins"
  shows "bins_ok limit len (place_row limit i (len i) bins)
    \<and> mset (concat (map fst (place_row limit i (len i) bins))) = mset (concat (map fst bins)) + {#i#}"
  using assms
  by (induction bins) (auto simp: bins_ok_def ac_simps split: if_splits)

lemma build_bins_ok:
  defines "limit \<equiv> \<lambda>lengths budget. if budget \<le> 0 then (if lengths = [] then 1 else Max (set lengths)) else nat budget"
  shows "mset (concat (build_bins lengths budget)) = mset [0..<length lengths]
    \<and> (\<forall>b \<in> set (build_bins lengths budget).
        b \<noteq> [] \<and> (sum_list (map (\<lambda>i. lengths ! i) b) \<le> limit lengths budget \<or> length b = 1))"
proof -
  let ?step = "\<lambda>i. place_row (limit lengths budget) i (lengths ! i)"
  have "bins_ok (limit lengths budget) (\<lambda>i. lengths ! i) (fold ?step ks bins)
      \<and> mset (concat (map fst (fold ?step ks bins))) = mset (concat (map fst bins)) + mset ks"
    if "bins_ok (limit lengths budget) (\<lambda>i. lengths ! i) bins" for ks bins
    using that
  proof (induction ks arbitrary: bins)
    case (Cons i ks)
    from place_row_ok [OF Cons.prems, of i] Cons.IH [of "?step i bins"] show ?case by simp
  qed simp
  from this [of "[]" "sort_key (\<lambda>i. - int (lengths ! i)) [0..<length lengths]"]
  show ?thesis by (auto simp: bins_ok_def build_bins_def Let_def limit_def)
qed

lemma mset_map_index: "mset (map f xs) = mset (map (\<lambda>i. f (xs ! i)) [0..<length xs])"
  by (simp add: map_over_index [of f xs])

lemma build_microbatches_ok:
  assumes "mbs = build_microbatches dynamic max_tokens cp seqs rows"
    "budget = nat (if max_tokens > 0 then max_tokens else default_token_budget)"
  shows "mset (concat (map fst mbs)) = mset rows
    \<and> (\<forall>(rs, ids) \<in> set mbs. rs \<noteq> [] \<and> ids = map (\<lambda>(r, start, L). py_slice start (start + L) (seqs ! r)) rs
        \<and> (dynamic \<longrightarrow> sum_list (map (\<lambda>(_, _, L). cp_local_length cp L) rs) \<le> budget \<or> length rs = 1)
        \<and> (\<not> dynamic \<longrightarrow> length rs = 1))"
proof -
  let ?ls = "map (\<lambda>(_, _, L). cp_local_length cp L) rows"
  let ?bins = "if dynamic then build_bins ?ls (if max_tokens > 0 then max_tokens else default_token_budget)
    else map (\<lambda>i. [i]) [0..<length rows]"
  have bins: "mset (concat ?bins) = mset [0..<length rows]
    \<and> (\<forall>b \<in> set ?bins. b \<noteq> [] \<and> (dynamic \<longrightarrow> sum_list (map (\<lambda>i. ?ls ! i) b) \<le> budget \<or> length b = 1)
        \<and> (\<not> dynamic \<longrightarrow> length b = 1))"
  proof (cases dynamic)
    case True
    with build_bins_ok [of ?ls "if max_tokens > 0 then max_tokens else default_token_budget"] assms(2)
    show ?thesis by (auto simp: default_token_budget_def split: if_splits)
  next
    case False
    have "concat (map (\<lambda>i. [i]) xs) = xs" for xs :: "nat list" by (induction xs) simp_all
    with False show ?thesis by simp
  qed
  have mbs: "mbs = map (\<lambda>bin. (map (\<lambda>j. rows ! j) bin,
      map (\<lambda>j. case rows ! j of (r, start, L) \<Rightarrow> py_slice start (start + L) (seqs ! r)) bin)) ?bins"
    by (simp add: assms(1) build_microbatches_def Let_def)
  have "mset (concat (map fst mbs)) = image_mset (\<lambda>j. rows ! j) (mset (concat ?bins))"
    unfolding mbs by (simp add: comp_def map_concat [symmetric] mset_map [symmetric] del: mset_map)
  also have "\<dots> = mset (map (\<lambda>j. rows ! j) [0..<length rows])" using bins by simp
  finally have "mset (concat (map fst mbs)) = mset rows" by (simp only: map_nth)
  moreover have "(case mb of (rs, ids) \<Rightarrow> rs \<noteq> [] \<and> ids = map (\<lambda>(r, start, L). py_slice start (start + L) (seqs ! r)) rs
        \<and> (dynamic \<longrightarrow> sum_list (map (\<lambda>(_, _, L). cp_local_length cp L) rs) \<le> budget \<or> length rs = 1)
        \<and> (\<not> dynamic \<longrightarrow> length rs = 1))" if mb: "mb \<in> set mbs" for mb
  proof -
    obtain b where b: "b \<in> set ?bins" "mb = (map (\<lambda>j. rows ! j) b,
        map (\<lambda>j. case rows ! j of (r, start, L) \<Rightarrow> py_slice start (start + L) (seqs ! r)) b)"
      using mb unfolding mbs by auto
    have "set b \<subseteq> set (concat ?bins)" using b(1) by auto
    also have "\<dots> = set [0..<length rows]" using arg_cong [OF conjunct1 [OF bins], of set_mset] by (simp only: set_mset_mset)
    finally have "set b \<subseteq> {..<length rows}" by auto
    then have eq: "map (\<lambda>i. ?ls ! i) b = map (\<lambda>(_, _, L). cp_local_length cp L) (map (\<lambda>j. rows ! j) b)" by auto
    from bspec [OF conjunct2 [OF bins] b(1)]
    have "b \<noteq> [] \<and> (dynamic \<longrightarrow> sum_list (map (\<lambda>(_, _, L). cp_local_length cp L) (map (\<lambda>j. rows ! j) b)) \<le> budget
        \<or> length b = 1) \<and> (\<not> dynamic \<longrightarrow> length b = 1)" unfolding eq .
    then show ?thesis unfolding b(2) by (simp add: comp_def)
  qed
  ultimately show ?thesis by blast
qed

lemma real_block_fits: "real_block m = (start, L) \<Longrightarrow> start + L \<le> length m"
proof -
  assume "real_block m = (start, L)"
  let ?ks = "filter (\<lambda>i. m ! i) [0..<length m]"
  show ?thesis
  proof (cases ?ks)
    case Nil
    with \<open>real_block m = (start, L)\<close> show ?thesis by (simp add: real_block_def)
  next
    case (Cons i ks)
    have "sorted ?ks" by (rule sorted_wrt_filter) simp
    then have "\<forall>x \<in> set (i # ks). i \<le> x" unfolding Cons by simp
    moreover have "\<forall>x \<in> set ?ks. x < length m" by simp
    ultimately have "set ?ks \<subseteq> {i..<length m}" unfolding Cons by auto
    then have "card (set ?ks) \<le> length m - i" using card_mono [of "{i..<length m}" "set ?ks"] by simp
    moreover have "card (set ?ks) = length ?ks" by (rule distinct_card) simp
    moreover have "i < length m" using arg_cong [OF Cons, of set] by auto
    ultimately show ?thesis using \<open>real_block m = (start, L)\<close> Cons by (simp add: real_block_def)
  qed
qed

lemma collect_rows_fit:
  "(r, start, L) \<in> set (collect_rows masks) \<Longrightarrow> r < length masks \<and> 2 \<le> L \<and> start + L \<le> length (masks ! r)"
  by (auto simp: collect_rows_def real_block_fits split: prod.splits if_splits)

lemma length_local: "length (cp_positions cp r False align L) = cp_local_length cp L"
  by (simp add: length_cp_positions cp_local_length_def cp_chunk_def)

section \<open>Properties\<close>

text \<open>C19: With a token budget every row of at least two tokens is in exactly one microbatch, with its own
  real tokens: the slice of its sequence from the start of its block, all of its length. What a context
  parallel rank packs for a microbatch exceeds the budget by less than the alignment, unless the
  microbatch is a single row whose own share of tokens on a rank is over the budget; ranks of an expert
  parallel group run the same number of microbatches.\<close>

theorem microbatches_within_budget:
  assumes "rows = collect_rows masks" "list_all2 (\<lambda>m s. length m = length s) masks seqs"
    "mbs = build_microbatches True max_tokens cp seqs rows" "0 < cp" "0 < align"
    "budget = nat (if max_tokens > 0 then max_tokens else default_token_budget)"
    "1 < ep" "length mbs \<in> set counts"
  shows "mset (concat (map fst mbs)) = mset rows
    \<and> (\<forall>(rs, ids) \<in> set mbs.
        ids = map (\<lambda>(r, start, L). py_slice start (start + L) (seqs ! r)) rs \<and> map length ids = map (\<lambda>(_, _, L). L) rs
        \<and> (\<forall>r < cp. \<exists>s. pack_stream cp r False align ids = Inr s
            \<and> (length (st_tokens s) < budget + align \<or> (\<exists>k start L. rs = [(k, start, L)] \<and> budget < cp_local_length cp L))))
    \<and> length (pad_mbs_for_ep True ep counts mbs) = Max (set counts) \<and> take (length mbs) (pad_mbs_for_ep True ep counts mbs) = mbs"
proof -
  from build_microbatches_ok [OF assms(3,6)] have parts: "mset (concat (map fst mbs)) = mset rows"
    and each: "\<And>rs ids. (rs, ids) \<in> set mbs \<Longrightarrow> rs \<noteq> [] \<and> ids = map (\<lambda>(r, start, L). py_slice start (start + L) (seqs ! r)) rs
      \<and> (sum_list (map (\<lambda>(_, _, L). cp_local_length cp L) rs) \<le> budget \<or> length rs = 1)" by blast+
  have mem: "set rs \<subseteq> set rows" if "(rs, ids) \<in> set mbs" for rs ids
    using that arg_cong [OF parts, of set_mset] by (force simp del: mset_concat)
  have "ids = map (\<lambda>(r, start, L). py_slice start (start + L) (seqs ! r)) rs \<and> map length ids = map (\<lambda>(_, _, L). L) rs
      \<and> (\<forall>r < cp. \<exists>s. pack_stream cp r False align ids = Inr s
          \<and> (length (st_tokens s) < budget + align \<or> (\<exists>k start L. rs = [(k, start, L)] \<and> budget < cp_local_length cp L)))"
    if mb: "(rs, ids) \<in> set mbs" for rs ids
  proof -
    have "length (py_slice start (start + L) (seqs ! r)) = L" if row: "(r, start, L) \<in> set rs" for r start L
    proof -
      have fit: "r < length masks" "start + L \<le> length (masks ! r)"
        using collect_rows_fit [of r start L masks] row mem [OF mb] unfolding assms(1) by blast+
      then show ?thesis using list_all2_nthD [OF assms(2) fit(1)] by simp
    qed
    then have lens: "map length ids = map (\<lambda>(_, _, L). L) rs" using each [OF mb] by auto
    have single: "sum_list (map (\<lambda>(_, _, L). cp_local_length cp L) rs) \<le> budget
        \<or> (\<exists>k start L. rs = [(k, start, L)] \<and> budget < cp_local_length cp L)"
      using each [OF mb] by (auto simp: length_Suc_conv)
    have "\<exists>s. pack_stream cp r False align ids = Inr s
        \<and> (length (st_tokens s) < budget + align \<or> (\<exists>k start L. rs = [(k, start, L)] \<and> budget < cp_local_length cp L))"
      if r: "r < cp" for r
    proof -
      obtain s where s: "pack_stream cp r False align ids = Inr s"
        using each [OF mb] by (simp add: pack_stream_def Let_def)
      let ?n = "sum_list (map (\<lambda>ids. length (cp_positions cp 0 False align (length ids))) ids)"
      have "?n = sum_list (map (cp_local_length cp) (map length ids))" by (simp add: length_local comp_def)
      also have "\<dots> = sum_list (map (\<lambda>(_, _, L). cp_local_length cp L) rs)"
        unfolding lens by (simp add: comp_def case_prod_unfold)
      finally have "?n \<le> budget \<or> (\<exists>k start L. rs = [(k, start, L)] \<and> budget < cp_local_length cp L)"
        using single by simp
      moreover have "stream_pad align ?n < align" using assms(5) by (simp add: stream_pad_def)
      moreover have "length (st_tokens s) = ?n + stream_pad align ?n"
        using stream_lengths(2) [OF r assms(5) s] by (simp add: Let_def)
      ultimately show ?thesis using s by auto
    qed
    with lens each [OF mb] show ?thesis by blast
  qed
  moreover have "length mbs \<le> Max (set counts)" using assms(8) by simp
  ultimately show ?thesis using parts assms(7) by (auto simp: pad_mbs_for_ep_def)
qed

lemma microbatches_within_budget_witness:
  "let masks = [[False, True, True], [True, True, True], [False, False, True]]; seqs = [[1, 2, 3], [4, 5, 6], [7, 8, 9 :: nat]];
      rows = collect_rows masks; mbs = build_microbatches True 8 2 seqs rows in
    mset (concat (map fst mbs)) = mset rows
    \<and> list_all (\<lambda>(rs, ids).
        ids = map (\<lambda>(r, start, L). py_slice start (start + L) (seqs ! r)) rs \<and> map length ids = map (\<lambda>(_, _, L). L) rs
        \<and> list_all (\<lambda>r. \<exists>s. pack_stream 2 r False 4 ids = Inr s
            \<and> (length (st_tokens s) < 8 + 4 \<or> (\<exists>k start L. rs = [(k, start, L)] \<and> 8 < cp_local_length 2 L))) [0..<2]) mbs
    \<and> length (pad_mbs_for_ep True 2 [length mbs, 3] mbs) = Max (set [length mbs, 3])
    \<and> take (length mbs) (pad_mbs_for_ep True 2 [length mbs, 3] mbs) = mbs"
proof -
  let ?masks = "[[False, True, True], [True, True, True], [False, False, True]]"
    and ?seqs = "[[1, 2, 3], [4, 5, 6], [7, 8, 9 :: nat]]"
  let ?mbs = "build_microbatches True 8 2 ?seqs (collect_rows ?masks)"
  have "mset (concat (map fst ?mbs)) = mset (collect_rows ?masks)
    \<and> (\<forall>(rs, ids) \<in> set ?mbs.
        ids = map (\<lambda>(r, start, L). py_slice start (start + L) (?seqs ! r)) rs \<and> map length ids = map (\<lambda>(_, _, L). L) rs
        \<and> (\<forall>r < 2. \<exists>s. pack_stream 2 r False 4 ids = Inr s
            \<and> (length (st_tokens s) < 8 + 4 \<or> (\<exists>k start L. rs = [(k, start, L)] \<and> 8 < cp_local_length 2 L))))
    \<and> length (pad_mbs_for_ep True 2 [length ?mbs, 3] ?mbs) = Max (set [length ?mbs, 3])
    \<and> take (length ?mbs) (pad_mbs_for_ep True 2 [length ?mbs, 3] ?mbs) = ?mbs"
    by (rule microbatches_within_budget [OF refl _ refl]) simp_all
  then show ?thesis unfolding Let_def list_all_iff by auto
qed

text \<open>C18: Packing fails exactly when there is no sequence or a single-sequence model gets several under context
  parallelism.
  Otherwise the streams of all ranks have one length that the alignment divides, every token of a stream
  is the one its source names, padding is zero, and every position of every sequence is on exactly one rank, once.\<close>

theorem streams_partition_tokens:
  assumes "0 < cp" "0 < align"
  shows "((\<forall>r < cp. \<exists>s. pack_stream cp r single align ids_list = Inr s) \<longleftrightarrow> ids_list \<noteq> [] \<and> \<not> (single \<and> cp > 1 \<and> length ids_list > 1))
    \<and> (\<forall>r < cp. \<forall>s. pack_stream cp r single align ids_list = Inr s \<longrightarrow>
         st_tokens s = map (token_at ids_list) (stream_sources cp r single align (map length ids_list))
         \<and> align dvd length (st_tokens s)
         \<and> (\<forall>r' < cp. \<forall>s'. pack_stream cp r' single align ids_list = Inr s' \<longrightarrow> length (st_tokens s') = length (st_tokens s)))
    \<and> (\<forall>k < length ids_list. \<forall>i < length (ids_list ! k).
         (\<Sum>r \<leftarrow> [0..<cp]. count_list (stream_sources cp r single align (map length ids_list)) (Some (k, i))) = 1)"
proof (intro conjI allI impI)
  show "(\<forall>r < cp. \<exists>s. pack_stream cp r single align ids_list = Inr s) \<longleftrightarrow> ids_list \<noteq> [] \<and> \<not> (single \<and> cp > 1 \<and> length ids_list > 1)"
    using assms(1) by (auto simp: pack_stream_def Let_def)
next
  fix k i assume "k < length ids_list" "i < length (ids_list ! k)"
  then show "(\<Sum>r \<leftarrow> [0..<cp]. count_list (stream_sources cp r single align (map length ids_list)) (Some (k, i))) = 1"
    by (intro sources_once [OF assms]) simp_all
next
  fix r s assume s: "r < cp" "pack_stream cp r single align ids_list = Inr s"
  show "st_tokens s = map (token_at ids_list) (stream_sources cp r single align (map length ids_list))"
    by (rule stream_tokens [OF s(1) assms(2) s(2)])
  show "align dvd length (st_tokens s)" by (rule stream_lengths(1) [OF s(1) assms(2) s(2)])
  fix r' s' assume s': "r' < cp" "pack_stream cp r' single align ids_list = Inr s'"
  show "length (st_tokens s') = length (st_tokens s)"
    unfolding stream_lengths(2) [OF s(1) assms(2) s(2)] stream_lengths(2) [OF s'(1) assms(2) s'(2)] ..
qed

lemma streams_partition_tokens_witness:
  "(\<Sum>r \<leftarrow> [0..<2]. count_list (stream_sources 2 r False 4 (map length [[5, 6, 7 :: nat], [8, 9]])) (Some (0, 2))) = 1
    \<and> (\<exists>s. pack_stream 2 1 False 4 [[5, 6, 7 :: nat], [8, 9]] = Inr s)"
  using streams_partition_tokens [of 2 4 False "[[5, 6, 7 :: nat], [8, 9]]"] by (simp del: count_list.simps)

text \<open>C17: If the model gives every real token of the streams the value \<open>g k i\<close> of its position in its sequence,
  the values of a row that the ranks compute and sum are those of the whole row: the kernel on the value
  at every position but the last and the token after it, also across chunk boundaries.\<close>

theorem context_parallel_values_whole:
  fixes lp :: "'l \<Rightarrow> 'e::zero \<Rightarrow> 'v::comm_monoid_add"
  assumes "0 < cp" "0 < align" "k < length ids_list"
    "\<And>r. r < cp \<Longrightarrow> pack_stream cp r single align ids_list = Inr (s r)"
    "\<And>r. r < cp \<Longrightarrow> length (logits r) = length (st_tokens (s r))"
    "\<And>r p k i. r < cp \<Longrightarrow> p < length (logits r) \<Longrightarrow>
       stream_sources cp r single align (map length ids_list) ! p = Some (k, i) \<Longrightarrow> logits r ! p = g k i"
  shows "cp_row_values lp cp logits (ids_list ! k) (\<lambda>r. st_layouts (s r) ! k) =
    map (\<lambda>i. lp (g k i) (ids_list ! k ! Suc i)) [0..<length (ids_list ! k) - 1]"
  by (rule stream_row_values [where g = "g k", OF assms(1-5)]) (use assms(6) in blast)+

lemma context_parallel_values_whole_witness:
  "let ids_list = [[5, 6, 7, 8, 9 :: nat], [1, 2]]; s = (\<lambda>r. projr (pack_stream 2 r False 2 ids_list));
      logits = (\<lambda>r. map (\<lambda>src. case src of None \<Rightarrow> 0 | Some (k, i) \<Rightarrow> 10 * k + i)
        (stream_sources 2 r False 2 (map length ids_list))) in
    cp_row_values (\<lambda>l e. 100 * l + e) 2 logits (ids_list ! 0) (\<lambda>r. st_layouts (s r) ! 0) =
      map (\<lambda>i. 100 * (10 * 0 + i) + ids_list ! 0 ! Suc i) [0..<length (ids_list ! 0) - 1]"
  unfolding Let_def
proof (rule context_parallel_values_whole [where g = "\<lambda>k i. 10 * k + i"])
  let ?ids = "[[5, 6, 7, 8, 9 :: nat], [1, 2]]"
  show s: "pack_stream 2 r False 2 ?ids = Inr (projr (pack_stream 2 r False 2 ?ids))" if "r < 2" for r
    by (simp add: pack_stream_def Let_def)
  show "length (map (\<lambda>src. case src of None \<Rightarrow> 0 | Some (k, i) \<Rightarrow> 10 * k + i) (stream_sources 2 r False 2 (map length ?ids))) =
      length (st_tokens (projr (pack_stream 2 r False 2 ?ids)))" if "r < 2" for r
    using stream_tokens [OF that _ s [OF that]] by simp
qed auto

end
