(* ===== verification/Route_Packing.thy ===== *)
theory Route_Packing
  imports Context_Parallel
begin

text \<open>
  \<open>lumenrl/engine/training/megatron_r3_replay.py\<close>: the experts that the rollout chose for every token
  are packed like the tokens of a microbatch and handed to Megatron's \<open>RouterReplay\<close>, one tensor for
  each router of the stage. A tensor of routes is the list of its tokens, each with one list of
  expert ids per layer. The calls to \<open>RouterReplay\<close> are values.
\<close>

section \<open>Routes of a batch\<close>

record route_array =
  ra_shape :: "nat list"
  ra_tokens :: "int list list list"

datatype routes =
    Ragged_Routes "route_array list"
  | Dense_Routes nat nat "int list list list list" \<comment> \<open>layers, experts per token, rows\<close>

definition routes_from_batch ::
  "nat \<Rightarrow> route_array option list option \<Rightarrow> (nat list \<times> int list list list list) option \<Rightarrow> routes result" where
  \<comment> \<open>the ragged column \<open>rollout_routing\<close> and the tensor \<open>rollout_routed_experts\<close>\<close>
  "routes_from_batch n_rows col dense =
     (case col of
        Some rows \<Rightarrow>
          if length rows \<noteq> n_rows then Inl ValueError
          else if None \<in> set rows then Inl RuntimeError
          else Inr (Ragged_Routes (map the rows))
      | None \<Rightarrow>
          (case dense of
             None \<Rightarrow> Inl RuntimeError
           | Some (shape, data) \<Rightarrow>
               if length shape \<noteq> 4 then Inl ValueError else Inr (Dense_Routes (shape ! 2) (shape ! 3) data)))"

definition extract_row_routes :: "routes \<Rightarrow> nat \<Rightarrow> nat \<Rightarrow> nat \<Rightarrow> route_array result" where
  "extract_row_routes routes row start L =
     bind_result
       (case routes of
          Dense_Routes layers topk data \<Rightarrow>
            if row < length data
            then let part = py_slice start (start + (L - 1)) (data ! row) in
              Inr \<lparr>ra_shape = [length part, layers, topk], ra_tokens = part\<rparr>
            else Inl IndexError
        | Ragged_Routes rs \<Rightarrow> if row < length rs then Inr (rs ! row) else Inl IndexError)
       (\<lambda>extracted.
          if length (ra_shape extracted) \<noteq> 3 then Inl ValueError
          else if ra_shape extracted ! 0 \<noteq> L - 1 then Inl ValueError
          else Inr extracted)"

definition route_meta :: "routes \<Rightarrow> (nat \<times> nat) result" where
  "route_meta routes =
     (case routes of
        Dense_Routes layers topk data \<Rightarrow> Inr (layers, topk)
      | Ragged_Routes rs \<Rightarrow>
          (case rs of
             [] \<Rightarrow> Inl IndexError
           | a # _ \<Rightarrow> if length (ra_shape a) < 3 then Inl IndexError else Inr (ra_shape a ! 1, ra_shape a ! 2)))"

definition local_router_layer_indices :: "nat list \<Rightarrow> (nat option \<times> int option) list \<Rightarrow> int list result" where
  \<comment> \<open>\<open>instances\<close> are the identities of Megatron's replay objects, \<open>modules\<close> the \<open>router_replay\<close> and
      \<open>layer_number\<close> of the model's modules\<close>
  "local_router_layer_indices instances modules =
     (if instances = [] then Inl RuntimeError
      else
        let by_id = fold (\<lambda>(replay, number) m. case (replay, number) of
              (Some i, Some n) \<Rightarrow> m(i \<mapsto> n - 1) | _ \<Rightarrow> m) modules Map.empty in
        map_result (\<lambda>i. case by_id i of Some n \<Rightarrow> Inr n | None \<Rightarrow> Inl RuntimeError) instances)"

section \<open>Routes of a microbatch\<close>

definition cp_local_indices :: "nat \<Rightarrow> nat \<Rightarrow> nat \<Rightarrow> bool \<Rightarrow> nat \<Rightarrow> nat list" where
  "cp_local_indices L cp r contiguous align =
     (if cp \<le> 1 then [0..<L]
      else if contiguous then
        let chunk = ceil_div (ceil_div L cp) align * align; padded = cp * chunk in
        map (\<lambda>i. min i (padded - 1)) [r * chunk..<r * chunk + chunk]
      else
        let chunk = ceil_div L (2 * cp); second = (2 * cp - r - 1) * chunk in
        [r * chunk..<r * chunk + chunk] @ [second..<second + chunk])"

definition gather_token_routes :: "'t list \<Rightarrow> nat list \<Rightarrow> 't list" where
  "gather_token_routes full idx =
     (let n = length full;
          padded = (if idx \<noteq> [] \<and> Max (set idx) \<ge> n
                    then full @ replicate (Max (set idx) + 1 - n) (last full) else full) in
      map (\<lambda>i. padded ! i) idx)"

definition filler_token :: "nat \<Rightarrow> nat \<Rightarrow> int list list" where
  "filler_token layers topk = replicate layers (map int [0..<topk])"

definition row_piece ::
  "routes \<Rightarrow> nat \<times> nat \<Rightarrow> nat \<Rightarrow> nat \<Rightarrow> bool \<Rightarrow> nat \<Rightarrow> block_row \<Rightarrow> int list list list result" where
  \<comment> \<open>what the router of this rank gets for one row\<close>
  "row_piece routes dims cp r contiguous align row =
     (case row of (i, start, L) \<Rightarrow>
        bind_result (extract_row_routes routes i start L) (\<lambda>real.
          if tl (ra_shape real) \<noteq> [fst dims, snd dims] then Inl RuntimeError
          else Inr (gather_token_routes (ra_tokens real @ [filler_token (fst dims) (snd dims)])
                 (cp_local_indices L cp r contiguous align))))"

definition replay_tokens ::
  "routes \<Rightarrow> nat \<times> nat \<Rightarrow> block_row list \<Rightarrow> nat \<Rightarrow> nat \<Rightarrow> nat \<Rightarrow> bool \<Rightarrow> nat \<Rightarrow> int list list list result" where
  \<comment> \<open>the routes of the whole stream\<close>
  "replay_tokens routes dims rows packed_len cp r contiguous align =
     (let filler = filler_token (fst dims) (snd dims) in
      if rows = [] then Inr (replicate packed_len filler)
      else bind_result (map_result (row_piece routes dims cp r contiguous align) rows) (\<lambda>pieces.
        let replay = concat pieces @ replicate (packed_len - length (concat pieces)) filler in
        if length replay \<noteq> packed_len then Inl ValueError else Inr replay))"

definition sp_shard :: "bool \<Rightarrow> nat \<Rightarrow> nat \<Rightarrow> 't list \<Rightarrow> 't list result" where
  \<comment> \<open>the part of a tensor parallel rank under sequence parallelism\<close>
  "sp_shard sp tp tp_rank replay =
     (if sp \<and> tp > 1 then
        if length replay mod tp \<noteq> 0 then Inl ValueError
        else let shard = length replay div tp in Inr (py_slice (tp_rank * shard) ((tp_rank + 1) * shard) replay)
      else Inr replay)"

definition pack_microbatch_routes ::
  "routes option \<Rightarrow> block_row list \<Rightarrow> nat \<Rightarrow> int \<Rightarrow> int list \<Rightarrow> nat \<Rightarrow> nat \<Rightarrow> bool \<Rightarrow> nat
   \<Rightarrow> nat \<Rightarrow> nat \<Rightarrow> bool \<Rightarrow> int list list list result" where
  "pack_microbatch_routes routes rows packed_len experts layer_indices cp r contiguous align tp tp_rank sp =
     (if packed_len = 0 then Inl ValueError
      else case routes of None \<Rightarrow> Inl ValueError | Some rts \<Rightarrow>
        bind_result (route_meta rts) (\<lambda>dims.
        bind_result (replay_tokens rts dims rows packed_len cp r contiguous align) (\<lambda>whole.
        bind_result (sp_shard sp tp tp_rank whole) (\<lambda>replay.
        if \<exists>l \<in> set layer_indices. l < 0 \<or> l \<ge> int (fst dims) then Inl ValueError
        else
          let sel = map (\<lambda>tok. map (\<lambda>l. tok ! nat l) layer_indices) replay in
          if \<exists>tok \<in> set sel. \<exists>ids \<in> set tok. \<exists>e \<in> set ids. e < 0 \<or> e \<ge> experts then Inl ValueError
          else Inr (map (\<lambda>j. map (\<lambda>tok. tok ! j) sel) [0..<length layer_indices])))))"

section \<open>Megatron's replay\<close>

datatype router_call =
    Clear_Action
  | Clear_Indices
  | Set_Replay_Data "int list list list"
  | Replay_Forward

definition clear_replay :: "router_call list" where
  "clear_replay = [Clear_Action, Clear_Indices]"

definition install_replay :: "nat \<Rightarrow> int list list list \<Rightarrow> bool \<Rightarrow> router_call list result" where
  \<comment> \<open>with the number of replay objects\<close>
  "install_replay instances layer_tensors keep =
     (if instances = 0 then Inl RuntimeError
      else if length layer_tensors \<noteq> instances then Inl ValueError
      else Inr ((if keep then [] else [Clear_Indices]) @ [Set_Replay_Data layer_tensors, Replay_Forward]))"

definition install_stream_routes ::
  "routes option \<Rightarrow> nat \<Rightarrow> int list \<Rightarrow> bool \<Rightarrow> block_row list \<Rightarrow> nat \<Rightarrow> int \<Rightarrow> nat \<Rightarrow> nat \<Rightarrow> bool \<Rightarrow> nat
   \<Rightarrow> nat \<Rightarrow> nat \<Rightarrow> bool \<Rightarrow> router_call list result" where
  \<comment> \<open>the part of \<open>_pp_forward_model\<close> for the routes of the stream it has packed\<close>
  "install_stream_routes routes instances layer_indices keep rows packed_len experts cp r contiguous align tp tp_rank sp =
     (if routes = None then Inl RuntimeError
      else bind_result
        (pack_microbatch_routes routes rows packed_len experts layer_indices cp r contiguous align tp tp_rank sp)
        (\<lambda>tensors. install_replay instances tensors keep))"


section \<open>Positions\<close>

lemma cp_local_indices_positions:
  assumes "r < cp"
  shows "cp_local_indices L cp r contiguous align = cp_positions cp r contiguous align L"
proof (cases "cp \<le> 1")
  case True
  with assms have "cp = 1" by simp
  then show ?thesis by (simp add: cp_local_indices_def cp_positions_def)
next
  case False
  let ?c = "ceil_div (ceil_div L cp) align * align"
  have "min i (cp * ?c - 1) = i" if "i < r * ?c + ?c" for i
  proof -
    have "i < cp * ?c" using that chunk_bound [OF assms, of ?c] by linarith
    then show ?thesis by simp
  qed
  then have "map (\<lambda>i. min i (cp * ?c - 1)) [r * ?c..<r * ?c + ?c] = [r * ?c..<r * ?c + ?c]"
    by (intro map_idI) simp
  with False show ?thesis by (simp add: cp_local_indices_def cp_positions_def cp_chunk_def Let_def)
qed

lemma gather_token_routes_nth:
  assumes "full \<noteq> []"
  shows "gather_token_routes full idx = map (\<lambda>i. if i < length full then full ! i else last full) idx"
proof -
  have "(full @ replicate (Max (set idx) + 1 - length full) (last full)) ! i = (if i < length full then full ! i else last full)"
    if "i \<in> set idx" for i
  proof -
    have "i \<le> Max (set idx)" using that by simp
    then show ?thesis by (simp add: nth_append)
  qed
  moreover have "i < length full" if "i \<in> set idx" "\<not> Max (set idx) \<ge> length full" for i
  proof -
    have "i \<le> Max (set idx)" using that(1) by simp
    with that(2) show ?thesis by simp
  qed
  ultimately show ?thesis by (auto simp: gather_token_routes_def Let_def)
qed

definition route_at :: "(nat \<Rightarrow> int list list list) \<Rightarrow> int list list \<Rightarrow> (nat \<times> nat) option \<Rightarrow> int list list" where
  \<comment> \<open>the rollout's choice for a source of the stream\<close>
  "route_at real filler src =
     (case src of None \<Rightarrow> filler | Some (k, i) \<Rightarrow> if i < length (real k) then real k ! i else filler)"

lemma row_piece_ok:
  assumes "r < cp" "extract_row_routes routes i start L = Inr a" "tl (ra_shape a) = [fst dims, snd dims]"
    "length (ra_tokens a) = L - 1" "2 \<le> L"
  shows "row_piece routes dims cp r contiguous align (i, start, L) =
    Inr (map (\<lambda>i. if i < L - 1 then ra_tokens a ! i else filler_token (fst dims) (snd dims)) (cp_positions cp r contiguous align L))"
  using assms by (auto simp: row_piece_def cp_local_indices_positions gather_token_routes_nth nth_append)

lemma replay_tokens_sources:
  fixes rows real
  assumes "r < cp" "0 < align" "pack_stream cp r single align ids_list = Inr s"
    "map length ids_list = map (\<lambda>(_, _, L). L) rows" "\<forall>(i, start, L) \<in> set rows. 2 \<le> L"
    "\<And>k i start L. k < length rows \<Longrightarrow> rows ! k = (i, start, L) \<Longrightarrow>
       extract_row_routes routes i start L = Inr (real k) \<and> tl (ra_shape (real k)) = [fst dims, snd dims]
       \<and> length (ra_tokens (real k)) = L - 1"
  shows "replay_tokens routes dims rows (length (st_tokens s)) cp r (single \<and> cp > 1) align =
    Inr (map (route_at (\<lambda>k. ra_tokens (real k)) (filler_token (fst dims) (snd dims)))
           (stream_sources cp r single align (map length ids_list)))"
proof -
  let ?cont = "single \<and> cp > 1" and ?filler = "filler_token (fst dims) (snd dims)"
  let ?route = "route_at (\<lambda>k. ra_tokens (real k)) ?filler"
  let ?Ls = "map length ids_list"
  let ?block = "\<lambda>k. map (\<lambda>i. if i < ?Ls ! k then Some (k, i) else None) (cp_positions cp r ?cont align (?Ls ! k))"
  have n: "length rows = length ids_list" using arg_cong [OF assms(4), of length] by simp
  have "row_piece routes dims cp r ?cont align (rows ! k) = Inr (map ?route (?block k))" if k: "k < length rows" for k
  proof -
    obtain i start L where row: "rows ! k = (i, start, L)" by (metis surj_pair)
    have "?Ls ! k = map (\<lambda>(_, _, L). L) rows ! k" unfolding assms(4) ..
    with row k n have L: "?Ls ! k = L" by simp
    have "2 \<le> L" using assms(5) row k nth_mem [of k rows] by auto
    with assms(6) [OF k row] row_piece_ok [OF assms(1), of routes i start L "real k" dims ?cont align]
    show ?thesis unfolding row L by (auto simp: route_at_def)
  qed
  then have pieces: "map_result (row_piece routes dims cp r ?cont align) rows = Inr (map (\<lambda>k. map ?route (?block k)) [0..<length rows])"
    unfolding map_result_Inr_iff by (simp add: list_all2_conv_all_nth)
  have srcs: "stream_sources cp r single align ?Ls = concat (map ?block [0..<length rows])
      @ replicate (stream_pad align (length (concat (map ?block [0..<length rows])))) None"
    using n by (simp add: stream_sources_def Let_def)
  have len: "length (st_tokens s) = length (stream_sources cp r single align ?Ls)"
    unfolding stream_tokens [OF assms(1-3)] by simp
  have whole: "concat (map (\<lambda>k. map ?route (?block k)) [0..<length rows]) = map ?route (concat (map ?block [0..<length rows]))"
    by (simp add: map_concat comp_def)
  have "rows \<noteq> []" using assms(3) n unfolding pack_stream_ok by auto
  then show ?thesis unfolding replay_tokens_def Let_def pieces bind_result_simps len srcs whole
    by (simp add: route_at_def)
qed

lemma sp_shard_ok:
  assumes "sp \<Longrightarrow> tp > 1 \<Longrightarrow> tp dvd length xs" "tp_rank < tp"
  defines "n \<equiv> (if sp \<and> tp > 1 then length xs div tp else length xs)"
  defines "begin_at \<equiv> (if sp \<and> tp > 1 then tp_rank * n else 0)"
  shows "sp_shard sp tp tp_rank xs = Inr (map (\<lambda>p. xs ! (begin_at + p)) [0..<n])"
proof (cases "sp \<and> tp > 1")
  case True
  with assms(1) have d: "tp dvd length xs" by simp
  have fits: "(tp_rank + 1) * n \<le> length xs"
  proof -
    have "(tp_rank + 1) * n \<le> tp * n" using assms(2) by (intro mult_le_mono1) simp
    also have "\<dots> = length xs" using d True by (simp add: n_def)
    finally show ?thesis .
  qed
  have "map (\<lambda>p. xs ! (tp_rank * n + p)) [0..<n] = map (\<lambda>i. xs ! i) [tp_rank * n..<(tp_rank + 1) * n]"
    by (rule nth_equalityI) (simp_all add: algebra_simps)
  with True d py_slice_nths [OF fits, of "tp_rank * n"] show ?thesis
    by (simp add: sp_shard_def begin_at_def n_def Let_def)
next
  case False
  then show ?thesis by (auto simp: sp_shard_def begin_at_def n_def map_nth)
qed


lemma stream_nonempty:
  assumes "0 < cp" "r < cp" "0 < align" "pack_stream cp r single align ids_list = Inr s"
    "\<forall>ids \<in> set ids_list. 0 < length ids"
  shows "st_tokens s \<noteq> []"
proof -
  obtain ids rest where ids: "ids_list = ids # rest" using assms(4) unfolding pack_stream_ok by (cases ids_list) auto
  have L: "0 < length ids" using assms(5) by (simp add: ids)
  have "0 < length (cp_positions cp r (single \<and> cp > 1) align (length ids))"
  proof (cases "cp = 1")
    case True
    with L show ?thesis unfolding length_cp_positions by simp
  next
    case False
    have "0 < cp_chunk cp (single \<and> cp > 1) align (length ids)"
      using cp_chunk_covers [OF assms(1,3) False, of "length ids" "single \<and> cp > 1"] L by (intro gr0I) simp
    with False show ?thesis unfolding length_cp_positions by simp
  qed
  then have "cp_slice cp r (single \<and> cp > 1) align ids \<noteq> []" by (simp only: cp_slice_positions [OF assms(2,3)] length_greater_0_conv map_is_Nil_conv simp_thms)
  then show ?thesis using assms(4) unfolding pack_stream_ok by (simp add: ids Let_def)
qed

lemma sources_known:
  "Some (k, i) \<in> set (stream_sources cp r single align Ls) \<Longrightarrow> k < length Ls \<and> i < Ls ! k"
  by (auto simp: stream_sources_def Let_def split: if_splits)

lemma shard_inside:
  fixes p n N tp tp_rank :: nat
  assumes "p < n" "tp_rank < tp" "n = (if sp \<and> tp > 1 then N div tp else N)"
    "begin_at = (if sp \<and> tp > 1 then tp_rank * n else 0)"
  shows "begin_at + p < N"
proof (cases "sp \<and> tp > 1")
  case True
  have "tp_rank * n + p < Suc tp_rank * n" using assms(1) unfolding mult_Suc by linarith
  also have "\<dots> \<le> tp * n" using assms(2) by (intro mult_le_mono1) simp
  also have "\<dots> \<le> N" using True by (simp add: assms(3))
  finally show ?thesis using True by (simp add: assms(4))
qed (use assms in \<open>auto split: if_splits\<close>)

lemma routes_packed:
  fixes rows real
  assumes "0 < cp" "r < cp" "0 < align" "pack_stream cp r single align ids_list = Inr s"
    "map length ids_list = map (\<lambda>(_, _, L). L) rows" "\<forall>(i, start, L) \<in> set rows. 2 \<le> L"
    "route_meta rts = Inr (layers, topk)"
    "\<And>k i start L. k < length rows \<Longrightarrow> rows ! k = (i, start, L) \<Longrightarrow>
       extract_row_routes rts i start L = Inr (real k) \<and> tl (ra_shape (real k)) = [layers, topk]
       \<and> length (ra_tokens (real k)) = L - 1"
    "\<forall>l \<in> set layer_indices. 0 \<le> l \<and> l < int layers"
    "\<And>k tok l e. k < length rows \<Longrightarrow> tok \<in> set (ra_tokens (real k)) \<Longrightarrow> l \<in> set layer_indices \<Longrightarrow>
       e \<in> set (tok ! nat l) \<Longrightarrow> 0 \<le> e \<and> e < experts"
    "int topk \<le> experts" "sp \<Longrightarrow> tp dvd align" "tp_rank < tp"
  defines "srcs \<equiv> stream_sources cp r single align (map length ids_list)"
  defines "n \<equiv> (if sp \<and> tp > 1 then length srcs div tp else length srcs)"
  defines "begin_at \<equiv> (if sp \<and> tp > 1 then tp_rank * n else 0)"
  shows "pack_microbatch_routes (Some rts) rows (length (st_tokens s)) experts layer_indices cp r (single \<and> cp > 1) align tp tp_rank sp
    = Inr (map (\<lambda>l. map (\<lambda>p. route_at (\<lambda>k. ra_tokens (real k)) (filler_token layers topk) (srcs ! (begin_at + p)) ! nat l) [0..<n])
        layer_indices)"
proof -
  let ?filler = "filler_token layers topk"
  let ?route = "route_at (\<lambda>k. ra_tokens (real k)) ?filler"
  let ?sel = "map (\<lambda>tok. map (\<lambda>l. tok ! nat l) layer_indices) (map (\<lambda>p. ?route (srcs ! (begin_at + p))) [0..<n])"
  have whole: "replay_tokens rts (layers, topk) rows (length (st_tokens s)) cp r (single \<and> cp > 1) align = Inr (map ?route srcs)"
    using replay_tokens_sources [where dims = "(layers, topk)", OF assms(2-6)] assms(8) by (simp add: srcs_def)
  have len: "length (st_tokens s) = length srcs" unfolding srcs_def stream_tokens [OF assms(2-4)] by simp
  have "tp dvd length (map ?route srcs)" if "sp"
    using assms(12) [OF that] stream_lengths(1) [OF assms(2-4)] len by (auto intro: dvd_trans)
  from sp_shard_ok [OF this assms(13)]
  have shard: "sp_shard sp tp tp_rank (map ?route srcs) = Inr (map (\<lambda>p. map ?route srcs ! (begin_at + p)) [0..<n])"
    by (simp add: n_def begin_at_def)
  have inside: "begin_at + p < length srcs" if "p < n" for p
    by (rule shard_inside [OF that assms(13)]) (simp_all add: n_def begin_at_def)
  then have shard': "map (\<lambda>p. map ?route srcs ! (begin_at + p)) [0..<n] = map (\<lambda>p. ?route (srcs ! (begin_at + p))) [0..<n]"
    by simp
  have rng: "0 \<le> e \<and> e < experts" if "p < n" "l \<in> set layer_indices" "e \<in> set (?route (srcs ! (begin_at + p)) ! nat l)" for p l e
  proof (cases "\<exists>k i. srcs ! (begin_at + p) = Some (k, i) \<and> i < length (ra_tokens (real k))")
    case True
    then obtain k i where ki: "srcs ! (begin_at + p) = Some (k, i)" "i < length (ra_tokens (real k))" by blast
    have "Some (k, i) \<in> set srcs" using nth_mem [OF inside [OF that(1)]] ki(1) by simp
    then have "k < length ids_list" using sources_known unfolding srcs_def by fastforce
    then have "k < length rows" using arg_cong [OF assms(5), of length] by simp
    moreover have "ra_tokens (real k) ! i \<in> set (ra_tokens (real k))" using ki(2) by simp
    moreover have "e \<in> set (ra_tokens (real k) ! i ! nat l)" using that(3) ki by (simp add: route_at_def)
    ultimately show ?thesis using assms(10) [of k _ l e] that(2) by blast
  next
    case False
    then have "?route (srcs ! (begin_at + p)) = ?filler" by (auto simp: route_at_def split: option.split)
    moreover have "nat l < layers" using assms(9) that(2) by auto
    ultimately show ?thesis using that(3) assms(11) by (auto simp: filler_token_def)
  qed
  have bad: "\<not> (\<exists>tok \<in> set ?sel. \<exists>ids \<in> set tok. \<exists>e \<in> set ids. e < 0 \<or> e \<ge> experts)"
    using rng by force
  have layers: "\<not> (\<exists>l \<in> set layer_indices. l < 0 \<or> l \<ge> int (fst (layers, topk)))" using assms(9) by force
  have "\<forall>ids \<in> set ids_list. 0 < length ids"
  proof
    fix ids assume "ids \<in> set ids_list"
    then have "length ids \<in> set (map (\<lambda>(_, _, L). L) rows)" unfolding assms(5) [symmetric] by simp
    with assms(6) show "0 < length ids" by auto
  qed
  from stream_nonempty [OF assms(1-4) this] have pos: "length (st_tokens s) \<noteq> 0" by simp
  have "map (\<lambda>j. map (\<lambda>tok. tok ! j) ?sel) [0..<length layer_indices] =
      map (\<lambda>l. map (\<lambda>p. ?route (srcs ! (begin_at + p)) ! nat l) [0..<n]) layer_indices"
    by (rule nth_equalityI) (simp_all add: comp_def)
  then show ?thesis
    using pos unfolding pack_microbatch_routes_def option.case assms(7) bind_result_simps whole shard shard' Let_def
    by (simp only: if_False bad layers simp_thms)
qed


lemma no_routes_refused:
  "install_stream_routes None instances layer_indices keep rows packed_len experts cp r contiguous align tp tp_rank sp = Inl RuntimeError"
  by (simp add: install_stream_routes_def)

lemma map_result_fails: "x \<in> set xs \<Longrightarrow> f x = Inl e \<Longrightarrow> \<exists>e'. map_result f xs = Inl e'"
proof (cases "map_result f xs")
  case (Inr ys)
  assume x: "x \<in> set xs" "f x = Inl e"
  then obtain i where "i < length xs" "xs ! i = x" by (auto simp: in_set_conv_nth)
  with x list_all2_nthD [OF iffD1 [OF map_result_Inr_iff Inr], of i] show ?thesis by simp
qed simp

lemma row_without_routes_refused:
  assumes "(i, start, L) \<in> set rows" "extract_row_routes rts i start L = Inl e"
  shows "\<exists>e'. install_stream_routes (Some rts) instances layer_indices keep rows packed_len experts cp r contiguous align tp tp_rank sp = Inl e'"
proof -
  have "row_piece rts dims cp r contiguous align (i, start, L) = Inl e" for dims
    using assms(2) by (simp add: row_piece_def)
  from map_result_fails [of _ rows "row_piece rts _ cp r contiguous align", OF assms(1) this]
  have "\<exists>e'. map_result (row_piece rts dims cp r contiguous align) rows = Inl e'" for dims .
  moreover have "rows \<noteq> []" using assms(1) by auto
  ultimately have fails: "\<exists>e'. replay_tokens rts dims rows packed_len cp r contiguous align = Inl e'" for dims
    unfolding replay_tokens_def Let_def by (metis bind_result_simps(1))
  have "\<exists>e'. pack_microbatch_routes (Some rts) rows packed_len experts layer_indices cp r contiguous align tp tp_rank sp = Inl e'"
  proof (cases "route_meta rts")
    case (Inr dims)
    obtain e' where "replay_tokens rts dims rows packed_len cp r contiguous align = Inl e'" using fails by blast
    with Inr show ?thesis by (simp add: pack_microbatch_routes_def)
  qed (simp add: pack_microbatch_routes_def)
  then show ?thesis by (auto simp: install_stream_routes_def)
qed

text \<open>C16: With the routes of every row at hand, every context, tensor and sequence parallel rank installs for
  each of its layers, at each token of its share of the packed stream, the experts the rollout chose for the
  token's position in its sequence; the last token of a sequence and padding get the first experts.\<close>

theorem routes_follow_tokens:
  fixes real :: "nat \<Rightarrow> route_array"
  assumes "0 < cp" "r < cp" "0 < align" "pack_stream cp r single align ids_list = Inr s"
    "map length ids_list = map (\<lambda>(_, _, L). L) rows" "\<forall>(i, start, L) \<in> set rows. 2 \<le> L"
    "route_meta rts = Inr (layers, topk)"
    "\<And>k i start L. k < length rows \<Longrightarrow> rows ! k = (i, start, L) \<Longrightarrow>
       extract_row_routes rts i start L = Inr (real k) \<and> tl (ra_shape (real k)) = [layers, topk]
       \<and> length (ra_tokens (real k)) = L - 1"
    "\<forall>l \<in> set layer_indices. 0 \<le> l \<and> l < int layers" "layer_indices \<noteq> []"
    "\<And>k tok l e. k < length rows \<Longrightarrow> tok \<in> set (ra_tokens (real k)) \<Longrightarrow> l \<in> set layer_indices \<Longrightarrow>
       e \<in> set (tok ! nat l) \<Longrightarrow> 0 \<le> e \<and> e < experts"
    "int topk \<le> experts" "sp \<Longrightarrow> tp dvd align" "tp_rank < tp"
    "srcs = stream_sources cp r single align (map length ids_list)"
    "n = (if sp \<and> tp > 1 then length srcs div tp else length srcs)"
    "begin_at = (if sp \<and> tp > 1 then tp_rank * n else 0)"
  shows "\<exists>out. install_stream_routes (Some rts) (length layer_indices) layer_indices keep rows (length (st_tokens s)) experts
        cp r (single \<and> cp > 1) align tp tp_rank sp
      = Inr ((if keep then [] else [Clear_Indices]) @ [Set_Replay_Data out, Replay_Forward])
    \<and> length out = length layer_indices
    \<and> (\<forall>j < length layer_indices. length (out ! j) = n \<and> (\<forall>p < n. out ! j ! p =
         (case srcs ! (begin_at + p) of
            Some (k, i) \<Rightarrow> if i < length (ids_list ! k) - 1 then ra_tokens (real k) ! i ! nat (layer_indices ! j) else map int [0..<topk]
          | None \<Rightarrow> map int [0..<topk])))"
proof -
  let ?route = "\<lambda>p. route_at (\<lambda>k. ra_tokens (real k)) (filler_token layers topk) (srcs ! (begin_at + p))"
  let ?out = "map (\<lambda>l. map (\<lambda>p. ?route p ! nat l) [0..<n]) layer_indices"
  have packed: "pack_microbatch_routes (Some rts) rows (length (st_tokens s)) experts layer_indices cp r (single \<and> cp > 1) align
      tp tp_rank sp = Inr ?out"
    unfolding assms(15-17) by (rule routes_packed [OF assms(1-9)]) (use assms(11-14) in blast)+
  have at: "?route p ! nat l = (case srcs ! (begin_at + p) of
      Some (k, i) \<Rightarrow> if i < length (ids_list ! k) - 1 then ra_tokens (real k) ! i ! nat l else map int [0..<topk]
    | None \<Rightarrow> map int [0..<topk])" if "l \<in> set layer_indices" "p < n" for l p
  proof -
    have "nat l < layers" using assms(9) that(1) by auto
    moreover have "length (ra_tokens (real k)) = length (ids_list ! k) - 1" if src: "srcs ! (begin_at + p) = Some (k, i)" for k i
    proof -
      have "begin_at + p < length srcs" by (rule shard_inside [OF \<open>p < n\<close> assms(14) assms(16,17)])
      from nth_mem [OF this] have "Some (k, i) \<in> set srcs" unfolding src .
      then have k: "k < length ids_list" using sources_known unfolding assms(15) by fastforce
      moreover obtain i' start L where "rows ! k = (i', start, L)" by (metis surj_pair)
      ultimately show ?thesis
        using assms(8) [of k i' start L] arg_cong [OF assms(5), of "\<lambda>xs. xs ! k"] arg_cong [OF assms(5), of length] by simp
    qed
    ultimately show ?thesis by (auto simp: route_at_def filler_token_def split: option.split)
  qed
  then show ?thesis using packed assms(10)
    by (intro exI [of _ ?out]) (simp add: install_stream_routes_def install_replay_def)
qed

lemma routes_follow_tokens_witness:
  "\<exists>out. install_stream_routes
       (Some (Ragged_Routes [\<lparr>ra_shape = [2, 2, 1], ra_tokens = [[[3], [1]], [[2], [0]]]\<rparr>])) (length [1 :: int]) [1] False [(0, 4, 3)]
       (length (st_tokens (projr (pack_stream 2 1 False 2 [[5, 6, 7 :: nat]])))) 4 2 1 False 2 2 0 True
     = Inr [Clear_Indices, Set_Replay_Data out, Replay_Forward]
    \<and> length out = 1 \<and> length (out ! 0) = 1 \<and> out ! 0 ! 0 = [0]"
proof -
  have "\<exists>out. install_stream_routes
       (Some (Ragged_Routes [\<lparr>ra_shape = [2, 2, 1], ra_tokens = [[[3], [1]], [[2], [0]]]\<rparr>])) (length [1 :: int]) [1] False [(0, 4, 3)]
       (length (st_tokens (projr (pack_stream 2 1 False 2 [[5, 6, 7 :: nat]])))) 4 2 1 (False \<and> (2 :: nat) > 1) 2 2 0 True
     = Inr ((if False then [] else [Clear_Indices]) @ [Set_Replay_Data out, Replay_Forward])
    \<and> length out = length [1 :: int]
    \<and> (\<forall>j < length [1 :: int]. length (out ! j) = 1 \<and> (\<forall>p < 1. out ! j ! p =
         (case stream_sources 2 1 False 2 (map length [[5, 6, 7 :: nat]]) ! (0 + p) of
            Some (k, i) \<Rightarrow> if i < length ([[5, 6, 7 :: nat]] ! k) - 1
              then ra_tokens \<lparr>ra_shape = [2, 2, 1], ra_tokens = [[[3], [1]], [[2], [0]]]\<rparr> ! i ! nat ([1] ! j) else map int [0..<1]
          | None \<Rightarrow> map int [0..<1])))"
  proof (rule routes_follow_tokens [where layers = 2 and topk = 1 and real = "\<lambda>_. \<lparr>ra_shape = [2, 2, 1], ra_tokens = [[[3], [1]], [[2], [0]]]\<rparr>"])
    let ?a = "\<lparr>ra_shape = [2, 2, 1], ra_tokens = [[[3], [1]], [[2], [0]]]\<rparr>"
    show "extract_row_routes (Ragged_Routes [?a]) i start L = Inr ?a \<and> tl (ra_shape ?a) = [2, 1] \<and> length (ra_tokens ?a) = L - 1"
      if "k < length [(0, 4, 3)]" "[(0, 4, 3)] ! k = (i, start, L)" for k i start L
      using that by (auto simp: extract_row_routes_def)
    show "pack_stream 2 1 False 2 [[5, 6, 7 :: nat]] = Inr (projr (pack_stream 2 1 False 2 [[5, 6, 7]]))"
      by (simp add: pack_stream_def Let_def)
    show "0 \<le> e \<and> e < 4"
      if "k < length [(0 :: nat, 4 :: nat, 3 :: nat)]" "tok \<in> set (ra_tokens ?a)" "l \<in> set [1]" "e \<in> set (tok ! nat l)" for k tok l e
      using that by (auto simp: numeral_2_eq_2)
  qed (simp_all add: route_meta_def stream_sources_def cp_positions_def cp_chunk_def ceil_div_def stream_pad_def)
  moreover have "stream_sources 2 1 False 2 (map length [[5, 6, 7 :: nat]]) ! 0 = Some (0, 1)" by code_simp
  ultimately show ?thesis by (auto simp: numeral_2_eq_2)
qed

end
