(* ===== verification/Engine_Passes.thy ===== *)
theory Engine_Passes
  imports Route_Packing Policy_Losses
begin

text \<open>
  The two passes of the Megatron engines over a batch: \<open>engine_compute_log_probs\<close> and
  \<open>engine_update_policy\<close>, in \<open>megatron_base_engine.py\<close> for a model that is neither sharded over layers
  nor over sequences and has no experts, and in \<open>megatron_native_engine.py\<close> for every other topology. The
  model is a parameter: from the packed tokens and the cumulative lengths on all ranks of the context
  parallel group it computes one value (the logits) per token on every rank. A loss that is handed to
  \<open>backward\<close> is a value of the model; Megatron multiplies what a loss function returns by the number of
  context parallel ranks and divides it by the number of microbatches.
\<close>

section \<open>Configuration and model\<close>

record engine_config =
  ec_pp :: nat
  ec_cp :: nat
  ec_tp :: nat
  ec_sp :: bool
  ec_ep :: nat
  ec_moe :: bool
  ec_dynamic :: bool
  ec_max_tokens :: int
  ec_aligned :: "nat option" \<comment> \<open>the sequence alignment of the model's specification\<close>
  ec_single :: bool \<comment> \<open>\<open>packed_stream_is_single_sequence\<close>\<close>
  ec_pipeline :: bool \<comment> \<open>\<open>requires_pipeline_forward\<close>\<close>
  ec_last_stage :: bool

definition engine_align :: "engine_config \<Rightarrow> nat" where
  "engine_align cfg = stream_align (ec_tp cfg) (ec_sp cfg) (ec_aligned cfg) (ec_cp cfg)"

type_synonym 'e packed_input = "'e list \<times> nat list \<times> nat"
type_synonym ('e, 'l) model = "'e packed_input list \<Rightarrow> nat \<Rightarrow> 'l list"

definition model_input :: "'e cp_stream \<Rightarrow> 'e packed_input" where
  "model_input s = (st_tokens s, st_cu_seqlens s, st_max_seqlen s)"

definition stream_offsets :: "'e list list \<Rightarrow> nat list" where
  "stream_offsets ids_list = map (\<lambda>k. length (concat (take k ids_list))) [0..<Suc (length ids_list)]"

definition forward_logits_packed :: "('e, 'l) model \<Rightarrow> 'e list list \<Rightarrow> ('l list \<times> nat list) result" where
  \<comment> \<open>\<open>_forward_logits_packed\<close> of the base engine\<close>
  "forward_logits_packed fwd ids_list =
     (if ids_list = [] then Inl RuntimeError
      else let offsets = stream_offsets ids_list in
        Inr (fwd [(concat ids_list, offsets, Max (set (map length ids_list)))] 0, offsets))"

section \<open>Log-probabilities of a batch\<close>

fun write_rows :: "(nat \<times> nat \<times> nat \<times> 'v list) list \<Rightarrow> 'v list list \<Rightarrow> 'v list list result" where
  \<comment> \<open>\<open>out[r, start:start + L - 1] = values\<close>\<close>
  "write_rows [] out = Inr out"
| "write_rows ((r, start, L, vals) # rest) out =
     bind_result (assign_slice (int start) (int (start + L) - 1) vals (out ! r)) (\<lambda>row. write_rows rest (out[r := row]))"

definition zero_rows :: "'e list list \<Rightarrow> 'v::zero list list" where
  "zero_rows seqs = map (\<lambda>s. replicate (length s) 0) seqs"

definition native_microbatches ::
  "engine_config \<Rightarrow> nat list \<Rightarrow> 'e::zero list list \<Rightarrow> bool list list \<Rightarrow> (block_row list \<times> 'e list list) list" where
  "native_microbatches cfg counts seqs masks =
     pad_mbs_for_ep (ec_moe cfg) (ec_ep cfg) counts
       (build_microbatches (ec_dynamic cfg) (ec_max_tokens cfg) (ec_cp cfg) seqs (collect_rows masks))"

definition microbatch_values ::
  "engine_config \<Rightarrow> ('e, 'l) model \<Rightarrow> ('l \<Rightarrow> 'e \<Rightarrow> 'v::comm_monoid_add) \<Rightarrow> block_row list \<times> 'e::zero list list
   \<Rightarrow> (nat \<times> nat \<times> nat \<times> 'v list) list result" where
  \<comment> \<open>a forward pass and the values of every row of the microbatch\<close>
  "microbatch_values cfg fwd lp mb =
     (case mb of (rows, ids_list) \<Rightarrow>
        bind_result (map_result (\<lambda>r. pack_stream (ec_cp cfg) r (ec_single cfg) (engine_align cfg) ids_list) [0..<ec_cp cfg])
          (\<lambda>streams.
             let logits = fwd (map model_input streams) in
             Inr (map (\<lambda>(k, r, start, L). (r, start, L,
                    cp_row_values lp (ec_cp cfg) logits (ids_list ! k) (\<lambda>c. st_layouts (streams ! c) ! k)))
                  (enumerate 0 rows))))"

definition pp_compute_log_probs ::
  "engine_config \<Rightarrow> nat list \<Rightarrow> ('e, 'l) model \<Rightarrow> ('l \<Rightarrow> 'e \<Rightarrow> 'v::comm_monoid_add) \<Rightarrow> 'e::zero list list \<Rightarrow> bool list list
   \<Rightarrow> 'v list list result" where
  "pp_compute_log_probs cfg counts fwd lp seqs masks =
     bind_result (map_result (microbatch_values cfg fwd lp) (native_microbatches cfg counts seqs masks)) (\<lambda>data.
       write_rows (if ec_last_stage cfg then concat data else []) (zero_rows seqs))"

definition base_bins :: "int \<Rightarrow> block_row list \<Rightarrow> nat list list" where
  "base_bins max_tokens rows =
     build_bins (map (\<lambda>(_, _, L). L) rows) (if max_tokens > 0 then max_tokens else default_token_budget)"

definition base_bin_values ::
  "('e, 'l) model \<Rightarrow> ('l \<Rightarrow> 'e \<Rightarrow> 'v) \<Rightarrow> 'e list list \<Rightarrow> block_row list \<Rightarrow> nat list \<Rightarrow> (nat \<times> nat \<times> nat \<times> 'v list) list result" where
  \<comment> \<open>the values of the rows of one bin after a packed forward\<close>
  "base_bin_values fwd lp seqs rows bin =
     (let ids_list = map (\<lambda>j. case rows ! j of (r, start, L) \<Rightarrow> py_slice start (start + L) (seqs ! r)) bin in
      bind_result (forward_logits_packed fwd ids_list) (\<lambda>(logits, offsets).
        Inr (map (\<lambda>(k, j). case rows ! j of (r, start, L) \<Rightarrow> (r, start, L,
               map2 lp (butlast (py_slice (offsets ! k) (offsets ! Suc k) logits)) (tl (ids_list ! k))))
             (enumerate 0 bin))))"

definition base_row_values ::
  "('e list \<Rightarrow> 'l list) \<Rightarrow> ('l \<Rightarrow> 'e \<Rightarrow> 'v) \<Rightarrow> 'e list list \<Rightarrow> block_row \<Rightarrow> nat \<times> nat \<times> nat \<times> 'v list" where
  \<comment> \<open>the values of one row after a forward of its own\<close>
  "base_row_values fwd_one lp seqs row =
     (case row of (r, start, L) \<Rightarrow>
        let ids = py_slice start (start + L) (seqs ! r) in (r, start, L, map2 lp (butlast (fwd_one ids)) (tl ids)))"

definition base_values ::
  "bool \<Rightarrow> int \<Rightarrow> ('e, 'l) model \<Rightarrow> ('e list \<Rightarrow> 'l list) \<Rightarrow> ('l \<Rightarrow> 'e \<Rightarrow> 'v) \<Rightarrow> 'e list list \<Rightarrow> bool list list
   \<Rightarrow> (nat \<times> nat \<times> nat \<times> 'v list) list list result" where
  "base_values dynamic max_tokens fwd fwd_one lp seqs masks =
     (let rows = collect_rows masks in
      if dynamic then map_result (base_bin_values fwd lp seqs rows) (base_bins max_tokens rows)
      else Inr (map (\<lambda>row. [base_row_values fwd_one lp seqs row]) rows))"

definition engine_compute_log_probs ::
  "engine_config \<Rightarrow> py_error option \<Rightarrow> nat list \<Rightarrow> ('e, 'l) model \<Rightarrow> ('e list \<Rightarrow> 'l list) \<Rightarrow> ('l \<Rightarrow> 'e \<Rightarrow> 'v::comm_monoid_add)
   \<Rightarrow> 'e::zero list list \<Rightarrow> bool list list \<Rightarrow> 'v list list result" where
  \<comment> \<open>\<open>check\<close> is what \<open>pre_forward_check\<close> of the model raises\<close>
  "engine_compute_log_probs cfg check counts fwd fwd_one lp seqs masks =
     (case check of Some e \<Rightarrow> Inl e
      | None \<Rightarrow>
          if ec_pipeline cfg \<or> \<not> (ec_pp cfg = 1 \<and> ec_cp cfg = 1 \<and> \<not> ec_moe cfg)
          then pp_compute_log_probs cfg counts fwd lp seqs masks
          else bind_result (base_values (ec_dynamic cfg) (ec_max_tokens cfg) fwd fwd_one lp seqs masks)
                 (\<lambda>data. write_rows (concat data) (zero_rows seqs)))"

section \<open>Policy update\<close>

record row_stats =
  rs_loss :: real
  rs_ppo_kl_sum :: real
  rs_ppo_kl_tok :: real
  rs_rc_kl_sum :: real
  rs_rc_kl_tok :: real

type_synonym row_loss = "nat \<Rightarrow> nat \<Rightarrow> real list \<Rightarrow> (real \<times> row_stats) option result"

record engine_metrics =
  em_loss :: real
  em_rows :: nat
  em_ppo_kl :: "real \<times> real"
  em_rc_kl :: "real \<times> real"

definition no_metrics :: engine_metrics where
  "no_metrics = \<lparr>em_loss = 0, em_rows = 0, em_ppo_kl = (0, 0), em_rc_kl = (0, 0)\<rparr>"

definition add_metrics :: "engine_metrics \<Rightarrow> engine_metrics \<Rightarrow> engine_metrics" where
  "add_metrics a b =
     \<lparr>em_loss = em_loss a + em_loss b, em_rows = em_rows a + em_rows b,
      em_ppo_kl = (fst (em_ppo_kl a) + fst (em_ppo_kl b), snd (em_ppo_kl a) + snd (em_ppo_kl b)),
      em_rc_kl = (fst (em_rc_kl a) + fst (em_rc_kl b), snd (em_rc_kl a) + snd (em_rc_kl b))\<rparr>"

definition stats_metrics :: "row_stats \<Rightarrow> engine_metrics" where
  "stats_metrics s =
     \<lparr>em_loss = rs_loss s, em_rows = 1, em_ppo_kl = (rs_ppo_kl_sum s, rs_ppo_kl_tok s),
      em_rc_kl = (rs_rc_kl_sum s, rs_rc_kl_tok s)\<rparr>"

fun bin_losses :: "row_loss \<Rightarrow> (nat \<times> nat \<times> nat \<times> real list) list \<Rightarrow> (real option \<times> engine_metrics) result" where
  \<comment> \<open>the losses of the rows of a bin summed, and what they add to the metrics; rows without a loss are skipped\<close>
  "bin_losses row_loss [] = Inr (None, no_metrics)"
| "bin_losses row_loss ((r, start, L, vals) # rest) =
     bind_result (row_loss r start vals) (\<lambda>o'.
     bind_result (bin_losses row_loss rest) (\<lambda>(loss, m).
       case o' of
         None \<Rightarrow> Inr (loss, m)
       | Some (l, s) \<Rightarrow> Inr (Some (case loss of None \<Rightarrow> l | Some l' \<Rightarrow> l + l'), add_metrics (stats_metrics s) m)))"

definition sum_metrics :: "engine_metrics list \<Rightarrow> engine_metrics" where
  "sum_metrics ms = foldr add_metrics ms no_metrics"

definition pp_update_policy ::
  "engine_config \<Rightarrow> nat list \<Rightarrow> ('e, 'l) model \<Rightarrow> ('l \<Rightarrow> 'e \<Rightarrow> real) \<Rightarrow> row_loss \<Rightarrow> 'e::zero list list \<Rightarrow> bool list list
   \<Rightarrow> (real list \<times> engine_metrics) result" where
  \<comment> \<open>what the loss functions of the microbatches return, and the metrics before the mean over the rows\<close>
  "pp_update_policy cfg counts fwd lp row_loss seqs masks =
     (if seqs = [] \<and> \<not> ec_moe cfg then Inr ([], no_metrics)
      else
        let mbs = native_microbatches cfg counts seqs masks in
        bind_result (map_result (\<lambda>mb. bind_result (microbatch_values cfg fwd lp mb) (bin_losses row_loss)) mbs) (\<lambda>losses.
          Inr (map (\<lambda>(loss, _). (case loss of None \<Rightarrow> 0 | Some l \<Rightarrow> l) * real (length mbs) / real (ec_cp cfg)) losses,
               sum_metrics (map snd losses))))"

definition base_update_policy ::
  "bool \<Rightarrow> int \<Rightarrow> ('e, 'l) model \<Rightarrow> ('e list \<Rightarrow> 'l list) \<Rightarrow> ('l \<Rightarrow> 'e \<Rightarrow> real) \<Rightarrow> row_loss \<Rightarrow> 'e list list \<Rightarrow> bool list list
   \<Rightarrow> (real list \<times> engine_metrics) result" where
  \<comment> \<open>the losses whose gradients are accumulated\<close>
  "base_update_policy dynamic max_tokens fwd fwd_one lp row_loss seqs masks =
     (if seqs = [] then Inr ([], no_metrics)
      else bind_result (base_values dynamic max_tokens fwd fwd_one lp seqs masks) (\<lambda>data.
           bind_result (map_result (bin_losses row_loss) data) (\<lambda>losses.
             Inr (concat (map (\<lambda>(loss, _). case loss of None \<Rightarrow> [] | Some l \<Rightarrow> [l]) losses), sum_metrics (map snd losses)))))"

definition cfg_value :: "(string \<Rightarrow> real option option) \<Rightarrow> (string \<Rightarrow> real option option) \<Rightarrow> string \<Rightarrow> real \<Rightarrow> real" where
  \<comment> \<open>\<open>_cfg\<close>: the options of the algorithm before the common ones; \<open>Some None\<close> is the value None\<close>
  "cfg_value sub full key d =
     (case (case sub key of Some v \<Rightarrow> v | None \<Rightarrow> (case full key of Some v \<Rightarrow> v | None \<Rightarrow> Some d)) of
        None \<Rightarrow> d | Some v \<Rightarrow> v)"

datatype advantages_tensor = Row_Advantages "real list" | Token_Advantages "real list list"

record policy_tensors =
  pt_width :: nat \<comment> \<open>the columns of \<open>input_ids\<close>\<close>
  pt_old :: "real list list option"
  pt_response :: "bool list list option"
  pt_advantages :: "advantages_tensor option"
  pt_is_weights :: "real list list option"
  pt_ref :: "real list list option"
  pt_rollout :: "real list list option"

definition response_mask_is_token_indexed :: "policy_tensors \<Rightarrow> bool" where
  "response_mask_is_token_indexed t =
     (case pt_response t of None \<Rightarrow> False | Some m \<Rightarrow> (if m = [] then 0 else length (hd m)) \<ge> pt_width t)"

definition tensor_row :: "'a list \<Rightarrow> nat \<Rightarrow> 'a result" where
  "tensor_row x r = (if r < length x then Inr (x ! r) else Inl IndexError)"

definition row_col :: "'a list list option \<Rightarrow> nat \<Rightarrow> nat \<Rightarrow> 'a list option result" where
  \<comment> \<open>\<open>_col\<close>: a row of a tensor that may be missing, from column \<open>s0\<close> on\<close>
  "row_col x r s0 = (case x of None \<Rightarrow> Inr None | Some m \<Rightarrow> bind_result (tensor_row m r) (\<lambda>row. Inr (Some (drop s0 row))))"

definition row_advantages :: "advantages_tensor \<Rightarrow> nat \<Rightarrow> nat \<Rightarrow> nat \<Rightarrow> real list result" where
  "row_advantages adv r start Lm =
     (case adv of
        Row_Advantages a \<Rightarrow> bind_result (tensor_row a r) (\<lambda>v. Inr (replicate Lm v))
      | Token_Advantages a \<Rightarrow> bind_result (tensor_row a r) (\<lambda>row. Inr (drop start row)))"

definition algorithm_loss ::
  "string \<Rightarrow> (string \<Rightarrow> real \<Rightarrow> real) \<Rightarrow> int option \<Rightarrow> nat \<Rightarrow> string \<Rightarrow> int \<Rightarrow> real list \<Rightarrow> real list \<Rightarrow> real list
   \<Rightarrow> bool list option \<Rightarrow> real list option \<Rightarrow> real result" where
  "algorithm_loss algo cfg bnt dp mode global lp old adv m ris =
     (let m' = map_option (\<lambda>x. [x]) m; ris' = map_option (\<lambda>x. [x]) ris in
      if algo = ''dapo'' then
        asymmetric_clip_loss [lp] [old] [adv] (cfg ''clip_ratio_low'' (2 / 10)) (cfg ''clip_ratio_high'' (28 / 100)) m'
          (cfg ''clip_ratio_c'' 0) bnt dp ris' ''token-mean'' None
      else if algo = ''grpo'' then
        asymmetric_clip_loss [lp] [old] [adv] (cfg ''clip_ratio'' (2 / 10)) (cfg ''clip_ratio_high'' (28 / 100)) m'
          0 bnt dp ris' mode (Some global)
      else policy_gradient_loss [lp] [old] [adv] (cfg ''clip_ratio'' (2 / 10)) m')"

definition kl_term :: "(string \<Rightarrow> real \<Rightarrow> real) \<Rightarrow> real list \<Rightarrow> real list option \<Rightarrow> bool list option \<Rightarrow> real result" where
  "kl_term cfg lp ref m =
     (case ref of
        None \<Rightarrow> Inr 0
      | Some ref' \<Rightarrow>
          if cfg ''kl_coeff'' 0 > 0
          then bind_result (kl_penalty [lp] [ref'] (map_option (\<lambda>x. [x]) m)) (\<lambda>k. Inr (cfg ''kl_coeff'' 0 * k))
          else Inr 0)"

definition opt_length :: "'a list option \<Rightarrow> nat list" where
  "opt_length x = (case x of None \<Rightarrow> [] | Some xs \<Rightarrow> [length xs])"

definition masked_diff :: "bool list \<Rightarrow> real list \<Rightarrow> real list \<Rightarrow> real" where
  \<comment> \<open>\<open>((x - y) * mask).sum()\<close>\<close>
  "masked_diff m xs ys = row_sum (map2 (-) xs ys) m"

definition row_policy_loss ::
  "string \<Rightarrow> (string \<Rightarrow> real \<Rightarrow> real) \<Rightarrow> int option \<Rightarrow> nat \<Rightarrow> string \<Rightarrow> int \<Rightarrow> policy_tensors \<Rightarrow> row_loss" where
  "row_policy_loss algo cfg bnt dp mode global t r start token_lp =
     bind_result (row_col (pt_old t) r start) (\<lambda>old.
     case old of None \<Rightarrow> Inr None | Some old_lp \<Rightarrow>
     bind_result (row_col (pt_response t) r (start + (if response_mask_is_token_indexed t then 1 else 0))) (\<lambda>resp.
     case pt_advantages t of None \<Rightarrow> Inr None | Some adv_t \<Rightarrow>
     bind_result (row_advantages adv_t r start (length token_lp)) (\<lambda>adv.
     bind_result (row_col (pt_is_weights t) r start) (\<lambda>ris.
     bind_result (row_col (pt_ref t) r start) (\<lambda>ref.
     bind_result (row_col (pt_rollout t) r start) (\<lambda>rlp.
     let lens = [length token_lp, length old_lp, length adv] @ opt_length resp @ opt_length ris @ opt_length ref @ opt_length rlp;
         n = Min (set lens); cut = map_option (take n); m = map_option (take n) resp;
         lp = take n token_lp; old' = take n old_lp in
     bind_result (algorithm_loss algo cfg bnt dp mode global lp old' (take n adv) m (cut ris)) (\<lambda>loss.
     bind_result (kl_term cfg lp (cut ref) m) (\<lambda>kl.
     let tok = (case m of None \<Rightarrow> 0 | Some b \<Rightarrow> real (mask_count b)) in
     Inr (Some (loss + kl,
       \<lparr>rs_loss = loss + kl,
        rs_ppo_kl_sum = (case m of None \<Rightarrow> 0 | Some b \<Rightarrow> masked_diff b old' lp), rs_ppo_kl_tok = tok,
        rs_rc_kl_sum = (case (m, cut rlp) of (Some b, Some x) \<Rightarrow> masked_diff b x lp | _ \<Rightarrow> 0),
        rs_rc_kl_tok = (case (m, cut rlp) of (Some b, Some x) \<Rightarrow> tok | _ \<Rightarrow> 0)\<rparr>))))))))))"

definition loss_metric :: "bool \<Rightarrow> string \<Rightarrow> engine_metrics \<Rightarrow> real" where
  \<comment> \<open>the metric \<open>loss\<close> of the native engine and of the base engine\<close>
  "loss_metric native algo m =
     (if \<not> native \<and> algo = ''grpo'' then em_loss m else em_loss m / real (max 1 (em_rows m)))"

definition kl_metrics :: "engine_metrics \<Rightarrow> (string, real) dict" where
  "kl_metrics m =
     (if snd (em_ppo_kl m) > 0 then [(''ppo_kl_sum'', fst (em_ppo_kl m)), (''ppo_kl_tok'', snd (em_ppo_kl m))] else [])
     @ (if snd (em_rc_kl m) > 0
        then [(''rollout_corr_kl_sum'', fst (em_rc_kl m)), (''rollout_corr_kl_tok'', snd (em_rc_kl m))] else [])"

definition native_policy_metrics :: "bool \<Rightarrow> string \<Rightarrow> real \<Rightarrow> real \<Rightarrow> engine_metrics \<Rightarrow> (string, real) dict" where
  \<comment> \<open>what \<open>_pp_update_policy\<close> reports after the optimizer step, which gives \<open>grad_norm\<close> and \<open>lr\<close>\<close>
  "native_policy_metrics last_stage algo lr grad_norm m =
     (if \<not> last_stage then [(''grad_norm'', grad_norm), (''lr'', lr)]
      else [(''loss'', loss_metric True algo m), (''lr'', lr), (''grad_norm'', grad_norm)] @ kl_metrics m)"

definition base_policy_metrics :: "string \<Rightarrow> real \<Rightarrow> real \<Rightarrow> engine_metrics \<Rightarrow> (string, real) dict" where
  "base_policy_metrics algo lr grad_norm m =
     [(''loss'', loss_metric False algo m), (''lr'', lr), (''grad_norm'', grad_norm)] @ kl_metrics m"



section \<open>What the passes compute\<close>

definition attends_causally ::
  "nat \<Rightarrow> bool \<Rightarrow> nat \<Rightarrow> ('e::zero, 'l) model \<Rightarrow> ('e list \<Rightarrow> 'l) \<Rightarrow> bool" where
  \<comment> \<open>the model gives a token of a packed stream the value \<open>g\<close> of the tokens of its sequence up to it\<close>
  "attends_causally cp single align fwd g \<longleftrightarrow>
     (\<forall>ids_list streams. length streams = cp
        \<and> (\<forall>r < cp. pack_stream cp r single align ids_list = Inr (streams ! r)) \<longrightarrow>
        (\<forall>r < cp. length (fwd (map model_input streams) r) = length (st_tokens (streams ! r))
          \<and> (\<forall>p < length (st_tokens (streams ! r)). \<forall>k i.
               stream_sources cp r single align (map length ids_list) ! p = Some (k, i) \<longrightarrow>
               fwd (map model_input streams) r ! p = g (take (Suc i) (ids_list ! k)))))"

definition whole_values :: "('l \<Rightarrow> 'e \<Rightarrow> 'v) \<Rightarrow> ('e list \<Rightarrow> 'l) \<Rightarrow> 'e list \<Rightarrow> 'v list" where
  \<comment> \<open>the values of a sequence that is alone in the model\<close>
  "whole_values lp g ids = map (\<lambda>i. lp (g (take (Suc i) ids)) (ids ! Suc i)) [0..<length ids - 1]"

abbreviation row_ids :: "'e list list \<Rightarrow> block_row \<Rightarrow> 'e list" where
  "row_ids seqs row \<equiv> (case row of (r, start, L) \<Rightarrow> py_slice start (start + L) (seqs ! r))"

abbreviation row_item :: "('l \<Rightarrow> 'e \<Rightarrow> 'v) \<Rightarrow> ('e list \<Rightarrow> 'l) \<Rightarrow> 'e list list \<Rightarrow> block_row \<Rightarrow> nat \<times> nat \<times> nat \<times> 'v list" where
  "row_item lp g seqs row \<equiv> (case row of (r, start, L) \<Rightarrow> (r, start, L, whole_values lp g (row_ids seqs row)))"

lemma engine_align_pos: "0 < ec_tp cfg \<Longrightarrow> (\<And>a. ec_aligned cfg = Some a \<Longrightarrow> 0 < a) \<Longrightarrow> 0 < engine_align cfg"
  by (auto simp: engine_align_def stream_align_def lcm_pos_nat Let_def split: option.split)

lemma streams_of:
  assumes "ids_list \<noteq> []" "\<not> (single \<and> cp > 1 \<and> length ids_list > 1)"
  shows "\<exists>streams. map_result (\<lambda>r. pack_stream cp r single align ids_list) [0..<cp] = Inr streams
    \<and> length streams = cp \<and> (\<forall>r < cp. pack_stream cp r single align ids_list = Inr (streams ! r))"
proof -
  have "\<exists>s. pack_stream cp r single align ids_list = Inr s" for r using assms by (auto simp: pack_stream_def Let_def)
  then obtain f where f: "pack_stream cp r single align ids_list = Inr (f r)" for r by metis
  have "map_result (\<lambda>r. pack_stream cp r single align ids_list) [0..<cp] = Inr (map f [0..<cp])"
    unfolding map_result_Inr_iff by (simp add: f list_all2_conv_all_nth)
  then show ?thesis using f by (intro exI [of _ "map f [0..<cp]"]) simp
qed

lemma microbatch_values_whole:
  assumes "0 < ec_cp cfg" "0 < engine_align cfg"
    "attends_causally (ec_cp cfg) (ec_single cfg) (engine_align cfg) fwd g"
    "ids_list \<noteq> []" "\<not> (ec_single cfg \<and> ec_cp cfg > 1 \<and> length ids_list > 1)" "length rows \<le> length ids_list"
  shows "microbatch_values cfg fwd lp (rows, ids_list) =
    Inr (map (\<lambda>(k, r, start, L). (r, start, L, whole_values lp g (ids_list ! k))) (enumerate 0 rows))"
proof -
  let ?cp = "ec_cp cfg" and ?single = "ec_single cfg" and ?align = "engine_align cfg"
  obtain streams where streams: "map_result (\<lambda>r. pack_stream ?cp r ?single ?align ids_list) [0..<?cp] = Inr streams"
    "length streams = ?cp" "\<forall>r < ?cp. pack_stream ?cp r ?single ?align ids_list = Inr (streams ! r)"
    using streams_of [OF assms(4,5), of ?align] by blast
  let ?logits = "fwd (map model_input streams)"
  have model: "length (?logits r) = length (st_tokens (streams ! r))"
      "p < length (st_tokens (streams ! r)) \<Longrightarrow> stream_sources ?cp r ?single ?align (map length ids_list) ! p = Some (k, i) \<Longrightarrow>
        ?logits r ! p = g (take (Suc i) (ids_list ! k))" if "r < ?cp" for r p k i
    using assms(3) streams(2,3) that unfolding attends_causally_def by blast+
  have "cp_row_values lp ?cp ?logits (ids_list ! k) (\<lambda>c. st_layouts (streams ! c) ! k) = whole_values lp g (ids_list ! k)"
    if "k < length ids_list" for k
    unfolding whole_values_def
    by (rule stream_row_values [where g = "\<lambda>i. g (take (Suc i) (ids_list ! k))", OF assms(1,2) that])
      (use streams(3) model in auto)
  then have "map (\<lambda>(k, r, start, L). (r, start, L, cp_row_values lp ?cp ?logits (ids_list ! k) (\<lambda>c. st_layouts (streams ! c) ! k)))
        (enumerate 0 rows) = map (\<lambda>(k, r, start, L). (r, start, L, whole_values lp g (ids_list ! k))) (enumerate 0 rows)"
    using assms(6) by (intro map_cong) (auto simp: in_set_enumerate_eq)
  then show ?thesis unfolding microbatch_values_def prod.case streams(1) bind_result_simps Let_def by (rule arg_cong)
qed

lemma enumerate_rows:
  "map (\<lambda>(k, r, start, L). (r, start, L, f (map (row_ids seqs) rows ! k))) (enumerate 0 rows) =
   map (\<lambda>(r, start, L). (r, start, L, f (row_ids seqs (r, start, L)))) rows"
  by (rule nth_equalityI) (simp_all add: nth_enumerate_eq case_prod_unfold)

lemma stream_offsets_nth: "k \<le> length ids_list \<Longrightarrow> stream_offsets ids_list ! k = sum_list (map length (take k ids_list))"
  unfolding stream_offsets_def by (subst nth_map) (simp_all add: length_concat nth_append)

lemma base_bin_whole:
  fixes lp :: "'l \<Rightarrow> 'e::zero \<Rightarrow> 'v::comm_monoid_add"
  assumes "attends_causally 1 False 1 fwd g" "bin \<noteq> []"
  shows "base_bin_values fwd lp seqs rows bin = Inr (map (row_item lp g seqs) (map (\<lambda>j. rows ! j) bin))"
proof -
  let ?ids = "map (\<lambda>j. row_ids seqs (rows ! j)) bin"
  obtain s where s: "pack_stream 1 0 False 1 ?ids = Inr s" using assms(2) by (auto simp: pack_stream_def Let_def)
  have parts: "map (cp_slice 1 0 (False \<and> (1 :: nat) < 1) 1) ?ids = ?ids" by (simp add: cp_slice_def Let_def)
  have input: "model_input s = (concat ?ids, stream_offsets ?ids, Max (set (map length ?ids)))"
    using s assms(2) unfolding pack_stream_ok by (simp add: parts model_input_def stream_offsets_def Let_def stream_pad_def cp_slice_def comp_def)
  let ?logits = "fwd [model_input s] 0"
  have model: "length ?logits = length (st_tokens s)"
      "p < length (st_tokens s) \<Longrightarrow> stream_sources 1 0 False 1 (map length ?ids) ! p = Some (k, i) \<Longrightarrow>
        ?logits ! p = g (take (Suc i) (?ids ! k))" for p k i
    using assms(1) s unfolding attends_causally_def
    by (auto dest!: spec [of _ ?ids] spec [of _ "[s]"])
  have "map2 lp (butlast (py_slice (stream_offsets ?ids ! k) (stream_offsets ?ids ! Suc k) ?logits)) (tl (?ids ! k)) =
      whole_values lp g (?ids ! k)" if k: "k < length ?ids" for k
  proof -
    have "cp_row_values lp 1 (\<lambda>_. ?logits) (?ids ! k) (\<lambda>_. st_layouts s ! k) = whole_values lp g (?ids ! k)"
      unfolding whole_values_def
      by (rule stream_row_values [where g = "\<lambda>i. g (take (Suc i) (?ids ! k))" and align = 1 and single = False and s = "\<lambda>_. s", OF _ _ k])
        (use s model in auto)
    moreover have "lay_start (st_layouts s ! k) = stream_offsets ?ids ! k" "lay_end (st_layouts s ! k) = stream_offsets ?ids ! Suc k"
      unfolding stream_offsets_nth [OF less_imp_le [OF k]] stream_offsets_nth [OF Suc_leI [OF k]] stream_layout [OF s k] parts
      by simp_all
    ultimately show ?thesis by (simp add: cp_row_values_def)
  qed
  then have vals: "map (\<lambda>(k, j). case rows ! j of (r, start, L) \<Rightarrow> (r, start, L,
        map2 lp (butlast (py_slice (stream_offsets ?ids ! k) (stream_offsets ?ids ! Suc k) ?logits)) (tl (?ids ! k)))) (enumerate 0 bin)
      = map (row_item lp g seqs) (map (\<lambda>j. rows ! j) bin)"
    by (intro nth_equalityI) (simp_all add: nth_enumerate_eq split: prod.split)
  have "forward_logits_packed fwd ?ids = Inr (?logits, stream_offsets ?ids)"
    using assms(2) by (simp add: forward_logits_packed_def input Let_def)
  then show ?thesis unfolding base_bin_values_def Let_def by (simp only: bind_result_simps prod.case vals)
qed



lemma native_microbatches_ok:
  assumes "mbs = native_microbatches cfg counts seqs masks"
  shows "mset (concat (map fst mbs)) = mset (collect_rows masks)
    \<and> (\<forall>(rs, ids) \<in> set mbs. ids \<noteq> [] \<and> (rs = [] \<or> ids = map (row_ids seqs) rs) \<and> (\<not> ec_dynamic cfg \<longrightarrow> length ids = 1))"
proof -
  let ?inner = "build_microbatches (ec_dynamic cfg) (ec_max_tokens cfg) (ec_cp cfg) seqs (collect_rows masks)"
  note inner = build_microbatches_ok [of ?inner, OF refl refl]
  have each: "ids \<noteq> [] \<and> (rs = [] \<or> ids = map (row_ids seqs) rs) \<and> (\<not> ec_dynamic cfg \<longrightarrow> length ids = 1)"
    if "(rs, ids) \<in> set ?inner" for rs ids
    using bspec [OF conjunct2 [OF inner] that] by (auto simp: comp_def)
  have "mbs = ?inner \<or> mbs = ?inner @ replicate (Max (set counts) - length ?inner) ([], [[0, 0]])"
    unfolding assms native_microbatches_def pad_mbs_for_ep_def by (cases "\<not> ec_moe cfg \<or> ec_ep cfg \<le> 1") (simp_all only: if_True if_False simp_thms)
  then show ?thesis
  proof
    assume "mbs = ?inner"
    with each conjunct1 [OF inner] show ?thesis by blast
  next
    assume m: "mbs = ?inner @ replicate (Max (set counts) - length ?inner) ([], [[0, 0]])"
    have "concat (map fst mbs) = concat (map fst ?inner)" unfolding m by (simp add: map_replicate_const)
    then have "mset (concat (map fst mbs)) = mset (collect_rows masks)" using conjunct1 [OF inner] by simp
    moreover have "(case mb of (rs, ids) \<Rightarrow> ids \<noteq> [] \<and> (rs = [] \<or> ids = map (row_ids seqs) rs) \<and> (\<not> ec_dynamic cfg \<longrightarrow> length ids = 1))"
      if "mb \<in> set mbs" for mb
    proof (cases "mb \<in> set ?inner")
      case True
      moreover obtain rs ids where mb: "mb = (rs, ids)" by (cases mb)
      ultimately have "(rs, ids) \<in> set ?inner" by simp
      from each [OF this] show ?thesis unfolding mb prod.case .
    next
      case False
      with that have "mb = ([], [[0, 0]])" unfolding m by auto
      then show ?thesis by simp
    qed
    ultimately show ?thesis by blast
  qed
qed

lemma native_pass:
  assumes "0 < ec_cp cfg" "0 < engine_align cfg"
    "attends_causally (ec_cp cfg) (ec_single cfg) (engine_align cfg) fwd g"
    "ec_single cfg \<and> 1 < ec_cp cfg \<Longrightarrow> \<not> ec_dynamic cfg" "mbs = native_microbatches cfg counts seqs masks"
    "mb \<in> set mbs"
  shows "microbatch_values cfg fwd lp mb = Inr (map (row_item lp g seqs) (fst mb))"
proof -
  obtain rs ids where mb: "mb = (rs, ids)" by (cases mb)
  from native_microbatches_ok [OF assms(5)] assms(6) mb
  have ids: "ids \<noteq> []" "rs = [] \<or> ids = map (row_ids seqs) rs" "\<not> ec_dynamic cfg \<Longrightarrow> length ids = 1" by fastforce+
  then have "\<not> (ec_single cfg \<and> ec_cp cfg > 1 \<and> length ids > 1)" using assms(4) by auto
  from microbatch_values_whole [OF assms(1-3) ids(1) this, of rs lp] ids(2)
  have "microbatch_values cfg fwd lp mb = Inr (map (\<lambda>(k, r, start, L). (r, start, L, whole_values lp g (ids ! k))) (enumerate 0 rs))"
    unfolding mb by auto
  also have "map (\<lambda>(k, r, start, L). (r, start, L, whole_values lp g (ids ! k))) (enumerate 0 rs) = map (row_item lp g seqs) rs"
    using ids(2) enumerate_rows [of "whole_values lp g" seqs rs] by auto
  finally show ?thesis by (simp add: mb)
qed

lemma map_result_all:
  "(\<And>x. x \<in> set xs \<Longrightarrow> f x = Inr (g x)) \<Longrightarrow> map_result f xs = Inr (map g xs)"
  unfolding map_result_Inr_iff by (simp add: list_all2_conv_all_nth)

lemma base_bins_ok:
  "mset (concat (base_bins max_tokens rows)) = mset [0..<length rows] \<and> (\<forall>bin \<in> set (base_bins max_tokens rows). bin \<noteq> [])"
  unfolding base_bins_def
  using build_bins_ok [of "map (\<lambda>(_, _, L). L) rows" "if max_tokens > 0 then max_tokens else default_token_budget"]
  by auto

lemma base_row_whole:
  assumes "\<And>ids. fwd_one ids = map (\<lambda>i. g (take (Suc i) ids)) [0..<length ids]"
  shows "base_row_values fwd_one lp seqs row = row_item lp g seqs row"
proof -
  obtain r start L where row: "row = (r, start, L)" by (metis surj_pair)
  let ?ids = "py_slice start (start + L) (seqs ! r)"
  have "map2 lp (butlast (fwd_one ?ids)) (tl ?ids) = whole_values lp g ?ids"
    unfolding assms whole_values_def map_butlast [symmetric] butlast_upt_0
    by (rule nth_equalityI) (simp_all add: nth_tl)
  then show ?thesis by (simp add: base_row_values_def row Let_def)
qed

lemma base_pass:
  fixes lp :: "'l \<Rightarrow> 'e::zero \<Rightarrow> 'v::comm_monoid_add"
  assumes "attends_causally 1 False 1 fwd g" "\<And>ids. fwd_one ids = map (\<lambda>i. g (take (Suc i) ids)) [0..<length ids]"
  shows "\<exists>bins. base_values dynamic max_tokens fwd fwd_one lp seqs masks = Inr (map (map (row_item lp g seqs)) bins)
    \<and> mset (concat bins) = mset (collect_rows masks)"
proof (cases dynamic)
  case True
  let ?rows = "collect_rows masks" and ?bins = "base_bins max_tokens (collect_rows masks)"
  have "map_result (base_bin_values fwd lp seqs ?rows) ?bins = Inr (map (\<lambda>bin. map (row_item lp g seqs) (map (\<lambda>j. ?rows ! j) bin)) ?bins)"
    by (rule map_result_all) (use base_bins_ok base_bin_whole [OF assms(1)] in blast)
  moreover have "mset (concat (map (map (\<lambda>j. ?rows ! j)) ?bins)) = mset ?rows"
  proof -
    have "mset (concat (map (map (\<lambda>j. ?rows ! j)) ?bins)) = image_mset (\<lambda>j. ?rows ! j) (mset (concat ?bins))"
      by (simp add: map_concat [symmetric] mset_map [symmetric] del: mset_map)
    also have "\<dots> = mset (map (\<lambda>j. ?rows ! j) [0..<length ?rows])" using base_bins_ok by simp
    finally show ?thesis by (simp only: map_nth)
  qed
  ultimately show ?thesis using True
    by (intro exI [of _ "map (map (\<lambda>j. ?rows ! j)) ?bins"]) (simp add: base_values_def Let_def comp_def)
next
  case False
  note base_row_whole [OF assms(2), of lp seqs]
  moreover have "concat (map (\<lambda>row. [row]) xs) = xs" for xs :: "block_row list" by (induction xs) simp_all
  ultimately show ?thesis using False
    by (intro exI [of _ "map (\<lambda>row. [row]) (collect_rows masks)"]) (simp add: base_values_def Let_def comp_def)
qed

lemma write_rows_ok:
  assumes "distinct (map fst rs)"
    "\<And>r start L. (r, start, L) \<in> set rs \<Longrightarrow> r < length out \<and> 2 \<le> L \<and> start + L \<le> length (out ! r) \<and> length (f (r, start, L)) = L - 1"
  shows "write_rows (map (\<lambda>(r, start, L). (r, start, L, f (r, start, L))) rs) out =
    Inr (map (\<lambda>r. case map_of rs r of None \<Rightarrow> out ! r
        | Some (start, L) \<Rightarrow> take start (out ! r) @ f (r, start, L) @ drop (start + L - 1) (out ! r)) [0..<length out])"
  using assms
proof (induction rs arbitrary: out)
  case Nil
  then show ?case by (simp add: map_nth)
next
  case (Cons row rs)
  obtain r start L where row: "row = (r, start, L)" by (metis surj_pair)
  let ?new = "take start (out ! r) @ f (r, start, L) @ drop (start + L - 1) (out ! r)"
  have r: "r < length out" "2 \<le> L" "start + L \<le> length (out ! r)" "length (f (r, start, L)) = L - 1"
    using Cons.prems(2) [of r start L] by (simp_all add: row)
  have slot: "assign_slice (int start) (int (start + L) - 1) (f (r, start, L)) (out ! r) = Inr ?new"
  proof -
    have eq: "int (start + L) - 1 = int (start + L - 1)" using r(2) by simp
    show ?thesis unfolding eq by (rule assign_slice_in) (use r(2-4) in auto)
  qed
  have other: "r' \<noteq> r" if "(r', start', L') \<in> set rs" for r' start' L'
    using Cons.prems(1) that by (force simp: row)
  let ?cell = "\<lambda>out rs r'. case map_of rs r' of None \<Rightarrow> out ! r'
      | Some (start, L) \<Rightarrow> take start (out ! r') @ f (r', start, L) @ drop (start + L - 1) (out ! r')"
  have "write_rows (map (\<lambda>(r, start, L). (r, start, L, f (r, start, L))) rs) (out[r := ?new]) =
    Inr (map (?cell (out[r := ?new]) rs) [0..<length (out[r := ?new])])"
  proof (rule Cons.IH)
    show "distinct (map fst rs)" using Cons.prems(1) by simp
    show "r' < length (out[r := ?new]) \<and> 2 \<le> L' \<and> start' + L' \<le> length (out[r := ?new] ! r') \<and> length (f (r', start', L')) = L' - 1"
      if "(r', start', L') \<in> set rs" for r' start' L'
      using Cons.prems(2) [of r' start' L'] other [OF that] that by simp
  qed
  moreover have "?cell (out[r := ?new]) rs r' = ?cell out ((r, start, L) # rs) r'" if "r' < length out" for r'
  proof (cases "r' = r")
    case True
    have "map_of rs r = None" using Cons.prems(1) by (simp add: row map_of_eq_None_iff)
    with True r(1) show ?thesis by simp
  next
    case False
    then have "out[r := ?new] ! r' = out ! r'" by simp
    with False show ?thesis by (simp split: option.split)
  qed
  then have "map (?cell (out[r := ?new]) rs) [0..<length (out[r := ?new])] = map (?cell out ((r, start, L) # rs)) [0..<length out]"
    by (intro map_cong) simp_all
  ultimately show ?case unfolding row list.map prod.case write_rows.simps slot bind_result_simps by simp
qed



lemma map_of_collect_rows:
  "map_of (collect_rows masks) r =
     (if r < length masks \<and> 2 \<le> snd (real_block (masks ! r)) then Some (real_block (masks ! r)) else None)"
  and distinct_collect_rows: "distinct (map fst (collect_rows masks))"
proof -
  let ?row = "\<lambda>r. case real_block (masks ! r) of (start, L) \<Rightarrow> if L \<ge> 2 then [(r, start, L)] else []"
  have "map_of (concat (map ?row [0..<n])) r =
      (if r < n \<and> 2 \<le> snd (real_block (masks ! r)) then Some (real_block (masks ! r)) else None)
    \<and> distinct (map fst (concat (map ?row [0..<n]))) \<and> fst ` set (concat (map ?row [0..<n])) \<subseteq> {..<n}" for n
  proof (induction n)
    case (Suc n)
    obtain start L where b: "real_block (masks ! n) = (start, L)" by (cases "real_block (masks ! n)")
    have fresh: "n \<notin> fst ` set (concat (map ?row [0..<n]))" using Suc by auto
    then have "map_of (concat (map ?row [0..<n])) n = None" by (simp add: map_of_eq_None_iff del: set_concat)
    with Suc fresh b show ?case by (auto simp: map_add_def less_Suc_eq split: option.split)
  qed simp
  then show "map_of (collect_rows masks) r =
     (if r < length masks \<and> 2 \<le> snd (real_block (masks ! r)) then Some (real_block (masks ! r)) else None)"
    "distinct (map fst (collect_rows masks))" unfolding collect_rows_def by blast+
qed

definition whole_row :: "('l \<Rightarrow> 'e \<Rightarrow> 'v::zero) \<Rightarrow> ('e list \<Rightarrow> 'l) \<Rightarrow> 'e list \<Rightarrow> bool list \<Rightarrow> 'v list" where
  \<comment> \<open>the values of a row's real tokens at their columns and zeros elsewhere\<close>
  "whole_row lp g seq msk =
     (case real_block msk of (start, L) \<Rightarrow>
        if L < 2 then replicate (length seq) 0
        else replicate start 0 @ whole_values lp g (py_slice start (start + L) seq) @ replicate (length seq - (start + L - 1)) 0)"

lemma rows_written:
  fixes lp :: "'l \<Rightarrow> 'e \<Rightarrow> 'v::zero"
  assumes "list_all2 (\<lambda>m s. length m = length s) masks seqs" "mset rs = mset (collect_rows masks)"
  shows "write_rows (map (row_item lp g seqs) rs) (zero_rows seqs) = Inr (map2 (whole_row lp g) seqs masks)"
proof -
  have n: "length (zero_rows seqs :: 'v list list) = length seqs" by (simp add: zero_rows_def)
  obtain f where f: "\<And>row. f row = whole_values lp g (row_ids seqs row)" by simp
  have len: "length masks = length seqs" using assms(1) by (rule list_all2_lengthD)
  have mem: "set rs = set (collect_rows masks)" using assms(2) by (metis set_mset_mset)
  have dist: "distinct (map fst rs)"
    using distinct_collect_rows [of masks] assms(2) by (metis mset_eq_imp_distinct_iff mset_map)
  have fits: "r < length seqs \<and> 2 \<le> L \<and> start + L \<le> length (seqs ! r)" if "(r, start, L) \<in> set rs" for r start L
    using that collect_rows_fit [of r start L masks] list_all2_nthD [OF assms(1), of r] len unfolding mem by auto
  have "write_rows (map (\<lambda>(r, start, L). (r, start, L, f (r, start, L))) rs) (zero_rows seqs) =
    Inr (map (\<lambda>r. case map_of rs r of None \<Rightarrow> zero_rows seqs ! r
        | Some (start, L) \<Rightarrow> take start (zero_rows seqs ! r) @ f (r, start, L) @ drop (start + L - 1) (zero_rows seqs ! r))
        [0..<length seqs])"
  proof (rule write_rows_ok [where f = f and out = "zero_rows seqs", OF dist, unfolded n])
    fix r start L assume row: "(r, start, L) \<in> set rs"
    show "r < length seqs \<and> 2 \<le> L \<and> start + L \<le> length (zero_rows seqs ! r) \<and> length (f (r, start, L)) = L - 1"
      using fits [OF row] by (simp add: zero_rows_def whole_values_def f)
  qed
  moreover have "map (\<lambda>r. case map_of rs r of None \<Rightarrow> zero_rows seqs ! r
        | Some (start, L) \<Rightarrow> take start (zero_rows seqs ! r) @ f (r, start, L) @ drop (start + L - 1) (zero_rows seqs ! r))
        [0..<length seqs] = map2 (whole_row lp g) seqs masks"
  proof (rule nth_equalityI)
    fix r assume "r < length (map (\<lambda>r. case map_of rs r of None \<Rightarrow> zero_rows seqs ! r
        | Some (start, L) \<Rightarrow> take start (zero_rows seqs ! r) @ f (r, start, L) @ drop (start + L - 1) (zero_rows seqs ! r))
        [0..<length seqs])"
    then have r: "r < length seqs" by (simp add: zero_rows_def)
    have zero: "zero_rows seqs ! r = replicate (length (seqs ! r)) 0" using r by (simp add: zero_rows_def)
    obtain start L where b: "real_block (masks ! r) = (start, L)" by (cases "real_block (masks ! r)")
    have "map_of rs r = map_of (collect_rows masks) r"
      using map_of_inject_set [OF dist distinct_collect_rows] mem by metis
    then have found: "map_of rs r = (if 2 \<le> L then Some (start, L) else None)"
      using r len unfolding map_of_collect_rows b by simp
    have "start + L \<le> length (seqs ! r)"
      using real_block_fits [OF b] list_all2_nthD [OF assms(1), of r] r len by simp
    then show "map (\<lambda>r. case map_of rs r of None \<Rightarrow> zero_rows seqs ! r
        | Some (start, L) \<Rightarrow> take start (zero_rows seqs ! r) @ f (r, start, L) @ drop (start + L - 1) (zero_rows seqs ! r))
        [0..<length seqs] ! r = map2 (whole_row lp g) seqs masks ! r"
      using r len found zero by (simp add: whole_row_def b zero_rows_def f)
  qed (simp_all add: zero_rows_def len)
  ultimately show ?thesis by (simp add: case_prod_unfold f)
qed

lemma engine_log_probs:
  fixes lp :: "'l \<Rightarrow> 'e::zero \<Rightarrow> 'v::comm_monoid_add"
  assumes "list_all2 (\<lambda>m s. length m = length s) masks seqs"
    "0 < ec_cp cfg" "0 < ec_tp cfg" "\<And>a. ec_aligned cfg = Some a \<Longrightarrow> 0 < a"
    "ec_single cfg \<and> 1 < ec_cp cfg \<Longrightarrow> \<not> ec_dynamic cfg"
    "attends_causally (ec_cp cfg) (ec_single cfg) (engine_align cfg) fwd g" "attends_causally 1 False 1 fwd g"
    "\<And>ids. fwd_one ids = map (\<lambda>i. g (take (Suc i) ids)) [0..<length ids]"
    "pipelined = (ec_pipeline cfg \<or> \<not> (ec_pp cfg = 1 \<and> ec_cp cfg = 1 \<and> \<not> ec_moe cfg))"
  shows "engine_compute_log_probs cfg check counts fwd fwd_one lp seqs masks =
    (case check of Some e \<Rightarrow> Inl e
     | None \<Rightarrow> Inr (if pipelined \<and> \<not> ec_last_stage cfg then zero_rows seqs else map2 (whole_row lp g) seqs masks))"
proof (cases check)
  case None
  show ?thesis
  proof (cases pipelined)
    case True
    let ?mbs = "native_microbatches cfg counts seqs masks"
    have "map_result (microbatch_values cfg fwd lp) ?mbs = Inr (map (\<lambda>mb. map (row_item lp g seqs) (fst mb)) ?mbs)"
      by (rule map_result_all native_pass [OF assms(2) engine_align_pos [OF assms(3,4)] assms(6,5) refl])+
    moreover have "concat (map (\<lambda>mb. map (row_item lp g seqs) (fst mb)) ?mbs) = map (row_item lp g seqs) (concat (map fst ?mbs))"
      by (simp add: map_concat comp_def)
    moreover note rows_written [where lp = lp and g = g,
        OF assms(1) conjunct1 [OF native_microbatches_ok [of ?mbs cfg counts seqs masks, OF refl]]]
    moreover have "engine_compute_log_probs cfg check counts fwd fwd_one lp seqs masks =
        pp_compute_log_probs cfg counts fwd lp seqs masks"
      using None True assms(9) by (simp add: engine_compute_log_probs_def)
    ultimately show ?thesis using None True
      unfolding pp_compute_log_probs_def by (cases "ec_last_stage cfg") (simp_all only: bind_result_simps option.case simp_thms if_True if_False write_rows.simps)
  next
    case False
    obtain bins where bins: "base_values (ec_dynamic cfg) (ec_max_tokens cfg) fwd fwd_one lp seqs masks =
        Inr (map (map (row_item lp g seqs)) bins)" "mset (concat bins) = mset (collect_rows masks)"
      using base_pass [OF assms(7,8)] by blast
    have "concat (map (map (row_item lp g seqs)) bins) = map (row_item lp g seqs) (concat bins)" by (simp add: map_concat)
    with bins False None assms(9) rows_written [OF assms(1) bins(2)] show ?thesis
      by (simp add: engine_compute_log_probs_def)
  qed
qed (simp add: engine_compute_log_probs_def)


lemma tokenwise_model:
  assumes "0 < align"
  shows "attends_causally cp single align (\<lambda>inputs r. fst (inputs ! r)) last"
proof -
  have "st_tokens (streams ! r) ! p = last (take (Suc i) (ids_list ! k))"
    if s: "r < cp" "pack_stream cp r single align ids_list = Inr (streams ! r)" "p < length (st_tokens (streams ! r))"
      "stream_sources cp r single align (map length ids_list) ! p = Some (k, i)" for ids_list streams r p k i
  proof -
    let ?srcs = "stream_sources cp r single align (map length ids_list)"
    note toks = stream_tokens [OF s(1) assms s(2)]
    have p: "p < length ?srcs" using s(3) unfolding toks by simp
    from nth_mem [OF this] have "Some (k, i) \<in> set ?srcs" unfolding s(4) .
    then have "k < length ids_list" "i < length (ids_list ! k)" using sources_known by fastforce+
    then show ?thesis using p by (simp add: toks s(4) take_Suc_conv_app_nth)
  qed
  note tok = this
  show ?thesis unfolding attends_causally_def
  proof (intro allI impI conjI)
    fix ids_list and streams :: "'a cp_stream list" and r
    assume s: "length streams = cp \<and> (\<forall>r < cp. pack_stream cp r single align ids_list = Inr (streams ! r))" "r < cp"
    then have e: "fst (map model_input streams ! r) = st_tokens (streams ! r)" by (simp add: model_input_def)
    show "length (fst (map model_input streams ! r)) = length (st_tokens (streams ! r))" unfolding e ..
    show "fst (map model_input streams ! r) ! p = last (take (Suc i) (ids_list ! k))"
      if "p < length (st_tokens (streams ! r))" "stream_sources cp r single align (map length ids_list) ! p = Some (k, i)" for p k i
      unfolding e using s that by (intro tok) auto
  qed
qed

section \<open>Losses\<close>

definition metrics_of :: "row_stats list \<Rightarrow> engine_metrics" where
  "metrics_of ss =
     \<lparr>em_loss = (\<Sum>s \<leftarrow> ss. rs_loss s), em_rows = length ss,
      em_ppo_kl = ((\<Sum>s \<leftarrow> ss. rs_ppo_kl_sum s), (\<Sum>s \<leftarrow> ss. rs_ppo_kl_tok s)),
      em_rc_kl = ((\<Sum>s \<leftarrow> ss. rs_rc_kl_sum s), (\<Sum>s \<leftarrow> ss. rs_rc_kl_tok s))\<rparr>"

definition row_terms :: "row_loss \<Rightarrow> (nat \<times> nat \<times> nat \<times> real list) list \<Rightarrow> (real \<times> row_stats) list" where
  \<comment> \<open>the losses of the rows that have one\<close>
  "row_terms row_loss items =
     concat (map (\<lambda>(r, start, L, vals). case row_loss r start vals of Inr (Some t) \<Rightarrow> [t] | _ \<Rightarrow> []) items)"

lemma bin_losses_ok:
  assumes "\<forall>(r, start, L, vals) \<in> set items. \<exists>o'. row_loss r start vals = Inr o'"
  shows "bin_losses row_loss items =
    Inr (if row_terms row_loss items = [] then None else Some (\<Sum>t \<leftarrow> row_terms row_loss items. fst t),
         metrics_of (map snd (row_terms row_loss items)))"
  using assms
proof (induction items)
  case Nil
  then show ?case by (simp add: row_terms_def metrics_of_def no_metrics_def)
next
  case (Cons item items)
  obtain r start L vals where item: "item = (r, start, L, vals)" by (metis surj_pair)
  obtain o' where o': "row_loss r start vals = Inr o'" using Cons.prems by (auto simp: item)
  have terms: "row_terms row_loss (item # items) = (case o' of None \<Rightarrow> [] | Some t \<Rightarrow> [t]) @ row_terms row_loss items"
    by (simp add: row_terms_def item o' split: option.split)
  have "bin_losses row_loss items =
    Inr (if row_terms row_loss items = [] then None else Some (\<Sum>t \<leftarrow> row_terms row_loss items. fst t),
         metrics_of (map snd (row_terms row_loss items)))"
    using Cons by simp
  then show ?case unfolding terms
    by (cases o') (auto simp: item o' metrics_of_def add_metrics_def stats_metrics_def)
qed

lemma sum_metrics_concat: "sum_metrics (map (\<lambda>xs. metrics_of (map snd xs)) xss) = metrics_of (map snd (concat xss))"
  by (induction xss) (simp_all add: sum_metrics_def metrics_of_def no_metrics_def add_metrics_def)

lemma metrics_of_mset: "mset ss = mset ts \<Longrightarrow> metrics_of ss = metrics_of ts"
proof -
  assume m: "mset ss = mset ts"
  then have "(\<Sum>s \<leftarrow> ss. f s) = (\<Sum>s \<leftarrow> ts. f s)" for f :: "row_stats \<Rightarrow> real"
    by (metis mset_map sum_mset_sum_list)
  with mset_eq_length [OF m] show ?thesis by (simp add: metrics_of_def)
qed

lemma row_terms_concat: "row_terms row_loss (concat xss) = concat (map (row_terms row_loss) xss)"
  by (induction xss) (simp_all add: row_terms_def)

lemma row_terms_mset: "mset xs = mset ys \<Longrightarrow> mset (row_terms row_loss xs) = mset (row_terms row_loss ys)"
proof -
  have "mset (row_terms row_loss xs) =
      (\<Sum>x \<in># mset xs. mset (case x of (r, start, L, vals) \<Rightarrow> case row_loss r start vals of Inr (Some t) \<Rightarrow> [t] | _ \<Rightarrow> []))" for xs
    by (induction xs) (simp_all add: row_terms_def)
  then show "mset xs = mset ys \<Longrightarrow> mset (row_terms row_loss xs) = mset (row_terms row_loss ys)" by simp
qed

lemma map_result_cong: "(\<And>x. x \<in> set xs \<Longrightarrow> f x = g x) \<Longrightarrow> map_result f xs = map_result g xs"
  by (induction xs) simp_all

lemma sum_over_concat: "(\<Sum>t \<leftarrow> concat (map f xs). h t) = (\<Sum>x \<leftarrow> xs. \<Sum>t \<leftarrow> f x. (h t :: real))"
  by (induction xs) simp_all

lemma bins_total:
  fixes item :: "block_row \<Rightarrow> nat \<times> nat \<times> nat \<times> real list"
  assumes "mset (concat bins) = mset rows" "\<forall>(r, start, L, vals) \<in> set (map item rows). \<exists>o'. row_loss r start vals = Inr o'"
  defines "terms \<equiv> \<lambda>bin. row_terms row_loss (map item bin)"
  shows "map_result (bin_losses row_loss) (map (map item) bins) =
      Inr (map (\<lambda>bin. (if terms bin = [] then None else Some (\<Sum>t \<leftarrow> terms bin. fst t), metrics_of (map snd (terms bin)))) bins)"
    "(\<Sum>bin \<leftarrow> bins. \<Sum>t \<leftarrow> terms bin. fst t) = (\<Sum>t \<leftarrow> terms rows. fst t)"
    "sum_metrics (map (\<lambda>bin. metrics_of (map snd (terms bin))) bins) = metrics_of (map snd (terms rows))"
proof -
  have mem: "set bin \<subseteq> set rows" if "bin \<in> set bins" for bin
  proof -
    have "set bin \<subseteq> set (concat bins)" using that by auto
    also have "\<dots> = set rows" using assms(1) by (metis set_mset_mset)
    finally show ?thesis .
  qed
  have "map_result (\<lambda>bin. bin_losses row_loss (map item bin)) bins =
      Inr (map (\<lambda>bin. (if terms bin = [] then None else Some (\<Sum>t \<leftarrow> terms bin. fst t), metrics_of (map snd (terms bin)))) bins)"
  proof (rule map_result_all)
    fix bin assume "bin \<in> set bins"
    from mem [OF this] have "set (map item bin) \<subseteq> set (map item rows)" by auto
    then have "\<forall>(r, start, L, vals) \<in> set (map item bin). \<exists>o'. row_loss r start vals = Inr o'"
      using assms(2) by blast
    from bin_losses_ok [OF this] show "bin_losses row_loss (map item bin) =
      Inr (if terms bin = [] then None else Some (\<Sum>t \<leftarrow> terms bin. fst t), metrics_of (map snd (terms bin)))"
      by (simp add: terms_def)
  qed
  then show "map_result (bin_losses row_loss) (map (map item) bins) =
      Inr (map (\<lambda>bin. (if terms bin = [] then None else Some (\<Sum>t \<leftarrow> terms bin. fst t), metrics_of (map snd (terms bin)))) bins)"
    by (simp add: map_result_map)
  have "mset (map item (concat bins)) = mset (map item rows)" using assms(1) by simp
  from row_terms_mset [OF this] have m: "mset (concat (map terms bins)) = mset (terms rows)"
    by (simp add: terms_def map_concat row_terms_concat comp_def)
  then have "(\<Sum>t \<leftarrow> concat (map terms bins). fst t) = (\<Sum>t \<leftarrow> terms rows. fst t)"
    by (metis mset_map sum_mset_sum_list)
  then show "(\<Sum>bin \<leftarrow> bins. \<Sum>t \<leftarrow> terms bin. fst t) = (\<Sum>t \<leftarrow> terms rows. fst t)"
    unfolding sum_over_concat .
  have "metrics_of (map snd (concat (map terms bins))) = metrics_of (map snd (terms rows))"
    by (rule metrics_of_mset) (use m in \<open>metis mset_map\<close>)
  then show "sum_metrics (map (\<lambda>bin. metrics_of (map snd (terms bin))) bins) = metrics_of (map snd (terms rows))"
    using sum_metrics_concat [of "map terms bins"] by (simp add: comp_def)
qed

lemma scaled_back:
  fixes f :: "'a \<Rightarrow> real"
  assumes "0 < cp"
  shows "sum_list (map (\<lambda>x. f x * real (length xs) / real cp) xs) * real cp / real (length xs) = (\<Sum>x \<leftarrow> xs. f x)"
proof (cases "xs = []")
  case False
  have "sum_list (map (\<lambda>x. f x * real (length xs) / real cp) xs) = (\<Sum>x \<leftarrow> xs. f x) * (real (length xs) / real cp)"
    unfolding sum_list_mult_const [symmetric] by simp
  with False assms show ?thesis by simp
qed simp

text \<open>C12: If the model's value of a token depends only on the tokens of its sequence up to it, the log-probabilities
  of a batch are those of every row alone in the model, at the columns of its tokens with zeros elsewhere: for
  every context parallel size and chunk layout, with and without a token budget, experts or pipeline stages,
  on the base path and on the native one. Other pipeline stages return zeros, and a failing check raises.\<close>

theorem engine_log_probs_whole:
  fixes lp :: "'l \<Rightarrow> 'e::zero \<Rightarrow> 'v::comm_monoid_add"
  assumes "list_all2 (\<lambda>m s. length m = length s) masks seqs"
    "0 < ec_cp cfg" "0 < ec_tp cfg" "\<And>a. ec_aligned cfg = Some a \<Longrightarrow> 0 < a"
    "ec_single cfg \<and> 1 < ec_cp cfg \<Longrightarrow> \<not> ec_dynamic cfg"
    "attends_causally (ec_cp cfg) (ec_single cfg) (engine_align cfg) fwd g" "attends_causally 1 False 1 fwd g"
    "\<And>ids. fwd_one ids = map (\<lambda>i. g (take (Suc i) ids)) [0..<length ids]"
    "pipelined = (ec_pipeline cfg \<or> \<not> (ec_pp cfg = 1 \<and> ec_cp cfg = 1 \<and> \<not> ec_moe cfg))"
  shows "engine_compute_log_probs cfg check counts fwd fwd_one lp seqs masks =
    (case check of Some e \<Rightarrow> Inl e
     | None \<Rightarrow> Inr (if pipelined \<and> \<not> ec_last_stage cfg then zero_rows seqs else map2 (whole_row lp g) seqs masks))"
  using assms by (rule engine_log_probs)

lemma engine_log_probs_whole_witness:
  "let cfg = \<lparr>ec_pp = 1, ec_cp = 2, ec_tp = 1, ec_sp = False, ec_ep = 1, ec_moe = False, ec_dynamic = True, ec_max_tokens = 8,
        ec_aligned = None, ec_single = False, ec_pipeline = False, ec_last_stage = True\<rparr>;
      lp = (\<lambda>l e. 100 * l + e); seqs = [[0, 5, 6, 7], [1, 2, 3, 4 :: nat], [0, 0, 0, 9]];
      masks = [[False, True, True, True], [True, True, True, True], [False, False, False, True]] in
    engine_compute_log_probs cfg None [] (\<lambda>inputs r. fst (inputs ! r)) (\<lambda>ids. map (\<lambda>i. last (take (Suc i) ids)) [0..<length ids])
      lp seqs masks = Inr (if True \<and> \<not> True then zero_rows seqs else map2 (whole_row lp last) seqs masks)
    \<and> map2 (whole_row lp last) seqs masks = [[0, 506, 607, 0], [102, 203, 304, 0], [0, 0, 0, 0]]"
proof -
  let ?cfg = "\<lparr>ec_pp = 1, ec_cp = 2, ec_tp = 1, ec_sp = False, ec_ep = 1, ec_moe = False, ec_dynamic = True, ec_max_tokens = 8,
        ec_aligned = None, ec_single = False, ec_pipeline = False, ec_last_stage = True\<rparr>"
  let ?lp = "\<lambda>l e. 100 * l + e" and ?seqs = "[[0, 5, 6, 7], [1, 2, 3, 4 :: nat], [0, 0, 0, 9]]"
    and ?masks = "[[False, True, True, True], [True, True, True, True], [False, False, False, True]]"
    and ?one = "\<lambda>ids. map (\<lambda>i. last (take (Suc i) ids)) [0..<length ids]"
  have "engine_compute_log_probs ?cfg None [] (\<lambda>inputs r. fst (inputs ! r)) ?one ?lp ?seqs ?masks =
    (case None of Some e \<Rightarrow> Inl e
     | None \<Rightarrow> Inr (if True \<and> \<not> ec_last_stage ?cfg then zero_rows ?seqs else map2 (whole_row ?lp last) ?seqs ?masks))"
    by (rule engine_log_probs_whole) (simp_all add: tokenwise_model engine_align_def stream_align_def)
  moreover have "map2 (whole_row ?lp last) ?seqs ?masks = [[0, 506, 607, 0], [102, 203, 304, 0], [0, 0, 0, 0]]"
    by code_simp
  ultimately show ?thesis by (simp add: Let_def)
qed

lemma update_loss_totals:
  assumes "list_all2 (\<lambda>m s. length m = length s) masks seqs" "seqs \<noteq> []"
    "0 < ec_cp cfg" "0 < ec_tp cfg" "\<And>a. ec_aligned cfg = Some a \<Longrightarrow> 0 < a"
    "ec_single cfg \<and> 1 < ec_cp cfg \<Longrightarrow> \<not> ec_dynamic cfg"
    "attends_causally (ec_cp cfg) (ec_single cfg) (engine_align cfg) fwd g" "attends_causally 1 False 1 fwd g"
    "\<And>ids. fwd_one ids = map (\<lambda>i. g (take (Suc i) ids)) [0..<length ids]"
    "items = map (\<lambda>(r, start, L). (r, start, L, whole_values lp g (py_slice start (start + L) (seqs ! r)))) (collect_rows masks)"
    "\<forall>(r, start, L, vals) \<in> set items. \<exists>o'. row_loss r start vals = Inr o'"
  shows "(\<exists>losses. pp_update_policy cfg counts fwd lp row_loss seqs masks = Inr (losses, metrics_of (map snd (row_terms row_loss items)))
        \<and> sum_list losses * real (ec_cp cfg) / real (length losses) = (\<Sum>t \<leftarrow> row_terms row_loss items. fst t))
    \<and> (\<exists>losses. base_update_policy dynamic max_tokens fwd fwd_one lp row_loss seqs masks
          = Inr (losses, metrics_of (map snd (row_terms row_loss items)))
        \<and> sum_list losses = (\<Sum>t \<leftarrow> row_terms row_loss items. fst t))"
proof
  let ?item = "row_item lp g seqs" and ?rows = "collect_rows masks"
  have items: "items = map ?item ?rows" by (simp add: assms(10) case_prod_unfold)
  note total = bins_total [OF _ assms(11) [unfolded items]]
  let ?mbs = "native_microbatches cfg counts seqs masks"
  let ?terms = "\<lambda>bin. row_terms row_loss (map ?item bin)"
  let ?sum = "\<lambda>bin. \<Sum>t \<leftarrow> ?terms bin. fst t"
  let ?out = "\<lambda>bin. (if ?terms bin = [] then None else Some (?sum bin), metrics_of (map snd (?terms bin)))"
  have none: "?sum bin = 0" if "?terms bin = []" for bin using that by simp
  note mset_mbs = conjunct1 [OF native_microbatches_ok [of ?mbs cfg counts seqs masks, OF refl]]
  have "map_result (\<lambda>mb. bind_result (microbatch_values cfg fwd lp mb) (bin_losses row_loss)) ?mbs =
      map_result (bin_losses row_loss) (map (map ?item) (map fst ?mbs))"
    unfolding map_result_map
    by (rule map_result_cong) (simp add: native_pass [OF assms(3) engine_align_pos [OF assms(4,5)] assms(7,6) refl])
  also have "\<dots> = Inr (map ?out (map fst ?mbs))" by (rule total(1) [OF mset_mbs])
  finally have native: "map_result (\<lambda>mb. bind_result (microbatch_values cfg fwd lp mb) (bin_losses row_loss)) ?mbs =
      Inr (map ?out (map fst ?mbs))" .
  show "\<exists>losses. pp_update_policy cfg counts fwd lp row_loss seqs masks = Inr (losses, metrics_of (map snd (row_terms row_loss items)))
      \<and> sum_list losses * real (ec_cp cfg) / real (length losses) = (\<Sum>t \<leftarrow> row_terms row_loss items. fst t)"
  proof (intro exI conjI)
    let ?bins = "map fst ?mbs"
    let ?losses = "map (\<lambda>bin. ?sum bin * real (length ?bins) / real (ec_cp cfg)) ?bins"
    have "pp_update_policy cfg counts fwd lp row_loss seqs masks =
      Inr (map (\<lambda>(loss, _). (case loss of None \<Rightarrow> 0 | Some l \<Rightarrow> l) * real (length ?mbs) / real (ec_cp cfg)) (map ?out ?bins),
           sum_metrics (map snd (map ?out ?bins)))"
      using assms(2) by (simp only: pp_update_policy_def Let_def native bind_result_simps simp_thms if_False)
    also have "map (\<lambda>(loss, _). (case loss of None \<Rightarrow> 0 | Some l \<Rightarrow> l) * real (length ?mbs) / real (ec_cp cfg)) (map ?out ?bins) = ?losses"
      using none by (simp add: comp_def)
    also have "sum_metrics (map snd (map ?out ?bins)) = metrics_of (map snd (row_terms row_loss items))"
      using total(3) [OF mset_mbs] by (simp add: comp_def items)
    finally show "pp_update_policy cfg counts fwd lp row_loss seqs masks = Inr (?losses, metrics_of (map snd (row_terms row_loss items)))" .
    have "sum_list ?losses * real (ec_cp cfg) / real (length ?bins) = (\<Sum>bin \<leftarrow> ?bins. ?sum bin)"
      by (rule scaled_back [OF assms(3)])
    also have "\<dots> = (\<Sum>t \<leftarrow> row_terms row_loss items. fst t)" unfolding items by (rule total(2) [OF mset_mbs])
    finally show "sum_list ?losses * real (ec_cp cfg) / real (length ?losses) = (\<Sum>t \<leftarrow> row_terms row_loss items. fst t)"
      by (simp only: length_map)
  qed
  obtain bins where bins: "base_values dynamic max_tokens fwd fwd_one lp seqs masks = Inr (map (map ?item) bins)"
      "mset (concat bins) = mset ?rows"
    using base_pass [OF assms(8,9)] by blast
  show "\<exists>losses. base_update_policy dynamic max_tokens fwd fwd_one lp row_loss seqs masks
          = Inr (losses, metrics_of (map snd (row_terms row_loss items)))
        \<and> sum_list losses = (\<Sum>t \<leftarrow> row_terms row_loss items. fst t)"
  proof (intro exI conjI)
    let ?losses = "concat (map (\<lambda>(loss, _). case loss of None \<Rightarrow> [] | Some l \<Rightarrow> [l]) (map ?out bins))"
    have "base_update_policy dynamic max_tokens fwd fwd_one lp row_loss seqs masks = Inr (?losses, sum_metrics (map snd (map ?out bins)))"
      using assms(2) by (simp only: base_update_policy_def bins(1) total(1) [OF bins(2)] bind_result_simps simp_thms if_False)
    also have "sum_metrics (map snd (map ?out bins)) = metrics_of (map snd (row_terms row_loss items))"
      using total(3) [OF bins(2)] by (simp add: comp_def items)
    finally show "base_update_policy dynamic max_tokens fwd fwd_one lp row_loss seqs masks
        = Inr (?losses, metrics_of (map snd (row_terms row_loss items)))" .
    have "sum_list ?losses = (\<Sum>bin \<leftarrow> bins. ?sum bin)" by (induction bins) (simp_all add: none)
    also have "\<dots> = (\<Sum>t \<leftarrow> row_terms row_loss items. fst t)" unfolding items by (rule total(2) [OF bins(2)])
    finally show "sum_list ?losses = (\<Sum>t \<leftarrow> row_terms row_loss items. fst t)" .
  qed
qed


lemma policy_metrics_lookup:
  "map_of (native_policy_metrics True algo lr gn m) ''loss'' = Some (loss_metric True algo m)"
  "map_of (base_policy_metrics algo lr gn m) ''loss'' = Some (loss_metric False algo m)"
  "k \<noteq> ''loss'' \<Longrightarrow> map_of (native_policy_metrics True algo lr gn m) k = map_of (base_policy_metrics algo lr gn m) k"
  by (simp_all add: native_policy_metrics_def base_policy_metrics_def)

text \<open>C13: The update is the same for every packing. Whatever the context parallel size, the token budget and the
  number of microbatches, dummy ones included, what Megatron propagates backward, the returned losses times the
  context parallel size over the number of microbatches, adds up to the losses of the rows computed from each row
  alone in the model, and the base engine propagates the same total. Both engines collect the same sums of
  losses, divergences and counts over the rows that have a loss. What the last stage of the native engine reports
  of them agrees with what the base engine reports in every metric but the loss: the native engine always reports the mean of
  the row losses, the base engine reports their sum for GRPO and the mean for the other algorithms.\<close>

theorem update_loss_any_packing:
  assumes "list_all2 (\<lambda>m s. length m = length s) masks seqs" "seqs \<noteq> []"
    "0 < ec_cp cfg" "0 < ec_tp cfg" "\<And>a. ec_aligned cfg = Some a \<Longrightarrow> 0 < a"
    "ec_single cfg \<and> 1 < ec_cp cfg \<Longrightarrow> \<not> ec_dynamic cfg"
    "attends_causally (ec_cp cfg) (ec_single cfg) (engine_align cfg) fwd g" "attends_causally 1 False 1 fwd g"
    "\<And>ids. fwd_one ids = map (\<lambda>i. g (take (Suc i) ids)) [0..<length ids]"
    "items = map (\<lambda>(r, start, L). (r, start, L, whole_values lp g (py_slice start (start + L) (seqs ! r)))) (collect_rows masks)"
    "\<forall>(r, start, L, vals) \<in> set items. \<exists>o'. row_loss r start vals = Inr o'"
  shows "(\<exists>losses. pp_update_policy cfg counts fwd lp row_loss seqs masks = Inr (losses, metrics_of (map snd (row_terms row_loss items)))
        \<and> sum_list losses * real (ec_cp cfg) / real (length losses) = (\<Sum>t \<leftarrow> row_terms row_loss items. fst t))
    \<and> (\<exists>losses. base_update_policy dynamic max_tokens fwd fwd_one lp row_loss seqs masks
          = Inr (losses, metrics_of (map snd (row_terms row_loss items)))
        \<and> sum_list losses = (\<Sum>t \<leftarrow> row_terms row_loss items. fst t))
    \<and> (let stats = map snd (row_terms row_loss items); m = metrics_of stats; total = (\<Sum>s \<leftarrow> stats. rs_loss s);
          mean = total / real (max 1 (length stats)) in
        map_of (native_policy_metrics True algo lr grad_norm m) ''loss'' = Some mean
        \<and> map_of (base_policy_metrics algo lr grad_norm m) ''loss'' = Some (if algo = ''grpo'' then total else mean)
        \<and> (\<forall>k. k \<noteq> ''loss'' \<longrightarrow>
             map_of (native_policy_metrics True algo lr grad_norm m) k = map_of (base_policy_metrics algo lr grad_norm m) k))"
  using update_loss_totals [where dynamic = dynamic and max_tokens = max_tokens and counts = counts, OF assms]
  by (simp add: Let_def policy_metrics_lookup loss_metric_def metrics_of_def)

section \<open>A first update on the engine's own log-probabilities\<close>

lemma whole_row_prefix:
  assumes "real_block msk = (start, L)" "2 \<le> L" "start + L \<le> length seq" "n \<le> L - 1"
  shows "take n (drop start (whole_row lp g seq msk)) = take n (whole_values lp g (py_slice start (start + L) seq))"
    "L - 1 \<le> length (drop start (whole_row lp g seq msk))"
  using assms by (simp_all add: whole_row_def whole_values_def)

lemma clip_token_same:
  assumes "0 \<le> low" "0 \<le> high" "c \<le> 0 \<or> 1 \<le> c"
  shows "clip_token low high c x x a = - a"
proof -
  have "clip 1 (1 - low) (1 + high) = (1 :: real)" using assms(1,2) by (simp add: clip_def)
  moreover have "a < 0 \<Longrightarrow> 1 \<le> c \<Longrightarrow> - a \<le> - (a * c)"
    by (simp add: mult_le_cancel_left1)
  ultimately show ?thesis using assms(3) by (auto simp: clip_token_def clip_def Let_def)
qed

abbreviation weighted_advantages :: "real list \<Rightarrow> real list option \<Rightarrow> real list" where
  \<comment> \<open>the negated advantages, times the importance weights if there are any\<close>
  "weighted_advantages a ris \<equiv> (case ris of None \<Rightarrow> map uminus a | Some w \<Rightarrow> map2 (*) (map uminus a) w)"

lemma asymmetric_clip_same:
  assumes "0 \<le> low" "0 \<le> high" "c \<le> 0 \<or> 1 \<le> c" "length x = length a" "\<And>w. ris = Some w \<Longrightarrow> length w = length a"
  shows "asymmetric_clip_loss [x] [x] [a] low high (Some [m]) c bnt dp (map_option (\<lambda>w. [w]) ris) mode global
    = agg_loss [weighted_advantages a ris] [m] mode dp bnt global"
proof -
  have "map2 (\<lambda>l (old, adv). clip_token low high c l old adv) x (map2 Pair x a) = map uminus a"
    by (rule nth_equalityI) (simp_all add: assms(4) clip_token_same [OF assms(1-3)])
  then show ?thesis using assms(4,5)
    by (cases ris) (simp_all add: asymmetric_clip_loss_def same_shape_def map_tokens2_def)
qed

lemma Min_insert_above: "finite A \<Longrightarrow> A \<noteq> {} \<Longrightarrow> Min A \<le> x \<Longrightarrow> Min (insert x A) = Min (A :: nat set)"
  by (simp add: min_absorb2)

lemma masked_diff_same: "masked_diff m xs xs = 0"
proof -
  have "row_sum (map2 (-) xs xs) m = 0"
  proof (induction xs arbitrary: m)
    case (Cons x xs)
    then show ?case by (cases m) (simp_all add: row_sum_def)
  qed (simp add: row_sum_def)
  then show ?thesis by (simp add: masked_diff_def)
qed

lemma Min_take: "n = Min (set xs) \<Longrightarrow> y \<in> set xs \<Longrightarrow> n \<le> (y :: nat)"
  by simp

text \<open>C14: A first update on the engine's own log-probabilities. Let the old log-probabilities of a batch be those the
  last pipeline stage of an engine returns, whatever its topology, for a model in which a token attends to its own
  sequence up to itself. Then for DAPO and GRPO, with clip bounds that are not negative and a dual clip that is off
  or at least one, and a batch with a response mask and advantages, per row or per token, the columns of each row
  match the log-probabilities of the update and every ratio is one: the loss of the row is the aggregate over the
  response mask of its negated advantages, times the importance weights when the batch has them, plus the
  KL term of the reference policy when the batch has one and its coefficient is positive; the measured
  divergence from the old policy is zero, and that from the rollout policy is the masked difference of the
  rollout log-probabilities when the batch has them.\<close>

theorem on_policy_row_loss:
  fixes lp :: "'l \<Rightarrow> 'e::zero \<Rightarrow> real"
  assumes "list_all2 (\<lambda>m s. length m = length s) masks seqs"
    "0 < ec_cp cfg" "0 < ec_tp cfg" "\<And>a. ec_aligned cfg = Some a \<Longrightarrow> 0 < a"
    "ec_single cfg \<and> 1 < ec_cp cfg \<Longrightarrow> \<not> ec_dynamic cfg"
    "attends_causally (ec_cp cfg) (ec_single cfg) (engine_align cfg) fwd g" "attends_causally 1 False 1 fwd g"
    "\<And>ids. fwd_one ids = map (\<lambda>i. g (take (Suc i) ids)) [0..<length ids]" "ec_last_stage cfg"
    "engine_compute_log_probs cfg None counts fwd fwd_one lp seqs masks = Inr old"
    "(r, start, L) \<in> set (collect_rows masks)" "vals = whole_values lp g (py_slice start (start + L) (seqs ! r))"
    "algo = ''dapo'' \<or> algo = ''grpo''"
    "pt_old t = Some old" "pt_response t = Some resp" "r < length resp"
    "pt_advantages t = Some adv" "row_advantages adv r start (L - 1) = Inr a0"
    "row_col (pt_is_weights t) r start = Inr ris" "row_col (pt_ref t) r start = Inr ref" "row_col (pt_rollout t) r start = Inr rlp"
    "0 \<le> opts (if algo = ''dapo'' then ''clip_ratio_low'' else ''clip_ratio'') (2 / 10)" "0 \<le> opts ''clip_ratio_high'' (28 / 100)"
    "algo = ''dapo'' \<Longrightarrow> opts ''clip_ratio_c'' 0 \<le> 0 \<or> 1 \<le> opts ''clip_ratio_c'' 0"
    "shift = (if response_mask_is_token_indexed t then 1 else 0)"
    "n = Min (set ([L - 1, length a0, length (drop (start + shift) (resp ! r))] @ opt_length ris @ opt_length ref @ opt_length rlp))"
    "a = take n a0" "m = take n (drop (start + shift) (resp ! r))"
  shows "row_policy_loss algo opts bnt dp mode global t r start vals =
    bind_result (agg_loss [weighted_advantages a (map_option (take n) ris)] [m] (if algo = ''dapo'' then ''token-mean'' else mode) dp bnt
        (if algo = ''dapo'' then None else Some global)) (\<lambda>loss.
    bind_result (kl_term opts (take n vals) (map_option (take n) ref) (Some m)) (\<lambda>kl.
      Inr (Some (loss + kl,
        \<lparr>rs_loss = loss + kl, rs_ppo_kl_sum = 0, rs_ppo_kl_tok = real (mask_count m),
         rs_rc_kl_sum = (case rlp of None \<Rightarrow> 0 | Some x \<Rightarrow> masked_diff m (take n x) (take n vals)),
         rs_rc_kl_tok = (case rlp of None \<Rightarrow> 0 | Some x \<Rightarrow> real (mask_count m))\<rparr>))))"
proof -
  have fit: "r < length masks" "2 \<le> L" "start + L \<le> length (seqs ! r)" "length masks = length seqs"
    using collect_rows_fit [OF assms(11)] list_all2_nthD [OF assms(1), of r] list_all2_lengthD [OF assms(1)] by auto
  have "map_of (collect_rows masks) r = Some (start, L)"
    using assms(11) distinct_collect_rows [of masks] by simp
  then have block: "real_block (masks ! r) = (start, L)" unfolding map_of_collect_rows by (simp split: if_splits)
  have "old = map2 (whole_row lp g) seqs masks"
    using engine_log_probs [where check = None and lp = lp and counts = counts, OF assms(1-8) refl] assms(9,10) by simp
  with fit have old: "r < length old" "old ! r = whole_row lp g (seqs ! r) (masks ! r)" by simp_all
  have len: "length vals = L - 1" using fit(3) by (simp add: assms(12) whole_values_def)
  let ?rest = "opt_length ris @ opt_length ref @ opt_length rlp" and ?resp = "drop (start + shift) (resp ! r)"
  have n: "n \<le> L - 1" "n \<le> length a0" by (rule Min_take [OF assms(26)], simp)+
  have "n \<le> length w" if "ris = Some w" for w
    by (rule Min_take [OF assms(26)]) (simp add: that opt_length_def)
  then have ris: "length w = n" if "map_option (take n) ris = Some w" for w using that by auto
  have prefix: "take n (drop start (old ! r)) = take n vals"
    unfolding old(2) assms(12) by (rule whole_row_prefix(1) [OF block fit(2,3) n(1)])
  have cols: "row_col (pt_old t) r start = Inr (Some (drop start (old ! r)))"
    "row_col (pt_response t) r (start + (if response_mask_is_token_indexed t then 1 else 0)) = Inr (Some ?resp)"
    "row_advantages adv r start (length vals) = Inr a0"
    using old(1) assms(16,18) by (simp_all add: row_col_def tensor_row_def assms(14,15) len assms(25) [symmetric])
  have "n \<le> length (drop start (old ! r))"
    using n(1) whole_row_prefix(2) [OF block fit(2,3), of 0 lp g] unfolding old(2) by linarith
  moreover have "set ([length vals, length (drop start (old ! r)), length a0] @ opt_length (Some ?resp) @ ?rest)
    = insert (length (drop start (old ! r))) (set ([L - 1, length a0, length ?resp] @ ?rest))"
    unfolding len by (auto simp: opt_length_def)
  ultimately have min: "Min (set ([length vals, length (drop start (old ! r)), length a0] @ opt_length (Some ?resp) @ ?rest)) = n"
    unfolding assms(26) by (subst \<open>set _ = _\<close>) (rule Min_insert_above, simp_all)
  have la: "length a = n" "length (take n vals) = length a" using n len by (simp_all add: assms(27))
  have same: "asymmetric_clip_loss [take n vals] [take n vals] [a] low high (Some [m]) c bnt dp
        (map_option (\<lambda>w. [w]) (map_option (take n) ris)) mode' global'
      = agg_loss [weighted_advantages a (map_option (take n) ris)] [m] mode' dp bnt global'"
    if "0 \<le> low" "0 \<le> high" "c \<le> 0 \<or> 1 \<le> c" for low high c mode' global'
    by (rule asymmetric_clip_same [OF that la(2)]) (simp only: la(1), rule ris)
  have loss: "algorithm_loss algo opts bnt dp mode global (take n vals) (take n vals) a (Some m) (map_option (take n) ris) =
      agg_loss [weighted_advantages a (map_option (take n) ris)] [m] (if algo = ''dapo'' then ''token-mean'' else mode) dp bnt
        (if algo = ''dapo'' then None else Some global)"
  proof (cases "algo = ''dapo''")
    case True
    then show ?thesis using same [OF _ assms(23) assms(24)] assms(22) by (simp add: algorithm_loss_def)
  next
    case False
    then show ?thesis using same [OF _ assms(23), of _ 0] assms(13,22) by (simp add: algorithm_loss_def)
  qed
  show ?thesis
    unfolding row_policy_loss_def cols assms(19-21) bind_result_simps option.case assms(17) Let_def min option.map
    unfolding prefix assms(27) [symmetric] assms(28) [symmetric] loss masked_diff_same
    by (cases rlp) simp_all
qed



definition sample_engine :: engine_config where
  \<comment> \<open>two context parallel ranks with a token budget\<close>
  "sample_engine = \<lparr>ec_pp = 1, ec_cp = 2, ec_tp = 1, ec_sp = False, ec_ep = 1, ec_moe = False, ec_dynamic = True,
     ec_max_tokens = 8, ec_aligned = None, ec_single = False, ec_pipeline = False, ec_last_stage = True\<rparr>"

abbreviation own_token :: "(nat, nat) model" where
  "own_token \<equiv> (\<lambda>inputs r. fst (inputs ! r))"

abbreviation own_token_alone :: "nat list \<Rightarrow> nat list" where
  "own_token_alone \<equiv> (\<lambda>ids. map (\<lambda>i. last (take (Suc i) ids)) [0..<length ids])"

lemma sample_engine_ok [simp]:
  "ec_cp sample_engine = 2" "ec_tp sample_engine = 1" "ec_aligned sample_engine = None" "ec_single sample_engine = False"
  "ec_last_stage sample_engine" "engine_align sample_engine = 1"
  by (simp_all add: sample_engine_def engine_align_def stream_align_def)

lemma update_loss_any_packing_witness:
  "let seqs = [[0, 5, 6, 7], [1, 2, 3, 4], [0, 0, 8, 9]];
      masks = [[False, True, True, True], [True, True, True, True], [False, False, True, True]];
      lp = (\<lambda>l e. real (100 * l + e));
      row_loss = (\<lambda>r start vals. Inr (if r = 1 then None
        else Some (sum_list vals, \<lparr>rs_loss = sum_list vals, rs_ppo_kl_sum = 0, rs_ppo_kl_tok = 1, rs_rc_kl_sum = 0, rs_rc_kl_tok = 0\<rparr>)));
      items = map (\<lambda>(r, start, L). (r, start, L, whole_values lp last (py_slice start (start + L) (seqs ! r)))) (collect_rows masks) in
    (\<exists>losses. pp_update_policy sample_engine [] own_token lp row_loss seqs masks = Inr (losses, metrics_of (map snd (row_terms row_loss items)))
      \<and> sum_list losses * real (ec_cp sample_engine) / real (length losses) = (\<Sum>t \<leftarrow> row_terms row_loss items. fst t))
    \<and> (\<exists>losses. base_update_policy True 8 own_token own_token_alone lp row_loss seqs masks
          = Inr (losses, metrics_of (map snd (row_terms row_loss items)))
        \<and> sum_list losses = (\<Sum>t \<leftarrow> row_terms row_loss items. fst t))
    \<and> map_of (base_policy_metrics ''grpo'' 1 1 (metrics_of (map snd (row_terms row_loss items)))) ''loss''
        = Some (\<Sum>s \<leftarrow> map snd (row_terms row_loss items). rs_loss s)"
proof -
  let ?seqs = "[[0, 5, 6, 7], [1, 2, 3, 4], [0, 0, 8, 9]]"
    and ?masks = "[[False, True, True, True], [True, True, True, True], [False, False, True, True]]"
    and ?lp = "\<lambda>l e. real (100 * l + e)"
    and ?loss = "\<lambda>r start vals. Inr (if r = 1 then None
        else Some (sum_list vals, \<lparr>rs_loss = sum_list vals, rs_ppo_kl_sum = 0, rs_ppo_kl_tok = 1, rs_rc_kl_sum = 0, rs_rc_kl_tok = 0\<rparr>))"
  show ?thesis
    unfolding Let_def
    using update_loss_any_packing [where g = last and masks = ?masks and seqs = ?seqs and lp = ?lp and row_loss = ?loss
        and cfg = sample_engine and fwd = own_token and fwd_one = own_token_alone and counts = "[]" and dynamic = True
        and max_tokens = 8 and algo = "''grpo''" and lr = 1 and grad_norm = 1, OF _ _ _ _ _ _ _ _ refl refl]
    by (auto simp: tokenwise_model Let_def)
qed

lemma on_policy_row_loss_witness:
  \<comment> \<open>with importance weights and rollout log-probabilities\<close>
  "let seqs = [[0, 5, 6, 7], [1, 2, 3, 4]]; masks = [[False, True, True, True], [True, True, True, True]];
      lp = (\<lambda>l e. real (100 * l + e)); old = projr (engine_compute_log_probs sample_engine None [] own_token own_token_alone lp seqs masks);
      vals = whole_values lp last (py_slice 1 (1 + 3) (seqs ! 0));
      t = \<lparr>pt_width = 4, pt_old = Some old, pt_response = Some [[False, False, True], [True, False, True]],
        pt_advantages = Some (Token_Advantages [[1, 1, 1], [2, 2, 2]]), pt_is_weights = Some [[1, 2, 3], [1, 1, 1]],
        pt_ref = None, pt_rollout = Some [[0, 4, 5], [0, 0, 0]]\<rparr> in
    row_policy_loss ''dapo'' (\<lambda>key d. d) (Some 5) 2 ''token-mean'' 4 t 0 1 vals =
    bind_result (agg_loss [weighted_advantages [1, 1] (map_option (take 2) (Some [2, 3]))] [[False, True]]
        (if ''dapo'' = ''dapo'' then ''token-mean'' else ''token-mean'') 2 (Some 5) (if ''dapo'' = ''dapo'' then None else Some 4)) (\<lambda>loss.
    bind_result (kl_term (\<lambda>key d. d) (take 2 vals) (map_option (take 2) None) (Some [False, True])) (\<lambda>kl.
      Inr (Some (loss + kl,
        \<lparr>rs_loss = loss + kl, rs_ppo_kl_sum = 0, rs_ppo_kl_tok = real (mask_count [False, True]),
         rs_rc_kl_sum = (case Some [4, 5] of None \<Rightarrow> 0 | Some x \<Rightarrow> masked_diff [False, True] (take 2 x) (take 2 vals)),
         rs_rc_kl_tok = (case Some [4, 5 :: real] of None \<Rightarrow> 0 | Some x \<Rightarrow> real (mask_count [False, True]))\<rparr>))))"
  unfolding Let_def
proof (rule on_policy_row_loss [where masks = "[[False, True, True, True], [True, True, True, True]]" and cfg = sample_engine
      and fwd = own_token and g = last and fwd_one = own_token_alone and counts = "[]" and L = 3 and n = 2 and shift = 0
      and resp = "[[False, False, True], [True, False, True]]" and adv = "Token_Advantages [[1, 1, 1], [2, 2, 2]]" and a0 = "[1, 1]"
      and seqs = "[[0, 5, 6, 7], [1, 2, 3, 4]]" and lp = "\<lambda>l e. real (100 * l + e)" and algo = "''dapo''" and a = "[1, 1]"
      and ris = "Some [2, 3]" and rlp = "Some [4, 5]" and ref = None])
  let ?seqs = "[[0, 5, 6, 7], [1, 2, 3, 4]]" and ?masks = "[[False, True, True, True], [True, True, True, True]]"
  have "engine_compute_log_probs sample_engine None [] own_token own_token_alone (\<lambda>l e. real (100 * l + e)) ?seqs ?masks =
      Inr (map2 (whole_row (\<lambda>l e. real (100 * l + e)) last) ?seqs ?masks)"
    by (subst engine_log_probs [where g = last, OF _ _ _ _ _ _ _ _ refl]) (simp_all add: tokenwise_model)
  then show "engine_compute_log_probs sample_engine None [] own_token own_token_alone (\<lambda>l e. real (100 * l + e)) ?seqs ?masks =
      Inr (projr (engine_compute_log_probs sample_engine None [] own_token own_token_alone (\<lambda>l e. real (100 * l + e)) ?seqs ?masks))"
    by simp
  show "(0, 1, 3) \<in> set (collect_rows ?masks)" by code_simp
  show "[1, 1 :: real] = take 2 [1, 1]" by simp
  show "2 = Min (set ([3 - 1, length [1, 1 :: real], length (drop (1 + 0) ([[False, False, True], [True, False, True]] ! 0))]
      @ opt_length (Some [2, 3 :: real]) @ opt_length (None :: real list option) @ opt_length (Some [4, 5 :: real])))"
    by (simp add: opt_length_def)
qed (simp_all add: tokenwise_model response_mask_is_token_indexed_def min_def row_advantages_def row_col_def tensor_row_def)

lemma sft_batch_has_no_loss:
  \<comment> \<open>the pipeline path has no supervised branch: rows without old log-probabilities are skipped\<close>
  "pt_old t = None \<Longrightarrow> row_policy_loss algo cfg bnt dp mode global t r start vals = Inr None"
  by (simp add: row_policy_loss_def row_col_def)

lemma grpo_loss_metric_differs:
  "loss_metric False ''grpo'' \<lparr>em_loss = 6, em_rows = 3, em_ppo_kl = (0, 0), em_rc_kl = (0, 0)\<rparr> = 6"
  "loss_metric True ''grpo'' \<lparr>em_loss = 6, em_rows = 3, em_ppo_kl = (0, 0), em_rc_kl = (0, 0)\<rparr> = 2"
  by (simp_all add: loss_metric_def)



section \<open>Supervised updates\<close>

definition base_update_sft ::
  "('e list \<Rightarrow> 'l list) \<Rightarrow> ('l \<Rightarrow> 'e \<Rightarrow> real) \<Rightarrow> bool list list \<Rightarrow> nat \<Rightarrow> (nat \<Rightarrow> nat) \<Rightarrow> 'e list list \<Rightarrow> bool list list \<Rightarrow> real list \<times> nat" where
  \<comment> \<open>\<open>_engine_update_sft\<close>: the losses that are propagated and the number of tokens; \<open>all_reduce\<close> sums over the
      data parallel group\<close>
  "base_update_sft fwd_one lp loss_masks dp all_reduce seqs masks =
     (let rows = collect_rows masks;
          row_mask = (\<lambda>row. case row of (r, start, L) \<Rightarrow> py_slice (start + 1) (start + L) (loss_masks ! r));
          local_tokens = sum_list (map (\<lambda>row. mask_count (row_mask row)) rows);
          global_tokens = max (all_reduce local_tokens) 1 in
      (concat (map (\<lambda>row. case base_row_values fwd_one lp seqs row of (r, start, L, vals) \<Rightarrow>
          let n = min (length vals) (length (row_mask row)); m = take n (row_mask row) in
          if mask_count m < 1 then [] else [- row_sum (take n vals) m / real global_tokens * real dp]) rows),
       local_tokens))"

definition engine_update_policy ::
  "engine_config \<Rightarrow> py_error option \<Rightarrow> bool \<Rightarrow> nat list \<Rightarrow> ('e, 'l) model \<Rightarrow> ('e list \<Rightarrow> 'l list) \<Rightarrow> ('l \<Rightarrow> 'e \<Rightarrow> real) \<Rightarrow> row_loss
   \<Rightarrow> bool list list \<Rightarrow> nat \<Rightarrow> (nat \<Rightarrow> nat) \<Rightarrow> 'e::zero list list \<Rightarrow> bool list list \<Rightarrow> real list result" where
  \<comment> \<open>the losses that are propagated; \<open>sft\<close> is the task type of the batch\<close>
  "engine_update_policy cfg check sft counts fwd fwd_one lp row_loss loss_masks dp all_reduce seqs masks =
     (case check of Some e \<Rightarrow> Inl e
      | None \<Rightarrow>
          if ec_pipeline cfg \<or> \<not> (ec_pp cfg = 1 \<and> ec_cp cfg = 1 \<and> \<not> ec_moe cfg)
          then bind_result (pp_update_policy cfg counts fwd lp row_loss seqs masks) (\<lambda>(losses, _). Inr losses)
          else if seqs = [] then Inr []
          else if sft then Inr (fst (base_update_sft fwd_one lp loss_masks dp all_reduce seqs masks))
          else bind_result (base_update_policy (ec_dynamic cfg) (ec_max_tokens cfg) fwd fwd_one lp row_loss seqs masks)
                 (\<lambda>(losses, _). Inr losses))"

lemma row_sum_masked: "sum_list (map2 (\<lambda>v b. (if b then v else 0) * of_mask b) vs m) = row_sum vs m"
proof -
  have "(\<lambda>(v :: real, b). (if b then v else 0) * of_mask b) = (\<lambda>(v, b). v * of_mask b)" by (auto simp: of_mask_def)
  then show ?thesis by (simp add: row_sum_def)
qed

lemma row_sum_no_mask: "mask_count m = 0 \<Longrightarrow> row_sum vs m = 0"
proof (induction vs arbitrary: m)
  case (Cons v vs)
  then show ?case by (cases m) (auto simp: row_sum_def mask_count_def of_mask_def split: if_splits)
qed (simp add: row_sum_def)

lemma row_sum_uminus: "row_sum (map uminus vs) m = - row_sum vs m"
  by (induction vs arbitrary: m) (simp add: row_sum_def, case_tac m, simp_all add: row_sum_def)

lemma row_sum_take: "row_sum (take (min (length vs) (length m)) vs) (take (min (length vs) (length m)) m) = row_sum vs m"
  by (simp add: row_sum_def take_zip [symmetric] take_map [symmetric])

text \<open>C15: On the path without sharding the supervised losses of the rows add up to the reference \<open>sft_loss\<close> of the batch
  with the token mean over all data parallel ranks, and the same number of tokens is reported.\<close>

theorem sft_update_matches_reference:
  assumes "list_all2 (\<lambda>m s. length m = length s) masks seqs" "list_all2 (\<lambda>m s. length m = length s) loss_masks seqs"
    "\<And>ids. fwd_one ids = map (\<lambda>i. g (take (Suc i) ids)) [0..<length ids]"
    "rows = collect_rows masks"
    "vals = map (\<lambda>(r, start, L). whole_values lp g (py_slice start (start + L) (seqs ! r))) rows"
    "ms = map (\<lambda>(r, start, L). py_slice (start + 1) (start + L) (loss_masks ! r)) rows"
  shows "sft_loss vals ms ''token-mean'' dp all_reduce =
    (case base_update_sft fwd_one lp loss_masks dp all_reduce seqs masks of (losses, tokens) \<Rightarrow> Inr (sum_list losses, tokens))"
proof -
  let ?val = "\<lambda>(r, start, L). whole_values lp g (py_slice start (start + L) (seqs ! r))"
  let ?mask = "\<lambda>(r, start, L). py_slice (start + 1) (start + L) (loss_masks ! r)"
  have lens: "length (?val row) = length (?mask row)" if "row \<in> set rows" for row
  proof -
    obtain r start L where row: "row = (r, start, L)" by (metis surj_pair)
    have "r < length masks" "2 \<le> L" "start + L \<le> length (masks ! r)"
      using that collect_rows_fit [of r start L masks] unfolding assms(4) row by blast+
    moreover from this have "length (masks ! r) = length (seqs ! r)" "length (loss_masks ! r) = length (seqs ! r)"
      using list_all2_nthD [OF assms(1), of r] list_all2_nthD [OF assms(2), of r]
        list_all2_lengthD [OF assms(1)] list_all2_lengthD [OF assms(2)] by simp_all
    ultimately show ?thesis by (simp add: row whole_values_def)
  qed
  have shape: "same_shape (map (map uminus) vals) ms"
    using lens unfolding assms(5,6) same_shape_def by (simp add: comp_def)
  let ?G = "real (max (all_reduce (token_count ms)) 1)"
  have count: "token_count ms = sum_list (map (\<lambda>row. mask_count (?mask row)) rows)"
    by (simp add: token_count_def assms(6) comp_def)
  have "masked_sum (map (map uminus) vals) ms = (\<Sum>row \<leftarrow> rows. - row_sum (?val row) (?mask row))"
    unfolding masked_sum_def row_sum_masked assms(5,6) by (simp add: zip_map_map map2_map_map zip_same_conv_map comp_def row_sum_uminus)
  then have ref: "sft_loss vals ms ''token-mean'' dp all_reduce =
      Inr ((\<Sum>row \<leftarrow> rows. - row_sum (?val row) (?mask row)) / ?G * real dp, token_count ms)"
    using shape by (simp add: sft_loss_def agg_loss_def Let_def max_def)
  have item: "base_row_values fwd_one lp seqs row = (case row of (r, start, L) \<Rightarrow> (r, start, L, ?val row))" for row
    by (cases row) (simp add: base_row_whole [OF assms(3)])
  have "(case base_row_values fwd_one lp seqs row of (r, start, L, vals) \<Rightarrow>
        let n = min (length vals) (length (?mask row)); m = take n (?mask row) in
        if mask_count m < 1 then [] else [- row_sum (take n vals) m / ?G * real dp]) =
      (if mask_count (?mask row) < 1 then [] else [- row_sum (?val row) (?mask row) / ?G * real dp])" if "row \<in> set rows" for row
    using lens [OF that] by (cases row) (simp add: item Let_def)
  then have losses: "fst (base_update_sft fwd_one lp loss_masks dp all_reduce seqs masks) =
      concat (map (\<lambda>row. if mask_count (?mask row) < 1 then [] else [- row_sum (?val row) (?mask row) / ?G * real dp]) rows)"
    unfolding base_update_sft_def Let_def assms(4) [symmetric] fst_conv count [symmetric]
    by (intro arg_cong [where f = concat] map_cong refl) (simp add: Let_def)
  have total: "sum_list (concat (map (\<lambda>row. if mask_count (?mask row) < 1 then [] else [- row_sum (?val row) (?mask row) / G * real dp]) xs))
      = (\<Sum>row \<leftarrow> xs. - row_sum (?val row) (?mask row)) / G * real dp" for xs G
    by (induction xs) (simp_all add: row_sum_no_mask add_divide_distrib diff_divide_distrib algebra_simps)
  have tokens: "snd (base_update_sft fwd_one lp loss_masks dp all_reduce seqs masks) = token_count ms"
    unfolding base_update_sft_def Let_def assms(4) [symmetric] count [symmetric] snd_conv ..
  obtain ls n where pair: "base_update_sft fwd_one lp loss_masks dp all_reduce seqs masks = (ls, n)" by (metis surj_pair)
  show ?thesis using losses tokens unfolding ref pair fst_conv snd_conv prod.case by (simp only: total)
qed


lemma sft_update_matches_reference_witness:
  "let seqs = [[0, 5, 6, 7], [1, 2, 3, 4]]; masks = [[False, True, True, True], [True, True, True, True]];
      loss_masks = [[False, False, False, True], [False, False, True, True]]; lp = (\<lambda>l e. real (100 * l + e));
      rows = collect_rows masks in
    sft_loss (map (\<lambda>(r, start, L). whole_values lp last (py_slice start (start + L) (seqs ! r))) rows)
      (map (\<lambda>(r, start, L). py_slice (start + 1) (start + L) (loss_masks ! r)) rows) ''token-mean'' 2 (\<lambda>n. 2 * n) =
    (case base_update_sft own_token_alone lp loss_masks 2 (\<lambda>n. 2 * n) seqs masks of (losses, tokens) \<Rightarrow> Inr (sum_list losses, tokens))"
  unfolding Let_def by (rule sft_update_matches_reference [OF _ _ refl refl refl refl]) simp_all

lemma pipeline_ignores_sft:
  \<comment> \<open>the pipeline path ignores the task type: what the loss functions return for a supervised batch is zero\<close>
  assumes "\<And>r start vals. row_loss r start vals = Inr None" "ec_pipeline cfg"
    "engine_update_policy cfg None True counts fwd fwd_one lp row_loss loss_masks dp all_reduce seqs masks = Inr losses"
  shows "\<forall>l \<in> set losses. l = 0"
proof -
  have bins: "bin_losses row_loss items = Inr (None, no_metrics)" for items
    by (induction items) (auto simp: assms(1))
  obtain ms where "pp_update_policy cfg counts fwd lp row_loss seqs masks = Inr (losses, ms)"
    using assms(2,3) by (auto simp: engine_update_policy_def split: prod.splits)
  moreover have "loss = None" if "map_result (\<lambda>mb. bind_result (microbatch_values cfg fwd lp mb) (bin_losses row_loss)) mbs = Inr ys"
    "(loss, m) \<in> set ys" for mbs ys loss m
    using map_result_mem [OF that] by (auto simp: bins)
  ultimately show ?thesis by (fastforce simp: pp_update_policy_def Let_def split: if_splits option.splits)
qed

end
