(* ===== verification/Spec2Isabelle.thy ===== *)
theory Spec2Isabelle
  imports Data_Proto_Rows Dispatch Registry_Assembly Ray_Cluster Worker_Group_Props Message_Queue
    Weight_Sync Checkpointing Batch_Balancing Megatron_Replay Bucket_Transfer Rollout_Correction
    Bridge_Props Engine_Passes
begin

text \<open>
  LumenRL trains language models with reinforcement learning. A controller process holds the
  rollout batches, groups of Ray actors hold the models, and an inference engine generates the
  responses. This development models the Python code that decides which data goes where and
  which numbers it becomes: the batch protocol, its distribution over workers, the asynchronous
  queue and the transfer of weights between the two sides, checkpoints, the division and packing
  of batches, the replay of expert routing, and the arithmetic of rewards, advantages, corrections
  and losses. Paths below are relative to \<open>src/lumenrl\<close>; a definition has the name of the function
  or method it translates, with a prefix or suffix where HOL uses the name already.

  How a training step uses the parts. Prompts become a batch (\<open>Data_Proto\<close>), which the controller
  cuts for the workers and collects again (\<open>Dispatch\<close>, \<open>Worker_Group\<close>, started on the pools of
  \<open>Ray_Cluster\<close> with the classes that \<open>Registry_Assembly\<close> chose). Rollout threads feed samples
  through \<open>Message_Queue\<close>; the router of a mixture of experts is recorded and later replayed
  (\<open>Router_Replay\<close>, \<open>Router_Hooks\<close>, \<open>Megatron_Replay\<close>). Rewards are shaped (\<open>Reward_Shaping\<close>) and
  become advantages (\<open>Advantages\<close>); the batch is corrected for the difference between the rollout
  and the training policy (\<open>Rollout_Correction\<close>), divided into balanced shards and mini-batches
  (\<open>Seqlen_Balancing\<close>, \<open>Batch_Balancing\<close>), packed (\<open>Packing\<close>) and turned into a loss (\<open>Vocab_Probs\<close>,
  \<open>Policy_Losses\<close>). The new weights go back to the inference engine over the filesystem
  (\<open>Weight_Sync\<close>) or in buckets through a shared buffer (\<open>Bucket_Transfer\<close>), gathered over the
  training ranks, renamed to those of the checkpoint and routed to the expert parameters of the
  inference engine (\<open>GPT_Bridge\<close>, \<open>Stage_Gather\<close>, \<open>Expert_Sync\<close>), and to disk (\<open>Checkpointing\<close>).
\<close>

text \<open>
  Conventions. An operation that can raise returns \<open>'a result\<close>, \<open>Inl\<close> with the class of the
  exception or \<open>Inr\<close> with the value; an operation that has an effect before it raises returns the
  state beside the result. Python integers are \<open>int\<close>, sizes and positions \<open>nat\<close>; a dictionary is an
  association list in insertion order; iteration over a Python set is an arbitrary order that the
  definitions take as an argument. Objects that several owners share live in an explicit heap
  (the actor lists of worker groups) or buffer (weight transfer). Floating-point numbers are exact:
  rationals for thresholds and fractions, reals for losses and advantages; rounding is not
  modelled, and a result that torch reports as NaN is the error FloatingPointError. What lies
  outside \<open>src\<close> is a parameter: the answers of Ray, the linear map, softmax, top-k and attention of
  a model, the log-probability and entropy kernels, the constructors of worker classes, and the
  payload of a checkpoint.

  Theories and interfaces.

  \<^item> \<open>Py_Prelude\<close>: results, exceptions, list indexing, slices, dictionaries, decimal numerals;
    the collections \<open>py_eval\<close> and \<open>slice_simps\<close>. \<open>Tensor\<close>: tensors as a trailing shape and rows.
    \<open>Group_Stats\<close>: means, deviations and groups of real vectors.
  \<^item> Interfaces: \<open>keyed_store\<close> (\<open>Keyed_Store\<close>) is interpreted on dictionaries, component registries
    and resource pools; \<open>row_store\<close> (\<open>Row_Store\<close>) on batches, where dispatch is its client; \<open>fifo\<close>
    (\<open>Fifo\<close>) on the sample queue; \<open>pruned_store\<close> (\<open>Pruned_Store\<close>) on weight snapshots, checkpoint
    files and checkpoint directories; \<open>priority_queue\<close> (\<open>Priority_Queue\<close>) on Python's \<open>heapq\<close>, where
    sequence-length balancing is its client.
  \<^item> \<open>Data_Proto\<close> with \<open>_Laws\<close>, \<open>_Joins\<close>, \<open>_Props\<close>, \<open>_Rows\<close>: \<open>core/protocol.py\<close>. The invariant
    \<open>proto_ok\<close> is kept by every row operation; every row operation is a \<open>pick\<close> of an index list, so
    that round trips (split and merge, pad and unpad, permute and permute back) are equations
    between index lists.
  \<^item> \<open>Dispatch\<close>: \<open>controller/dispatch.py\<close>, every dispatch mode and its collection.
    \<open>Ray_Cluster\<close>: \<open>controller/ray_cluster.py\<close>. \<open>Worker_Group\<close>, \<open>Worker_Group_Props\<close>:
    \<open>controller/ray_worker_group.py\<close> over a heap; reachable heaps are an inductive set, with the
    history of the links between a group and its views that a re-attachment has cut.
    \<open>Registry_Assembly\<close>: \<open>core/registry.py\<close>, \<open>architecture/\<close>, \<open>controller/colocation.py\<close>,
    \<open>controller/worker_group_factory.py\<close>.
  \<^item> \<open>Message_Queue\<close>: \<open>trainer/message_queue.py\<close>, once as functions and once as the steps of a
    consumer interleaved with producers, of which the functions are schedules (\<open>mq_put_steps\<close>,
    \<open>get_batch_steps\<close>); \<open>get_batch_loop\<close> terminates by the length of the buffer.
  \<^item> \<open>Weight_Sync\<close>: \<open>trainer/weight_sync.py\<close>. \<open>Checkpointing\<close>: \<open>utils/checkpoint.py\<close>,
    \<open>trainer/callbacks.py\<close>, the pruning and the save phases of \<open>workers/actor_worker.py\<close>. Both over
    the directory model of \<open>Pruned_Store\<close>.
  \<^item> \<open>Bucket_Transfer\<close>: \<open>engine/inference/bucketed_weight_transfer.py\<close>, the single-slot and the
    double-buffered protocol, as interleavings of two processes over one buffer. A transfer of n
    weights takes at most 10 n + 6 actions, which bounds every execution; \<open>run_alternating\<close>, the
    executable scheduler of the witnesses, takes its fuel from that bound.
  \<^item> \<open>Name_Pattern\<close>, \<open>Weight_Tensor\<close>, \<open>Weight_Bridge\<close>: name templates, the tensor operations of the
    bridges and \<open>engine/training/bridges/core.py\<close>. \<open>GPT_Bridge\<close>: \<open>engine/training/bridges/gpt.py\<close>,
    with the rule every name finds in \<open>GPT_Match\<close> and loading followed by export in \<open>GPT_Round_Trip\<close>
    (\<open>moves\<close> relates a piece of a rank's state to the checkpoint tensors it becomes). \<open>Stage_Gather\<close>:
    the expert shards of \<open>engine/training/megatron_native_engine.py\<close>; a collective is a function of
    the tensors of its group. \<open>Expert_Sync\<close>: \<open>engine/inference/vllm_moe_weight_sync.py\<close>.
    \<open>Expert_Path\<close> follows one expert from the checkpoint over shards, gather and bridge to the
    receiver; \<open>Bridge_Props\<close> states what holds for all ranks of a mesh.
  \<^item> \<open>Priority_Queue\<close>, \<open>Seqlen_Balancing\<close>: \<open>utils/seqlen_balancing.py\<close> on the heap of the
    standard library. \<open>Batch_Balancing\<close>: the divisions of a batch in \<open>trainer/rl_trainer.py\<close>.
    \<open>Packing\<close>: \<open>engine/training/packing.py\<close>. \<open>Context_Parallel\<close>: microbatches, the token streams
    of context parallel ranks and the row values put together from them, in
    \<open>engine/training/megatron_native_engine.py\<close>, with the bins of \<open>megatron_base_engine.py\<close>.
    \<open>Route_Packing\<close>: \<open>engine/training/megatron_r3_replay.py\<close>, the rollout's experts for such a stream.
    \<open>Engine_Passes\<close>: the log-probability and update passes of \<open>megatron_base_engine.py\<close> and
    \<open>megatron_native_engine.py\<close> over a batch and the loss of a row; the model is a parameter that
    attends causally within a sequence (\<open>attends_causally\<close>).
  \<^item> \<open>Router_Replay\<close>: \<open>moe/rollout_routing.py\<close>, \<open>moe/router_precision.py\<close>. \<open>Router_Hooks\<close>,
    \<open>Megatron_Replay\<close>: \<open>moe/moe_utils.py\<close>, \<open>moe/router_recorder.py\<close>, \<open>moe/router_replayer.py\<close>,
    \<open>moe/r3_manager.py\<close>, \<open>moe/r3_scope.py\<close>.
  \<^item> \<open>Advantages\<close>: \<open>algorithms/advantage_estimators.py\<close>. \<open>Reward_Shaping\<close>:
    \<open>algorithms/dapo_sampling.py\<close>, \<open>algorithms/kl_controller.py\<close>. \<open>Vocab_Probs\<close>:
    \<open>utils/torch_functional.py\<close>, \<open>utils/vocab_parallel.py\<close>. \<open>Policy_Losses\<close>:
    \<open>algorithms/loss_functions.py\<close>. \<open>Rollout_Correction\<close>: \<open>algorithms/rollout_correction.py\<close> with the
    thresholds of \<open>core/config.py\<close>.
\<close>

text \<open>
  Not modelled: the rest of the training and inference engines and the model zoo (wrappers of torch, FSDP,
  Megatron, vLLM, ATOM and SGLang whose state is that of GPU modules), the workers that drive them,
  the training loops (GPU work, logging and files around the operations above), configuration
  loading, the load path of checkpoints, gradients, metrics that are only logged, and the example
  and dashboard scripts.
\<close>

end
